(* ===== verification/Go_Prelude.thy ===== *)
theory Go_Prelude
  imports Main "HOL-Library.Word" "HOL-Library.Monad_Syntax"
begin

text \<open>
  What the components share: Go's byte strings, run-time panics, slice expressions and the
  \<open>copy\<close> built-in, and the lemmas on lists and words that the component proofs rewrite with.

  \<^item> A Go \<open>byte\<close> is an \<open>8 word\<close>; \<open>[]byte\<close> and \<open>string\<close> are both byte lists, so that
    the conversions between them, which copy the bytes, are the identity.
  \<^item> A function that can panic returns an \<open>option\<close>: \<open>None\<close> is a run-time panic (a slice or an
    index out of range, a nil dereference, a division by zero), \<open>Some\<close> the value it returns.
  \<^item> A function that returns \<open>(T, error)\<close> returns a pair or, where the value is unused on
    an error, a sum with the error on the left.
\<close>

unbundle bit_operations_syntax

type_synonym byte = "8 word"
type_synonym bytes = "byte list"

text \<open>The facts on slices and copies the buffer proofs rewrite with.\<close>

named_theorems slice_simps

text \<open>
  \<open>make\<close> panics above the largest allocation of the Go runtime, 2^48 bytes; an interface takes 16
  bytes.
\<close>

definition maxAlloc :: nat where "maxAlloc = 2 ^ 48"

section \<open>String literals\<close>

text \<open>A Go string literal, as its bytes.\<close>

definition lit :: "string \<Rightarrow> bytes" where
  "lit s = map of_char s"

lemma lit_Nil [simp]: "lit [] = []"
  by (simp add: lit_def)

lemma lit_Cons [simp]: "lit (c # s) = of_char c # lit s"
  by (simp add: lit_def)

lemma length_lit [simp]: "length (lit s) = length s"
  by (simp add: lit_def)

section \<open>Slices\<close>

text \<open>
  \<open>xs[i:j]\<close>, \<open>xs[i:]\<close> and \<open>xs[i]\<close> with their bounds checks. Every slice the sources take by
  such an expression comes straight from \<open>make\<close>, a literal or a parameter that is read only, so
  its capacity is its length and the upper bound of a slice expression is the length.
\<close>

definition slice :: "'a list \<Rightarrow> nat \<Rightarrow> nat \<Rightarrow> 'a list option" where
  "slice xs i j = (if i \<le> j \<and> j \<le> length xs then Some (take (j - i) (drop i xs)) else None)"

definition slice_from :: "'a list \<Rightarrow> nat \<Rightarrow> 'a list option" where
  "slice_from xs i = (if i \<le> length xs then Some (drop i xs) else None)"

definition index_at :: "'a list \<Rightarrow> nat \<Rightarrow> 'a option" where
  "index_at xs i = (if i < length xs then Some (xs ! i) else None)"

definition set_at :: "'a list \<Rightarrow> nat \<Rightarrow> 'a \<Rightarrow> 'a list option" where
  "set_at xs i v = (if i < length xs then Some (xs[i := v]) else None)"

text \<open>
  \<open>copy(dst[off:], src)\<close>: panics when \<open>off\<close> is past the end, and copies as many elements as
  both slices hold.
\<close>

definition copy_at :: "'a list \<Rightarrow> nat \<Rightarrow> 'a list \<Rightarrow> 'a list option" where
  "copy_at dst off src =
     (if off \<le> length dst
      then Some (take off dst @ take (length dst - off) src @ drop (off + length src) dst)
      else None)"

lemma slice_Some [slice_simps]:
  "i \<le> j \<Longrightarrow> j \<le> length xs \<Longrightarrow> slice xs i j = Some (take (j - i) (drop i xs))"
  by (simp add: slice_def)

lemma slice_from_Some [slice_simps]: "i \<le> length xs \<Longrightarrow> slice_from xs i = Some (drop i xs)"
  by (simp add: slice_from_def)

lemma index_at_Some [slice_simps]: "i < length xs \<Longrightarrow> index_at xs i = Some (xs ! i)"
  by (simp add: index_at_def)

lemma set_at_Some [slice_simps]: "i < length xs \<Longrightarrow> set_at xs i v = Some (xs[i := v])"
  by (simp add: set_at_def)

lemma copy_at_Some [slice_simps]:
  "off + length src \<le> length dst \<Longrightarrow>
   copy_at dst off src = Some (take off dst @ src @ drop (off + length src) dst)"
  by (simp add: copy_at_def)

lemma length_copy_at: "copy_at dst off src = Some dst' \<Longrightarrow> length dst' = length dst"
  by (auto simp: copy_at_def split: if_splits)

lemma copy_at_eq_Some_iff: "(\<exists>dst'. copy_at dst off src = Some dst') \<longleftrightarrow> off \<le> length dst"
  by (simp add: copy_at_def)

section \<open>encoding/binary\<close>

text \<open>
  \<open>binary.LittleEndian\<close>: \<open>PutUint16/32/64(b[off:], v)\<close> checks that the slice holds enough
  bytes and stores the least significant one first; \<open>Uint16/32/64(b)\<close> reads them back.
\<close>

definition le_bytes :: "nat \<Rightarrow> 'a::len word \<Rightarrow> bytes" where
  "le_bytes n v = map (\<lambda>i. ucast (drop_bit (8 * i) v)) [0..<n]"

definition le_put :: "nat \<Rightarrow> bytes \<Rightarrow> nat \<Rightarrow> 'a::len word \<Rightarrow> bytes option" where
  "le_put n dst off v =
     (if off + n \<le> length dst then copy_at dst off (le_bytes n v) else None)"

definition le_get :: "nat \<Rightarrow> bytes \<Rightarrow> 'a::len word option" where
  "le_get n b =
     (if n \<le> length b
      then Some (foldr (\<lambda>x acc. ucast x OR push_bit 8 acc) (take n b) 0)
      else None)"

lemma length_le_bytes [simp]: "length (le_bytes n v) = n"
  by (simp add: le_bytes_def)

lemma take_drop_append_last:
  "i \<le> j \<Longrightarrow> j \<le> length xs \<Longrightarrow> take (j - i) (drop i xs) @ drop j xs = drop i xs"
  by (metis append_take_drop_id drop_drop le_add_diff_inverse2)

section \<open>Circular buffers\<close>

text \<open>
  Both rings of the network library keep monotone counters and index their storage modulo its
  length.  \<open>ring_read xs s n\<close> is the \<open>n\<close> elements from counter \<open>s\<close> on; \<open>ring_write\<close> stores a list there.
\<close>

definition ring_read :: "'a list \<Rightarrow> nat \<Rightarrow> nat \<Rightarrow> 'a list" where
  "ring_read xs s n = map (\<lambda>i. xs ! ((s + i) mod length xs)) [0..<n]"

fun ring_write :: "'a list \<Rightarrow> nat \<Rightarrow> 'a list \<Rightarrow> 'a list" where
  "ring_write xs s [] = xs"
| "ring_write xs s (y # ys) = ring_write (xs[s mod length xs := y]) (Suc s) ys"

lemma length_ring_read [simp]: "length (ring_read xs s n) = n"
  by (simp add: ring_read_def)

lemma ring_read_0 [simp]: "ring_read xs s 0 = []"
  by (simp add: ring_read_def)

lemma length_ring_write [simp]: "length (ring_write xs s ys) = length xs"
  by (induction xs s ys rule: ring_write.induct) simp_all

lemma ring_read_add: "ring_read xs s (m + n) = ring_read xs s m @ ring_read xs (s + m) n"
  by (rule nth_equalityI) (auto simp: ring_read_def nth_append)

lemma ring_read_Suc: "ring_read xs s (Suc n) = xs ! (s mod length xs) # ring_read xs (Suc s) n"
  using ring_read_add [of xs s 1 n] by (simp add: ring_read_def)

lemma ring_read_mod [simp]: "ring_read xs (s mod length xs) n = ring_read xs s n"
  by (simp add: ring_read_def mod_add_left_eq)

lemma ring_read_cong_mod:
  "s mod length xs = t mod length xs \<Longrightarrow> ring_read xs s n = ring_read xs t n"
  by (metis ring_read_mod)

lemma drop_ring_read: "drop m (ring_read xs s n) = ring_read xs (s + m) (n - m)"
  by (rule nth_equalityI) (auto simp: ring_read_def add.assoc)

lemma take_ring_read: "m \<le> n \<Longrightarrow> take m (ring_read xs s n) = ring_read xs s m"
  by (rule nth_equalityI) (auto simp: ring_read_def)

lemma ring_read_contiguous:
  assumes "s mod length xs + n \<le> length xs" and "xs \<noteq> []"
  shows "ring_read xs s n = take n (drop (s mod length xs) xs)"
proof (rule nth_equalityI)
  show "length (ring_read xs s n) = length (take n (drop (s mod length xs) xs))"
    using assms by auto
next
  fix i
  assume "i < length (ring_read xs s n)"
  then have i: "i < n" by simp
  with assms(1) have "(s + i) mod length xs = s mod length xs + i"
    by (metis add_less_le_mono mod_add_left_eq mod_less nat_add_left_cancel_less order_less_le_trans)
  with assms i show "ring_read xs s n ! i = take n (drop (s mod length xs) xs) ! i"
    by (simp add: ring_read_def)
qed

lemma mod_add_neq:
  fixes L :: nat
  assumes "i < j" and "j - i < L"
  shows "(s + i) mod L \<noteq> (s + j) mod L"
proof
  assume "(s + i) mod L = (s + j) mod L"
  then have "(s + j) mod L = (s + i) mod L" by simp
  then have "L dvd (s + j) - (s + i)" by (rule mod_eq_dvd_iff_nat [THEN iffD1, rotated]) (use assms in simp)
  then have "L dvd j - i" by simp
  with assms show False by (auto dest: dvd_imp_le)
qed

lemma ring_read_update_free:
  assumes "n < length xs"
  shows "ring_read (xs[(s + n) mod length xs := y]) s n = ring_read xs s n"
proof (rule nth_equalityI)
  fix i
  assume "i < length (ring_read (xs[(s + n) mod length xs := y]) s n)"
  then have i: "i < n" by simp
  with assms have "(s + i) mod length xs \<noteq> (s + n) mod length xs" by (intro mod_add_neq) auto
  with i show "ring_read (xs[(s + n) mod length xs := y]) s n ! i = ring_read xs s n ! i"
    by (simp add: ring_read_def)
qed simp

lemma ring_read_snoc:
  assumes "n < length xs"
  shows "ring_read (xs[(s + n) mod length xs := y]) s (Suc n) = ring_read xs s n @ [y]"
proof -
  have "ring_read (xs[(s + n) mod length xs := y]) s (n + 1) =
    ring_read (xs[(s + n) mod length xs := y]) s n @ ring_read (xs[(s + n) mod length xs := y]) (s + n) 1"
    by (rule ring_read_add)
  moreover have "(s + n) mod length xs < length xs" using assms by (intro mod_less_divisor) linarith
  ultimately show ?thesis
    using ring_read_update_free [OF assms] by (simp add: ring_read_def)
qed

lemma ring_read_write:
  assumes "n + length ys \<le> length xs"
  shows "ring_read (ring_write xs (s + n) ys) s (n + length ys) = ring_read xs s n @ ys"
  using assms
proof (induction ys arbitrary: xs n)
  case Nil
  then show ?case by simp
next
  case (Cons y ys)
  let ?xs = "xs[(s + n) mod length xs := y]"
  from Cons.prems have n: "n < length xs" by simp
  from Cons.prems have "Suc n + length ys \<le> length ?xs" by simp
  from Cons.IH [OF this] have
    "ring_read (ring_write ?xs (s + Suc n) ys) s (Suc n + length ys) = ring_read ?xs s (Suc n) @ ys" .
  with n show ?case by (simp add: ring_read_snoc del: ring_read_def)
qed

section \<open>Words\<close>

lemma unat_bound: "unat (x::'a::len word) < 2 ^ LENGTH('a)"
  by (rule unsigned_less)

lemma unat_bound64: "unat (x::64 word) < 18446744073709551616"
  using unat_bound [of x] by simp

lemma mod_once: "n \<le> m \<Longrightarrow> m < 2 * n \<Longrightarrow> m mod n = m - (n::nat)"
  by (simp add: le_mod_geq)

lemma mod_below_twice: "m < 2 * n \<Longrightarrow> m mod n = (if m < n then m else m - (n::nat))"
  by (simp add: mod_once)

lemma sint_of_nat_small: "n < 2 ^ 63 \<Longrightarrow> sint (of_nat n :: 64 word) = int n"
  by (simp add: signed_of_nat signed_take_bit_int_eq_self)

lemma unat_of_nat_small: "n < 2 ^ 63 \<Longrightarrow> unat (of_nat n :: 64 word) = n"
  by (simp add: unat_of_nat)

lemma unat_exp:
  assumes "k < LENGTH('a)"
  shows "unat ((2::'a::len word) ^ k) = 2 ^ k"
proof -
  have "unat (of_nat (2 ^ k) :: 'a word) = 2 ^ k mod 2 ^ LENGTH('a)" by (rule unat_of_nat)
  moreover from assms have "(2::nat) ^ k < 2 ^ LENGTH('a)" by (intro power_strict_increasing) simp_all
  ultimately show ?thesis by simp
qed

lemma unat_Suc_word:
  fixes x :: "'a::len word"
  assumes "unat x < n" and "n < 2 ^ LENGTH('a)"
  shows "unat (x + 1) = Suc (unat x)"
  using assms by (simp add: unat_word_ariths)

lemma unat_and_mask_exp:
  fixes x :: "'a::len word"
  shows "unat (x AND (2 ^ k - 1)) = unat x mod 2 ^ k"
proof -
  have "x AND (2 ^ k - 1) = take_bit k x" by (simp only: take_bit_eq_mask mask_eq_exp_minus_1)
  moreover have "unat (take_bit k x) = take_bit k (unat x)" by (rule unsigned_take_bit_eq)
  ultimately show ?thesis by (simp only: take_bit_eq_mod)
qed

lemma unat_add_of_nat_mod:
  fixes x :: "'a::len word"
  assumes "k \<le> LENGTH('a)"
  shows "unat (x + of_nat n) mod 2 ^ k = (unat x + n) mod 2 ^ k"
proof -
  from assms have "(2::nat) ^ k dvd 2 ^ LENGTH('a)" by (rule le_imp_power_dvd)
  moreover have "unat (x + of_nat n) = (unat x + n) mod 2 ^ LENGTH('a)"
    by (simp add: unat_word_ariths unat_of_nat mod_add_right_eq)
  ultimately show ?thesis by (simp add: mod_mod_cancel)
qed

section \<open>Little-endian integers read back\<close>

lemma le_bytes_Suc: "le_bytes (Suc n) v = ucast v # le_bytes n (drop_bit 8 v)"
  by (rule nth_equalityI)
    (auto simp: le_bytes_def nth_Cons' drop_bit_drop_bit less_Suc_eq_0_disj algebra_simps simp del: upt_Suc)

lemma ucast_byte_or_push:
  fixes v :: "'a::len word"
  shows "ucast (ucast v :: byte) OR push_bit 8 (ucast (take_bit n (drop_bit 8 v))) =
    (ucast (take_bit (8 + n) v) :: 'b::len word)"
  by (rule bit_word_eqI) (auto simp: bit_simps)

lemma le_get_fold:
  fixes v :: "'a::len word"
  shows "foldr (\<lambda>x acc. ucast x OR push_bit 8 acc) (le_bytes n v) 0 = (ucast (take_bit (8 * n) v) :: 'b::len word)"
proof (induction n arbitrary: v)
  case 0
  then show ?case by (simp add: le_bytes_def)
next
  case (Suc n)
  then show ?case by (simp add: le_bytes_Suc ucast_byte_or_push)
qed

lemma le_get_le_bytes:
  fixes v :: "'a::len word"
  shows "le_get n (le_bytes n v @ xs) = Some (ucast (take_bit (8 * n) v) :: 'b::len word)"
  by (simp add: le_get_def le_get_fold)

lemma le_bytes_4: "le_bytes 4 v = [ucast v, ucast (drop_bit 8 v), ucast (drop_bit 16 v), ucast (drop_bit 24 v)]"
  by (simp add: le_bytes_def upt_rec)

lemma unat_ucast_take_bit_of_nat:
  assumes "n < 2 ^ k" and "k \<le> LENGTH('a::len)" and "k \<le> LENGTH('b::len)"
  shows "unat (ucast (take_bit k (of_nat n :: 'a word)) :: 'b word) = n"
proof -
  have "n < 2 ^ LENGTH('a)" "n < 2 ^ LENGTH('b)"
    using assms by (auto intro: less_le_trans [OF _ power_increasing])
  with assms(1) show ?thesis
    by (simp add: unsigned_ucast_eq unsigned_take_bit_eq unsigned_of_nat take_bit_nat_eq_self)
qed

end
