(* ===== verification/Gonet_ByteBuffer.thy ===== *)
theory Gonet_ByteBuffer
  imports Go_Prelude
begin

text \<open>
  The growable byte buffer of \<open>lib/gonet/bytebuffer.go\<close>, which every TCP task reads into and
  writes from.  The state is the Go struct; the operations are its methods, with the slice
  expressions that would panic out of range returning \<open>None\<close>.  The invariant says that the
  two indices lie inside the buffer and the reader is not past the writer;
  \<open>bb_contents\<close>, the bytes between the indices, is the byte queue the buffer stands for.

  The sizes that the callers pass are numbers of bytes and are not negative, and an allocation is taken
  to succeed; a run whose sizes stay below the largest allocation of the runtime never asks for more than that.
\<close>

record ByteBuffer =
  buffer :: bytes
  prependSize :: nat
  readerIndex :: nat
  writerIndex :: nat

definition presize :: nat where "presize = 0"

definition initsize :: nat where "initsize = 128"

definition NewByteBuffer :: ByteBuffer where
  "NewByteBuffer =
     \<lparr>buffer = replicate (presize + initsize) 0, prependSize = presize,
      readerIndex = presize, writerIndex = presize\<rparr>"

definition ByteBuffer_WrSize :: "ByteBuffer \<Rightarrow> int" where
  "ByteBuffer_WrSize b = int (length (buffer b)) - int (writerIndex b)"

definition ByteBuffer_RdSize :: "ByteBuffer \<Rightarrow> int" where
  "ByteBuffer_RdSize b = int (writerIndex b) - int (readerIndex b)"

definition ByteBuffer_RdReady :: "ByteBuffer \<Rightarrow> bool" where
  "ByteBuffer_RdReady b = (writerIndex b > readerIndex b)"

definition ByteBuffer_MaxSize :: "ByteBuffer \<Rightarrow> nat" where
  "ByteBuffer_MaxSize b = length (buffer b)"

definition ByteBuffer_WrBuf :: "ByteBuffer \<Rightarrow> bytes" where
  "ByteBuffer_WrBuf b =
     (if writerIndex b \<ge> length (buffer b) then [] else drop (writerIndex b) (buffer b))"

definition ByteBuffer_RdBuf :: "ByteBuffer \<Rightarrow> bytes" where
  "ByteBuffer_RdBuf b =
     (if readerIndex b \<ge> length (buffer b) then [] else drop (readerIndex b) (buffer b))"

definition ByteBuffer_WrFlip :: "ByteBuffer \<Rightarrow> nat \<Rightarrow> ByteBuffer" where
  "ByteBuffer_WrFlip b n = b\<lparr>writerIndex := writerIndex b + n\<rparr>"

definition ByteBuffer_Reset :: "ByteBuffer \<Rightarrow> ByteBuffer" where
  "ByteBuffer_Reset b = b\<lparr>readerIndex := prependSize b, writerIndex := prependSize b\<rparr>"

definition ByteBuffer_RdFlip :: "ByteBuffer \<Rightarrow> nat \<Rightarrow> ByteBuffer" where
  "ByteBuffer_RdFlip b n =
     (if int n < ByteBuffer_RdSize b
      then b\<lparr>readerIndex := readerIndex b + n\<rparr>
      else ByteBuffer_Reset b)"

definition ByteBuffer_wrreserve :: "ByteBuffer \<Rightarrow> nat \<Rightarrow> ByteBuffer option" where
  "ByteBuffer_wrreserve b n =
     (if ByteBuffer_WrSize b + int (readerIndex b) < int n + int (prependSize b)
      then do {
        tmpbuff \<leftarrow> copy_at (replicate (writerIndex b + n) 0) 0 (buffer b);
        Some (b\<lparr>buffer := tmpbuff\<rparr>)
      }
      else do {
        src \<leftarrow> slice (buffer b) (readerIndex b) (writerIndex b);
        buf \<leftarrow> copy_at (buffer b) (prependSize b) src;
        let readable = writerIndex b - readerIndex b;
        Some (b\<lparr>buffer := buf, readerIndex := prependSize b,
                writerIndex := prependSize b + readable\<rparr>)
      })"

definition ByteBuffer_WrGrow :: "ByteBuffer \<Rightarrow> nat \<Rightarrow> ByteBuffer option" where
  "ByteBuffer_WrGrow b n =
     (if int n > ByteBuffer_WrSize b then ByteBuffer_wrreserve b n else Some b)"

definition ByteBuffer_AppendUint16 :: "ByteBuffer \<Rightarrow> 16 word \<Rightarrow> ByteBuffer option" where
  "ByteBuffer_AppendUint16 b num = do {
     b1 \<leftarrow> ByteBuffer_WrGrow b 2;
     buf \<leftarrow> le_put 2 (buffer b1) (writerIndex b1) num;
     Some (ByteBuffer_WrFlip (b1\<lparr>buffer := buf\<rparr>) 2)
   }"

definition ByteBuffer_AppendUint32 :: "ByteBuffer \<Rightarrow> 32 word \<Rightarrow> ByteBuffer option" where
  "ByteBuffer_AppendUint32 b num = do {
     b1 \<leftarrow> ByteBuffer_WrGrow b 4;
     buf \<leftarrow> le_put 4 (buffer b1) (writerIndex b1) num;
     Some (ByteBuffer_WrFlip (b1\<lparr>buffer := buf\<rparr>) 4)
   }"

definition ByteBuffer_AppendUint64 :: "ByteBuffer \<Rightarrow> 64 word \<Rightarrow> ByteBuffer option" where
  "ByteBuffer_AppendUint64 b num = do {
     b1 \<leftarrow> ByteBuffer_WrGrow b 8;
     buf \<leftarrow> le_put 8 (buffer b1) (writerIndex b1) num;
     Some (ByteBuffer_WrFlip (b1\<lparr>buffer := buf\<rparr>) 8)
   }"

definition ByteBuffer_Append :: "ByteBuffer \<Rightarrow> bytes \<Rightarrow> ByteBuffer option" where
  "ByteBuffer_Append b buff =
     (let n = length buff in
      if n = 0 then Some b
      else do {
        b1 \<leftarrow> ByteBuffer_WrGrow b n;
        buf \<leftarrow> copy_at (buffer b1) (writerIndex b1) buff;
        Some (ByteBuffer_WrFlip (b1\<lparr>buffer := buf\<rparr>) n)
      })"

definition ByteBuffer_Prepend :: "ByteBuffer \<Rightarrow> bytes \<Rightarrow> (ByteBuffer \<times> bool) option" where
  "ByteBuffer_Prepend b buff =
     (let n = length buff in
      if readerIndex b < n then Some (b, False)
      else do {
        let b1 = b\<lparr>readerIndex := readerIndex b - n\<rparr>;
        buf \<leftarrow> copy_at (buffer b1) (readerIndex b1) buff;
        Some (b1\<lparr>buffer := buf\<rparr>, True)
      })"

text \<open>
  A read into the writable part: \<open>Read(b.WrBuf())\<close> stores the bytes it got from the connection
  at the front of that slice, and the caller then advances the writer by their number.
\<close>

definition ByteBuffer_fill :: "ByteBuffer \<Rightarrow> bytes \<Rightarrow> ByteBuffer option" where
  "ByteBuffer_fill b xs = do {
     buf \<leftarrow> copy_at (buffer b) (writerIndex b) xs;
     Some (ByteBuffer_WrFlip (b\<lparr>buffer := buf\<rparr>) (length xs))
   }"

section \<open>The invariant and the byte queue a buffer stands for\<close>

definition bb_inv :: "ByteBuffer \<Rightarrow> bool" where
  "bb_inv b = (readerIndex b \<le> writerIndex b \<and> prependSize b \<le> writerIndex b \<and>
            writerIndex b \<le> length (buffer b))"

definition bb_contents :: "ByteBuffer \<Rightarrow> bytes" where
  "bb_contents b = take (writerIndex b - readerIndex b) (drop (readerIndex b) (buffer b))"

lemma length_contents: "bb_inv b \<Longrightarrow> length (bb_contents b) = writerIndex b - readerIndex b"
  by (auto simp: bb_inv_def bb_contents_def)

lemma RdSize_contents: "bb_inv b \<Longrightarrow> ByteBuffer_RdSize b = int (length (bb_contents b))"
  by (simp add: ByteBuffer_RdSize_def length_contents) (simp add: bb_inv_def)

lemma RdBuf_contents: "bb_inv b \<Longrightarrow> take (length (bb_contents b)) (ByteBuffer_RdBuf b) = bb_contents b"
  by (auto simp: ByteBuffer_RdBuf_def bb_inv_def bb_contents_def)

lemma RdReady_contents: "bb_inv b \<Longrightarrow> ByteBuffer_RdReady b = (bb_contents b \<noteq> [])"
  by (auto simp: ByteBuffer_RdReady_def bb_inv_def bb_contents_def)

lemma NewByteBuffer_inv: "bb_inv NewByteBuffer" "bb_contents NewByteBuffer = []"
  by (simp_all add: bb_inv_def bb_contents_def NewByteBuffer_def presize_def)

lemma Reset_inv:
  "bb_inv b \<Longrightarrow> bb_inv (ByteBuffer_Reset b)" "bb_inv b \<Longrightarrow> bb_contents (ByteBuffer_Reset b) = []"
  by (auto simp: bb_inv_def bb_contents_def ByteBuffer_Reset_def)

lemma RdFlip_inv: "bb_inv b \<Longrightarrow> bb_inv (ByteBuffer_RdFlip b n)"
  by (auto simp: bb_inv_def ByteBuffer_RdFlip_def ByteBuffer_RdSize_def ByteBuffer_Reset_def)

lemma RdFlip_contents: "bb_inv b \<Longrightarrow> bb_contents (ByteBuffer_RdFlip b n) = drop n (bb_contents b)"
  by (auto simp: bb_inv_def bb_contents_def ByteBuffer_RdFlip_def ByteBuffer_RdSize_def
      ByteBuffer_Reset_def drop_take add.commute)

lemma WrGrow_inv:
  assumes "bb_inv b"
  shows "\<exists>b'. ByteBuffer_WrGrow b n = Some b' \<and> bb_inv b' \<and> bb_contents b' = bb_contents b \<and>
              int n \<le> ByteBuffer_WrSize b'"
proof (cases "int n > ByteBuffer_WrSize b")
  case False
  with assms show ?thesis by (simp add: ByteBuffer_WrGrow_def)
next
  case grow: True
  show ?thesis
  proof (cases "ByteBuffer_WrSize b + int (readerIndex b) < int n + int (prependSize b)")
    case True
    with grow assms show ?thesis
      by (auto simp: ByteBuffer_WrGrow_def ByteBuffer_wrreserve_def ByteBuffer_WrSize_def copy_at_def
          bb_inv_def bb_contents_def)
  next
    case False
    with grow assms show ?thesis
      by (auto simp: ByteBuffer_WrGrow_def ByteBuffer_wrreserve_def ByteBuffer_WrSize_def slice_simps
          bb_inv_def bb_contents_def Let_def)
  qed
qed

lemma fill_inv:
  assumes "bb_inv b" and "int (length xs) \<le> ByteBuffer_WrSize b"
  shows "\<exists>b'. ByteBuffer_fill b xs = Some b' \<and> bb_inv b' \<and> bb_contents b' = bb_contents b @ xs"
  using assms
  by (auto simp: ByteBuffer_fill_def ByteBuffer_WrSize_def ByteBuffer_WrFlip_def copy_at_Some
      bb_inv_def bb_contents_def drop_take)

section \<open>The buffer as a byte queue\<close>

text \<open>
  What the TCP tasks rely on: a queue of bytes that can be asked for room, written at the end and
  consumed at the front, and that never panics while its invariant holds.
\<close>

locale byte_queue =
  fixes wf :: "'b \<Rightarrow> bool"
    and queued :: "'b \<Rightarrow> bytes"
    and room :: "'b \<Rightarrow> int"
    and reserve :: "'b \<Rightarrow> nat \<Rightarrow> 'b option"
    and store :: "'b \<Rightarrow> bytes \<Rightarrow> 'b option"
    and discard :: "'b \<Rightarrow> nat \<Rightarrow> 'b"
  assumes reserve: "wf b \<Longrightarrow> \<exists>b'. reserve b n = Some b' \<and> wf b' \<and> queued b' = queued b \<and> int n \<le> room b'"
    and store: "wf b \<Longrightarrow> int (length xs) \<le> room b \<Longrightarrow>
      \<exists>b'. store b xs = Some b' \<and> wf b' \<and> queued b' = queued b @ xs"
    and wf_discard: "wf b \<Longrightarrow> wf (discard b n)"
    and discard: "wf b \<Longrightarrow> queued (discard b n) = drop n (queued b)"
begin

lemma reserve_store:
  assumes "wf b"
  shows "\<exists>b'. Option.bind (reserve b (length xs)) (\<lambda>b1. store b1 xs) = Some b' \<and>
    wf b' \<and> queued b' = queued b @ xs"
proof -
  from reserve [OF assms, of "length xs"] obtain b1 where
    b1: "reserve b (length xs) = Some b1" "wf b1" "queued b1 = queued b" "int (length xs) \<le> room b1"
    by blast
  from store [OF b1(2,4)] b1(1,3) show ?thesis by auto
qed

lemma discard_all: "wf b \<Longrightarrow> length (queued b) \<le> n \<Longrightarrow> queued (discard b n) = []"
  by (simp add: discard)

lemma discard_stored:
  assumes "wf b" and "queued b = xs @ ys"
  shows "queued (discard b (length xs)) = ys"
  using assms by (simp add: discard)

end

interpretation bb: byte_queue bb_inv bb_contents ByteBuffer_WrSize ByteBuffer_WrGrow
  ByteBuffer_fill ByteBuffer_RdFlip
  by unfold_locales (simp_all add: WrGrow_inv fill_inv RdFlip_inv RdFlip_contents)

lemma Append_fill:
  "ByteBuffer_Append b xs =
     (if xs = [] then Some b
      else Option.bind (ByteBuffer_WrGrow b (length xs)) (\<lambda>b1. ByteBuffer_fill b1 xs))"
  by (simp add: ByteBuffer_Append_def ByteBuffer_fill_def Let_def)

lemma WrGrow_room:
  "ByteBuffer_WrGrow b n = Some b1 \<Longrightarrow> writerIndex b1 + n \<le> length (buffer b1)"
  by (auto simp: ByteBuffer_WrGrow_def ByteBuffer_wrreserve_def ByteBuffer_WrSize_def slice_def
      Let_def dest!: length_copy_at split: if_splits bind_splits)

lemma AppendUint_Append:
  "ByteBuffer_AppendUint16 b v = ByteBuffer_Append b (le_bytes 2 v)"
  "ByteBuffer_AppendUint32 b v' = ByteBuffer_Append b (le_bytes 4 v')"
  "ByteBuffer_AppendUint64 b v'' = ByteBuffer_Append b (le_bytes 8 v'')"
  by (auto simp: ByteBuffer_AppendUint16_def ByteBuffer_AppendUint32_def ByteBuffer_AppendUint64_def
      ByteBuffer_Append_def le_put_def Let_def dest: WrGrow_room split: bind_splits)

lemma Append_inv:
  assumes "bb_inv b"
  shows "\<exists>b'. ByteBuffer_Append b xs = Some b' \<and> bb_inv b' \<and> bb_contents b' = bb_contents b @ xs"
  using assms bb.reserve_store [OF assms, of xs] by (simp add: Append_fill)

lemma Append_Some:
  assumes "bb_inv b" and "ByteBuffer_Append b xs = Some b'"
  shows "bb_inv b' \<and> bb_contents b' = bb_contents b @ xs"
  using Append_inv [OF assms(1), of xs] assms(2) by auto

lemma Prepend_inv:
  assumes "bb_inv b"
  shows "\<exists>b' ok. ByteBuffer_Prepend b xs = Some (b', ok) \<and> bb_inv b' \<and>
    ok = (length xs \<le> readerIndex b) \<and>
    bb_contents b' = (if ok then xs @ bb_contents b else bb_contents b)"
  using assms
  by (auto simp: ByteBuffer_Prepend_def copy_at_def bb_inv_def bb_contents_def Let_def)

section \<open>Every run of operations\<close>

text \<open>
  The methods that write and consume, as operations.  \<open>WrFlip\<close> stands with the read into \<open>WrBuf\<close> whose bytes it
  takes over: \<open>OpRead xs\<close> reads as many of the bytes \<open>xs\<close> of a connection as there is room for.
\<close>

datatype bb_op =
    OpAppend bytes
  | OpUint16 "16 word"
  | OpUint32 "32 word"
  | OpUint64 "64 word"
  | OpGrow nat
  | OpRead bytes
  | OpPrepend bytes
  | OpRdFlip nat
  | OpReset

text \<open>
  A step gives the buffer and what the caller learns: the number of bytes read, whether \<open>Prepend\<close> had room, and 0 for the methods
  without a result.
\<close>

fun bb_step :: "bb_op \<Rightarrow> ByteBuffer \<Rightarrow> (ByteBuffer \<times> nat) option" where
  "bb_step (OpAppend xs) b = map_option (\<lambda>b'. (b', 0)) (ByteBuffer_Append b xs)"
| "bb_step (OpUint16 v) b = map_option (\<lambda>b'. (b', 0)) (ByteBuffer_AppendUint16 b v)"
| "bb_step (OpUint32 v) b = map_option (\<lambda>b'. (b', 0)) (ByteBuffer_AppendUint32 b v)"
| "bb_step (OpUint64 v) b = map_option (\<lambda>b'. (b', 0)) (ByteBuffer_AppendUint64 b v)"
| "bb_step (OpGrow n) b = map_option (\<lambda>b'. (b', 0)) (ByteBuffer_WrGrow b n)"
| "bb_step (OpRead xs) b =
     (let k = min (length xs) (length (ByteBuffer_WrBuf b)) in map_option (\<lambda>b'. (b', k)) (ByteBuffer_fill b (take k xs)))"
| "bb_step (OpPrepend xs) b = map_option (\<lambda>(b', ok). (b', if ok then 1 else 0)) (ByteBuffer_Prepend b xs)"
| "bb_step (OpRdFlip n) b = Some (ByteBuffer_RdFlip b n, 0)"
| "bb_step OpReset b = Some (ByteBuffer_Reset b, 0)"

fun bb_run :: "bb_op list \<Rightarrow> ByteBuffer \<Rightarrow> (ByteBuffer \<times> nat list) option" where
  "bb_run [] b = Some (b, [])"
| "bb_run (op # ops) b = do {
     (b1, r) \<leftarrow> bb_step op b;
     (b2, rs) \<leftarrow> bb_run ops b1;
     Some (b2, r # rs)
   }"

text \<open>The same operations on the byte queue the buffer stands for, with what the caller learned.\<close>

fun queue_step :: "bb_op \<Rightarrow> nat \<Rightarrow> bytes \<Rightarrow> bytes" where
  "queue_step (OpAppend xs) r q = q @ xs"
| "queue_step (OpUint16 v) r q = q @ le_bytes 2 v"
| "queue_step (OpUint32 v) r q = q @ le_bytes 4 v"
| "queue_step (OpUint64 v) r q = q @ le_bytes 8 v"
| "queue_step (OpGrow n) r q = q"
| "queue_step (OpRead xs) r q = q @ take r xs"
| "queue_step (OpPrepend xs) r q = (if r = 0 then q else xs @ q)"
| "queue_step (OpRdFlip n) r q = drop n q"
| "queue_step OpReset r q = []"

text \<open>The bytes an operation may ask to make room for.\<close>

fun bb_size :: "bb_op \<Rightarrow> nat" where
  "bb_size (OpAppend xs) = length xs"
| "bb_size (OpUint16 v) = 2"
| "bb_size (OpUint32 v) = 4"
| "bb_size (OpUint64 v) = 8"
| "bb_size (OpGrow n) = n"
| "bb_size _ = 0"

lemma WrGrow_length:
  "ByteBuffer_WrGrow b n = Some b' \<Longrightarrow> bb_inv b \<Longrightarrow> length (buffer b') \<le> length (buffer b) + n"
  by (auto simp: ByteBuffer_WrGrow_def ByteBuffer_wrreserve_def bb_inv_def Let_def dest!: length_copy_at split: if_splits bind_splits)

lemma Append_length:
  "ByteBuffer_Append b xs = Some b' \<Longrightarrow> bb_inv b \<Longrightarrow> length (buffer b') \<le> length (buffer b) + length xs"
  by (auto simp: ByteBuffer_Append_def ByteBuffer_WrFlip_def Let_def dest!: length_copy_at WrGrow_length split: if_splits bind_splits)

lemma bb_step_length:
  assumes "bb_inv b" and "bb_step op b = Some (b', r)"
  shows "length (buffer b') \<le> length (buffer b) + bb_size op"
  using assms
  by (cases op) (auto simp: AppendUint_Append ByteBuffer_fill_def ByteBuffer_WrFlip_def ByteBuffer_Prepend_def ByteBuffer_RdFlip_def
      ByteBuffer_Reset_def Let_def dest!: length_copy_at Append_length WrGrow_length split: if_splits bind_splits)

lemma WrBuf_room: "bb_inv b \<Longrightarrow> int (length (ByteBuffer_WrBuf b)) = ByteBuffer_WrSize b"
  by (auto simp: ByteBuffer_WrBuf_def ByteBuffer_WrSize_def bb_inv_def)

lemma bb_step_read:
  assumes "bb_inv b"
  shows "\<exists>b' r. bb_step (OpRead xs) b = Some (b', r) \<and> bb_inv b' \<and> bb_contents b' = bb_contents b @ take r xs"
proof -
  let ?k = "min (length xs) (length (ByteBuffer_WrBuf b))"
  have "int (length (take ?k xs)) \<le> ByteBuffer_WrSize b" unfolding WrBuf_room [OF assms, symmetric] by simp
  from fill_inv [OF assms this] show ?thesis by (auto simp: Let_def)
qed

lemma bb_step_prepend:
  assumes "bb_inv b"
  shows "\<exists>b' r. bb_step (OpPrepend xs) b = Some (b', r) \<and> bb_inv b' \<and> bb_contents b' = (if r = 0 then bb_contents b else xs @ bb_contents b)"
proof -
  obtain b' ok where "ByteBuffer_Prepend b xs = Some (b', ok)" "bb_inv b'" "bb_contents b' = (if ok then xs @ bb_contents b else bb_contents b)"
    using Prepend_inv [OF assms, of xs] by blast
  then show ?thesis by simp
qed

lemma bb_step_queue_step:
  assumes "bb_inv b"
  shows "\<exists>b' r. bb_step op b = Some (b', r) \<and> bb_inv b' \<and> bb_contents b' = queue_step op r (bb_contents b)"
proof (cases op)
  case (OpAppend xs)
  then show ?thesis using Append_inv [OF assms, of xs] by auto
next
  case (OpUint16 v)
  then show ?thesis using Append_inv [OF assms, of "le_bytes 2 v"] by (auto simp: AppendUint_Append)
next
  case (OpUint32 v)
  then show ?thesis using Append_inv [OF assms, of "le_bytes 4 v"] by (auto simp: AppendUint_Append)
next
  case (OpUint64 v)
  then show ?thesis using Append_inv [OF assms, of "le_bytes 8 v"] by (auto simp: AppendUint_Append)
next
  case (OpGrow n)
  then show ?thesis using WrGrow_inv [OF assms, of n] by auto
next
  case (OpRead xs)
  then show ?thesis using bb_step_read [OF assms, of xs] by simp
next
  case (OpPrepend xs)
  then show ?thesis using bb_step_prepend [OF assms, of xs] by simp
qed (simp_all add: assms Reset_inv RdFlip_inv RdFlip_contents)

lemma bb_run_fold:
  assumes "bb_inv b"
  shows "\<exists>b' rs. bb_run ops b = Some (b', rs) \<and> bb_inv b' \<and> length rs = length ops \<and>
    bb_contents b' = fold (\<lambda>(op, r). queue_step op r) (zip ops rs) (bb_contents b) \<and>
    length (buffer b') \<le> length (buffer b) + sum_list (map bb_size ops)"
  using assms
proof (induction ops arbitrary: b)
  case Nil
  then show ?case by simp
next
  case (Cons op ops)
  from bb_step_queue_step [OF Cons.prems] obtain b1 r where
    b1: "bb_step op b = Some (b1, r)" "bb_inv b1" "bb_contents b1 = queue_step op r (bb_contents b)"
    by blast
  from Cons.IH [OF b1(2)] obtain b2 rs where "bb_run ops b1 = Some (b2, rs)" "bb_inv b2" "length rs = length ops"
      "bb_contents b2 = fold (\<lambda>(op, r). queue_step op r) (zip ops rs) (bb_contents b1)"
      "length (buffer b2) \<le> length (buffer b1) + sum_list (map bb_size ops)" by blast
  with b1 bb_step_length [OF Cons.prems b1(1)] show ?case by simp
qed

text \<open>
  C11. ByteBuffer refines a byte queue: whatever sequence of \<open>Append\<close>, \<open>AppendUint16/32/64\<close>,
  \<open>WrGrow\<close>, reads into \<open>WrBuf\<close> followed by \<open>WrFlip\<close> of the number of bytes read, \<open>Prepend\<close>, \<open>RdFlip\<close> and \<open>Reset\<close> is made on a
  new buffer, with sizes that are not negative and together below the largest allocation of the runtime, none of them panics, the
  index invariant holds afterwards, and the readable bytes are exactly those of the same operations on a
  list: appended or read at the end, put in front where \<open>Prepend\<close> says so, dropped at the front, kept over every reallocation and
  compaction.  The buffer never gets longer than its first size and the sizes asked for, so that \<open>make\<close> is within its limit.
\<close>

theorem ByteBuffer_refines_queue:
  assumes "initsize + sum_list (map bb_size ops) \<le> maxAlloc"
  shows "\<exists>b rs. bb_run ops NewByteBuffer = Some (b, rs) \<and> bb_inv b \<and> length rs = length ops \<and> length (buffer b) \<le> maxAlloc \<and>
     take (nat (ByteBuffer_RdSize b)) (ByteBuffer_RdBuf b) = fold (\<lambda>(op, r). queue_step op r) (zip ops rs) []"
proof -
  from bb_run_fold [OF NewByteBuffer_inv(1), of ops] obtain b rs where
    "bb_run ops NewByteBuffer = Some (b, rs)" "bb_inv b" "length rs = length ops"
    "bb_contents b = fold (\<lambda>(op, r). queue_step op r) (zip ops rs) []"
    "length (buffer b) \<le> length (buffer NewByteBuffer) + sum_list (map bb_size ops)"
    by (auto simp: NewByteBuffer_inv(2))
  then show ?thesis
    using RdBuf_contents [of b] RdSize_contents [of b] assms by (auto simp: NewByteBuffer_def presize_def)
qed

theorem ByteBuffer_refines_queue_witness:
  "\<exists>b r1 r2 r3 r4. bb_run [OpRead [1, 2, 3], OpRdFlip 2, OpAppend [4, 5], OpPrepend [9]] NewByteBuffer = Some (b, [r1, r2, r3, r4]) \<and>
     take (nat (ByteBuffer_RdSize b)) (ByteBuffer_RdBuf b) = (if r4 = 0 then [] else [9]) @ drop 2 (take r1 [1, 2, 3]) @ [4, 5]"
proof -
  obtain b rs where "bb_run [OpRead [1, 2, 3], OpRdFlip 2, OpAppend [4, 5], OpPrepend [9]] NewByteBuffer = Some (b, rs)" "length rs = 4"
      "take (nat (ByteBuffer_RdSize b)) (ByteBuffer_RdBuf b) =
        fold (\<lambda>(op, r). queue_step op r) (zip [OpRead [1, 2, 3], OpRdFlip 2, OpAppend [4, 5], OpPrepend [9]] rs) []"
    using ByteBuffer_refines_queue [of "[OpRead [1, 2, 3], OpRdFlip 2, OpAppend [4, 5], OpPrepend [9]]"]
    by (auto simp: initsize_def maxAlloc_def simp del: bb_run.simps)
  moreover obtain r1 r2 r3 r4 where "rs = [r1, r2, r3, r4]"
    using calculation(2) by (auto simp: length_Suc_conv numeral_eq_Suc)
  ultimately show ?thesis by (auto simp del: bb_run.simps)
qed

end
