(* ===== verification/Go_Fifo.thy ===== *)
theory Go_Fifo
  imports Go_Prelude
begin

text \<open>
  The interface of a bounded queue between a producer and a consumer, which the datagram rings
  provide and the datagram tasks rely on, and the order property every such queue has: whatever
  the interleaving of attempts to put and to take, what comes out is what was accepted, in order.
\<close>

datatype 'a fifo_op = Put 'a | Take

text \<open>
  A run: refused puts and takes from an empty queue leave it alone.  The result is what was
  accepted, what was taken and the queue at the end.
\<close>

fun fifo_run ::
  "('q \<Rightarrow> 'a \<Rightarrow> 'q option) \<Rightarrow> ('q \<Rightarrow> ('a \<times> 'q) option) \<Rightarrow> 'a fifo_op list \<Rightarrow> 'q \<Rightarrow> 'a list \<times> 'a list \<times> 'q" where
  "fifo_run put get [] q = ([], [], q)"
| "fifo_run put get (Put x # ops) q =
     (case put q x of
        None \<Rightarrow> fifo_run put get ops q
      | Some q1 \<Rightarrow> (let (a, t, q2) = fifo_run put get ops q1 in (x # a, t, q2)))"
| "fifo_run put get (Take # ops) q =
     (case get q of
        None \<Rightarrow> fifo_run put get ops q
      | Some (x, q1) \<Rightarrow> (let (a, t, q2) = fifo_run put get ops q1 in (a, x # t, q2)))"

locale bounded_fifo =
  fixes wf :: "'q \<Rightarrow> bool"
    and items :: "'q \<Rightarrow> 'a list"
    and limit :: "'q \<Rightarrow> nat"
    and put :: "'q \<Rightarrow> 'a \<Rightarrow> 'q option"
    and get :: "'q \<Rightarrow> ('a \<times> 'q) option"
  assumes bounded: "wf q \<Longrightarrow> length (items q) \<le> limit q"
    and put_full: "wf q \<Longrightarrow> put q x = None \<longleftrightarrow> length (items q) = limit q"
    and put_items: "wf q \<Longrightarrow> put q x = Some q' \<Longrightarrow> wf q' \<and> limit q' = limit q \<and> items q' = items q @ [x]"
    and get_empty: "wf q \<Longrightarrow> get q = None \<longleftrightarrow> items q = []"
    and get_items: "wf q \<Longrightarrow> get q = Some (x, q') \<Longrightarrow> wf q' \<and> limit q' = limit q \<and> items q = x # items q'"
begin

lemma run_order:
  assumes "wf q" and "fifo_run put get ops q = (a, t, q')"
  shows "wf q' \<and> limit q' = limit q \<and> items q @ a = t @ items q'"
  using assms
proof (induction ops arbitrary: q a t)
  case Nil
  then show ?case by simp
next
  case (Cons op ops)
  show ?case
  proof (cases op)
    case (Put x)
    show ?thesis
    proof (cases "put q x")
      case None
      with Put Cons.prems Cons.IH show ?thesis by simp
    next
      case (Some q1)
      with put_items [OF Cons.prems(1)] have q1: "wf q1" "limit q1 = limit q" "items q1 = items q @ [x]"
        by auto
      obtain a' t' q'' where run: "fifo_run put get ops q1 = (a', t', q'')" by (metis prod_cases3)
      with Put Some Cons.prems(2) have "a = x # a'" "t = t'" "q' = q''" by auto
      with Cons.IH [OF q1(1), of a' t'] run q1 show ?thesis by simp
    qed
  next
    case Take
    show ?thesis
    proof (cases "get q")
      case None
      with Take Cons.prems Cons.IH show ?thesis by simp
    next
      case (Some xq)
      obtain x q1 where xq: "xq = (x, q1)" by (cases xq)
      with Some get_items [OF Cons.prems(1)] have q1: "wf q1" "limit q1 = limit q" "items q = x # items q1"
        by auto
      obtain a' t' q'' where run: "fifo_run put get ops q1 = (a', t', q'')" by (metis prod_cases3)
      with Take Some xq Cons.prems(2) have "a = a'" "t = x # t'" "q' = q''" by auto
      with Cons.IH [OF q1(1), of a' t'] run q1 show ?thesis by simp
    qed
  qed
qed

lemma run_from_empty:
  assumes "wf q" and "items q = []" and "fifo_run put get ops q = (a, t, q')"
  shows "a = t @ items q' \<and> length (items q') \<le> limit q"
  using run_order [OF assms(1,3)] assms(2) bounded [of q'] by auto

end

end
