(* ===== verification/Gonet_Ring.thy ===== *)
theory Gonet_Ring
  imports Go_Fifo
begin

text \<open>
  The datagram ring of \<open>lib/gonet/ring.go\<close>: a read and a write counter of 64 bits that only grow
  (and wrap around at \<open>2^64\<close>), and a storage whose size is a power of two, so that a counter's slot
  is \<open>counter AND mask\<close>.  \<open>Get\<close> and \<open>Set\<close> return a pointer to a slot, here its number; the caller
  reads or fills the slot and then calls \<open>GetAdv\<close> or \<open>SetAdv\<close>.
\<close>

record UdpMsg =
  MsgNo :: int
  Index :: int
  Body :: bytes

datatype ring_error = ErrRingEmpty | ErrRingFull

record Ring =
  ring_rp :: "64 word"
  ring_num :: "64 word"
  ring_mask :: "64 word"
  ring_wp :: "64 word"
  ring_data :: "UdpMsg list"

definition zero_UdpMsg :: UdpMsg where
  "zero_UdpMsg = \<lparr>MsgNo = 0, Index = 0, Body = []\<rparr>"

text \<open>The inner loop of \<open>init\<close>: clear the lowest set bit until one bit is left.\<close>

function Ring_init_loop :: "64 word \<Rightarrow> 64 word" where
  "Ring_init_loop n = (if n AND (n - 1) \<noteq> 0 then Ring_init_loop (n AND (n - 1)) else n)"
  by pat_completeness auto
termination
proof (relation "measure unat")
  fix n :: "64 word"
  assume nz: "n AND (n - 1) \<noteq> 0"
  then have "n \<noteq> 0" by auto
  have "unat (n AND (n - 1)) \<le> unat (n - 1)" by (simp add: word_le_nat_alt [symmetric] word_and_le1)
  also from \<open>n \<noteq> 0\<close> have "unat (n - 1) < unat n" by (rule measure_unat)
  finally show "(n AND (n - 1), n) \<in> measure unat" by simp
qed simp

declare Ring_init_loop.simps [simp del]

definition Ring_init :: "Ring \<Rightarrow> 64 word \<Rightarrow> Ring" where
  "Ring_init r n =
     (let n = (if n AND (n - 1) \<noteq> 0 then push_bit 1 (Ring_init_loop n) else n)
      in r\<lparr>ring_data := replicate (unat n) zero_UdpMsg, ring_num := n, ring_mask := n - 1\<rparr>)"

definition NewRing :: "int \<Rightarrow> Ring" where
  "NewRing n =
     Ring_init \<lparr>ring_rp = 0, ring_num = 0, ring_mask = 0, ring_wp = 0, ring_data = []\<rparr> (word_of_int n)"

definition Ring_Get :: "Ring \<Rightarrow> (ring_error + nat) option" where
  "Ring_Get r =
     (if ring_rp r = ring_wp r then Some (Inl ErrRingEmpty)
      else map_option (\<lambda>_. Inr (unat (ring_rp r AND ring_mask r)))
             (index_at (ring_data r) (unat (ring_rp r AND ring_mask r))))"

definition Ring_GetAdv :: "Ring \<Rightarrow> Ring" where
  "Ring_GetAdv r = r\<lparr>ring_rp := ring_rp r + 1\<rparr>"

definition Ring_Set :: "Ring \<Rightarrow> (ring_error + nat) option" where
  "Ring_Set r =
     (if ring_wp r - ring_rp r \<ge> ring_num r then Some (Inl ErrRingFull)
      else map_option (\<lambda>_. Inr (unat (ring_wp r AND ring_mask r)))
             (index_at (ring_data r) (unat (ring_wp r AND ring_mask r))))"

definition Ring_SetAdv :: "Ring \<Rightarrow> Ring" where
  "Ring_SetAdv r = r\<lparr>ring_wp := ring_wp r + 1\<rparr>"

definition Ring_Reset :: "Ring \<Rightarrow> Ring" where
  "Ring_Reset r = r\<lparr>ring_rp := 0, ring_wp := 0\<rparr>"

text \<open>
  The two ways the tasks use a ring: the producer asks for a slot, fills it through the pointer and
  advances; the consumer asks for the oldest slot, advances and reads it.
\<close>

definition Ring_put :: "Ring \<Rightarrow> (UdpMsg \<Rightarrow> UdpMsg) \<Rightarrow> (ring_error + Ring) option" where
  "Ring_put r f =
     (case Ring_Set r of
        None \<Rightarrow> None
      | Some (Inl e) \<Rightarrow> Some (Inl e)
      | Some (Inr i) \<Rightarrow> Some (Inr (Ring_SetAdv (r\<lparr>ring_data := (ring_data r)[i := f (ring_data r ! i)]\<rparr>))))"

definition Ring_take :: "Ring \<Rightarrow> (ring_error + UdpMsg \<times> Ring) option" where
  "Ring_take r =
     (case Ring_Get r of
        None \<Rightarrow> None
      | Some (Inl e) \<Rightarrow> Some (Inl e)
      | Some (Inr i) \<Rightarrow> Some (Inr (ring_data r ! i, Ring_GetAdv r)))"

section \<open>The invariant and the queue a ring stands for\<close>

definition ring_inv :: "Ring \<Rightarrow> bool" where
  "ring_inv r = (\<exists>k \<le> 63. ring_num r = 2 ^ k \<and> ring_mask r = 2 ^ k - 1 \<and>
     length (ring_data r) = 2 ^ k \<and> unat (ring_wp r - ring_rp r) \<le> 2 ^ k)"

definition ring_items :: "Ring \<Rightarrow> UdpMsg list" where
  "ring_items r = ring_read (ring_data r) (unat (ring_rp r)) (unat (ring_wp r - ring_rp r))"

lemma length_ring_items [simp]: "length (ring_items r) = unat (ring_wp r - ring_rp r)"
  by (simp add: ring_items_def)

lemma unat_exp_63: "k \<le> 63 \<Longrightarrow> unat ((2::64 word) ^ k) = 2 ^ k"
  by (rule unat_exp) simp

lemma slot_exp:
  assumes "k \<le> 63"
  shows "unat ((x + of_nat n) AND (2 ^ k - 1 :: 64 word)) = (unat x + n) mod 2 ^ k"
  using unat_and_mask_exp [of "x + of_nat n" k] unat_add_of_nat_mod [of k x n] assms by simp

text \<open>The slot of the counter \<open>n\<close> places after \<open>rp\<close>, and the number of free slots, in a valid ring.\<close>

lemma ring_slot:
  assumes "ring_inv r"
  shows "unat ((ring_rp r + of_nat n) AND ring_mask r) = (unat (ring_rp r) + n) mod length (ring_data r)"
  using assms by (auto simp: ring_inv_def slot_exp)

lemma ring_slot_rp:
  "ring_inv r \<Longrightarrow> unat (ring_rp r AND ring_mask r) = unat (ring_rp r) mod length (ring_data r)"
  using ring_slot [of r 0] by simp

lemma ring_slot_wp:
  assumes "ring_inv r"
  shows "unat (ring_wp r AND ring_mask r) =
    (unat (ring_rp r) + unat (ring_wp r - ring_rp r)) mod length (ring_data r)"
  using ring_slot [OF assms, of "unat (ring_wp r - ring_rp r)"] by simp

lemma ring_data_pos: "ring_inv r \<Longrightarrow> 0 < length (ring_data r)"
  by (auto simp: ring_inv_def)

lemma ring_num_length: "ring_inv r \<Longrightarrow> unat (ring_num r) = length (ring_data r)"
  by (auto simp: ring_inv_def unat_exp_63)

lemma ring_data_bound: "ring_inv r \<Longrightarrow> length (ring_data r) < 2 ^ 64"
  using ring_num_length [of r] unat_bound64 [of "ring_num r"] by simp

lemma Ring_Get_valid:
  assumes "ring_inv r"
  shows "Ring_Get r =
    Some (if ring_items r = [] then Inl ErrRingEmpty
          else Inr (unat (ring_rp r) mod length (ring_data r)))"
proof -
  have "ring_rp r = ring_wp r \<longleftrightarrow> length (ring_items r) = 0" by (auto simp: unat_eq_zero)
  then have "ring_rp r = ring_wp r \<longleftrightarrow> ring_items r = []" by (simp only: length_0_conv)
  with ring_data_pos [OF assms] show ?thesis
    by (simp add: Ring_Get_def ring_slot_rp [OF assms] index_at_def)
qed

lemma Ring_Set_valid:
  assumes "ring_inv r"
  shows "Ring_Set r =
    Some (if length (ring_items r) = length (ring_data r) then Inl ErrRingFull
          else Inr ((unat (ring_rp r) + length (ring_items r)) mod length (ring_data r)))"
proof -
  from assms have "length (ring_items r) \<le> length (ring_data r)" by (auto simp: ring_inv_def)
  then have "ring_wp r - ring_rp r \<ge> ring_num r \<longleftrightarrow> length (ring_items r) = length (ring_data r)"
    using ring_num_length [OF assms] by (auto simp: word_le_nat_alt)
  with ring_data_pos [OF assms] show ?thesis
    by (simp add: Ring_Set_def ring_slot_wp [OF assms] index_at_def)
qed

lemma Ring_put_valid:
  assumes "ring_inv r"
  shows "Ring_put r f =
    Some (if length (ring_items r) = length (ring_data r) then Inl ErrRingFull
          else Inr (r\<lparr>ring_data := (let i = (unat (ring_rp r) + length (ring_items r)) mod length (ring_data r)
                                     in (ring_data r)[i := f (ring_data r ! i)]),
                      ring_wp := ring_wp r + 1\<rparr>))"
  by (simp add: Ring_put_def Ring_Set_valid [OF assms] Ring_SetAdv_def Let_def)

lemma Ring_put_items:
  assumes inv: "ring_inv r" and put: "Ring_put r f = Some (Inr r')"
  shows "ring_inv r' \<and> length (ring_data r') = length (ring_data r) \<and>
    ring_items r' = ring_items r @ [f (ring_data r ! unat (ring_wp r AND ring_mask r))]"
proof -
  let ?n = "length (ring_items r)" and ?L = "length (ring_data r)"
  let ?i = "(unat (ring_rp r) + ?n) mod ?L"
  from put have r': "r' = r\<lparr>ring_data := (ring_data r)[?i := f (ring_data r ! ?i)], ring_wp := ring_wp r + 1\<rparr>"
    and free: "?n \<noteq> ?L"
    by (auto simp: Ring_put_valid [OF inv] Let_def split: if_splits)
  from inv free have lt: "?n < ?L" by (auto simp: ring_inv_def)
  have "unat (ring_wp r + 1 - ring_rp r) = unat ((ring_wp r - ring_rp r) + 1)" by (simp add: algebra_simps)
  also have "\<dots> = Suc ?n"
    using unat_Suc_word [of "ring_wp r - ring_rp r" ?L] lt ring_data_bound [OF inv] by simp
  finally have cnt: "unat (ring_wp r + 1 - ring_rp r) = Suc ?n" .
  from inv lt cnt have "ring_inv r'" by (auto simp: ring_inv_def r')
  moreover have "ring_items r' = ring_items r @ [f (ring_data r ! ?i)]"
    using ring_read_snoc [OF lt, of "unat (ring_rp r)" "f (ring_data r ! ?i)"] cnt
    by (simp add: ring_items_def r')
  ultimately show ?thesis by (simp add: r' ring_slot_wp [OF inv])
qed

lemma Ring_take_items:
  assumes inv: "ring_inv r" and get: "Ring_take r = Some (Inr (m, r'))"
  shows "ring_inv r' \<and> length (ring_data r') = length (ring_data r) \<and> ring_items r = m # ring_items r'"
proof -
  from get have ne: "ring_items r \<noteq> []" and r': "r' = Ring_GetAdv r"
    and m: "m = ring_data r ! (unat (ring_rp r) mod length (ring_data r))"
    by (auto simp: Ring_take_def Ring_Get_valid [OF inv] split: if_splits)
  from ne have nz: "ring_wp r - ring_rp r \<noteq> 0" by (auto simp: ring_items_def)
  have "unat (ring_wp r - (ring_rp r + 1)) = unat ((ring_wp r - ring_rp r) - 1)" by (simp add: algebra_simps)
  also from nz have "\<dots> = unat (ring_wp r - ring_rp r) - 1" by (rule unat_minus_one)
  finally have cnt: "unat (ring_wp r - (ring_rp r + 1)) = unat (ring_wp r - ring_rp r) - 1" .
  have "ring_inv r'" using inv cnt by (auto simp: ring_inv_def r' Ring_GetAdv_def)
  moreover have "ring_items r = m # ring_items r'"
  proof -
    obtain n where n: "unat (ring_wp r - ring_rp r) = Suc n"
      using nz by (cases "unat (ring_wp r - ring_rp r)") (auto simp: unat_eq_zero)
    have "unat (ring_rp r + 1) mod length (ring_data r) = Suc (unat (ring_rp r)) mod length (ring_data r)"
      using inv unat_add_of_nat_mod [of _ "ring_rp r" 1] by (auto simp: ring_inv_def)
    then have "ring_read (ring_data r) (unat (ring_rp r + 1)) n =
        ring_read (ring_data r) (Suc (unat (ring_rp r))) n"
      by (rule ring_read_cong_mod)
    then show ?thesis by (simp add: ring_items_def r' Ring_GetAdv_def cnt n ring_read_Suc m)
  qed
  ultimately show ?thesis by (simp add: r' Ring_GetAdv_def)
qed

text \<open>Putting a whole message and taking one, with the errors of \<open>Set\<close> and \<open>Get\<close> as a refusal.\<close>

definition Ring_enqueue :: "Ring \<Rightarrow> UdpMsg \<Rightarrow> Ring option" where
  "Ring_enqueue r m = (case Ring_put r (\<lambda>_. m) of Some (Inr r') \<Rightarrow> Some r' | _ \<Rightarrow> None)"

definition Ring_dequeue :: "Ring \<Rightarrow> (UdpMsg \<times> Ring) option" where
  "Ring_dequeue r = (case Ring_take r of Some (Inr mr) \<Rightarrow> Some mr | _ \<Rightarrow> None)"

interpretation ring: bounded_fifo ring_inv ring_items "\<lambda>r. length (ring_data r)"
  Ring_enqueue Ring_dequeue
proof (unfold_locales, goal_cases)
  case (1 q)
  then show ?case by (auto simp: ring_inv_def)
next
  case (2 q x)
  then show ?case by (simp add: Ring_enqueue_def Ring_put_valid)
next
  case (3 q x q')
  then show ?case using Ring_put_items [of q "\<lambda>_. x" q'] by (auto simp: Ring_enqueue_def split: option.splits sum.splits)
next
  case (4 q)
  then show ?case by (simp add: Ring_dequeue_def Ring_take_def Ring_Get_valid)
next
  case (5 q x q')
  then show ?case using Ring_take_items [of q x q'] by (auto simp: Ring_dequeue_def split: option.splits sum.splits)
qed

section \<open>The size of a new ring\<close>

lemma bit_top_nat: "2 ^ k \<le> m \<Longrightarrow> m < 2 ^ Suc k \<Longrightarrow> bit (m::nat) k"
proof -
  assume "2 ^ k \<le> m" and "m < 2 ^ Suc k"
  then have "m div 2 ^ k = 1" by (intro div_nat_eqI) auto
  then show "bit m k" by (simp add: bit_iff_odd)
qed

lemma bit_le_nat: "bit (m::nat) k \<Longrightarrow> 2 ^ k \<le> m"
  by (metis bit_iff_odd div_less even_zero not_le)

lemma and_pred_top:
  fixes n :: "64 word"
  assumes "2 ^ k \<le> unat n" and "unat n < 2 ^ Suc k" and "unat n \<noteq> 2 ^ k"
  shows "2 ^ k \<le> unat (n AND (n - 1))"
proof -
  from assms have "n \<noteq> 0" by auto
  then have "unat (n - 1) = unat n - 1" by (rule unat_minus_one)
  with assms have "bit (unat n) k" "bit (unat (n - 1)) k" by (auto intro!: bit_top_nat)
  then have "bit (unat (n AND (n - 1))) k" by (simp add: unsigned_and_eq bit_and_iff)
  then show ?thesis by (rule bit_le_nat)
qed

lemma and_pred_exp:
  fixes n :: "64 word"
  assumes "unat n = 2 ^ k"
  shows "n AND (n - 1) = 0"
proof -
  from assms unat_bound [of n] have "(2::nat) ^ k < 2 ^ 64" by simp
  then have k: "k < 64" by (rule power_less_imp_less_exp [rotated]) simp
  then have "n = 2 ^ k" using assms unat_exp [of k, where 'a = 64] by (simp add: word_unat_eq_iff)
  then have "unat (n AND (n - 1)) = unat n mod 2 ^ k" using unat_and_mask_exp [of n k] by simp
  with assms show ?thesis by (simp add: unat_eq_zero)
qed

lemma Ring_init_loop_top:
  "2 ^ k \<le> unat n \<Longrightarrow> unat n < 2 ^ Suc k \<Longrightarrow> unat (Ring_init_loop n) = 2 ^ k"
proof (induction n rule: Ring_init_loop.induct)
  case (1 n)
  show ?case
  proof (cases "n AND (n - 1) = 0")
    case True
    with and_pred_top [OF "1.prems"] have "unat n = 2 ^ k" by fastforce
    with True show ?thesis by (simp add: Ring_init_loop.simps [of n])
  next
    case False
    with and_pred_exp have "unat n \<noteq> 2 ^ k" by blast
    with "1.prems" have "2 ^ k \<le> unat (n AND (n - 1))" by (rule and_pred_top)
    moreover have "unat (n AND (n - 1)) \<le> unat n" by (simp add: word_le_nat_alt [symmetric] word_and_le2)
    ultimately show ?thesis using False "1.IH" "1.prems"(2) by (simp add: Ring_init_loop.simps [of n])
  qed
qed

lemma Ring_init_top:
  assumes "2 ^ k \<le> unat n" and "unat n < 2 ^ Suc k" and "unat n \<le> 2 ^ 63"
  shows "unat (ring_num (Ring_init r n)) = (if unat n = 2 ^ k then 2 ^ k else 2 ^ Suc k)"
proof (cases "unat n = 2 ^ k")
  case True
  then show ?thesis by (simp add: Ring_init_def and_pred_exp Let_def)
next
  case False
  with and_pred_top [OF assms(1,2)] have nz: "n AND (n - 1) \<noteq> 0" by auto
  from assms False have "(2::nat) ^ k < 2 ^ 63" by linarith
  then have k: "k < 63" by (rule power_less_imp_less_exp [rotated]) simp
  have "Ring_init_loop n = 2 ^ k"
    using Ring_init_loop_top [OF assms(1,2)] k unat_exp [of k, where 'a = 64] by (simp add: word_unat_eq_iff)
  then have "ring_num (Ring_init r n) = 2 ^ Suc k"
    using nz by (simp add: Ring_init_def Let_def push_bit_eq_mult)
  with k False show ?thesis using unat_exp [of "Suc k", where 'a = 64] by simp
qed

lemma ring_inv_Ring_init:
  assumes "unat (ring_num (Ring_init r n)) = 2 ^ k" and "k \<le> 63" and "ring_rp r = ring_wp r"
  shows "ring_inv (Ring_init r n)" "ring_items (Ring_init r n) = []" "length (ring_data (Ring_init r n)) = 2 ^ k"
proof -
  from assms have "ring_num (Ring_init r n) = 2 ^ k" by (simp add: word_unat_eq_iff unat_exp_63)
  with assms show "ring_inv (Ring_init r n)" "length (ring_data (Ring_init r n)) = 2 ^ k"
    by (auto simp: ring_inv_def Ring_init_def Let_def unat_exp_63 intro!: exI [of _ k])
  from assms(3) show "ring_items (Ring_init r n) = []"
    by (simp add: ring_items_def Ring_init_def Let_def)
qed

text \<open>
  \<open>NewRing\<close> rounds the requested size up to a power of two: for a size from 1 to \<open>2^63\<close> the bit loop
  of \<open>init\<close> gives the least power of two that holds it, the mask is one less, the storage has exactly
  that many slots, and the ring is empty and valid.
\<close>

lemma NewRing_size:
  assumes "1 \<le> n" and "n \<le> 2 ^ 63"
  shows "\<exists>k \<le> 63. ring_num (NewRing n) = 2 ^ k \<and> ring_mask (NewRing n) = 2 ^ k - 1 \<and>
    length (ring_data (NewRing n)) = 2 ^ k \<and> nat n \<le> 2 ^ k \<and> 2 ^ k < 2 * nat n \<and>
    ring_inv (NewRing n) \<and> ring_items (NewRing n) = []"
proof -
  let ?n = "word_of_int n :: 64 word" and ?r = "NewRing n"
  from assms have un: "unat ?n = nat n" by (simp add: unsigned_of_int take_bit_int_eq_self)
  from assms have "1 \<le> nat n" by simp
  from ex_power_ivl1 [OF _ this, of 2] obtain k where k: "2 ^ k \<le> nat n" "nat n < 2 ^ Suc k"
    by (metis Suc_eq_plus1 order_refl)
  define j where "j = (if nat n = 2 ^ k then k else Suc k)"
  have "nat n \<le> 2 ^ 63" using assms by simp
  with k have num: "unat (ring_num ?r) = 2 ^ j"
    using Ring_init_top [of k ?n] by (simp add: NewRing_def un j_def)
  have "(2::nat) ^ k \<le> 2 ^ 63" using k \<open>nat n \<le> 2 ^ 63\<close> by linarith
  then have "k \<le> 63" by (rule power_le_imp_le_exp [rotated]) simp
  moreover have "k < 63" if "nat n \<noteq> 2 ^ k"
    using that k \<open>nat n \<le> 2 ^ 63\<close> power_less_imp_less_exp [of "2::nat" k 63] by linarith
  ultimately have j: "j \<le> 63" by (auto simp: j_def)
  from num j have exp: "ring_num ?r = 2 ^ j" by (simp add: word_unat_eq_iff unat_exp_63)
  have inv: "ring_inv ?r" "ring_items ?r = []" "length (ring_data ?r) = 2 ^ j"
    using num j ring_inv_Ring_init by (auto simp: NewRing_def)
  have "nat n \<le> 2 ^ j \<and> 2 ^ j < 2 * nat n"
  proof (cases "nat n = 2 ^ k")
    case True
    then have "j = k" by (simp add: j_def)
    with True show ?thesis by (simp only:) simp
  next
    case False
    then have "j = Suc k" by (simp add: j_def)
    with k False show ?thesis by (simp only: power_Suc) linarith
  qed
  moreover have "ring_mask ?r = ring_num ?r - 1" by (simp add: NewRing_def Ring_init_def Let_def)
  ultimately show ?thesis using j exp inv by (intro exI [of _ j]) simp
qed

text \<open>
  C12. The ring is a first-in first-out queue: from any valid ring, wherever its two 64-bit counters
  stand (also when they wrap around on the way), and for any interleaving of attempts to put a
  message and to take one, the messages taken and then those left are exactly the messages present at
  the start followed by those accepted, none lost, repeated, reordered or overwritten; the ring stays
  valid and never holds more than its number of slots.
\<close>

theorem Ring_fifo:
  assumes "ring_inv r" and "fifo_run Ring_enqueue Ring_dequeue ops r = (accepted, taken, r')"
  shows "ring_items r @ accepted = taken @ ring_items r' \<and> ring_inv r' \<and>
    length (ring_items r') \<le> length (ring_data r)"
  using ring.run_order [OF assms] ring.bounded [of r'] by auto

text \<open>A two-slot ring whose counters are about to wrap around, for the witness.\<close>

definition edge_ring :: Ring where
  "edge_ring = \<lparr>ring_rp = - 1, ring_num = 2, ring_mask = 1, ring_wp = - 1,
     ring_data = [zero_UdpMsg, zero_UdpMsg]\<rparr>"

definition edge_msg :: "int \<Rightarrow> UdpMsg" where
  "edge_msg i = zero_UdpMsg\<lparr>MsgNo := i\<rparr>"

lemma edge_ring_inv: "ring_inv edge_ring"
  by (simp add: ring_inv_def edge_ring_def exI [of _ 1])

lemma edge_ring_run:
  "\<exists>r'. fifo_run Ring_enqueue Ring_dequeue
     [Put (edge_msg 1), Put (edge_msg 2), Put (edge_msg 3), Take, Put (edge_msg 4), Take] edge_ring =
     ([edge_msg 1, edge_msg 2, edge_msg 4], [edge_msg 1, edge_msg 2], r') \<and> ring_items r' = [edge_msg 4]"
  by (simp add: edge_ring_def Ring_enqueue_def Ring_dequeue_def Ring_put_def Ring_take_def Ring_Set_def
      Ring_Get_def Ring_SetAdv_def Ring_GetAdv_def index_at_def ring_items_def ring_read_def word_le_nat_alt)

theorem Ring_fifo_witness:
  "\<exists>r'. ring_items edge_ring @ [edge_msg 1, edge_msg 2, edge_msg 4] = [edge_msg 1, edge_msg 2] @ ring_items r' \<and>
     ring_inv r' \<and> length (ring_items r') \<le> length (ring_data edge_ring) \<and> ring_items r' = [edge_msg 4]"
proof -
  obtain r' where "fifo_run Ring_enqueue Ring_dequeue
     [Put (edge_msg 1), Put (edge_msg 2), Put (edge_msg 3), Take, Put (edge_msg 4), Take] edge_ring =
     ([edge_msg 1, edge_msg 2, edge_msg 4], [edge_msg 1, edge_msg 2], r')" and "ring_items r' = [edge_msg 4]"
    using edge_ring_run by blast
  with Ring_fifo [OF edge_ring_inv this(1)] show ?thesis by blast
qed

end
