(* ===== verification/Go_Io.thy ===== *)
theory Go_Io
  imports Go_Prelude
begin

text \<open>
  The part of \<open>io\<close> and \<open>net\<close> the sources use.  The receiving side of a connection is the list of chunks
  its \<open>Read\<close> calls will return: a \<open>Read\<close> returns the next chunk, or as much of it as the caller's
  slice holds, and reports end of file when no chunk is left or already with the last one.  Every way the network can cut a byte
  stream into reads is such a list.
\<close>

datatype io_error = EOF | ErrUnexpectedEOF | ErrShortBuffer

type_synonym stream = "bytes list"

text \<open>
  One \<open>Read\<close> into a slice of \<open>room\<close> bytes: the bytes read, whether it reports the end of the stream, and the rest.  An
  \<open>io.Reader\<close> may report the end after the last bytes or, when \<open>early\<close> holds, together with them.
\<close>

fun conn_Read :: "bool \<Rightarrow> nat \<Rightarrow> stream \<Rightarrow> bytes \<times> bool \<times> stream" where
  "conn_Read early room [] = ([], True, [])"
| "conn_Read early room (c # cs) =
     (if room < length c then (take room c, False, drop room c # cs) else (c, early \<and> cs = [], cs))"

lemma conn_Read_spec:
  assumes "conn_Read early room cs = (got, eof, rest)"
  shows "got @ concat rest = concat cs" "length got \<le> room" "eof \<Longrightarrow> cs = [] \<or> early \<and> rest = [] \<and> cs = [got]" "cs = [] \<Longrightarrow> eof"
    "\<not> eof \<Longrightarrow> 0 < room \<Longrightarrow> length rest + length (concat rest) < length cs + length (concat cs)"
  using assms by (cases cs; auto split: if_splits)+

text \<open>What was not read together with the end is still before the last chunk, or it was read.\<close>

lemma conn_Read_butlast:
  assumes "conn_Read early room cs = (got, False, rest)" and "x \<in> set (concat (butlast cs))"
  shows "x \<in> set (got @ concat (butlast rest))"
proof (cases cs)
  case (Cons c cs')
  then have "cs' \<noteq> []" using assms(2) by auto
  with Cons assms have x: "x \<in> set c \<or> x \<in> set (concat (butlast cs'))" by auto
  show ?thesis
  proof (cases "room < length c")
    case True
    have "set c = set (take room c) \<union> set (drop room c)" by (metis append_take_drop_id set_append)
    with True x \<open>cs' \<noteq> []\<close> Cons assms(1) show ?thesis by auto
  qed (use x Cons assms(1) in auto)
qed (use assms in simp)

text \<open>
  The loop of \<open>io.ReadAtLeast\<close>, which keeps the bytes that come together with the end: read until \<open>need\<close> bytes have arrived, into a slice with \<open>room\<close> bytes left.
  The result is the bytes read, whether the stream ended first, and the rest of the stream.
\<close>

fun read_loop :: "nat \<Rightarrow> nat \<Rightarrow> stream \<Rightarrow> bytes \<times> bool \<times> stream" where
  "read_loop room need [] = ([], need \<noteq> 0, [])"
| "read_loop room need (c # cs) =
     (if need = 0 then ([], False, c # cs)
      else if room < length c then (take room c, False, drop room c # cs)
      else (let (got, short, rest) = read_loop (room - length c) (need - length c) cs
            in (c @ got, short, rest)))"

definition ReadAtLeast :: "nat \<Rightarrow> nat \<Rightarrow> stream \<Rightarrow> bytes \<times> io_error option \<times> stream" where
  "ReadAtLeast room need cs =
     (if room < need then ([], Some ErrShortBuffer, cs)
      else (let (got, short, rest) = read_loop room need cs
            in (got, if short then Some (if got = [] then EOF else ErrUnexpectedEOF) else None, rest)))"

text \<open>
  What the callers rely on: nothing is lost, the slice is not overrun, and an error is reported
  exactly when the stream holds too few bytes.
\<close>

lemma read_loop_spec:
  assumes "read_loop room need cs = (got, short, rest)" and "need \<le> room"
  shows "got @ concat rest = concat cs \<and> length got \<le> room \<and> (short \<longleftrightarrow> length (concat cs) < need) \<and>
    (\<not> short \<longrightarrow> need \<le> length got) \<and> (short \<longrightarrow> rest = [])"
  using assms
proof (induction room need cs arbitrary: got short rest rule: read_loop.induct)
  case (1 room need)
  then show ?case by auto
next
  case (2 room need c cs)
  show ?case
  proof (cases "need = 0 \<or> room < length c")
    case True
    with 2 show ?thesis by (auto split: if_splits)
  next
    case False
    obtain got' short' rest' where
      r: "read_loop (room - length c) (need - length c) cs = (got', short', rest')"
      by (metis prod_cases3)
    with False "2.prems" have eqs: "got = c @ got'" "short = short'" "rest = rest'" by auto
    from False "2.prems"(2) r "2.IH" [of got' short' rest'] have
      "got' @ concat rest' = concat cs \<and> length got' \<le> room - length c \<and>
       (short' \<longleftrightarrow> length (concat cs) < need - length c) \<and>
       (\<not> short' \<longrightarrow> need - length c \<le> length got') \<and> (short' \<longrightarrow> rest' = [])"
      by simp
    with False eqs show ?thesis by auto
  qed
qed

lemma ReadAtLeast_ok:
  assumes "ReadAtLeast room need cs = (got, None, rest)"
  shows "got @ concat rest = concat cs" "need \<le> length got" "length got \<le> room"
  using assms read_loop_spec [of room need cs]
  by (auto simp: ReadAtLeast_def split: if_splits prod.splits)

lemma ReadAtLeast_err:
  assumes "ReadAtLeast room need cs = (got, Some e, rest)" and "need \<le> room"
  shows "length (concat cs) < need" "got @ concat rest = concat cs" "length got \<le> room"
  using assms read_loop_spec [of room need cs]
  by (auto simp: ReadAtLeast_def split: if_splits prod.splits)

lemma ReadAtLeast_enough:
  assumes "need \<le> room" and "need \<le> length (concat cs)"
  shows "\<exists>got rest. ReadAtLeast room need cs = (got, None, rest)"
  using assms read_loop_spec [of room need cs]
  by (auto simp: ReadAtLeast_def split: if_splits prod.splits)

text \<open>
  The sending side: what each \<open>Write\<close> call will do, either fail or accept some number of the bytes it
  is given (a \<open>Write\<close> that accepts fewer reports no error here, which is more than \<open>net.Conn\<close> allows).
\<close>

datatype write_outcome = WriteOk nat | WriteFail

end
