(* ===== verification/Gonet_TcpTask.thy ===== *)
theory Gonet_TcpTask
  imports Gonet_ByteBuffer Go_Io
begin

text \<open>
  The framed TCP session of \<open>lib/gonet/tcptask.go\<close>.  A sender appends a frame, four bytes of
  little-endian length and the payload, to \<open>sendBuff\<close> and signals the send loop, which moves the bytes
  to its own buffer and writes them to the connection; the receive loop reads frames from the
  connection into \<open>recvBuff\<close> and hands each payload to \<open>ParseMsg\<close>.

  The record holds the fields of the Go struct.  A channel of capacity one is the number of
  elements it holds (and whether it was closed); the connection is whether it was closed, and the
  calls of the derived object's \<open>OnClose\<close> are counted.
\<close>

definition cmd_max_size :: nat where "cmd_max_size = 256 * 1024"

definition cmd_header_size :: nat where "cmd_header_size = 4"

definition cmd_verify_time :: nat where "cmd_verify_time = 30"

record TcpTask =
  tcp_closed :: int
  tcp_verified :: "32 word"
  tcp_stoped :: nat
  tcp_stoped_closed :: bool
  tcp_recvBuff :: ByteBuffer
  tcp_sendBuff :: ByteBuffer
  tcp_signal :: nat
  tcp_keepAliveSecond :: int
  tcp_Index :: int
  tcp_conn_closed :: bool
  tcp_onclose :: nat

definition NewTcpTaskTimeout :: "int \<Rightarrow> int \<Rightarrow> TcpTask" where
  "NewTcpTaskTimeout now timeout =
     \<lparr>tcp_closed = - 1, tcp_verified = 0, tcp_stoped = 0, tcp_stoped_closed = False,
      tcp_recvBuff = NewByteBuffer, tcp_sendBuff = NewByteBuffer, tcp_signal = 0,
      tcp_keepAliveSecond = timeout, tcp_Index = now, tcp_conn_closed = False, tcp_onclose = 0\<rparr>"

definition NewTcpTask :: "int \<Rightarrow> TcpTask" where
  "NewTcpTask now =
     \<lparr>tcp_closed = - 1, tcp_verified = 0, tcp_stoped = 0, tcp_stoped_closed = False,
      tcp_recvBuff = NewByteBuffer, tcp_sendBuff = NewByteBuffer, tcp_signal = 0,
      tcp_keepAliveSecond = 0, tcp_Index = now, tcp_conn_closed = False, tcp_onclose = 0\<rparr>"

definition TcpTask_IsClosed :: "TcpTask \<Rightarrow> bool" where
  "TcpTask_IsClosed t = (tcp_closed t \<noteq> 0)"

definition TcpTask_Verify :: "TcpTask \<Rightarrow> TcpTask" where
  "TcpTask_Verify t = t\<lparr>tcp_verified := 1\<rparr>"

definition TcpTask_IsVerified :: "TcpTask \<Rightarrow> bool" where
  "TcpTask_IsVerified t = (tcp_verified t = 1)"

definition TcpTask_Signal :: "TcpTask \<Rightarrow> TcpTask" where
  "TcpTask_Signal t = (if tcp_signal t < 1 then t\<lparr>tcp_signal := tcp_signal t + 1\<rparr> else t)"

text \<open>
  \<open>Stop\<close> tests \<open>closed\<close> and then makes a non-blocking send on \<open>stopedChan\<close>, which panics when the channel is closed: another
  goroutine may close it between the two.
\<close>

definition TcpTask_stop_send :: "TcpTask \<Rightarrow> (TcpTask \<times> bool) option" where
  "TcpTask_stop_send t =
     (if tcp_stoped_closed t then None
      else if tcp_stoped t < 1 then Some (t\<lparr>tcp_stoped := tcp_stoped t + 1\<rparr>, True)
      else Some (t, False))"

definition TcpTask_Stop :: "TcpTask \<Rightarrow> (TcpTask \<times> bool) option" where
  "TcpTask_Stop t = (if TcpTask_IsClosed t then Some (t, False) else TcpTask_stop_send t)"

text \<open>\<open>Start\<close> gives whether the two loops were started.\<close>

definition TcpTask_Start :: "TcpTask \<Rightarrow> TcpTask \<times> bool" where
  "TcpTask_Start t = (if tcp_closed t = - 1 then (t\<lparr>tcp_closed := 0\<rparr>, True) else (t, False))"

text \<open>Closing the already closed \<open>stopedChan\<close> panics.\<close>

definition TcpTask_Close :: "TcpTask \<Rightarrow> TcpTask option" where
  "TcpTask_Close t =
     (if tcp_closed t = 0
      then (let t1 = t\<lparr>tcp_closed := - 1, tcp_conn_closed := True,
                       tcp_recvBuff := ByteBuffer_Reset (tcp_recvBuff t),
                       tcp_sendBuff := ByteBuffer_Reset (tcp_sendBuff t)\<rparr>
            in if tcp_stoped_closed t1 then None
               else Some (t1\<lparr>tcp_stoped_closed := True, tcp_onclose := tcp_onclose t1 + 1\<rparr>))
      else Some t)"

text \<open>The same \<open>Close\<close> in the steps between which other goroutines run.\<close>

datatype close_phase = CloseCas | CloseConn | CloseRecv | CloseSend | CloseChan | CloseNotify | CloseReturned

fun TcpTask_close_step :: "close_phase \<Rightarrow> TcpTask \<Rightarrow> (TcpTask \<times> close_phase) option" where
  "TcpTask_close_step CloseCas t =
     (if tcp_closed t = 0 then Some (t\<lparr>tcp_closed := - 1\<rparr>, CloseConn) else Some (t, CloseReturned))"
| "TcpTask_close_step CloseConn t = Some (t\<lparr>tcp_conn_closed := True\<rparr>, CloseRecv)"
| "TcpTask_close_step CloseRecv t = Some (t\<lparr>tcp_recvBuff := ByteBuffer_Reset (tcp_recvBuff t)\<rparr>, CloseSend)"
| "TcpTask_close_step CloseSend t = Some (t\<lparr>tcp_sendBuff := ByteBuffer_Reset (tcp_sendBuff t)\<rparr>, CloseChan)"
| "TcpTask_close_step CloseChan t =
     (if tcp_stoped_closed t then None else Some (t\<lparr>tcp_stoped_closed := True\<rparr>, CloseNotify))"
| "TcpTask_close_step CloseNotify t = Some (t\<lparr>tcp_onclose := tcp_onclose t + 1\<rparr>, CloseReturned)"
| "TcpTask_close_step CloseReturned t = Some (t, CloseReturned)"

lemma TcpTask_Close_steps:
  "map_option (\<lambda>t'. (t', CloseReturned)) (TcpTask_Close t) =
     do {
       (t, p) \<leftarrow> TcpTask_close_step CloseCas t;
       (t, p) \<leftarrow> TcpTask_close_step p t;
       (t, p) \<leftarrow> TcpTask_close_step p t;
       (t, p) \<leftarrow> TcpTask_close_step p t;
       (t, p) \<leftarrow> TcpTask_close_step p t;
       TcpTask_close_step p t
     }"
  by (simp add: TcpTask_Close_def Let_def)

definition TcpTask_Terminate :: "TcpTask \<Rightarrow> TcpTask option" where
  "TcpTask_Terminate t = TcpTask_Close t"

section \<open>Sending\<close>

text \<open>
  \<open>byte(bsize), byte(bsize>>8), byte(bsize>>16), byte(bsize>>24)\<close> of a length, which is a
  64-bit \<open>int\<close>.
\<close>

definition size_bytes :: "nat \<Rightarrow> bytes" where
  "size_bytes n = (let bsize = of_nat n :: 64 word in
     [ucast bsize, ucast (drop_bit 8 bsize), ucast (drop_bit 16 bsize), ucast (drop_bit 24 bsize)])"

text \<open>The part of \<open>AsyncSend\<close> under \<open>sendMutex\<close>.\<close>

definition TcpTask_queue :: "TcpTask \<Rightarrow> bytes \<Rightarrow> TcpTask option" where
  "TcpTask_queue t buff = do {
     let bsize = length buff;
     b1 \<leftarrow> ByteBuffer_Append (tcp_sendBuff t) (size_bytes bsize);
     b2 \<leftarrow> ByteBuffer_Append b1 buff;
     Some (t\<lparr>tcp_sendBuff := b2\<rparr>)
   }"

definition TcpTask_AsyncSend :: "TcpTask \<Rightarrow> bytes \<Rightarrow> (TcpTask \<times> bool) option" where
  "TcpTask_AsyncSend t buff =
     (if TcpTask_IsClosed t then Some (t, False)
      else do {
        t1 \<leftarrow> TcpTask_queue t buff;
        Some (TcpTask_Signal t1, True)
      })"

definition TcpTask_AsyncRawSend :: "TcpTask \<Rightarrow> bytes \<Rightarrow> (TcpTask \<times> bool) option" where
  "TcpTask_AsyncRawSend t buff =
     (if TcpTask_IsClosed t then Some (t, False)
      else do {
        b1 \<leftarrow> ByteBuffer_Append (tcp_sendBuff t) buff;
        Some (TcpTask_Signal (t\<lparr>tcp_sendBuff := b1\<rparr>), True)
      })"

definition TcpTask_AsyncSendWithHead :: "TcpTask \<Rightarrow> bytes \<Rightarrow> bytes \<Rightarrow> (TcpTask \<times> bool) option" where
  "TcpTask_AsyncSendWithHead t head buff =
     (if TcpTask_IsClosed t then Some (t, False)
      else do {
        let bsize = length buff + length head + cmd_header_size;
        b1 \<leftarrow> ByteBuffer_Append (tcp_sendBuff t) (size_bytes bsize);
        b2 \<leftarrow> ByteBuffer_Append b1 head;
        b3 \<leftarrow> ByteBuffer_Append b2 buff;
        Some (TcpTask_Signal (t\<lparr>tcp_sendBuff := b3\<rparr>), True)
      })"

definition TcpTask_RouteRpcBuffToService ::
  "TcpTask \<Rightarrow> byte \<Rightarrow> 64 word \<Rightarrow> 64 word \<Rightarrow> bytes \<Rightarrow> (TcpTask \<times> bool) option" where
  "TcpTask_RouteRpcBuffToService t flag innerId uid buff =
     (if TcpTask_IsClosed t then Some (t, False)
      else do {
        let bsize = length buff + 8 + 8 + 1;
        b1 \<leftarrow> ByteBuffer_Append (tcp_sendBuff t) (size_bytes bsize @ [flag]);
        b2 \<leftarrow> ByteBuffer_AppendUint64 b1 innerId;
        b3 \<leftarrow> ByteBuffer_AppendUint64 b2 uid;
        b4 \<leftarrow> ByteBuffer_Append b3 buff;
        Some (TcpTask_Signal (t\<lparr>tcp_sendBuff := b4\<rparr>), True)
      })"

definition TcpTask_SendInnerMsgToClient ::
  "TcpTask \<Rightarrow> byte \<Rightarrow> byte \<Rightarrow> 16 word \<Rightarrow> 32 word \<Rightarrow> bytes \<Rightarrow> (TcpTask \<times> bool) option" where
  "TcpTask_SendInnerMsgToClient t flag mainCmd subCmd rpcId buff =
     (if TcpTask_IsClosed t then Some (t, False)
      else do {
        let bsize = length buff + 8;
        b1 \<leftarrow> ByteBuffer_Append (tcp_sendBuff t) (size_bytes bsize @ [flag, mainCmd]);
        b2 \<leftarrow> ByteBuffer_AppendUint16 b1 subCmd;
        b3 \<leftarrow> ByteBuffer_AppendUint32 b2 rpcId;
        b4 \<leftarrow> ByteBuffer_Append b3 buff;
        Some (TcpTask_Signal (t\<lparr>tcp_sendBuff := b4\<rparr>), True)
      })"

text \<open>
  The inner loop of \<open>sendloop\<close> after a signal, over the outcomes of the \<open>Write\<close> calls: take what is in
  \<open>sendBuff\<close>, stop when nothing is left, write, drop what was written.  The result is the bytes the
  connection accepted, the two buffers, and how the loop ended.
\<close>

datatype send_end = SendIdle | SendFailed | SendBlocked

definition TcpTask_send_fetch :: "ByteBuffer \<Rightarrow> ByteBuffer \<Rightarrow> (ByteBuffer \<times> ByteBuffer) option" where
  "TcpTask_send_fetch sb tmp =
     (if ByteBuffer_RdReady sb
      then do {
        xs \<leftarrow> slice (ByteBuffer_RdBuf sb) 0 (nat (ByteBuffer_RdSize sb));
        tmp' \<leftarrow> ByteBuffer_Append tmp xs;
        Some (ByteBuffer_Reset sb, tmp')
      }
      else Some (sb, tmp))"

fun TcpTask_sendloop ::
  "write_outcome list \<Rightarrow> ByteBuffer \<Rightarrow> ByteBuffer \<Rightarrow> (bytes \<times> ByteBuffer \<times> ByteBuffer \<times> send_end) option" where
  "TcpTask_sendloop ws sb tmp =
     (case TcpTask_send_fetch sb tmp of
        None \<Rightarrow> None
      | Some (sb1, tmp1) \<Rightarrow>
          if \<not> ByteBuffer_RdReady tmp1 then Some ([], sb1, tmp1, SendIdle)
          else (case slice (ByteBuffer_RdBuf tmp1) 0 (nat (ByteBuffer_RdSize tmp1)) of
              None \<Rightarrow> None
            | Some xs \<Rightarrow>
                (case ws of
                   [] \<Rightarrow> Some ([], sb1, tmp1, SendBlocked)
                 | WriteFail # _ \<Rightarrow> Some ([], sb1, tmp1, SendFailed)
                 | WriteOk n # ws' \<Rightarrow>
                     (let writenum = min n (length xs) in
                      case TcpTask_sendloop ws' sb1 (ByteBuffer_RdFlip tmp1 writenum) of
                        None \<Rightarrow> None
                      | Some (out, sb2, tmp2, e) \<Rightarrow> Some (take writenum xs @ out, sb2, tmp2, e)))))"

declare TcpTask_sendloop.simps [simp del]

section \<open>Receiving\<close>

definition TcpTask_readAtLeast ::
  "ByteBuffer \<Rightarrow> stream \<Rightarrow> nat \<Rightarrow> (ByteBuffer \<times> stream \<times> io_error option) option" where
  "TcpTask_readAtLeast b cs neednum = do {
     b1 \<leftarrow> ByteBuffer_WrGrow b neednum;
     let (got, err, rest) = ReadAtLeast (length (ByteBuffer_WrBuf b1)) neednum cs;
     b2 \<leftarrow> ByteBuffer_fill b1 got;
     Some (b2, rest, err)
   }"

text \<open>The two \<open>if totalsize < n { readAtLeast(n - totalsize) }\<close> blocks of the receive loop.\<close>

definition TcpTask_need ::
  "ByteBuffer \<Rightarrow> stream \<Rightarrow> nat \<Rightarrow> (ByteBuffer \<times> stream \<times> io_error option) option" where
  "TcpTask_need b cs n =
     (let totalsize = ByteBuffer_RdSize b in
      if totalsize < int n then TcpTask_readAtLeast b cs (nat (int n - totalsize))
      else Some (b, cs, None))"

datatype recv_stop = RecvFailed | BadSize nat

text \<open>One turn of the loop of \<open>recvloop\<close>: an early return, or a message handed to \<open>ParseMsg\<close>.\<close>

definition TcpTask_recv_once ::
  "ByteBuffer \<Rightarrow> stream \<Rightarrow> (recv_stop + bytes \<times> ByteBuffer \<times> stream) option" where
  "TcpTask_recv_once b cs = do {
     (b1, cs1, err1) \<leftarrow> TcpTask_need b cs cmd_header_size;
     if err1 \<noteq> None then Some (Inl RecvFailed)
     else do {
       size32 \<leftarrow> (le_get 4 (ByteBuffer_RdBuf b1) :: 32 word option);
       let datasize = unat size32;
       if datasize \<le> 0 \<or> datasize > cmd_max_size then Some (Inl (BadSize datasize))
       else do {
         (b2, cs2, err2) \<leftarrow> TcpTask_need b1 cs1 (datasize + cmd_header_size);
         if err2 \<noteq> None then Some (Inl RecvFailed)
         else do {
           msg \<leftarrow> slice (ByteBuffer_RdBuf b2) cmd_header_size (cmd_header_size + datasize);
           Some (Inr (msg, ByteBuffer_RdFlip b2 (datasize + cmd_header_size), cs2))
         }
       }
     }
   }"

text \<open>
  The loop, with fuel: the messages handed to \<open>ParseMsg\<close> in order and how it ended.  A panic is
  recovered and ends it.
\<close>

datatype recv_end = Stopped recv_stop | Panicked | Running

fun TcpTask_recvloop :: "nat \<Rightarrow> ByteBuffer \<Rightarrow> stream \<Rightarrow> bytes list \<times> recv_end" where
  "TcpTask_recvloop 0 b cs = ([], Running)"
| "TcpTask_recvloop (Suc fuel) b cs =
     (case TcpTask_recv_once b cs of
        None \<Rightarrow> ([], Panicked)
      | Some (Inl e) \<Rightarrow> ([], Stopped e)
      | Some (Inr (m, b', cs')) \<Rightarrow> (let (ms, e) = TcpTask_recvloop fuel b' cs' in (m # ms, e)))"

section \<open>Receiving frames\<close>

text \<open>
  What the two kinds of session share: a loop over turns, each of which takes one frame from the front of what has arrived and
  what will arrive.  Such a loop hands over the messages of a stream of frames, however the network cuts it.
\<close>

locale frame_receiver =
  fixes once :: "ByteBuffer \<Rightarrow> stream \<Rightarrow> (recv_stop + 'm \<times> ByteBuffer \<times> stream) option"
    and loop :: "nat \<Rightarrow> ByteBuffer \<Rightarrow> stream \<Rightarrow> 'm list \<times> recv_end"
    and encode :: "'m \<Rightarrow> bytes"
    and fits :: "'m \<Rightarrow> bool"
  assumes loop_once: "loop (Suc n) b cs = (case once b cs of
        None \<Rightarrow> ([], Panicked)
      | Some (Inl e) \<Rightarrow> ([], Stopped e)
      | Some (Inr (m, b', cs')) \<Rightarrow> (let (ms, e) = loop n b' cs' in (m # ms, e)))"
    and once_frame: "bb_inv b \<Longrightarrow> bb_contents b @ concat cs = encode m @ rest \<Longrightarrow> fits m \<Longrightarrow>
      \<exists>b' cs'. once b cs = Some (Inr (m, b', cs')) \<and> bb_inv b' \<and> bb_contents b' @ concat cs' = rest"
    and once_end: "bb_inv b \<Longrightarrow> bb_contents b @ concat cs = [] \<Longrightarrow> once b cs = Some (Inl RecvFailed)"
begin

lemma loop_frames:
  assumes "bb_inv b" "bb_contents b @ concat cs = concat (map encode ms)" "\<forall>m \<in> set ms. fits m"
  shows "loop (Suc (length ms)) b cs = (ms, Stopped RecvFailed)"
  using assms
proof (induction ms arbitrary: b cs)
  case Nil
  then show ?case by (simp add: loop_once once_end)
next
  case (Cons m ms)
  obtain b' cs' where "once b cs = Some (Inr (m, b', cs'))" "bb_inv b'" "bb_contents b' @ concat cs' = concat (map encode ms)"
    using once_frame [OF Cons.prems(1), of cs m "concat (map encode ms)"] Cons.prems(2,3) by auto
  then show ?case
    using Cons.IH [of b' cs'] Cons.prems(3) by (simp add: loop_once [of "Suc (length ms)"])
qed

end

section \<open>The receive loop against a reference parser\<close>

text \<open>What a byte stream means: its frames, and why the last one is not followed by another.\<close>

function frames_of :: "bytes \<Rightarrow> bytes list \<times> recv_stop" where
  "frames_of s =
     (case (le_get 4 s :: 32 word option) of
        None \<Rightarrow> ([], RecvFailed)
      | Some w \<Rightarrow>
          if unat w = 0 \<or> cmd_max_size < unat w then ([], BadSize (unat w))
          else if length s < unat w + 4 then ([], RecvFailed)
          else (let (ms, e) = frames_of (drop (unat w + 4) s) in (take (unat w) (drop 4 s) # ms, e)))"
  by pat_completeness auto
termination
  by (relation "measure length") auto

declare frames_of.simps [simp del]

lemma le_get_append: "n \<le> length xs \<Longrightarrow> le_get n (xs @ ys) = le_get n xs"
  by (simp add: le_get_def)

lemma RdBuf_prefix:
  assumes "bb_inv b"
  obtains ys where "ByteBuffer_RdBuf b = bb_contents b @ ys"
  using RdBuf_contents [OF assms] by (metis append_take_drop_id)

lemma RdBuf_le_get:
  assumes "bb_inv b" and "n \<le> length (bb_contents b)"
  shows "le_get n (ByteBuffer_RdBuf b) = le_get n (bb_contents b @ zs)"
  using RdBuf_prefix [OF assms(1)] assms(2) by (metis le_get_append)

lemma RdBuf_slice:
  assumes "bb_inv b" and "i \<le> j" and "j \<le> length (bb_contents b)"
  shows "slice (ByteBuffer_RdBuf b) i j = Some (take (j - i) (drop i (bb_contents b @ zs)))"
proof -
  obtain ys where "ByteBuffer_RdBuf b = bb_contents b @ ys" using RdBuf_prefix [OF assms(1)] .
  with assms(2,3) show ?thesis by (simp add: slice_def)
qed

lemma WrBuf_length: "bb_inv b \<Longrightarrow> int (length (ByteBuffer_WrBuf b)) = ByteBuffer_WrSize b"
  by (auto simp: ByteBuffer_WrBuf_def ByteBuffer_WrSize_def bb_inv_def)

lemma readAtLeast_spec:
  assumes "bb_inv b" and "TcpTask_readAtLeast b cs n = r"
  shows "\<exists>b' cs' err. r = Some (b', cs', err) \<and> bb_inv b' \<and>
    bb_contents b' @ concat cs' = bb_contents b @ concat cs \<and>
    (err = None \<longleftrightarrow> n \<le> length (concat cs)) \<and>
    (err = None \<longrightarrow> length (bb_contents b) + n \<le> length (bb_contents b'))"
proof -
  from WrGrow_inv [OF assms(1), of n] obtain b1 where
    b1: "ByteBuffer_WrGrow b n = Some b1" "bb_inv b1" "bb_contents b1 = bb_contents b" "int n \<le> ByteBuffer_WrSize b1"
    by blast
  let ?room = "length (ByteBuffer_WrBuf b1)"
  have room: "n \<le> ?room" using WrBuf_length [OF b1(2)] b1(4) by linarith
  obtain got err rest where ra: "ReadAtLeast ?room n cs = (got, err, rest)" by (metis prod_cases3)
  have io: "got @ concat rest = concat cs \<and> length got \<le> ?room \<and> (err = None \<longleftrightarrow> n \<le> length (concat cs)) \<and>
    (err = None \<longrightarrow> n \<le> length got)"
  proof (cases err)
    case None
    from ReadAtLeast_ok [OF ra [unfolded None]] have
      "got @ concat rest = concat cs" "n \<le> length got" "length got \<le> ?room" .
    moreover from this have "n \<le> length (concat cs)" by (metis le_add1 length_append le_trans)
    ultimately show ?thesis using None by simp
  next
    case (Some e)
    from ReadAtLeast_err [OF ra [unfolded Some] room] show ?thesis using Some by simp
  qed
  from io WrBuf_length [OF b1(2)] have "int (length got) \<le> ByteBuffer_WrSize b1" by linarith
  from fill_inv [OF b1(2) this] obtain b2 where
    b2: "ByteBuffer_fill b1 got = Some b2" "bb_inv b2" "bb_contents b2 = bb_contents b1 @ got" by blast
  have "r = Some (b2, rest, err)"
    using assms(2) b1(1) b2(1) ra by (simp add: TcpTask_readAtLeast_def)
  with b1 b2 io show ?thesis by auto
qed

text \<open>The two reads of one turn: make sure that \<open>n\<close> bytes are in the buffer.\<close>

lemma need_spec:
  assumes "bb_inv b"
  shows "\<exists>b' cs' err. TcpTask_need b cs n = Some (b', cs', err) \<and> bb_inv b' \<and>
    bb_contents b' @ concat cs' = bb_contents b @ concat cs \<and>
    (err = None \<longleftrightarrow> n \<le> length (bb_contents b @ concat cs)) \<and>
    (err = None \<longrightarrow> n \<le> length (bb_contents b'))"
proof (cases "ByteBuffer_RdSize b < int n")
  case True
  with RdSize_contents [OF assms] have lt: "length (bb_contents b) < n" by linarith
  have "nat (int n - ByteBuffer_RdSize b) = n - length (bb_contents b)"
    using RdSize_contents [OF assms] by linarith
  with True have "TcpTask_need b cs n = TcpTask_readAtLeast b cs (n - length (bb_contents b))"
    by (simp add: TcpTask_need_def Let_def)
  from readAtLeast_spec [OF assms this [symmetric]] lt show ?thesis
    by auto
next
  case False
  with RdSize_contents [OF assms] have "n \<le> length (bb_contents b)" by linarith
  with False assms show ?thesis by (simp add: TcpTask_need_def Let_def)
qed

lemma recv_once_spec:
  assumes inv: "bb_inv b" and s_def: "s = bb_contents b @ concat cs"
  shows "case (le_get 4 s :: 32 word option) of
      None \<Rightarrow> TcpTask_recv_once b cs = Some (Inl RecvFailed)
    | Some w \<Rightarrow>
        if unat w = 0 \<or> cmd_max_size < unat w then TcpTask_recv_once b cs = Some (Inl (BadSize (unat w)))
        else if length s < unat w + 4 then TcpTask_recv_once b cs = Some (Inl RecvFailed)
        else \<exists>b' cs'. TcpTask_recv_once b cs = Some (Inr (take (unat w) (drop 4 s), b', cs')) \<and>
               bb_inv b' \<and> bb_contents b' @ concat cs' = drop (unat w + 4) s"
proof -
  obtain b1 cs1 err1 where r1: "TcpTask_need b cs 4 = Some (b1, cs1, err1)"
    and b1: "bb_inv b1" "bb_contents b1 @ concat cs1 = s" "err1 = None \<longleftrightarrow> 4 \<le> length s"
      "err1 = None \<longrightarrow> 4 \<le> length (bb_contents b1)"
    using need_spec [OF inv, of cs 4] unfolding s_def by blast
  show ?thesis
  proof (cases "4 \<le> length s")
    case False
    with b1(3) r1 show ?thesis by (simp add: TcpTask_recv_once_def le_get_def cmd_header_size_def)
  next
    case True
    with b1(3,4) have err1: "err1 = None" and four: "4 \<le> length (bb_contents b1)" by auto
    from True obtain w :: "32 word" where w: "le_get 4 s = Some w" by (auto simp: le_get_def)
    have hdr: "le_get 4 (ByteBuffer_RdBuf b1) = Some w"
      unfolding RdBuf_le_get [OF b1(1) four, of "concat cs1"] b1(2) by (rule w)
    obtain b2 cs2 err2 where r2: "TcpTask_need b1 cs1 (unat w + 4) = Some (b2, cs2, err2)"
      and b2: "bb_inv b2" "bb_contents b2 @ concat cs2 = s" "err2 = None \<longleftrightarrow> unat w + 4 \<le> length s"
        "err2 = None \<longrightarrow> unat w + 4 \<le> length (bb_contents b2)"
      using need_spec [OF b1(1), of cs1 "unat w + 4"] unfolding b1(2) by blast
    have once: "TcpTask_recv_once b cs =
      (if unat w = 0 \<or> cmd_max_size < unat w then Some (Inl (BadSize (unat w)))
       else if err2 \<noteq> None then Some (Inl RecvFailed)
       else Option.bind (slice (ByteBuffer_RdBuf b2) 4 (4 + unat w))
              (\<lambda>msg. Some (Inr (msg, ByteBuffer_RdFlip b2 (unat w + 4), cs2))))"
      using r1 r2 err1 hdr by (simp add: TcpTask_recv_once_def cmd_header_size_def Let_def)
    show ?thesis
    proof (cases "err2 = None")
      case True
      with b2(4) have len: "unat w + 4 \<le> length (bb_contents b2)" by simp
      have "slice (ByteBuffer_RdBuf b2) 4 (4 + unat w) = Some (take (unat w) (drop 4 s))"
        using RdBuf_slice [OF b2(1), of 4 "4 + unat w" "concat cs2"] len b2(2) by simp
      moreover have "bb_contents (ByteBuffer_RdFlip b2 (unat w + 4)) @ concat cs2 = drop (unat w + 4) s"
        using len RdFlip_contents [OF b2(1)] b2(2) [symmetric] by (simp)
      ultimately show ?thesis
        using True once w b2(3) RdFlip_inv [OF b2(1)] by simp
    next
      case False
      with once w b2(3) show ?thesis by simp
    qed
  qed
qed

lemma recvloop_frames_of:
  assumes "bb_inv b" and "s = bb_contents b @ concat cs" and "length s < fuel"
  shows "TcpTask_recvloop fuel b cs = (fst (frames_of s), Stopped (snd (frames_of s)))"
  using assms
proof (induction fuel arbitrary: b cs s)
  case 0
  then show ?case by simp
next
  case (Suc fuel)
  note once = recv_once_spec [OF Suc.prems(1,2)]
  show ?case
  proof (cases "le_get 4 s :: 32 word option")
    case None
    with once show ?thesis by (simp add: frames_of.simps [of s])
  next
    case (Some w)
    consider "unat w = 0 \<or> cmd_max_size < unat w" | "\<not> (unat w = 0 \<or> cmd_max_size < unat w)" "length s < unat w + 4"
      | "\<not> (unat w = 0 \<or> cmd_max_size < unat w)" "\<not> length s < unat w + 4"
      by blast
    then show ?thesis
    proof cases
      case 1
      with once Some show ?thesis by (simp add: frames_of.simps [of s])
    next
      case 2
      with once Some show ?thesis by (simp add: frames_of.simps [of s])
    next
      case 3
      with once Some obtain b' cs' where
        r: "TcpTask_recv_once b cs = Some (Inr (take (unat w) (drop 4 s), b', cs'))"
          "bb_inv b'" "drop (unat w + 4) s = bb_contents b' @ concat cs'"
        by auto
      from 3(2) Suc.prems(3) have "length (drop (unat w + 4) s) < fuel" by simp
      from Suc.IH [OF r(2,3) this] r(1) Some 3 show ?thesis
        by (simp add: frames_of.simps [of s] split: prod.splits)
    qed
  qed
qed

text \<open>
  C2. The receive loop computes exactly the frames of the byte stream, whatever way the network cuts
  it into reads: for every list of chunks the loop ends (one turn per byte is more than enough), it
  never panics, it hands \<open>ParseMsg\<close> the payloads that a parser of the whole stream finds, in order,
  and it closes for the reason that parser gives: a truncated frame, or a size of 0 or above the
  limit of 256 KB.
\<close>

theorem TcpTask_recvloop_parses:
  assumes "length (concat cs) < fuel"
  shows "TcpTask_recvloop fuel NewByteBuffer cs =
    (fst (frames_of (concat cs)), Stopped (snd (frames_of (concat cs))))"
  using recvloop_frames_of [OF NewByteBuffer_inv(1) refl, of cs fuel] assms
  by (simp add: NewByteBuffer_inv(2))

theorem TcpTask_recvloop_parses_witness:
  "TcpTask_recvloop 9 NewByteBuffer [[2, 0], [0, 0, 7], [8, 0, 0]] =
    (fst (frames_of [2, 0, 0, 0, 7, 8, 0, 0]), Stopped (snd (frames_of [2, 0, 0, 0, 7, 8, 0, 0])))"
  using TcpTask_recvloop_parses [of "[[2, 0], [0, 0, 7], [8, 0, 0]]" 9] by simp

section \<open>What the senders write\<close>

definition frame :: "bytes \<Rightarrow> bytes" where
  "frame m = size_bytes (length m) @ m"

lemma size_bytes_le: "size_bytes n = le_bytes 4 (of_nat n :: 64 word)"
  by (simp add: size_bytes_def le_bytes_4 Let_def)

lemma length_size_bytes [simp]: "length (size_bytes n) = 4"
  by (simp add: size_bytes_le)

lemma le_get_size_bytes:
  assumes "n \<le> cmd_max_size"
  shows "\<exists>w. le_get 4 (size_bytes n @ xs) = Some (w :: 32 word) \<and> unat w = n"
proof -
  from assms have "n < 2 ^ 32" by (simp add: cmd_max_size_def)
  then have "unat (ucast (take_bit 32 (of_nat n :: 64 word)) :: 32 word) = n"
    by (intro unat_ucast_take_bit_of_nat) simp_all
  moreover have "le_get 4 (size_bytes n @ xs) = Some (ucast (take_bit 32 (of_nat n :: 64 word)) :: 32 word)"
    using le_get_le_bytes [of 4 "of_nat n :: 64 word" xs] by (simp add: size_bytes_le)
  ultimately show ?thesis by blast
qed

text \<open>A length header that announces \<open>n\<close> bytes takes the next \<open>n\<close> bytes of the stream as one message.\<close>

lemma frames_of_size_bytes:
  assumes "1 \<le> n" and "n \<le> cmd_max_size" and "n \<le> length s"
  shows "frames_of (size_bytes n @ s) = (take n s # fst (frames_of (drop n s)), snd (frames_of (drop n s)))"
proof -
  obtain w :: "32 word" where w: "le_get 4 (size_bytes n @ s) = Some w" "unat w = n"
    using le_get_size_bytes [OF assms(2)] by blast
  then show ?thesis
    using assms by (simp add: frames_of.simps [of "size_bytes n @ s"] split: prod.splits)
qed

lemma frames_of_frame:
  assumes "1 \<le> length m" and "length m \<le> cmd_max_size"
  shows "frames_of (frame m @ s) = (m # fst (frames_of s), snd (frames_of s))"
  using frames_of_size_bytes [of "length m" "m @ s"] assms by (simp add: frame_def)

lemma frames_of_Nil: "frames_of [] = ([], RecvFailed)"
  by (simp add: frames_of.simps [of "[]"] le_get_def)

lemma frames_of_frames:
  "\<forall>m \<in> set ms. 1 \<le> length m \<and> length m \<le> cmd_max_size \<Longrightarrow>
   frames_of (concat (map frame ms)) = (ms, RecvFailed)"
  by (induction ms) (simp_all add: frames_of_frame frames_of_Nil)

interpretation tcp: frame_receiver TcpTask_recv_once TcpTask_recvloop frame "\<lambda>m. 1 \<le> length m \<and> length m \<le> cmd_max_size"
proof unfold_locales
  fix b cs m rest
  assume b: "bb_inv b" and s: "bb_contents b @ concat cs = frame m @ rest" and m: "1 \<le> length m \<and> length m \<le> cmd_max_size"
  obtain w :: "32 word" where "le_get 4 (frame m @ rest) = Some w" "unat w = length m"
    using le_get_size_bytes [of "length m" "m @ rest"] m by (auto simp: frame_def)
  then show "\<exists>b' cs'. TcpTask_recv_once b cs = Some (Inr (m, b', cs')) \<and> bb_inv b' \<and> bb_contents b' @ concat cs' = rest"
    using recv_once_spec [OF b s [symmetric]] m by (auto simp: frame_def split: if_splits)
next
  fix b cs
  assume "bb_inv b" "bb_contents b @ concat cs = []"
  then show "TcpTask_recv_once b cs = Some (Inl RecvFailed)"
    using recv_once_spec [of b "[]" cs] by (simp add: le_get_def)
qed simp

lemma queue_spec:
  assumes "bb_inv (tcp_sendBuff t)"
  shows "\<exists>b. TcpTask_queue t m = Some (t\<lparr>tcp_sendBuff := b\<rparr>) \<and> bb_inv b \<and>
    bb_contents b = bb_contents (tcp_sendBuff t) @ frame m"
proof -
  obtain b1 where b1: "ByteBuffer_Append (tcp_sendBuff t) (size_bytes (length m)) = Some b1" "bb_inv b1"
    "bb_contents b1 = bb_contents (tcp_sendBuff t) @ size_bytes (length m)"
    using Append_inv [OF assms] by blast
  obtain b2 where b2: "ByteBuffer_Append b1 m = Some b2" "bb_inv b2" "bb_contents b2 = bb_contents b1 @ m"
    using Append_inv [OF b1(2)] by blast
  from b1 b2 have "TcpTask_queue t m = Some (t\<lparr>tcp_sendBuff := b2\<rparr>)"
    by (simp add: TcpTask_queue_def)
  with b1 b2 show ?thesis by (auto simp: frame_def)
qed

lemma send_fetch_spec:
  assumes "bb_inv sb" and "bb_inv tmp"
  shows "\<exists>sb1 tmp1. TcpTask_send_fetch sb tmp = Some (sb1, tmp1) \<and> bb_inv sb1 \<and> bb_inv tmp1 \<and>
    bb_contents sb1 = [] \<and> bb_contents tmp1 = bb_contents tmp @ bb_contents sb"
proof (cases "bb_contents sb = []")
  case True
  with assms show ?thesis by (simp add: TcpTask_send_fetch_def RdReady_contents)
next
  case False
  have "slice (ByteBuffer_RdBuf sb) 0 (nat (ByteBuffer_RdSize sb)) = Some (bb_contents sb)"
    using RdBuf_slice [OF assms(1), of 0 "length (bb_contents sb)" "[]"] by (simp add: RdSize_contents [OF assms(1)])
  moreover obtain tmp1 where "ByteBuffer_Append tmp (bb_contents sb) = Some tmp1" "bb_inv tmp1"
    "bb_contents tmp1 = bb_contents tmp @ bb_contents sb"
    using Append_inv [OF assms(2)] by blast
  ultimately show ?thesis
    using False assms by (simp add: TcpTask_send_fetch_def RdReady_contents Reset_inv)
qed

text \<open>
  The send loop writes the pending bytes in order: what the connection accepted and what is still
  buffered are together the bytes that were pending, and the loop goes idle only when all are written.
\<close>

lemma sendloop_spec:
  assumes "bb_inv sb" and "bb_inv tmp"
  shows "\<exists>out sb' tmp' e. TcpTask_sendloop ws sb tmp = Some (out, sb', tmp', e) \<and> bb_inv sb' \<and> bb_inv tmp' \<and>
    out @ bb_contents tmp' @ bb_contents sb' = bb_contents tmp @ bb_contents sb \<and>
    (e = SendIdle \<longrightarrow> bb_contents tmp' = [] \<and> bb_contents sb' = [])"
  using assms
proof (induction ws arbitrary: sb tmp)
  case Nil
  from send_fetch_spec [OF Nil] obtain sb1 tmp1 where
    f: "TcpTask_send_fetch sb tmp = Some (sb1, tmp1)" "bb_inv sb1" "bb_inv tmp1" "bb_contents sb1 = []"
      "bb_contents tmp1 = bb_contents tmp @ bb_contents sb" by blast
  have "slice (ByteBuffer_RdBuf tmp1) 0 (nat (ByteBuffer_RdSize tmp1)) = Some (bb_contents tmp1)"
    using RdBuf_slice [OF f(3), of 0 "length (bb_contents tmp1)" "[]"] by (simp add: RdSize_contents [OF f(3)])
  with f show ?case by (simp add: TcpTask_sendloop.simps RdReady_contents)
next
  case (Cons w ws)
  from send_fetch_spec [OF Cons.prems] obtain sb1 tmp1 where
    f: "TcpTask_send_fetch sb tmp = Some (sb1, tmp1)" "bb_inv sb1" "bb_inv tmp1" "bb_contents sb1 = []"
      "bb_contents tmp1 = bb_contents tmp @ bb_contents sb" by blast
  have sl: "slice (ByteBuffer_RdBuf tmp1) 0 (nat (ByteBuffer_RdSize tmp1)) = Some (bb_contents tmp1)"
    using RdBuf_slice [OF f(3), of 0 "length (bb_contents tmp1)" "[]"] by (simp add: RdSize_contents [OF f(3)])
  show ?case
  proof (cases "bb_contents tmp1 = []")
    case True
    with f show ?thesis by (simp add: TcpTask_sendloop.simps [of "w # ws"] RdReady_contents)
  next
    case False
    show ?thesis
    proof (cases w)
      case WriteFail
      with f sl False show ?thesis by (simp add: TcpTask_sendloop.simps [of "WriteFail # ws"] RdReady_contents)
    next
      case (WriteOk n)
      let ?k = "min n (length (bb_contents tmp1))"
      from Cons.IH [OF f(2) RdFlip_inv [OF f(3)], of ?k] obtain out sb' tmp' e where
        ih: "TcpTask_sendloop ws sb1 (ByteBuffer_RdFlip tmp1 ?k) = Some (out, sb', tmp', e)" "bb_inv sb'" "bb_inv tmp'"
          "out @ bb_contents tmp' @ bb_contents sb' = drop ?k (bb_contents tmp1)"
          "e = SendIdle \<longrightarrow> bb_contents tmp' = [] \<and> bb_contents sb' = []"
        using f(4) RdFlip_contents [OF f(3)] by auto
      have "take ?k (bb_contents tmp1) @ out @ bb_contents tmp' @ bb_contents sb' = bb_contents tmp1"
        using ih(4) by (metis append_take_drop_id)
      with ih f sl False WriteOk show ?thesis
        by (simp add: TcpTask_sendloop.simps [of "WriteOk n # ws"] RdReady_contents Let_def)
    qed
  qed
qed

text \<open>With writes that accept at least one byte, the loop drains both buffers.\<close>

lemma sendloop_drains:
  assumes "bb_inv sb" and "bb_inv tmp" and "length (bb_contents tmp @ bb_contents sb) \<le> length ws"
    and "\<forall>w \<in> set ws. \<exists>n. w = WriteOk (Suc n)"
  shows "\<exists>sb' tmp'. TcpTask_sendloop ws sb tmp = Some (bb_contents tmp @ bb_contents sb, sb', tmp', SendIdle)"
  using assms
proof (induction ws arbitrary: sb tmp)
  case Nil
  with send_fetch_spec [OF Nil(1,2)] show ?case
    by (auto simp: TcpTask_sendloop.simps RdReady_contents)
next
  case (Cons w ws)
  from send_fetch_spec [OF Cons.prems(1,2)] obtain sb1 tmp1 where
    f: "TcpTask_send_fetch sb tmp = Some (sb1, tmp1)" "bb_inv sb1" "bb_inv tmp1" "bb_contents sb1 = []"
      "bb_contents tmp1 = bb_contents tmp @ bb_contents sb" by blast
  have sl: "slice (ByteBuffer_RdBuf tmp1) 0 (nat (ByteBuffer_RdSize tmp1)) = Some (bb_contents tmp1)"
    using RdBuf_slice [OF f(3), of 0 "length (bb_contents tmp1)" "[]"] by (simp add: RdSize_contents [OF f(3)])
  from Cons.prems(4) obtain n where w: "w = WriteOk (Suc n)" by auto
  show ?case
  proof (cases "bb_contents tmp1 = []")
    case True
    with f show ?thesis by (simp add: TcpTask_sendloop.simps [of "w # ws"] RdReady_contents)
  next
    case False
    let ?k = "min (Suc n) (length (bb_contents tmp1))"
    have len: "length (bb_contents (ByteBuffer_RdFlip tmp1 ?k) @ bb_contents sb1) \<le> length ws"
      using Cons.prems(3) f(4,5) RdFlip_contents [OF f(3), of ?k] by auto
    from Cons.IH [OF f(2) RdFlip_inv [OF f(3)] len] Cons.prems(4) obtain sb' tmp' where
      "TcpTask_sendloop ws sb1 (ByteBuffer_RdFlip tmp1 ?k) = Some (drop ?k (bb_contents tmp1), sb', tmp', SendIdle)"
      using f(4) RdFlip_contents [OF f(3), of ?k] by auto
    with f(1-4) sl False w show ?thesis
      by (simp add: TcpTask_sendloop.simps [of "WriteOk (Suc n) # ws"] RdReady_contents Let_def f(5) [symmetric])
  qed
qed

end
