(* ===== verification/Gonet_TcpLink.thy ===== *)
theory Gonet_TcpLink
  imports Gonet_TcpTask "HOL-Library.Sublist"
begin

text \<open>
  The send side of \<open>lib/gonet/tcptask.go\<close> as the goroutines interleave: any number of callers of
  \<open>AsyncSend\<close>, the one goroutine of \<open>sendloop\<close>, and a \<open>Close\<close> that may come from any of them.
  A caller goes through three atomic points, the load of \<open>closed\<close>, the section under \<open>sendMutex\<close> and
  the non-blocking send on \<open>signal\<close>; the loop goes through the receive on a channel, the section under
  \<open>sendMutex\<close> and the \<open>Write\<close>.  The state adds to the task where the loop is, its local buffer
  \<open>tmpByte\<close>, how many callers are between two of their points, the bytes the connection accepted and
  the messages queued so far.
\<close>

datatype send_phase = Waiting | Fetching | Writing | Exited

record link =
  lk_task :: TcpTask
  lk_phase :: send_phase
  lk_tmpByte :: ByteBuffer
  lk_checked :: nat
  lk_queued :: nat
  lk_wire :: bytes
  lk_sent :: "bytes list"

definition link_init :: "int \<Rightarrow> link" where
  "link_init now = \<lparr>lk_task = fst (TcpTask_Start (NewTcpTask now)), lk_phase = Waiting,
     lk_tmpByte = NewByteBuffer, lk_checked = 0, lk_queued = 0, lk_wire = [], lk_sent = []\<rparr>"

inductive link_step :: "link \<Rightarrow> link \<Rightarrow> bool" where
  check: "\<not> TcpTask_IsClosed (lk_task s) \<Longrightarrow> link_step s (s\<lparr>lk_checked := lk_checked s + 1\<rparr>)"
| queue: "lk_checked s = Suc n \<Longrightarrow> TcpTask_queue (lk_task s) m = Some t \<Longrightarrow>
    link_step s (s\<lparr>lk_task := t, lk_checked := n, lk_queued := lk_queued s + 1, lk_sent := lk_sent s @ [m]\<rparr>)"
| signal: "lk_queued s = Suc n \<Longrightarrow>
    link_step s (s\<lparr>lk_task := TcpTask_Signal (lk_task s), lk_queued := n\<rparr>)"
| wake: "lk_phase s = Waiting \<Longrightarrow> tcp_signal (lk_task s) = Suc n \<Longrightarrow>
    link_step s (s\<lparr>lk_task := (lk_task s)\<lparr>tcp_signal := n\<rparr>, lk_phase := Fetching\<rparr>)"
| fetch: "lk_phase s = Fetching \<Longrightarrow> TcpTask_send_fetch (tcp_sendBuff (lk_task s)) (lk_tmpByte s) = Some (sb, tmp) \<Longrightarrow>
    link_step s (s\<lparr>lk_task := (lk_task s)\<lparr>tcp_sendBuff := sb\<rparr>, lk_tmpByte := tmp,
                   lk_phase := (if ByteBuffer_RdReady tmp then Writing else Waiting)\<rparr>)"
| put: "lk_phase s = Writing \<Longrightarrow> \<not> tcp_conn_closed (lk_task s) \<Longrightarrow>
    slice (ByteBuffer_RdBuf (lk_tmpByte s)) 0 (nat (ByteBuffer_RdSize (lk_tmpByte s))) = Some xs \<Longrightarrow> k \<le> length xs \<Longrightarrow>
    link_step s (s\<lparr>lk_wire := lk_wire s @ take k xs, lk_tmpByte := ByteBuffer_RdFlip (lk_tmpByte s) k,
                   lk_phase := Fetching\<rparr>)"
| writerr: "lk_phase s = Writing \<Longrightarrow> link_step s (s\<lparr>lk_phase := Exited\<rparr>)"
| stoped: "lk_phase s = Waiting \<Longrightarrow> tcp_stoped (lk_task s) > 0 \<or> tcp_stoped_closed (lk_task s) \<Longrightarrow>
    link_step s (s\<lparr>lk_phase := Exited\<rparr>)"
| verify_timeout: "lk_phase s = Waiting \<Longrightarrow> \<not> TcpTask_IsVerified (lk_task s) \<Longrightarrow>
    link_step s (s\<lparr>lk_phase := Exited\<rparr>)"
| stop: "TcpTask_Stop (lk_task s) = Some (t, r) \<Longrightarrow> link_step s (s\<lparr>lk_task := t\<rparr>)"
| close: "TcpTask_Close (lk_task s) = Some t \<Longrightarrow> link_step s (s\<lparr>lk_task := t\<rparr>)"

section \<open>The invariant\<close>

text \<open>
  Nothing is lost, duplicated or reordered on the way to the connection, and a waiting loop with
  bytes to send has a signal, or a caller about to give one.
\<close>

definition link_inv :: "link \<Rightarrow> bool" where
  "link_inv s \<longleftrightarrow>
     bb_inv (tcp_sendBuff (lk_task s)) \<and> bb_inv (lk_tmpByte s) \<and>
     prefix (lk_wire s) (concat (map frame (lk_sent s))) \<and>
     (\<not> tcp_conn_closed (lk_task s) \<longrightarrow>
        lk_wire s @ bb_contents (lk_tmpByte s) @ bb_contents (tcp_sendBuff (lk_task s)) =
          concat (map frame (lk_sent s)) \<and>
        (lk_phase s = Waiting \<longrightarrow> bb_contents (lk_tmpByte s) = [] \<and>
           (bb_contents (tcp_sendBuff (lk_task s)) \<noteq> [] \<longrightarrow> 0 < tcp_signal (lk_task s) \<or> 0 < lk_queued s)))"

lemma link_init_inv: "link_inv (link_init now)"
  by (simp add: link_inv_def link_init_def TcpTask_Start_def NewTcpTask_def NewByteBuffer_inv)

lemma Signal_simps [simp]:
  "tcp_sendBuff (TcpTask_Signal t) = tcp_sendBuff t"
  "tcp_conn_closed (TcpTask_Signal t) = tcp_conn_closed t"
  "0 < tcp_signal (TcpTask_Signal t)"
  by (simp_all add: TcpTask_Signal_def)

lemma Stop_fields:
  "TcpTask_Stop t = Some (t', r) \<Longrightarrow> tcp_sendBuff t' = tcp_sendBuff t \<and>
     tcp_conn_closed t' = tcp_conn_closed t \<and> tcp_signal t' = tcp_signal t"
  by (auto simp: TcpTask_Stop_def TcpTask_stop_send_def split: if_splits)

lemma Close_fields:
  "TcpTask_Close t = Some t' \<Longrightarrow> t' = t \<or> tcp_conn_closed t' \<and> tcp_sendBuff t' = ByteBuffer_Reset (tcp_sendBuff t)"
  by (auto simp: TcpTask_Close_def Let_def split: if_splits)

lemma link_step_inv:
  assumes "link_step s s'" and "link_inv s"
  shows "link_inv s'"
  using assms
proof (induction rule: link_step.induct)
  case (queue s n m t)
  from queue.prems obtain b where b: "t = (lk_task s)\<lparr>tcp_sendBuff := b\<rparr>" "bb_inv b"
    "bb_contents b = bb_contents (tcp_sendBuff (lk_task s)) @ frame m"
    using queue_spec [of "lk_task s" m] queue.hyps(2) by (auto simp: link_inv_def)
  with queue.prems show ?case
    by (auto simp: link_inv_def prefix_def)
next
  case (fetch s sb tmp)
  from fetch.prems have "bb_inv (tcp_sendBuff (lk_task s))" "bb_inv (lk_tmpByte s)" by (simp_all add: link_inv_def)
  from send_fetch_spec [OF this] fetch.hyps(2) fetch.prems show ?case
    by (auto simp: link_inv_def RdReady_contents)
next
  case (put s xs k)
  from put.prems have i: "bb_inv (lk_tmpByte s)" by (simp add: link_inv_def)
  have "xs = bb_contents (lk_tmpByte s)"
    using RdBuf_slice [OF i, of 0 "length (bb_contents (lk_tmpByte s))" "[]"] put.hyps(3)
    by (simp add: RdSize_contents [OF i])
  with put.prems put.hyps(2,4) show ?case
    using RdFlip_contents [OF i, of k] RdFlip_inv [OF i, of k]
    by (auto simp: link_inv_def prefix_def) (metis append_assoc append_take_drop_id)+
next
  case (stop s t r)
  with Stop_fields [OF stop.hyps] show ?case by (auto simp: link_inv_def)
next
  case (close s t)
  with Close_fields [OF close.hyps] show ?case by (auto simp: link_inv_def Reset_inv)
qed (auto simp: link_inv_def)

lemma link_reachable_inv: "link_step\<^sup>*\<^sup>* (link_init now) s \<Longrightarrow> link_inv s"
  by (induction rule: rtranclp_induct) (auto simp: link_init_inv link_step_inv)

section \<open>What the other end receives\<close>

lemma frames_of_append: "prefix (fst (frames_of xs)) (fst (frames_of (xs @ ys)))"
proof (induction xs rule: frames_of.induct)
  case (1 s)
  show ?case
  proof (cases "le_get 4 s :: 32 word option")
    case None
    then show ?thesis by (simp add: frames_of.simps [of s])
  next
    case (Some w)
    then have "4 \<le> length s" by (auto simp: le_get_def split: if_splits)
    then have "le_get 4 (s @ ys) = Some w" using Some by (simp add: le_get_append)
    with Some 1 [OF Some] show ?thesis
      by (auto simp: frames_of.simps [of s] frames_of.simps [of "s @ ys"] split: prod.splits)
  qed
qed

lemma recvloop_prefix:
  assumes "prefix (concat cs) s" and "length (concat cs) < fuel"
  shows "prefix (fst (TcpTask_recvloop fuel NewByteBuffer cs)) (fst (frames_of s))"
  using recvloop_frames_of [OF NewByteBuffer_inv(1) refl, of cs fuel] assms frames_of_append
  by (auto simp: NewByteBuffer_inv(2) prefix_def)

text \<open>
  C9. However callers of \<open>AsyncSend\<close>, the send loop, its partial writes, its errors and a \<open>Close\<close>
  interleave, and however much of the written bytes has arrived in whatever chunks, the messages the
  receive loop at the other end delivers are a prefix of the messages queued: none is lost in the
  middle, repeated, reordered or altered.
\<close>

theorem TcpTask_link_delivers_prefix:
  assumes "link_step\<^sup>*\<^sup>* (link_init now) s"
    and "\<forall>m \<in> set (lk_sent s). 1 \<le> length m \<and> length m \<le> cmd_max_size"
    and "prefix (concat cs) (lk_wire s)" and "length (concat cs) < fuel"
  shows "prefix (fst (TcpTask_recvloop fuel NewByteBuffer cs)) (lk_sent s)"
proof -
  have "prefix (concat cs) (concat (map frame (lk_sent s)))"
    using link_reachable_inv [OF assms(1)] assms(3) unfolding link_inv_def by (meson prefix_order.trans)
  from recvloop_prefix [OF this assms(4)] show ?thesis
    using frames_of_frames [OF assms(2)] by simp
qed

text \<open>
  C10. No wake-up is lost: when the loop waits on its channels with no signal there and no caller is
  between its queueing and its signal, on a connection that is still open, every message queued has been
  written, so that the other end receives exactly those messages once the bytes arrive.
\<close>

theorem TcpTask_link_no_lost_wakeup:
  assumes "link_step\<^sup>*\<^sup>* (link_init now) s"
    and "\<forall>m \<in> set (lk_sent s). 1 \<le> length m \<and> length m \<le> cmd_max_size"
    and "lk_phase s = Waiting" and "tcp_signal (lk_task s) = 0" and "lk_queued s = 0"
    and "\<not> tcp_conn_closed (lk_task s)"
    and "concat cs = lk_wire s" and "length (concat cs) < fuel"
  shows "TcpTask_recvloop fuel NewByteBuffer cs = (lk_sent s, Stopped RecvFailed)"
proof -
  have "concat cs = concat (map frame (lk_sent s))"
    using link_reachable_inv [OF assms(1)] assms(3-7) by (auto simp: link_inv_def)
  then show ?thesis
    using recvloop_frames_of [OF NewByteBuffer_inv(1) refl, of cs fuel] assms(8) frames_of_frames [OF assms(2)]
    by (simp add: NewByteBuffer_inv(2))
qed

text \<open>A run with one message: a caller queues it, the loop wakes, writes it and waits again.\<close>

lemma link_queue_message:
  "\<exists>s b. link_step\<^sup>*\<^sup>* (link_init 0) s \<and> bb_inv b \<and> bb_contents b = frame m \<and>
     s = (link_init 0)\<lparr>lk_task := (lk_task (link_init 0))\<lparr>tcp_sendBuff := b, tcp_signal := 1\<rparr>, lk_sent := [m]\<rparr>"
proof -
  let ?t = "lk_task (link_init 0)"
  have t: "\<not> TcpTask_IsClosed ?t" "tcp_sendBuff ?t = NewByteBuffer" "tcp_signal ?t = 0"
    by (simp_all add: link_init_def TcpTask_IsClosed_def TcpTask_Start_def NewTcpTask_def)
  obtain b where b: "TcpTask_queue ?t m = Some (?t\<lparr>tcp_sendBuff := b\<rparr>)" "bb_inv b" "bb_contents b = frame m"
    using queue_spec [of ?t m] t(2) by (auto simp: NewByteBuffer_inv)
  let ?s1 = "(link_init 0)\<lparr>lk_checked := 1\<rparr>"
  let ?s2 = "?s1\<lparr>lk_task := ?t\<lparr>tcp_sendBuff := b\<rparr>, lk_checked := 0, lk_queued := 1, lk_sent := [m]\<rparr>"
  let ?s3 = "?s2\<lparr>lk_task := TcpTask_Signal (lk_task ?s2), lk_queued := 0\<rparr>"
  have "link_step (link_init 0) ?s1"
    using link_step.check [of "link_init 0"] t(1) by (simp add: link_init_def)
  moreover have "link_step ?s1 ?s2"
    using link_step.queue [of ?s1 0 m] b(1) by (simp add: link_init_def)
  moreover have "link_step ?s2 ?s3"
    using link_step.signal [of ?s2 0] by simp
  moreover have "?s3 = (link_init 0)\<lparr>lk_task := ?t\<lparr>tcp_sendBuff := b, tcp_signal := 1\<rparr>, lk_sent := [m]\<rparr>"
    using t(3) by (simp add: TcpTask_Signal_def link_init_def)
  ultimately show ?thesis
    using b(2,3) by (metis (no_types, lifting) rtranclp.rtrancl_into_rtrancl rtranclp.rtrancl_refl)
qed

lemma link_one_message:
  "\<exists>s. link_step\<^sup>*\<^sup>* (link_init 0) s \<and> lk_sent s = [m] \<and> lk_wire s = frame m \<and> lk_phase s = Waiting \<and>
     tcp_signal (lk_task s) = 0 \<and> lk_queued s = 0 \<and> \<not> tcp_conn_closed (lk_task s)"
proof -
  from link_queue_message [of m] obtain s b where s: "link_step\<^sup>*\<^sup>* (link_init 0) s" "bb_inv b" "bb_contents b = frame m"
    "s = (link_init 0)\<lparr>lk_task := (lk_task (link_init 0))\<lparr>tcp_sendBuff := b, tcp_signal := 1\<rparr>, lk_sent := [m]\<rparr>"
    by blast
  define s1 where "s1 = s\<lparr>lk_task := (lk_task s)\<lparr>tcp_signal := 0\<rparr>, lk_phase := Fetching\<rparr>"
  have 1: "link_step s s1"
    using link_step.wake [of s 0] by (simp add: s1_def s(4) link_init_def)
  obtain sb tmp where f: "TcpTask_send_fetch b NewByteBuffer = Some (sb, tmp)" "bb_inv sb" "bb_inv tmp"
    "bb_contents sb = []" "bb_contents tmp = frame m"
    using send_fetch_spec [OF s(2) NewByteBuffer_inv(1)] s(3) by (auto simp: NewByteBuffer_inv)
  define s2 where "s2 = s1\<lparr>lk_task := (lk_task s1)\<lparr>tcp_sendBuff := sb\<rparr>, lk_tmpByte := tmp, lk_phase := Writing\<rparr>"
  have ready: "ByteBuffer_RdReady tmp"
    using RdReady_contents [OF f(3)] f(5) by (auto simp: frame_def size_bytes_def Let_def)
  have 2: "link_step s1 s2"
    using link_step.fetch [of s1 sb tmp] f(1) ready by (simp add: s2_def s1_def s(4) link_init_def)
  define s3 where "s3 = s2\<lparr>lk_wire := frame m, lk_tmpByte := ByteBuffer_RdFlip tmp (length (frame m)), lk_phase := Fetching\<rparr>"
  have "slice (ByteBuffer_RdBuf tmp) 0 (nat (ByteBuffer_RdSize tmp)) = Some (frame m)"
    using RdBuf_slice [OF f(3), of 0 "length (bb_contents tmp)" "[]"] by (simp add: RdSize_contents [OF f(3)] f(5))
  then have 3: "link_step s2 s3"
    using link_step.put [of s2 "frame m" "length (frame m)"]
    by (simp add: s3_def s2_def s1_def s(4) link_init_def NewTcpTask_def TcpTask_Start_def)
  obtain sb' tmp' where g: "TcpTask_send_fetch sb (ByteBuffer_RdFlip tmp (length (frame m))) = Some (sb', tmp')" "bb_inv tmp'"
    "bb_contents tmp' = []"
    using send_fetch_spec [OF f(2) RdFlip_inv [OF f(3)]] RdFlip_contents [OF f(3)] f(4,5)
    by (metis append_Nil drop_all order_refl)
  define s4 where "s4 = s3\<lparr>lk_task := (lk_task s3)\<lparr>tcp_sendBuff := sb'\<rparr>, lk_tmpByte := tmp', lk_phase := Waiting\<rparr>"
  have 4: "link_step s3 s4"
    using link_step.fetch [of s3 sb' tmp'] g(1) RdReady_contents [OF g(2)] g(3) by (simp add: s4_def s3_def s2_def)
  have "link_step\<^sup>*\<^sup>* (link_init 0) s4" using s(1) 1 2 3 4 by (meson rtranclp.rtrancl_into_rtrancl)
  then show ?thesis
    by (intro exI [of _ s4])
      (simp add: s4_def s3_def s2_def s1_def s(4) link_init_def NewTcpTask_def TcpTask_Start_def)
qed

theorem TcpTask_link_delivers_prefix_witness:
  "\<exists>s. link_step\<^sup>*\<^sup>* (link_init 0) s \<and> lk_sent s = [[7, 8]] \<and>
     prefix (fst (TcpTask_recvloop 6 NewByteBuffer [[2, 0], [0, 0, 7]])) (lk_sent s)"
proof -
  obtain s where s: "link_step\<^sup>*\<^sup>* (link_init 0) s" "lk_sent s = [[7, 8]]" "lk_wire s = frame [7, 8]"
    using link_one_message by blast
  have "prefix (concat [[2, 0], [0, 0, 7]]) (lk_wire s)"
    by (simp add: s(3) frame_def size_bytes_def)
  with TcpTask_link_delivers_prefix [OF s(1), of "[[2, 0], [0, 0, 7]]" 6] s show ?thesis
    by (auto simp: cmd_max_size_def)
qed

theorem TcpTask_link_no_lost_wakeup_witness:
  "\<exists>s. link_step\<^sup>*\<^sup>* (link_init 0) s \<and> lk_sent s = [[7, 8]] \<and>
     TcpTask_recvloop 7 NewByteBuffer [[2, 0], [0, 0, 7, 8]] = (lk_sent s, Stopped RecvFailed)"
proof -
  obtain s where s: "link_step\<^sup>*\<^sup>* (link_init 0) s" "lk_sent s = [[7, 8]]" "lk_wire s = frame [7, 8]"
    "lk_phase s = Waiting" "tcp_signal (lk_task s) = 0" "lk_queued s = 0" "\<not> tcp_conn_closed (lk_task s)"
    using link_one_message by blast
  have "concat [[2, 0], [0, 0, 7, 8]] = lk_wire s"
    by (simp add: s(3) frame_def size_bytes_def)
  with TcpTask_link_no_lost_wakeup [OF s(1) _ s(4-7), of "[[2, 0], [0, 0, 7, 8]]" 7] s show ?thesis
    by (auto simp: cmd_max_size_def frame_def)
qed

section \<open>The other senders\<close>

lemma Append_bind:
  assumes "bb_inv b"
    and "\<And>b'. bb_inv b' \<Longrightarrow> bb_contents b' = bb_contents b @ xs \<Longrightarrow> \<exists>t. k b' = Some (t, True) \<and> P t"
  shows "\<exists>t. (ByteBuffer_Append b xs \<bind> k) = Some (t, True) \<and> P t"
  using Append_inv [OF assms(1), of xs] assms(2) by fastforce

lemma RouteRpc_frame:
  assumes "bb_inv (tcp_sendBuff t)" and "\<not> TcpTask_IsClosed t"
  shows "\<exists>t1. TcpTask_RouteRpcBuffToService t flag innerId uid buff = Some (t1, True) \<and>
    bb_contents (tcp_sendBuff t1) = bb_contents (tcp_sendBuff t) @
      frame (flag # le_bytes 8 innerId @ le_bytes 8 uid @ buff)"
  unfolding TcpTask_RouteRpcBuffToService_def AppendUint_Append Let_def
  using assms by (simp, intro Append_bind) (simp_all add: frame_def ac_simps)

lemma SendInner_frame:
  assumes "bb_inv (tcp_sendBuff t)" and "\<not> TcpTask_IsClosed t"
  shows "\<exists>t1. TcpTask_SendInnerMsgToClient t flag mainCmd subCmd rpcId buff = Some (t1, True) \<and>
    bb_contents (tcp_sendBuff t1) = bb_contents (tcp_sendBuff t) @
      frame (flag # mainCmd # le_bytes 2 subCmd @ le_bytes 4 rpcId @ buff)"
  unfolding TcpTask_SendInnerMsgToClient_def AppendUint_Append Let_def
  using assms by (simp, intro Append_bind) (simp_all add: frame_def ac_simps)

lemma SendWithHead_bytes:
  assumes "bb_inv (tcp_sendBuff t)" and "\<not> TcpTask_IsClosed t"
  shows "\<exists>t1. TcpTask_AsyncSendWithHead t head buff = Some (t1, True) \<and>
    bb_contents (tcp_sendBuff t1) = bb_contents (tcp_sendBuff t) @
      size_bytes (length (head @ buff) + 4) @ head @ buff"
  unfolding TcpTask_AsyncSendWithHead_def Let_def cmd_header_size_def
  using assms by (simp, intro Append_bind) (simp_all add: ac_simps)

text \<open>
  C32. The two routing senders queue well-formed frames: on an open task \<open>RouteRpcBuffToService\<close> queues
  the frame of flag, inner id, user id and body, and \<open>SendInnerMsgToClient\<close> the frame of flag, main
  command, sub command, rpc id and body, with the lengths in their headers equal to what follows; on a
  closed task both refuse and change nothing.
\<close>

theorem TcpTask_routing_frames:
  assumes "bb_inv (tcp_sendBuff t)"
  shows "if TcpTask_IsClosed t
    then TcpTask_RouteRpcBuffToService t flag innerId uid buff = Some (t, False) \<and>
      TcpTask_SendInnerMsgToClient t flag mainCmd subCmd rpcId buff = Some (t, False)
    else (\<exists>t1. TcpTask_RouteRpcBuffToService t flag innerId uid buff = Some (t1, True) \<and>
        bb_contents (tcp_sendBuff t1) = bb_contents (tcp_sendBuff t) @
          frame (flag # le_bytes 8 innerId @ le_bytes 8 uid @ buff)) \<and>
      (\<exists>t2. TcpTask_SendInnerMsgToClient t flag mainCmd subCmd rpcId buff = Some (t2, True) \<and>
        bb_contents (tcp_sendBuff t2) = bb_contents (tcp_sendBuff t) @
          frame (flag # mainCmd # le_bytes 2 subCmd @ le_bytes 4 rpcId @ buff))"
  using RouteRpc_frame [OF assms] SendInner_frame [OF assms]
  by (simp add: TcpTask_RouteRpcBuffToService_def TcpTask_SendInnerMsgToClient_def)

theorem TcpTask_routing_frames_witness:
  "\<exists>t2. TcpTask_SendInnerMsgToClient (lk_task (link_init 0)) 1 2 3 4 [5] = Some (t2, True) \<and>
     bb_contents (tcp_sendBuff t2) = [9, 0, 0, 0, 1, 2, 3, 0, 4, 0, 0, 0, 5]"
proof -
  let ?t = "lk_task (link_init 0)"
  have "bb_inv (tcp_sendBuff ?t)" "\<not> TcpTask_IsClosed ?t" "bb_contents (tcp_sendBuff ?t) = []"
    by (simp_all add: link_init_def NewTcpTask_def TcpTask_Start_def TcpTask_IsClosed_def NewByteBuffer_inv)
  with TcpTask_routing_frames [of ?t 1 0 0 "[5]" 2 3 4] show ?thesis
    by (simp add: frame_def size_bytes_def le_bytes_def upt_rec)
qed

text \<open>
  \<open>AsyncSendWithHead\<close> counts the header size in the length it announces, which the receive loop
  does not: sent on its own, a message is never delivered; sent before another message, it is delivered with the
  four header bytes of that message at its end.
\<close>

lemma TcpTask_AsyncSendWithHead_overruns:
  assumes "bb_inv (tcp_sendBuff t)" and "\<not> TcpTask_IsClosed t" and "bb_contents (tcp_sendBuff t) = []"
    and "length head + length buff + 4 \<le> cmd_max_size"
  shows "\<exists>t1. TcpTask_AsyncSendWithHead t head buff = Some (t1, True) \<and>
    fst (frames_of (bb_contents (tcp_sendBuff t1))) = [] \<and>
    (\<forall>m. hd (fst (frames_of (bb_contents (tcp_sendBuff t1) @ frame m))) =
       head @ buff @ size_bytes (length m))"
proof -
  obtain t1 where t1: "TcpTask_AsyncSendWithHead t head buff = Some (t1, True)"
    "bb_contents (tcp_sendBuff t1) = size_bytes (length (head @ buff) + 4) @ head @ buff"
    using SendWithHead_bytes [OF assms(1,2), of head buff] assms(3) by auto
  let ?n = "length (head @ buff) + 4"
  have "?n \<le> cmd_max_size" using assms(4) by simp
  from le_get_size_bytes [OF this, of "head @ buff"] obtain w :: "32 word" where
    w: "le_get 4 (size_bytes ?n @ head @ buff) = Some w" "unat w = ?n" by blast
  then have "fst (frames_of (size_bytes ?n @ head @ buff)) = []"
    by (subst frames_of.simps) simp
  moreover have "hd (fst (frames_of (size_bytes ?n @ head @ buff @ frame m))) = head @ buff @ size_bytes (length m)"
    for m
    using frames_of_size_bytes [of ?n "head @ buff @ frame m"] \<open>?n \<le> cmd_max_size\<close>
    by (simp add: frame_def)
  ultimately show ?thesis using t1 by simp
qed

lemma TcpTask_AsyncSendWithHead_overruns_instance:
  "\<exists>t1. TcpTask_AsyncSendWithHead (lk_task (link_init 0)) [1] [2] = Some (t1, True) \<and>
     fst (frames_of (bb_contents (tcp_sendBuff t1))) = []"
proof -
  let ?t = "lk_task (link_init 0)"
  have "bb_inv (tcp_sendBuff ?t)" "\<not> TcpTask_IsClosed ?t" "bb_contents (tcp_sendBuff ?t) = []"
    by (simp_all add: link_init_def NewTcpTask_def TcpTask_Start_def TcpTask_IsClosed_def NewByteBuffer_inv)
  with TcpTask_AsyncSendWithHead_overruns [of ?t "[1]" "[2]"] show ?thesis
    by (auto simp: cmd_max_size_def)
qed

section \<open>The life of a task\<close>

datatype tcp_op = OpStart | OpClose | OpTerminate | OpStop | OpVerify | OpSend bytes

fun tcp_step :: "tcp_op \<Rightarrow> TcpTask \<Rightarrow> TcpTask option" where
  "tcp_step OpStart t = Some (fst (TcpTask_Start t))"
| "tcp_step OpClose t = TcpTask_Close t"
| "tcp_step OpTerminate t = TcpTask_Terminate t"
| "tcp_step OpStop t = map_option fst (TcpTask_Stop t)"
| "tcp_step OpVerify t = Some (TcpTask_Verify t)"
| "tcp_step (OpSend m) t = map_option fst (TcpTask_AsyncSend t m)"

fun tcp_run :: "TcpTask \<Rightarrow> tcp_op list \<Rightarrow> TcpTask option" where
  "tcp_run t [] = Some t"
| "tcp_run t (op # ops) = tcp_step op t \<bind> (\<lambda>t'. tcp_run t' ops)"

section \<open>Closing and stopping at once\<close>

text \<open>
  A task that was started, with any number of goroutines in \<open>Close\<close> and in \<open>Stop\<close>: where each call of \<open>Close\<close> is, how many calls
  of \<open>Stop\<close> have passed the test of \<open>closed\<close> and not yet sent, how many calls of \<open>Stop\<close> panicked, and how many were between the
  test and the send when the channel was closed.
\<close>

record life =
  lf_task :: TcpTask
  lf_close :: "nat \<Rightarrow> close_phase"
  lf_stopping :: nat
  lf_panicked :: nat
  lf_late :: nat

definition life_init :: "int \<Rightarrow> life" where
  "life_init now = \<lparr>lf_task = fst (TcpTask_Start (NewTcpTask now)), lf_close = (\<lambda>u. CloseCas), lf_stopping = 0, lf_panicked = 0,
     lf_late = 0\<rparr>"

inductive life_step :: "life \<Rightarrow> life \<Rightarrow> bool" where
  close_step: "TcpTask_close_step (lf_close s u) (lf_task s) = Some (t, p) \<Longrightarrow>
    life_step s (s\<lparr>lf_task := t, lf_close := (lf_close s)(u := p),
      lf_late := (if tcp_stoped_closed t \<and> \<not> tcp_stoped_closed (lf_task s) then lf_stopping s else lf_late s)\<rparr>)"
| stop_test: "\<not> TcpTask_IsClosed (lf_task s) \<Longrightarrow> life_step s (s\<lparr>lf_stopping := lf_stopping s + 1\<rparr>)"
| stop_send: "lf_stopping s = Suc n \<Longrightarrow> TcpTask_stop_send (lf_task s) = Some (t, r) \<Longrightarrow>
    life_step s (s\<lparr>lf_task := t, lf_stopping := n\<rparr>)"
| stop_panics: "lf_stopping s = Suc n \<Longrightarrow> TcpTask_stop_send (lf_task s) = None \<Longrightarrow>
    life_step s (s\<lparr>lf_stopping := n, lf_panicked := lf_panicked s + 1\<rparr>)"
| stop_taken: "tcp_stoped (lf_task s) = Suc n \<Longrightarrow> life_step s (s\<lparr>lf_task := (lf_task s)\<lparr>tcp_stoped := n\<rparr>\<rparr>)"
| send: "TcpTask_AsyncSend (lf_task s) m = Some (t, r) \<Longrightarrow> life_step s (s\<lparr>lf_task := t\<rparr>)"
| verify: "life_step s (s\<lparr>lf_task := TcpTask_Verify (lf_task s)\<rparr>)"

text \<open>
  One call of \<open>Close\<close> at most is past the swap of \<open>closed\<close>, and what it has done so far is what the task shows.
\<close>

definition close_state :: "close_phase \<Rightarrow> TcpTask \<Rightarrow> bool" where
  "close_state p t \<longleftrightarrow> tcp_closed t = (if p = CloseCas then 0 else - 1) \<and>
     tcp_conn_closed t = (p \<notin> {CloseCas, CloseConn}) \<and> tcp_stoped_closed t = (p \<in> {CloseNotify, CloseReturned}) \<and>
     tcp_onclose t = (if p = CloseReturned then 1 else 0)"

definition life_inv :: "life \<Rightarrow> bool" where
  "life_inv s \<longleftrightarrow> (\<exists>w. close_state (lf_close s w) (lf_task s) \<and> (\<forall>u. u \<noteq> w \<longrightarrow> lf_close s u \<in> {CloseCas, CloseReturned}) \<and>
      (lf_close s w = CloseCas \<longrightarrow> (\<forall>u. lf_close s u = CloseCas))) \<and>
     (if tcp_stoped_closed (lf_task s) then lf_panicked s + lf_stopping s = lf_late s else lf_panicked s = 0)"

lemma close_state_step:
  assumes "TcpTask_close_step p t = Some (t', q)" and "close_state p t"
  shows "close_state q t' \<and> q \<noteq> CloseCas"
  using assms by (cases p) (auto simp: close_state_def split: if_splits)

lemma close_state_lost:
  assumes "TcpTask_close_step q t = Some (t', q')" and "close_state p t" and "p \<noteq> CloseCas" and "q \<in> {CloseCas, CloseReturned}"
  shows "t' = t \<and> q' = CloseReturned"
  using assms by (auto simp: close_state_def split: if_splits)

lemma close_step_inv:
  assumes "life_inv s" and "TcpTask_close_step (lf_close s u) (lf_task s) = Some (t, p)"
  shows "\<exists>w. close_state (((lf_close s)(u := p)) w) t \<and> (\<forall>v. v \<noteq> w \<longrightarrow> ((lf_close s)(u := p)) v \<in> {CloseCas, CloseReturned}) \<and>
    (((lf_close s)(u := p)) w = CloseCas \<longrightarrow> (\<forall>v. ((lf_close s)(u := p)) v = CloseCas))"
proof -
  obtain w where w: "close_state (lf_close s w) (lf_task s)" "\<And>v. v \<noteq> w \<Longrightarrow> lf_close s v \<in> {CloseCas, CloseReturned}"
      "lf_close s w = CloseCas \<Longrightarrow> lf_close s v = CloseCas" for v
    using assms(1) unfolding life_inv_def by blast
  show ?thesis
  proof (cases "u = w \<or> lf_close s w = CloseCas")
    case True
    then have "close_state (lf_close s u) (lf_task s)" using w(1) w(3) [of u] by auto
    moreover have "lf_close s v \<in> {CloseCas, CloseReturned}" if "v \<noteq> u" for v
      using True that w(2) [of v] w(3) [of v] by auto
    ultimately show ?thesis using close_state_step [OF assms(2)] by (intro exI [of _ u]) auto
  next
    case False
    then have "t = lf_task s" "p = CloseReturned" using close_state_lost [OF assms(2) w(1)] w(2) [of u] by auto
    with False w show ?thesis by (intro exI [of _ w]) auto
  qed
qed

lemma AsyncSend_close:
  "TcpTask_AsyncSend t m = Some (t', r) \<Longrightarrow> close_state p t' = close_state p t \<and> tcp_stoped_closed t' = tcp_stoped_closed t"
  by (auto simp: TcpTask_AsyncSend_def TcpTask_queue_def TcpTask_Signal_def close_state_def split: if_splits bind_splits)

lemma close_keeps_stoped:
  assumes "TcpTask_close_step p t = Some (t', q)" and "tcp_stoped_closed t"
  shows "tcp_stoped_closed t'"
  using assms by (cases p) (auto split: if_splits)

lemma life_step_inv:
  assumes "life_step s s'" and "life_inv s"
  shows "life_inv s'"
  using assms(1)
proof cases
  case (close_step u t p)
  have c: "if tcp_stoped_closed (lf_task s) then lf_panicked s + lf_stopping s = lf_late s else lf_panicked s = 0"
    using assms(2) unfolding life_inv_def by blast
  show ?thesis
    using close_step_inv [OF assms(2) close_step(2)] c close_keeps_stoped [OF close_step(2)] close_step(1)
    by (auto simp: life_inv_def split: if_splits)
next
  case stop_test
  have "\<not> tcp_stoped_closed (lf_task s)"
    using assms(2) stop_test(2) by (auto simp: life_inv_def close_state_def TcpTask_IsClosed_def split: if_splits)
  then show ?thesis using assms(2) stop_test(1) by (simp add: life_inv_def)
next
  case (send m t r)
  then show ?thesis using assms(2) AsyncSend_close [OF send(2)] by (simp add: life_inv_def)
qed (use assms(2) in \<open>auto simp: life_inv_def close_state_def TcpTask_stop_send_def TcpTask_Verify_def split: if_splits\<close>)

lemma life_reachable_inv:
  assumes "life_step\<^sup>*\<^sup>* (life_init now) s"
  shows "life_inv s"
  using assms
proof (induction rule: rtranclp_induct)
  case base
  show ?case by (auto simp: life_inv_def life_init_def close_state_def TcpTask_Start_def NewTcpTask_def)
next
  case (step y z)
  show ?case by (rule life_step_inv [OF step(2,3)])
qed

text \<open>
  C31. A task that is started once, with any number of goroutines that call \<open>Close\<close>, \<open>Terminate\<close>, \<open>Stop\<close>, \<open>AsyncSend\<close> and \<open>Verify\<close> in every
  interleaving of their steps: \<open>OnClose\<close> is called at most once, no call of \<open>Close\<close> panics, and when every call of \<open>Close\<close> that began has returned,
  \<open>OnClose\<close> was called and the connection closed exactly if there was one.  A call of \<open>Stop\<close> panics exactly if it had passed its test of \<open>closed\<close> and
  not yet sent when \<open>Close\<close> closed the channel: all these calls, and no others, do.
\<close>

theorem TcpTask_closes_once:
  assumes "life_step\<^sup>*\<^sup>* (life_init now) s"
  shows "tcp_onclose (lf_task s) \<le> 1 \<and>
    (\<forall>u. TcpTask_close_step (lf_close s u) (lf_task s) \<noteq> None) \<and>
    ((\<forall>u. lf_close s u \<in> {CloseCas, CloseReturned}) \<longrightarrow>
       tcp_onclose (lf_task s) = (if \<exists>u. lf_close s u = CloseReturned then 1 else 0) \<and>
       tcp_conn_closed (lf_task s) = (\<exists>u. lf_close s u = CloseReturned)) \<and>
    (if tcp_stoped_closed (lf_task s) then lf_panicked s + lf_stopping s = lf_late s else lf_panicked s = 0)"
proof -
  obtain w where w: "close_state (lf_close s w) (lf_task s)" "\<And>v. v \<noteq> w \<Longrightarrow> lf_close s v \<in> {CloseCas, CloseReturned}"
      "lf_close s w = CloseCas \<Longrightarrow> lf_close s v = CloseCas" for v
    using life_reachable_inv [OF assms] unfolding life_inv_def by blast
  have "tcp_onclose (lf_task s) \<le> 1" using w(1) by (simp add: close_state_def)
  moreover have "TcpTask_close_step (lf_close s u) (lf_task s) \<noteq> None" for u
    using w(1) w(2) [of u] by (cases "u = w"; cases "lf_close s u") (auto simp: close_state_def)
  moreover have "tcp_onclose (lf_task s) = (if \<exists>u. lf_close s u = CloseReturned then 1 else 0) \<and>
      tcp_conn_closed (lf_task s) = (\<exists>u. lf_close s u = CloseReturned)" if "\<forall>u. lf_close s u \<in> {CloseCas, CloseReturned}"
    using that [rule_format, of w] w(1,3) by (auto simp: close_state_def)
  ultimately show ?thesis using life_reachable_inv [OF assms] by (simp add: life_inv_def)
qed

text \<open>A \<open>Stop\<close> that passes its test before a \<open>Close\<close> and sends after it.\<close>

definition stop_close :: "TcpTask \<Rightarrow> close_phase \<Rightarrow> nat \<Rightarrow> life" where
  "stop_close t p late =
     \<lparr>lf_task = t, lf_close = (\<lambda>u. CloseCas)(0 := p), lf_stopping = 1, lf_panicked = 0, lf_late = late\<rparr>"

lemma stop_close_step:
  assumes "TcpTask_close_step p t = Some (t', q)" and "life_step\<^sup>*\<^sup>* s (stop_close t p late)"
  shows "life_step\<^sup>*\<^sup>* s (stop_close t' q (if tcp_stoped_closed t' \<and> \<not> tcp_stoped_closed t then 1 else late))"
proof -
  have "life_step (stop_close t p late) (stop_close t' q (if tcp_stoped_closed t' \<and> \<not> tcp_stoped_closed t then 1 else late))"
    using close_step [of "stop_close t p late" 0 t' q] assms(1) by (simp add: stop_close_def cong: if_cong)
  with assms(2) show ?thesis by (rule rtranclp.rtrancl_into_rtrancl)
qed

lemma stop_close_run:
  "\<exists>s. life_step\<^sup>*\<^sup>* (life_init 5) s \<and> tcp_stoped_closed (lf_task s) \<and> lf_late s = 1 \<and> lf_stopping s = 0 \<and>
     (\<forall>u. lf_close s u = (if u = 0 then CloseReturned else CloseCas))"
proof -
  define t where "t = fst (TcpTask_Start (NewTcpTask 5))"
  have t: "tcp_closed t = 0" "\<not> tcp_stoped_closed t" by (simp_all add: t_def TcpTask_Start_def NewTcpTask_def)
  have "(\<lambda>u. CloseCas)(0 := CloseCas) = (\<lambda>u :: nat. CloseCas)" by auto
  then have "life_step (life_init 5) (stop_close t CloseCas 0)"
    using stop_test [of "life_init 5"] t(1) by (simp add: stop_close_def life_init_def TcpTask_IsClosed_def t_def)
  then have r: "life_step\<^sup>*\<^sup>* (life_init 5) (stop_close t CloseCas 0)" by (rule r_into_rtranclp)
  define t1 where "t1 = t\<lparr>tcp_closed := - 1\<rparr>"
  have r1: "life_step\<^sup>*\<^sup>* (life_init 5) (stop_close t1 CloseConn 0)"
    using stop_close_step [OF _ r, of t1 CloseConn] t by (simp add: t1_def)
  define t2 where "t2 = t1\<lparr>tcp_conn_closed := True\<rparr>"
  have r2: "life_step\<^sup>*\<^sup>* (life_init 5) (stop_close t2 CloseRecv 0)"
    using stop_close_step [OF _ r1, of t2 CloseRecv] t by (simp add: t2_def t1_def)
  define t3 where "t3 = t2\<lparr>tcp_recvBuff := ByteBuffer_Reset (tcp_recvBuff t2)\<rparr>"
  have r3: "life_step\<^sup>*\<^sup>* (life_init 5) (stop_close t3 CloseSend 0)"
    using stop_close_step [OF _ r2, of t3 CloseSend] t by (simp add: t3_def t2_def t1_def)
  define t4 where "t4 = t3\<lparr>tcp_sendBuff := ByteBuffer_Reset (tcp_sendBuff t3)\<rparr>"
  have r4: "life_step\<^sup>*\<^sup>* (life_init 5) (stop_close t4 CloseChan 0)"
    using stop_close_step [OF _ r3, of t4 CloseChan] t by (simp add: t4_def t3_def t2_def t1_def)
  have n4: "\<not> tcp_stoped_closed t4" using t(2) by (simp add: t4_def t3_def t2_def t1_def)
  define t5 where "t5 = t4\<lparr>tcp_stoped_closed := True\<rparr>"
  have r5: "life_step\<^sup>*\<^sup>* (life_init 5) (stop_close t5 CloseNotify 1)"
    using stop_close_step [OF _ r4, of t5 CloseNotify] n4 by (simp add: t5_def)
  define t6 where "t6 = t5\<lparr>tcp_onclose := tcp_onclose t5 + 1\<rparr>"
  have r6: "life_step\<^sup>*\<^sup>* (life_init 5) (stop_close t6 CloseReturned 1)"
    using stop_close_step [OF _ r5, of t6 CloseReturned] by (simp add: t6_def t5_def)
  let ?s = "(stop_close t6 CloseReturned 1)\<lparr>lf_stopping := 0, lf_panicked := 1\<rparr>"
  have "life_step (stop_close t6 CloseReturned 1) ?s"
    using stop_panics [of "stop_close t6 CloseReturned 1" 0] by (simp add: stop_close_def TcpTask_stop_send_def t6_def t5_def)
  with r6 have "life_step\<^sup>*\<^sup>* (life_init 5) ?s" by (rule rtranclp.rtrancl_into_rtrancl)
  then show ?thesis by (intro exI [of _ ?s]) (simp add: stop_close_def t6_def t5_def)
qed

theorem TcpTask_closes_once_witness:
  "\<exists>s. life_step\<^sup>*\<^sup>* (life_init 5) s \<and> tcp_onclose (lf_task s) = 1 \<and> tcp_conn_closed (lf_task s) \<and> lf_panicked s = 1"
proof -
  obtain s where s: "life_step\<^sup>*\<^sup>* (life_init 5) s" "tcp_stoped_closed (lf_task s)" "lf_late s = 1" "lf_stopping s = 0"
      "\<forall>u. lf_close s u = (if u = 0 then CloseReturned else CloseCas)" using stop_close_run by blast
  with TcpTask_closes_once [OF s(1)] have "tcp_onclose (lf_task s) = 1 \<and> tcp_conn_closed (lf_task s) \<and> lf_panicked s = 1" by auto
  with s(1) show ?thesis by blast
qed

section \<open>Starting again\<close>

text \<open>The states of a task that was started again after it was closed.\<close>

definition tcp_reopened :: "TcpTask \<Rightarrow> bool" where
  "tcp_reopened t \<longleftrightarrow> bb_inv (tcp_sendBuff t) \<and> tcp_closed t = 0 \<and> tcp_stoped_closed t"

lemma tcp_step_reopened:
  assumes "tcp_reopened t"
  shows "case tcp_step op t of None \<Rightarrow> True | Some t' \<Rightarrow> tcp_reopened t'"
proof (cases op)
  case (OpSend m)
  from queue_spec [of t m] assms OpSend show ?thesis
    by (auto simp: tcp_reopened_def TcpTask_AsyncSend_def TcpTask_IsClosed_def TcpTask_Signal_def)
qed (use assms in \<open>auto simp: tcp_reopened_def TcpTask_Start_def TcpTask_Close_def TcpTask_Terminate_def
      TcpTask_Stop_def TcpTask_stop_send_def TcpTask_IsClosed_def TcpTask_Verify_def\<close>)

text \<open>
  A task cannot be started again: \<open>Close\<close> leaves \<open>closed\<close> at the value that \<open>Start\<close> accepts, so a second
  \<open>Start\<close> runs the loops on the closed connection, and the next \<open>Close\<close>, which those loops defer, panics
  on the channel that is already closed, whatever happened in between.
\<close>

lemma TcpTask_restart_panics:
  "tcp_run (NewTcpTask now) ([OpStart, OpClose, OpStart] @ ops @ [OpClose]) = None"
proof -
  have "tcp_reopened t \<Longrightarrow> tcp_run t (ops @ [OpClose]) = None" for t
  proof (induction ops arbitrary: t)
    case (Cons op ops)
    with tcp_step_reopened [of t op] show ?case by (auto split: option.splits bind_splits)
  qed (simp add: tcp_reopened_def TcpTask_Close_def)
  then show ?thesis
    by (simp add: tcp_reopened_def TcpTask_Start_def TcpTask_Close_def NewTcpTask_def NewByteBuffer_inv Reset_inv)
qed

end
