(* ===== verification/Go_Chan.thy ===== *)
theory Go_Chan
  imports Go_Fifo
begin

text \<open>
  Go's buffered channels and the three ways an operation of a goroutine can go on: it returns, it
  blocks, or it panics.  A channel is its capacity, the values it holds and whether it is closed.  A
  send on a full channel and a receive from an empty one block; a send on a closed channel and a
  second close panic; a receive from a closed channel that is empty gives the zero value.
\<close>

datatype 'a outcome = Returns 'a | Blocks | Panics

fun outcome_bind :: "'a outcome \<Rightarrow> ('a \<Rightarrow> 'b outcome) \<Rightarrow> 'b outcome" where
  "outcome_bind (Returns x) f = f x"
| "outcome_bind Blocks f = Blocks"
| "outcome_bind Panics f = Panics"

lemma outcome_bind_eq_Returns:
  "outcome_bind m f = Returns y \<longleftrightarrow> (\<exists>x. m = Returns x \<and> f x = Returns y)"
  by (cases m) auto

record 'a gochan =
  ch_cap :: nat
  ch_buf :: "'a list"
  ch_closed :: bool

definition make_chan :: "nat \<Rightarrow> 'a gochan" where
  "make_chan n = \<lparr>ch_cap = n, ch_buf = [], ch_closed = False\<rparr>"

definition chan_send :: "'a gochan \<Rightarrow> 'a \<Rightarrow> 'a gochan outcome" where
  "chan_send c x =
     (if ch_closed c then Panics
      else if length (ch_buf c) < ch_cap c then Returns (c\<lparr>ch_buf := ch_buf c @ [x]\<rparr>)
      else Blocks)"

definition chan_recv :: "'a gochan \<Rightarrow> ('a option \<times> 'a gochan) outcome" where
  "chan_recv c = (case ch_buf c of
     x # xs \<Rightarrow> Returns (Some x, c\<lparr>ch_buf := xs\<rparr>)
   | [] \<Rightarrow> if ch_closed c then Returns (None, c) else Blocks)"

definition chan_close :: "'a gochan \<Rightarrow> 'a gochan outcome" where
  "chan_close c = (if ch_closed c then Panics else Returns (c\<lparr>ch_closed := True\<rparr>))"

text \<open>A \<open>select\<close> with a send and an empty default: the value is dropped when the channel is full.\<close>

definition chan_try_send :: "'a gochan \<Rightarrow> 'a \<Rightarrow> 'a gochan outcome" where
  "chan_try_send c x = (case chan_send c x of Blocks \<Rightarrow> Returns c | r \<Rightarrow> r)"

lemma make_chan_simps [simp]:
  "ch_cap (make_chan n) = n" "ch_buf (make_chan n) = []" "\<not> ch_closed (make_chan n)"
  by (simp_all add: make_chan_def)

text \<open>An open channel is a bounded queue.\<close>

definition open_chan :: "'a gochan \<Rightarrow> bool" where
  "open_chan c \<longleftrightarrow> \<not> ch_closed c \<and> length (ch_buf c) \<le> ch_cap c"

definition chan_put :: "'a gochan \<Rightarrow> 'a \<Rightarrow> 'a gochan option" where
  "chan_put c x = (case chan_send c x of Returns c' \<Rightarrow> Some c' | _ \<Rightarrow> None)"

definition chan_get :: "'a gochan \<Rightarrow> ('a \<times> 'a gochan) option" where
  "chan_get c = (case chan_recv c of Returns (Some x, c') \<Rightarrow> Some (x, c') | _ \<Rightarrow> None)"

interpretation channel: bounded_fifo open_chan ch_buf ch_cap chan_put chan_get
  by unfold_locales
    (auto simp: open_chan_def chan_put_def chan_get_def chan_send_def chan_recv_def split: list.splits if_splits)

end
