(* ===== verification/Gonet_TcpBufTask.thy ===== *)
theory Gonet_TcpBufTask
  imports Gonet_TcpTask Go_Chan "HOL-Library.Signed_Division"
begin

text \<open>
  The TCP session of \<open>lib/gonet/tcpbuftask.go\<close>.  Its frames have three bytes of length and one of flags.  It sends either from its
  own buffer, as \<open>TcpTask\<close> does, or from a ring of bytes that its owner shares among many sessions: the owner adds bytes and moves
  the end of the stream, and each session sends from its own place in the stream.  Two more channels take frames that are sent
  at once and frames that are sent after the stream.

  \<open>sendBuffPtr\<close> is the address of the owner's slice; what it holds at the time of a write is an argument of the operations that read
  it.  Indices into the stream are \<open>int64\<close>.
\<close>

definition interrupt_chan_len :: nat where "interrupt_chan_len = 10"

definition immediat_chan_len :: nat where "immediat_chan_len = 24"

record SendBuffInfo =
  sbi_sendBuff :: "nat option"
  sbi_buffLen :: "64 word"
  sbi_startIdx :: "64 word"
  sbi_preSendBuff :: bytes

record TcpBufTask =
  tb_closed :: int
  tb_stopped :: int
  tb_stoppedBuff :: int
  tb_verified :: bool
  tb_stopedChan :: "bool gochan"
  tb_stopedBuffChan :: "bool gochan"
  tb_recvBuff :: ByteBuffer
  tb_sendBuff :: ByteBuffer
  tb_signal :: "unit gochan"
  tb_newBuffSignal :: "unit gochan"
  tb_interruptBuffChan :: "bytes gochan"
  tb_immediatBuffChan :: "bytes gochan"
  tb_initSendBuff :: "SendBuffInfo gochan"
  tb_startIdx :: "64 word"
  tb_endIdx :: "64 word"
  tb_sendBuffPtr :: "nat option"
  tb_buffLen :: "64 word"
  tb_buffValid :: bool
  tb_interruptBuff :: "ByteBuffer option"
  tb_conn_closed :: bool
  tb_onclose :: nat

definition NewTcpBufTask :: TcpBufTask where
  "NewTcpBufTask =
     \<lparr>tb_closed = - 1, tb_stopped = - 1, tb_stoppedBuff = - 1, tb_verified = False, tb_stopedChan = make_chan 1,
      tb_stopedBuffChan = make_chan 1, tb_recvBuff = NewByteBuffer, tb_sendBuff = NewByteBuffer, tb_signal = make_chan 1,
      tb_newBuffSignal = make_chan 1, tb_interruptBuffChan = make_chan interrupt_chan_len,
      tb_immediatBuffChan = make_chan immediat_chan_len, tb_initSendBuff = make_chan 1, tb_startIdx = 0, tb_endIdx = 0,
      tb_sendBuffPtr = None, tb_buffLen = 0, tb_buffValid = False, tb_interruptBuff = Some NewByteBuffer,
      tb_conn_closed = False, tb_onclose = 0\<rparr>"

section \<open>Starting and stopping\<close>

definition TcpBufTask_IsStoppedBuff :: "TcpBufTask \<Rightarrow> bool" where
  "TcpBufTask_IsStoppedBuff t = (tb_stoppedBuff t \<noteq> 0)"

definition TcpBufTask_IsStopped :: "TcpBufTask \<Rightarrow> bool" where
  "TcpBufTask_IsStopped t = (tb_stopped t \<noteq> 0)"

definition TcpBufTask_IsClosed :: "TcpBufTask \<Rightarrow> bool" where
  "TcpBufTask_IsClosed t = (tb_closed t \<noteq> 0)"

definition TcpBufTask_Verify :: "TcpBufTask \<Rightarrow> TcpBufTask" where
  "TcpBufTask_Verify t = t\<lparr>tb_verified := True\<rparr>"

definition TcpBufTask_IsVerified :: "TcpBufTask \<Rightarrow> bool" where
  "TcpBufTask_IsVerified t = tb_verified t"

text \<open>\<open>signal\<close> and \<open>newBuffSignal\<close> are never closed, so that these sends do not panic.\<close>

definition TcpBufTask_Signal :: "TcpBufTask \<Rightarrow> TcpBufTask" where
  "TcpBufTask_Signal t = (case chan_try_send (tb_signal t) () of Returns c \<Rightarrow> t\<lparr>tb_signal := c\<rparr> | _ \<Rightarrow> t)"

definition TcpBufTask_NewBuffNotice :: "TcpBufTask \<Rightarrow> TcpBufTask" where
  "TcpBufTask_NewBuffNotice t =
     (if TcpBufTask_IsClosed t then t
      else case chan_try_send (tb_newBuffSignal t) () of Returns c \<Rightarrow> t\<lparr>tb_newBuffSignal := c\<rparr> | _ \<Rightarrow> t)"

text \<open>A panic in \<open>stopchan\<close> and \<open>stopbuff\<close>, from a send on a closed channel, is recovered there.\<close>

definition TcpBufTask_stopchan :: "TcpBufTask \<Rightarrow> TcpBufTask" where
  "TcpBufTask_stopchan t =
     (if TcpBufTask_IsStopped t then t
      else if tb_stopped t = 0 then
        (let t1 = t\<lparr>tb_stopped := 1\<rparr> in
         case chan_try_send (tb_stopedChan t1) True of Returns c \<Rightarrow> t1\<lparr>tb_stopedChan := c\<rparr> | _ \<Rightarrow> t1)
      else t)"

definition TcpBufTask_stopbuff :: "TcpBufTask \<Rightarrow> TcpBufTask" where
  "TcpBufTask_stopbuff t =
     (if TcpBufTask_IsStoppedBuff t then t
      else if tb_stoppedBuff t = 0 then
        (let t1 = t\<lparr>tb_stoppedBuff := 1\<rparr> in
         case chan_try_send (tb_stopedBuffChan t1) True of Returns c \<Rightarrow> t1\<lparr>tb_stopedBuffChan := c\<rparr> | _ \<Rightarrow> t1)
      else t)"

definition TcpBufTask_Stop :: "TcpBufTask \<Rightarrow> TcpBufTask \<times> bool" where
  "TcpBufTask_Stop t = (TcpBufTask_stopbuff (TcpBufTask_stopchan t), True)"

text \<open>Which of the two send loops \<open>Start\<close> starts beside the receive loop, if it starts any.\<close>

datatype send_loop = Sendloop | Poolsendloop

definition TcpBufTask_Start :: "TcpBufTask \<Rightarrow> bool \<Rightarrow> TcpBufTask \<times> send_loop option" where
  "TcpBufTask_Start t PoolSend =
     (if tb_closed t = - 1
      then (t\<lparr>tb_closed := 0, tb_stopped := 0, tb_stoppedBuff := 0\<rparr>, Some (if \<not> PoolSend then Sendloop else Poolsendloop))
      else (t, None))"

text \<open>The channels are closed one after the other; closing a closed one panics, which \<open>Close\<close> recovers.\<close>

definition TcpBufTask_Close :: "TcpBufTask \<Rightarrow> TcpBufTask" where
  "TcpBufTask_Close t =
     (if tb_closed t = 0 then
        (let t1 = fst (TcpBufTask_Stop (t\<lparr>tb_closed := 1\<rparr>));
             t2 = t1\<lparr>tb_stopped := 1, tb_stoppedBuff := 1, tb_sendBuffPtr := None, tb_interruptBuff := None, tb_conn_closed := True\<rparr> in
         case chan_close (tb_interruptBuffChan t2) of
           Returns c1 \<Rightarrow> (let t3 = t2\<lparr>tb_interruptBuffChan := c1\<rparr> in case chan_close (tb_immediatBuffChan t3) of
               Returns c2 \<Rightarrow> (let t4 = t3\<lparr>tb_immediatBuffChan := c2\<rparr> in case chan_close (tb_initSendBuff t4) of
                   Returns c3 \<Rightarrow> t4\<lparr>tb_initSendBuff := c3, tb_onclose := tb_onclose t4 + 1\<rparr>
                 | _ \<Rightarrow> t4)
             | _ \<Rightarrow> t3)
         | _ \<Rightarrow> t2)
      else t)"

definition TcpBufTask_Terminate :: "TcpBufTask \<Rightarrow> TcpBufTask" where
  "TcpBufTask_Terminate t = TcpBufTask_Close t"

definition TcpBufTask_Reset :: "TcpBufTask \<Rightarrow> TcpBufTask \<times> bool" where
  "TcpBufTask_Reset t =
     (if tb_closed t \<noteq> 1 then (t, False)
      else if \<not> TcpBufTask_IsVerified t then (t, False)
      else (t\<lparr>tb_closed := - 1, tb_stopped := - 1, tb_stoppedBuff := - 1, tb_verified := False, tb_stopedChan := make_chan 0,
              tb_stopedBuffChan := make_chan 0\<rparr>, True))"

section \<open>Sending\<close>

definition buf_header :: "nat \<Rightarrow> byte \<Rightarrow> bytes" where
  "buf_header n flag = (let bsize = of_nat n :: 64 word in [ucast bsize, ucast (drop_bit 8 bsize), ucast (drop_bit 16 bsize), flag])"

definition TcpBufTask_AsyncSend :: "TcpBufTask \<Rightarrow> bytes \<Rightarrow> byte \<Rightarrow> (TcpBufTask \<times> bool) option" where
  "TcpBufTask_AsyncSend t buff flag =
     (if TcpBufTask_IsClosed t then Some (t, False)
      else do {
        let bsize = length buff;
        b1 \<leftarrow> ByteBuffer_Append (tb_sendBuff t) (buf_header bsize flag);
        b2 \<leftarrow> ByteBuffer_Append b1 buff;
        Some (TcpBufTask_Signal (t\<lparr>tb_sendBuff := b2\<rparr>), True)
      })"

definition TcpBufTask_AsyncSendWithHead :: "TcpBufTask \<Rightarrow> bytes \<Rightarrow> bytes \<Rightarrow> byte \<Rightarrow> (TcpBufTask \<times> bool) option" where
  "TcpBufTask_AsyncSendWithHead t head buff flag =
     (if TcpBufTask_IsClosed t then Some (t, False)
      else do {
        let bsize = length buff + length head;
        b1 \<leftarrow> ByteBuffer_Append (tb_sendBuff t) (buf_header bsize flag);
        b2 \<leftarrow> ByteBuffer_Append b1 head;
        b3 \<leftarrow> ByteBuffer_Append b2 buff;
        Some (TcpBufTask_Signal (t\<lparr>tb_sendBuff := b3\<rparr>), True)
      })"

definition TcpBufTask_getsendbuff :: "byte \<Rightarrow> bytes \<Rightarrow> bytes" where
  "TcpBufTask_getsendbuff flag buff = buf_header (length buff) flag @ buff"

definition TcpBufTask_SetSendBuff ::
  "TcpBufTask \<Rightarrow> nat option \<Rightarrow> 64 word \<Rightarrow> 64 word \<Rightarrow> bytes \<Rightarrow> TcpBufTask outcome" where
  "TcpBufTask_SetSendBuff t SendBuff buffLen startIdx preSendBuff =
     (if TcpBufTask_IsClosed t then Returns t
      else outcome_bind
        (chan_send (tb_initSendBuff t)
          \<lparr>sbi_sendBuff = SendBuff, sbi_buffLen = buffLen, sbi_startIdx = startIdx, sbi_preSendBuff = preSendBuff\<rparr>)
        (\<lambda>c. Returns (t\<lparr>tb_initSendBuff := c\<rparr>)))"

definition TcpBufTask_SetSendBuffWithFlag ::
  "TcpBufTask \<Rightarrow> nat option \<Rightarrow> 64 word \<Rightarrow> 64 word \<Rightarrow> bytes \<Rightarrow> byte \<Rightarrow> TcpBufTask outcome" where
  "TcpBufTask_SetSendBuffWithFlag t SendBuff buffLen startIdx preSendBuff flag =
     (if TcpBufTask_IsClosed t then Returns t
      else let tmpBuff = TcpBufTask_getsendbuff flag preSendBuff in
        outcome_bind
          (chan_send (tb_initSendBuff t)
            \<lparr>sbi_sendBuff = SendBuff, sbi_buffLen = buffLen, sbi_startIdx = startIdx, sbi_preSendBuff = tmpBuff\<rparr>)
          (\<lambda>c. Returns (t\<lparr>tb_initSendBuff := c\<rparr>)))"

text \<open>
  A panic in the four operations below, from a send on a channel closed in between, is recovered: the session is closed
  and the answer is the zero value, \<open>false\<close>.
\<close>

definition TcpBufTask_SendImmediateBuffSafe :: "TcpBufTask \<Rightarrow> bytes \<Rightarrow> byte \<Rightarrow> (TcpBufTask \<times> bool) outcome" where
  "TcpBufTask_SendImmediateBuffSafe t buff flag =
     (let tmpBuff = TcpBufTask_getsendbuff flag buff in
      if TcpBufTask_IsClosed t then Returns (t, False)
      else case chan_send (tb_immediatBuffChan t) tmpBuff of
        Returns c \<Rightarrow> Returns (t\<lparr>tb_immediatBuffChan := c\<rparr>, True)
      | Blocks \<Rightarrow> Blocks
      | Panics \<Rightarrow> Returns (TcpBufTask_Close t, False))"

definition TcpBufTask_SendImmediateBuff :: "TcpBufTask \<Rightarrow> bytes \<Rightarrow> byte \<Rightarrow> TcpBufTask \<times> bool" where
  "TcpBufTask_SendImmediateBuff t buff flag =
     (let tmpBuff = TcpBufTask_getsendbuff flag buff in
      if TcpBufTask_IsClosed t then (t, False)
      else case chan_send (tb_immediatBuffChan t) tmpBuff of
        Returns c \<Rightarrow> (t\<lparr>tb_immediatBuffChan := c\<rparr>, True)
      | Blocks \<Rightarrow> (t, True)
      | Panics \<Rightarrow> (TcpBufTask_Close t, False))"

definition TcpBufTask_AsyncSendBuffSafe :: "TcpBufTask \<Rightarrow> bytes \<Rightarrow> byte \<Rightarrow> (TcpBufTask \<times> bool) outcome" where
  "TcpBufTask_AsyncSendBuffSafe t buff flag =
     (let tmpBuff = TcpBufTask_getsendbuff flag buff in
      if TcpBufTask_IsClosed t then Returns (t, False)
      else case chan_send (tb_interruptBuffChan t) tmpBuff of
        Returns c \<Rightarrow> Returns (t\<lparr>tb_interruptBuffChan := c\<rparr>, True)
      | Blocks \<Rightarrow> Blocks
      | Panics \<Rightarrow> Returns (TcpBufTask_Close t, False))"

definition TcpBufTask_AsyncSendBuff :: "TcpBufTask \<Rightarrow> bytes \<Rightarrow> byte \<Rightarrow> TcpBufTask \<times> bool" where
  "TcpBufTask_AsyncSendBuff t buff flag =
     (let tmpBuff = TcpBufTask_getsendbuff flag buff in
      if TcpBufTask_IsClosed t then (t, False)
      else case chan_send (tb_interruptBuffChan t) tmpBuff of
        Returns c \<Rightarrow> (t\<lparr>tb_interruptBuffChan := c\<rparr>, True)
      | Blocks \<Rightarrow> (t, True)
      | Panics \<Rightarrow> (TcpBufTask_Close t, False))"

section \<open>Writing\<close>

text \<open>
  \<open>SyncSendBuff\<close>, over the outcomes of its writes: the bytes the connection accepted and the answer, \<open>None\<close> while it is still
  writing.  The loop has no way out but an error.
\<close>

fun TcpBufTask_SyncSendBuff :: "write_outcome list \<Rightarrow> bytes \<Rightarrow> bytes \<times> bool option" where
  "TcpBufTask_SyncSendBuff [] buff = ([], None)"
| "TcpBufTask_SyncSendBuff (WriteFail # ws) buff = ([], Some False)"
| "TcpBufTask_SyncSendBuff (WriteOk n # ws) buff =
     (let writenum = min n (length buff); (out, r) = TcpBufTask_SyncSendBuff ws (drop writenum buff) in (take writenum buff @ out, r))"

text \<open>The loops that write one slice to its end: what was accepted and how the loop ended.\<close>

fun write_slice :: "write_outcome list \<Rightarrow> bytes \<Rightarrow> bytes \<times> send_end" where
  "write_slice [] buff = ([], SendBlocked)"
| "write_slice (WriteFail # ws) buff = ([], SendFailed)"
| "write_slice (WriteOk n # ws) buff =
     (let writenum = min n (length buff) in
      if writenum = length buff then (buff, SendIdle)
      else let (out, e) = write_slice ws (drop writenum buff) in (take writenum buff @ out, e))"

text \<open>Go's \<open>%\<close> on \<open>int64\<close>: it has the sign of the dividend, and panics on zero.\<close>

definition rem64 :: "64 word \<Rightarrow> 64 word \<Rightarrow> 64 word option" where
  "rem64 a b = (if b = 0 then None else Some (word_of_int (sint a smod sint b)))"

definition TcpBufTask_getBuffSection :: "TcpBufTask \<Rightarrow> (64 word \<times> 64 word) option" where
  "TcpBufTask_getBuffSection t =
     (if tb_sendBuffPtr t = None then Some (0, 0)
      else do {
        startIdx \<leftarrow> rem64 (tb_startIdx t) (tb_buffLen t);
        endIdx \<leftarrow> rem64 (tb_endIdx t) (tb_buffLen t);
        Some (if sint endIdx > sint startIdx then (startIdx, endIdx) else (startIdx, tb_buffLen t))
      })"

text \<open>
  The loop that sends from the owner's ring.  A turn has the end of the stream that \<open>GetEndIdx\<close> gives, what the ring holds when it is
  read, and the outcome of the write.
\<close>

type_synonym pool_turn = "64 word \<times> bytes \<times> write_outcome"

fun TcpBufTask_send_ring :: "pool_turn list \<Rightarrow> TcpBufTask \<Rightarrow> (bytes \<times> TcpBufTask \<times> send_end) option" where
  "TcpBufTask_send_ring [] t = Some ([], t, SendBlocked)"
| "TcpBufTask_send_ring ((e, ring, w) # ws) t =
     (let t1 = t\<lparr>tb_endIdx := e\<rparr> in
      if tb_startIdx t1 = tb_endIdx t1 then Some ([], t1, SendIdle)
      else case TcpBufTask_getBuffSection t1 of
        None \<Rightarrow> None
      | Some (startIdx, endIdx) \<Rightarrow>
          if tb_sendBuffPtr t1 = None then Some ([], t1, SendIdle)
          else if sint startIdx < 0 \<or> sint endIdx < 0 then None
          else case slice ring (nat (sint startIdx)) (nat (sint endIdx)) of
            None \<Rightarrow> None
          | Some xs \<Rightarrow> (case w of
                WriteFail \<Rightarrow> Some ([], t1, SendFailed)
              | WriteOk n \<Rightarrow>
                  (let writenum = min n (length xs) in
                   case TcpBufTask_send_ring ws (t1\<lparr>tb_startIdx := tb_startIdx t1 + of_nat writenum\<rparr>) of
                     None \<Rightarrow> None
                   | Some (out, t2, r) \<Rightarrow> Some (take writenum xs @ out, t2, r))))"

text \<open>The loop that sends what is in \<open>interruptBuff\<close>.\<close>

fun TcpBufTask_send_interrupt :: "write_outcome list \<Rightarrow> ByteBuffer \<Rightarrow> (bytes \<times> ByteBuffer \<times> send_end) option" where
  "TcpBufTask_send_interrupt ws b =
     (if \<not> ByteBuffer_RdReady b then Some ([], b, SendIdle)
      else case slice (ByteBuffer_RdBuf b) 0 (nat (ByteBuffer_RdSize b)) of
        None \<Rightarrow> None
      | Some xs \<Rightarrow> (case ws of
            [] \<Rightarrow> Some ([], b, SendBlocked)
          | WriteFail # _ \<Rightarrow> Some ([], b, SendFailed)
          | WriteOk n # ws' \<Rightarrow>
              (let writenum = min n (length xs) in
               case TcpBufTask_send_interrupt ws' (ByteBuffer_RdFlip b writenum) of
                 None \<Rightarrow> None
               | Some (out, b', r) \<Rightarrow> Some (take writenum xs @ out, b', r))))"

declare TcpBufTask_send_interrupt.simps [simp del]

text \<open>How a case of the \<open>select\<close> in \<open>poolsendloop\<close> goes on: back to the loop, out of it, or still writing.\<close>

datatype loop_end = LoopContinue | LoopReturn | LoopWriting

fun loop_after :: "send_end \<Rightarrow> loop_end" where
  "loop_after SendIdle = LoopContinue"
| "loop_after SendFailed = LoopReturn"
| "loop_after SendBlocked = LoopWriting"

definition poolsend_newBuff ::
  "64 word \<Rightarrow> bytes \<Rightarrow> pool_turn list \<Rightarrow> write_outcome list \<Rightarrow> TcpBufTask \<Rightarrow> (bytes \<times> TcpBufTask \<times> loop_end) option" where
  "poolsend_newBuff e0 ring0 turns ws t =
     (if \<not> tb_buffValid t then Some ([], t, LoopContinue)
      else
        let t1 = t\<lparr>tb_endIdx := e0\<rparr> in
        if tb_sendBuffPtr t1 = None \<or> sint (tb_endIdx t1 - tb_startIdx t1) > int (length ring0) then Some ([], t1, LoopReturn)
        else case TcpBufTask_send_ring turns t1 of
          None \<Rightarrow> None
        | Some (out, t2, SendIdle) \<Rightarrow> (case tb_interruptBuff t2 of
              None \<Rightarrow> Some (out, t2, LoopContinue)
            | Some b \<Rightarrow> (case TcpBufTask_send_interrupt ws b of
                  None \<Rightarrow> None
                | Some (out2, b', r) \<Rightarrow> Some (out @ out2, t2\<lparr>tb_interruptBuff := Some b'\<rparr>, loop_after r)))
        | Some (out, t2, r) \<Rightarrow> Some (out, t2, loop_after r))"

definition poolsend_immediate :: "write_outcome list \<Rightarrow> bytes \<Rightarrow> bytes \<times> loop_end" where
  "poolsend_immediate ws buff =
     (let l = length buff in
      if l = 0 then ([], LoopContinue) else let (out, r) = write_slice ws buff in (out, loop_after r))"

definition poolsend_interrupt :: "bytes \<Rightarrow> TcpBufTask \<Rightarrow> TcpBufTask option" where
  "poolsend_interrupt buff t = (case tb_interruptBuff t of
     None \<Rightarrow> Some t
   | Some b \<Rightarrow> map_option (\<lambda>b'. t\<lparr>tb_interruptBuff := Some b'\<rparr>) (ByteBuffer_Append b buff))"

text \<open>A closed \<open>initSendBuff\<close> gives nil, here \<open>None\<close>.\<close>

definition poolsend_init :: "write_outcome list \<Rightarrow> SendBuffInfo option \<Rightarrow> TcpBufTask \<Rightarrow> bytes \<times> TcpBufTask \<times> loop_end" where
  "poolsend_init ws msg t = (case msg of
     None \<Rightarrow> ([], t, LoopReturn)
   | Some sbi \<Rightarrow>
       if sbi_buffLen sbi = 0 \<or> sbi_sendBuff sbi = None then ([], t, LoopReturn)
       else let (out, r) = (if length (sbi_preSendBuff sbi) > 0 then write_slice ws (sbi_preSendBuff sbi) else ([], SendIdle)) in
         if r \<noteq> SendIdle then (out, t, loop_after r)
         else (out, t\<lparr>tb_startIdx := sbi_startIdx sbi, tb_endIdx := sbi_startIdx sbi, tb_buffLen := sbi_buffLen sbi,
                    tb_sendBuffPtr := sbi_sendBuff sbi, tb_buffValid := True\<rparr>, LoopContinue))"

text \<open>
  One turn of the \<open>select\<close> of \<open>poolsendloop\<close>, with the case it takes, and the deferred calls when the loop returns.  Closing
  \<open>stopedBuffChan\<close> a second time would panic.
\<close>

datatype pool_case =
  CaseImmediate "write_outcome list" | CaseInterrupt | CaseNewBuff "64 word" bytes "pool_turn list" "write_outcome list"
  | CaseStop | CaseTimeout | CaseInit "write_outcome list"

fun poolsendloop_select :: "pool_case \<Rightarrow> TcpBufTask \<Rightarrow> (bytes \<times> TcpBufTask \<times> loop_end) outcome" where
  "poolsendloop_select (CaseImmediate ws) t =
     outcome_bind (chan_recv (tb_immediatBuffChan t)) (\<lambda>(m, c).
       let (out, r) = poolsend_immediate ws (case m of None \<Rightarrow> [] | Some buff \<Rightarrow> buff) in Returns (out, t\<lparr>tb_immediatBuffChan := c\<rparr>, r))"
| "poolsendloop_select CaseInterrupt t =
     outcome_bind (chan_recv (tb_interruptBuffChan t)) (\<lambda>(m, c).
       case poolsend_interrupt (case m of None \<Rightarrow> [] | Some buff \<Rightarrow> buff) (t\<lparr>tb_interruptBuffChan := c\<rparr>) of
         None \<Rightarrow> Panics | Some t1 \<Rightarrow> Returns ([], t1, LoopContinue))"
| "poolsendloop_select (CaseNewBuff e0 ring0 turns ws) t =
     outcome_bind (chan_recv (tb_newBuffSignal t)) (\<lambda>(m, c).
       case poolsend_newBuff e0 ring0 turns ws (t\<lparr>tb_newBuffSignal := c\<rparr>) of None \<Rightarrow> Panics | Some r \<Rightarrow> Returns r)"
| "poolsendloop_select CaseStop t =
     outcome_bind (chan_recv (tb_stopedBuffChan t)) (\<lambda>(m, c). Returns ([], t\<lparr>tb_stopedBuffChan := c\<rparr>, LoopReturn))"
| "poolsendloop_select CaseTimeout t = Returns ([], t, if \<not> TcpBufTask_IsVerified t then LoopReturn else LoopContinue)"
| "poolsendloop_select (CaseInit ws) t =
     outcome_bind (chan_recv (tb_initSendBuff t)) (\<lambda>(m, c). Returns (poolsend_init ws m (t\<lparr>tb_initSendBuff := c\<rparr>)))"

definition poolsendloop_exit :: "TcpBufTask \<Rightarrow> TcpBufTask outcome" where
  "poolsendloop_exit t =
     (let t1 = TcpBufTask_Close (TcpBufTask_stopchan t); t2 = t1\<lparr>tb_stoppedBuff := 1\<rparr> in
      outcome_bind (chan_close (tb_stopedBuffChan t2)) (\<lambda>c. Returns (t2\<lparr>tb_stopedBuffChan := c\<rparr>)))"

text \<open>\<open>sendloop\<close>: after a signal it sends its own buffer the way \<open>TcpTask\<close> does, with the second buffer \<open>tmpByte\<close>.\<close>

datatype send_case = CaseSignal "write_outcome list" | CaseStopped | CaseSendTimeout

fun TcpBufTask_sendloop_select ::
  "send_case \<Rightarrow> TcpBufTask \<Rightarrow> ByteBuffer \<Rightarrow> (bytes \<times> TcpBufTask \<times> ByteBuffer \<times> loop_end) outcome" where
  "TcpBufTask_sendloop_select (CaseSignal ws) t tmpByte =
     outcome_bind (chan_recv (tb_signal t)) (\<lambda>(m, c).
       case TcpTask_sendloop ws (tb_sendBuff t) tmpByte of
         None \<Rightarrow> Panics
       | Some (out, sb, tmp, r) \<Rightarrow> Returns (out, t\<lparr>tb_signal := c, tb_sendBuff := sb\<rparr>, tmp, loop_after r))"
| "TcpBufTask_sendloop_select CaseStopped t tmpByte =
     outcome_bind (chan_recv (tb_stopedChan t)) (\<lambda>(m, c). Returns ([], t\<lparr>tb_stopedChan := c\<rparr>, tmpByte, LoopReturn))"
| "TcpBufTask_sendloop_select CaseSendTimeout t tmpByte =
     Returns ([], t, tmpByte, if \<not> TcpBufTask_IsVerified t then LoopReturn else LoopContinue)"

definition TcpBufTask_sendloop_exit :: "TcpBufTask \<Rightarrow> TcpBufTask outcome" where
  "TcpBufTask_sendloop_exit t =
     (let t1 = TcpBufTask_Close (TcpBufTask_stopbuff t); t2 = t1\<lparr>tb_stopped := 1\<rparr> in
      outcome_bind (chan_close (tb_stopedChan t2)) (\<lambda>c. Returns (t2\<lparr>tb_stopedChan := c\<rparr>)))"

section \<open>Receiving\<close>

definition TcpBufTask_need :: "ByteBuffer \<Rightarrow> stream \<Rightarrow> nat \<Rightarrow> (ByteBuffer \<times> stream \<times> io_error option) option" where
  "TcpBufTask_need b cs n =
     (let totalsize = ByteBuffer_RdSize b in
      if totalsize < int n then
        let neednum = nat (int n - totalsize) in do {
          b1 \<leftarrow> (if ByteBuffer_WrSize b < int neednum then ByteBuffer_WrGrow b neednum else Some b);
          let (got, err, rest) = ReadAtLeast (length (ByteBuffer_WrBuf b1)) neednum cs;
          if err \<noteq> None then Some (b1, rest, err)
          else do {
            b2 \<leftarrow> ByteBuffer_fill b1 got;
            Some (b2, rest, None)
          }
        }
      else Some (b, cs, None))"

definition buf_datasize :: "bytes \<Rightarrow> nat option" where
  "buf_datasize msgbuff = do {
     b0 \<leftarrow> index_at msgbuff 0;
     b1 \<leftarrow> index_at msgbuff 1;
     b2 \<leftarrow> index_at msgbuff 2;
     Some (unat (ucast b0 OR push_bit 8 (ucast b1) OR push_bit 16 (ucast b2) :: 64 word))
   }"

definition TcpBufTask_recv_once :: "ByteBuffer \<Rightarrow> stream \<Rightarrow> (recv_stop + (bytes \<times> byte) \<times> ByteBuffer \<times> stream) option" where
  "TcpBufTask_recv_once b cs = do {
     (b1, cs1, err1) \<leftarrow> TcpBufTask_need b cs cmd_header_size;
     if err1 \<noteq> None then Some (Inl RecvFailed)
     else do {
       datasize \<leftarrow> buf_datasize (ByteBuffer_RdBuf b1);
       if datasize > cmd_max_size then Some (Inl (BadSize datasize))
       else do {
         (b2, cs2, err2) \<leftarrow> TcpBufTask_need b1 cs1 (cmd_header_size + datasize);
         if err2 \<noteq> None then Some (Inl RecvFailed)
         else do {
           msg \<leftarrow> slice (ByteBuffer_RdBuf b2) cmd_header_size (cmd_header_size + datasize);
           flag \<leftarrow> index_at (ByteBuffer_RdBuf b2) 3;
           Some (Inr ((msg, flag), ByteBuffer_RdFlip b2 (cmd_header_size + datasize), cs2))
         }
       }
     }
   }"

fun TcpBufTask_recvloop :: "nat \<Rightarrow> ByteBuffer \<Rightarrow> stream \<Rightarrow> (bytes \<times> byte) list \<times> recv_end" where
  "TcpBufTask_recvloop 0 b cs = ([], Running)"
| "TcpBufTask_recvloop (Suc fuel) b cs =
     (case TcpBufTask_recv_once b cs of
        None \<Rightarrow> ([], Panicked)
      | Some (Inl e) \<Rightarrow> ([], Stopped e)
      | Some (Inr (m, b', cs')) \<Rightarrow> (let (ms, e) = TcpBufTask_recvloop fuel b' cs' in (m # ms, e)))"

section \<open>The stream a session sends\<close>

lemma rem64_of_nat:
  assumes "k < 2 ^ 63" "0 < L" "L < 2 ^ 63"
  shows "rem64 (of_nat k) (of_nat L) = Some (of_nat (k mod L))"
proof -
  have "(of_nat L :: 64 word) \<noteq> 0"
    using unat_of_nat_small [OF assms(3)] assms(2) by auto
  moreover have "int k smod int L = int (k mod L)"
    by (cases k) (simp_all add: signed_modulo_int_def zmod_int)
  ultimately show ?thesis
    by (simp add: rem64_def sint_of_nat_small [OF assms(1)] sint_of_nat_small [OF assms(3)])
qed

text \<open>How many bytes from \<open>k\<close> on lie in one piece before the end of the ring of \<open>L\<close> bytes, when the stream ends at \<open>e\<close>.\<close>

definition section_len :: "nat \<Rightarrow> nat \<Rightarrow> nat \<Rightarrow> nat" where
  "section_len L k e = min (e - k) (L - k mod L)"

lemma mod_section:
  assumes "k < e" "e \<le> k + L"
  shows "k mod L < e mod L \<Longrightarrow> e mod L = k mod L + section_len L k e"
    and "\<not> k mod L < e mod L \<Longrightarrow> L = k mod L + section_len L k e"
proof -
  have "0 < L" using assms by linarith
  let ?a = "k mod L" and ?d = "e - k"
  have a: "?a < L" using \<open>0 < L\<close> by simp
  have "?a + ?d < 2 * L"
    using a assms by linarith
  moreover have "e mod L = (?a + ?d) mod L"
    using assms(1) mod_add_left_eq [of k L ?d] by simp
  ultimately have "e mod L = (if ?a + ?d < L then ?a + ?d else ?a + ?d - L)"
    by (simp only: mod_below_twice)
  then show "k mod L < e mod L \<Longrightarrow> e mod L = k mod L + section_len L k e"
    and "\<not> k mod L < e mod L \<Longrightarrow> L = k mod L + section_len L k e"
    using a assms by (auto simp: section_len_def min_def split: if_splits)
qed

text \<open>
  What the owner of the ring promises for a turn: the stream is \<open>s\<close>, and its last \<open>L\<close> bytes are in the ring, each at its place.
\<close>

fun owner_turn :: "nat \<Rightarrow> bytes \<Rightarrow> pool_turn \<Rightarrow> bool" where
  "owner_turn L s (e, ring, w) \<longleftrightarrow> length ring = L \<and> unat e \<le> length s \<and> (\<forall>i < unat e. unat e \<le> i + L \<longrightarrow> ring ! (i mod L) = s ! i)"

text \<open>The owner is never more than the ring ahead of the session, which stands at \<open>k\<close>.\<close>

fun not_lapped :: "nat \<Rightarrow> nat \<Rightarrow> pool_turn list \<Rightarrow> bool" where
  "not_lapped L k [] \<longleftrightarrow> True"
| "not_lapped L k ((e, ring, w) # turns) \<longleftrightarrow> k \<le> unat e \<and> unat e \<le> k + L \<and>
     (case w of WriteFail \<Rightarrow> True | WriteOk n \<Rightarrow> k = unat e \<or> not_lapped L (k + min n (section_len L k (unat e))) turns)"

lemma getBuffSection_spec:
  assumes "tb_startIdx t = of_nat k" "tb_endIdx t = of_nat e" "tb_buffLen t = of_nat L" "tb_sendBuffPtr t \<noteq> None"
    and "k < e" "e \<le> k + L" "e < 2 ^ 63" "L < 2 ^ 63"
  shows "TcpBufTask_getBuffSection t = Some (of_nat (k mod L), of_nat (k mod L + section_len L k e))"
proof -
  have L: "0 < L" using assms(5,6) by linarith
  have k: "k < 2 ^ 63" using assms(5,7) by linarith
  have b: "k mod L < 2 ^ 63" "e mod L < 2 ^ 63"
    using L assms(8) mod_less_divisor [of L k] mod_less_divisor [of L e] by linarith+
  have "TcpBufTask_getBuffSection t =
    Some (if k mod L < e mod L then (of_nat (k mod L), of_nat (e mod L)) else (of_nat (k mod L), of_nat L))"
    using assms(4) sint_of_nat_small [OF b(1)] sint_of_nat_small [OF b(2)]
    by (auto simp: TcpBufTask_getBuffSection_def assms(1-3) rem64_of_nat [OF k L assms(8)] rem64_of_nat [OF assms(7) L assms(8)])
  then show ?thesis
    using mod_section [OF assms(5,6)] by (cases "k mod L < e mod L") simp_all
qed

lemma ring_section:
  assumes "owner_turn L s (e, ring, w)" "k < unat e" "unat e \<le> k + L"
  shows "slice ring (k mod L) (k mod L + section_len L k (unat e)) = Some (take (section_len L k (unat e)) (drop k s))"
proof -
  let ?m = "section_len L k (unat e)"
  have L: "0 < L" using assms(2,3) by linarith
  have m: "k mod L + ?m \<le> L" "?m \<le> unat e - k"
    using mod_less_divisor [OF L, of k] unfolding section_len_def by linarith+
  have r: "length ring = L" "unat e \<le> length s" "\<And>i. i < unat e \<Longrightarrow> unat e \<le> i + L \<Longrightarrow> ring ! (i mod L) = s ! i"
    using assms(1) by auto
  have "take ?m (drop (k mod L) ring) = take ?m (drop k s)"
  proof (rule nth_equalityI)
    show "length (take ?m (drop (k mod L) ring)) = length (take ?m (drop k s))"
      using m r(1,2) assms(2) by simp
    fix i
    assume "i < length (take ?m (drop (k mod L) ring))"
    then have i: "i < ?m" by simp
    then have "(k + i) mod L = k mod L + i"
      using m(1) mod_add_left_eq [of k L i] by simp
    then show "take ?m (drop (k mod L) ring) ! i = take ?m (drop k s) ! i"
      using i m r(1,2) r(3) [of "k + i"] assms(2,3) by (simp add: add.commute)
  qed
  then show ?thesis
    using m(1) r(1) by (simp add: slice_def)
qed

lemma section_bounds:
  assumes "0 < L"
  shows "k mod L + section_len L k e \<le> L" "section_len L k e \<le> e - k"
  using mod_less_divisor [OF assms, of k] unfolding section_len_def by linarith+

text \<open>One turn that has something to send.\<close>

lemma send_ring_turn:
  assumes "L < 2 ^ 63" "length s < 2 ^ 63" "owner_turn L s (e, ring, w)" "k < unat e" "unat e \<le> k + L"
    and "tb_startIdx t = of_nat k" "tb_buffLen t = of_nat L" "tb_sendBuffPtr t \<noteq> None"
  shows "TcpBufTask_send_ring ((e, ring, w) # turns) t = (case w of
      WriteFail \<Rightarrow> Some ([], t\<lparr>tb_endIdx := e\<rparr>, SendFailed)
    | WriteOk n \<Rightarrow> (let j = min n (section_len L k (unat e)) in
        case TcpBufTask_send_ring turns (t\<lparr>tb_endIdx := e, tb_startIdx := of_nat (k + j)\<rparr>) of
          None \<Rightarrow> None
        | Some (out, t2, r) \<Rightarrow> Some (take j (drop k s) @ out, t2, r)))"
proof -
  let ?t = "t\<lparr>tb_endIdx := e\<rparr>" and ?m = "section_len L k (unat e)" and ?a = "k mod L"
  have L: "0 < L" using assms(4,5) by linarith
  have b: "unat e \<le> length s" "unat e < 2 ^ 63" "k < 2 ^ 63"
    using assms(2-4) by auto
  have ne: "(of_nat k :: 64 word) \<noteq> e"
    using assms(4) unat_of_nat_small [OF b(3)] by auto
  note m = section_bounds [OF L, of k "unat e"]
  have am: "?a < 2 ^ 63" "?a + ?m < 2 ^ 63"
    using m(1) assms(1) by linarith+
  have sec: "TcpBufTask_getBuffSection ?t = Some (of_nat ?a, of_nat (?a + ?m))"
    using getBuffSection_spec [of ?t k "unat e" L] assms(1,4-8) b(2) by simp
  have len: "length (take ?m (drop k s)) = ?m"
    using m(2) b(1) assms(4) by simp
  obtain p where p: "tb_sendBuffPtr t = Some p"
    using assms(8) by auto
  have st: "tb_startIdx ?t = of_nat k"
    using assms(6) by simp
  have tt: "take (min n ?m) (take ?m (drop k s)) = take (min n ?m) (drop k s)" for n
    by simp
  have "TcpBufTask_send_ring ((e, ring, w) # turns) t =
    (case slice ring (nat (sint (of_nat ?a :: 64 word))) (nat (sint (of_nat (?a + ?m) :: 64 word))) of
       None \<Rightarrow> None
     | Some xs \<Rightarrow> (case w of WriteFail \<Rightarrow> Some ([], ?t, SendFailed)
         | WriteOk n \<Rightarrow> (case TcpBufTask_send_ring turns (?t\<lparr>tb_startIdx := of_nat k + of_nat (min n (length xs))\<rparr>) of
             None \<Rightarrow> None | Some (out, t2, r) \<Rightarrow> Some (take (min n (length xs)) xs @ out, t2, r))))"
    unfolding TcpBufTask_send_ring.simps Let_def sec st using ne p
    by (simp add: sint_of_nat_small [OF am(1)] sint_of_nat_small [OF am(2)] del: of_nat_add)
  also have "slice ring (nat (sint (of_nat ?a :: 64 word))) (nat (sint (of_nat (?a + ?m) :: 64 word))) = Some (take ?m (drop k s))"
    unfolding sint_of_nat_small [OF am(1)] sint_of_nat_small [OF am(2)] nat_int by (rule ring_section [OF assms(3-5)])
  finally show ?thesis
    by (simp only: option.case len tt Let_def of_nat_add)
qed

lemma send_ring_stream:
  assumes "0 < L" "L < 2 ^ 63" "length s < 2 ^ 63" "\<forall>tn \<in> set turns. owner_turn L s tn" "not_lapped L k turns" "k \<le> length s"
    and "tb_startIdx t = of_nat k" "tb_buffLen t = of_nat L" "tb_sendBuffPtr t \<noteq> None"
  shows "\<exists>out e r. TcpBufTask_send_ring turns t = Some (out, t\<lparr>tb_startIdx := of_nat (k + length out), tb_endIdx := e\<rparr>, r) \<and>
    k + length out \<le> length s \<and> out = take (length out) (drop k s) \<and> (r = SendIdle \<longrightarrow> e = of_nat (k + length out))"
  using assms(4-9)
proof (induction turns arbitrary: k t)
  case Nil
  then show ?case by (intro exI [of _ "[]"] exI [of _ "tb_endIdx t"] exI [of _ SendBlocked]) simp
next
  case (Cons tn turns)
  obtain e ring w where tn: "tn = (e, ring, w)" by (cases tn)
  have k: "k \<le> unat e" "unat e \<le> k + L" and own: "owner_turn L s (e, ring, w)"
    using Cons.prems(1,2) tn by auto
  show ?case
  proof (cases "k = unat e")
    case True
    then show ?thesis
      using Cons.prems(3,4) by (intro exI [of _ "[]"] exI [of _ e] exI [of _ SendIdle]) (simp add: tn)
  next
    case False
    then have lt: "k < unat e" using k(1) by simp
    note turn = send_ring_turn [OF assms(2,3) own lt k(2) Cons.prems(4-6), of turns]
    show ?thesis
    proof (cases w)
      case WriteFail
      then show ?thesis
        using turn Cons.prems(3,4) by (intro exI [of _ "[]"] exI [of _ e] exI [of _ SendFailed]) (simp add: tn)
    next
      case (WriteOk n)
      let ?j = "min n (section_len L k (unat e))"
      let ?t = "t\<lparr>tb_endIdx := e, tb_startIdx := of_nat (k + ?j)\<rparr>"
      have "k + ?j \<le> unat e" "unat e \<le> length s"
        using section_bounds(2) [OF assms(1), of k "unat e"] lt own by auto
      then have j: "k + ?j \<le> length s" by linarith
      have "not_lapped L (k + ?j) turns"
        using Cons.prems(2) False by (simp add: tn WriteOk)
      from Cons.IH [OF _ this j, of ?t] obtain out e' r where ih:
        "TcpBufTask_send_ring turns ?t = Some (out, ?t\<lparr>tb_startIdx := of_nat (k + ?j + length out), tb_endIdx := e'\<rparr>, r)"
        "k + ?j + length out \<le> length s" "out = take (length out) (drop (k + ?j) s)" "r = SendIdle \<longrightarrow> e' = of_nat (k + ?j + length out)"
        using Cons.prems(1,5,6) by auto
      let ?out = "take ?j (drop k s) @ out"
      have o: "length ?out = ?j + length out"
        using j by simp
      have "take (length ?out) (drop k s) = ?out"
        unfolding o take_add drop_drop using ih(3) by (simp add: add.commute)
      moreover have "TcpBufTask_send_ring (tn # turns) t = Some (?out, t\<lparr>tb_startIdx := of_nat (k + length ?out), tb_endIdx := e'\<rparr>, r)"
        unfolding o using turn ih(1) by (simp add: tn WriteOk Let_def add.assoc)
      ultimately show ?thesis
        using ih(2,4) o by (intro exI [of _ ?out] exI [of _ e'] exI [of _ r]) (simp add: add.assoc)
    qed
  qed
qed

lemma send_interrupt_spec:
  assumes "bb_inv b"
  shows "\<exists>out b' r. TcpBufTask_send_interrupt ws b = Some (out, b', r) \<and> bb_inv b' \<and> out @ bb_contents b' = bb_contents b \<and>
    (r = SendIdle \<longrightarrow> bb_contents b' = [])"
  using assms
proof (induction ws arbitrary: b)
  case Nil
  have "slice (ByteBuffer_RdBuf b) 0 (nat (ByteBuffer_RdSize b)) = Some (bb_contents b)"
    using RdBuf_slice [OF Nil, of 0 "length (bb_contents b)" "[]"] by (simp add: RdSize_contents [OF Nil])
  then show ?case
    using Nil by (simp add: TcpBufTask_send_interrupt.simps RdReady_contents)
next
  case (Cons w ws)
  have sl: "slice (ByteBuffer_RdBuf b) 0 (nat (ByteBuffer_RdSize b)) = Some (bb_contents b)"
    using RdBuf_slice [OF Cons.prems, of 0 "length (bb_contents b)" "[]"] by (simp add: RdSize_contents [OF Cons.prems])
  show ?case
  proof (cases "bb_contents b = [] \<or> w = WriteFail")
    case True
    then show ?thesis
      using Cons.prems sl by (auto simp: TcpBufTask_send_interrupt.simps [of "_ # ws"] RdReady_contents)
  next
    case False
    then obtain n where w: "w = WriteOk n" by (cases w) auto
    let ?j = "min n (length (bb_contents b))"
    obtain out b' r where ih: "TcpBufTask_send_interrupt ws (ByteBuffer_RdFlip b ?j) = Some (out, b', r)" "bb_inv b'"
        "out @ bb_contents b' = drop ?j (bb_contents b)" "r = SendIdle \<longrightarrow> bb_contents b' = []"
      using Cons.IH [OF RdFlip_inv [OF Cons.prems], of ?j] RdFlip_contents [OF Cons.prems] by auto
    then have "take ?j (bb_contents b) @ out @ bb_contents b' = bb_contents b"
      by (metis append_take_drop_id)
    then show ?thesis
      using ih sl False Cons.prems by (simp add: TcpBufTask_send_interrupt.simps [of "_ # ws"] RdReady_contents w Let_def)
  qed
qed

text \<open>
  C16.  After the owner's notice the session sends the stream from its place on, without a gap, a byte twice or a byte of another
  place of the ring, however the writes cut it and however the owner goes on while it sends; frames queued for later go out only when
  the session has caught up with the end of the stream, in their order, and the loop goes on only when both are sent.  Assumed is that
  the owner keeps its last bytes in the ring and does not get further ahead of the session than the ring is long.
\<close>

theorem poolsend_newBuff_stream:
  assumes "0 < L" "L < 2 ^ 63" "length s < 2 ^ 63" "\<forall>tn \<in> set turns. owner_turn L s tn" "not_lapped L k turns" "k \<le> length s"
    and "tb_startIdx t = of_nat k" "tb_buffLen t = of_nat L" "tb_sendBuffPtr t \<noteq> None" "tb_buffValid t"
    and "tb_interruptBuff t = Some b" "bb_inv b" "k \<le> e0" "e0 \<le> k + length ring0" "e0 < 2 ^ 63"
  shows "\<exists>out1 out2 t' b' r. poolsend_newBuff (of_nat e0) ring0 turns ws t = Some (out1 @ out2, t', r) \<and>
    out1 = take (length out1) (drop k s) \<and> k + length out1 \<le> length s \<and> tb_startIdx t' = of_nat (k + length out1) \<and>
    tb_interruptBuff t' = Some b' \<and> bb_inv b' \<and> out2 @ bb_contents b' = bb_contents b \<and>
    (out2 \<noteq> [] \<longrightarrow> tb_endIdx t' = tb_startIdx t') \<and> (r = LoopContinue \<longrightarrow> tb_endIdx t' = tb_startIdx t' \<and> bb_contents b' = [])"
proof -
  let ?t = "t\<lparr>tb_endIdx := of_nat e0\<rparr>"
  obtain out e r where o: "TcpBufTask_send_ring turns ?t = Some (out, ?t\<lparr>tb_startIdx := of_nat (k + length out), tb_endIdx := e\<rparr>, r)"
      "k + length out \<le> length s" "out = take (length out) (drop k s)" "r = SendIdle \<longrightarrow> e = of_nat (k + length out)"
    using send_ring_stream [OF assms(1-6), of ?t] assms(7-9) by auto
  obtain out2 b' r2 where i: "TcpBufTask_send_interrupt ws b = Some (out2, b', r2)" "bb_inv b'" "out2 @ bb_contents b' = bb_contents b"
      "r2 = SendIdle \<longrightarrow> bb_contents b' = []"
    using send_interrupt_spec [OF assms(12)] by blast
  have "(of_nat e0 - of_nat k :: 64 word) = of_nat (e0 - k)"
    using assms(13) by simp
  moreover have "sint (of_nat (e0 - k) :: 64 word) = int (e0 - k)"
    using assms(15) by (intro sint_of_nat_small) linarith
  ultimately have g: "\<not> sint (of_nat e0 - of_nat k :: 64 word) > int (length ring0)"
    using assms(14) by simp
  obtain p where p: "tb_sendBuffPtr t = Some p"
    using assms(9) by auto
  let ?t1 = "t\<lparr>tb_startIdx := of_nat (k + length out), tb_endIdx := e\<rparr>"
  have nb: "poolsend_newBuff (of_nat e0) ring0 turns ws t =
    (if r = SendIdle then Some (out @ out2, ?t1\<lparr>tb_interruptBuff := Some b'\<rparr>, loop_after r2) else Some (out, ?t1, loop_after r))"
    using g o(1) i(1) p assms(7,10,11) by (cases r) (simp_all add: poolsend_newBuff_def Let_def)
  have c: "loop_after x = LoopContinue \<longleftrightarrow> x = SendIdle" for x by (cases x) simp_all
  show ?thesis
  proof (cases "r = SendIdle")
    case True
    then show ?thesis
      unfolding nb using o i c
      by (intro exI [of _ out] exI [of _ out2] exI [of _ "?t1\<lparr>tb_interruptBuff := Some b'\<rparr>"] exI [of _ b'] exI [of _ "loop_after r2"]) simp
  next
    case False
    then show ?thesis
      unfolding nb using o c assms(11,12)
      by (intro exI [of _ out] exI [of _ "[]"] exI [of _ ?t1] exI [of _ b] exI [of _ "loop_after r"]) simp
  qed
qed

theorem poolsend_newBuff_stream_witness:
  "\<exists>out1 out2 t' b' r. poolsend_newBuff (of_nat 6) [40, 50, 20, 30]
      [(6, [40, 50, 20, 30], WriteOk 9), (6, [40, 50, 20, 30], WriteOk 9), (6, [40, 50, 20, 30], WriteOk 9)] []
      (NewTcpBufTask\<lparr>tb_startIdx := of_nat 2, tb_buffLen := of_nat 4, tb_sendBuffPtr := Some 0, tb_buffValid := True\<rparr>) = Some (out1 @ out2, t', r) \<and>
    out1 = take (length out1) (drop 2 [0, 10, 20, 30, 40, 50]) \<and> tb_startIdx t' = of_nat (2 + length out1)"
proof -
  let ?s = "[0, 10, 20, 30, 40, 50] :: bytes" and ?ring = "[40, 50, 20, 30] :: bytes"
  let ?turns = "[(6, ?ring, WriteOk 9), (6, ?ring, WriteOk 9), (6, ?ring, WriteOk 9)] :: pool_turn list"
  let ?t = "NewTcpBufTask\<lparr>tb_startIdx := of_nat 2, tb_buffLen := of_nat 4, tb_sendBuffPtr := Some 0, tb_buffValid := True\<rparr>"
  have "\<forall>i \<in> set [0..<6]. 6 \<le> i + 4 \<longrightarrow> ?ring ! (i mod 4) = ?s ! i"
    by (simp add: upt_rec)
  then have 1: "\<forall>tn \<in> set ?turns. owner_turn 4 ?s tn" by simp
  have 2: "0 < (4 :: nat)" "(4 :: nat) < 2 ^ 63" "length ?s < 2 ^ 63" by simp_all
  have 3: "not_lapped 4 2 ?turns" "2 \<le> length ?s" by (simp_all add: section_len_def)
  have 4: "tb_startIdx ?t = of_nat 2" "tb_buffLen ?t = of_nat 4" "tb_sendBuffPtr ?t \<noteq> None" "tb_buffValid ?t"
    "tb_interruptBuff ?t = Some NewByteBuffer" by (simp_all add: NewTcpBufTask_def)
  have 5: "2 \<le> (6 :: nat)" "6 \<le> 2 + length ?ring" "(6 :: nat) < 2 ^ 63" by simp_all
  show ?thesis
    using poolsend_newBuff_stream [OF 2 1 3 4 NewByteBuffer_inv(1) 5, of "[]"] by blast
qed

text \<open>
  The check against the length of the ring is made once, before the loop.  When the owner laps the session later, the loop
  sends a byte of another place of the stream: the second byte here is 50 and not 10.
\<close>

lemma send_ring_lapped:
  "\<exists>t'. TcpBufTask_send_ring [(2, [0, 10, 0, 0], WriteOk 1), (6, [40, 50, 20, 30], WriteOk 1)]
      (NewTcpBufTask\<lparr>tb_buffLen := 4, tb_sendBuffPtr := Some 0, tb_buffValid := True\<rparr>) = Some ([0, 50], t', SendBlocked)"
  by (simp add: NewTcpBufTask_def TcpBufTask_getBuffSection_def rem64_def signed_modulo_int_def slice_def Let_def)

lemma SyncSendBuff_never_true: "snd (TcpBufTask_SyncSendBuff ws buff) \<noteq> Some True"
  by (induction ws buff rule: TcpBufTask_SyncSendBuff.induct) (auto simp: Let_def split: prod.splits)

text \<open>A session that is used again after \<open>Reset\<close> has its channels still closed: closing it does not call \<open>OnClose\<close>.\<close>

lemma Reset_loses_OnClose:
  assumes "ch_closed (tb_interruptBuffChan t)" "TcpBufTask_Reset t = (t1, True)"
  shows "tb_onclose (TcpBufTask_Close (fst (TcpBufTask_Start t1 pool))) = tb_onclose t"
proof -
  have "tb_onclose (TcpBufTask_stopchan u) = tb_onclose u" "tb_onclose (TcpBufTask_stopbuff u) = tb_onclose u"
    "tb_interruptBuffChan (TcpBufTask_stopchan u) = tb_interruptBuffChan u" "tb_interruptBuffChan (TcpBufTask_stopbuff u) = tb_interruptBuffChan u" for u
    by (auto simp: TcpBufTask_stopchan_def TcpBufTask_stopbuff_def Let_def split: outcome.split)
  then show ?thesis
    using assms by (auto simp: TcpBufTask_Reset_def TcpBufTask_Start_def TcpBufTask_Close_def TcpBufTask_Stop_def chan_close_def Let_def split: if_splits)
qed

section \<open>The messages a session receives\<close>

lemma buf_need_spec:
  assumes "bb_inv b"
  shows "\<exists>b' cs' err. TcpBufTask_need b cs n = Some (b', cs', err) \<and> (err = None \<longleftrightarrow> n \<le> length (bb_contents b @ concat cs)) \<and>
    (err = None \<longrightarrow> bb_inv b' \<and> bb_contents b' @ concat cs' = bb_contents b @ concat cs \<and> n \<le> length (bb_contents b'))"
proof (cases "ByteBuffer_RdSize b < int n")
  case False
  then show ?thesis
    using assms RdSize_contents [OF assms] by (simp add: TcpBufTask_need_def)
next
  case True
  let ?k = "n - length (bb_contents b)"
  have k: "nat (int n - ByteBuffer_RdSize b) = ?k" "length (bb_contents b) < n"
    using True RdSize_contents [OF assms] by linarith+
  obtain b1 where b1: "(if ByteBuffer_WrSize b < int ?k then ByteBuffer_WrGrow b ?k else Some b) = Some b1" "bb_inv b1"
      "bb_contents b1 = bb_contents b" "int ?k \<le> ByteBuffer_WrSize b1"
    using WrGrow_inv [OF assms, of ?k] assms by (cases "ByteBuffer_WrSize b < int ?k") auto
  let ?room = "length (ByteBuffer_WrBuf b1)"
  have room: "?k \<le> ?room" using WrBuf_length [OF b1(2)] b1(4) by linarith
  obtain got err rest where ra: "ReadAtLeast ?room ?k cs = (got, err, rest)" by (metis prod_cases3)
  show ?thesis
  proof (cases err)
    case None
    note ok = ReadAtLeast_ok [OF ra [unfolded None]]
    have "?k \<le> length (concat cs)"
      using ok(1,2) by (metis le_add1 length_append le_trans)
    moreover have "int (length got) \<le> ByteBuffer_WrSize b1"
      using ok(3) WrBuf_length [OF b1(2)] by linarith
    then obtain b2 where b2: "ByteBuffer_fill b1 got = Some b2" "bb_inv b2" "bb_contents b2 = bb_contents b1 @ got"
      using fill_inv [OF b1(2)] by blast
    moreover have "TcpBufTask_need b cs n = Some (b2, rest, None)"
      using True k(1) b1(1) ra None b2(1) by (simp add: TcpBufTask_need_def Let_def)
    ultimately show ?thesis
      using ok(1,2) b1(3) by auto
  next
    case (Some e)
    have "TcpBufTask_need b cs n = Some (b1, rest, err)"
      using True k(1) b1(1) ra Some by (simp add: TcpBufTask_need_def Let_def)
    then show ?thesis
      using ReadAtLeast_err(1) [OF ra [unfolded Some] room] Some by auto
  qed
qed

lemma buf_datasize_header:
  assumes "n < 2 ^ 24"
  shows "buf_datasize (buf_header n flag @ xs) = Some n"
proof -
  have "ucast (ucast x :: byte) OR push_bit 8 (ucast (ucast (drop_bit 8 x) :: byte)) OR push_bit 16 (ucast (ucast (drop_bit 16 x) :: byte)) =
      take_bit 24 x" for x :: "64 word"
  proof (rule bit_word_eqI)
    fix i
    show "bit (ucast (ucast x :: byte) OR push_bit 8 (ucast (ucast (drop_bit 8 x) :: byte)) OR push_bit 16 (ucast (ucast (drop_bit 16 x) :: byte)) :: 64 word) i =
        bit (take_bit 24 x) i"
      by (cases "i < 16") (auto simp: bit_simps)
  qed
  moreover have "unat (take_bit 24 (of_nat n :: 64 word)) = n"
    using assms by (simp add: unsigned_take_bit_eq unsigned_of_nat take_bit_nat_eq_self)
  ultimately show ?thesis
    by (simp add: buf_datasize_def buf_header_def index_at_def Let_def)
qed

definition buf_frame :: "bytes \<times> byte \<Rightarrow> bytes" where
  "buf_frame m = (case m of (buff, flag) \<Rightarrow> TcpBufTask_getsendbuff flag buff)"

lemma length_buf_header [simp]: "length (buf_header n flag) = 4"
  by (simp add: buf_header_def Let_def)

lemma buf_datasize_prefix: "4 \<le> length xs \<Longrightarrow> buf_datasize (xs @ ys) = buf_datasize xs"
  by (auto simp: buf_datasize_def index_at_def nth_append)

lemma buf_recv_once_frame:
  assumes "bb_inv b" "bb_contents b @ concat cs = buf_frame (m, flag) @ rest" "length m \<le> cmd_max_size"
  shows "\<exists>b' cs'. TcpBufTask_recv_once b cs = Some (Inr ((m, flag), b', cs')) \<and> bb_inv b' \<and> bb_contents b' @ concat cs' = rest"
proof -
  let ?s = "buf_header (length m) flag @ m @ rest"
  have s: "bb_contents b @ concat cs = ?s"
    using assms(2) by (simp add: buf_frame_def TcpBufTask_getsendbuff_def)
  have n: "length m < 2 ^ 24"
    using assms(3) by (simp add: cmd_max_size_def)
  obtain b1 cs1 where 1: "TcpBufTask_need b cs 4 = Some (b1, cs1, None)" "bb_inv b1" "bb_contents b1 @ concat cs1 = ?s" "4 \<le> length (bb_contents b1)"
    using buf_need_spec [OF assms(1), of cs 4] unfolding s by auto
  obtain ys where ys: "ByteBuffer_RdBuf b1 = bb_contents b1 @ ys"
    using RdBuf_prefix [OF 1(2)] .
  have ds: "buf_datasize (ByteBuffer_RdBuf b1) = Some (length m)"
    using buf_datasize_header [OF n, of flag "m @ rest"] 1(3,4) buf_datasize_prefix [of "bb_contents b1"] unfolding ys by metis
  obtain b2 cs2 where 2: "TcpBufTask_need b1 cs1 (4 + length m) = Some (b2, cs2, None)" "bb_inv b2" "bb_contents b2 @ concat cs2 = ?s"
      "4 + length m \<le> length (bb_contents b2)"
    using buf_need_spec [OF 1(2), of cs1 "4 + length m"] unfolding 1(3) by auto
  have sl: "slice (ByteBuffer_RdBuf b2) 4 (4 + length m) = Some m"
    using RdBuf_slice [OF 2(2), of 4 "4 + length m" "concat cs2"] 2(4) by (simp add: 2(3))
  obtain zs where zs: "ByteBuffer_RdBuf b2 = bb_contents b2 @ zs"
    using RdBuf_prefix [OF 2(2)] .
  have "(bb_contents b2 @ zs) ! 3 = (bb_contents b2 @ concat cs2) ! 3"
    using 2(4) by (simp add: nth_append)
  then have "(bb_contents b2 @ zs) ! 3 = ?s ! 3"
    unfolding 2(3) .
  then have fl: "index_at (ByteBuffer_RdBuf b2) 3 = Some flag"
    using 2(4) by (simp add: zs index_at_def buf_header_def Let_def)
  have "bb_contents (ByteBuffer_RdFlip b2 (4 + length m)) @ concat cs2 = drop (4 + length m) ?s"
    using 2(4) RdFlip_contents [OF 2(2)] 2(3) [symmetric] by simp
  then show ?thesis
    using 1(1) ds 2(1) sl fl assms(3) RdFlip_inv [OF 2(2)] by (simp add: TcpBufTask_recv_once_def cmd_header_size_def)
qed

interpretation tcpbuf: frame_receiver TcpBufTask_recv_once TcpBufTask_recvloop buf_frame "\<lambda>m. length (fst m) \<le> cmd_max_size"
proof unfold_locales
  fix b cs and m :: "bytes \<times> byte" and rest
  assume "bb_inv b" "bb_contents b @ concat cs = buf_frame m @ rest" "length (fst m) \<le> cmd_max_size"
  then show "\<exists>b' cs'. TcpBufTask_recv_once b cs = Some (Inr (m, b', cs')) \<and> bb_inv b' \<and> bb_contents b' @ concat cs' = rest"
    using buf_recv_once_frame [of b cs "fst m" "snd m" rest] by simp
next
  fix b cs
  assume "bb_inv b" and s: "bb_contents b @ concat cs = []"
  then show "TcpBufTask_recv_once b cs = Some (Inl RecvFailed)"
    using buf_need_spec [of b cs 4] unfolding s by (auto simp: TcpBufTask_recv_once_def cmd_header_size_def)
qed simp

text \<open>
  What \<open>AsyncSend\<close> queues comes out of the receive loop of the other side, with its flag, however the network cuts it, whatever the
  length up to the limit, zero included.
\<close>

lemma AsyncSend_queues:
  assumes "bb_inv (tb_sendBuff t)" "\<not> TcpBufTask_IsClosed t"
  shows "\<exists>t'. TcpBufTask_AsyncSend t buff flag = Some (t', True) \<and> bb_inv (tb_sendBuff t') \<and>
    bb_contents (tb_sendBuff t') = bb_contents (tb_sendBuff t) @ buf_frame (buff, flag)"
proof -
  obtain b1 where b1: "ByteBuffer_Append (tb_sendBuff t) (buf_header (length buff) flag) = Some b1" "bb_inv b1"
      "bb_contents b1 = bb_contents (tb_sendBuff t) @ buf_header (length buff) flag"
    using Append_inv [OF assms(1)] by blast
  obtain b2 where b2: "ByteBuffer_Append b1 buff = Some b2" "bb_inv b2" "bb_contents b2 = bb_contents b1 @ buff"
    using Append_inv [OF b1(2)] by blast
  have "tb_sendBuff (TcpBufTask_Signal u) = tb_sendBuff u" for u
    by (simp add: TcpBufTask_Signal_def split: outcome.split)
  then show ?thesis
    using assms(2) b1 b2 by (simp add: TcpBufTask_AsyncSend_def buf_frame_def TcpBufTask_getsendbuff_def)
qed

lemma AsyncSend_received:
  assumes "concat cs = concat (map buf_frame ms)" "\<forall>m \<in> set ms. length (fst m) \<le> cmd_max_size"
  shows "TcpBufTask_recvloop (Suc (length ms)) NewByteBuffer cs = (ms, Stopped RecvFailed)"
  using tcpbuf.loop_frames [OF NewByteBuffer_inv(1)] assms by (simp add: NewByteBuffer_inv(2))

end
