(* ===== verification/Gonet_MsgPool.thy ===== *)
theory Gonet_MsgPool
  imports Gonet_TcpTask
begin

text \<open>
  The message ring of \<open>lib/gonet/msgbuff.go\<close>: a storage of bytes with two 64-bit counters that only grow and wrap
  around.  A message is stored behind a header of three bytes for its length and a flag.

  A slice of the storage that is returned to be filled is its offset; one that is returned to be read is its bytes.
  \<open>None\<close> as a result is a panic, and as a slice the nil slice.
\<close>

definition default_poollen :: nat where "default_poollen = 1024 * 1024"

record msgPool =
  mp_poolLen :: nat
  mp_pool :: bytes
  mp_start :: "64 word"
  mp_end :: "64 word"
  mp_tmpPool :: bytes
  mp_index :: nat
  mp_flag :: byte
  mp_msgLen :: "64 word"

definition new_msgPool :: msgPool where
  "new_msgPool = \<lparr>mp_poolLen = default_poollen, mp_pool = replicate default_poollen 0, mp_start = 0, mp_end = 0,
     mp_tmpPool = replicate cmd_max_size 0, mp_index = 0, mp_flag = 0, mp_msgLen = 0\<rparr>"

definition msgPool_reset :: "msgPool \<Rightarrow> msgPool" where
  "msgPool_reset p = p\<lparr>mp_start := 0, mp_end := 0, mp_index := 0, mp_msgLen := 0, mp_flag := 0\<rparr>"

text \<open>The manager keeps pools that were released; when it has none it makes one.\<close>

record msgPoolMgr =
  mgr_poolLen :: nat
  mgr_pools :: "msgPool list"

definition new_msgPoolMgr :: msgPoolMgr where
  "new_msgPoolMgr = \<lparr>mgr_poolLen = default_poollen, mgr_pools = []\<rparr>"

definition msgPoolMgr_GetMe :: "msgPoolMgr option \<Rightarrow> msgPoolMgr" where
  "msgPoolMgr_GetMe mgr = (case mgr of None \<Rightarrow> new_msgPoolMgr | Some m \<Rightarrow> m)"

definition getMsgPool :: "msgPoolMgr \<Rightarrow> msgPool \<times> msgPoolMgr" where
  "getMsgPool m = (case mgr_pools m of [] \<Rightarrow> (new_msgPool, m) | p # ps \<Rightarrow> (p, m\<lparr>mgr_pools := ps\<rparr>))"

definition releaseMsgPool :: "msgPoolMgr \<Rightarrow> msgPool option \<Rightarrow> msgPoolMgr" where
  "releaseMsgPool m pool = (case pool of
     None \<Rightarrow> m
   | Some p \<Rightarrow> if mp_poolLen p \<noteq> mgr_poolLen m then m else m\<lparr>mgr_pools := msgPool_reset p # mgr_pools m\<rparr>)"

section \<open>Sending\<close>

definition addSendIndex :: "msgPool \<Rightarrow> nat \<Rightarrow> msgPool" where
  "addSendIndex p sendLen = p\<lparr>mp_start := mp_start p + of_nat sendLen\<rparr>"

definition getSendMsgBuff :: "msgPool \<Rightarrow> (bytes option \<times> bool) option" where
  "getSendMsgBuff p =
     (if mp_start p = mp_end p then Some (None, False)
      else if unat (mp_end p - mp_start p) > mp_poolLen p then Some (None, True)
      else if mp_poolLen p = 0 then None
      else let sIndex = unat (mp_start p) mod mp_poolLen p; eIndex = unat (mp_end p) mod mp_poolLen p in
        if sIndex > eIndex then map_option (\<lambda>bs. (Some bs, False)) (slice_from (mp_pool p) sIndex)
        else map_option (\<lambda>bs. (Some bs, False)) (slice (mp_pool p) sIndex eIndex))"

text \<open>The header, which may run over the end of the storage, and the index of the byte after it.\<close>

definition put_header :: "nat \<Rightarrow> bytes \<Rightarrow> nat \<Rightarrow> nat \<Rightarrow> byte \<Rightarrow> (bytes \<times> nat) option" where
  "put_header poolLen pool index buffLen flag =
     (let b0 = of_nat buffLen; b1 = of_nat (drop_bit 8 buffLen); b2 = of_nat (drop_bit 16 buffLen) in
      if index + 4 \<le> poolLen then do {
        pool \<leftarrow> set_at pool index b0; pool \<leftarrow> set_at pool (index + 1) b1;
        pool \<leftarrow> set_at pool (index + 2) b2; pool \<leftarrow> set_at pool (index + 3) flag;
        Some (pool, if index + 4 = poolLen then 0 else index + 4)
      } else if index + 1 = poolLen then do {
        pool \<leftarrow> set_at pool (poolLen - 1) b0; pool \<leftarrow> set_at pool 0 b1;
        pool \<leftarrow> set_at pool 1 b2; pool \<leftarrow> set_at pool 2 flag;
        Some (pool, 3)
      } else if index + 2 = poolLen then do {
        pool \<leftarrow> set_at pool (poolLen - 2) b0; pool \<leftarrow> set_at pool (poolLen - 1) b1;
        pool \<leftarrow> set_at pool 0 b2; pool \<leftarrow> set_at pool 1 flag;
        Some (pool, 2)
      } else if index + 3 = poolLen then do {
        pool \<leftarrow> set_at pool (poolLen - 3) b0; pool \<leftarrow> set_at pool (poolLen - 2) b1;
        pool \<leftarrow> set_at pool (poolLen - 1) b2; pool \<leftarrow> set_at pool 0 flag;
        Some (pool, 1)
      } else Some (pool, index))"

definition addSendMsg :: "msgPool \<Rightarrow> bytes \<Rightarrow> byte \<Rightarrow> (msgPool \<times> bool) option" where
  "addSendMsg p buff flag =
     (let buffLen = length buff; poolLen = mp_poolLen p in
      if buffLen > cmd_max_size then Some (p, False)
      else if poolLen = 0 then None
      else do {
        (pool, index) \<leftarrow> put_header poolLen (mp_pool p) (unat (mp_end p) mod poolLen) buffLen flag;
        pool \<leftarrow> (if buffLen > poolLen - index then do {
            front \<leftarrow> slice buff 0 (poolLen - index);
            pool \<leftarrow> copy_at pool index front;
            back \<leftarrow> slice_from buff (poolLen - index);
            copy_at pool 0 back
          } else copy_at pool index buff);
        Some (p\<lparr>mp_pool := pool, mp_index := index, mp_end := mp_end p + of_nat (buffLen + 4)\<rparr>, True)
      })"

section \<open>Receiving\<close>

definition head_len :: "byte \<Rightarrow> byte \<Rightarrow> byte \<Rightarrow> 64 word" where
  "head_len a b c = ucast a OR push_bit 8 (ucast b) OR push_bit 16 (ucast c)"

text \<open>The slice to fill and the least number of bytes to receive.\<close>

definition recv_section :: "msgPool \<Rightarrow> (nat option \<times> int) \<times> msgPool" where
  "recv_section p =
     (if mp_msgLen p \<noteq> 0 \<and> mp_end p - mp_start p \<ge> mp_msgLen p + of_nat cmd_header_size then ((None, 0), p)
      else let msgLen = mp_msgLen p + of_nat cmd_header_size;
          poolLen = of_nat (mp_poolLen p);
          sIndex = mp_start p mod poolLen;
          eIndex = mp_end p mod poolLen;
          leftLen = msgLen - mp_end p + mp_start p in
        if sIndex + msgLen \<le> poolLen then ((Some (unat eIndex), sint leftLen), p)
        else if eIndex + leftLen \<ge> poolLen then ((Some (unat eIndex), sint (poolLen - eIndex)), p)
        else ((Some (unat eIndex), sint leftLen), p))"

definition getRecvBuff :: "msgPool \<Rightarrow> ((nat option \<times> int) \<times> msgPool) option" where
  "getRecvBuff p =
     (if mp_end p = 0 then Some ((Some 0, int cmd_header_size), p)
      else if mp_poolLen p = 0 then None
      else if mp_msgLen p = 0 \<and> mp_end p - mp_start p \<ge> of_nat cmd_header_size then do {
        a \<leftarrow> index_at (mp_pool p) (unat (mp_start p) mod mp_poolLen p);
        b \<leftarrow> index_at (mp_pool p) (unat (mp_start p + 1) mod mp_poolLen p);
        c \<leftarrow> index_at (mp_pool p) (unat (mp_start p + 2) mod mp_poolLen p);
        let p = p\<lparr>mp_msgLen := head_len a b c\<rparr> in
        if mp_msgLen p > of_nat cmd_max_size then Some ((None, 0), p) else Some (recv_section p)
      } else Some (recv_section p))"

text \<open>
  A message that runs over the end of the storage is put together in \<open>tmpPool\<close>, of which \<open>msgLen\<close> bytes are
  returned, after \<open>msgLen\<close> was set to zero.
\<close>

definition take_msg :: "msgPool \<Rightarrow> nat \<Rightarrow> nat \<Rightarrow> ((bytes option \<times> byte) \<times> msgPool) option" where
  "take_msg p startIndex endIndex =
     (let h = cmd_header_size;
          p1 = p\<lparr>mp_start := mp_start p + (mp_msgLen p + of_nat cmd_header_size), mp_msgLen := 0\<rparr> in
      if startIndex + h > endIndex then
        (if startIndex + h \<le> mp_poolLen p then if unat (mp_msgLen p) < mp_poolLen p - startIndex - h then None else do {
           flag \<leftarrow> index_at (mp_pool p) (startIndex + h - 1);
           front \<leftarrow> slice_from (mp_pool p) (startIndex + h);
           tmp \<leftarrow> copy_at (mp_tmpPool p) 0 front;
           back \<leftarrow> slice (mp_pool p) 0 (unat (mp_msgLen p) - (mp_poolLen p - startIndex - h));
           tmp \<leftarrow> copy_at tmp (mp_poolLen p - startIndex - h) back;
           msg \<leftarrow> slice tmp 0 (unat (mp_msgLen p1));
           Some ((Some msg, flag), p1\<lparr>mp_tmpPool := tmp, mp_flag := flag\<rparr>)
         } else do {
           flag \<leftarrow> index_at (mp_pool p) (h - (mp_poolLen p - startIndex) - 1);
           msg \<leftarrow> slice (mp_pool p) (h - (mp_poolLen p - startIndex)) endIndex;
           Some ((Some msg, flag), p1\<lparr>mp_flag := flag\<rparr>)
         })
      else do {
        msg \<leftarrow> slice (mp_pool p) (startIndex + h) endIndex;
        flag \<leftarrow> index_at (mp_pool p) (startIndex + h - 1);
        Some ((Some msg, flag), p1)
      })"

definition getRecvMsg :: "msgPool \<Rightarrow> ((bytes option \<times> byte) \<times> msgPool) option" where
  "getRecvMsg p =
     (if mp_end p - mp_start p < mp_msgLen p + of_nat cmd_header_size \<or> mp_start p > mp_end p then Some ((None, 0), p)
      else if mp_msgLen p = 0 \<and> mp_end p < mp_start p + of_nat cmd_header_size then Some ((None, 0), p)
      else if mp_msgLen p = 0 then Some ((None, 0), p)
      else if mp_msgLen p > of_nat cmd_max_size then Some ((None, 0), p)
      else if mp_poolLen p = 0 then None
      else take_msg p (unat (mp_start p) mod mp_poolLen p) (unat (mp_start p + mp_msgLen p + of_nat cmd_header_size) mod mp_poolLen p))"

definition addRecvIndex :: "msgPool \<Rightarrow> nat \<Rightarrow> (bool \<times> msgPool) option" where
  "addRecvIndex p k =
     (let p = p\<lparr>mp_end := mp_end p + of_nat k\<rparr> in
      if unat (mp_end p - mp_start p) > mp_poolLen p then Some (False, p)
      else if mp_start p = 0 \<and> mp_end p < of_nat cmd_header_size then Some (False, p)
      else do {
        p \<leftarrow> (if mp_start p = 0 then do {
            a \<leftarrow> index_at (mp_pool p) 0; b \<leftarrow> index_at (mp_pool p) 1; c \<leftarrow> index_at (mp_pool p) 2;
            Some (p\<lparr>mp_msgLen := head_len a b c\<rparr>)
          } else Some p);
        Some (mp_msgLen p \<le> of_nat cmd_max_size, p)
      })"

section \<open>The bytes a ring stands for\<close>

definition msgPool_inv :: "msgPool \<Rightarrow> bool" where
  "msgPool_inv p \<longleftrightarrow> (\<exists>k. 2 \<le> k \<and> k \<le> 63 \<and> mp_poolLen p = 2 ^ k) \<and> length (mp_pool p) = mp_poolLen p \<and>
     length (mp_tmpPool p) = cmd_max_size \<and> unat (mp_end p - mp_start p) \<le> mp_poolLen p"

definition waiting :: "msgPool \<Rightarrow> bytes" where
  "waiting p = ring_read (mp_pool p) (unat (mp_start p)) (unat (mp_end p - mp_start p))"

definition msg_frame :: "bytes \<Rightarrow> byte \<Rightarrow> bytes" where
  "msg_frame msg flag =
     [of_nat (length msg), of_nat (drop_bit 8 (length msg)), of_nat (drop_bit 16 (length msg)), flag] @ msg"

lemma length_waiting [simp]: "length (waiting p) = unat (mp_end p - mp_start p)"
  by (simp add: waiting_def)

lemma ring_write_cong_mod: "s mod length xs = t mod length xs \<Longrightarrow> ring_write xs s ys = ring_write xs t ys"
proof (induction xs s ys arbitrary: t rule: ring_write.induct)
  case (2 xs s y ys)
  have "Suc s mod length xs = Suc t mod length xs"
    using 2(2) by (metis mod_Suc_eq)
  then show ?case
    using 2 by simp
qed simp

lemma ring_write_append: "ring_write xs s (ys @ zs) = ring_write (ring_write xs s ys) (s + length ys) zs"
  by (induction xs s ys rule: ring_write.induct) simp_all

lemma ring_write_contiguous:
  assumes "s + length ys \<le> length xs"
  shows "ring_write xs s ys = take s xs @ ys @ drop (s + length ys) xs"
  using assms
proof (induction xs s ys rule: ring_write.induct)
  case (2 xs s y ys)
  then have "s mod length xs = s" by simp
  with 2 show ?case
    by (simp add: take_Suc_conv_app_nth take_update_cancel)
qed simp

lemma ring_write_four:
  "ring_write xs i [a, b, c, d] =
    xs[i mod length xs := a, (i + 1) mod length xs := b, (i + 2) mod length xs := c, (i + 3) mod length xs := d]"
  by (simp add: numeral_2_eq_2 numeral_3_eq_3)

lemma put_header_ring:
  assumes "length pool = n" "4 \<le> n" "i < n"
  shows "put_header n pool i len flag =
    Some (ring_write pool i [of_nat len, of_nat (drop_bit 8 len), of_nat (drop_bit 16 len), flag], (i + 4) mod n)"
proof -
  have w: "(n + j) mod n = j" if "j < n" for j
    using that by simp
  have ne: "pool \<noteq> []" "1 < n" "2 < n" "3 < n" "0 < n"
    using assms by auto
  consider "i + 4 < n" | "i + 4 = n" | "i + 1 = n" | "i + 2 = n" | "i + 3 = n"
    using assms(3) by linarith
  then show ?thesis
  proof cases
    case 1
    then have m: "i mod n = i" "(i + 1) mod n = i + 1" "(i + 2) mod n = i + 2" "(i + 3) mod n = i + 3" "(i + 4) mod n = i + 4"
      by simp_all
    show ?thesis
      unfolding ring_write_four assms(1) m using 1 assms by (simp add: put_header_def set_at_def)
  next
    case 2
    then have m: "i mod n = i" "(i + 1) mod n = i + 1" "(i + 2) mod n = i + 2" "(i + 3) mod n = i + 3" "(i + 4) mod n = 0"
      by auto
    have c: "i < n" "i + 1 < n" "i + 2 < n" "i + 3 < n" "(i + 4 \<le> n) = True" "(i + 4 = n) = True"
      using 2 by simp_all
    show ?thesis
      unfolding ring_write_four assms(1) m
      by (simp only: put_header_def set_at_def Let_def c assms(1) if_True length_list_update bind.bind_lunit)
  next
    case 3
    then have e: "i + 2 = n + 1" "i + 3 = n + 2" "i + 4 = n + 3"
      by linarith+
    have "i mod n = n - 1" "(i + 1) mod n = 0"
      using 3 assms(3) by auto
    note m = this w [OF ne(2), folded e(1)] w [OF ne(3), folded e(2)] w [OF ne(4), folded e(3)]
    have c: "(i + 4 \<le> n) = False" "(i + 1 = n) = True" "n - 1 < n"
      using 3 ne by auto
    show ?thesis
      unfolding ring_write_four assms(1) m
      by (simp only: put_header_def set_at_def Let_def c ne assms(1) if_True if_False length_list_update bind.bind_lunit)
  next
    case 4
    then have e: "i + 3 = n + 1" "i + 4 = n + 2"
      by linarith+
    have "i mod n = n - 2" "(i + 1) mod n = n - 1" "(i + 2) mod n = 0"
      using 4 assms(3) by auto
    note m = this w [OF ne(2), folded e(1)] w [OF ne(3), folded e(2)]
    have c: "(i + 4 \<le> n) = False" "(i + 1 = n) = False" "(i + 2 = n) = True" "n - 1 < n" "n - 2 < n"
      using 4 ne by auto
    show ?thesis
      unfolding ring_write_four assms(1) m
      by (simp only: put_header_def set_at_def Let_def c ne assms(1) if_True if_False length_list_update bind.bind_lunit)
  next
    case 5
    then have e: "i + 4 = n + 1"
      by linarith
    have "i mod n = n - 3" "(i + 1) mod n = n - 2" "(i + 2) mod n = n - 1" "(i + 3) mod n = 0"
      using 5 assms(3) by auto
    note m = this w [OF ne(2), folded e]
    have c: "(i + 4 \<le> n) = False" "(i + 1 = n) = False" "(i + 2 = n) = False" "(i + 3 = n) = True" "n - 1 < n" "n - 2 < n" "n - 3 < n"
      using 5 ne by auto
    show ?thesis
      unfolding ring_write_four assms(1) m
      by (simp only: put_header_def set_at_def Let_def c ne assms(1) if_True if_False length_list_update bind.bind_lunit)
  qed
qed

lemma msgPool_invD:
  assumes "msgPool_inv p"
  shows "4 \<le> mp_poolLen p" "length (mp_pool p) = mp_poolLen p" "unat (mp_end p - mp_start p) \<le> mp_poolLen p"
    "unat (x + of_nat n :: 64 word) mod mp_poolLen p = (unat x + n) mod mp_poolLen p" "mp_poolLen p < 2 ^ 64"
    "length (mp_tmpPool p) = cmd_max_size"
proof -
  obtain k where k: "2 \<le> k" "k \<le> 63" "mp_poolLen p = 2 ^ k"
    using assms by (auto simp: msgPool_inv_def)
  show "4 \<le> mp_poolLen p"
    using power_increasing [OF k(1), of "2::nat"] k(3) by simp
  show "unat (x + of_nat n :: 64 word) mod mp_poolLen p = (unat x + n) mod mp_poolLen p"
    unfolding k(3) using k(2) by (intro unat_add_of_nat_mod) simp
  show "mp_poolLen p < 2 ^ 64"
    unfolding k(3) using k(2) by (intro power_strict_increasing) simp_all
qed (use assms in \<open>simp_all add: msgPool_inv_def\<close>)

lemma end_mod:
  assumes "msgPool_inv p"
  shows "unat (mp_end p) mod mp_poolLen p = (unat (mp_start p) + unat (mp_end p - mp_start p)) mod mp_poolLen p"
  using msgPool_invD(4) [OF assms, of "mp_start p" "unat (mp_end p - mp_start p)"] by simp

lemma copy_ring:
  assumes "length xs = n" "i < n" "length ys \<le> n"
  shows "(if length ys > n - i then do {
      front \<leftarrow> slice ys 0 (n - i); xs \<leftarrow> copy_at xs i front; back \<leftarrow> slice_from ys (n - i); copy_at xs 0 back
    } else copy_at xs i ys) = Some (ring_write xs i ys)"
proof (cases "length ys > n - i")
  case True
  let ?xs = "take i xs @ take (n - i) ys"
  have "ring_write xs i (take (n - i) ys) = ?xs"
    using assms True by (simp add: ring_write_contiguous)
  moreover have "ring_write xs i ys = ring_write (ring_write xs i (take (n - i) ys)) (i + length (take (n - i) ys)) (drop (n - i) ys)"
    unfolding ring_write_append [symmetric] by simp
  moreover have "ring_write ?xs (i + length (take (n - i) ys)) (drop (n - i) ys) = ring_write ?xs 0 (drop (n - i) ys)"
    using assms True by (intro ring_write_cong_mod) simp
  ultimately have "ring_write xs i ys = ring_write ?xs 0 (drop (n - i) ys)"
    by simp
  also have "\<dots> = drop (n - i) ys @ drop (length ys - (n - i)) ?xs"
    using assms True by (subst ring_write_contiguous) simp_all
  finally show ?thesis
    using assms True by (simp add: slice_simps copy_at_def)
next
  case False
  then show ?thesis
    using assms by (simp add: slice_simps ring_write_contiguous)
qed

lemma addSendMsg_ring:
  assumes "msgPool_inv p" "length msg \<le> cmd_max_size" "length msg + 4 \<le> mp_poolLen p"
  shows "addSendMsg p msg flag = Some (p\<lparr>mp_pool := ring_write (mp_pool p) (unat (mp_end p)) (msg_frame msg flag),
      mp_index := (unat (mp_end p) + 4) mod mp_poolLen p, mp_end := mp_end p + of_nat (length msg + 4)\<rparr>, True)"
proof -
  let ?n = "mp_poolLen p" and ?i = "unat (mp_end p) mod mp_poolLen p"
  let ?h = "[of_nat (length msg), of_nat (drop_bit 8 (length msg)), of_nat (drop_bit 16 (length msg)), flag]"
  note inv = msgPool_invD [OF assms(1)]
  have i: "?i < ?n" "0 < ?n"
    using inv(1) by simp_all
  have h: "put_header ?n (mp_pool p) ?i (length msg) flag = Some (ring_write (mp_pool p) ?i ?h, (?i + 4) mod ?n)"
    using inv(1,2) i by (intro put_header_ring) simp_all
  have i4: "(?i + 4) mod ?n = (unat (mp_end p) + 4) mod ?n"
    by (simp add: mod_add_left_eq)
  have l: "length ?h = 4"
    by simp
  have "ring_write (ring_write (mp_pool p) ?i ?h) ((?i + 4) mod ?n) msg = ring_write (ring_write (mp_pool p) ?i ?h) (?i + length ?h) msg"
    unfolding l using inv(2) by (intro ring_write_cong_mod) simp
  also have "\<dots> = ring_write (mp_pool p) ?i (msg_frame msg flag)"
    unfolding msg_frame_def ring_write_append ..
  also have "\<dots> = ring_write (mp_pool p) (unat (mp_end p)) (msg_frame msg flag)"
    using inv(2) by (intro ring_write_cong_mod) simp
  finally have w: "ring_write (ring_write (mp_pool p) ?i ?h) ((?i + 4) mod ?n) msg = ring_write (mp_pool p) (unat (mp_end p)) (msg_frame msg flag)" .
  have "addSendMsg p msg flag = do {
      pool \<leftarrow> Some (ring_write (ring_write (mp_pool p) ?i ?h) ((?i + 4) mod ?n) msg);
      Some (p\<lparr>mp_pool := pool, mp_index := (?i + 4) mod ?n, mp_end := mp_end p + of_nat (length msg + 4)\<rparr>, True)}"
    unfolding addSendMsg_def Let_def h bind.bind_lunit prod.case
    using assms(2,3) i inv(2) by (subst copy_ring) simp_all
  then show ?thesis
    unfolding i4 w [unfolded i4] by (simp only: bind.bind_lunit)
qed

lemma unat_plus_of_nat: "unat d + m < 2 ^ 64 \<Longrightarrow> unat (d + of_nat m :: 64 word) = unat d + m"
  by (simp add: unat_word_ariths unat_of_nat)

lemma addSendMsg_waiting:
  assumes "msgPool_inv p" "length msg \<le> cmd_max_size" "length (waiting p) + length msg + 4 \<le> mp_poolLen p"
  shows "\<exists>p'. addSendMsg p msg flag = Some (p', True) \<and> msgPool_inv p' \<and> waiting p' = waiting p @ msg_frame msg flag"
proof -
  let ?n = "unat (mp_end p - mp_start p)" and ?s = "unat (mp_start p)"
  let ?p' = "p\<lparr>mp_pool := ring_write (mp_pool p) (unat (mp_end p)) (msg_frame msg flag),
      mp_index := (unat (mp_end p) + 4) mod mp_poolLen p, mp_end := mp_end p + of_nat (length msg + 4)\<rparr>"
  note inv = msgPool_invD [OF assms(1)]
  have f: "length (msg_frame msg flag) = length msg + 4"
    by (simp add: msg_frame_def)
  have "mp_end p + of_nat (length msg + 4) - mp_start p = (mp_end p - mp_start p) + of_nat (length msg + 4)"
    by simp
  also have "unat \<dots> = ?n + (length msg + 4)"
    using assms(3) inv(5) by (intro unat_plus_of_nat) simp
  finally have n: "unat (mp_end p + of_nat (length msg + 4) - mp_start p) = ?n + (length msg + 4)" .
  have w: "ring_write (mp_pool p) (unat (mp_end p)) (msg_frame msg flag) = ring_write (mp_pool p) (?s + ?n) (msg_frame msg flag)"
    using end_mod [OF assms(1)] inv(2) by (intro ring_write_cong_mod) simp
  have "waiting ?p' = ring_read (ring_write (mp_pool p) (?s + ?n) (msg_frame msg flag)) ?s (?n + length (msg_frame msg flag))"
    using n by (simp add: waiting_def w f)
  also have "\<dots> = waiting p @ msg_frame msg flag"
    unfolding waiting_def using assms(3) inv(2) f by (intro ring_read_write) simp
  finally have "waiting ?p' = waiting p @ msg_frame msg flag" .
  moreover have "msgPool_inv ?p'"
    using assms(1,3) n by (simp add: msgPool_inv_def)
  ultimately show ?thesis
    using addSendMsg_ring [of p msg flag] assms by auto
qed

lemma getSendMsgBuff_waiting:
  assumes "msgPool_inv p" "waiting p \<noteq> []" "length (waiting p) < mp_poolLen p"
  shows "\<exists>k > 0. getSendMsgBuff p = Some (Some (take k (waiting p)), False) \<and> k \<le> length (waiting p)"
proof -
  note inv = msgPool_invD [OF assms(1)]
  let ?P = "mp_poolLen p" and ?n = "unat (mp_end p - mp_start p)" and ?i = "unat (mp_start p) mod mp_poolLen p"
  let ?k = "min ?n (?P - ?i)"
  have n: "0 < ?n" "?n < ?P"
    using assms(2,3) by (simp_all flip: length_greater_0_conv)
  have i: "?i < ?P" "mp_pool p \<noteq> []" "0 < ?P"
    using inv(1,2) by auto
  have le: "?i + ?k \<le> ?P"
    using i(1) by linarith
  have k: "take ?k (waiting p) = take ?k (drop ?i (mp_pool p))"
    using le i inv(2) ring_read_contiguous [of "unat (mp_start p)" "mp_pool p" ?k] by (simp add: waiting_def take_ring_read)
  have e: "unat (mp_end p) mod ?P = (?i + ?n) mod ?P"
    by (simp add: end_mod [OF assms(1)] mod_add_left_eq)
  have ne: "mp_start p \<noteq> mp_end p"
    using n by auto
  have "getSendMsgBuff p = Some (Some (take ?k (waiting p)), False)"
  proof (cases "?i + ?n < ?P")
    case True
    then have "unat (mp_end p) mod ?P = ?i + ?n" using e by simp
    then show ?thesis
      unfolding k using True ne n i inv(2) by (simp add: getSendMsgBuff_def Let_def slice_def)
  next
    case False
    then have "unat (mp_end p) mod ?P = ?i + ?n - ?P"
      unfolding e using False n i(1) by (intro mod_once) linarith+
    then have "unat (mp_end p) mod ?P < ?i"
      using False n by linarith
    then show ?thesis
      unfolding k using False ne n i inv(2) by (simp add: getSendMsgBuff_def Let_def slice_from_def)
  qed
  then show ?thesis
    using n i by (intro exI [of _ ?k]) simp
qed

lemma getSendMsgBuff_full:
  assumes "msgPool_inv p" "length (waiting p) = mp_poolLen p"
  shows "getSendMsgBuff p = Some (Some [], False)"
proof -
  note inv = msgPool_invD [OF assms(1)]
  have "unat (mp_end p) mod mp_poolLen p = unat (mp_start p) mod mp_poolLen p"
    using end_mod [OF assms(1)] assms(2) by simp
  moreover have "mp_start p \<noteq> mp_end p" "unat (mp_start p) mod mp_poolLen p < mp_poolLen p"
    using assms(2) inv(1) by auto
  ultimately show ?thesis
    using assms(2) inv(1,2) by (simp add: getSendMsgBuff_def Let_def slice_def)
qed

lemma addSendIndex_waiting:
  assumes "msgPool_inv p" "k \<le> length (waiting p)"
  shows "msgPool_inv (addSendIndex p k) \<and> waiting (addSendIndex p k) = drop k (waiting p)"
proof -
  note inv = msgPool_invD [OF assms(1)]
  let ?n = "unat (mp_end p - mp_start p)"
  have k: "unat (of_nat k :: 64 word) = k"
    using assms(2) unat_bound64 [of "mp_end p - mp_start p"] by (simp add: unat_of_nat)
  have "mp_end p - (mp_start p + of_nat k) = (mp_end p - mp_start p) - of_nat k"
    by simp
  also have "unat \<dots> = ?n - k"
    using assms(2) k by (subst unat_sub) (simp_all add: word_le_nat_alt)
  finally have n: "unat (mp_end p - (mp_start p + of_nat k)) = ?n - k" .
  have "ring_read (mp_pool p) (unat (mp_start p + of_nat k)) (?n - k) = ring_read (mp_pool p) (unat (mp_start p) + k) (?n - k)"
    using inv(2,4) by (intro ring_read_cong_mod) simp
  then show ?thesis
    using n assms(1) by (auto simp: addSendIndex_def waiting_def drop_ring_read msgPool_inv_def)
qed

lemma getRecvMsg_guards:
  assumes "msgPool_inv p" "mp_start p \<le> mp_end p" "waiting p = msg_frame msg flag @ rest"
    and "mp_msgLen p = of_nat (length msg)" "0 < length msg" "length msg \<le> cmd_max_size"
  shows "\<not> (mp_end p - mp_start p < mp_msgLen p + of_nat cmd_header_size \<or> mp_start p > mp_end p)" "mp_msgLen p \<noteq> 0"
    "\<not> mp_msgLen p > of_nat cmd_max_size" "unat (mp_msgLen p) = length msg"
    "unat (mp_start p + mp_msgLen p + of_nat cmd_header_size) mod mp_poolLen p =
      (unat (mp_start p) mod mp_poolLen p + (length msg + 4)) mod mp_poolLen p"
    "unat (mp_end p - mp_start p) = length msg + 4 + length rest"
proof -
  note inv = msgPool_invD [OF assms(1)]
  show n: "unat (mp_end p - mp_start p) = length msg + 4 + length rest"
    using arg_cong [OF assms(3), of length] by (simp add: msg_frame_def)
  show u: "unat (mp_msgLen p) = length msg"
    using assms(4,6) by (simp add: unat_of_nat cmd_max_size_def)
  then show "mp_msgLen p \<noteq> 0"
    using assms(5) by auto
  have "unat (of_nat cmd_max_size :: 64 word) = cmd_max_size"
    by (simp add: cmd_max_size_def)
  then show "\<not> mp_msgLen p > of_nat cmd_max_size"
    using u assms(6) by (simp add: word_less_nat_alt)
  have e: "mp_msgLen p + of_nat cmd_header_size = of_nat (length msg + 4)"
    by (simp add: assms(4) cmd_header_size_def)
  have "unat (of_nat (length msg + 4) :: 64 word) = length msg + 4"
    using n unat_bound64 [of "mp_end p - mp_start p"] unat_plus_of_nat [of 0 "length msg + 4"] by simp
  then show "\<not> (mp_end p - mp_start p < mp_msgLen p + of_nat cmd_header_size \<or> mp_start p > mp_end p)"
    unfolding e using n assms(2) by (simp only: word_less_nat_alt) (simp add: word_le_nat_alt)
  show "unat (mp_start p + mp_msgLen p + of_nat cmd_header_size) mod mp_poolLen p =
      (unat (mp_start p) mod mp_poolLen p + (length msg + 4)) mod mp_poolLen p"
    unfolding add.assoc e inv(4) by (simp add: mod_add_left_eq)
qed

lemma waiting_frame:
  assumes "waiting p = msg_frame msg flag @ rest"
  shows "ring_read (mp_pool p) (unat (mp_start p) + 4) (length msg) = msg"
    "mp_pool p ! ((unat (mp_start p) + 3) mod length (mp_pool p)) = flag"
    "ring_read (mp_pool p) (unat (mp_start p) + (length msg + 4)) (length rest) = rest"
proof -
  have n: "unat (mp_end p - mp_start p) = length msg + 4 + length rest"
    using arg_cong [OF assms, of length] by (simp add: msg_frame_def)
  have "take (length msg) (drop 4 (waiting p)) = msg"
    by (simp add: assms msg_frame_def)
  then show "ring_read (mp_pool p) (unat (mp_start p) + 4) (length msg) = msg"
    using n by (simp add: waiting_def drop_ring_read take_ring_read)
  have "waiting p ! 3 = flag"
    by (simp add: assms msg_frame_def numeral_3_eq_3)
  then show "mp_pool p ! ((unat (mp_start p) + 3) mod length (mp_pool p)) = flag"
    using n by (simp add: waiting_def ring_read_def)
  have "length (msg_frame msg flag) = length msg + 4"
    by (simp add: msg_frame_def)
  then have "drop (length msg + 4) (waiting p) = rest"
    by (simp add: assms)
  then show "ring_read (mp_pool p) (unat (mp_start p) + (length msg + 4)) (length rest) = rest"
    using n by (simp add: waiting_def drop_ring_read)
qed

lemma copy_at_length: "off \<le> n \<Longrightarrow> length dst = n \<Longrightarrow> \<exists>t. copy_at dst off src = Some t \<and> length t = n"
  by (simp add: copy_at_def)

lemma getRecvMsg_spec:
  assumes "msgPool_inv p" "mp_start p \<le> mp_end p" "waiting p = msg_frame msg flag @ rest"
    and "mp_msgLen p = of_nat (length msg)" "0 < length msg" "length msg \<le> cmd_max_size"
  defines "i \<equiv> unat (mp_start p) mod mp_poolLen p"
  shows "\<exists>tmp f. getRecvMsg p = Some ((Some (if i + 4 \<le> mp_poolLen p \<and> mp_poolLen p \<le> i + 4 + length msg then [] else msg), flag),
    p\<lparr>mp_start := mp_start p + of_nat (length msg + 4), mp_msgLen := 0, mp_tmpPool := tmp, mp_flag := f\<rparr>) \<and> length tmp = cmd_max_size"
proof -
  note inv = msgPool_invD [OF assms(1)] and g = getRecvMsg_guards [OF assms(1-6)] and w = waiting_frame [OF assms(3)]
  let ?P = "mp_poolLen p" and ?L = "length msg"
  have P: "0 < ?P" "i < ?P" "?L + 4 \<le> ?P" "mp_pool p \<noteq> []"
    using inv(1,2,3) g(6) by (auto simp: i_def)
  have s: "mp_start p + (mp_msgLen p + of_nat cmd_header_size) = mp_start p + of_nat (?L + 4)"
    by (simp add: assms(4) cmd_header_size_def)
  have fl: "mp_pool p ! ((i + 3) mod ?P) = flag"
    using w(2) inv(2) by (simp add: i_def mod_add_left_eq)
  have rd: "ring_read (mp_pool p) (i + 4) ?L = msg"
    using w(1) ring_read_cong_mod [of "i + 4" "mp_pool p" "unat (mp_start p) + 4" ?L] inv(2) by (simp add: i_def mod_add_left_eq)
  have g0: "getRecvMsg p = take_msg p i ((i + (?L + 4)) mod ?P)"
    using g(1,2,3) P(1) unfolding getRecvMsg_def g(5) i_def by simp
  consider "i + 4 + ?L < ?P" | "i + 4 \<le> ?P" "?P \<le> i + 4 + ?L" | "?P < i + 4"
    by linarith
  then show ?thesis
  proof cases
    case 1
    then have "(i + (?L + 4)) mod ?P = i + 4 + ?L" "(i + 3) mod ?P = i + 3" "(i + 4) mod ?P = i + 4"
      by simp_all
    moreover from this have "take ?L (drop (i + 4) (mp_pool p)) = msg"
      using rd ring_read_contiguous [of "i + 4" "mp_pool p" ?L] 1 inv(2) P by simp
    ultimately show ?thesis
      unfolding g0 take_msg_def s Let_def using 1 P fl inv(2,6)
      by (intro exI [of _ "mp_tmpPool p"] exI [of _ "mp_flag p"]) (simp add: cmd_header_size_def slice_def index_at_def add.commute [of 3 i])
  next
    case 2
    then have e: "(i + (?L + 4)) mod ?P = i + (?L + 4) - ?P" "(i + 3) mod ?P = i + 3"
      using P by (simp_all add: mod_once)
    obtain t1 where t1: "copy_at (mp_tmpPool p) 0 (drop (i + 4) (mp_pool p)) = Some t1" "length t1 = cmd_max_size"
      using copy_at_length [OF _ inv(6), of 0] by blast
    have le: "?P - i - 4 \<le> cmd_max_size"
      using 2 assms(6) by linarith
    let ?b = "take (?L - (?P - i - 4)) (mp_pool p)"
    obtain t2 where t2: "copy_at t1 (?P - i - 4) ?b = Some t2" "length t2 = cmd_max_size"
      using copy_at_length [OF le t1(2)] by blast
    show ?thesis
      unfolding g0 take_msg_def s Let_def e g(4) using 2 P fl e(2) inv(2) t1(1) t2
      by (intro exI [of _ t2] exI [of _ flag]) (simp add: cmd_header_size_def slice_def slice_from_def index_at_def add.commute [of 3 i], arith)
  next
    case 3
    then have e: "(i + (?L + 4)) mod ?P = i + (?L + 4) - ?P" "(i + 3) mod ?P = i + 3 - ?P" "(i + 4) mod ?P = i + 4 - ?P"
      using P by (simp_all add: mod_once)
    moreover have "take ?L (drop (i + 4 - ?P) (mp_pool p)) = msg"
      using rd ring_read_contiguous [of "i + 4" "mp_pool p" ?L] 3 inv(2) P e(3) by simp
    moreover have "4 - (?P - i) = i + 4 - ?P" "4 - (?P - i) - 1 = i + 3 - ?P"
      using 3 P by linarith+
    moreover have "i + 4 - ?P \<le> i + (?L + 4) - ?P" "i + (?L + 4) - ?P \<le> ?P" "i + 3 - ?P < ?P"
      using 3 P by linarith+
    ultimately show ?thesis
      unfolding g0 take_msg_def s Let_def using 3 P fl inv(2,6)
      by (intro exI [of _ "mp_tmpPool p"] exI [of _ flag]) (simp add: cmd_header_size_def slice_def index_at_def add.commute [of 3 i])
  qed
qed

text \<open>
  C17.  The ring sends what was put into it, in order, also when frames run over the end of the storage and when the counters
  wrap around at \<open>2^64\<close>.  A message that fits the free space is appended as a frame of its length, its flag and its bytes.  While bytes
  wait, \<open>getSendMsgBuff\<close> gives some of the first of them, and \<open>addSendIndex\<close> removes those that were sent; but a
  ring that is exactly full gives no byte, and a sender stays where it is.
\<close>

theorem msgPool_sends_in_order:
  assumes "msgPool_inv p"
  shows "(\<forall>msg flag. length msg \<le> cmd_max_size \<longrightarrow> length (waiting p) + length msg + 4 \<le> mp_poolLen p \<longrightarrow>
      (\<exists>p'. addSendMsg p msg flag = Some (p', True) \<and> msgPool_inv p' \<and> waiting p' = waiting p @ msg_frame msg flag)) \<and>
    (waiting p \<noteq> [] \<longrightarrow> length (waiting p) < mp_poolLen p \<longrightarrow>
      (\<exists>k > 0. k \<le> length (waiting p) \<and> getSendMsgBuff p = Some (Some (take k (waiting p)), False))) \<and>
    (length (waiting p) = mp_poolLen p \<longrightarrow> getSendMsgBuff p = Some (Some [], False)) \<and>
    (\<forall>k \<le> length (waiting p). msgPool_inv (addSendIndex p k) \<and> waiting (addSendIndex p k) = drop k (waiting p))"
  using addSendMsg_waiting [OF assms] getSendMsgBuff_waiting [OF assms] getSendMsgBuff_full [OF assms] addSendIndex_waiting [OF assms]
  by blast

text \<open>A ring of 16 bytes with two counters just before the end of their range, and one of a message that was received.\<close>

definition sample_pool :: "64 word \<Rightarrow> 64 word \<Rightarrow> bytes \<Rightarrow> msgPool" where
  "sample_pool s e pool = \<lparr>mp_poolLen = 16, mp_pool = pool, mp_start = s, mp_end = e,
     mp_tmpPool = replicate cmd_max_size 0, mp_index = 0, mp_flag = 0, mp_msgLen = e - s - 4\<rparr>"

theorem msgPool_sends_in_order_witness:
  "\<exists>p'. addSendMsg (sample_pool (- 2) (- 2) (replicate 16 0)) [5, 6, 7] 9 = Some (p', True) \<and> waiting p' = [3, 0, 0, 9, 5, 6, 7]"
proof -
  have "msgPool_inv (sample_pool (- 2) (- 2) (replicate 16 0))"
    by (auto simp: msgPool_inv_def sample_pool_def intro!: exI [of _ 4])
  moreover have "waiting (sample_pool (- 2) (- 2) (replicate 16 0)) = []" "mp_poolLen (sample_pool (- 2) (- 2) (replicate 16 0)) = 16"
    by (simp_all add: waiting_def sample_pool_def)
  moreover have "msg_frame [5, 6, 7] 9 = [3, 0, 0, 9, 5, 6, 7]"
    by (simp add: msg_frame_def drop_bit_eq_div)
  ultimately show ?thesis
    using msgPool_sends_in_order [of "sample_pool (- 2) (- 2) (replicate 16 0)", THEN conjunct1, rule_format, of "[5, 6, 7]" 9]
    by (auto simp: cmd_max_size_def)
qed

text \<open>
  C38.  A received message is taken out of the ring with its flag, and what follows it stays; but when the header lies before the end of
  the storage and the message reaches or crosses that end, an empty slice is returned in place of the message, since the
  length is cleared before the slice of that length is taken.
\<close>

theorem getRecvMsg_loses_wrapped:
  assumes "msgPool_inv p" "mp_start p \<le> mp_end p" "waiting p = msg_frame msg flag @ rest"
    and "mp_msgLen p = of_nat (length msg)" "0 < length msg" "length msg \<le> cmd_max_size"
  shows "\<exists>p'. getRecvMsg p = Some ((Some (if unat (mp_start p) mod mp_poolLen p + 4 \<le> mp_poolLen p \<and>
        mp_poolLen p \<le> unat (mp_start p) mod mp_poolLen p + 4 + length msg then [] else msg), flag), p') \<and>
      msgPool_inv p' \<and> waiting p' = rest"
proof -
  obtain tmp f where r: "getRecvMsg p = Some ((Some (if unat (mp_start p) mod mp_poolLen p + 4 \<le> mp_poolLen p \<and>
        mp_poolLen p \<le> unat (mp_start p) mod mp_poolLen p + 4 + length msg then [] else msg), flag),
      p\<lparr>mp_start := mp_start p + of_nat (length msg + 4), mp_msgLen := 0, mp_tmpPool := tmp, mp_flag := f\<rparr>)"
      "length tmp = cmd_max_size"
    using getRecvMsg_spec [OF assms] by blast
  have "length (msg_frame msg flag) = length msg + 4"
    by (simp add: msg_frame_def)
  then have "length msg + 4 \<le> length (waiting p)" "drop (length msg + 4) (waiting p) = rest"
    using assms(3) by simp_all
  then have "msgPool_inv (addSendIndex p (length msg + 4))" "waiting (addSendIndex p (length msg + 4)) = rest"
    using addSendIndex_waiting [OF assms(1), of "length msg + 4"] by simp_all
  then show ?thesis
    using r by (auto simp: addSendIndex_def waiting_def msgPool_inv_def)
qed

theorem getRecvMsg_loses_wrapped_witness:
  "(\<exists>p'. getRecvMsg (sample_pool 8 16 [0, 0, 0, 0, 0, 0, 0, 0, 4, 0, 0, 9, 1, 2, 3, 4]) = Some ((Some [], 9), p')) \<and>
   (\<exists>p'. getRecvMsg (sample_pool 0 8 [4, 0, 0, 9, 1, 2, 3, 4, 0, 0, 0, 0, 0, 0, 0, 0]) = Some ((Some [1, 2, 3, 4], 9), p'))"
proof -
  let ?p = "sample_pool 8 16 [0, 0, 0, 0, 0, 0, 0, 0, 4, 0, 0, 9, 1, 2, 3, 4]"
  let ?q = "sample_pool 0 8 [4, 0, 0, 9, 1, 2, 3, 4, 0, 0, 0, 0, 0, 0, 0, 0]"
  have i: "msgPool_inv ?p" "msgPool_inv ?q"
    by (auto simp: msgPool_inv_def sample_pool_def intro!: exI [of _ 4])
  have "ring_read [0, 0, 0, 0, 0, 0, 0, 0, 4, 0, 0, 9, 1, 2, 3, 4] 8 8 = [4, 0, 0, 9, 1, 2, 3, 4 :: byte]"
    "ring_read [4, 0, 0, 9, 1, 2, 3, 4, 0, 0, 0, 0, 0, 0, 0, 0] 0 8 = [4, 0, 0, 9, 1, 2, 3, 4 :: byte]"
    by (code_simp, code_simp)
  then have w: "waiting ?p = msg_frame [1, 2, 3, 4] 9 @ []" "waiting ?q = msg_frame [1, 2, 3, 4] 9 @ []"
    by (simp_all add: waiting_def sample_pool_def msg_frame_def drop_bit_eq_div)
  have f: "mp_start ?p = 8" "mp_end ?p = 16" "mp_msgLen ?p = 4" "mp_poolLen ?p = 16"
    "mp_start ?q = 0" "mp_end ?q = 8" "mp_msgLen ?q = 4" "mp_poolLen ?q = 16"
    by (simp_all add: sample_pool_def)
  show ?thesis
    using getRecvMsg_loses_wrapped [OF i(1) _ w(1)] getRecvMsg_loses_wrapped [OF i(2) _ w(2)]
    unfolding f by (auto simp: cmd_max_size_def)
qed

end
