(* ===== verification/Gonet_Udp.thy ===== *)
theory Gonet_Udp
  imports Gonet_Ring Go_Chan
begin

text \<open>
  The datagram sessions of \<open>lib/gonet/udptask.go\<close>, and the part of \<open>lib/gonet/udpserver.go\<close> that gives datagrams to
  their sessions.  A message is sent with a counter of 16 bits and its number in the first three bytes of its buffer; the receiver
  hands a message to \<open>ParseMsg\<close> when its counter is above all counters before.

  Both loops keep a counter in a local variable, which is an argument and a result of the definitions.
\<close>

datatype udp_error = ErrUdpClosed | RingError ring_error

record UdpTask =
  udp_Key :: bytes
  udp_closed :: int
  udp_recvBuff :: Ring
  udp_sendBuff :: Ring
  udp_Derived :: bool
  udp_sendSignal :: "unit gochan"
  udp_recvSignal :: "unit gochan"
  udp_sendClose :: "unit gochan"
  udp_recvClose :: "unit gochan"
  udp_onclose :: nat

definition NewUdpTask :: UdpTask where
  "NewUdpTask = \<lparr>udp_Key = [], udp_closed = 0, udp_recvBuff = NewRing 1024, udp_sendBuff = NewRing 1024, udp_Derived = False,
     udp_sendSignal = make_chan 1, udp_recvSignal = make_chan 1, udp_sendClose = make_chan 1, udp_recvClose = make_chan 1,
     udp_onclose = 0\<rparr>"

definition UdpTask_IsClosed :: "UdpTask \<Rightarrow> bool" where
  "UdpTask_IsClosed t \<longleftrightarrow> udp_closed t \<noteq> 0"

text \<open>\<open>OnClose\<close> is called on the derived object; calling it on a nil one panics.\<close>

definition UdpTask_Close :: "UdpTask \<Rightarrow> UdpTask outcome" where
  "UdpTask_Close t =
     (if udp_closed t \<noteq> 0 then Returns t
      else
        outcome_bind (chan_try_send (udp_sendClose t) ()) (\<lambda>sc.
        outcome_bind (chan_try_send (udp_recvClose t) ()) (\<lambda>rc.
        outcome_bind (chan_close sc) (\<lambda>sc.
        outcome_bind (chan_close rc) (\<lambda>rc.
        outcome_bind (chan_close (udp_sendSignal t)) (\<lambda>ss.
        outcome_bind (chan_close (udp_recvSignal t)) (\<lambda>rs.
        if udp_Derived t
        then Returns (t\<lparr>udp_closed := 1, udp_sendClose := sc, udp_recvClose := rc, udp_sendSignal := ss, udp_recvSignal := rs,
               udp_onclose := udp_onclose t + 1\<rparr>)
        else Panics)))))))"

definition UdpTask_onRecv :: "UdpTask \<Rightarrow> bytes \<Rightarrow> (udp_error option \<times> UdpTask) outcome" where
  "UdpTask_onRecv t datas =
     (if UdpTask_IsClosed t \<or> length datas < 3 then Returns (Some ErrUdpClosed, t)
      else case Ring_put (udp_recvBuff t) (\<lambda>msg. msg\<lparr>Body := drop 3 datas,
          Index := uint (datas ! 0) OR push_bit 8 (uint (datas ! 1)), MsgNo := uint (datas ! 2)\<rparr>) of
        None \<Rightarrow> Panics
      | Some (Inl e) \<Rightarrow> Returns (Some (RingError e), t)
      | Some (Inr r) \<Rightarrow>
          outcome_bind (chan_try_send (udp_recvSignal t) ()) (\<lambda>s.
            Returns (None, t\<lparr>udp_recvBuff := r, udp_recvSignal := s\<rparr>)))"

text \<open>A message that does not fit the ring is dropped, and the result is true all the same.\<close>

definition UdpTask_AsyncSend :: "UdpTask \<Rightarrow> bytes \<Rightarrow> int \<Rightarrow> (bool \<times> UdpTask) outcome" where
  "UdpTask_AsyncSend t buff msgNo =
     (if UdpTask_IsClosed t then Returns (False, t)
      else case Ring_put (udp_sendBuff t) (\<lambda>msg. msg\<lparr>MsgNo := msgNo, Body := buff\<rparr>) of
        None \<Rightarrow> Panics
      | Some r \<Rightarrow>
          outcome_bind (chan_try_send (udp_sendSignal t) ()) (\<lambda>s.
            Returns (True, t\<lparr>udp_sendBuff := (case r of Inl e \<Rightarrow> udp_sendBuff t | Inr b \<Rightarrow> b), udp_sendSignal := s\<rparr>)))"

section \<open>The receive loop\<close>

text \<open>
  One turn of the inner loop: \<open>None\<close> when the ring is empty; else the ring, the counter and the message that was
  handed to \<open>ParseMsg\<close>, if any.
\<close>

definition UdpTask_recv_turn :: "bool \<Rightarrow> Ring \<Rightarrow> int \<Rightarrow> (((bytes \<times> int) list \<times> Ring \<times> int) option) option" where
  "UdpTask_recv_turn derived r curIdx = (case Ring_Get r of
     None \<Rightarrow> None
   | Some (Inl e) \<Rightarrow> Some None
   | Some (Inr i) \<Rightarrow>
       (let r1 = Ring_GetAdv r; buf = ring_data r1 ! i;
            r2 = r1\<lparr>ring_data := (ring_data r1)[i := buf\<lparr>Body := []\<rparr>]\<rparr> in
        Some (Some (if derived
          then (if Index buf \<le> curIdx then ([], r1, curIdx) else ([(Body buf, MsgNo buf)], r2, Index buf))
          else ([], r2, curIdx)))))"

fun UdpTask_recv_drain :: "nat \<Rightarrow> bool \<Rightarrow> Ring \<Rightarrow> int \<Rightarrow> ((bytes \<times> int) list \<times> Ring \<times> int) option" where
  "UdpTask_recv_drain 0 derived r curIdx = None"
| "UdpTask_recv_drain (Suc fuel) derived r curIdx = (case UdpTask_recv_turn derived r curIdx of
     None \<Rightarrow> None
   | Some None \<Rightarrow> Some ([], r, curIdx)
   | Some (Some (ms, r1, cur1)) \<Rightarrow>
       map_option (\<lambda>(ms', r2, cur2). (ms @ ms', r2, cur2)) (UdpTask_recv_drain fuel derived r1 cur1))"

datatype udp_turn = UdpReturned | UdpWaits

text \<open>What \<open>recvloop\<close> does when there is a signal; the ring holds no more messages than its storage, which bounds the turns.\<close>

definition UdpTask_recvloop_signal :: "UdpTask \<Rightarrow> int \<Rightarrow> ((bytes \<times> int) list \<times> UdpTask \<times> int \<times> udp_turn) option" where
  "UdpTask_recvloop_signal t curIdx = (case chan_recv (udp_recvSignal t) of
     Returns (_, s) \<Rightarrow>
       (if UdpTask_IsClosed t then Some ([], t, curIdx, UdpReturned)
        else map_option (\<lambda>(ms, r, cur). (ms, t\<lparr>udp_recvSignal := s, udp_recvBuff := r\<rparr>, cur, UdpWaits))
          (UdpTask_recv_drain (Suc (length (ring_data (udp_recvBuff t)))) (udp_Derived t) (udp_recvBuff t) curIdx))
   | _ \<Rightarrow> Some ([], t, curIdx, UdpWaits))"

section \<open>The send loop\<close>

definition put_index :: "bytes \<Rightarrow> int \<Rightarrow> int \<Rightarrow> bytes option" where
  "put_index b index msgNo = do {
     b \<leftarrow> set_at b 0 (word_of_int (index AND 0xff));
     b \<leftarrow> set_at b 1 (word_of_int (drop_bit 8 index AND 0xff));
     set_at b 2 (word_of_int msgNo)
   }"

text \<open>
  The inner loop, over the outcomes of the writes: the datagrams written, the ring and the counter.  A body of less
  than three bytes panics, and a failed write ends the loop, with its message taken out of the ring; with no outcome left the
  loop is inside a write.
\<close>

fun UdpTask_send_drain :: "bool list \<Rightarrow> Ring \<Rightarrow> int \<Rightarrow> (bytes list \<times> Ring \<times> int) option" where
  "UdpTask_send_drain ws r index = (case Ring_Get r of
     None \<Rightarrow> None
   | Some (Inl e) \<Rightarrow> Some ([], r, index)
   | Some (Inr i) \<Rightarrow>
       (let r1 = Ring_GetAdv r; buf = ring_data r1 ! i; index1 = (index + 1) AND 0xffff in
        case put_index (Body buf) index1 (MsgNo buf) of
          None \<Rightarrow> None
        | Some b \<Rightarrow>
            (let r2 = r1\<lparr>ring_data := (ring_data r1)[i := buf\<lparr>Body := b\<rparr>]\<rparr> in
             case ws of
               [] \<Rightarrow> Some ([], r2, index1)
             | False # ws' \<Rightarrow> Some ([], r2, index1)
             | True # ws' \<Rightarrow> map_option (\<lambda>(ds, r3, index3). (b # ds, r3, index3)) (UdpTask_send_drain ws' r2 index1))))"

declare UdpTask_send_drain.simps [simp del]

definition UdpTask_sendloop_signal :: "bool list \<Rightarrow> UdpTask \<Rightarrow> int \<Rightarrow> (bytes list \<times> UdpTask \<times> int \<times> udp_turn) option" where
  "UdpTask_sendloop_signal ws t index = (case chan_recv (udp_sendSignal t) of
     Returns (_, s) \<Rightarrow>
       (if UdpTask_IsClosed t then Some ([], t, index, UdpReturned)
        else map_option (\<lambda>(ds, r, idx). (ds, t\<lparr>udp_sendSignal := s, udp_sendBuff := r\<rparr>, idx, UdpWaits))
          (UdpTask_send_drain ws (udp_sendBuff t) index))
   | _ \<Rightarrow> Some ([], t, index, UdpWaits))"

section \<open>The server\<close>

text \<open>
  One datagram of the loop of \<open>udpHandle\<close>: too large ones are skipped, known clients get it, and another address is
  given to the handshake, whose task (if any) is registered and started.
\<close>

definition udpHandle_datagram ::
  "(bytes \<Rightarrow> bytes \<Rightarrow> UdpTask option) \<Rightarrow> nat \<Rightarrow> (bytes \<rightharpoonup> UdpTask) \<Rightarrow> bytes \<Rightarrow> bytes \<Rightarrow> (bytes \<rightharpoonup> UdpTask) outcome" where
  "udpHandle_datagram handShake maxPacketSize clients key datas =
     (if length datas \<ge> maxPacketSize then Returns clients
      else case clients key of
        Some c \<Rightarrow> outcome_bind (UdpTask_onRecv c datas) (\<lambda>(e, c1). Returns (clients(key \<mapsto> c1)))
      | None \<Rightarrow> (case handShake datas key of
            None \<Rightarrow> Returns clients
          | Some c \<Rightarrow> Returns (clients(key \<mapsto> c\<lparr>udp_Key := key\<rparr>))))"

text \<open>The end of a session's send loop removes it from the table.\<close>

definition udpHandle_gone :: "(bytes \<rightharpoonup> UdpTask) \<Rightarrow> bytes \<Rightarrow> (bytes \<rightharpoonup> UdpTask)" where
  "udpHandle_gone clients key = clients(key := None)"

section \<open>Two sessions over a network without loss\<close>

lemma Ring_put_empty:
  assumes "ring_inv r" "ring_items r = []"
  shows "\<exists>r1 m. Ring_put r f = Some (Inr r1) \<and> ring_inv r1 \<and> ring_items r1 = [f m]"
proof -
  obtain r1 where r1: "Ring_put r f = Some (Inr r1)"
    using assms ring_data_pos [of r] by (simp add: Ring_put_valid)
  then show ?thesis
    using Ring_put_items [OF assms(1) r1] assms(2) by auto
qed

lemma Ring_get_one:
  assumes "ring_inv r" "ring_items r = [m]"
  shows "\<exists>i. Ring_Get r = Some (Inr i) \<and> ring_data r ! i = m \<and> ring_inv (Ring_GetAdv r) \<and> ring_items (Ring_GetAdv r) = []"
proof -
  obtain i where i: "Ring_Get r = Some (Inr i)"
    using assms by (simp add: Ring_Get_valid)
  then have "Ring_take r = Some (Inr (ring_data r ! i, Ring_GetAdv r))"
    by (simp add: Ring_take_def)
  from Ring_take_items [OF assms(1) this] assms(2) i show ?thesis by simp
qed

lemma ring_inv_store: "ring_inv (r\<lparr>ring_data := (ring_data r)[i := x]\<rparr>) \<longleftrightarrow> ring_inv r"
  by (simp add: ring_inv_def)

lemma ring_items_store: "ring_items r = [] \<Longrightarrow> ring_items (r\<lparr>ring_data := (ring_data r)[i := x]\<rparr>) = []"
  by (simp add: ring_items_def ring_read_def)

text \<open>A session that waits: not closed, with nothing in its rings and its signals.\<close>

definition udp_idle :: "UdpTask \<Rightarrow> bool" where
  "udp_idle t \<longleftrightarrow> udp_closed t = 0 \<and> udp_Derived t \<and>
     ring_inv (udp_sendBuff t) \<and> ring_items (udp_sendBuff t) = [] \<and> ring_inv (udp_recvBuff t) \<and> ring_items (udp_recvBuff t) = [] \<and>
     udp_sendSignal t = make_chan 1 \<and> udp_recvSignal t = make_chan 1"

definition udp_packet :: "int \<Rightarrow> bytes \<Rightarrow> int \<Rightarrow> bytes" where
  "udp_packet idx buff msgNo = [word_of_int (idx AND 0xff), word_of_int (drop_bit 8 idx AND 0xff), word_of_int msgNo] @ drop 3 buff"

lemma three_bytes: "3 \<le> length b \<Longrightarrow> \<exists>x y z. b = [x, y, z] @ drop 3 b"
  by (cases b; cases "tl b"; cases "tl (tl b)") auto

lemma put_index_packet:
  assumes "3 \<le> length b"
  shows "put_index b idx msgNo = Some (udp_packet idx b msgNo)"
proof -
  obtain u v w where "b = [u, v, w] @ drop 3 b"
    using three_bytes [OF assms] by blast
  then obtain c where "b = u # v # w # c" by (metis append_Cons append_Nil)
  then show ?thesis by (simp add: put_index_def udp_packet_def set_at_def numeral_2_eq_2 numeral_3_eq_3)
qed

lemma send_one:
  assumes "udp_idle a" "3 \<le> length buff"
  shows "\<exists>a1 a2. UdpTask_AsyncSend a buff msgNo = Returns (True, a1) \<and>
    UdpTask_sendloop_signal [True] a1 idx =
      Some ([udp_packet ((idx + 1) AND 0xffff) buff msgNo], a2, (idx + 1) AND 0xffff, UdpWaits) \<and> udp_idle a2"
proof -
  let ?f = "\<lambda>msg. msg\<lparr>MsgNo := msgNo, Body := buff\<rparr>"
  obtain r1 m where r1: "Ring_put (udp_sendBuff a) ?f = Some (Inr r1)" "ring_inv r1" "ring_items r1 = [?f m]"
    using Ring_put_empty [of "udp_sendBuff a" ?f] assms(1) by (auto simp: udp_idle_def)
  obtain i where i: "Ring_Get r1 = Some (Inr i)" "ring_data r1 ! i = ?f m" "ring_inv (Ring_GetAdv r1)" "ring_items (Ring_GetAdv r1) = []"
    using Ring_get_one [OF r1(2,3)] by blast
  let ?x = "(?f m)\<lparr>Body := udp_packet ((idx + 1) AND 0xffff) buff msgNo\<rparr>"
  let ?r2 = "(Ring_GetAdv r1)\<lparr>ring_data := (ring_data (Ring_GetAdv r1))[i := ?x]\<rparr>"
  have r2: "ring_inv ?r2" "ring_items ?r2 = []"
    using i by (simp_all add: ring_inv_store ring_items_store)
  then have g2: "Ring_Get ?r2 = Some (Inl ErrRingEmpty)"
    by (simp add: Ring_Get_valid)
  have d: "ring_data (Ring_GetAdv r1) = ring_data r1"
    by (simp add: Ring_GetAdv_def)
  have s: "UdpTask_send_drain [True] r1 idx = Some ([udp_packet ((idx + 1) AND 0xffff) buff msgNo], ?r2, (idx + 1) AND 0xffff)"
    unfolding UdpTask_send_drain.simps [of "[True]"] using g2 assms(2)
    by (simp add: i(1,2) d put_index_packet Let_def UdpTask_send_drain.simps [of "[]"])
  show ?thesis
    using assms(1) r1(1) s r2
    by (auto simp: UdpTask_AsyncSend_def UdpTask_sendloop_signal_def UdpTask_IsClosed_def udp_idle_def chan_try_send_def chan_send_def
        chan_recv_def make_chan_def)
qed

lemma and_ffff: "(x::int) AND 0xffff = x mod 65536"
proof -
  have "x AND 0xffff = take_bit 16 x"
    by (simp add: take_bit_eq_mask mask_eq_exp_minus_1)
  then show ?thesis by (simp add: take_bit_eq_mod)
qed

lemma index_bytes:
  assumes "0 \<le> idx" "idx < 65536"
  shows "uint (word_of_int (idx AND 0xff) :: byte) OR push_bit 8 (uint (word_of_int (drop_bit 8 idx AND 0xff) :: byte)) = idx"
proof -
  have ff: "x AND 0xff = take_bit 8 x" for x :: int
    by (simp add: take_bit_eq_mask mask_eq_exp_minus_1)
  have "take_bit 16 idx = idx"
    using assms by (simp add: take_bit_int_eq_self)
  then have b: "bit idx n \<longleftrightarrow> n < 16 \<and> bit idx n" for n
    by (metis bit_take_bit_iff)
  show ?thesis
    unfolding ff uint_word_of_int_eq
  proof (rule bit_eqI)
    fix n :: nat
    show "bit (take_bit LENGTH(8) (take_bit 8 idx) OR push_bit 8 (take_bit LENGTH(8) (take_bit 8 (drop_bit 8 idx)))) n = bit idx n"
    proof (cases "n < 8")
      case False
      then obtain m where "n = 8 + m"
        using le_Suc_ex by (metis not_le)
      then show ?thesis
        using b [of n] by (simp add: bit_or_iff bit_take_bit_iff bit_push_bit_iff bit_drop_bit_eq)
    qed (simp add: bit_or_iff bit_take_bit_iff bit_push_bit_iff)
  qed
qed

lemma recv_one:
  assumes "udp_idle b" "0 \<le> idx" "idx < 65536"
  shows "\<exists>b1 b2. UdpTask_onRecv b (udp_packet idx buff msgNo) = Returns (None, b1) \<and>
    UdpTask_recvloop_signal b1 cur = Some (if idx \<le> cur then [] else [(drop 3 buff, msgNo mod 256)], b2,
      if idx \<le> cur then cur else idx, UdpWaits) \<and> udp_idle b2"
proof -
  let ?d = "udp_packet idx buff msgNo"
  let ?f = "\<lambda>msg. msg\<lparr>Body := drop 3 buff, Index := idx, MsgNo := msgNo mod 256\<rparr>"
  have d: "drop 3 ?d = drop 3 buff" "uint (?d ! 0) OR push_bit 8 (uint (?d ! 1)) = idx" "uint (?d ! 2) = msgNo mod 256" "\<not> length ?d < 3"
    using index_bytes [OF assms(2,3)] by (simp_all add: udp_packet_def uint_word_of_int)
  obtain r1 m where r1: "Ring_put (udp_recvBuff b) ?f = Some (Inr r1)" "ring_inv r1" "ring_items r1 = [?f m]"
    using Ring_put_empty [of "udp_recvBuff b" ?f] assms(1) by (auto simp: udp_idle_def)
  obtain i where i: "Ring_Get r1 = Some (Inr i)" "ring_data r1 ! i = ?f m" "ring_inv (Ring_GetAdv r1)" "ring_items (Ring_GetAdv r1) = []"
    using Ring_get_one [OF r1(2,3)] by blast
  let ?r2 = "(Ring_GetAdv r1)\<lparr>ring_data := (ring_data (Ring_GetAdv r1))[i := (?f m)\<lparr>Body := []\<rparr>]\<rparr>"
  let ?r = "if idx \<le> cur then Ring_GetAdv r1 else ?r2"
  have r: "ring_inv ?r" "ring_items ?r = []"
    using i by (simp_all add: ring_inv_store ring_items_store)
  then have g: "Ring_Get ?r = Some (Inl ErrRingEmpty)"
    by (simp add: Ring_Get_valid)
  have t1: "UdpTask_recv_turn True r1 cur =
      Some (Some (if idx \<le> cur then [] else [(drop 3 buff, msgNo mod 256)], ?r, if idx \<le> cur then cur else idx))"
    using i(1,2) by (simp add: UdpTask_recv_turn_def Ring_GetAdv_def)
  have t2: "UdpTask_recv_turn True ?r c = Some None" for c
    unfolding UdpTask_recv_turn_def g by simp
  obtain n where n: "length (ring_data r1) = Suc n"
    using ring_data_pos [OF r1(2)] by (metis Suc_pred)
  have s: "UdpTask_recv_drain (Suc (length (ring_data r1))) True r1 cur =
      Some (if idx \<le> cur then [] else [(drop 3 buff, msgNo mod 256)], ?r, if idx \<le> cur then cur else idx)"
    unfolding n UdpTask_recv_drain.simps t1 option.case prod.case t2 by simp
  show ?thesis
    using assms(1) r1(1) s r d
    by (auto simp: UdpTask_onRecv_def UdpTask_recvloop_signal_def UdpTask_IsClosed_def udp_idle_def chan_try_send_def chan_send_def
        chan_recv_def make_chan_def)
qed

text \<open>
  Messages go from the session \<open>a\<close> to the session \<open>b\<close>, each on its way before the next: it is queued, written by the send
  loop, received, and taken by the receive loop.  The result is what was handed to \<open>ParseMsg\<close>.
\<close>

fun udp_exchange :: "UdpTask \<Rightarrow> int \<Rightarrow> UdpTask \<Rightarrow> int \<Rightarrow> (bytes \<times> int) list \<Rightarrow> (bytes \<times> int) list option" where
  "udp_exchange a index b curIdx [] = Some []"
| "udp_exchange a index b curIdx ((buff, msgNo) # ms) = (case UdpTask_AsyncSend a buff msgNo of
     Returns (True, a1) \<Rightarrow> (case UdpTask_sendloop_signal [True] a1 index of
         Some ([d], a2, index2, UdpWaits) \<Rightarrow> (case UdpTask_onRecv b d of
             Returns (None, b1) \<Rightarrow> (case UdpTask_recvloop_signal b1 curIdx of
                 Some (out, b2, cur2, UdpWaits) \<Rightarrow> map_option (\<lambda>rest. out @ rest) (udp_exchange a2 index2 b2 cur2 ms)
               | _ \<Rightarrow> None)
           | _ \<Rightarrow> None)
       | _ \<Rightarrow> None)
   | _ \<Rightarrow> None)"

lemma udp_exchange_from:
  assumes "udp_idle a" "udp_idle b" "list_all (\<lambda>(buff, msgNo). 3 \<le> length buff) ms"
  shows "udp_exchange a (int (k mod 65536)) b (int (min k 65535)) ms =
    Some (map (\<lambda>(buff, msgNo). (drop 3 buff, msgNo mod 256)) (take (65535 - k) ms))"
  using assms
proof (induction ms arbitrary: a b k)
  case (Cons m ms)
  obtain buff msgNo where m: "m = (buff, msgNo)" by fastforce
  let ?idx = "int ((k + 1) mod 65536)"
  have idx: "(int (k mod 65536) + 1) AND 0xffff = ?idx"
    unfolding and_ffff zmod_int of_nat_add of_nat_1 of_nat_numeral mod_add_left_eq ..
  have r: "0 \<le> ?idx" "?idx < 65536"
    by simp_all
  obtain a1 a2 where a: "UdpTask_AsyncSend a buff msgNo = Returns (True, a1)"
      "UdpTask_sendloop_signal [True] a1 (int (k mod 65536)) = Some ([udp_packet ?idx buff msgNo], a2, ?idx, UdpWaits)" "udp_idle a2"
    using send_one [OF Cons.prems(1), of buff msgNo "int (k mod 65536)"] Cons.prems(3) m idx by auto
  obtain b1 b2 where b: "UdpTask_onRecv b (udp_packet ?idx buff msgNo) = Returns (None, b1)"
      "UdpTask_recvloop_signal b1 (int (min k 65535)) =
        Some (if ?idx \<le> int (min k 65535) then [] else [(drop 3 buff, msgNo mod 256)], b2,
          if ?idx \<le> int (min k 65535) then int (min k 65535) else ?idx, UdpWaits)" "udp_idle b2"
    using recv_one [OF Cons.prems(2) r, of buff msgNo "int (min k 65535)"] by blast
  have le: "?idx \<le> int (min k 65535) \<longleftrightarrow> 65535 \<le> k"
    and new: "(if ?idx \<le> int (min k 65535) then int (min k 65535) else ?idx) = int (min (k + 1) 65535)"
  proof -
    have "min k 65535 = 65535" "min (k + 1) 65535 = 65535" "(k + 1) mod 65536 \<le> 65535" if "65535 \<le> k"
      using that mod_less_divisor [of 65536 "k + 1"] by simp_all
    moreover have "min k 65535 = k" "min (k + 1) 65535 = k + 1" "(k + 1) mod 65536 = k + 1" if "\<not> 65535 \<le> k"
      using that by simp_all
    ultimately show "?idx \<le> int (min k 65535) \<longleftrightarrow> 65535 \<le> k"
      "(if ?idx \<le> int (min k 65535) then int (min k 65535) else ?idx) = int (min (k + 1) 65535)"
      by (cases "65535 \<le> k"; simp)+
  qed
  have "list_all (\<lambda>(buff, msgNo). 3 \<le> length buff) ms"
    using Cons.prems(3) by simp
  then have rest: "udp_exchange a2 ?idx b2 (int (min (k + 1) 65535)) ms =
      Some (map (\<lambda>(buff, msgNo). (drop 3 buff, msgNo mod 256)) (take (65535 - (k + 1)) ms))"
    by (rule Cons.IH [OF a(3) b(3)])
  have "udp_exchange a (int (k mod 65536)) b (int (min k 65535)) (m # ms) =
      Some ((if 65535 \<le> k then [] else [(drop 3 buff, msgNo mod 256)]) @
        map (\<lambda>(buff, msgNo). (drop 3 buff, msgNo mod 256)) (take (65535 - (k + 1)) ms))"
    unfolding m udp_exchange.simps a b(1) b(2) [unfolded new, unfolded le] outcome.case prod.case option.case list.case bool.case udp_turn.case rest
    by (simp only: option.map)
  also have "\<dots> = Some (map (\<lambda>(buff, msgNo). (drop 3 buff, msgNo mod 256)) (take (65535 - k) (m # ms)))"
    unfolding m by (simp add: take_Cons')
  finally show ?case .
qed simp

lemma NewUdpTask_idle: "udp_idle (NewUdpTask\<lparr>udp_Derived := True\<rparr>)"
  using NewRing_size [of 1024] by (auto simp: udp_idle_def NewUdpTask_def)

text \<open>
  C39.  Messages that have the three bytes the header is written to, and that go from one new session to another one at a
  time (each is queued by \<open>AsyncSend\<close>, written by the send loop, given to \<open>onRecv\<close> and taken by the receive loop before the next is queued, and no
  datagram is lost): the first 65535 are handed over, each once and in order, without the three
  bytes of the header and with the low byte of the message's number, and then none, however many follow: the counter of 16 bits starts
  again from zero, and the receiver drops every counter that is not above the largest it has seen.  In this schedule the rings are
  never full; a session whose ring of 1024 messages is full drops messages before that.
\<close>

theorem UdpTask_stops_after_wrap:
  assumes "\<forall>m \<in> set ms. 3 \<le> length (fst m)"
  shows "udp_exchange (NewUdpTask\<lparr>udp_Derived := True\<rparr>) 0 (NewUdpTask\<lparr>udp_Derived := True\<rparr>) 0 ms =
    Some (map (\<lambda>(buff, msgNo). (drop 3 buff, msgNo mod 256)) (take 65535 ms))"
  using udp_exchange_from [OF NewUdpTask_idle NewUdpTask_idle, of ms 0] assms by (simp add: list_all_iff case_prod_beta)

theorem UdpTask_stops_after_wrap_witness:
  "udp_exchange (NewUdpTask\<lparr>udp_Derived := True\<rparr>) 0 (NewUdpTask\<lparr>udp_Derived := True\<rparr>) 0
     [([0, 0, 0, 7, 8], 1), ([0, 0, 0], 258)] = Some [([7, 8], 1), ([], 2)]"
  using UdpTask_stops_after_wrap [of "[([0, 0, 0, 7, 8], 1), ([0, 0, 0], 258)]"] by simp

end
