(* ===== verification/Redis_Crc16.thy ===== *)
theory Redis_Crc16
  imports Go_Prelude
begin

text \<open>
  Key slots, \<open>lib/redis/crc16.go\<close>: the table-driven CRC16 and the hash-tag rule that gives a key one
  of the 16384 slots of a redis cluster.  The table-driven routine is proved equal to the bit-by-bit
  division by the polynomial \<open>x^16 + x^12 + x^5 + 1\<close>, and the two scans of \<open>KeyHashSlot\<close> equal to the
  rule that the text between the first \<open>{\<close> and the first \<open>}\<close> after it, if any, is what is hashed.
\<close>

definition crc16tab :: "16 word list" where
  "crc16tab =
    [0x0000, 0x1021, 0x2042, 0x3063, 0x4084, 0x50a5, 0x60c6, 0x70e7,
     0x8108, 0x9129, 0xa14a, 0xb16b, 0xc18c, 0xd1ad, 0xe1ce, 0xf1ef,
     0x1231, 0x0210, 0x3273, 0x2252, 0x52b5, 0x4294, 0x72f7, 0x62d6,
     0x9339, 0x8318, 0xb37b, 0xa35a, 0xd3bd, 0xc39c, 0xf3ff, 0xe3de,
     0x2462, 0x3443, 0x0420, 0x1401, 0x64e6, 0x74c7, 0x44a4, 0x5485,
     0xa56a, 0xb54b, 0x8528, 0x9509, 0xe5ee, 0xf5cf, 0xc5ac, 0xd58d,
     0x3653, 0x2672, 0x1611, 0x0630, 0x76d7, 0x66f6, 0x5695, 0x46b4,
     0xb75b, 0xa77a, 0x9719, 0x8738, 0xf7df, 0xe7fe, 0xd79d, 0xc7bc,
     0x48c4, 0x58e5, 0x6886, 0x78a7, 0x0840, 0x1861, 0x2802, 0x3823,
     0xc9cc, 0xd9ed, 0xe98e, 0xf9af, 0x8948, 0x9969, 0xa90a, 0xb92b,
     0x5af5, 0x4ad4, 0x7ab7, 0x6a96, 0x1a71, 0x0a50, 0x3a33, 0x2a12,
     0xdbfd, 0xcbdc, 0xfbbf, 0xeb9e, 0x9b79, 0x8b58, 0xbb3b, 0xab1a,
     0x6ca6, 0x7c87, 0x4ce4, 0x5cc5, 0x2c22, 0x3c03, 0x0c60, 0x1c41,
     0xedae, 0xfd8f, 0xcdec, 0xddcd, 0xad2a, 0xbd0b, 0x8d68, 0x9d49,
     0x7e97, 0x6eb6, 0x5ed5, 0x4ef4, 0x3e13, 0x2e32, 0x1e51, 0x0e70,
     0xff9f, 0xefbe, 0xdfdd, 0xcffc, 0xbf1b, 0xaf3a, 0x9f59, 0x8f78,
     0x9188, 0x81a9, 0xb1ca, 0xa1eb, 0xd10c, 0xc12d, 0xf14e, 0xe16f,
     0x1080, 0x00a1, 0x30c2, 0x20e3, 0x5004, 0x4025, 0x7046, 0x6067,
     0x83b9, 0x9398, 0xa3fb, 0xb3da, 0xc33d, 0xd31c, 0xe37f, 0xf35e,
     0x02b1, 0x1290, 0x22f3, 0x32d2, 0x4235, 0x5214, 0x6277, 0x7256,
     0xb5ea, 0xa5cb, 0x95a8, 0x8589, 0xf56e, 0xe54f, 0xd52c, 0xc50d,
     0x34e2, 0x24c3, 0x14a0, 0x0481, 0x7466, 0x6447, 0x5424, 0x4405,
     0xa7db, 0xb7fa, 0x8799, 0x97b8, 0xe75f, 0xf77e, 0xc71d, 0xd73c,
     0x26d3, 0x36f2, 0x0691, 0x16b0, 0x6657, 0x7676, 0x4615, 0x5634,
     0xd94c, 0xc96d, 0xf90e, 0xe92f, 0x99c8, 0x89e9, 0xb98a, 0xa9ab,
     0x5844, 0x4865, 0x7806, 0x6827, 0x18c0, 0x08e1, 0x3882, 0x28a3,
     0xcb7d, 0xdb5c, 0xeb3f, 0xfb1e, 0x8bf9, 0x9bd8, 0xabbb, 0xbb9a,
     0x4a75, 0x5a54, 0x6a37, 0x7a16, 0x0af1, 0x1ad0, 0x2ab3, 0x3a92,
     0xfd2e, 0xed0f, 0xdd6c, 0xcd4d, 0xbdaa, 0xad8b, 0x9de8, 0x8dc9,
     0x7c26, 0x6c07, 0x5c64, 0x4c45, 0x3ca2, 0x2c83, 0x1ce0, 0x0cc1,
     0xef1f, 0xff3e, 0xcf5d, 0xdf7c, 0xaf9b, 0xbfba, 0x8fd9, 0x9ff8,
     0x6e17, 0x7e36, 0x4e55, 0x5e74, 0x2e93, 0x3eb2, 0x0ed1, 0x1ef0]"

function crc16_loop :: "bytes \<Rightarrow> nat \<Rightarrow> nat \<Rightarrow> 16 word \<Rightarrow> 16 word option" where
  "crc16_loop buf len counter crc =
     (if counter < len
      then do {
        b \<leftarrow> index_at buf counter;
        let bufValue = (ucast b :: 16 word);
        v \<leftarrow> index_at crc16tab (unat ((drop_bit 8 crc XOR bufValue) AND 0x00FF));
        crc16_loop buf len (counter + 1) (push_bit 8 crc XOR v)
      }
      else Some crc)"
  by pat_completeness auto
termination
  by (relation "measure (\<lambda>(buf, len, counter, crc). len - counter)") auto

declare crc16_loop.simps [simp del]

definition crc16 :: "bytes \<Rightarrow> nat \<Rightarrow> 16 word option" where
  "crc16 buf len = crc16_loop buf len 0 0"

text \<open>The loops that look for a brace: the index of the first \<open>c\<close> from \<open>i\<close> on, or the length.\<close>

function find_byte :: "bytes \<Rightarrow> byte \<Rightarrow> nat \<Rightarrow> nat" where
  "find_byte key c i =
     (if i < length key then (if key ! i = c then i else find_byte key c (i + 1)) else i)"
  by pat_completeness auto
termination
  by (relation "measure (\<lambda>(key, c, i). length key - i)") auto

declare find_byte.simps [simp del]

definition KeyHashSlot :: "bytes \<Rightarrow> 16 word option" where
  "KeyHashSlot key =
     (let keylen = length key; s = find_byte key (of_char CHR ''{'') 0 in
      if s = keylen then map_option (\<lambda>c. c AND 0x3FFF) (crc16 key keylen)
      else (let e = find_byte key (of_char CHR ''}'') (s + 1) in
        if e = keylen \<or> e = s + 1 then map_option (\<lambda>c. c AND 0x3FFF) (crc16 key keylen)
        else do {
          strKey \<leftarrow> slice_from key (s + 1);
          map_option (\<lambda>c. c AND 0x3FFF) (crc16 strKey (e - s - 1))
        }))"

section \<open>The reference: division by the polynomial, one bit at a time\<close>

definition crc_bit :: "16 word \<Rightarrow> 16 word" where
  "crc_bit c = (if bit c 15 then push_bit 1 c XOR 0x1021 else push_bit 1 c)"

definition crc_byte :: "byte \<Rightarrow> 16 word \<Rightarrow> 16 word" where
  "crc_byte b c = (crc_bit ^^ 8) (c XOR push_bit 8 (ucast b))"

definition crc_ref :: "bytes \<Rightarrow> 16 word" where
  "crc_ref xs = fold crc_byte xs 0"

lemma crc_bit_xor: "crc_bit (x XOR y) = crc_bit x XOR crc_bit y"
  by (auto simp: crc_bit_def push_bit_xor bit_xor_iff xor.assoc xor.left_commute xor.commute)

lemma crc_bits_xor: "(crc_bit ^^ n) (x XOR y) = (crc_bit ^^ n) x XOR (crc_bit ^^ n) y"
  by (induction n) (simp_all add: crc_bit_xor)

text \<open>
  A table whose entry \<open>2 i\<close> is one more bit of entry \<open>i\<close>, and whose odd entries differ from the even
  ones by the polynomial, is the table of the effect of eight bits on a value whose low byte is zero.
\<close>

fun tab_ok :: "16 word list \<Rightarrow> 16 word list \<Rightarrow> bool" where
  "tab_ok (t # ts) (u # v # us) \<longleftrightarrow> u = crc_bit t \<and> v = u XOR 0x1021 \<and> tab_ok ts us"
| "tab_ok _ us \<longleftrightarrow> us = []"

lemma tab_okD:
  "tab_ok ts us \<Longrightarrow> i < length ts \<Longrightarrow> 2 * i + 1 < length us \<Longrightarrow>
    us ! (2 * i) = crc_bit (ts ! i) \<and> us ! (2 * i + 1) = us ! (2 * i) XOR 0x1021"
proof (induction ts us arbitrary: i rule: tab_ok.induct)
  case (1 t ts u v us)
  then show ?case by (cases i) auto
qed auto

lemma crc16tab_ok: "tab_ok crc16tab crc16tab"
  by (simp add: crc_bit_def crc16tab_def)

lemma length_crc16tab [simp]: "length crc16tab = 256"
  by (simp add: crc16tab_def)

lemma crc_bit_low: "\<not> bit c 15 \<Longrightarrow> crc_bit c = push_bit 1 c"
  by (simp add: crc_bit_def)

lemma crc_bits_low:
  assumes "take_bit 8 c = c" and "n \<le> 8"
  shows "(crc_bit ^^ n) c = push_bit n c"
  using assms(2)
proof (induction n)
  case (Suc n)
  have "\<not> bit (take_bit 8 c) (15 - n)"
    using Suc.prems by (auto simp: bit_take_bit_iff)
  with Suc assms(1) show ?case by (simp add: crc_bit_low bit_push_bit_iff)
qed simp

lemma crc_bits_8:
  "(crc_bit ^^ 8) x = crc_bit (crc_bit (crc_bit (crc_bit (crc_bit (crc_bit (crc_bit (crc_bit x)))))))"
  by (simp add: eval_nat_numeral)

lemma crc16tab_bits: "i < 256 \<Longrightarrow> crc16tab ! i = (crc_bit ^^ 8) (push_bit 8 (of_nat i))"
proof (induction i rule: less_induct)
  case (less i)
  show ?case
  proof (cases "i = 0")
    case True
    then show ?thesis by (simp add: crc16tab_def crc_bits_low [of 0 8, simplified])
  next
    case False
    define j where "j = i div 2"
    have j: "j < 128" "j < i" using less.prems False unfolding j_def by linarith+
    have "\<not> bit (of_nat j :: 16 word) 7"
      using j(1) by (simp add: bit_of_nat_iff bit_nat_def)
    then have "\<not> bit (push_bit 8 (of_nat j) :: 16 word) 15" by (simp add: bit_push_bit_iff)
    then have "push_bit 8 (of_nat (2 * j)) = crc_bit (push_bit 8 (of_nat j))"
      by (simp add: crc_bit_low push_bit_eq_mult)
    then have even: "crc16tab ! (2 * j) = (crc_bit ^^ 8) (push_bit 8 (of_nat (2 * j)))"
      using tab_okD [OF crc16tab_ok, of j] less.IH [OF j(2)] j
      by (simp add: funpow_swap1 del: of_nat_mult)
    have "(crc_bit ^^ 8) (push_bit 8 1) = 0x1021"
      by (simp add: crc_bits_8 crc_bit_def)
    then have odd: "crc16tab ! (2 * j + 1) = (crc_bit ^^ 8) (push_bit 8 (of_nat (2 * j) XOR 1))"
      using tab_okD [OF crc16tab_ok, of j] even j by (simp add: crc_bits_xor push_bit_xor)
    have "of_nat (2 * j) XOR 1 = (of_nat (2 * j + 1) :: 16 word)" by (simp add: xor_one_eq)
    then show ?thesis using even odd by (cases "even i") (auto simp: j_def)
  qed
qed

lemma crc_byte_table:
  "crc_byte b c = push_bit 8 c XOR crc16tab ! unat ((drop_bit 8 c XOR ucast b) AND 0x00FF)"
proof -
  let ?i = "(drop_bit 8 c XOR ucast b) AND 0x00FF :: 16 word"
  have m: "0x00FF = (mask 8 :: 16 word)" by (simp add: mask_eq_exp_minus_1)
  have i: "?i = drop_bit 8 c XOR ucast b"
    unfolding m by (rule bit_word_eqI) (auto simp: bit_simps dest: bit_imp_le_length)
  have "c XOR push_bit 8 (ucast b) = push_bit 8 ?i XOR take_bit 8 c"
    unfolding i by (rule bit_word_eqI) (auto simp: bit_simps)
  then have "crc_byte b c = (crc_bit ^^ 8) (push_bit 8 ?i) XOR push_bit 8 (take_bit 8 c)"
    by (simp only: crc_byte_def crc_bits_xor) (simp add: crc_bits_low)
  moreover have "push_bit 8 (take_bit 8 c) = push_bit 8 c"
    by (rule bit_word_eqI) (auto simp: bit_simps)
  moreover have "unat ?i < 256"
    using word_and_le1 [of "drop_bit 8 c XOR ucast b" "0x00FF"] by (simp add: word_le_nat_alt)
  ultimately show ?thesis
    using crc16tab_bits [of "unat ?i"] by (simp add: xor.commute)
qed

lemma crc16_loop_ref:
  assumes "counter \<le> len" and "len \<le> length buf"
  shows "crc16_loop buf len counter crc = Some (fold crc_byte (take (len - counter) (drop counter buf)) crc)"
  using assms
proof (induction buf len counter crc rule: crc16_loop.induct)
  case (1 buf len counter crc)
  show ?case
  proof (cases "counter < len")
    case True
    then have "counter < length buf" using 1 by simp
    then have "take (len - counter) (drop counter buf) =
      buf ! counter # take (len - (counter + 1)) (drop (counter + 1) buf)"
      using True by (metis Cons_nth_drop_Suc Suc_diff_Suc add.commute plus_1_eq_Suc take_Suc_Cons)
    moreover have "unat ((drop_bit 8 crc XOR ucast (buf ! counter)) AND 0x00FF) < 256"
      using word_and_le1 [of "drop_bit 8 crc XOR ucast (buf ! counter)" "0x00FF"] by (simp add: word_le_nat_alt)
    ultimately show ?thesis
      using 1 True \<open>counter < length buf\<close>
      by (simp add: crc16_loop.simps [of buf len counter crc] index_at_def crc_byte_table)
  next
    case False
    then show ?thesis using 1 by (simp add: crc16_loop.simps)
  qed
qed

lemma crc16_loop_panics:
  "counter \<le> length buf \<Longrightarrow> length buf < len \<Longrightarrow> crc16_loop buf len counter crc = None"
proof (induction buf len counter crc rule: crc16_loop.induct)
  case (1 buf len counter crc)
  show ?case
  proof (cases "counter < length buf")
    case True
    with 1 show ?thesis by (auto simp: crc16_loop.simps [of buf len counter crc] index_at_def Let_def split: bind_splits)
  next
    case False
    with 1 have "counter = length buf" by simp
    with 1 show ?thesis by (simp add: crc16_loop.simps [of buf len "length buf"] index_at_def)
  qed
qed

section \<open>The hash-tag rule\<close>

definition hash_tag :: "bytes \<Rightarrow> bytes" where
  "hash_tag key =
     (let rest = dropWhile (\<lambda>c. c \<noteq> of_char CHR ''{'') key;
          tag = takeWhile (\<lambda>c. c \<noteq> of_char CHR ''}'') (tl rest)
      in if rest = [] \<or> of_char CHR ''}'' \<notin> set (tl rest) \<or> tag = [] then key else tag)"

lemma find_byte_takeWhile:
  "i \<le> length key \<Longrightarrow> find_byte key c i = i + length (takeWhile (\<lambda>x. x \<noteq> c) (drop i key))"
proof (induction key c i rule: find_byte.induct)
  case (1 key c i)
  show ?case
  proof (cases "i < length key")
    case True
    then have "drop i key = key ! i # drop (i + 1) key" by (simp add: Cons_nth_drop_Suc)
    with True 1 show ?thesis by (auto simp: find_byte.simps [of key c i])
  next
    case False
    with 1 have "i = length key" by simp
    then show ?thesis by (simp add: find_byte.simps [of key c "length key"])
  qed
qed

lemma crc16_ref: "n \<le> length xs \<Longrightarrow> crc16 xs n = Some (crc_ref (take n xs))"
  using crc16_loop_ref [of 0 n xs 0] by (simp add: crc16_def crc_ref_def)

lemma length_takeWhile_neq: "length (takeWhile (\<lambda>x. x \<noteq> c) xs) = length xs \<longleftrightarrow> c \<notin> set xs"
  by (metis (mono_tags, lifting) takeWhile_eq_all_conv takeWhile_eq_take take_all_iff order_refl takeWhile_eq_take)

lemma KeyHashSlot_ref: "KeyHashSlot key = Some (crc_ref (hash_tag key) AND 0x3FFF)"
proof -
  define s where "s = length (takeWhile (\<lambda>c. c \<noteq> of_char CHR ''{'') key)"
  define w where "w = takeWhile (\<lambda>c. c \<noteq> of_char CHR ''}'') (drop (s + 1) key)"
  have s: "find_byte key (of_char CHR ''{'') 0 = s" "s \<le> length key"
    using find_byte_takeWhile [of 0 key] length_takeWhile_le by (auto simp: s_def)
  have rest: "dropWhile (\<lambda>c. c \<noteq> of_char CHR ''{'') key = drop s key"
    by (simp add: s_def dropWhile_eq_drop)
  show ?thesis
  proof (cases "s = length key")
    case True
    then show ?thesis using s rest by (simp add: KeyHashSlot_def hash_tag_def crc16_ref)
  next
    case False
    then have e: "find_byte key (of_char CHR ''}'') (s + 1) = s + 1 + length w"
      using find_byte_takeWhile [of "s + 1" key] s by (simp add: w_def)
    have "s + 1 + length w = length key \<longleftrightarrow> of_char CHR ''}'' \<notin> set (drop (s + 1) key)"
      using length_takeWhile_neq [of "of_char CHR ''}''" "drop (s + 1) key"] False s(2) by (auto simp: w_def)
    moreover have "take (length w) (drop (s + 1) key) = w" "length w \<le> length key - (s + 1)"
      using length_takeWhile_le [of _ "drop (s + 1) key"] by (auto simp: w_def takeWhile_eq_take [symmetric])
    moreover have tl: "tl (drop s key) = drop (s + 1) key" by (simp add: drop_Suc tl_drop)
    ultimately show ?thesis
      unfolding KeyHashSlot_def hash_tag_def Let_def s(1) e rest tl w_def [symmetric]
      using False s(2) by (simp add: crc16_ref slice_from_def)
  qed
qed

text \<open>
  C18. The table-driven CRC16 is the bit-by-bit remainder of the division by \<open>x^16 + x^12 + x^5 + 1\<close>
  (polynomial 0x1021, initial value 0) of the first \<open>len\<close> bytes; asked for more bytes than the buffer has, it panics.
\<close>

theorem crc16_is_polynomial_remainder:
  "crc16 buf len = (if len \<le> length buf then Some (crc_ref (take len buf)) else None)"
  using crc16_ref [of len buf] crc16_loop_panics [of 0 buf len 0] by (auto simp: crc16_def)

text \<open>
  C19. \<open>KeyHashSlot\<close> never panics, and gives a slot below 16384 that is the CRC of the hash tag of the key:
  the text between the first \<open>{\<close> and the first \<open>}\<close> after it when that is there and not empty, and the
  whole key otherwise.
\<close>

theorem KeyHashSlot_hash_tag:
  "\<exists>slot. KeyHashSlot key = Some slot \<and> slot = crc_ref (hash_tag key) AND 0x3FFF \<and> unat slot < 16384"
  using word_and_le1 [of "crc_ref (hash_tag key)" "0x3FFF"]
  by (simp add: KeyHashSlot_ref word_le_nat_alt)

text \<open>
  Keys with the same tag in braces land in the same slot, whatever surrounds the tag, as long as
  there is no brace before it: the slot is that of the bare tag.
\<close>

lemma KeyHashSlot_colocates:
  assumes "of_char CHR ''{'' \<notin> set pre" and "tag \<noteq> []"
    and "of_char CHR ''}'' \<notin> set tag" and "of_char CHR ''{'' \<notin> set tag"
  shows "KeyHashSlot (pre @ lit ''{'' @ tag @ lit ''}'' @ post) = KeyHashSlot tag"
proof -
  have "dropWhile (\<lambda>c. c \<noteq> of_char CHR ''{'') (pre @ ys) = dropWhile (\<lambda>c. c \<noteq> of_char CHR ''{'') ys"
    "takeWhile (\<lambda>c. c \<noteq> of_char CHR ''}'') (tag @ ys) = tag @ takeWhile (\<lambda>c. c \<noteq> of_char CHR ''}'') ys"
    "dropWhile (\<lambda>c. c \<noteq> of_char CHR ''{'') tag = []" for ys
    using assms by (auto intro: dropWhile_append2 takeWhile_append2)
  then show ?thesis using assms(2) by (simp add: KeyHashSlot_ref hash_tag_def Let_def)
qed

lemma KeyHashSlot_colocates_example:
  "KeyHashSlot (lit ''a'' @ lit ''{'' @ lit ''u1'' @ lit ''}'' @ lit ''.x'') = KeyHashSlot (lit ''u1'')"
  using KeyHashSlot_colocates [of "lit ''a''" "lit ''u1''" "lit ''.x''"] by simp

end
