(* ===== verification/Go_Bufio.thy ===== *)
theory Go_Bufio
  imports Go_Io "HOL-Library.Sublist"
begin

text \<open>
  Go's buffered I/O over a connection, as far as the redis client uses it.

  A \<open>bufio.Writer\<close> is its buffer of 4096 bytes, the bytes the connection accepted, its sticky error
  and the outcomes of the \<open>Write\<close> calls still to come.  A write that accepts fewer bytes than it is
  given and reports no error makes the writer fail with \<open>ErrShortWrite\<close>.

  A \<open>bufio.Reader\<close> is the bytes not yet consumed.  What its operations return depends on these
  bytes only and not on how reads cut them: \<open>fill\<close> moves the unread bytes to the front of the buffer, so that
  \<open>ReadSlice\<close> fails with \<open>ErrBufferFull\<close> exactly when there is no delimiter in the next 4096 bytes.
\<close>

definition bufio_size :: nat where "bufio_size = 4096"

section \<open>Writer\<close>

record Writer =
  wr_buf :: bytes
  wr_out :: bytes
  wr_err :: bool
  wr_todo :: "write_outcome list"

text \<open>One \<open>Write\<close> on the connection: how many of the bytes it took, and whether it failed.\<close>

fun conn_write :: "Writer \<Rightarrow> bytes \<Rightarrow> nat \<times> Writer" where
  "conn_write b p = (case wr_todo b of
     WriteOk n # ws \<Rightarrow> (min n (length p), b\<lparr>wr_out := wr_out b @ take n p, wr_err := n < length p, wr_todo := ws\<rparr>)
   | WriteFail # ws \<Rightarrow> (0, b\<lparr>wr_err := True, wr_todo := ws\<rparr>)
   | [] \<Rightarrow> (0, b\<lparr>wr_err := True\<rparr>))"

definition Writer_Flush :: "Writer \<Rightarrow> Writer" where
  "Writer_Flush b =
     (if wr_err b \<or> wr_buf b = [] then b
      else let (n, b1) = conn_write b (wr_buf b) in b1\<lparr>wr_buf := drop n (wr_buf b)\<rparr>)"

text \<open>
  \<open>Write\<close>: while the bytes do not fit, an empty buffer hands them straight to the connection and
  any other one is filled and flushed; what is left is buffered.
\<close>

function Writer_Write :: "Writer \<Rightarrow> bytes \<Rightarrow> Writer" where
  "Writer_Write b p =
     (if bufio_size - length (wr_buf b) < length p \<and> \<not> wr_err b
      then (if wr_buf b = []
            then let (n, b1) = conn_write b p in
                 if wr_err b1 then b1 else Writer_Write b1 (drop n p)
            else let n = bufio_size - length (wr_buf b);
                     b1 = Writer_Flush (b\<lparr>wr_buf := wr_buf b @ take n p\<rparr>)
                 in if wr_err b1 then b1 else Writer_Write b1 (drop n p))
      else if wr_err b then b
      else b\<lparr>wr_buf := wr_buf b @ p\<rparr>)"
  by pat_completeness auto
termination
proof (relation "measure (\<lambda>(b, p). length p + length (wr_buf b))", goal_cases)
  case 1
  then show ?case by simp
next
  case (2 b p x n b1)
  then show ?case
    by (auto simp: Let_def bufio_size_def split: list.splits write_outcome.splits prod.splits)
next
  case (3 b p n b1)
  then show ?case
    by (auto simp: Let_def bufio_size_def Writer_Flush_def split: list.splits write_outcome.splits prod.splits if_splits)
qed

declare Writer_Write.simps [simp del]

text \<open>
  What was written is what the connection accepted followed by what is buffered; after an error the
  connection has a prefix of it.  What was accepted stays accepted.
\<close>

lemma conn_write_spec:
  assumes "conn_write b p = (n, b1)" and "\<not> wr_err b"
  shows "wr_out b1 = wr_out b @ take n p \<and> wr_buf b1 = wr_buf b \<and> n \<le> length p \<and> (\<not> wr_err b1 \<longrightarrow> n = length p)"
  using assms by (auto simp: min_def split: list.splits write_outcome.splits)

lemma Flush_spec:
  assumes "\<not> wr_err b"
  shows "prefix (wr_out b) (wr_out (Writer_Flush b)) \<and> prefix (wr_out (Writer_Flush b)) (wr_out b @ wr_buf b) \<and>
    (\<not> wr_err (Writer_Flush b) \<longrightarrow> wr_out (Writer_Flush b) = wr_out b @ wr_buf b \<and> wr_buf (Writer_Flush b) = [])"
proof -
  obtain n b1 where c: "conn_write b (wr_buf b) = (n, b1)" by fastforce
  show ?thesis
  proof (cases "wr_buf b = []")
    case False
    with c assms conn_write_spec [OF c assms] show ?thesis
      by (simp add: Writer_Flush_def take_is_prefix del: conn_write.simps)
  qed (simp add: Writer_Flush_def)
qed

definition written :: "Writer \<Rightarrow> bytes \<Rightarrow> Writer \<Rightarrow> bool" where
  "written b p b' \<longleftrightarrow> prefix (wr_out b) (wr_out b') \<and> prefix (wr_out b') (wr_out b @ wr_buf b @ p) \<and>
     (\<not> wr_err b' \<longrightarrow> wr_out b' @ wr_buf b' = wr_out b @ wr_buf b @ p)"

lemma Write_fits:
  "\<not> wr_err b \<Longrightarrow> length p \<le> bufio_size - length (wr_buf b) \<Longrightarrow> Writer_Write b p = b\<lparr>wr_buf := wr_buf b @ p\<rparr>"
  by (simp add: Writer_Write.simps [of b p])

lemma Write_direct:
  assumes "\<not> wr_err b" and "wr_buf b = []"
  shows "written b p (Writer_Write b p)"
proof (cases "length p \<le> bufio_size - length (wr_buf b)")
  case True
  then show ?thesis using assms by (simp add: Write_fits written_def)
next
  case False
  obtain n b1 where c: "conn_write b p = (n, b1)" by fastforce
  note cw = conn_write_spec [OF c assms(1)]
  have "Writer_Write b1 [] = b1" if "\<not> wr_err b1" using Write_fits [OF that, of "[]"] by simp
  then have "Writer_Write b p = b1"
    using False assms c cw by (simp add: Writer_Write.simps [of b p] del: conn_write.simps)
  then show ?thesis using cw assms(2) by (auto simp: written_def take_is_prefix)
qed

lemma Write_spec:
  assumes "\<not> wr_err b"
  shows "written b p (Writer_Write b p)"
proof (cases "length p \<le> bufio_size - length (wr_buf b) \<or> wr_buf b = []")
  case True
  then show ?thesis using assms Write_fits Write_direct by (auto simp: written_def)
next
  case False
  define n where "n = bufio_size - length (wr_buf b)"
  define b1 where "b1 = Writer_Flush (b\<lparr>wr_buf := wr_buf b @ take n p\<rparr>)"
  have w: "Writer_Write b p = (if wr_err b1 then b1 else Writer_Write b1 (drop n p))"
    using False assms by (simp add: Writer_Write.simps [of b p] Let_def n_def b1_def)
  have f: "prefix (wr_out b1) (wr_out b @ wr_buf b @ take n p)" "prefix (wr_out b) (wr_out b1)"
    "\<not> wr_err b1 \<Longrightarrow> wr_out b1 = wr_out b @ wr_buf b @ take n p" "\<not> wr_err b1 \<Longrightarrow> wr_buf b1 = []"
    using Flush_spec [of "b\<lparr>wr_buf := wr_buf b @ take n p\<rparr>"] assms by (simp_all add: b1_def)
  show ?thesis
  proof (cases "wr_err b1")
    case True
    have "prefix (wr_out b @ wr_buf b @ take n p) (wr_out b @ wr_buf b @ p)" by (simp add: take_is_prefix)
    from prefix_order.trans [OF f(1) this] f(2) True w show ?thesis by (simp add: written_def)
  next
    case False
    with Write_direct [of b1 "drop n p"] f w prefix_order.trans [OF f(2)] show ?thesis by (simp add: written_def)
  qed
qed

lemma Write_err: "wr_err b \<Longrightarrow> Writer_Write b p = b"
  by (simp add: Writer_Write.simps [of b p])

section \<open>Reader\<close>

datatype read_error = ReadEOF | ReadUnexpectedEOF | ErrBufferFull

definition ReadSlice :: "byte \<Rightarrow> bytes \<Rightarrow> (read_error + bytes) \<times> bytes" where
  "ReadSlice delim s =
     (let i = length (takeWhile (\<lambda>c. c \<noteq> delim) (take bufio_size s)) in
      if i < length (take bufio_size s) then (Inr (take (i + 1) s), drop (i + 1) s)
      else if bufio_size \<le> length s then (Inl ErrBufferFull, drop bufio_size s)
      else (Inl ReadEOF, []))"

definition ReadFull :: "nat \<Rightarrow> bytes \<Rightarrow> (read_error + bytes) \<times> bytes" where
  "ReadFull n s =
     (if n \<le> length s then (Inr (take n s), drop n s)
      else if s = [] then (Inl ReadEOF, [])
      else (Inl ReadUnexpectedEOF, []))"

lemma ReadSlice_line:
  assumes "c \<notin> set l" and "length l < bufio_size"
  shows "ReadSlice c (l @ c # s) = (Inr (l @ [c]), s)"
proof -
  have t: "take bufio_size (l @ c # s) = l @ c # take (bufio_size - length l - 1) s"
    using assms(2) by (simp add: take_Cons')
  have w: "takeWhile (\<lambda>x. x \<noteq> c) (l @ c # zs) = l" for zs
    using assms(1) by (subst takeWhile_append2) auto
  show ?thesis unfolding ReadSlice_def t w Let_def by simp
qed

lemma ReadSlice_shrinks: "ReadSlice c s = (Inr l, s') \<Longrightarrow> length s' < length s"
  by (auto simp: ReadSlice_def Let_def split: if_splits)

lemma ReadSlice_Inr_not_Nil: "ReadSlice c s = (Inr l, s') \<Longrightarrow> l \<noteq> []"
  by (auto simp: ReadSlice_def Let_def split: if_splits)

lemma ReadFull_append: "ReadFull (length p) (p @ s) = (Inr p, s)"
  by (simp add: ReadFull_def)

lemma ReadFull_length: "length (snd (ReadFull n s)) \<le> length s"
  by (simp add: ReadFull_def)

end
