(* ===== verification/Go_Strconv.thy ===== *)
theory Go_Strconv
  imports Go_Prelude "HOL-Library.Signed_Division"
begin

text \<open>
  The parts of Go's \<open>strconv\<close> that the sources call: decimal formatting of integers, \<open>ParseUint\<close>,
  \<open>ParseInt\<close>, \<open>Atoi\<close> and \<open>ParseBool\<close>, as the Go documentation describes them, with the round trips
  the protocol proofs use.
\<close>

section \<open>Decimal digits\<close>

definition digit :: "nat \<Rightarrow> byte" where
  "digit d = of_nat (48 + d)"

definition is_digit :: "byte \<Rightarrow> bool" where
  "is_digit b \<longleftrightarrow> of_char CHR ''0'' \<le> b \<and> b \<le> of_char CHR ''9''"

definition digit_val :: "byte \<Rightarrow> nat" where
  "digit_val b = unat b - 48"

fun nat_digits :: "nat \<Rightarrow> bytes" where
  "nat_digits n = (if n < 10 then [digit n] else nat_digits (n div 10) @ [digit (n mod 10)])"

declare nat_digits.simps [simp del]

definition digits_val :: "bytes \<Rightarrow> nat" where
  "digits_val ds = foldl (\<lambda>n b. n * 10 + digit_val b) 0 ds"

lemma digits_val_Nil [simp]: "digits_val [] = 0"
  by (simp add: digits_val_def)

lemma digits_val_snoc [simp]: "digits_val (ds @ [b]) = digits_val ds * 10 + digit_val b"
  by (simp add: digits_val_def)

lemma unat_digit: "d < 10 \<Longrightarrow> unat (digit d) = 48 + d"
  unfolding digit_def by (subst unat_of_nat) (simp add: unsigned_of_nat)

lemma is_digit_unat: "is_digit b \<longleftrightarrow> 48 \<le> unat b \<and> unat b \<le> 57"
  by (simp add: is_digit_def word_le_nat_alt)

lemma is_digit_digit [simp]: "d < 10 \<Longrightarrow> is_digit (digit d)"
  by (simp add: is_digit_unat unat_digit)

lemma digit_val_digit [simp]: "d < 10 \<Longrightarrow> digit_val (digit d) = d"
  by (simp add: digit_val_def unat_digit)

lemma digit_val_less: "is_digit b \<Longrightarrow> digit_val b < 10"
  by (auto simp: digit_val_def is_digit_unat)

lemma nat_digits_not_Nil [simp]: "nat_digits n \<noteq> []"
  by (subst nat_digits.simps) simp

lemma nat_digits_all: "\<forall>b \<in> set (nat_digits n). is_digit b"
  by (induction n rule: nat_digits.induct) (subst nat_digits.simps, auto)

lemma digits_val_nat_digits [simp]: "digits_val (nat_digits n) = n"
proof (induction n rule: nat_digits.induct)
  case (1 n)
  show ?case
  proof (cases "n < 10")
    case True
    then show ?thesis using digits_val_snoc [of "[]" "digit n"] by (simp add: nat_digits.simps [of n])
  qed (use 1 in \<open>simp add: nat_digits.simps [of n]\<close>)
qed

lemma length_nat_digits: "n < 10 ^ k \<Longrightarrow> 0 < k \<Longrightarrow> length (nat_digits n) \<le> k"
proof (induction n arbitrary: k rule: nat_digits.induct)
  case (1 n)
  show ?case
  proof (cases "n < 10")
    case False
    with 1(2) obtain j where j: "k = Suc (Suc j)"
      by (cases k; cases "k - 1") auto
    then have "n div 10 < 10 ^ Suc j" using 1(2) by (simp add: less_mult_imp_div_less mult.commute)
    with 1(1) [OF False, of "Suc j"] j False show ?thesis by (subst nat_digits.simps) simp
  qed (use 1(3) in \<open>simp add: nat_digits.simps [of n]\<close>)
qed

lemma digits_val_bound: "\<forall>b \<in> set ds. is_digit b \<Longrightarrow> digits_val ds < 10 ^ length ds"
proof (induction ds rule: rev_induct)
  case (snoc b ds)
  then have "digits_val ds < 10 ^ length ds" "digit_val b < 10" by (simp_all add: digit_val_less)
  then show ?case by simp
qed simp

section \<open>Parsing\<close>

datatype num_error = ErrSyntax | ErrRange

text \<open>
  \<open>ParseUint(s, 10, bits)\<close>: the value that comes with an error is the largest one on a range error and 0
  on a syntax error.
\<close>

definition ParseUint :: "bytes \<Rightarrow> nat \<Rightarrow> nat \<times> num_error option" where
  "ParseUint s bits =
     (if s = [] \<or> \<not> list_all is_digit s then (0, Some ErrSyntax)
      else if digits_val s < 2 ^ bits then (digits_val s, None)
      else (2 ^ bits - 1, Some ErrRange))"

definition ParseInt :: "bytes \<Rightarrow> nat \<Rightarrow> int \<times> num_error option" where
  "ParseInt s0 bits =
     (if s0 = [] then (0, Some ErrSyntax)
      else
        let neg = (hd s0 = of_char CHR ''-'');
            s = (if hd s0 = of_char CHR ''+'' \<or> neg then tl s0 else s0);
            (un, err) = ParseUint s 64;
            cutoff = 2 ^ (bits - 1)
        in if err = Some ErrSyntax then (0, err)
           else if \<not> neg \<and> cutoff \<le> un then (int cutoff - 1, Some ErrRange)
           else if neg \<and> cutoff < un then (- int cutoff, Some ErrRange)
           else (if neg then - int un else int un, None))"

definition Atoi :: "bytes \<Rightarrow> int \<times> num_error option" where
  "Atoi s = ParseInt s 64"

definition ParseBool :: "bytes \<Rightarrow> bool \<times> num_error option" where
  "ParseBool s =
     (if s \<in> {lit ''1'', lit ''t'', lit ''T'', lit ''true'', lit ''TRUE'', lit ''True''} then (True, None)
      else if s \<in> {lit ''0'', lit ''f'', lit ''F'', lit ''false'', lit ''FALSE'', lit ''False''} then (False, None)
      else (False, Some ErrSyntax))"

section \<open>Formatting\<close>

definition FormatInt :: "int \<Rightarrow> bytes" where
  "FormatInt i = (if i < 0 then of_char CHR ''-'' # nat_digits (nat (- i)) else nat_digits (nat i))"

definition FormatUint :: "nat \<Rightarrow> bytes" where
  "FormatUint n = nat_digits n"

lemma ParseUint_FormatUint: "n < 2 ^ bits \<Longrightarrow> ParseUint (FormatUint n) bits = (n, None)"
  using nat_digits_all [of n] by (simp add: ParseUint_def FormatUint_def list_all_iff)

lemma hd_nat_digits: "is_digit (hd (nat_digits n))"
  using nat_digits_all [of n] by (simp add: hd_in_set)

lemma digit_no_sign: "is_digit b \<Longrightarrow> b \<noteq> of_char CHR ''-'' \<and> b \<noteq> of_char CHR ''+''"
  by (auto simp: is_digit_unat)

lemma ParseInt_FormatInt:
  assumes "0 < bits" and "bits \<le> 64" and "- (2 ^ (bits - 1)) \<le> i" and "i < 2 ^ (bits - 1)"
  shows "ParseInt (FormatInt i) bits = (i, None)"
proof -
  have "(2 :: int) ^ (bits - 1) \<le> 2 ^ 63" using assms(2) by (intro power_increasing) auto
  then have u: "nat \<bar>i\<bar> < 2 ^ 64" using assms(3,4) by auto
  from ParseUint_FormatUint [OF u] have p: "ParseUint (nat_digits (nat \<bar>i\<bar>)) 64 = (nat \<bar>i\<bar>, None)"
    by (simp add: FormatUint_def)
  show ?thesis
  proof (cases "i < 0")
    case True
    then have "\<not> 2 ^ (bits - 1) < nat \<bar>i\<bar>" using assms(3) by (simp add: nat_le_iff not_less)
    with True p show ?thesis by (simp add: ParseInt_def FormatInt_def)
  next
    case False
    then have "\<not> 2 ^ (bits - 1) \<le> nat \<bar>i\<bar>" using assms(4) by (simp add: nat_less_iff not_le)
    with False p digit_no_sign [OF hd_nat_digits [of "nat i"]] show ?thesis
      by (simp add: ParseInt_def FormatInt_def)
  qed
qed

end
