(* ===== verification/Go_Value.thy ===== *)
theory Go_Value
  imports Go_Strconv
begin

text \<open>
  Go types and values as reflection and the type switches of the redis client see them.

  \<^item> \<open>gotype\<close> is a type of a struct field and \<open>gval\<close> a value of it: the integer kinds with their sizes,
    floats, booleans, strings, byte slices, structs, and any other type.  A field has its name, whether it
    is exported and whether it is embedded, the value of its \<open>redis\<close> tag, and its type.
  \<^item> \<open>iface\<close> is a value of the empty interface: the dynamic types the sources name, and any other Go value.

  A float is the bit pattern of its value as a float64.  A nil and an empty byte slice are the same
  value.  Formatting and parsing of floats and the printing of other values by \<open>fmt.Fprint\<close> are parameters, the
  fields of \<open>go_fmt\<close>.
\<close>

datatype ikind = K_int | K_8 | K_16 | K_32 | K_64

fun kind_bits :: "ikind \<Rightarrow> nat" where
  "kind_bits K_int = 64"
| "kind_bits K_8 = 8"
| "kind_bits K_16 = 16"
| "kind_bits K_32 = 32"
| "kind_bits K_64 = 64"

datatype gotype =
    TInt ikind
  | TUint ikind
  | TFloat nat
  | TBool
  | TString
  | TBytes
  | TStruct "gofield list"
  | TOther nat
and gofield = GoField (gf_name: bytes) (gf_exported: bool) (gf_anonymous: bool) (gf_tag: bytes) (gf_type: gotype)

datatype gval =
    VInt ikind int
  | VUint ikind nat
  | VFloat nat "64 word"
  | VBool bool
  | VString bytes
  | VBytes bytes
  | VStruct "gval list"
  | VOther nat

datatype iface =
    INil
  | IString bytes
  | IBytes bytes
  | IInt "64 word"
  | IInt8 "8 word"
  | IInt16 "16 word"
  | IInt32 "32 word"
  | IInt64 "64 word"
  | IUint "64 word"
  | IUint8 "8 word"
  | IUint16 "16 word"
  | IUint32 "32 word"
  | IUint64 "64 word"
  | IFloat64 "64 word"
  | IBool bool
  | IError bytes
  | IList "iface list"
  | IOther gval

record go_fmt =
  FormatFloat :: "64 word \<Rightarrow> bytes"
  ParseFloat :: "bytes \<Rightarrow> nat \<Rightarrow> (64 word) \<times> num_error option"
  Fprint_other :: "iface \<Rightarrow> bytes"

text \<open>\<open>fmt.Fprint\<close>: integers in decimal, an error by its message, and the parameter for the rest.\<close>

fun Fprint :: "go_fmt \<Rightarrow> iface \<Rightarrow> bytes" where
  "Fprint L (IInt8 w) = FormatInt (sint w)"
| "Fprint L (IInt16 w) = FormatInt (sint w)"
| "Fprint L (IInt32 w) = FormatInt (sint w)"
| "Fprint L (IUint w) = FormatUint (unat w)"
| "Fprint L (IUint8 w) = FormatUint (unat w)"
| "Fprint L (IUint16 w) = FormatUint (unat w)"
| "Fprint L (IUint32 w) = FormatUint (unat w)"
| "Fprint L (IUint64 w) = FormatUint (unat w)"
| "Fprint L (IError e) = e"
| "Fprint L v = Fprint_other L v"

text \<open>\<open>Interface()\<close> of a reflected value.\<close>

fun to_iface :: "gval \<Rightarrow> iface" where
  "to_iface (VInt K_int i) = IInt (word_of_int i)"
| "to_iface (VInt K_8 i) = IInt8 (word_of_int i)"
| "to_iface (VInt K_16 i) = IInt16 (word_of_int i)"
| "to_iface (VInt K_32 i) = IInt32 (word_of_int i)"
| "to_iface (VInt K_64 i) = IInt64 (word_of_int i)"
| "to_iface (VUint K_int n) = IUint (of_nat n)"
| "to_iface (VUint K_8 n) = IUint8 (of_nat n)"
| "to_iface (VUint K_16 n) = IUint16 (of_nat n)"
| "to_iface (VUint K_32 n) = IUint32 (of_nat n)"
| "to_iface (VUint K_64 n) = IUint64 (of_nat n)"
| "to_iface (VFloat b x) = (if b = 64 then IFloat64 x else IOther (VFloat b x))"
| "to_iface (VBool b) = IBool b"
| "to_iface (VString s) = IString s"
| "to_iface (VBytes s) = IBytes s"
| "to_iface v = IOther v"

lemma field_size [termination_simp]: "f \<in> set fs \<Longrightarrow> size (gf_type f) < Suc (size_list size fs)"
proof -
  assume "f \<in> set fs"
  then have "size f \<le> size_list size fs" by (induction fs) auto
  moreover have "size (gf_type f) < size f" by (cases f) simp
  ultimately show ?thesis by simp
qed

text \<open>The zero value of a type.\<close>

fun zero_val :: "gotype \<Rightarrow> gval" where
  "zero_val (TInt k) = VInt k 0"
| "zero_val (TUint k) = VUint k 0"
| "zero_val (TFloat b) = VFloat b 0"
| "zero_val TBool = VBool False"
| "zero_val TString = VString []"
| "zero_val TBytes = VBytes []"
| "zero_val (TStruct fs) = VStruct (map (\<lambda>f. zero_val (gf_type f)) fs)"
| "zero_val (TOther n) = VOther n"

text \<open>The values of a type.\<close>

fun has_type :: "gval \<Rightarrow> gotype \<Rightarrow> bool" where
  "has_type (VInt k i) (TInt k') \<longleftrightarrow> k = k' \<and> - (2 ^ (kind_bits k - 1)) \<le> i \<and> i < 2 ^ (kind_bits k - 1)"
| "has_type (VUint k n) (TUint k') \<longleftrightarrow> k = k' \<and> n < 2 ^ kind_bits k"
| "has_type (VFloat b x) (TFloat b') \<longleftrightarrow> b = b'"
| "has_type (VBool b) TBool \<longleftrightarrow> True"
| "has_type (VString s) TString \<longleftrightarrow> True"
| "has_type (VBytes s) TBytes \<longleftrightarrow> True"
| "has_type (VStruct vs) (TStruct fs) \<longleftrightarrow> list_all2 (\<lambda>v f. has_type v (gf_type f)) vs fs"
| "has_type (VOther n) (TOther n') \<longleftrightarrow> True"
| "has_type _ _ \<longleftrightarrow> False"

end
