(* ===== verification/Redis_Codec.thy ===== *)
theory Redis_Codec
  imports Go_Bufio Go_Value
begin

text \<open>
  The wire protocol of the redis client, \<open>lib/redis/redisConn.go\<close>: what \<open>writeCommand\<close> puts on the connection
  for a command and what \<open>readReply\<close> makes of the bytes that come back.  An error reply of the connection is the left side of a
  sum: the zero value that Go returns beside an error is not kept.  The part of \<open>RedisCon\<close> that
  these functions use is the scratch array for lengths and the buffered writer; the reader is the
  bytes still to be read.
\<close>

text \<open>
  The errors of the redis package.  \<open>IoErr\<close> is an error of the reader, \<open>WriteErr\<close> one of the writer,
  \<open>Unexpected\<close> stands for the \<open>fmt.Errorf\<close> texts that name a Go type, with their constant part.
\<close>

datatype redis_error =
    ErrInvalidArgNum
  | ErrRedisConClose
  | ErrRedisNetFatal
  | ErrNil
  | ErrorKeyTooLong
  | errNegativeInt
  | StrconvErr num_error
  | protocolError bytes
  | RedisError bytes
  | Unexpected bytes
  | IoErr read_error
  | WriteErr

record RedisNet =
  lenScratch :: bytes
  net_bw :: Writer

definition CR :: byte where "CR = 13"

definition LF :: byte where "LF = 10"

definition STRLINEBREAK :: bytes where "STRLINEBREAK = [CR, LF]"

definition ARGSNUMARRAY :: int where "ARGSNUMARRAY = - 1"

definition ARGSKEY :: int where "ARGSKEY = 4"

section \<open>Writing commands\<close>

text \<open>The digit loop of \<open>writeLen\<close>, with Go's truncating division and remainder.\<close>

lemma sdiv_10_less: "(n :: int) sdiv 10 \<noteq> 0 \<Longrightarrow> \<bar>n sdiv 10\<bar> < \<bar>n\<bar>"
  by (auto simp: signed_divide_int_def sgn_if split: if_splits)

function writeLen_loop :: "bytes \<Rightarrow> int \<Rightarrow> int \<Rightarrow> (bytes \<times> int) option" where
  "writeLen_loop a i n =
     (if i < 0 then None
      else case set_at a (nat i) (of_int (48 + n smod 10)) of
        None \<Rightarrow> None
      | Some a1 \<Rightarrow>
          if n sdiv 10 = 0 then Some (a1, i - 1) else writeLen_loop a1 (i - 1) (n sdiv 10))"
  by pat_completeness auto
termination
  by (relation "measure (\<lambda>(a, i, n). nat \<bar>n\<bar>)") (auto simp: sdiv_10_less)

declare writeLen_loop.simps [simp del]

definition net_write :: "RedisNet \<Rightarrow> bytes \<Rightarrow> RedisNet \<times> redis_error option" where
  "net_write c p = (let b = Writer_Write (net_bw c) p in
     (c\<lparr>net_bw := b\<rparr>, if wr_err b then Some WriteErr else None))"

definition writeLen :: "RedisNet \<Rightarrow> byte \<Rightarrow> int \<Rightarrow> (RedisNet \<times> redis_error option) option" where
  "writeLen c prefx n = do {
     a1 \<leftarrow> set_at (lenScratch c) (length (lenScratch c) - 1) LF;
     a2 \<leftarrow> set_at a1 (length a1 - 2) CR;
     (a3, i) \<leftarrow> writeLen_loop a2 (int (length a2) - 3) n;
     a4 \<leftarrow> (if i < 0 then None else set_at a3 (nat i) prefx);
     p \<leftarrow> slice_from a4 (nat i);
     Some (net_write (c\<lparr>lenScratch := a4\<rparr>) p)
   }"

definition writeBytes :: "RedisNet \<Rightarrow> bytes \<Rightarrow> (RedisNet \<times> redis_error option) option" where
  "writeBytes c p = do {
     (c1, _) \<leftarrow> writeLen c (of_char CHR ''$'') (int (length p));
     let (c2, _) = net_write c1 p;
     Some (net_write c2 STRLINEBREAK)
   }"

definition writeString :: "RedisNet \<Rightarrow> bytes \<Rightarrow> (RedisNet \<times> redis_error option) option" where
  "writeString c s = do {
     (c1, _) \<leftarrow> writeLen c (of_char CHR ''$'') (int (length s));
     let (c2, _) = net_write c1 s;
     Some (net_write c2 STRLINEBREAK)
   }"

definition writeInt64 :: "RedisNet \<Rightarrow> 64 word \<Rightarrow> (RedisNet \<times> redis_error option) option" where
  "writeInt64 c n = writeBytes c (FormatInt (sint n))"

definition writeFloat64 :: "go_fmt \<Rightarrow> RedisNet \<Rightarrow> 64 word \<Rightarrow> (RedisNet \<times> redis_error option) option" where
  "writeFloat64 L c n = writeBytes c (FormatFloat L n)"

fun writeInterface :: "go_fmt \<Rightarrow> RedisNet \<Rightarrow> iface \<Rightarrow> (RedisNet \<times> redis_error option) option" where
  "writeInterface L c (IString s) = writeString c s"
| "writeInterface L c (IBytes p) = writeBytes c p"
| "writeInterface L c (IInt n) = writeInt64 c n"
| "writeInterface L c (IInt64 n) = writeInt64 c n"
| "writeInterface L c (IFloat64 x) = writeFloat64 L c x"
| "writeInterface L c (IBool b) = (if b then writeString c (lit ''1'') else writeString c (lit ''0''))"
| "writeInterface L c INil = writeString c []"
| "writeInterface L c arg = writeBytes c (Fprint L arg)"

text \<open>Writing arguments one after the other, up to the first error.\<close>

fun writeInterfaces :: "go_fmt \<Rightarrow> RedisNet \<Rightarrow> iface list \<Rightarrow> (RedisNet \<times> redis_error option) option" where
  "writeInterfaces L c [] = Some (c, None)"
| "writeInterfaces L c (arg # args) = do {
     (c1, err) \<leftarrow> writeInterface L c arg;
     if err \<noteq> None then Some (c1, err) else writeInterfaces L c1 args
   }"

text \<open>
  \<open>writeCommand\<close>: the array header, the command name and the arguments by their number.  \<open>args\<close> is the
  pointer to the argument list, which may be nil.
\<close>

definition writeHeader :: "RedisNet \<Rightarrow> int \<Rightarrow> iface list option \<Rightarrow> (RedisNet \<times> redis_error option) option" where
  "writeHeader c argNum args =
     (if argNum = ARGSKEY then args \<bind> (\<lambda>as. writeLen c (of_char CHR ''*'') (2 + int (length as)))
      else if argNum = ARGSNUMARRAY then args \<bind> (\<lambda>as. writeLen c (of_char CHR ''*'') (1 + int (length as)))
      else writeLen c (of_char CHR ''*'') (1 + argNum))"

definition writeArgs ::
  "go_fmt \<Rightarrow> RedisNet \<Rightarrow> int \<Rightarrow> iface \<Rightarrow> iface \<Rightarrow> iface \<Rightarrow> iface list option \<Rightarrow> (RedisNet \<times> redis_error option) option" where
  "writeArgs L c argNum arg1 arg2 arg3 args =
     (if argNum = ARGSNUMARRAY then (case args of None \<Rightarrow> Some (c, None) | Some as \<Rightarrow> writeInterfaces L c as)
      else if argNum = 0 then Some (c, None)
      else if argNum = 1 then writeInterfaces L c [arg1]
      else if argNum = 2 then writeInterfaces L c [arg1, arg2]
      else if argNum = 3 then writeInterfaces L c [arg1, arg2, arg3]
      else if argNum = ARGSKEY then
        writeInterfaces L c (arg1 # (case args of None \<Rightarrow> [] | Some as \<Rightarrow> as))
      else Some (c, Some ErrInvalidArgNum))"

definition writeCommand_body ::
  "go_fmt \<Rightarrow> RedisNet \<Rightarrow> int \<Rightarrow> bytes \<Rightarrow> iface \<Rightarrow> iface \<Rightarrow> iface \<Rightarrow> iface list option
     \<Rightarrow> (RedisNet \<times> redis_error option) option" where
  "writeCommand_body L c argNum cmd arg1 arg2 arg3 args = do {
     (c1, err1) \<leftarrow> writeHeader c argNum args;
     if err1 \<noteq> None then Some (c1, err1)
     else do {
       (c2, err2) \<leftarrow> writeString c1 cmd;
       if err2 \<noteq> None then Some (c2, err2) else writeArgs L c2 argNum arg1 arg2 arg3 args
     }
   }"

text \<open>The deferred \<open>recover\<close> turns a panic into \<open>ErrRedisNetFatal\<close>.\<close>

definition writeCommand ::
  "go_fmt \<Rightarrow> RedisNet \<Rightarrow> int \<Rightarrow> bytes \<Rightarrow> iface \<Rightarrow> iface \<Rightarrow> iface \<Rightarrow> iface list option
     \<Rightarrow> RedisNet \<times> redis_error option" where
  "writeCommand L c argNum cmd arg1 arg2 arg3 args =
     (case writeCommand_body L c argNum cmd arg1 arg2 arg3 args of
        None \<Rightarrow> (c, Some ErrRedisNetFatal)
      | Some r \<Rightarrow> r)"

section \<open>Reading replies\<close>

definition readLine :: "bytes \<Rightarrow> (redis_error + bytes) \<times> bytes" where
  "readLine s = (case ReadSlice LF s of
     (Inl ErrBufferFull, s1) \<Rightarrow> (Inl (protocolError (lit ''long response line'')), s1)
   | (Inl e, s1) \<Rightarrow> (Inl (IoErr e), s1)
   | (Inr p, s1) \<Rightarrow>
       if length p < 2 \<or> p ! (length p - 2) \<noteq> CR
       then (Inl (protocolError (lit ''bad response line terminator'')), s1)
       else (Inr (take (length p - 2) p), s1))"

fun parse_digits :: "bytes \<Rightarrow> 64 word \<Rightarrow> (64 word) option" where
  "parse_digits [] n = Some n"
| "parse_digits (b # bs) n =
     (if b < of_char CHR ''0'' \<or> b > of_char CHR ''9'' then None
      else parse_digits bs (n * 10 + ucast (b - of_char CHR ''0'')))"

definition parseLen :: "bytes \<Rightarrow> (64 word) \<times> redis_error option" where
  "parseLen p =
     (if p = [] then (- 1, Some (protocolError (lit ''malformed length'')))
      else if p = lit ''-1'' then (- 1, None)
      else case parse_digits p 0 of
        None \<Rightarrow> (- 1, Some (protocolError (lit ''illegal bytes in length'')))
      | Some n \<Rightarrow> (n, None))"

definition parseInt :: "bytes \<Rightarrow> (64 word) \<times> redis_error option" where
  "parseInt p0 =
     (if p0 = [] then (0, Some (protocolError (lit ''malformed integer'')))
      else
        let negate = (hd p0 = of_char CHR ''-''); p = (if negate then tl p0 else p0)
        in if p = [] then (0, Some (protocolError (lit ''malformed integer'')))
           else case parse_digits p 0 of
             None \<Rightarrow> (0, Some (protocolError (lit ''illegal bytes in length'')))
           | Some n \<Rightarrow> (if negate then - n else n, None))"

text \<open>A reply, or an error, and what is left of the stream.\<close>

type_synonym reply = "(redis_error + iface) \<times> bytes"

definition readBulk :: "bytes \<Rightarrow> bytes \<Rightarrow> reply" where
  "readBulk p s1 = (case parseLen p of
     (n, Some e) \<Rightarrow> (Inl e, s1)
   | (n, None) \<Rightarrow>
       if sint n < 0 then (Inr INil, s1)
       else if maxAlloc < unat n then (Inl ErrRedisNetFatal, s1)
       else (case ReadFull (unat n) s1 of
           (Inl e, s2) \<Rightarrow> (Inl (IoErr e), s2)
         | (Inr q, s2) \<Rightarrow> (case readLine s2 of
               (Inl e, s3) \<Rightarrow> (Inl e, s3)
             | (Inr l, s3) \<Rightarrow>
                 if l \<noteq> [] then (Inl (protocolError (lit ''bad bulk string format'')), s3)
                 else (Inr (IBytes q), s3))))"

text \<open>
  \<open>readReply\<close> up to the loop over the elements of an array: a finished reply, or the number of
  elements to read.
\<close>

definition readHead :: "bytes \<Rightarrow> reply + nat \<times> bytes" where
  "readHead s = (case readLine s of
     (Inl e, s1) \<Rightarrow> Inl (Inl e, s1)
   | (Inr [], s1) \<Rightarrow> Inl (Inl (protocolError (lit ''short response line'')), s1)
   | (Inr (c # p), s1) \<Rightarrow>
       if c = of_char CHR ''+'' then Inl (Inr (IString p), s1)
       else if c = of_char CHR ''-'' then Inl (Inr (IError p), s1)
       else if c = of_char CHR '':'' then
         (case parseInt p of (n, None) \<Rightarrow> Inl (Inr (IInt64 n), s1) | (n, Some e) \<Rightarrow> Inl (Inl e, s1))
       else if c = of_char CHR ''$'' then Inl (readBulk p s1)
       else if c = of_char CHR ''*'' then
         (case parseLen p of
            (n, Some e) \<Rightarrow> Inl (Inl e, s1)
          | (n, None) \<Rightarrow>
              if sint n < 0 then Inl (Inr INil, s1)
              else if maxAlloc < 16 * unat n then Inl (Inl ErrRedisNetFatal, s1)
              else Inr (unat n, s1))
       else Inl (Inl (protocolError (lit ''unexpected response line'')), s1))"

text \<open>
  \<open>readReply\<close> and its loop over the elements of an array.  The fuel bounds the nesting and the
  elements together; \<open>None\<close> is running out of it.  A panic is recovered as \<open>ErrRedisNetFatal\<close>.
\<close>

fun readReply :: "nat \<Rightarrow> bytes \<Rightarrow> reply option" and
    readItems :: "nat \<Rightarrow> nat \<Rightarrow> bytes \<Rightarrow> ((redis_error + iface list) \<times> bytes) option" where
  "readReply 0 s = None"
| "readReply (Suc k) s = (case readHead s of
     Inl r \<Rightarrow> Some r
   | Inr (n, s1) \<Rightarrow> (case readItems k n s1 of
         None \<Rightarrow> None
       | Some (Inl e, s2) \<Rightarrow> Some (Inl e, s2)
       | Some (Inr vs, s2) \<Rightarrow> Some (Inr (IList vs), s2)))"
| "readItems k 0 s = Some (Inr [], s)"
| "readItems 0 (Suc n) s = None"
| "readItems (Suc k) (Suc n) s = (case readReply k s of
     None \<Rightarrow> None
   | Some (Inl e, s1) \<Rightarrow> Some (Inl e, s1)
   | Some (Inr v, s1) \<Rightarrow> (case readItems k n s1 of
         None \<Rightarrow> None
       | Some (Inl e, s2) \<Rightarrow> Some (Inl e, s2)
       | Some (Inr vs, s2) \<Rightarrow> Some (Inr (v # vs), s2)))"

declare readReply.simps [simp del] and readItems.simps [simp del]

section \<open>What a command looks like on the wire\<close>

lemma set_at_drop: "i < length a \<Longrightarrow> drop i (a[i := x]) = x # drop (Suc i) a"
  using Cons_nth_drop_Suc [of i "a[i := x]"] by simp

lemma writeLen_loop_digits:
  assumes "0 \<le> n" and "int (length (nat_digits (nat n))) \<le> i + 1" and "nat i < length a"
  shows "\<exists>a'. writeLen_loop a i n = Some (a', i - int (length (nat_digits (nat n)))) \<and> length a' = length a \<and>
    drop (nat (i - int (length (nat_digits (nat n))) + 1)) a' = nat_digits (nat n) @ drop (nat i + 1) a"
  using assms
proof (induction a i n rule: writeLen_loop.induct)
  case (1 a i n)
  have "0 < length (nat_digits (nat n))" by simp
  with 1(3) have i: "0 \<le> i" by linarith
  have q: "n sdiv 10 = n div 10" "n smod 10 = n mod 10"
    using 1(2) by (simp_all add: signed_divide_int_def signed_modulo_int_def sgn_if minus_mult_div_eq_mod)
  have "n mod 10 = int (nat n mod 10)" using 1(2) by (simp add: zmod_int)
  then have d: "of_int (48 + n mod 10) = digit (nat n mod 10)"
    by (simp only: digit_def) simp
  let ?a1 = "a[nat i := digit (nat n mod 10)]"
  have step: "writeLen_loop a i n =
    (if n div 10 = 0 then Some (?a1, i - 1) else writeLen_loop ?a1 (i - 1) (n div 10))"
    using 1(4) i by (subst writeLen_loop.simps) (simp only: q d, simp add: set_at_def)
  show ?case
  proof (cases "n < 10")
    case True
    then show ?thesis
      using 1(2,4) i step by (simp add: nat_digits.simps [of "nat n"] set_at_drop)
  next
    case False
    have digs: "nat_digits (nat n) = nat_digits (nat (n div 10)) @ [digit (nat n mod 10)]"
      using False by (subst nat_digits.simps) (simp add: nat_div_distrib)
    have "\<exists>a'. writeLen_loop ?a1 (i - 1) (n div 10) =
        Some (a', i - 1 - int (length (nat_digits (nat (n div 10))))) \<and> length a' = length ?a1 \<and>
      drop (nat (i - 1 - int (length (nat_digits (nat (n div 10)))) + 1)) a' =
        nat_digits (nat (n div 10)) @ drop (nat (i - 1) + 1) ?a1"
    proof (rule 1(1) [of ?a1, unfolded q])
      show "set_at a (nat i) (of_int (48 + n mod 10)) = Some ?a1"
        using 1(4) unfolding d by (simp add: set_at_def)
    qed (use False 1(2-4) i digs in auto)
    moreover obtain b bs where "nat_digits (nat (n div 10)) = b # bs"
      using nat_digits_not_Nil by (cases "nat_digits (nat (n div 10))") blast+
    then have "nat (i - 1) + 1 = nat i" using digs 1(3) by simp
    ultimately show ?thesis
      using step False 1(4) digs by (auto simp: set_at_drop algebra_simps)
  qed
qed

lemma writeLen_bytes:
  assumes "length (lenScratch c) = 32" and "0 \<le> n" and "n < 2 ^ 63"
  shows "\<exists>a. length a = 32 \<and>
    writeLen c x n = Some (net_write (c\<lparr>lenScratch := a\<rparr>) (x # nat_digits (nat n) @ STRLINEBREAK))"
proof -
  let ?k = "length (nat_digits (nat n))"
  have "nat n < 10 ^ 19" using assms(2,3) by (simp add: nat_less_iff)
  then have k: "?k \<le> 19" by (rule length_nat_digits) simp
  define a2 where "a2 = (lenScratch c)[31 := LF, 30 := CR]"
  have a2: "length a2 = 32" "drop 30 a2 = STRLINEBREAK"
    using assms(1) set_at_drop [of 30 "(lenScratch c)[31 := LF]" CR] set_at_drop [of 31 "lenScratch c" LF]
    by (simp_all add: a2_def STRLINEBREAK_def)
  obtain a3 where a3: "writeLen_loop a2 29 n = Some (a3, 29 - int ?k)" "length a3 = 32"
    "drop (nat (29 - int ?k + 1)) a3 = nat_digits (nat n) @ STRLINEBREAK"
    using writeLen_loop_digits [OF assms(2), of 29 a2] k a2 by auto
  let ?i = "29 - ?k"
  have i: "nat (29 - int ?k) = ?i" "\<not> 29 - int ?k < 0" "nat (29 - int ?k + 1) = Suc ?i" "?i < 32"
    using k by linarith+
  have "drop ?i (a3[?i := x]) = x # nat_digits (nat n) @ STRLINEBREAK"
    using set_at_drop [of ?i a3 x] a3 unfolding i by simp
  then have "writeLen c x n =
      Some (net_write (c\<lparr>lenScratch := a3[?i := x]\<rparr>) (x # nat_digits (nat n) @ STRLINEBREAK))"
    using assms(1) a2(1) a3(1,2) i by (simp add: writeLen_def set_at_def slice_from_def a2_def)
  then show ?thesis using a3(2) by (intro exI [of _ "a3[?i := x]"]) simp
qed

text \<open>
  From \<open>c\<close> to \<open>c'\<close> the bytes \<open>p\<close> were written: all of them, or a prefix and then the writer's error, which
  stays.
\<close>

definition wrote :: "RedisNet \<Rightarrow> bytes \<Rightarrow> RedisNet \<Rightarrow> bool" where
  "wrote c p c' \<longleftrightarrow> length (lenScratch c') = 32 \<and>
     (if wr_err (net_bw c) then net_bw c' = net_bw c else written (net_bw c) p (net_bw c'))"

lemma wrote_append: "wrote c p c1 \<Longrightarrow> wrote c1 q c2 \<Longrightarrow> wrote c (p @ q) c2"
  by (auto simp: wrote_def written_def split: if_splits) (metis append_assoc prefix_append prefixI prefix_order.trans)+

definition werr :: "RedisNet \<Rightarrow> redis_error option" where
  "werr c = (if wr_err (net_bw c) then Some WriteErr else None)"

lemma net_write_wrote:
  assumes "length (lenScratch c) = 32"
  shows "\<exists>c'. net_write c p = (c', werr c') \<and> wrote c p c'"
  using assms Write_err [of "net_bw c" p] Write_spec [of "net_bw c" p]
  by (auto simp: net_write_def wrote_def werr_def Let_def)

lemma writeLen_wrote:
  assumes "length (lenScratch c) = 32" and "0 \<le> n" and "n < 2 ^ 63"
  shows "\<exists>c'. writeLen c x n = Some (c', werr c') \<and> wrote c (x # nat_digits (nat n) @ STRLINEBREAK) c'"
proof -
  obtain a where a: "length a = 32"
    "writeLen c x n = Some (net_write (c\<lparr>lenScratch := a\<rparr>) (x # nat_digits (nat n) @ STRLINEBREAK))"
    using writeLen_bytes [OF assms] by blast
  from net_write_wrote [of "c\<lparr>lenScratch := a\<rparr>"] a show ?thesis by (fastforce simp: wrote_def)
qed

text \<open>A bulk string, and a command as an array of bulk strings.\<close>

definition bulk :: "bytes \<Rightarrow> bytes" where
  "bulk s = of_char CHR ''$'' # nat_digits (length s) @ STRLINEBREAK @ s @ STRLINEBREAK"

definition command_bytes :: "bytes list \<Rightarrow> bytes" where
  "command_bytes ss = of_char CHR ''*'' # nat_digits (length ss) @ STRLINEBREAK @ concat (map bulk ss)"

lemma writeBytes_wrote:
  assumes "length (lenScratch c) = 32" and "length p < 2 ^ 63"
  shows "\<exists>c'. writeBytes c p = Some (c', werr c') \<and> wrote c (bulk p) c'"
proof -
  have "int (length p) < 2 ^ 63" using assms(2) by simp
  then obtain c1 where c1: "writeLen c (of_char CHR ''$'') (int (length p)) = Some (c1, werr c1)"
    "wrote c (of_char CHR ''$'' # nat_digits (length p) @ STRLINEBREAK) c1"
    using writeLen_wrote [OF assms(1), of "int (length p)" "of_char CHR ''$''"] by auto
  obtain c2 where c2: "net_write c1 p = (c2, werr c2)" "wrote c1 p c2"
    using net_write_wrote [of c1 p] c1(2) by (auto simp: wrote_def)
  obtain c3 where c3: "net_write c2 STRLINEBREAK = (c3, werr c3)" "wrote c2 STRLINEBREAK c3"
    using net_write_wrote [of c2 STRLINEBREAK] c2(2) by (auto simp: wrote_def)
  have "wrote c (bulk p) c3"
    using wrote_append [OF wrote_append [OF c1(2) c2(2)] c3(2)] by (simp add: bulk_def)
  with c1 c2 c3 show ?thesis by (simp add: writeBytes_def)
qed

lemma writeString_wrote:
  assumes "length (lenScratch c) = 32" and "length p < 2 ^ 63"
  shows "\<exists>c'. writeString c p = Some (c', werr c') \<and> wrote c (bulk p) c'"
  using writeBytes_wrote [OF assms] by (simp add: writeString_def writeBytes_def)

text \<open>The text of an argument.\<close>

fun arg_text :: "go_fmt \<Rightarrow> iface \<Rightarrow> bytes" where
  "arg_text L (IString s) = s"
| "arg_text L (IBytes p) = p"
| "arg_text L (IInt n) = FormatInt (sint n)"
| "arg_text L (IInt64 n) = FormatInt (sint n)"
| "arg_text L (IFloat64 x) = FormatFloat L x"
| "arg_text L (IBool b) = (if b then lit ''1'' else lit ''0'')"
| "arg_text L INil = []"
| "arg_text L arg = Fprint L arg"

lemma writeInterface_wrote:
  assumes "length (lenScratch c) = 32" and "length (arg_text L arg) < 2 ^ 63"
  shows "\<exists>c'. writeInterface L c arg = Some (c', werr c') \<and> wrote c (bulk (arg_text L arg)) c'"
  using writeBytes_wrote [OF assms] writeString_wrote [OF assms] 
  by (cases arg) (simp_all add: writeInt64_def writeFloat64_def split: if_splits)

lemma writeInterfaces_wrote:
  assumes "length (lenScratch c) = 32" and "\<forall>arg \<in> set args. length (arg_text L arg) < 2 ^ 63" and "\<not> wr_err (net_bw c)"
  shows "\<exists>c'. writeInterfaces L c args = Some (c', werr c') \<and> wrote c (concat (map (\<lambda>arg. bulk (arg_text L arg)) args)) c'"
  using assms
proof (induction args arbitrary: c)
  case Nil
  then show ?case by (auto simp: werr_def wrote_def written_def)
next
  case (Cons arg args)
  obtain c1 where c1: "writeInterface L c arg = Some (c1, werr c1)" "wrote c (bulk (arg_text L arg)) c1"
    using writeInterface_wrote [of c L arg] Cons.prems by auto
  show ?case
  proof (cases "wr_err (net_bw c1)")
    case True
    then have "wrote c1 p c1" for p using c1(2) by (simp add: wrote_def)
    from wrote_append [OF c1(2) this] True c1(1) show ?thesis by (auto simp: werr_def)
  next
    case False
    then obtain c2 where c2: "writeInterfaces L c1 args = Some (c2, werr c2)"
      "wrote c1 (concat (map (\<lambda>arg. bulk (arg_text L arg)) args)) c2"
      using Cons.IH [of c1] Cons.prems c1(2) by (auto simp: wrote_def)
    from wrote_append [OF c1(2) c2(2)] c1(1) c2(1) False show ?thesis by (auto simp: werr_def)
  qed
qed

text \<open>The arguments a command carries, by the way it was packed.\<close>

definition command_args :: "int \<Rightarrow> iface \<Rightarrow> iface \<Rightarrow> iface \<Rightarrow> iface list option \<Rightarrow> iface list option" where
  "command_args argNum arg1 arg2 arg3 args =
     (if argNum = ARGSNUMARRAY then args
      else if argNum = 0 then Some []
      else if argNum = 1 then Some [arg1]
      else if argNum = 2 then Some [arg1, arg2]
      else if argNum = 3 then Some [arg1, arg2, arg3]
      else if argNum = ARGSKEY then map_option (\<lambda>as. arg1 # as) args
      else None)"

lemma writeArgs_list:
  assumes "command_args argNum arg1 arg2 arg3 args = Some as"
  shows "writeArgs L c argNum arg1 arg2 arg3 args = writeInterfaces L c as"
    and "writeHeader c argNum args = writeLen c (of_char CHR ''*'') (1 + int (length as))"
  using assms
  by (auto simp: command_args_def writeArgs_def writeHeader_def ARGSNUMARRAY_def ARGSKEY_def
      simp del: writeInterfaces.simps(2) split: if_splits)

lemma writeCommand_wrote:
  assumes "length (lenScratch c) = 32" and "\<not> wr_err (net_bw c)"
    and "command_args argNum arg1 arg2 arg3 args = Some as"
    and "length as + 1 < 2 ^ 63" and "length cmd < 2 ^ 63" and "\<forall>arg \<in> set as. length (arg_text L arg) < 2 ^ 63"
  shows "\<exists>c'. writeCommand L c argNum cmd arg1 arg2 arg3 args = (c', werr c') \<and>
    wrote c (command_bytes (cmd # map (arg_text L) as)) c'"
proof -
  have sticky: "wr_err (net_bw c1) \<Longrightarrow> wrote c p c1 \<Longrightarrow> wrote c (p @ q) c1" for c1 p q
    using wrote_append [of c p c1 q c1] by (simp add: wrote_def)
  obtain c1 where c1: "writeLen c (of_char CHR ''*'') (1 + int (length as)) = Some (c1, werr c1)"
    "wrote c (of_char CHR ''*'' # nat_digits (length as + 1) @ STRLINEBREAK) c1"
    using writeLen_wrote [OF assms(1), of "1 + int (length as)" "of_char CHR ''*''"] assms(4)
    by (auto simp: nat_add_distrib)
  obtain c2 where c2: "writeString c1 cmd = Some (c2, werr c2)" "wrote c1 (bulk cmd) c2"
    using writeString_wrote [of c1 cmd] assms(5) c1(2) by (auto simp: wrote_def)
  note c12 = wrote_append [OF c1(2) c2(2)]
  show ?thesis
  proof (cases "wr_err (net_bw c1)")
    case True
    with sticky [OF True c1(2)] c1(1) writeArgs_list [OF assms(3)] show ?thesis
      by (simp add: writeCommand_def writeCommand_body_def werr_def command_bytes_def)
  next
    case False
    show ?thesis
    proof (cases "wr_err (net_bw c2)")
      case True
      with sticky [OF True c12] False c1(1) c2(1) writeArgs_list [OF assms(3)] show ?thesis
        by (simp add: writeCommand_def writeCommand_body_def werr_def command_bytes_def)
    next
      case ok2: False
      then obtain c3 where c3: "writeInterfaces L c2 as = Some (c3, werr c3)"
        "wrote c2 (concat (map (\<lambda>arg. bulk (arg_text L arg)) as)) c3"
        using writeInterfaces_wrote [of c2 as L] assms(6) c2(2) by (auto simp: wrote_def)
      with wrote_append [OF c12 c3(2)] False ok2 c1(1) c2(1) writeArgs_list [OF assms(3)] show ?thesis
        by (simp add: writeCommand_def writeCommand_body_def werr_def command_bytes_def comp_def)
    qed
  qed
qed

end
