(* ===== verification/Redis_ReadReply.thy ===== *)
theory Redis_ReadReply
  imports Redis_Codec
begin

text \<open>
  What \<open>readReply\<close> of \<open>lib/redis/redisConn.go\<close> does with the bytes of a server: it returns on every
  input, and it gives back the value that a server encoded, for every reply the protocol has.
\<close>

section \<open>Reading back\<close>

lemma readLine_line:
  assumes "LF \<notin> set l" and "length l + 2 \<le> bufio_size"
  shows "readLine (l @ STRLINEBREAK @ s) = (Inr l, s)"
proof -
  have "ReadSlice LF ((l @ [CR]) @ LF # s) = (Inr ((l @ [CR]) @ [LF]), s)"
    using assms by (intro ReadSlice_line) (auto simp: CR_def LF_def)
  then show ?thesis by (simp add: readLine_def STRLINEBREAK_def nth_append)
qed

lemma readLine_CRLF: "readLine (STRLINEBREAK @ s) = (Inr [], s)"
  using readLine_line [of "[]" s] by (simp add: bufio_size_def)

lemma ReadSlice_length: "length (snd (ReadSlice c s)) \<le> length s"
  by (simp add: ReadSlice_def Let_def)

lemma readLine_shrinks:
  assumes "readLine s = (r, s')"
  shows "length s' \<le> length s" and "r = Inr l \<Longrightarrow> length s' < length s"
proof -
  obtain x where x: "ReadSlice LF s = (x, s')"
    using assms by (auto simp: readLine_def split: sum.splits prod.splits read_error.splits if_splits)
  then show "length s' \<le> length s" using ReadSlice_length [of LF s] by simp
  show "length s' < length s" if "r = Inr l"
  proof (cases x)
    case (Inl e)
    then show ?thesis using assms x that by (cases e) (simp_all add: readLine_def)
  next
    case (Inr p)
    then show ?thesis using x ReadSlice_shrinks by blast
  qed
qed

lemma parse_digits_foldl:
  "list_all is_digit ds \<Longrightarrow>
   parse_digits ds (of_nat m) = Some (of_nat (foldl (\<lambda>n b. n * 10 + digit_val b) m ds))"
proof (induction ds arbitrary: m)
  case (Cons b ds)
  then have d: "is_digit b" by simp
  have "unat (b - of_char CHR ''0'') = digit_val b"
    using d by (subst unat_sub) (auto simp: is_digit_def digit_val_def)
  then have "ucast (b - of_char CHR ''0'') = (of_nat (digit_val b) :: 64 word)"
    by (metis of_nat_unat)
  with Cons d show ?case
    by (simp add: is_digit_def not_less [symmetric] flip: Cons.IH)
qed simp

lemma parse_digits_nat_digits: "parse_digits (nat_digits n) 0 = Some (of_nat n)"
  using parse_digits_foldl [of "nat_digits n" 0] nat_digits_all [of n] digits_val_nat_digits [of n]
  by (simp add: list_all_iff digits_val_def)

lemma parseLen_nat_digits: "parseLen (nat_digits n) = (of_nat n, None)"
proof -
  have "nat_digits n \<noteq> lit ''-1''"
    using digit_no_sign [OF hd_nat_digits [of n]] by (metis lit_Cons list.sel(1))
  then show ?thesis by (simp add: parseLen_def parse_digits_nat_digits)
qed

lemma parseInt_FormatInt: "parseInt (FormatInt (sint w)) = (w, None)"
proof (cases "sint w < 0")
  case True
  then have "- of_nat (nat (- sint w)) = w" by (simp add: word_of_int_minus)
  with True show ?thesis by (simp add: FormatInt_def parseInt_def Let_def parse_digits_nat_digits)
next
  case False
  with digit_no_sign [OF hd_nat_digits [of "nat (sint w)"]] show ?thesis
    by (simp add: FormatInt_def parseInt_def Let_def parse_digits_nat_digits)
qed

lemma no_LF_digits: "LF \<notin> set (nat_digits n)"
  using nat_digits_all [of n] by (auto simp: is_digit_def LF_def)

text \<open>More fuel gives the same reply.\<close>

lemma readReply_mono:
  "(\<forall>s r. readReply k s = Some r \<longrightarrow> readReply (Suc k) s = Some r) \<and>
   (\<forall>n s r. readItems k n s = Some r \<longrightarrow> readItems (Suc k) n s = Some r)"
proof (induction k)
  case 0
  have "readItems (Suc 0) n s = Some r" if "readItems 0 n s = Some r" for n s r
    using that by (cases n) (simp_all add: readItems.simps)
  then show ?case by (simp add: readReply.simps)
next
  case (Suc k)
  have "readReply (Suc (Suc k)) s = Some r" if "readReply (Suc k) s = Some r" for s r
    using that Suc
    by (auto simp: readReply.simps(2) split: sum.splits prod.splits option.splits)
  moreover have "readItems (Suc (Suc k)) n s = Some r" if "readItems (Suc k) n s = Some r" for n s r
    using that Suc
    by (cases n) (auto simp: readItems.simps split: sum.splits prod.splits option.splits)
  ultimately show ?case by blast
qed

section \<open>Every read returns\<close>

lemma ReadFull_shrinks: "ReadFull n s = (r, s') \<Longrightarrow> length s' \<le> length s"
  by (auto simp: ReadFull_def split: if_splits)

lemma readBulk_length: "readBulk p s = (r, s') \<Longrightarrow> length s' \<le> length s"
  unfolding readBulk_def
  by (auto split: prod.splits option.splits sum.splits if_splits dest!: ReadFull_shrinks dest: readLine_shrinks(1))

lemma readHead_shrinks:
  shows "readHead s = Inl (r, s') \<Longrightarrow> length s' \<le> length s \<and> (\<forall>v. r = Inr v \<longrightarrow> length s' < length s)"
    and "readHead s = Inr (n, s') \<Longrightarrow> length s' < length s"
proof -
  obtain x s1 where l: "readLine s = (x, s1)" by fastforce
  note sh = readLine_shrinks [OF l]
  show "length s' \<le> length s \<and> (\<forall>v. r = Inr v \<longrightarrow> length s' < length s)" if "readHead s = Inl (r, s')"
  proof (cases x)
    case (Inl e)
    with that l sh(1) show ?thesis by (auto simp: readHead_def)
  next
    case (Inr p)
    with that l have "length s' \<le> length s1"
      by (auto simp: readHead_def dest: readBulk_length split: list.splits if_splits prod.splits option.splits)
    with sh(2) [OF Inr] show ?thesis by auto
  qed
  show "length s' < length s" if "readHead s = Inr (n, s')"
  proof (cases x)
    case (Inl e)
    with that l show ?thesis by (auto simp: readHead_def)
  next
    case (Inr p)
    with that l have "s' = s1"
      by (auto simp: readHead_def split: list.splits if_splits prod.splits option.splits)
    with sh(2) [OF Inr] show ?thesis by simp
  qed
qed

text \<open>Twice the input length is fuel enough.\<close>

lemma readReply_total:
  "(2 * length s + 1 \<le> k \<longrightarrow> (\<exists>r s'. readReply k s = Some (r, s') \<and> length s' \<le> length s \<and>
      (\<forall>v. r = Inr v \<longrightarrow> length s' < length s))) \<and>
   (2 * length s + 2 \<le> k \<longrightarrow> (\<forall>n. \<exists>r s'. readItems k n s = Some (r, s') \<and> length s' \<le> length s))"
proof (induction k arbitrary: s)
  case (Suc k)
  have 1: "\<exists>r s'. readReply (Suc k) s = Some (r, s') \<and> length s' \<le> length s \<and>
    (\<forall>v. r = Inr v \<longrightarrow> length s' < length s)" if fuel: "2 * length s + 1 \<le> Suc k"
  proof (cases "readHead s")
    case (Inl y)
    obtain r s' where "y = (r, s')" by fastforce
    with Inl readHead_shrinks(1) [of s r s'] show ?thesis by (simp add: readReply.simps)
  next
    case (Inr y)
    obtain n s1 where y: "y = (n, s1)" by fastforce
    with Inr have lt: "length s1 < length s" using readHead_shrinks(2) by simp
    then have "2 * length s1 + 2 \<le> k" using fuel by simp
    then obtain r s2 where "readItems k n s1 = Some (r, s2)" "length s2 \<le> length s1"
      using Suc.IH [of s1] by blast
    with Inr y lt show ?thesis by (cases r) (auto simp: readReply.simps)
  qed
  have 2: "\<exists>r s'. readItems (Suc k) n s = Some (r, s') \<and> length s' \<le> length s" if fuel: "2 * length s + 2 \<le> Suc k" for n
  proof (cases n)
    case (Suc m)
    obtain r s1 where r: "readReply k s = Some (r, s1)" "length s1 \<le> length s" "\<forall>v. r = Inr v \<longrightarrow> length s1 < length s"
      using Suc.IH [of s] fuel by auto
    show ?thesis
    proof (cases r)
      case (Inl e)
      with r Suc show ?thesis by (simp add: readItems.simps)
    next
      case (Inr v)
      with r have "length s1 < length s" by simp
      then have "2 * length s1 + 2 \<le> k" using fuel by simp
      then obtain r' s2 where "readItems k m s1 = Some (r', s2)" "length s2 \<le> length s1"
        using Suc.IH [of s1] by blast
      with r Inr Suc show ?thesis by (cases r') (auto simp: readItems.simps)
    qed
  qed (simp add: readItems.simps)
  from 1 2 show ?case by blast
qed simp

lemma readReply_more: "k \<le> k' \<Longrightarrow> readReply k s = Some r \<Longrightarrow> readReply k' s = Some r"
  by (induction k' rule: dec_induct) (use readReply_mono in blast)+

lemma readItems_more: "k \<le> k' \<Longrightarrow> readItems k n s = Some r \<Longrightarrow> readItems k' n s = Some r"
  by (induction k' rule: dec_induct) (use readReply_mono in blast)+

lemma readReply_enough:
  assumes "readReply k s = Some r" and "2 * length s + 1 \<le> k'"
  shows "readReply k' s = Some r"
proof -
  obtain r' where "readReply k' s = Some r'" using readReply_total [of s k'] assms(2) by blast
  with assms(1) readReply_more [of k "max k k'" s r] readReply_more [of k' "max k k'" s r'] show ?thesis by simp
qed

section \<open>Replies as a server encodes them\<close>

datatype resp =
    RSimple bytes
  | RError bytes
  | RInt "64 word"
  | RBulk bytes
  | RNilBulk
  | RNilArray
  | RArray "resp list"

fun resp_bytes :: "resp \<Rightarrow> bytes" where
  "resp_bytes (RSimple s) = of_char CHR ''+'' # s @ STRLINEBREAK"
| "resp_bytes (RError s) = of_char CHR ''-'' # s @ STRLINEBREAK"
| "resp_bytes (RInt n) = of_char CHR '':'' # FormatInt (sint n) @ STRLINEBREAK"
| "resp_bytes (RBulk s) = bulk s"
| "resp_bytes RNilBulk = lit ''$-1'' @ STRLINEBREAK"
| "resp_bytes RNilArray = lit ''*-1'' @ STRLINEBREAK"
| "resp_bytes (RArray rs) = of_char CHR ''*'' # nat_digits (length rs) @ STRLINEBREAK @ concat (map resp_bytes rs)"

fun resp_value :: "resp \<Rightarrow> iface" where
  "resp_value (RSimple s) = IString s"
| "resp_value (RError s) = IError s"
| "resp_value (RInt n) = IInt64 n"
| "resp_value (RBulk s) = IBytes s"
| "resp_value RNilBulk = INil"
| "resp_value RNilArray = INil"
| "resp_value (RArray rs) = IList (map resp_value rs)"

text \<open>
  The replies the client can take: lines fit its buffer and hold no line feed, and sizes are below the
  allocation limit.
\<close>

fun resp_ok :: "resp \<Rightarrow> bool" where
  "resp_ok (RSimple s) \<longleftrightarrow> LF \<notin> set s \<and> length s + 3 \<le> bufio_size"
| "resp_ok (RError s) \<longleftrightarrow> LF \<notin> set s \<and> length s + 3 \<le> bufio_size"
| "resp_ok (RBulk s) \<longleftrightarrow> length s \<le> maxAlloc"
| "resp_ok (RArray rs) \<longleftrightarrow> 16 * length rs \<le> maxAlloc \<and> list_all resp_ok rs"
| "resp_ok _ \<longleftrightarrow> True"

lemma sint_of_nat: "n < 2 ^ 63 \<Longrightarrow> sint (of_nat n :: 64 word) = int n"
  by (simp add: signed_of_nat signed_take_bit_eq_if_positive bit_iff_odd take_bit_int_eq_self)

lemma readHead_line:
  assumes "LF \<notin> set l" and "length l + 3 \<le> bufio_size" and "c \<noteq> LF"
  shows "readLine (c # l @ STRLINEBREAK @ s) = (Inr (c # l), s)"
  using readLine_line [of "c # l" s] assms by simp

lemma digits_line: "n < 10 ^ 19 \<Longrightarrow> c \<noteq> LF \<Longrightarrow>
    readLine (c # nat_digits n @ STRLINEBREAK @ s) = (Inr (c # nat_digits n), s)"
  using length_nat_digits [of n 19] no_LF_digits by (intro readHead_line) (auto simp: bufio_size_def)

lemma readHead_bulk:
  assumes "length p \<le> maxAlloc"
  shows "readHead (bulk p @ s) = Inl (Inr (IBytes p), s)"
proof -
  have n: "length p < 2 ^ 63" "length p < 10 ^ 19" using assms by (simp_all add: maxAlloc_def)
  have "readLine (bulk p @ s) = (Inr (of_char CHR ''$'' # nat_digits (length p)), p @ STRLINEBREAK @ s)"
    using digits_line [OF n(2), of "of_char CHR ''$''"] by (simp add: bulk_def LF_def)
  moreover have "unat (of_nat (length p) :: 64 word) = length p"
    using n(1) by (simp add: unsigned_of_nat take_bit_nat_eq_self)
  ultimately show ?thesis
    using assms n by (simp add: readHead_def readBulk_def parseLen_nat_digits sint_of_nat ReadFull_append readLine_CRLF)
qed

lemma readHead_array:
  assumes "16 * n \<le> maxAlloc"
  shows "readHead (of_char CHR ''*'' # nat_digits n @ STRLINEBREAK @ s) = Inr (n, s)"
proof -
  have n: "n < 2 ^ 63" "n < 10 ^ 19" using assms by (simp_all add: maxAlloc_def)
  have "unat (of_nat n :: 64 word) = n"
    using n(1) by (simp add: unsigned_of_nat take_bit_nat_eq_self)
  then show ?thesis
    using assms n digits_line [OF n(2), of "of_char CHR ''*''"]
    by (simp add: readHead_def parseLen_nat_digits sint_of_nat LF_def)
qed

lemma readHead_int: "readHead (of_char CHR '':'' # FormatInt (sint w) @ STRLINEBREAK @ s) = Inl (Inr (IInt64 w), s)"
proof -
  have "nat \<bar>sint w\<bar> \<le> 2 ^ 63" using sint_greater_eq [of w] sint_less [of w] by simp
  then have "length (nat_digits (nat \<bar>sint w\<bar>)) \<le> 19" by (intro length_nat_digits) simp_all
  then have "readLine (of_char CHR '':'' # FormatInt (sint w) @ STRLINEBREAK @ s) =
      (Inr (of_char CHR '':'' # FormatInt (sint w)), s)"
    using no_LF_digits by (intro readHead_line) (auto simp: FormatInt_def LF_def bufio_size_def)
  then show ?thesis by (simp add: readHead_def parseInt_FormatInt)
qed

lemma readHead_nil:
  "readHead (lit ''$-1'' @ STRLINEBREAK @ s) = Inl (Inr INil, s)"
  "readHead (lit ''*-1'' @ STRLINEBREAK @ s) = Inl (Inr INil, s)"
  using readHead_line [of "lit ''-1''" "of_char CHR ''$''" s] readHead_line [of "lit ''-1''" "of_char CHR ''*''" s]
  by (simp_all add: readHead_def readBulk_def parseLen_def LF_def bufio_size_def)

lemma readItems_resps:
  assumes "\<And>r s. r \<in> set rs \<Longrightarrow> \<exists>k. readReply k (resp_bytes r @ s) = Some (Inr (resp_value r), s)"
  shows "\<exists>k. readItems k (length rs) (concat (map resp_bytes rs) @ s) = Some (Inr (map resp_value rs), s)"
  using assms
proof (induction rs)
  case Nil
  then show ?case by (simp add: readItems.simps)
next
  case (Cons r rs)
  from Cons.prems [of r "concat (map resp_bytes rs) @ s"] obtain k1 where
    k1: "readReply k1 (resp_bytes r @ concat (map resp_bytes rs) @ s) =
      Some (Inr (resp_value r), concat (map resp_bytes rs) @ s)" by auto
  from Cons.IH Cons.prems obtain k2 where
    k2: "readItems k2 (length rs) (concat (map resp_bytes rs) @ s) = Some (Inr (map resp_value rs), s)" by auto
  from readReply_more [OF _ k1, of "max k1 k2"] readItems_more [OF _ k2, of "max k1 k2"]
  have "readItems (Suc (max k1 k2)) (length (r # rs)) (concat (map resp_bytes (r # rs)) @ s) =
    Some (Inr (map resp_value (r # rs)), s)"
    by (simp add: readItems.simps)
  then show ?case by blast
qed

lemma readReply_resp: "resp_ok r \<Longrightarrow> \<exists>k. readReply k (resp_bytes r @ s) = Some (Inr (resp_value r), s)"
proof (induction r arbitrary: s)
  case (RArray rs)
  then have "\<exists>k. readReply k (resp_bytes r @ s) = Some (Inr (resp_value r), s)" if "r \<in> set rs" for r s
    using that by (auto simp: list_all_iff)
  from readItems_resps [OF this] obtain k where
    "readItems k (length rs) (concat (map resp_bytes rs) @ s) = Some (Inr (map resp_value rs), s)" by blast
  with RArray.prems show ?case
    by (intro exI [of _ "Suc k"]) (simp add: readReply.simps readHead_array [simplified])
next
  case (RSimple p)
  then show ?case
    using readHead_line [of p "of_char CHR ''+''" s]
    by (intro exI [of _ "Suc 0"]) (simp add: readReply.simps readHead_def LF_def)
next
  case (RError p)
  then show ?case
    using readHead_line [of p "of_char CHR ''-''" s]
    by (intro exI [of _ "Suc 0"]) (simp add: readReply.simps readHead_def LF_def)
next
  case (RInt w)
  show ?case using readHead_int [of w s] by (intro exI [of _ "Suc 0"]) (simp add: readReply.simps)
next
  case (RBulk p)
  then show ?case using readHead_bulk [of p s] by (intro exI [of _ "Suc 0"]) (simp add: readReply.simps)
next
  case RNilBulk
  show ?case using readHead_nil(1) [of s] by (intro exI [of _ "Suc 0"]) (simp add: readReply.simps)
next
  case RNilArray
  show ?case using readHead_nil(2) [of s] by (intro exI [of _ "Suc 0"]) (simp add: readReply.simps)
qed

text \<open>
  C8. \<open>readReply\<close> returns on every input: recursion and loops end (a number of calls linear in the bytes
  received is enough, and a larger bound changes nothing), with a value or an error, and without
  taking more bytes than there are.
\<close>

theorem readReply_returns:
  "\<exists>r s'. readReply (2 * length s + 1) s = Some (r, s') \<and> length s' \<le> length s \<and>
     readReply (2 * length s + 1 + extra) s = Some (r, s')"
proof -
  obtain r s' where r: "readReply (2 * length s + 1) s = Some (r, s')" "length s' \<le> length s"
    using readReply_total [of s "2 * length s + 1"] by auto
  with readReply_more [OF _ r(1), of "2 * length s + 1 + extra"] show ?thesis by simp
qed

text \<open>
  C4. Reading is the inverse of the server's encoding: for every reply of the protocol (status, error,
  64-bit integer, bulk string of any bytes, nil, arrays nested in any way) that fits the client's limits,
  \<open>readReply\<close> returns the value that was encoded and leaves exactly the bytes that follow it.
\<close>

theorem readReply_roundtrip:
  assumes "resp_ok r" and "2 * length (resp_bytes r @ s) + 1 \<le> k"
  shows "readReply k (resp_bytes r @ s) = Some (Inr (resp_value r), s)"
  using readReply_resp [OF assms(1), of s] readReply_enough [OF _ assms(2)] by blast

theorem readReply_roundtrip_witness:
  "readReply 200 (resp_bytes (RArray [RBulk [CR, LF], RNilBulk, RArray [RInt (- 5)], RError [69]]) @ [1]) =
    Some (Inr (IList [IBytes [CR, LF], INil, IList [IInt64 (- 5)], IError [69]]), [1])"
  using readReply_roundtrip [of "RArray [RBulk [CR, LF], RNilBulk, RArray [RInt (- 5)], RError [69]]" "[1]" 200]
  by (simp add: maxAlloc_def bulk_def STRLINEBREAK_def FormatInt_def nat_digits.simps LF_def bufio_size_def)

text \<open>A command is an array of bulk strings.\<close>

lemma command_bytes_resp: "command_bytes ss = resp_bytes (RArray (map RBulk ss))"
  by (simp add: command_bytes_def comp_def)

lemma command_bytes_read:
  assumes "16 * length ss \<le> maxAlloc" and "\<forall>p \<in> set ss. length p \<le> maxAlloc" and "2 * length (command_bytes ss @ s) + 1 \<le> k"
  shows "readReply k (command_bytes ss @ s) = Some (Inr (IList (map IBytes ss)), s)"
proof -
  obtain k' where "readReply k' (command_bytes ss @ s) = Some (Inr (IList (map IBytes ss)), s)"
    using readReply_resp [of "RArray (map RBulk ss)" s] assms(1,2)
    by (auto simp: command_bytes_resp list_all_iff comp_def simp del: resp_bytes.simps)
  from readReply_enough [OF this assms(3)] show ?thesis .
qed

text \<open>
  C7. \<open>writeCommand\<close> puts a command on the wire as an array of bulk strings that reads back as the name
  and the texts of its arguments, for every way a command is packed (0 to 3 arguments, a list, a key
  and a list) and whatever bytes they hold: without an error all of it is written, in order, after what was
  there; when the connection fails, an error is returned and the server has a prefix of it.
\<close>

theorem writeCommand_roundtrip:
  assumes "length (lenScratch c) = 32" and "\<not> wr_err (net_bw c)"
    and "command_args argNum arg1 arg2 arg3 args = Some as" and "16 * (length as + 1) \<le> maxAlloc"
    and "length cmd \<le> maxAlloc" and "\<forall>arg \<in> set as. length (arg_text L arg) \<le> maxAlloc"
  shows "\<exists>c' w. readReply (2 * length w + 1) w = Some (Inr (IList (map IBytes (cmd # map (arg_text L) as))), []) \<and>
    prefix (wr_out (net_bw c')) (wr_out (net_bw c) @ wr_buf (net_bw c) @ w) \<and>
    (if wr_err (net_bw c') then writeCommand L c argNum cmd arg1 arg2 arg3 args = (c', Some WriteErr)
     else writeCommand L c argNum cmd arg1 arg2 arg3 args = (c', None) \<and>
       wr_out (net_bw c') @ wr_buf (net_bw c') = wr_out (net_bw c) @ wr_buf (net_bw c) @ w)"
proof -
  let ?ss = "cmd # map (arg_text L) as"
  have l: "\<forall>p \<in> set ?ss. length p \<le> maxAlloc" using assms(5,6) by simp
  have lim: "length as + 1 < 2 ^ 63" "length cmd < 2 ^ 63" "\<forall>arg \<in> set as. length (arg_text L arg) < 2 ^ 63"
    using assms(4-6) by (auto simp: maxAlloc_def dest: bspec)
  obtain c' where c': "writeCommand L c argNum cmd arg1 arg2 arg3 args = (c', werr c')" "wrote c (command_bytes ?ss) c'"
    using writeCommand_wrote [OF assms(1-3) lim] by blast
  have "readReply (2 * length (command_bytes ?ss) + 1) (command_bytes ?ss) = Some (Inr (IList (map IBytes ?ss)), [])"
    using command_bytes_read [OF _ l, of "[]"] assms(4) by simp
  with c' assms(2) show ?thesis
    by (intro exI [of _ c'] exI [of _ "command_bytes ?ss"]) (simp add: wrote_def written_def werr_def)
qed

definition idle_net :: RedisNet where
  "idle_net = \<lparr>lenScratch = replicate 32 0, net_bw = \<lparr>wr_buf = [], wr_out = [], wr_err = False, wr_todo = []\<rparr>\<rparr>"

definition plain_fmt :: go_fmt where
  "plain_fmt = \<lparr>FormatFloat = (\<lambda>_. lit ''1.5''), ParseFloat = (\<lambda>_ _. (0, None)), Fprint_other = (\<lambda>_. [])\<rparr>"

theorem writeCommand_roundtrip_witness:
  "\<exists>c' w. readReply (2 * length w + 1) w =
      Some (Inr (IList [IBytes (lit ''SETEX''), IBytes (lit ''k''), IBytes (lit ''-30''), IBytes []]), []) \<and>
    (if wr_err (net_bw c') then writeCommand plain_fmt idle_net 3 (lit ''SETEX'') (IString (lit ''k'')) (IInt64 (- 30)) INil None = (c', Some WriteErr)
     else wr_out (net_bw c') @ wr_buf (net_bw c') = w)"
proof -
  have f: "FormatInt (- 30) = lit ''-30''" by (simp add: FormatInt_def nat_digits.simps digit_def)
  show ?thesis
    using writeCommand_roundtrip [of idle_net 3 "IString (lit ''k'')" "IInt64 (- 30)" INil None
        "[IString (lit ''k''), IInt64 (- 30), INil]" "lit ''SETEX''" plain_fmt]
    by (fastforce simp: idle_net_def command_args_def ARGSNUMARRAY_def ARGSKEY_def maxAlloc_def f split: if_splits)
qed

text \<open>
  \<open>parseLen\<close> does not notice an overflow: any run of decimal digits is accepted with its value modulo
  2^64, so that a bulk length whose value has the sign bit set is taken for the nil reply.
\<close>

lemma parseLen_wraps:
  "parseLen (nat_digits n) = (of_nat n, None) \<and>
   readHead (lit ''$18446744073709551615'' @ STRLINEBREAK @ s) = Inl (Inr INil, s)"
proof -
  have "nat_digits 18446744073709551615 = lit ''18446744073709551615''"
    by (simp add: nat_digits.simps digit_def)
  then have "readLine (lit ''$18446744073709551615'' @ STRLINEBREAK @ s) = (Inr (lit ''$18446744073709551615''), s)"
    "parseLen (lit ''18446744073709551615'') = (- 1, None)"
    using readHead_line [of "lit ''18446744073709551615''" "of_char CHR ''$''" s] parseLen_nat_digits [of 18446744073709551615]
    by (simp_all add: LF_def bufio_size_def)
  then show ?thesis by (simp add: parseLen_nat_digits readHead_def readBulk_def)
qed

end
