(* ===== verification/Redis_Packet.thy ===== *)
theory Redis_Packet
  imports Redis_ReadReply
begin

text \<open>
  The packet buffer of \<open>lib/redis/bufio.go\<close>: a growing byte array with a read and a write position, the
  writers of protocol elements and the readers that fill it from a connection.  \<open>ReadLine\<close> and
  \<open>ReadBytes\<close> return slices of the array as values.
\<close>

record Packet =
  pk_buf :: bytes
  pk_a :: bytes
  pk_r :: nat
  pk_w :: nat

definition packSize :: nat where "packSize = 64"

definition minReadBufferSize :: int where "minReadBufferSize = 16"

definition defaultBufSize :: int where "defaultBufSize = 4096"

definition NewPacketSize :: "int \<Rightarrow> Packet" where
  "NewPacketSize n =
     \<lparr>pk_buf = replicate (nat (if n < minReadBufferSize then minReadBufferSize else n)) 0,
      pk_a = replicate 10 0, pk_r = 0, pk_w = 0\<rparr>"

definition NewPacket :: Packet where "NewPacket = NewPacketSize defaultBufSize"

definition Packet_Reset :: "Packet \<Rightarrow> Packet" where
  "Packet_Reset b = b\<lparr>pk_r := 0, pk_w := 0\<rparr>"

definition Packet_Pos :: "Packet \<Rightarrow> int \<Rightarrow> Packet" where
  "Packet_Pos b r = (if 0 \<le> r \<and> r < int (pk_w b) then b\<lparr>pk_r := nat r\<rparr> else b)"

section \<open>Writing\<close>

definition Packet_grow :: "Packet \<Rightarrow> nat \<Rightarrow> Packet option" where
  "Packet_grow b n =
     (let need = int n - int (length (pk_buf b)) + int (pk_w b) in
      if need > 0 then do {
        let need1 = (if nat need < packSize then packSize else nat need);
        let grow = replicate (length (pk_buf b) + need1) 0;
        buf \<leftarrow> (if pk_w b > 0 then slice (pk_buf b) 0 (pk_w b) \<bind> copy_at grow 0 else Some grow);
        Some (b\<lparr>pk_buf := buf\<rparr>)
      }
      else Some b)"

text \<open>The digit loop of \<open>WriteLen\<close> and \<open>WriteInt64\<close> over the ten bytes of \<open>a\<close>.\<close>

function Packet_digits :: "bytes \<Rightarrow> nat \<Rightarrow> int \<Rightarrow> (bytes \<times> nat) option" where
  "Packet_digits a i n =
     (if i = 0 then None
      else if n \<ge> 10 then
        (case set_at a (i - 1) (of_int (n - (n div 10) * 10 + 48)) of
           None \<Rightarrow> None | Some a1 \<Rightarrow> Packet_digits a1 (i - 1) (n div 10))
      else map_option (\<lambda>a1. (a1, i - 1)) (set_at a (i - 1) (of_int (n + 48))))"
  by pat_completeness auto
termination
  by (relation "measure (\<lambda>(a, i, n). i)") auto

declare Packet_digits.simps [simp del]

definition Packet_WriteLen :: "Packet \<Rightarrow> byte \<Rightarrow> int \<Rightarrow> Packet option" where
  "Packet_WriteLen b prefx n = do {
     (a, i) \<leftarrow> Packet_digits (pk_a b) 10 n;
     let pos = pk_w b;
     b1 \<leftarrow> Packet_grow b (13 - i);
     buf1 \<leftarrow> set_at (pk_buf b1) pos prefx;
     ds \<leftarrow> slice_from a i;
     buf2 \<leftarrow> copy_at buf1 (pos + 1) ds;
     let pos1 = pos + 11 - i;
     buf3 \<leftarrow> set_at buf2 pos1 CR;
     buf4 \<leftarrow> set_at buf3 (pos1 + 1) LF;
     Some (b1\<lparr>pk_buf := buf4, pk_w := pos1 + 2\<rparr>)
   }"

definition Packet_WriteInt64 :: "Packet \<Rightarrow> 64 word \<Rightarrow> Packet option" where
  "Packet_WriteInt64 b n = do {
     (a, i) \<leftarrow> Packet_digits (pk_a b) 10 (sint n);
     let pos = pk_w b;
     b1 \<leftarrow> Packet_grow b (12 - i);
     ds \<leftarrow> slice_from a i;
     buf2 \<leftarrow> copy_at (pk_buf b1) pos ds;
     let pos1 = pos + 10 - i;
     buf3 \<leftarrow> set_at buf2 pos1 CR;
     buf4 \<leftarrow> set_at buf3 (pos1 + 1) LF;
     Some (b1\<lparr>pk_buf := buf4, pk_w := pos1 + 2\<rparr>)
   }"

definition Packet_WriteBytes :: "Packet \<Rightarrow> bytes \<Rightarrow> Packet option" where
  "Packet_WriteBytes b s = do {
     b1 \<leftarrow> Packet_WriteLen b (of_char CHR ''$'') (int (length s));
     b2 \<leftarrow> Packet_grow b1 (length s + 2);
     let pos = pk_w b2;
     buf1 \<leftarrow> copy_at (pk_buf b2) pos s;
     let pos1 = pos + length s;
     buf2 \<leftarrow> set_at buf1 pos1 CR;
     buf3 \<leftarrow> set_at buf2 (pos1 + 1) LF;
     Some (b2\<lparr>pk_buf := buf3, pk_w := pos1 + 2\<rparr>)
   }"

definition Packet_WriteString :: "Packet \<Rightarrow> bytes \<Rightarrow> Packet option" where
  "Packet_WriteString b s = do {
     b1 \<leftarrow> Packet_WriteLen b (of_char CHR ''$'') (int (length s));
     b2 \<leftarrow> Packet_grow b1 (length s + 2);
     let pos = pk_w b2;
     buf1 \<leftarrow> copy_at (pk_buf b2) pos s;
     let pos1 = pos + length s;
     buf2 \<leftarrow> set_at buf1 pos1 CR;
     buf3 \<leftarrow> set_at buf2 (pos1 + 1) LF;
     Some (b2\<lparr>pk_buf := buf3, pk_w := pos1 + 2\<rparr>)
   }"

definition Packet_Bytes :: "Packet \<Rightarrow> bytes \<Rightarrow> (redis_error + Packet) option" where
  "Packet_Bytes b bt =
     (if bt = [] then Some (Inl ErrNil)
      else do {
        b1 \<leftarrow> Packet_grow b (length bt);
        buf \<leftarrow> copy_at (pk_buf b1) (pk_w b1) bt;
        Some (Inr (b1\<lparr>pk_buf := buf, pk_w := pk_w b1 + length bt\<rparr>))
      })"

definition Packet_WriteFloat64 :: "go_fmt \<Rightarrow> Packet \<Rightarrow> 64 word \<Rightarrow> Packet option" where
  "Packet_WriteFloat64 L b x = Packet_WriteString b (FormatFloat L x)"

fun Packet_WriteArg :: "go_fmt \<Rightarrow> Packet \<Rightarrow> iface \<Rightarrow> Packet option" where
  "Packet_WriteArg L b (IString s) = Packet_WriteString b s"
| "Packet_WriteArg L b (IBytes s) = Packet_WriteBytes b s"
| "Packet_WriteArg L b (IInt n) = Packet_WriteInt64 b n"
| "Packet_WriteArg L b (IInt64 n) = Packet_WriteInt64 b n"
| "Packet_WriteArg L b (IFloat64 x) = Packet_WriteFloat64 L b x"
| "Packet_WriteArg L b (IBool v) = (if v then Packet_WriteString b (lit ''1'') else Packet_WriteString b (lit ''0''))"
| "Packet_WriteArg L b INil = Packet_WriteString b []"
| "Packet_WriteArg L b arg = Packet_WriteBytes b (Fprint L arg)"

definition Packet_WriteCmd :: "Packet \<Rightarrow> bytes \<Rightarrow> int \<Rightarrow> Packet option" where
  "Packet_WriteCmd b cmd n = do {
     b1 \<leftarrow> Packet_WriteLen b (of_char CHR ''*'') n;
     Packet_WriteString b1 cmd
   }"

fun Packet_WriteArgs :: "go_fmt \<Rightarrow> Packet \<Rightarrow> iface list \<Rightarrow> Packet option" where
  "Packet_WriteArgs L b [] = Some b"
| "Packet_WriteArgs L b (arg # args) = Packet_WriteArg L b arg \<bind> (\<lambda>b1. Packet_WriteArgs L b1 args)"

text \<open>The type switch in the loop of \<open>WriteCommond\<close> is that of \<open>WriteArg\<close>.\<close>

definition Packet_WriteCommond :: "go_fmt \<Rightarrow> Packet \<Rightarrow> bytes \<Rightarrow> iface list \<Rightarrow> Packet option" where
  "Packet_WriteCommond L b cmd args = do {
     b1 \<leftarrow> Packet_WriteLen b (of_char CHR ''*'') (1 + int (length args));
     b2 \<leftarrow> Packet_WriteString b1 cmd;
     Packet_WriteArgs L b2 args
   }"

text \<open>
  \<open>Flush\<close> over the outcomes of the \<open>Write\<close> calls: the bytes accepted and whether a write failed; the packet
  is reset in either case.
\<close>

fun Packet_flush_loop :: "write_outcome list \<Rightarrow> bytes \<Rightarrow> bytes \<times> bool" where
  "Packet_flush_loop [] xs = ([], True)"
| "Packet_flush_loop (WriteFail # ws) xs = ([], True)"
| "Packet_flush_loop (WriteOk n # ws) xs =
     (if n < length xs then (let (out, e) = Packet_flush_loop ws (drop n xs) in (take n xs @ out, e))
      else (xs, False))"

definition Packet_Flush :: "write_outcome list \<Rightarrow> Packet \<Rightarrow> (bytes \<times> bool \<times> Packet) option" where
  "Packet_Flush ws b =
     (if pk_w b = 0 then Some ([], False, b)
      else do {
        xs \<leftarrow> slice (pk_buf b) 0 (pk_w b);
        let (out, e) = Packet_flush_loop ws xs;
        Some (out, e, Packet_Reset b)
      })"

section \<open>Reading\<close>

definition Packet_fill :: "bool \<Rightarrow> Packet \<Rightarrow> stream \<Rightarrow> (Packet \<times> stream) option" where
  "Packet_fill early b cs = do {
     free \<leftarrow> slice_from (pk_buf b) (pk_w b);
     let (got, eof, rest) = conn_Read early (length free) cs;
     buf \<leftarrow> copy_at (pk_buf b) (pk_w b) got;
     Some (b\<lparr>pk_buf := buf, pk_w := pk_w b + length got\<rparr>, rest)
   }"

text \<open>Read until \<open>need\<close> more bytes are buffered, into the free part of the array as it is.\<close>

definition Packet_need :: "Packet \<Rightarrow> stream \<Rightarrow> int \<Rightarrow> (Packet \<times> stream \<times> io_error option) option" where
  "Packet_need b cs need =
     (if need > 0 then do {
        free \<leftarrow> slice_from (pk_buf b) (pk_w b);
        let (got, err, rest) = ReadAtLeast (length free) (nat need) cs;
        buf \<leftarrow> copy_at (pk_buf b) (pk_w b) got;
        Some (b\<lparr>pk_buf := buf, pk_w := pk_w b + length got\<rparr>, rest, err)
      }
      else Some (b, cs, None))"

definition Packet_ReadBytes ::
  "Packet \<Rightarrow> stream \<Rightarrow> nat \<Rightarrow> bool \<Rightarrow> (Packet \<times> stream \<times> (io_error + bytes)) option" where
  "Packet_ReadBytes b cs n ismove = do {
     (b1, cs1, err) \<leftarrow> Packet_need b cs (int n - (int (pk_w b) - int (pk_r b)));
     case err of
       Some e \<Rightarrow> Some (b1, cs1, Inl e)
     | None \<Rightarrow> do {
         xs \<leftarrow> slice (pk_buf b1) (pk_r b1) (pk_r b1 + n);
         Some (if ismove then b1\<lparr>pk_r := pk_r b1 + n\<rparr> else b1, cs1, Inr xs)
       }
   }"

definition Packet_ReadByte :: "Packet \<Rightarrow> stream \<Rightarrow> (Packet \<times> stream \<times> (io_error + byte)) option" where
  "Packet_ReadByte b cs = do {
     (b1, cs1, err) \<leftarrow> Packet_need b cs (1 - (int (pk_w b) - int (pk_r b)));
     case err of
       Some e \<Rightarrow> Some (b1, cs1, Inl e)
     | None \<Rightarrow> do {
         c \<leftarrow> index_at (pk_buf b1) (pk_r b1);
         Some (b1\<lparr>pk_r := pk_r b1 + 1\<rparr>, cs1, Inr c)
       }
   }"

datatype line_error = LineEOF | LineFormat

definition Packet_line :: "Packet \<Rightarrow> stream \<Rightarrow> bytes \<Rightarrow> Packet \<times> stream \<times> (line_error + bytes)" where
  "Packet_line b cs line =
     (let r = pk_r b + length line;
          b1 = (if r = pk_w b then b\<lparr>pk_r := 0, pk_w := 0\<rparr> else b\<lparr>pk_r := r\<rparr>)
      in (b1, cs,
          if length line < 2 \<or> line ! (length line - 2) \<noteq> CR then Inl LineFormat
          else Inr (take (length line - 2) line)))"

lemma grow_room:
  assumes "Packet_grow b n = Some b1"
  shows "pk_w b1 = pk_w b" "pk_r b1 = pk_r b" "pk_w b \<le> length (pk_buf b) \<Longrightarrow> pk_w b + n \<le> length (pk_buf b1)"
  using assms
  by (auto simp: Packet_grow_def Let_def copy_at_def packSize_def slice_def split: if_splits bind_splits)

lemma grow_free:
  assumes "Packet_grow b n = Some b1" and "0 < n"
  shows "0 < length (pk_buf b1) - pk_w b1"
  using assms
  by (auto simp: Packet_grow_def Let_def copy_at_def packSize_def slice_def split: if_splits bind_splits)

text \<open>Bytes that a read gives together with the end of the stream are not taken over.\<close>

function Packet_ReadLine :: "bool \<Rightarrow> Packet \<Rightarrow> stream \<Rightarrow> (Packet \<times> stream \<times> (line_error + bytes)) option" where
  "Packet_ReadLine early b cs =
     (case slice (pk_buf b) (pk_r b) (pk_w b) of
        None \<Rightarrow> None
      | Some u \<Rightarrow>
          if LF \<in> set u then Some (Packet_line b cs (take (length (takeWhile (\<lambda>c. c \<noteq> LF) u) + 1) u))
          else (case (if length (pk_buf b) - pk_w b < 4096 then Packet_grow b 4096 else Some b) of
              None \<Rightarrow> None
            | Some b1 \<Rightarrow>
                (case conn_Read early (length (pk_buf b1) - pk_w b1) cs of
                   (got, True, cs1) \<Rightarrow> Some (b1, cs1, Inl LineEOF)
                 | (got, False, cs1) \<Rightarrow>
                     (case copy_at (pk_buf b1) (pk_w b1) got of
                        None \<Rightarrow> None
                      | Some buf \<Rightarrow> Packet_ReadLine early (b1\<lparr>pk_buf := buf, pk_w := pk_w b1 + length got\<rparr>) cs1))))"
  by pat_completeness auto
termination
proof (relation "measure (\<lambda>(early, b, cs). length cs + length (concat cs))", goal_cases)
  case (2 early b cs u b1 got p eof cs1 buf)
  then have "0 < length (pk_buf b1) - pk_w b1"
    using grow_free [of b 4096 b1] by (auto split: if_splits)
  then show ?case
    using conn_Read_spec(5) [of early "length (pk_buf b1) - pk_w b1" cs got eof cs1] 2 by auto
qed simp

declare Packet_ReadLine.simps [simp del]

section \<open>What the writers add\<close>

definition pk_inv :: "Packet \<Rightarrow> bool" where
  "pk_inv b \<longleftrightarrow> pk_r b \<le> pk_w b \<and> pk_w b \<le> length (pk_buf b) \<and> length (pk_a b) = 10"

definition pk_contents :: "Packet \<Rightarrow> bytes" where
  "pk_contents b = take (pk_w b) (pk_buf b)"

definition pk_added :: "Packet \<Rightarrow> bytes \<Rightarrow> Packet \<Rightarrow> bool" where
  "pk_added b p b' \<longleftrightarrow> pk_inv b' \<and> pk_contents b' = pk_contents b @ p \<and> pk_r b' = pk_r b \<and> pk_a b' = pk_a b"

lemma pk_added_append: "pk_added b p b1 \<Longrightarrow> pk_added b1 q b2 \<Longrightarrow> pk_added b (p @ q) b2"
  by (simp add: pk_added_def)

lemma length_pk_contents: "pk_inv b \<Longrightarrow> length (pk_contents b) = pk_w b"
  by (simp add: pk_inv_def pk_contents_def)

lemma grow_added:
  assumes "pk_inv b"
  shows "\<exists>b1. Packet_grow b n = Some b1 \<and> pk_added b [] b1 \<and> pk_w b1 = pk_w b \<and> pk_w b + n \<le> length (pk_buf b1)"
  using assms
  by (auto simp: Packet_grow_def Let_def pk_added_def pk_inv_def pk_contents_def copy_at_def packSize_def slice_def)

lemma set_at_copy: "i < length xs \<Longrightarrow> set_at xs i v = copy_at xs i [v]"
  by (simp add: set_at_def copy_at_def upd_conv_take_nth_drop)

lemma copy_at_append:
  assumes "copy_at xs i p = Some ys" and "i + length p + length q \<le> length xs"
  shows "copy_at ys (i + length p) q = copy_at xs i (p @ q)"
  using assms by (auto simp: copy_at_def ac_simps split: if_splits)

text \<open>Storing \<open>p\<close> at the write position of a packet with room for it, and moving the position past it.\<close>

lemma stored:
  assumes "pk_inv b" and "pk_w b + length p \<le> length (pk_buf b)" and "copy_at (pk_buf b) (pk_w b) p = Some buf"
  shows "pk_added b p (b\<lparr>pk_buf := buf, pk_w := pk_w b + length p\<rparr>)"
  using assms by (auto simp: pk_added_def pk_inv_def pk_contents_def copy_at_def split: if_splits)

lemma store_line:
  assumes "pk_w b + length p + 2 \<le> length (pk_buf b)" and "pk_inv b"
  shows "\<exists>buf buf1 buf2. copy_at (pk_buf b) (pk_w b) p = Some buf \<and> set_at buf (pk_w b + length p) CR = Some buf1 \<and>
    set_at buf1 (pk_w b + length p + 1) LF = Some buf2 \<and>
    pk_added b (p @ STRLINEBREAK) (b\<lparr>pk_buf := buf2, pk_w := pk_w b + length p + 2\<rparr>)"
proof -
  obtain buf where buf: "copy_at (pk_buf b) (pk_w b) p = Some buf" "length buf = length (pk_buf b)"
    using assms(1) length_copy_at by (fastforce simp: copy_at_def)
  have s1: "set_at buf (pk_w b + length p) CR = copy_at (pk_buf b) (pk_w b) (p @ [CR])"
    using copy_at_append [OF buf(1), of "[CR]"] assms(1) buf(2) by (simp add: set_at_copy)
  obtain buf1 where buf1: "copy_at (pk_buf b) (pk_w b) (p @ [CR]) = Some buf1" "length buf1 = length (pk_buf b)"
    using assms(1) length_copy_at by (fastforce simp: copy_at_def)
  have s2: "set_at buf1 (pk_w b + length p + 1) LF = copy_at (pk_buf b) (pk_w b) (p @ STRLINEBREAK)"
    using copy_at_append [OF buf1(1), of "[LF]"] assms(1) buf1(2) by (simp add: set_at_copy STRLINEBREAK_def)
  obtain buf2 where buf2: "copy_at (pk_buf b) (pk_w b) (p @ STRLINEBREAK) = Some buf2"
    using assms(1) by (simp add: copy_at_def)
  show ?thesis
    using buf(1) s1 buf1(1) s2 buf2 stored [OF assms(2) _ buf2] assms(1) by (simp add: STRLINEBREAK_def)
qed

lemma Packet_digits_spec:
  assumes "0 \<le> n" and "i \<le> length a"
  shows "if length (nat_digits (nat n)) \<le> i
    then \<exists>a'. Packet_digits a i n = Some (a', i - length (nat_digits (nat n))) \<and> length a' = length a \<and>
      drop (i - length (nat_digits (nat n))) a' = nat_digits (nat n) @ drop i a
    else Packet_digits a i n = None"
  using assms
proof (induction a i n rule: Packet_digits.induct)
  case (1 a i n)
  show ?case
  proof (cases i)
    case 0
    then show ?thesis by (simp add: Packet_digits.simps [of a 0 n])
  next
    case (Suc j)
    have j: "j < length a" using 1(3) Suc by simp
    show ?thesis
    proof (cases "n < 10")
      case True
      have "of_int (n + 48) = digit (nat n)"
        using 1(2) by (simp add: digit_def add.commute)
      then show ?thesis
        using True Suc j 1(2) set_at_drop [OF j, of "digit (nat n)"]
        by (auto simp: Packet_digits.simps [of a "Suc j" n] nat_digits.simps [of "nat n"] set_at_def)
    next
      case False
      have "n - n div 10 * 10 = n mod 10" by (simp add: minus_div_mult_eq_mod)
      moreover have "n mod 10 = int (nat n mod 10)" using 1(2) by (simp add: zmod_int)
      ultimately have d: "of_int (n - n div 10 * 10 + 48) = digit (nat n mod 10)"
        by (simp only: digit_def) simp
      let ?a1 = "a[j := digit (nat n mod 10)]"
      have digs: "nat_digits (nat n) = nat_digits (nat (n div 10)) @ [digit (nat n mod 10)]"
        using False by (subst nat_digits.simps) (simp add: nat_div_distrib)
      have "Packet_digits a i n = Packet_digits ?a1 j (n div 10)"
        using False Suc j by (subst Packet_digits.simps) (simp only: d, simp add: set_at_def)
      moreover have "set_at a (i - 1) (of_int (n - n div 10 * 10 + 48)) = Some ?a1"
        unfolding d using j Suc by (simp add: set_at_def)
      note ih = 1(1) [OF _ _ this]
      ultimately show ?thesis
        using ih False Suc j 1(2) digs set_at_drop [OF j] by (auto split: if_splits)
    qed
  qed
qed

lemma WriteLen_added:
  assumes "pk_inv b" and "0 \<le> n" and "n < 10 ^ 10"
  shows "\<exists>b'. Packet_WriteLen b x n = Some b' \<and> pk_added b (x # nat_digits (nat n) @ STRLINEBREAK) b'"
proof -
  let ?ds = "nat_digits (nat n)"
  have k: "length ?ds \<le> 10" using assms(2,3) by (intro length_nat_digits) (auto simp: nat_less_iff)
  have a: "length (pk_a b) = 10" using assms(1) by (simp add: pk_inv_def)
  obtain a' where a': "Packet_digits (pk_a b) 10 n = Some (a', 10 - length ?ds)" "drop (10 - length ?ds) a' = ?ds"
    "length a' = 10"
    using Packet_digits_spec [OF assms(2), of 10 "pk_a b"] a k by auto
  have e: "13 - (10 - length ?ds) = 3 + length ?ds" "11 - (10 - length ?ds) = length ?ds + 1" using k by auto
  obtain b1 where b1: "Packet_grow b (3 + length ?ds) = Some b1" "pk_added b [] b1" "pk_w b1 = pk_w b"
    "pk_w b + (3 + length ?ds) \<le> length (pk_buf b1)"
    using grow_added [OF assms(1)] by blast
  have i1: "pk_inv b1" using b1(2) by (simp add: pk_added_def)
  obtain buf0 where buf0: "copy_at (pk_buf b1) (pk_w b1) [x] = Some buf0" using b1 by (simp add: copy_at_def)
  then have s0: "set_at (pk_buf b1) (pk_w b) x = Some buf0" using b1 by (simp add: set_at_copy)
  have c: "copy_at buf0 (pk_w b + 1) ?ds = copy_at (pk_buf b1) (pk_w b1) (x # ?ds)"
    using copy_at_append [OF buf0, of ?ds] b1 by simp
  obtain buf buf1 buf2 where st: "copy_at (pk_buf b1) (pk_w b1) (x # ?ds) = Some buf"
    "set_at buf (pk_w b1 + length (x # ?ds)) CR = Some buf1" "set_at buf1 (pk_w b1 + length (x # ?ds) + 1) LF = Some buf2"
    "pk_added b1 ((x # ?ds) @ STRLINEBREAK) (b1\<lparr>pk_buf := buf2, pk_w := pk_w b1 + length (x # ?ds) + 2\<rparr>)"
    using store_line [of b1 "x # ?ds"] b1 i1 by auto
  have "Packet_WriteLen b x n = Some (b1\<lparr>pk_buf := buf2, pk_w := pk_w b1 + length (x # ?ds) + 2\<rparr>)"
    using a' b1 s0 c st e k
    by (simp add: Packet_WriteLen_def slice_from_def Let_def add.assoc)
  with pk_added_append [OF b1(2) st(4)] show ?thesis by simp
qed

lemma WriteBytes_added:
  assumes "pk_inv b" and "length s < 10 ^ 10"
  shows "\<exists>b'. Packet_WriteBytes b s = Some b' \<and> pk_added b (bulk s) b'"
proof -
  have "int (length s) < 10 ^ 10" using assms(2) by simp
  then obtain b1 where b1: "Packet_WriteLen b (of_char CHR ''$'') (int (length s)) = Some b1"
    "pk_added b (of_char CHR ''$'' # nat_digits (length s) @ STRLINEBREAK) b1"
    using WriteLen_added [OF assms(1), of "int (length s)" "of_char CHR ''$''"] by auto
  then have i1: "pk_inv b1" by (simp add: pk_added_def)
  obtain b2 where b2: "Packet_grow b1 (length s + 2) = Some b2" "pk_added b1 [] b2" "pk_w b2 = pk_w b1"
    "pk_w b1 + (length s + 2) \<le> length (pk_buf b2)"
    using grow_added [OF i1] by blast
  then have i2: "pk_inv b2" by (simp add: pk_added_def)
  obtain buf buf1 buf2 where st: "copy_at (pk_buf b2) (pk_w b2) s = Some buf"
    "set_at buf (pk_w b2 + length s) CR = Some buf1" "set_at buf1 (pk_w b2 + length s + 1) LF = Some buf2"
    "pk_added b2 (s @ STRLINEBREAK) (b2\<lparr>pk_buf := buf2, pk_w := pk_w b2 + length s + 2\<rparr>)"
    using store_line [of b2 s] b2 i2 by auto
  have "Packet_WriteBytes b s = Some (b2\<lparr>pk_buf := buf2, pk_w := pk_w b2 + length s + 2\<rparr>)"
    using b1(1) b2(1) st(1-3) by (simp add: Packet_WriteBytes_def Let_def)
  with pk_added_append [OF pk_added_append [OF b1(2) b2(2)] st(4)] show ?thesis by (simp add: bulk_def)
qed

lemma WriteString_added:
  assumes "pk_inv b" and "length s < 10 ^ 10"
  shows "\<exists>b'. Packet_WriteString b s = Some b' \<and> pk_added b (bulk s) b'"
  using WriteBytes_added [OF assms] by (simp add: Packet_WriteString_def Packet_WriteBytes_def)

text \<open>The arguments that \<open>WriteInt64\<close> does not write.\<close>

fun no_int :: "iface \<Rightarrow> bool" where
  "no_int (IInt n) = False"
| "no_int (IInt64 n) = False"
| "no_int arg = True"

lemma WriteArg_added:
  assumes "pk_inv b" and "no_int arg" and "length (arg_text L arg) < 10 ^ 10"
  shows "\<exists>b'. Packet_WriteArg L b arg = Some b' \<and> pk_added b (bulk (arg_text L arg)) b'"
  using WriteBytes_added [OF assms(1,3)] WriteString_added [OF assms(1,3)] assms(2)
  by (cases arg) (simp_all add: Packet_WriteFloat64_def split: if_splits)

lemma WriteArgs_added:
  assumes "pk_inv b" and "\<forall>arg \<in> set args. no_int arg \<and> length (arg_text L arg) < 10 ^ 10"
  shows "\<exists>b'. Packet_WriteArgs L b args = Some b' \<and> pk_added b (concat (map (\<lambda>arg. bulk (arg_text L arg)) args)) b'"
  using assms
proof (induction args arbitrary: b)
  case Nil
  then show ?case by (simp add: pk_added_def)
next
  case (Cons arg args)
  obtain b1 where b1: "Packet_WriteArg L b arg = Some b1" "pk_added b (bulk (arg_text L arg)) b1"
    using WriteArg_added [OF Cons.prems(1), of arg L] Cons.prems(2) by auto
  then obtain b2 where "Packet_WriteArgs L b1 args = Some b2"
    "pk_added b1 (concat (map (\<lambda>arg. bulk (arg_text L arg)) args)) b2"
    using Cons.IH [of b1] Cons.prems(2) by (auto simp: pk_added_def)
  with b1 pk_added_append [OF b1(2)] show ?case by auto
qed

lemma WriteCommond_added:
  assumes "pk_inv b" and "length args + 1 < 10 ^ 10" and "length cmd < 10 ^ 10"
    and "\<forall>arg \<in> set args. no_int arg \<and> length (arg_text L arg) < 10 ^ 10"
  shows "\<exists>b'. Packet_WriteCommond L b cmd args = Some b' \<and> pk_added b (command_bytes (cmd # map (arg_text L) args)) b'"
proof -
  obtain b1 where b1: "Packet_WriteLen b (of_char CHR ''*'') (1 + int (length args)) = Some b1"
    "pk_added b (of_char CHR ''*'' # nat_digits (length args + 1) @ STRLINEBREAK) b1"
    using WriteLen_added [OF assms(1), of "1 + int (length args)" "of_char CHR ''*''"] assms(2)
    by (auto simp: nat_add_distrib)
  obtain b2 where b2: "Packet_WriteString b1 cmd = Some b2" "pk_added b1 (bulk cmd) b2"
    using WriteString_added [of b1 cmd] b1(2) assms(3) by (auto simp: pk_added_def)
  obtain b3 where b3: "Packet_WriteArgs L b2 args = Some b3"
    "pk_added b2 (concat (map (\<lambda>arg. bulk (arg_text L arg)) args)) b3"
    using WriteArgs_added [of b2 args L] b2(2) assms(4) by (auto simp: pk_added_def)
  from pk_added_append [OF pk_added_append [OF b1(2) b2(2)] b3(2)] b1(1) b2(1) b3(1) show ?thesis
    by (simp add: Packet_WriteCommond_def command_bytes_def comp_def)
qed

text \<open>
  C22. \<open>WriteCommond\<close> adds to a packet exactly the array of bulk strings that reads back as the command and
  the texts of its arguments, growing the array as needed, when no argument is an \<open>int\<close> or \<open>int64\<close>.
\<close>

theorem Packet_WriteCommond_roundtrip:
  assumes "pk_inv b" and "length args + 1 < 10 ^ 10" and "length cmd < 10 ^ 10"
    and "\<forall>arg \<in> set args. no_int arg \<and> length (arg_text L arg) < 10 ^ 10"
  shows "\<exists>b' w. Packet_WriteCommond L b cmd args = Some b' \<and> pk_inv b' \<and> pk_contents b' = pk_contents b @ w \<and>
    readReply (2 * length w + 1) w = Some (Inr (IList (map IBytes (cmd # map (arg_text L) args))), [])"
proof -
  let ?ss = "cmd # map (arg_text L) args"
  obtain b' where b': "Packet_WriteCommond L b cmd args = Some b'" "pk_added b (command_bytes ?ss) b'"
    using WriteCommond_added [OF assms] by blast
  have "\<forall>p \<in> set ?ss. length p \<le> maxAlloc" using assms(3,4) by (auto simp: maxAlloc_def)
  then have "readReply (2 * length (command_bytes ?ss) + 1) (command_bytes ?ss) = Some (Inr (IList (map IBytes ?ss)), [])"
    using command_bytes_read [of ?ss "[]"] assms(2) by (simp add: maxAlloc_def)
  with b' show ?thesis by (auto simp: pk_added_def)
qed

lemma NewPacketSize_inv: "pk_inv (NewPacketSize n)" "pk_contents (NewPacketSize n) = []"
  by (simp_all add: pk_inv_def pk_contents_def NewPacketSize_def)

theorem Packet_WriteCommond_roundtrip_witness:
  "\<exists>b' w. Packet_WriteCommond plain_fmt (NewPacketSize 0) (lit ''SET'') [IString (lit ''k''), IBool True] = Some b' \<and>
     pk_contents b' = w \<and>
     readReply (2 * length w + 1) w = Some (Inr (IList [IBytes (lit ''SET''), IBytes (lit ''k''), IBytes (lit ''1'')]), [])"
  using Packet_WriteCommond_roundtrip [of "NewPacketSize 0" "[IString (lit ''k''), IBool True]" "lit ''SET''" plain_fmt]
  by (auto simp: NewPacketSize_inv)

section \<open>Integer arguments\<close>

lemma WriteInt64_added:
  assumes "pk_inv b" and "0 \<le> sint n" and "sint n < 10 ^ 10"
  shows "\<exists>b'. Packet_WriteInt64 b n = Some b' \<and> pk_added b (nat_digits (nat (sint n)) @ STRLINEBREAK) b'"
proof -
  let ?ds = "nat_digits (nat (sint n))"
  have k: "length ?ds \<le> 10" using assms(2,3) by (intro length_nat_digits) (auto simp: nat_less_iff)
  have a: "length (pk_a b) = 10" using assms(1) by (simp add: pk_inv_def)
  obtain a' where a': "Packet_digits (pk_a b) 10 (sint n) = Some (a', 10 - length ?ds)" "drop (10 - length ?ds) a' = ?ds"
    "length a' = 10"
    using Packet_digits_spec [OF assms(2), of 10 "pk_a b"] a k by auto
  have e: "12 - (10 - length ?ds) = 2 + length ?ds" "10 - (10 - length ?ds) = length ?ds" using k by auto
  obtain b1 where b1: "Packet_grow b (2 + length ?ds) = Some b1" "pk_added b [] b1" "pk_w b1 = pk_w b"
    "pk_w b + (2 + length ?ds) \<le> length (pk_buf b1)"
    using grow_added [OF assms(1)] by blast
  then have i1: "pk_inv b1" by (simp add: pk_added_def)
  obtain buf buf1 buf2 where st: "copy_at (pk_buf b1) (pk_w b1) ?ds = Some buf"
    "set_at buf (pk_w b1 + length ?ds) CR = Some buf1" "set_at buf1 (pk_w b1 + length ?ds + 1) LF = Some buf2"
    "pk_added b1 (?ds @ STRLINEBREAK) (b1\<lparr>pk_buf := buf2, pk_w := pk_w b1 + length ?ds + 2\<rparr>)"
    using store_line [of b1 ?ds] b1 i1 by auto
  have "Packet_WriteInt64 b n = Some (b1\<lparr>pk_buf := buf2, pk_w := pk_w b1 + length ?ds + 2\<rparr>)"
    using a' b1 st e k by (simp add: Packet_WriteInt64_def slice_from_def Let_def add.assoc)
  with pk_added_append [OF b1(2) st(4)] show ?thesis by simp
qed

lemma WriteInt64_large:
  assumes "pk_inv b" and "10 ^ 10 \<le> sint n"
  shows "Packet_WriteInt64 b n = None"
proof -
  have "\<not> length (nat_digits (nat (sint n))) \<le> 10"
  proof
    assume k: "length (nat_digits (nat (sint n))) \<le> 10"
    have "digits_val (nat_digits (nat (sint n))) < 10 ^ length (nat_digits (nat (sint n)))"
      using nat_digits_all digits_val_bound by blast
    also have "\<dots> \<le> 10 ^ 10" using k by (intro power_increasing) auto
    finally show False using assms(2) by (simp add: nat_less_iff)
  qed
  then have "Packet_digits (pk_a b) 10 (sint n) = None"
    using Packet_digits_spec [of "sint n" 10 "pk_a b"] assms by (simp add: pk_inv_def)
  then show ?thesis by (simp add: Packet_WriteInt64_def)
qed

lemma readHead_digits:
  assumes "n < 10 ^ 19"
  shows "readHead (nat_digits n @ STRLINEBREAK @ s) = Inl (Inl (protocolError (lit ''unexpected response line'')), s)"
proof -
  obtain c l where cl: "nat_digits n = c # l" using nat_digits_not_Nil by (cases "nat_digits n") auto
  have "is_digit c" using hd_nat_digits [of n] cl by simp
  then have "c \<notin> {of_char CHR ''+'', of_char CHR ''-'', of_char CHR '':'', of_char CHR ''$'', of_char CHR ''*''}"
    by (auto simp: is_digit_unat)
  moreover have "readLine (nat_digits n @ STRLINEBREAK @ s) = (Inr (c # l), s)"
    using readLine_line [OF no_LF_digits, of n s] length_nat_digits [OF assms] cl by (simp add: bufio_size_def)
  ultimately show ?thesis by (simp add: readHead_def)
qed

lemma readReply_int_arg:
  assumes "length cmd \<le> maxAlloc" and "length key \<le> maxAlloc" and "n < 10 ^ 19"
  defines "w \<equiv> of_char CHR ''*'' # nat_digits 3 @ STRLINEBREAK @ bulk cmd @ bulk key @ nat_digits n @ STRLINEBREAK"
  shows "readReply (2 * length w + 1) w = Some (Inl (protocolError (lit ''unexpected response line'')), [])"
proof -
  define rest where "rest = bulk cmd @ bulk key @ nat_digits n @ STRLINEBREAK"
  have h: "readHead w = Inr (3, rest)"
    using readHead_array [of 3 rest] by (simp add: w_def rest_def maxAlloc_def)
  have "readItems (Suc (Suc (Suc (Suc 0)))) (Suc (Suc (Suc 0))) rest =
      Some (Inl (protocolError (lit ''unexpected response line'')), [])"
    using readHead_bulk [OF assms(1)] readHead_bulk [OF assms(2)] readHead_digits [OF assms(3), of "[]"]
    by (simp add: rest_def readReply.simps readItems.simps)
  then have "readReply (Suc (Suc (Suc (Suc (Suc 0))))) w = Some (Inl (protocolError (lit ''unexpected response line'')), [])"
    using h by (simp add: readReply.simps numeral_3_eq_3)
  then show ?thesis by (rule readReply_enough) simp
qed

text \<open>
  \<open>WriteInt64\<close> writes no bulk header, so a packet with an integer argument is not a command: with an
  argument from 0 up to ten digits, the server rejects the third element as an unexpected line; with more
  digits the digit array of ten bytes overflows and the writer panics.
\<close>

lemma Packet_WriteCommond_int_malformed:
  assumes "pk_inv b" and "length cmd < 10 ^ 10" and "length key < 10 ^ 10" and "0 \<le> sint n"
  shows "if sint n < 10 ^ 10
    then \<exists>b' w. Packet_WriteCommond L b cmd [IString key, IInt64 n] = Some b' \<and> pk_contents b' = pk_contents b @ w \<and>
      readReply (2 * length w + 1) w = Some (Inl (protocolError (lit ''unexpected response line'')), [])
    else Packet_WriteCommond L b cmd [IString key, IInt64 n] = None"
proof -
  obtain b1 where b1: "Packet_WriteLen b (of_char CHR ''*'') 3 = Some b1"
    "pk_added b (of_char CHR ''*'' # nat_digits 3 @ STRLINEBREAK) b1"
    using WriteLen_added [OF assms(1), of 3 "of_char CHR ''*''"] by auto
  obtain b2 where b2: "Packet_WriteString b1 cmd = Some b2" "pk_added b1 (bulk cmd) b2"
    using WriteString_added [of b1 cmd] b1(2) assms(2) by (auto simp: pk_added_def)
  obtain b3 where b3: "Packet_WriteString b2 key = Some b3" "pk_added b2 (bulk key) b3"
    using WriteString_added [of b2 key] b2(2) assms(3) by (auto simp: pk_added_def)
  have i3: "pk_inv b3" using b3(2) by (simp add: pk_added_def)
  have eq: "Packet_WriteCommond L b cmd [IString key, IInt64 n] = Packet_WriteInt64 b3 n"
    using b1(1) b2(1) b3(1) by (simp add: Packet_WriteCommond_def)
  show ?thesis
  proof (cases "sint n < 10 ^ 10")
    case True
    obtain b4 where b4: "Packet_WriteInt64 b3 n = Some b4" "pk_added b3 (nat_digits (nat (sint n)) @ STRLINEBREAK) b4"
      using WriteInt64_added [OF i3 assms(4) True] by blast
    note ad = pk_added_append [OF pk_added_append [OF pk_added_append [OF b1(2) b2(2)] b3(2)] b4(2)]
    have "nat (sint n) < 10 ^ 19" "length cmd \<le> maxAlloc" "length key \<le> maxAlloc"
      using True assms(2,3) by (auto simp: maxAlloc_def nat_less_iff)
    with readReply_int_arg [of cmd key "nat (sint n)"] ad b4(1) eq True show ?thesis
      by (auto simp: pk_added_def)
  next
    case False
    then show ?thesis using WriteInt64_large [OF i3] eq by simp
  qed
qed

lemma Packet_WriteCommond_int_malformed_instance:
  "\<exists>b' w. Packet_WriteCommond plain_fmt (NewPacketSize 64) (lit ''INCRBY'') [IString (lit ''k''), IInt64 7] = Some b' \<and>
     pk_contents b' = w \<and>
     readReply (2 * length w + 1) w = Some (Inl (protocolError (lit ''unexpected response line'')), [])"
  using Packet_WriteCommond_int_malformed [of "NewPacketSize 64" "lit ''INCRBY''" "lit ''k''" 7 plain_fmt]
  by (auto simp: NewPacketSize_inv)

section \<open>Reading a line\<close>

definition pk_unread :: "Packet \<Rightarrow> bytes" where
  "pk_unread b = drop (pk_r b) (pk_contents b)"

lemma Packet_slice_unread: "pk_inv b \<Longrightarrow> slice (pk_buf b) (pk_r b) (pk_w b) = Some (pk_unread b)"
  by (simp add: slice_def pk_inv_def pk_unread_def pk_contents_def drop_take)

lemma grow_4096:
  assumes "pk_inv b"
  shows "\<exists>b1. (if length (pk_buf b) - pk_w b < 4096 then Packet_grow b 4096 else Some b) = Some b1 \<and>
    pk_added b [] b1 \<and> 4096 \<le> length (pk_buf b1) - pk_w b1"
  using grow_added [OF assms, of 4096] assms by (auto simp: pk_added_def)

lemma takeWhile_LF: "LF \<notin> set l \<Longrightarrow> takeWhile (\<lambda>c. c \<noteq> LF) (l @ LF # s) = l"
  by (subst takeWhile_append2) auto

lemma first_line:
  assumes "u @ v = l @ LF # s" and "LF \<notin> set l" and "LF \<in> set u"
  shows "\<exists>s1. u = l @ LF # s1 \<and> s = s1 @ v"
proof -
  obtain ys zs where u: "u = ys @ LF # zs" "LF \<notin> set ys" using split_list_first [OF assms(3)] by blast
  have "ys = takeWhile (\<lambda>c. c \<noteq> LF) (u @ v)" using u takeWhile_LF [OF u(2), of "zs @ v"] by simp
  also have "\<dots> = l" unfolding assms(1) by (rule takeWhile_LF [OF assms(2)])
  finally show ?thesis using u(1) assms(1) by simp
qed

lemma Packet_line_spec:
  assumes "pk_inv b" and "pk_unread b = l @ LF # s1"
  shows "\<exists>b'. Packet_line b cs (l @ [LF]) = (b', cs, if l \<noteq> [] \<and> last l = CR then Inr (butlast l) else Inl LineFormat) \<and>
    pk_inv b' \<and> pk_unread b' = s1"
proof -
  have "length (pk_unread b) = pk_w b - pk_r b"
    using assms(1) by (simp add: pk_unread_def length_pk_contents)
  with assms(2) have "pk_w b - pk_r b = length l + 1 + length s1" by simp
  moreover have "drop (pk_r b + (length l + 1)) (pk_contents b) = s1"
    using arg_cong [OF assms(2), of "drop (length l + 1)"] by (simp add: pk_unread_def add.commute)
  moreover have "length (l @ [LF]) < 2 \<or> (l @ [LF]) ! (length (l @ [LF]) - 2) \<noteq> CR \<longleftrightarrow> \<not> (l \<noteq> [] \<and> last l = CR)"
    by (cases l rule: rev_cases) (auto simp: nth_append)
  moreover have "take (length (l @ [LF]) - 2) (l @ [LF]) = butlast l" by (simp add: butlast_conv_take)
  ultimately show ?thesis
    using assms(1) by (auto simp: Packet_line_def Let_def pk_inv_def pk_unread_def pk_contents_def)
qed

text \<open>A round of the loop that reads on.\<close>

lemma Packet_ReadLine_round:
  assumes "pk_inv b" and "LF \<notin> set (pk_unread b)"
  obtains b1 got eof cs1 where "conn_Read early (length (pk_buf b1) - pk_w b1) cs = (got, eof, cs1)"
    and "(if length (pk_buf b) - pk_w b < 4096 then Packet_grow b 4096 else Some b) = Some b1"
    and "eof \<Longrightarrow> Packet_ReadLine early b cs = Some (b1, cs1, Inl LineEOF) \<and> pk_inv b1 \<and> pk_unread b1 = pk_unread b"
    and "\<not> eof \<Longrightarrow> \<exists>buf. copy_at (pk_buf b1) (pk_w b1) got = Some buf \<and>
      (let b2 = b1\<lparr>pk_buf := buf, pk_w := pk_w b1 + length got\<rparr> in
       Packet_ReadLine early b cs = Packet_ReadLine early b2 cs1 \<and> pk_inv b2 \<and> pk_unread b2 = pk_unread b @ got)"
proof -
  note sl = Packet_slice_unread [OF assms(1)]
  obtain b1 where b1: "(if length (pk_buf b) - pk_w b < 4096 then Packet_grow b 4096 else Some b) = Some b1"
    "pk_added b [] b1" "4096 \<le> length (pk_buf b1) - pk_w b1"
    using grow_4096 [OF assms(1)] by blast
  obtain got eof cs1 where rd: "conn_Read early (length (pk_buf b1) - pk_w b1) cs = (got, eof, cs1)"
    using prod_cases3 by blast
  have i1: "pk_inv b1" using b1(2) by (simp add: pk_added_def)
  have u1: "pk_unread b1 = pk_unread b" using b1(2) by (simp add: pk_added_def pk_unread_def)
  have fit: "pk_w b1 + length got \<le> length (pk_buf b1)" using conn_Read_spec(2) [OF rd] b1(3) by linarith
  then obtain buf where buf: "copy_at (pk_buf b1) (pk_w b1) got = Some buf" by (simp add: copy_at_def)
  let ?b2 = "b1\<lparr>pk_buf := buf, pk_w := pk_w b1 + length got\<rparr>"
  note ad = pk_added_append [OF b1(2) stored [OF i1 fit buf]]
  then have "pk_inv ?b2" "pk_unread ?b2 = pk_unread b @ got" using assms(1)
    by (simp_all add: pk_added_def pk_unread_def length_pk_contents pk_inv_def)
  moreover have "Packet_ReadLine early b cs = (if eof then Some (b1, cs1, Inl LineEOF) else Packet_ReadLine early ?b2 cs1)"
    using assms(2) sl b1(1) rd buf by (simp add: Packet_ReadLine.simps [of early b cs])
  ultimately show ?thesis using that [OF rd b1(1)] i1 u1 buf by (simp add: Let_def)
qed

text \<open>
  C23. \<open>ReadLine\<close> is independent of how the connection delivers the bytes: if the unread bytes of the packet
  followed by those of the connection hold a line end LF, it consumes the bytes up to the first LF, whatever their number and however
  they are cut into reads, returns the line without its CR LF, or the format error when no CR comes before the LF, and
  what is unread afterwards is what follows the LF.  A reader may report the end of the stream together with its last bytes; then
  the LF must be before these, which \<open>ReadLine\<close> drops.
\<close>

theorem Packet_ReadLine_spec:
  assumes "pk_inv b" and "pk_unread b @ concat cs = l @ LF # s" and "LF \<notin> set l"
    and "early \<longrightarrow> LF \<in> set (pk_unread b @ concat (butlast cs))"
  shows "\<exists>b' cs'. Packet_ReadLine early b cs = Some (b', cs', if l \<noteq> [] \<and> last l = CR then Inr (butlast l) else Inl LineFormat) \<and>
    pk_inv b' \<and> pk_unread b' @ concat cs' = s"
  using assms
proof (induction early b cs rule: Packet_ReadLine.induct)
  case (1 early b cs)
  note sl = Packet_slice_unread [OF 1(2)]
  show ?case
  proof (cases "LF \<in> set (pk_unread b)")
    case True
    obtain s1 where s1: "pk_unread b = l @ LF # s1" "s = s1 @ concat cs"
      using first_line [OF 1(3,4) True] by blast
    have "take (length (takeWhile (\<lambda>c. c \<noteq> LF) (pk_unread b)) + 1) (pk_unread b) = l @ [LF]"
      unfolding s1(1) takeWhile_LF [OF 1(4)] by simp
    with True sl Packet_line_spec [OF 1(2) s1(1), of cs] s1(2) show ?thesis
      by (auto simp: Packet_ReadLine.simps [of early b cs])
  next
    case False
    obtain b1 got eof cs1 where rd: "conn_Read early (length (pk_buf b1) - pk_w b1) cs = (got, eof, cs1)"
        and g: "(if length (pk_buf b) - pk_w b < 4096 then Packet_grow b 4096 else Some b) = Some b1"
        and n: "\<not> eof \<Longrightarrow> \<exists>buf. copy_at (pk_buf b1) (pk_w b1) got = Some buf \<and>
          (let b2 = b1\<lparr>pk_buf := buf, pk_w := pk_w b1 + length got\<rparr> in
           Packet_ReadLine early b cs = Packet_ReadLine early b2 cs1 \<and> pk_inv b2 \<and> pk_unread b2 = pk_unread b @ got)"
      by (rule Packet_ReadLine_round [OF 1(2) False, of early cs]) blast
    have "LF \<in> set (concat cs)" using False 1(3) by (metis Un_iff in_set_conv_decomp set_append)
    then have eof: "\<not> eof" using conn_Read_spec(3) [OF rd] 1(5) False by auto
    from n [OF this] obtain buf where buf: "copy_at (pk_buf b1) (pk_w b1) got = Some buf"
      and b2: "Packet_ReadLine early b cs = Packet_ReadLine early (b1\<lparr>pk_buf := buf, pk_w := pk_w b1 + length got\<rparr>) cs1"
        "pk_inv (b1\<lparr>pk_buf := buf, pk_w := pk_w b1 + length got\<rparr>)"
        "pk_unread (b1\<lparr>pk_buf := buf, pk_w := pk_w b1 + length got\<rparr>) = pk_unread b @ got"
      by (auto simp: Let_def)
    have u: "pk_unread (b1\<lparr>pk_buf := buf, pk_w := pk_w b1 + length got\<rparr>) @ concat cs1 = l @ LF # s"
      using 1(3) conn_Read_spec(1) [OF rd] b2(3) by simp
    have e: "early \<longrightarrow> LF \<in> set (pk_unread (b1\<lparr>pk_buf := buf, pk_w := pk_w b1 + length got\<rparr>) @ concat (butlast cs1))"
      using 1(5) False conn_Read_butlast [of early _ cs got cs1 LF] rd eof b2(3) by auto
    show ?thesis
      unfolding b2(1) by (rule 1(1) [OF sl False g rd [symmetric] refl _ buf b2(2) u 1(4) e]) (use eof in simp)
  qed
qed

theorem Packet_ReadLine_spec_witness:
  "\<exists>b' cs'. Packet_ReadLine True (NewPacketSize 0) [[65, CR], [LF, 66], [67]] = Some (b', cs', Inr [65]) \<and>
     pk_unread b' @ concat cs' = [66, 67]"
  using Packet_ReadLine_spec [of "NewPacketSize 0" "[[65, CR], [LF, 66], [67]]" "[65, CR]" "[66, 67]" True]
  by (auto simp: NewPacketSize_inv pk_unread_def LF_def CR_def)

text \<open>
  Without a line end the result is end of file; and a line whose end comes together with the end of the stream is lost, and the
  result is end of file as well.
\<close>

lemma Packet_ReadLine_none:
  assumes "pk_inv b" and "LF \<notin> set (pk_unread b @ concat cs)"
  shows "\<exists>b' cs'. Packet_ReadLine early b cs = Some (b', cs', Inl LineEOF)"
  using assms
proof (induction early b cs rule: Packet_ReadLine.induct)
  case (1 early b cs)
  note sl = Packet_slice_unread [OF 1(2)]
  have False: "LF \<notin> set (pk_unread b)" using 1(3) by simp
  obtain b1 got eof cs1 where rd: "conn_Read early (length (pk_buf b1) - pk_w b1) cs = (got, eof, cs1)"
      and g: "(if length (pk_buf b) - pk_w b < 4096 then Packet_grow b 4096 else Some b) = Some b1"
      and e: "eof \<Longrightarrow> Packet_ReadLine early b cs = Some (b1, cs1, Inl LineEOF) \<and> pk_inv b1 \<and> pk_unread b1 = pk_unread b"
      and n: "\<not> eof \<Longrightarrow> \<exists>buf. copy_at (pk_buf b1) (pk_w b1) got = Some buf \<and>
        (let b2 = b1\<lparr>pk_buf := buf, pk_w := pk_w b1 + length got\<rparr> in
         Packet_ReadLine early b cs = Packet_ReadLine early b2 cs1 \<and> pk_inv b2 \<and> pk_unread b2 = pk_unread b @ got)"
    by (rule Packet_ReadLine_round [OF 1(2) False, of early cs]) blast
  show ?case
  proof (cases eof)
    case Neof: False
    from n [OF this] obtain buf where buf: "copy_at (pk_buf b1) (pk_w b1) got = Some buf"
      and b2: "Packet_ReadLine early b cs = Packet_ReadLine early (b1\<lparr>pk_buf := buf, pk_w := pk_w b1 + length got\<rparr>) cs1"
        "pk_inv (b1\<lparr>pk_buf := buf, pk_w := pk_w b1 + length got\<rparr>)"
        "pk_unread (b1\<lparr>pk_buf := buf, pk_w := pk_w b1 + length got\<rparr>) = pk_unread b @ got"
      by (auto simp: Let_def)
    have u: "LF \<notin> set (pk_unread (b1\<lparr>pk_buf := buf, pk_w := pk_w b1 + length got\<rparr>) @ concat cs1)"
      using 1(3) conn_Read_spec(1) [OF rd, symmetric] b2(3) by simp
    show ?thesis
      unfolding b2(1) by (rule 1(1) [OF sl False g rd [symmetric] refl _ buf b2(2) u]) (use Neof in simp)
  qed (use e in blast)
qed

lemma Packet_ReadLine_drops_last:
  assumes "pk_inv b" and "LF \<notin> set (pk_unread b)" and "length c \<le> 4096"
  shows "\<exists>b'. Packet_ReadLine True b [c] = Some (b', [], Inl LineEOF) \<and> pk_unread b' = pk_unread b"
proof -
  obtain b1 got eof cs1 where rd: "conn_Read True (length (pk_buf b1) - pk_w b1) [c] = (got, eof, cs1)"
      and g: "(if length (pk_buf b) - pk_w b < 4096 then Packet_grow b 4096 else Some b) = Some b1"
      and e: "eof \<Longrightarrow> Packet_ReadLine True b [c] = Some (b1, cs1, Inl LineEOF) \<and> pk_inv b1 \<and> pk_unread b1 = pk_unread b"
    by (rule Packet_ReadLine_round [OF assms(1,2), of True "[c]"]) blast
  have "4096 \<le> length (pk_buf b1) - pk_w b1" using grow_4096 [OF assms(1)] g by auto
  with rd assms(3) have "eof" "cs1 = []" by (auto split: if_splits)
  with e show ?thesis by auto
qed

end
