(* ===== verification/Redis_Reply.thy ===== *)
theory Redis_Reply
  imports Redis_Codec
begin

text \<open>
  The reply converters of \<open>lib/redis/reply.go\<close>: from the value and the error of a command to a Go
  value and an error.  As in the source, a converter takes the error first and returns the zero value
  with every error of its own.
\<close>

type_synonym 'a result = "'a \<times> redis_error option"

text \<open>The errors of the \<open>strconv\<close> package, as errors of a converter.\<close>

definition num_result :: "'a \<times> num_error option \<Rightarrow> 'a result" where
  "num_result p = (fst p, map_option StrconvErr (snd p))"

definition Int_reply :: "iface \<Rightarrow> redis_error option \<Rightarrow> (64 word) result" where
  "Int_reply reply err =
     (if err \<noteq> None then (0, err)
      else case reply of
        IInt64 r \<Rightarrow> (let x = r in if x \<noteq> r then (0, Some (StrconvErr ErrRange)) else (x, None))
      | IBytes r \<Rightarrow> (let (n, e) = num_result (ParseInt r 64) in (word_of_int n, e))
      | INil \<Rightarrow> (0, Some ErrNil)
      | IError e \<Rightarrow> (0, Some (RedisError e))
      | _ \<Rightarrow> (0, Some (Unexpected (lit ''redigo: unexpected type for Int''))))"

definition Int32 :: "iface \<Rightarrow> redis_error option \<Rightarrow> (32 word) result" where
  "Int32 reply err =
     (if err \<noteq> None then (0, err)
      else case reply of
        IInt64 r \<Rightarrow> (let x = ucast r in if scast x \<noteq> r then (0, Some (StrconvErr ErrRange)) else (x, None))
      | IInt32 r \<Rightarrow> (let x = r in if x \<noteq> r then (0, Some (StrconvErr ErrRange)) else (x, None))
      | IInt r \<Rightarrow> (let x = ucast r in if scast x \<noteq> r then (0, Some (StrconvErr ErrRange)) else (x, None))
      | IBytes r \<Rightarrow> (let (n, e) = num_result (ParseInt r 64) in (word_of_int n, e))
      | INil \<Rightarrow> (0, Some ErrNil)
      | IError e \<Rightarrow> (0, Some (RedisError e))
      | _ \<Rightarrow> (0, Some (Unexpected (lit ''redigo: unexpected type for Int''))))"

definition UInt32 :: "iface \<Rightarrow> redis_error option \<Rightarrow> (32 word) result" where
  "UInt32 reply err =
     (if err \<noteq> None then (0, err)
      else case reply of
        IInt64 r \<Rightarrow> (let x = ucast r in if ucast x \<noteq> r then (0, Some (StrconvErr ErrRange)) else (x, None))
      | IInt32 r \<Rightarrow> (let x = r in if x \<noteq> r then (0, Some (StrconvErr ErrRange)) else (x, None))
      | IInt r \<Rightarrow> (let x = ucast r in if ucast x \<noteq> r then (0, Some (StrconvErr ErrRange)) else (x, None))
      | IBytes r \<Rightarrow> (let (n, e) = num_result (ParseInt r 64) in (word_of_int n, e))
      | INil \<Rightarrow> (0, Some ErrNil)
      | IError e \<Rightarrow> (0, Some (RedisError e))
      | _ \<Rightarrow> (0, Some (Unexpected (lit ''redigo: unexpected type for Int''))))"

definition Int64 :: "iface \<Rightarrow> redis_error option \<Rightarrow> (64 word) result" where
  "Int64 reply err =
     (if err \<noteq> None then (0, err)
      else case reply of
        IInt64 r \<Rightarrow> (r, None)
      | IBytes r \<Rightarrow> (let (n, e) = num_result (ParseInt r 64) in (word_of_int n, e))
      | INil \<Rightarrow> (0, Some ErrNil)
      | IError e \<Rightarrow> (0, Some (RedisError e))
      | _ \<Rightarrow> (0, Some (Unexpected (lit ''redigo: unexpected type for Int64''))))"

definition Uint64 :: "iface \<Rightarrow> redis_error option \<Rightarrow> (64 word) result" where
  "Uint64 reply err =
     (if err \<noteq> None then (0, err)
      else case reply of
        IInt64 r \<Rightarrow> if sint r < 0 then (0, Some errNegativeInt) else (r, None)
      | IBytes r \<Rightarrow> (let (n, e) = num_result (ParseUint r 64) in (of_nat n, e))
      | INil \<Rightarrow> (0, Some ErrNil)
      | IError e \<Rightarrow> (0, Some (RedisError e))
      | _ \<Rightarrow> (0, Some (Unexpected (lit ''redigo: unexpected type for Uint64''))))"

definition Float64 :: "go_fmt \<Rightarrow> iface \<Rightarrow> redis_error option \<Rightarrow> (64 word) result" where
  "Float64 L reply err =
     (if err \<noteq> None then (0, err)
      else case reply of
        IBytes r \<Rightarrow> num_result (ParseFloat L r 64)
      | INil \<Rightarrow> (0, Some ErrNil)
      | IError e \<Rightarrow> (0, Some (RedisError e))
      | _ \<Rightarrow> (0, Some (Unexpected (lit ''redigo: unexpected type for Float64''))))"

text \<open>
  The loop of the array converters: an element that is nil keeps the zero value, any other one is
  converted, up to the first error.
\<close>

fun conv_items :: "'a \<Rightarrow> (iface \<Rightarrow> redis_error + 'a) \<Rightarrow> iface list \<Rightarrow> redis_error + 'a list" where
  "conv_items zero f [] = Inr []"
| "conv_items zero f (x # xs) =
     (case (if x = INil then Inr zero else f x) of
        Inl e \<Rightarrow> Inl e
      | Inr v \<Rightarrow> (case conv_items zero f xs of Inl e \<Rightarrow> Inl e | Inr vs \<Rightarrow> Inr (v # vs)))"

text \<open>The frame of the array converters around that loop.\<close>

definition conv_array :: "bytes \<Rightarrow> (iface list \<Rightarrow> redis_error + 'a list) \<Rightarrow> iface \<Rightarrow> redis_error option \<Rightarrow> ('a list) result" where
  "conv_array msg f reply err =
     (if err \<noteq> None then ([], err)
      else case reply of
        IList xs \<Rightarrow> (case f xs of Inl e \<Rightarrow> ([], Some e) | Inr vs \<Rightarrow> (vs, None))
      | INil \<Rightarrow> ([], Some ErrNil)
      | IError e \<Rightarrow> ([], Some (RedisError e))
      | _ \<Rightarrow> ([], Some (Unexpected msg)))"

text \<open>Whether a float64 compares below zero: the sign bit, but not negative zero and not a NaN.\<close>

definition float_neg :: "64 word \<Rightarrow> bool" where
  "float_neg x \<longleftrightarrow> bit x 63 \<and> x \<noteq> 0x8000000000000000 \<and> \<not> (0x7FF0000000000000 < x AND 0x7FFFFFFFFFFFFFFF)"

definition Float64s :: "go_fmt \<Rightarrow> iface \<Rightarrow> redis_error option \<Rightarrow> ((64 word) list) result" where
  "Float64s L = conv_array (lit ''redigo: unexpected type for Strings'') (conv_items 0 (\<lambda>rp. case rp of
       IFloat64 x \<Rightarrow> if float_neg x then Inl errNegativeInt else Inr x
     | IBytes b \<Rightarrow> (case ParseFloat L b 64 of (n, None) \<Rightarrow> Inr n | (n, Some e) \<Rightarrow> Inl (StrconvErr e))
     | IError e \<Rightarrow> Inl (RedisError e)
     | _ \<Rightarrow> Inr 0))"

definition String :: "iface \<Rightarrow> redis_error option \<Rightarrow> bytes result" where
  "String reply err =
     (if err \<noteq> None then ([], err)
      else case reply of
        IBytes r \<Rightarrow> (r, None)
      | IString r \<Rightarrow> (r, None)
      | INil \<Rightarrow> ([], Some ErrNil)
      | IError e \<Rightarrow> ([], Some (RedisError e))
      | _ \<Rightarrow> ([], Some (Unexpected (lit ''redigo: unexpected type for String''))))"

definition Bytes :: "iface \<Rightarrow> redis_error option \<Rightarrow> bytes result" where
  "Bytes reply err =
     (if err \<noteq> None then ([], err)
      else case reply of
        IBytes r \<Rightarrow> (r, None)
      | IString r \<Rightarrow> (r, None)
      | INil \<Rightarrow> ([], Some ErrNil)
      | IError e \<Rightarrow> ([], Some (RedisError e))
      | _ \<Rightarrow> ([], Some (Unexpected (lit ''redigo: unexpected type for Bytes''))))"

text \<open>A nil element stays a nil slice, \<open>None\<close>.\<close>

definition BytesArray :: "iface \<Rightarrow> redis_error option \<Rightarrow> (bytes option list) result" where
  "BytesArray = conv_array (lit ''redigo: unexpected type for Strings'') (conv_items None (\<lambda>x. case x of
       IBytes p \<Rightarrow> Inr (Some p)
     | _ \<Rightarrow> Inl (Unexpected (lit ''redigo: unexpected element type for Strings''))))"

definition Bool :: "iface \<Rightarrow> redis_error option \<Rightarrow> bool result" where
  "Bool reply err =
     (if err \<noteq> None then (False, err)
      else case reply of
        IInt64 r \<Rightarrow> (r \<noteq> 0, None)
      | IBytes r \<Rightarrow> num_result (ParseBool r)
      | INil \<Rightarrow> (False, Some ErrNil)
      | IError e \<Rightarrow> (False, Some (RedisError e))
      | _ \<Rightarrow> (False, Some (Unexpected (lit ''redigo: unexpected type for Bool''))))"

definition Values :: "iface \<Rightarrow> redis_error option \<Rightarrow> (iface list) result" where
  "Values = conv_array (lit ''redigo: unexpected type for Values'') Inr"

definition Strings :: "iface \<Rightarrow> redis_error option \<Rightarrow> (bytes list) result" where
  "Strings = conv_array (lit ''redigo: unexpected type for Strings'') (conv_items [] (\<lambda>x. case x of
       IBytes p \<Rightarrow> Inr p
     | _ \<Rightarrow> Inl (Unexpected (lit ''redigo: unexpected element type for Strings''))))"

definition Floats :: "go_fmt \<Rightarrow> iface \<Rightarrow> redis_error option \<Rightarrow> ((64 word) list) result" where
  "Floats L = conv_array (lit ''redigo: unexpected type for Strings'') (conv_items 0 (\<lambda>rp. case rp of
       IFloat64 x \<Rightarrow> Inr x
     | IBytes b \<Rightarrow> (case ParseFloat L b 64 of (n, None) \<Rightarrow> Inr n | (n, Some e) \<Rightarrow> Inl (StrconvErr e))
     | IError e \<Rightarrow> Inl (RedisError e)
     | _ \<Rightarrow> Inr 0))"

definition Int64s :: "iface \<Rightarrow> redis_error option \<Rightarrow> ((64 word) list) result" where
  "Int64s = conv_array (lit ''redigo: unexpected type for Strings'') (conv_items 0 (\<lambda>rp. case rp of
       IInt64 n \<Rightarrow> Inr n
     | IBytes b \<Rightarrow> (case ParseInt b 64 of (n, None) \<Rightarrow> Inr (word_of_int n) | (n, Some e) \<Rightarrow> Inl (StrconvErr e))
     | IError e \<Rightarrow> Inl (RedisError e)
     | _ \<Rightarrow> Inr 0))"

definition Uint64s :: "iface \<Rightarrow> redis_error option \<Rightarrow> ((64 word) list) result" where
  "Uint64s = conv_array (lit ''redigo: unexpected type for Strings'') (conv_items 0 (\<lambda>rp. case rp of
       IInt64 n \<Rightarrow> if sint n < 0 then Inl errNegativeInt else Inr n
     | IBytes b \<Rightarrow> (case ParseUint b 64 of (n, None) \<Rightarrow> Inr (of_nat n) | (n, Some e) \<Rightarrow> Inl (StrconvErr e))
     | IError e \<Rightarrow> Inl (RedisError e)
     | _ \<Rightarrow> Inr 0))"

text \<open>\<open>Uint32s\<close> looks at a nil reply before it looks at the error.\<close>

definition Uint32s :: "iface \<Rightarrow> redis_error option \<Rightarrow> ((32 word) list) result" where
  "Uint32s reply err =
     (if reply = INil then ([], Some ErrNil)
      else case Values reply err of
        (values, Some e) \<Rightarrow> ([], Some e)
      | (values, None) \<Rightarrow>
          (case conv_items 0 (\<lambda>rp. case rp of
               IInt64 n \<Rightarrow> if sint n < 0 then Inl errNegativeInt else Inr (ucast n)
             | IBytes b \<Rightarrow> (case ParseUint b 64 of (n, None) \<Rightarrow> Inr (of_nat n) | (n, Some e) \<Rightarrow> Inl (StrconvErr e))
             | _ \<Rightarrow> Inr 0) values of
             Inl e \<Rightarrow> ([], Some e)
           | Inr vs \<Rightarrow> (vs, None)))"

section \<open>Maps\<close>

text \<open>
  The loop over alternating keys and values: \<open>kv\<close> converts one pair or fails, later pairs overwrite
  earlier ones.
\<close>

fun conv_pairs :: "(iface \<Rightarrow> iface \<Rightarrow> redis_error + 'k \<times> 'v) \<Rightarrow> iface list \<Rightarrow> ('k \<rightharpoonup> 'v) \<Rightarrow> redis_error + ('k \<rightharpoonup> 'v)" where
  "conv_pairs kv (x # y # rest) m =
     (case kv x y of Inl e \<Rightarrow> Inl e | Inr (k, v) \<Rightarrow> conv_pairs kv rest (m(k \<mapsto> v)))"
| "conv_pairs kv _ m = Inr m"

definition conv_map ::
  "bytes \<Rightarrow> (iface \<Rightarrow> iface \<Rightarrow> redis_error + 'k \<times> 'v) \<Rightarrow> iface \<Rightarrow> redis_error option \<Rightarrow> (('k \<rightharpoonup> 'v) option) result" where
  "conv_map msg kv reply err =
     (case Values reply err of
        (values, Some e) \<Rightarrow> (None, Some e)
      | (values, None) \<Rightarrow>
          if length values mod 2 \<noteq> 0 then (None, Some (Unexpected msg))
          else (case conv_pairs kv values Map.empty of
              Inl e \<Rightarrow> (None, Some e)
            | Inr m \<Rightarrow> (Some m, None)))"

definition not_bulk_key :: redis_error where
  "not_bulk_key = Unexpected (lit ''redigo: ScanMap key not a bulk string value'')"

definition StringMap :: "iface \<Rightarrow> redis_error option \<Rightarrow> ((bytes \<rightharpoonup> bytes) option) result" where
  "StringMap = conv_map (lit ''redigo: StringMap expects even number of values result'') (\<lambda>k v.
     case (k, v) of (IBytes key, IBytes value) \<Rightarrow> Inr (key, value) | _ \<Rightarrow> Inl not_bulk_key)"

definition IntMap :: "iface \<Rightarrow> redis_error option \<Rightarrow> ((bytes \<rightharpoonup> 64 word) option) result" where
  "IntMap = conv_map (lit ''redigo: IntMap expects even number of values result'') (\<lambda>k v.
     case k of
       IBytes key \<Rightarrow> (case Int_reply v None of (n, None) \<Rightarrow> Inr (key, n) | (n, Some e) \<Rightarrow> Inl e)
     | _ \<Rightarrow> Inl not_bulk_key)"

definition Int64Map :: "iface \<Rightarrow> redis_error option \<Rightarrow> ((bytes \<rightharpoonup> 64 word) option) result" where
  "Int64Map = conv_map (lit ''redigo: Int64Map expects even number of values result'') (\<lambda>k v.
     case k of
       IBytes key \<Rightarrow> (case Int64 v None of (n, None) \<Rightarrow> Inr (key, n) | (n, Some e) \<Rightarrow> Inl e)
     | _ \<Rightarrow> Inl not_bulk_key)"

definition Uint64Uint64Map :: "iface \<Rightarrow> redis_error option \<Rightarrow> ((64 word \<rightharpoonup> 64 word) option) result" where
  "Uint64Uint64Map = conv_map (lit ''redigo: Int64Map expects even number of values result'') (\<lambda>k v.
     case Uint64 k None of
       (key, Some e) \<Rightarrow> Inl e
     | (key, None) \<Rightarrow> (case Uint64 v None of (n, None) \<Rightarrow> Inr (key, n) | (n, Some e) \<Rightarrow> Inl e))"

section \<open>Correctness\<close>

lemma ParseInt_sint: "ParseInt (FormatInt (sint (n :: 64 word))) 64 = (sint n, None)"
  using sint_greater_eq [of n] sint_less [of n] by (intro ParseInt_FormatInt) simp_all

lemma scast_ucast_32: "scast (ucast (n :: 64 word) :: 32 word) = n \<longleftrightarrow> - (2 ^ 31) \<le> sint n \<and> sint n < 2 ^ 31"
proof -
  have s: "sint (ucast n :: 32 word) = signed_take_bit 31 (sint n)"
    by (simp add: signed_ucast_eq sint_uint [of n])
  have "scast (ucast n :: 32 word) = n \<longleftrightarrow> sint (scast (ucast n :: 32 word) :: 64 word) = sint n"
    by (simp add: word_eq_iff_signed)
  also have "sint (scast (ucast n :: 32 word) :: 64 word) = sint (ucast n :: 32 word)"
    using sint_greater_eq [of "ucast n :: 32 word"] sint_less [of "ucast n :: 32 word"]
    by (simp add: signed_scast_eq signed_take_bit_int_eq_self)
  finally show ?thesis
    unfolding s using signed_take_bit_int_eq_self_iff [of 31 "sint n"] by simp
qed

lemma ucast_ucast_32: "ucast (ucast (n :: 64 word) :: 32 word) = n \<longleftrightarrow> 0 \<le> sint n \<and> sint n < 2 ^ 32"
proof -
  have "ucast (ucast n :: 32 word) = n \<longleftrightarrow> uint (ucast (ucast n :: 32 word) :: 64 word) = uint n"
    by (simp add: word_uint_eq_iff)
  also have "\<dots> \<longleftrightarrow> uint n < 2 ^ 32"
    using take_bit_int_eq_self_iff [of 32 "uint n"] by (simp add: unsigned_ucast_eq unsigned_take_bit_eq)
  also have "\<dots> \<longleftrightarrow> 0 \<le> sint n \<and> sint n < 2 ^ 32"
  proof (cases "0 \<le> sint n")
    case True
    then have "uint n = sint n"
      using sint_less [of n] by (simp add: uint_sint take_bit_int_eq_self)
    with True show ?thesis by simp
  next
    case False
    have "uint n = (sint n + 2 ^ 64) mod 2 ^ 64" by (simp add: uint_sint take_bit_eq_mod)
    also have "\<dots> = sint n + 2 ^ 64" using False sint_greater_eq [of n] by (intro mod_pos_pos_trivial) simp_all
    finally show ?thesis using False sint_greater_eq [of n] by simp
  qed
  finally show ?thesis .
qed

text \<open>
  \<open>Int32\<close> and \<open>UInt32\<close> take an integer reply only when it is in the range of the type, and then exactly;
  the same number in a bulk string is cut to 32 bits without an error.
\<close>

lemma reply_Int32_range:
  "Int32 (IInt64 n) None =
     (if - (2 ^ 31) \<le> sint n \<and> sint n < 2 ^ 31 then (word_of_int (sint n), None) else (0, Some (StrconvErr ErrRange))) \<and>
   UInt32 (IInt64 n) None =
     (if 0 \<le> sint n \<and> sint n < 2 ^ 32 then (word_of_int (sint n), None) else (0, Some (StrconvErr ErrRange))) \<and>
   Int32 (IBytes (FormatInt (sint n))) None = (word_of_int (sint n), None) \<and>
   UInt32 (IBytes (FormatInt (sint n))) None = (word_of_int (sint n), None)"
proof -
  have "word_of_int (sint n) = (ucast n :: 32 word)"
    by (rule bit_word_eqI) (auto simp: bit_simps)
  then show ?thesis
    using scast_ucast_32 [of n] ucast_ucast_32 [of n]
    by (simp add: Int32_def UInt32_def Let_def num_result_def ParseInt_sint del: of_int_sint)
qed


text \<open>The reply to \<open>HGETALL\<close>: keys and values alternate.\<close>

definition flat_pairs :: "(bytes \<times> bytes) list \<Rightarrow> iface list" where
  "flat_pairs kvs = concat (map (\<lambda>(k, v). [IBytes k, IBytes v]) kvs)"

lemma length_flat_pairs: "length (flat_pairs kvs) = 2 * length kvs"
  by (induction kvs) (auto simp: flat_pairs_def)

lemma conv_pairs_flat:
  assumes "\<And>k v. kv (IBytes k) (IBytes v) = Inr (f k, g v)"
  shows "conv_pairs kv (flat_pairs kvs) m = Inr (m ++ map_of (rev (map (\<lambda>(k, v). (f k, g v)) kvs)))"
proof (induction kvs arbitrary: m)
  case (Cons p kvs)
  then show ?case using assms by (cases p) (auto simp: flat_pairs_def fun_eq_iff map_add_def split: option.splits)
qed (simp add: flat_pairs_def)

text \<open>
  C35. \<open>StringMap\<close> of a reply with alternating keys and values is the map of these pairs, in which a later
  value of a key replaces an earlier one; \<open>Int64Map\<close> is the map of their numbers.
\<close>

theorem StringMap_pairs:
  "StringMap (IList (flat_pairs kvs)) None = (Some (map_of (rev kvs)), None) \<and>
   Int64Map (IList (flat_pairs (map (\<lambda>(k, n). (k, FormatInt (sint n))) kns))) None = (Some (map_of (rev kns)), None)"
proof -
  have "map (\<lambda>(k, v). (id k, id v)) kvs = kvs" by (simp add: case_prod_beta)
  then have 1: "conv_pairs (\<lambda>k v. case (k, v) of (IBytes key, IBytes value) \<Rightarrow> Inr (key, value) | _ \<Rightarrow> Inl not_bulk_key)
      (flat_pairs kvs) Map.empty = Inr (map_of (rev kvs))"
    by (subst conv_pairs_flat [of _ id id]) simp_all
  let ?kv = "\<lambda>k v. case k of
      IBytes key \<Rightarrow> (case Int64 v None of (n, None) \<Rightarrow> Inr (key, n) | (n, Some e) \<Rightarrow> Inl e)
    | _ \<Rightarrow> Inl not_bulk_key"
  have "conv_pairs ?kv (flat_pairs (map (\<lambda>(k, n). (k, FormatInt (sint n))) kns)) m = Inr (m ++ map_of (rev kns))" for m
    by (induction kns arbitrary: m)
      (auto simp: flat_pairs_def Int64_def num_result_def ParseInt_sint fun_eq_iff map_add_def split: option.splits)
  then show ?thesis
    using 1 by (simp add: StringMap_def Int64Map_def conv_map_def Values_def conv_array_def length_flat_pairs)
qed

end
