(* ===== verification/Redis_Scan.thy ===== *)
theory Redis_Scan
  imports Redis_Reply Go_Strings
begin

text \<open>
  The mapping between replies and Go values, \<open>lib/redis/scan.go\<close>: assignment of a reply to a value of a Go
  type, the field table of a struct type, and the flattening of a struct into command arguments.
\<close>

section \<open>Assigning one reply\<close>

definition cannotConvert :: redis_error where
  "cannotConvert = Unexpected (lit ''redigo: Scan cannot convert'')"

fun convertAssignBytes :: "go_fmt \<Rightarrow> gval \<Rightarrow> bytes \<Rightarrow> gval result" where
  "convertAssignBytes L (VFloat b y) s = (let (x, err) = num_result (ParseFloat L s b) in (VFloat b x, err))"
| "convertAssignBytes L (VInt k y) s = (let (x, err) = num_result (ParseInt s (kind_bits k)) in (VInt k x, err))"
| "convertAssignBytes L (VUint k y) s = (let (x, err) = num_result (ParseUint s (kind_bits k)) in (VUint k x, err))"
| "convertAssignBytes L (VBool y) s = (let (x, err) = num_result (ParseBool s) in (VBool x, err))"
| "convertAssignBytes L (VString y) s = (VString s, None)"
| "convertAssignBytes L (VBytes y) s = (VBytes s, None)"
| "convertAssignBytes L d s = (d, Some cannotConvert)"

text \<open>\<open>SetInt\<close> and \<open>SetUint\<close> keep the low bits of the size of the destination.\<close>

fun convertAssignInt :: "gval \<Rightarrow> 64 word \<Rightarrow> gval result" where
  "convertAssignInt (VInt k y) s =
     (let d = signed_take_bit (kind_bits k - 1) (sint s) in
      if d \<noteq> sint s then (VInt k 0, Some (StrconvErr ErrRange)) else (VInt k d, None))"
| "convertAssignInt (VUint k y) s =
     (if sint s < 0 then (VUint k y, Some (StrconvErr ErrRange))
      else (let x = unat s; d = take_bit (kind_bits k) x in
        if d \<noteq> x then (VUint k 0, Some (StrconvErr ErrRange)) else (VUint k d, None)))"
| "convertAssignInt (VBool y) s = (VBool (s \<noteq> 0), None)"
| "convertAssignInt d s = (d, Some cannotConvert)"

fun convertAssignValue :: "go_fmt \<Rightarrow> gval \<Rightarrow> iface \<Rightarrow> gval result" where
  "convertAssignValue L d (IBytes s) = convertAssignBytes L d s"
| "convertAssignValue L d (IInt64 s) = convertAssignInt d s"
| "convertAssignValue L d s = (d, Some cannotConvert)"

text \<open>
  The values a caller passes to be filled: nil, a pointer to a value, to an interface, to a slice of
  interfaces or to a slice of another type (with its elements up to its capacity, and its length), or
  something that is no pointer.
\<close>

datatype dest =
    DNil
  | DPtr gval
  | DIface iface
  | DIfaces "iface list"
  | DSlice gotype "gval list" nat
  | DOther

definition ensureLen :: "gotype \<Rightarrow> gval list \<Rightarrow> nat \<Rightarrow> gval list" where
  "ensureLen t back n = (if n > length back then replicate n (zero_val t) else back)"

text \<open>Assigning to the elements of a slice, up to the first error; \<open>skip\<close> leaves out nil elements.\<close>

fun assign_items :: "go_fmt \<Rightarrow> bool \<Rightarrow> gval list \<Rightarrow> iface list \<Rightarrow> (gval list) result" where
  "assign_items L skip (d # ds) (s # ss) =
     (if skip \<and> s = INil then (let (ds', err) = assign_items L skip ds ss in (d # ds', err))
      else case convertAssignValue L d s of
        (d', Some e) \<Rightarrow> (d' # ds, Some e)
      | (d', None) \<Rightarrow> (let (ds', err) = assign_items L skip ds ss in (d' # ds', err)))"
| "assign_items L skip ds _ = (ds, None)"

definition convertAssignValues :: "go_fmt \<Rightarrow> gotype \<Rightarrow> gval list \<Rightarrow> iface list \<Rightarrow> dest result" where
  "convertAssignValues L t back s =
     (let (ds, err) = assign_items L False (ensureLen t back (length s)) s in (DSlice t ds (length s), err))"

fun byte_of :: "gval \<Rightarrow> byte" where
  "byte_of (VUint k n) = of_nat n"
| "byte_of _ = 0"

fun convertAssign :: "go_fmt \<Rightarrow> dest \<Rightarrow> iface \<Rightarrow> dest result" where
  "convertAssign L d INil = (d, None)"
| "convertAssign L d (IBytes s) = (case d of
     DPtr (VString _) \<Rightarrow> (DPtr (VString s), None)
   | DPtr (VInt K_int _) \<Rightarrow> (let (x, err) = num_result (Atoi s) in (DPtr (VInt K_int x), err))
   | DPtr (VBool _) \<Rightarrow> (let (x, err) = num_result (ParseBool s) in (DPtr (VBool x), err))
   | DPtr (VBytes _) \<Rightarrow> (DPtr (VBytes s), None)
   | DIface _ \<Rightarrow> (DIface (IBytes s), None)
   | DNil \<Rightarrow> (d, None)
   | DPtr v \<Rightarrow> (let (x, err) = convertAssignBytes L v s in (DPtr x, err))
   | _ \<Rightarrow> (d, Some cannotConvert))"
| "convertAssign L d (IInt64 s) = (case d of
     DPtr (VInt K_int _) \<Rightarrow> (DPtr (VInt K_int (sint s)), None)
   | DPtr (VBool _) \<Rightarrow> (DPtr (VBool (s \<noteq> 0)), None)
   | DIface _ \<Rightarrow> (DIface (IInt64 s), None)
   | DNil \<Rightarrow> (d, None)
   | DPtr v \<Rightarrow> (let (x, err) = convertAssignInt v s in (DPtr x, err))
   | _ \<Rightarrow> (d, Some cannotConvert))"
| "convertAssign L d (IList s) = (case d of
     DIfaces _ \<Rightarrow> (DIfaces s, None)
   | DIface _ \<Rightarrow> (DIface (IList s), None)
   | DNil \<Rightarrow> (d, None)
   | DSlice t back n \<Rightarrow> convertAssignValues L t back s
   | DPtr (VBytes bs) \<Rightarrow>
       (let (ds, err) = assign_items L False
              (ensureLen (TUint K_8) (map (\<lambda>b. VUint K_8 (unat b)) bs) (length s)) s
        in (DPtr (VBytes (map byte_of (take (length s) ds))), err))
   | _ \<Rightarrow> (d, Some cannotConvert))"
| "convertAssign L d (IError e) = (d, Some (RedisError e))"
| "convertAssign L d s = (d, Some cannotConvert)"

fun scan_loop :: "go_fmt \<Rightarrow> iface list \<Rightarrow> dest list \<Rightarrow> (dest list) result" where
  "scan_loop L (s # ss) (d # ds) = (case convertAssign L d s of
     (d', Some e) \<Rightarrow> (d' # ds, Some e)
   | (d', None) \<Rightarrow> (let (ds', err) = scan_loop L ss ds in (d' # ds', err)))"
| "scan_loop L _ ds = (ds, None)"

definition Scan :: "go_fmt \<Rightarrow> iface list \<Rightarrow> dest list \<Rightarrow> dest list \<times> (iface list) result" where
  "Scan L src ds =
     (if length src < length ds then (ds, [], Some (Unexpected (lit ''redigo: Scan array short'')))
      else let (ds', err) = scan_loop L src ds in (ds', drop (length ds) src, err))"

section \<open>The field table of a struct type\<close>

record fieldSpec =
  fs_name :: bytes
  fs_index :: "nat list"

record structSpec =
  ss_m :: "bytes \<rightharpoonup> fieldSpec"
  ss_l :: "fieldSpec list"

definition structSpec_fieldSpec :: "structSpec \<Rightarrow> bytes \<Rightarrow> fieldSpec option" where
  "structSpec_fieldSpec ss name = ss_m ss name"

text \<open>The name of a field from its tag: no field for \<open>-\<close>, a panic for a tag with flags.\<close>

datatype tag_result = TagSkip | TagPanic | TagName bytes

definition field_name :: "gofield \<Rightarrow> tag_result" where
  "field_name f =
     (let p = split_on (of_char CHR '','') (gf_tag f) in
      if hd p = lit ''-'' then TagSkip
      else if tl p \<noteq> [] then TagPanic
      else TagName (if hd p \<noteq> [] then hd p else gf_name f))"

type_synonym compile_state = "(bytes \<rightharpoonup> nat) \<times> structSpec"

definition add_field :: "nat list \<Rightarrow> nat \<Rightarrow> bytes \<Rightarrow> compile_state \<Rightarrow> compile_state" where
  "add_field index i name st =
     (let (depth, ss) = st; d = (case depth name of None \<Rightarrow> 2 ^ 30 | Some d \<Rightarrow> d) in
      if length index = d
      then (depth, ss\<lparr>ss_m := (ss_m ss)(name := None), ss_l := filter (\<lambda>fs. name \<noteq> fs_name fs) (ss_l ss)\<rparr>)
      else if length index < d
      then (let fs = \<lparr>fs_name = name, fs_index = index @ [i]\<rparr> in
            (depth(name \<mapsto> length index), ss\<lparr>ss_m := (ss_m ss)(name \<mapsto> fs), ss_l := ss_l ss @ [fs]\<rparr>))
      else (depth, ss))"

text \<open>\<open>compileStructSpec\<close> over the fields from number \<open>i\<close> on; \<open>None\<close> is the panic on a tag.\<close>

fun struct_fields :: "gotype \<Rightarrow> gofield list option" where
  "struct_fields (TStruct inner) = Some inner"
| "struct_fields _ = None"

lemma struct_fields_size [termination_simp]:
  "struct_fields t = Some inner \<Longrightarrow> size_list size inner < size t + k"
  by (cases t) auto

fun compileStructSpec :: "gofield list \<Rightarrow> nat \<Rightarrow> nat list \<Rightarrow> compile_state \<Rightarrow> compile_state option" where
  "compileStructSpec [] i index st = Some st"
| "compileStructSpec (GoField name exported anonymous tag t # flds) i index st =
     (if \<not> exported then compileStructSpec flds (i + 1) index st
      else if anonymous then
        (case struct_fields t of
           Some inner \<Rightarrow> compileStructSpec inner 0 (index @ [i]) st \<bind> compileStructSpec flds (i + 1) index
         | None \<Rightarrow> compileStructSpec flds (i + 1) index st)
      else (case field_name (GoField name exported anonymous tag t) of
          TagSkip \<Rightarrow> compileStructSpec flds (i + 1) index st
        | TagPanic \<Rightarrow> None
        | TagName n \<Rightarrow> compileStructSpec flds (i + 1) index (add_field index i n st)))"

text \<open>The cache of \<open>structSpecForType\<close> changes nothing in what it returns.\<close>

definition structSpecForType :: "gofield list \<Rightarrow> structSpec option" where
  "structSpecForType t =
     map_option snd (compileStructSpec t 0 [] (Map.empty, \<lparr>ss_m = Map.empty, ss_l = []\<rparr>))"

text \<open>\<open>FieldByIndex\<close>, and assigning to the field it gives.\<close>

fun FieldByIndex :: "nat list \<Rightarrow> gval \<Rightarrow> gval option" where
  "FieldByIndex [] v = Some v"
| "FieldByIndex (i # is) (VStruct vs) = (if i < length vs then FieldByIndex is (vs ! i) else None)"
| "FieldByIndex (i # is) v = None"

fun set_field :: "nat list \<Rightarrow> gval \<Rightarrow> gval \<Rightarrow> gval" where
  "set_field [] x v = x"
| "set_field (i # is) x (VStruct vs) =
     (if i < length vs then VStruct (vs[i := set_field is x (vs ! i)]) else VStruct vs)"
| "set_field (i # is) x v = v"

definition assign_field :: "go_fmt \<Rightarrow> fieldSpec \<Rightarrow> gval \<Rightarrow> iface \<Rightarrow> (gval result) option" where
  "assign_field L fs v s = do {
     d \<leftarrow> FieldByIndex (fs_index fs) v;
     let (d', err) = convertAssignValue L d s;
     Some (set_field (fs_index fs) d' v, err)
   }"

section \<open>Structs\<close>

text \<open>A pointer to a struct of a type with a value, a nil pointer, or anything else.\<close>

datatype struct_dest = SPtr "gofield list" gval | SNil | SOther

definition errScanStructValue :: redis_error where
  "errScanStructValue = Unexpected (lit ''redigo: ScanStruct value must be non-nil pointer to a struct'')"

fun scan_struct_loop :: "go_fmt \<Rightarrow> structSpec \<Rightarrow> iface list \<Rightarrow> gval \<Rightarrow> (gval result) option" where
  "scan_struct_loop L ss (k # s # rest) v =
     (if s = INil then scan_struct_loop L ss rest v
      else case k of
        IBytes name \<Rightarrow>
          (case structSpec_fieldSpec ss name of
             None \<Rightarrow> scan_struct_loop L ss rest v
           | Some fs \<Rightarrow>
               (case assign_field L fs v s of
                  None \<Rightarrow> None
                | Some (v', Some e) \<Rightarrow> Some (v', Some e)
                | Some (v', None) \<Rightarrow> scan_struct_loop L ss rest v'))
      | _ \<Rightarrow> Some (v, Some (Unexpected (lit ''redigo: ScanStruct key not a bulk string value''))))"
| "scan_struct_loop L ss _ v = Some (v, None)"

definition ScanStruct :: "go_fmt \<Rightarrow> iface list \<Rightarrow> struct_dest \<Rightarrow> (struct_dest result) option" where
  "ScanStruct L src dst = (case dst of
     SPtr t v \<Rightarrow> do {
       ss \<leftarrow> structSpecForType t;
       if length src mod 2 \<noteq> 0
       then Some (dst, Some (Unexpected (lit ''redigo: ScanStruct expects even number of values in values'')))
       else do {
         (v', err) \<leftarrow> scan_struct_loop L ss src v;
         Some (SPtr t v', err)
       }
     }
   | _ \<Rightarrow> Some (dst, Some errScanStructValue))"

text \<open>The names of the fields, in the order \<open>iter\<close> in which Go visits the map.\<close>

definition GetStructFields ::
  "((bytes \<rightharpoonup> fieldSpec) \<Rightarrow> bytes list) \<Rightarrow> struct_dest \<Rightarrow> ((bytes list) result) option" where
  "GetStructFields iter dst = (case dst of
     SPtr t v \<Rightarrow> do {
       ss \<leftarrow> structSpecForType t;
       Some (map (\<lambda>n. case ss_m ss n of Some fs \<Rightarrow> fs_name fs | None \<Rightarrow> []) (iter (ss_m ss)), None)
     }
   | _ \<Rightarrow> Some ([], Some errScanStructValue))"

fun scan_value_loop :: "go_fmt \<Rightarrow> structSpec \<Rightarrow> iface list \<Rightarrow> bytes option list \<Rightarrow> gval \<Rightarrow> (gval result) option" where
  "scan_value_loop L ss (s # src) (n # names) v =
     (if s = INil then scan_value_loop L ss src names v
      else case n of
        None \<Rightarrow> Some (v, Some (Unexpected (lit ''redigo: ScanStruct key not a bulk string value'')))
      | Some name \<Rightarrow>
          (case structSpec_fieldSpec ss name of
             None \<Rightarrow> scan_value_loop L ss src names v
           | Some fs \<Rightarrow>
               (case assign_field L fs v s of
                  None \<Rightarrow> None
                | Some (v', Some e) \<Rightarrow> Some (v', Some e)
                | Some (v', None) \<Rightarrow> scan_value_loop L ss src names v')))"
| "scan_value_loop L ss _ _ v = Some (v, None)"

definition ScanStructByValue ::
  "go_fmt \<Rightarrow> iface list \<Rightarrow> bytes option list \<Rightarrow> struct_dest \<Rightarrow> (struct_dest result) option" where
  "ScanStructByValue L src names dst =
     (if length src \<noteq> length names
      then Some (dst, Some (Unexpected (lit ''redis: names and value is not march'')))
      else case dst of
        SPtr t v \<Rightarrow> do {
          ss \<leftarrow> structSpecForType t;
          (v', err) \<leftarrow> scan_value_loop L ss src names v;
          Some (SPtr t v', err)
        }
      | _ \<Rightarrow> Some (dst, Some errScanStructValue))"

section \<open>Slices\<close>

text \<open>
  \<open>ScanSlice\<close>: the elements of the destination are of a type that is no struct, structs, or pointers
  to structs (with \<open>None\<close> for a nil pointer).
\<close>

datatype slice_dest =
    LVals gotype "gval list" nat
  | LStructs "gofield list" "gval list" nat
  | LPtrs "gofield list" "gval option list" nat
  | LOther

definition errScanSliceValue :: redis_error where
  "errScanSliceValue = Unexpected (lit ''redigo: ScanSlice dest must be non-nil pointer to a struct'')"

text \<open>The columns: all fields in order, or those the caller names.\<close>

fun named_fields :: "structSpec \<Rightarrow> bytes list \<Rightarrow> redis_error + fieldSpec list" where
  "named_fields ss [] = Inr []"
| "named_fields ss (n # ns) = (case ss_m ss n of
     None \<Rightarrow> Inl (Unexpected (lit ''redigo: ScanSlice bad field name '' @ n))
   | Some fs \<Rightarrow> (case named_fields ss ns of Inl e \<Rightarrow> Inl e | Inr fss \<Rightarrow> Inr (fs # fss)))"

definition slice_columns :: "structSpec \<Rightarrow> bytes list \<Rightarrow> redis_error + fieldSpec list" where
  "slice_columns ss fieldNames =
     (case (if fieldNames \<noteq> [] then named_fields ss fieldNames else Inr (ss_l ss)) of
        Inl e \<Rightarrow> Inl e
      | Inr fss \<Rightarrow> if fss = [] then Inl (Unexpected (lit ''redigo: ScanSlice no struct fields'')) else Inr fss)"

fun scan_row :: "go_fmt \<Rightarrow> fieldSpec list \<Rightarrow> iface list \<Rightarrow> gval \<Rightarrow> (gval result) option" where
  "scan_row L (fs # fss) (s # src) v =
     (if s = INil then scan_row L fss src v
      else case assign_field L fs v s of
        None \<Rightarrow> None
      | Some (v', Some e) \<Rightarrow> Some (v', Some e)
      | Some (v', None) \<Rightarrow> scan_row L fss src v')"
| "scan_row L _ _ v = Some (v, None)"

fun scan_rows :: "go_fmt \<Rightarrow> fieldSpec list \<Rightarrow> iface list \<Rightarrow> gval list \<Rightarrow> nat \<Rightarrow> ((gval list) result) option" where
  "scan_rows L fss src (v # vs) (Suc n) =
     (case scan_row L fss (take (length fss) src) v of
        None \<Rightarrow> None
      | Some (v', Some e) \<Rightarrow> Some (v' # vs, Some e)
      | Some (v', None) \<Rightarrow>
          (case scan_rows L fss (drop (length fss) src) vs n of
             None \<Rightarrow> None
           | Some (vs', err) \<Rightarrow> Some (v' # vs', err)))"
| "scan_rows L fss src vs n = Some (vs, None)"

text \<open>A row behind a pointer is allocated when the loop reaches it.\<close>

fun scan_ptr_rows ::
  "go_fmt \<Rightarrow> gofield list \<Rightarrow> fieldSpec list \<Rightarrow> iface list \<Rightarrow> gval option list \<Rightarrow> nat \<Rightarrow> ((gval option list) result) option" where
  "scan_ptr_rows L t fss src (p # ps) (Suc n) =
     (case scan_row L fss (take (length fss) src) (case p of None \<Rightarrow> zero_val (TStruct t) | Some v \<Rightarrow> v) of
        None \<Rightarrow> None
      | Some (v', Some e) \<Rightarrow> Some (Some v' # ps, Some e)
      | Some (v', None) \<Rightarrow>
          (case scan_ptr_rows L t fss (drop (length fss) src) ps n of
             None \<Rightarrow> None
           | Some (ps', err) \<Rightarrow> Some (Some v' # ps', err)))"
| "scan_ptr_rows L t fss src ps n = Some (ps, None)"

definition slice_rows :: "structSpec \<Rightarrow> bytes list \<Rightarrow> nat \<Rightarrow> redis_error + fieldSpec list \<times> nat" where
  "slice_rows ss fieldNames len = (case slice_columns ss fieldNames of
     Inl e \<Rightarrow> Inl e
   | Inr fss \<Rightarrow> (let n = len div length fss in
       if n * length fss \<noteq> len
       then Inl (Unexpected (lit ''redigo: ScanSlice length not a multiple of struct field count''))
       else Inr (fss, n)))"

definition ScanSlice :: "go_fmt \<Rightarrow> iface list \<Rightarrow> slice_dest \<Rightarrow> bytes list \<Rightarrow> (slice_dest result) option" where
  "ScanSlice L src d fieldNames = (case d of
     LVals t back n \<Rightarrow>
       (let (ds, err) = assign_items L True (ensureLen t back (length src)) src
        in Some (LVals t ds (length src), err))
   | LStructs t back n \<Rightarrow> do {
       ss \<leftarrow> structSpecForType t;
       case slice_rows ss fieldNames (length src) of
         Inl e \<Rightarrow> Some (d, Some e)
       | Inr (fss, m) \<Rightarrow> do {
           (vs, err) \<leftarrow> scan_rows L fss src (ensureLen (TStruct t) back m) m;
           Some (LStructs t vs m, err)
         }
     }
   | LPtrs t back n \<Rightarrow> do {
       ss \<leftarrow> structSpecForType t;
       case slice_rows ss fieldNames (length src) of
         Inl e \<Rightarrow> Some (d, Some e)
       | Inr (fss, m) \<Rightarrow> do {
           (vs, err) \<leftarrow> scan_ptr_rows L t fss src (if m > length back then replicate m None else back) m;
           Some (LPtrs t vs m, err)
         }
     }
   | LOther \<Rightarrow> Some (d, Some errScanSliceValue))"

section \<open>Arguments\<close>

type_synonym Args = "iface list"

definition Args_Add :: "Args \<Rightarrow> iface list \<Rightarrow> Args" where
  "Args_Add args value = args @ value"

fun flatten_fields :: "fieldSpec list \<Rightarrow> gval \<Rightarrow> Args \<Rightarrow> Args option" where
  "flatten_fields [] v args = Some args"
| "flatten_fields (fs # fss) v args = do {
     fv \<leftarrow> FieldByIndex (fs_index fs) v;
     flatten_fields fss v (args @ [IString (fs_name fs), to_iface fv])
   }"

definition flattenStruct :: "Args \<Rightarrow> gofield list \<Rightarrow> gval \<Rightarrow> Args option" where
  "flattenStruct args t v = do {
     ss \<leftarrow> structSpecForType t;
     flatten_fields (ss_l ss) v args
   }"

text \<open>
  What \<open>AddFlat\<close> tells apart: a struct or a pointer to one, a nil pointer to a struct, a slice, a map (its
  pairs in the order Go visits them), and anything else.
\<close>

datatype flat_arg =
    FStruct "gofield list" gval
  | FNilStruct
  | FSlice "iface list"
  | FMap "(iface \<times> iface) list"
  | FValue iface

definition Args_AddFlat :: "Args \<Rightarrow> flat_arg \<Rightarrow> Args option" where
  "Args_AddFlat args v = (case v of
     FStruct t x \<Rightarrow> flattenStruct args t x
   | FNilStruct \<Rightarrow> Some args
   | FSlice xs \<Rightarrow> Some (args @ xs)
   | FMap kvs \<Rightarrow> Some (args @ concat (map (\<lambda>(k, v). [k, v]) kvs))
   | FValue x \<Rightarrow> Some (args @ [x]))"

text \<open>
  The converter of \<open>reply.go\<close> that scans into a slice of \<open>int\<close>; like \<open>Uint32s\<close> it looks at a nil reply before it
  looks at the error.
\<close>

fun int_of_gval :: "gval \<Rightarrow> int" where
  "int_of_gval (VInt k i) = i"
| "int_of_gval _ = 0"

definition Ints :: "go_fmt \<Rightarrow> iface \<Rightarrow> redis_error option \<Rightarrow> (int list) result" where
  "Ints L reply err =
     (if reply = INil then ([], Some ErrNil)
      else case Values reply err of
        (values, Some e) \<Rightarrow> ([], Some e)
      | (values, None) \<Rightarrow>
          (case ScanSlice L values (LVals (TInt K_int) [] 0) [] of
             Some (LVals t ds n, e) \<Rightarrow> (map int_of_gval (take n ds), e)
           | _ \<Rightarrow> ([], None)))"

end
