(* ===== verification/Redis_ScanProofs.thy ===== *)
theory Redis_ScanProofs
  imports Redis_Scan Redis_ReadReply
begin

text \<open>
  Correctness of the struct mapping of \<open>lib/redis/scan.go\<close>: the field table of a type names distinct fields of
  it, and a struct that is flattened into arguments and scanned back from the texts of these arguments
  comes back unchanged in every field of the table.
\<close>

section \<open>One field\<close>

text \<open>
  The values that are written as text and parsed back: integers, float64 values that the float
  formatting gives back, booleans, strings and byte slices.
\<close>

fun storable :: "go_fmt \<Rightarrow> gval \<Rightarrow> bool" where
  "storable L (VFloat b x) \<longleftrightarrow> b = 64 \<and> ParseFloat L (FormatFloat L x) 64 = (x, None)"
| "storable L (VStruct vs) \<longleftrightarrow> False"
| "storable L (VOther n) \<longleftrightarrow> False"
| "storable L v \<longleftrightarrow> True"

lemma sint_of_int: "- (2 ^ (LENGTH('a) - 1)) \<le> i \<Longrightarrow> i < 2 ^ (LENGTH('a) - 1) \<Longrightarrow> sint (word_of_int i :: 'a::len word) = i"
  by (simp add: signed_of_int signed_take_bit_int_eq_self)

lemma unat_of_nat_lt: "n < 2 ^ LENGTH('a) \<Longrightarrow> unat (of_nat n :: 'a::len word) = n"
  by (simp add: unsigned_of_nat take_bit_nat_eq_self)

lemma arg_text_int:
  "has_type (VInt k i) t \<Longrightarrow> arg_text L (to_iface (VInt k i)) = FormatInt i"
  by (cases k; cases t) (auto intro!: arg_cong [of _ _ FormatInt] sint_of_int)

lemma arg_text_uint:
  "has_type (VUint k n) t \<Longrightarrow> arg_text L (to_iface (VUint k n)) = FormatUint n"
  by (cases k; cases t) (auto intro!: arg_cong [of _ _ FormatUint] unat_of_nat_lt)

lemma assign_back:
  assumes "has_type v t" and "has_type d t" and "storable L v"
  shows "convertAssignValue L d (IBytes (arg_text L (to_iface v))) = (v, None)"
proof (cases v)
  case (VInt k i)
  with assms obtain j where d: "d = VInt k j" by (cases t; cases d) auto
  have "0 < kind_bits k" "kind_bits k \<le> 64" by (cases k; simp)+
  moreover have "- (2 ^ (kind_bits k - 1)) \<le> i" "i < 2 ^ (kind_bits k - 1)" using assms(1) VInt by (cases t; simp)+
  ultimately have "ParseInt (FormatInt i) (kind_bits k) = (i, None)" by (intro ParseInt_FormatInt)
  with arg_text_int [OF assms(1) [unfolded VInt]] show ?thesis
    unfolding VInt d by (simp add: num_result_def)
next
  case (VUint k n)
  with assms obtain j where d: "d = VUint k j" by (cases t; cases d) auto
  have "n < 2 ^ kind_bits k" using assms(1) VUint by (cases t) simp_all
  then have "ParseUint (FormatUint n) (kind_bits k) = (n, None)" by (rule ParseUint_FormatUint)
  with arg_text_uint [OF assms(1) [unfolded VUint]] show ?thesis
    unfolding VUint d by (simp add: num_result_def)
next
  case (VBool b)
  with assms obtain j where "d = VBool j" by (cases t; cases d) auto
  with VBool show ?thesis by (cases b) (simp_all add: num_result_def ParseBool_def)
qed (use assms in \<open>cases t; cases d; simp add: num_result_def\<close>)+

section \<open>Fields by their index\<close>

lemma FieldByIndex_append:
  "FieldByIndex (p @ q) v = FieldByIndex p v \<bind> FieldByIndex q"
  by (induction p v rule: FieldByIndex.induct) auto

lemma get_set_same: "FieldByIndex p v = Some y \<Longrightarrow> FieldByIndex p (set_field p x v) = Some x"
  by (induction p v rule: FieldByIndex.induct) (auto split: if_splits)

lemma get_set_other:
  "\<not> prefix p q \<Longrightarrow> \<not> prefix q p \<Longrightarrow> FieldByIndex q (set_field p x v) = FieldByIndex q v"
proof (induction p v arbitrary: q rule: FieldByIndex.induct)
  case (2 i "is" vs)
  then obtain j js where q: "q = j # js" by (cases q) auto
  show ?case
  proof (cases "i = j \<and> i < length vs")
    case True
    with 2 q show ?thesis by auto
  next
    case False
    with q show ?thesis by (auto simp: nth_list_update)
  qed
qed (auto simp: neq_Nil_conv)

text \<open>The fields of the embedded struct at the end of a path through embedded structs.\<close>

fun sub_fields :: "gofield list \<Rightarrow> nat list \<Rightarrow> gofield list option" where
  "sub_fields t [] = Some t"
| "sub_fields t (i # is) =
     (if i < length t \<and> gf_anonymous (t ! i)
      then (case gf_type (t ! i) of TStruct t' \<Rightarrow> sub_fields t' is | _ \<Rightarrow> None) else None)"

lemma sub_fields_append: "sub_fields t (p @ q) = sub_fields t p \<bind> (\<lambda>t'. sub_fields t' q)"
  by (induction p arbitrary: t) (auto split: gotype.splits)

text \<open>An entry of the table of a type: a path to a named field.\<close>

definition valid_spec :: "gofield list \<Rightarrow> fieldSpec \<Rightarrow> bool" where
  "valid_spec t fs \<longleftrightarrow> (\<exists>p i t'. fs_index fs = p @ [i] \<and> sub_fields t p = Some t' \<and> i < length t' \<and>
     \<not> gf_anonymous (t' ! i) \<and> field_name (t' ! i) = TagName (fs_name fs))"

lemma valid_spec_prefix:
  assumes "valid_spec t a" and "valid_spec t b" and "prefix (fs_index a) (fs_index b)"
  shows "a = b"
proof -
  obtain p i t' where a: "fs_index a = p @ [i]" "sub_fields t p = Some t'" "i < length t'" "\<not> gf_anonymous (t' ! i)"
    "field_name (t' ! i) = TagName (fs_name a)" using assms(1) by (auto simp: valid_spec_def)
  obtain q j t'' where b: "fs_index b = q @ [j]" "sub_fields t q = Some t''" "field_name (t'' ! j) = TagName (fs_name b)"
    using assms(2) by (auto simp: valid_spec_def)
  show ?thesis
  proof (cases "fs_index a = fs_index b")
    case True
    with a b have "fs_name a = fs_name b" by simp
    with True show ?thesis by simp
  next
    case False
    then obtain r where "q = p @ i # r"
      using assms(3) a(1) b(1) by (auto simp: prefix_def append_eq_append_conv2 Cons_eq_append_conv append_eq_Cons_conv)
    with a b show ?thesis by (auto simp: sub_fields_append)
  qed
qed

lemma sub_fields_value:
  assumes "sub_fields t p = Some t'" and "has_type v (TStruct t)"
  shows "\<exists>v'. FieldByIndex p v = Some v' \<and> has_type v' (TStruct t')"
  using assms
proof (induction p arbitrary: t v)
  case (Cons i p)
  from Cons.prems(2) obtain vs where vs: "v = VStruct vs" "list_all2 (\<lambda>v f. has_type v (gf_type f)) vs t"
    by (cases v) auto
  from Cons.prems(1) obtain t1 where t1: "i < length t" "gf_type (t ! i) = TStruct t1" "sub_fields t1 p = Some t'"
    by (auto split: if_splits gotype.splits)
  from vs(2) t1 have "i < length vs" "has_type (vs ! i) (TStruct t1)" by (auto simp: list_all2_conv_all_nth)
  with Cons.IH [OF t1(3)] vs(1) show ?case by simp
qed simp

lemma valid_spec_value:
  assumes "valid_spec t fs" and "has_type v (TStruct t)" and "has_type d (TStruct t)"
  shows "\<exists>ty x y. FieldByIndex (fs_index fs) v = Some x \<and> has_type x ty \<and>
    FieldByIndex (fs_index fs) d = Some y \<and> has_type y ty"
proof -
  obtain p i t' where a: "fs_index fs = p @ [i]" "sub_fields t p = Some t'" "i < length t'"
    using assms(1) by (auto simp: valid_spec_def)
  have *: "\<exists>x. FieldByIndex (fs_index fs) w = Some x \<and> has_type x (gf_type (t' ! i))" if w: "has_type w (TStruct t)" for w
  proof -
    obtain w' where w': "FieldByIndex p w = Some w'" "has_type w' (TStruct t')"
      using sub_fields_value [OF a(2) w] by blast
    then obtain ws where "w' = VStruct ws" "list_all2 (\<lambda>v f. has_type v (gf_type f)) ws t'" by (cases w') auto
    with a w' show ?thesis by (auto simp: FieldByIndex_append list_all2_conv_all_nth)
  qed
  from * [OF assms(2)] * [OF assms(3)] show ?thesis by blast
qed

lemma set_field_type:
  assumes "FieldByIndex p v = Some x" and "\<And>ty. has_type x ty \<Longrightarrow> has_type y ty" and "has_type v t"
  shows "has_type (set_field p y v) t"
  using assms(1,3)
proof (induction p v arbitrary: t rule: FieldByIndex.induct)
  case (2 i "is" vs)
  from 2(3) obtain fs where t: "t = TStruct fs" "list_all2 (\<lambda>v f. has_type v (gf_type f)) vs fs" by (cases t) auto
  from 2(2) have i: "i < length vs" "FieldByIndex is (vs ! i) = Some x" by (auto split: if_splits)
  have "has_type (set_field is y (vs ! i)) (gf_type (fs ! i))"
    using 2(1) [OF i] t(2) i(1) by (auto simp: list_all2_conv_all_nth)
  with t i show ?case by (auto simp: list_all2_conv_all_nth nth_list_update)
qed (use assms(2) in auto)

section \<open>The field table\<close>

definition spec_inv :: "gofield list \<Rightarrow> structSpec \<Rightarrow> bool" where
  "spec_inv t ss \<longleftrightarrow> (\<forall>fs \<in> set (ss_l ss). valid_spec t fs \<and> ss_m ss (fs_name fs) \<noteq> None) \<and>
     (\<forall>n fs. ss_m ss n = Some fs \<longrightarrow> fs \<in> set (ss_l ss) \<and> fs_name fs = n)"

lemma add_field_inv:
  assumes "spec_inv t (snd st)" and "sub_fields t index = Some t'" and "i < length t'"
    and "\<not> gf_anonymous (t' ! i)" and "field_name (t' ! i) = TagName n"
  shows "spec_inv t (snd (add_field index i n st))"
proof -
  have "valid_spec t \<lparr>fs_name = n, fs_index = index @ [i]\<rparr>"
    using assms(2-5) by (auto simp: valid_spec_def)
  with assms(1) show ?thesis
    by (auto simp: add_field_def spec_inv_def Let_def split: prod.splits if_splits)
qed

lemma compile_inv:
  assumes "compileStructSpec flds i index st = Some st'" and "sub_fields t index = Some t'" and "flds = drop i t'"
    and "spec_inv t (snd st)"
  shows "spec_inv t (snd st')"
  using assms
proof (induction flds i index st arbitrary: st' t' rule: compileStructSpec.induct)
  case (1 i index st)
  then show ?case by simp
next
  case (2 name exported anonymous tag ty flds i index st)
  have i: "i < length t'" using "2.prems"(3) by (metis drop_all linorder_not_less list.distinct(1))
  have "t' ! i # drop (Suc i) t' = GoField name exported anonymous tag ty # flds"
    using "2.prems"(3) Cons_nth_drop_Suc [OF i] by simp
  then have f: "t' ! i = GoField name exported anonymous tag ty" "flds = drop (i + 1) t'" by simp_all
  note prems = "2.prems" and IH = "2.IH"
  show ?case
  proof (cases "exported \<and> anonymous")
    case True
    show ?thesis
    proof (cases "struct_fields ty")
      case None
      with IH(2) [of st' t'] prems f(2) True show ?thesis by simp
    next
      case (Some inner)
      then obtain st1 where st1: "compileStructSpec inner 0 (index @ [i]) st = Some st1"
        "compileStructSpec flds (i + 1) index st1 = Some st'" using prems(1) True by (auto split: bind_splits)
      have "ty = TStruct inner" using Some by (cases ty) auto
      then have "sub_fields t (index @ [i]) = Some inner"
        using prems(2) i f(1) True by (simp add: sub_fields_append)
      then have "spec_inv t (snd st1)" using IH(3) [of inner st1 inner] st1(1) prems(4) Some True by simp
      then show ?thesis using IH(4) [of inner st1 st' t'] st1 prems(2) f(2) Some True by simp
    qed
  next
    case False
    show ?thesis
    proof (cases exported)
      case True
      with False have na: "\<not> anonymous" by simp
      show ?thesis
      proof (cases "field_name (GoField name exported anonymous tag ty)")
        case (TagName n)
        have "spec_inv t (snd (add_field index i n st))"
          using add_field_inv [OF prems(4,2) i] f(1) na TagName by simp
        then show ?thesis using IH(6) [of n st' t'] prems f(2) True na TagName by simp
      qed (use IH(5) [of st' t'] prems f(2) True na in auto)
    qed (use IH(1) [of st' t'] prems f(2) in simp)
  qed
qed

lemma structSpecForType_inv:
  assumes "structSpecForType t = Some ss"
  shows "spec_inv t ss"
  using compile_inv [of t 0 "[]" "(Map.empty, \<lparr>ss_m = Map.empty, ss_l = []\<rparr>)" _ t t] assms
  by (auto simp: structSpecForType_def spec_inv_def)

section \<open>Flattening and scanning back\<close>

lemma storable_type:
  assumes "storable L x" and "has_type x ty" and "has_type y ty" and "has_type y ty'"
  shows "has_type x ty'"
  using assms
  by (cases y; cases ty; (simp; fail)?; cases x; (simp; fail)?; cases ty'; (simp; fail)?; simp)

lemma assign_field_value:
  assumes "valid_spec t fs" and "has_type v (TStruct t)" and "has_type d (TStruct t)"
    and "FieldByIndex (fs_index fs) v = Some x" and "storable L x"
  shows "\<exists>d'. assign_field L fs d (IBytes (arg_text L (to_iface x))) = Some (d', None) \<and> has_type d' (TStruct t) \<and>
    FieldByIndex (fs_index fs) d' = Some x \<and>
    (\<forall>gs. valid_spec t gs \<longrightarrow> gs \<noteq> fs \<longrightarrow> FieldByIndex (fs_index gs) d' = FieldByIndex (fs_index gs) d)"
proof -
  obtain ty y where y: "has_type x ty" "FieldByIndex (fs_index fs) d = Some y" "has_type y ty"
    using valid_spec_value [OF assms(1-3)] assms(4) by auto
  note cv = assign_back [OF y(1,3) assms(5)]
  let ?d' = "set_field (fs_index fs) x d"
  have same_ty: "has_type x ty' " if "has_type y ty'" for ty'
    using storable_type [OF assms(5) y(1,3)] that .
  have "FieldByIndex (fs_index gs) ?d' = FieldByIndex (fs_index gs) d" if "valid_spec t gs" "gs \<noteq> fs" for gs
    using valid_spec_prefix [OF assms(1) that(1)] valid_spec_prefix [OF that(1) assms(1)] that(2)
    by (intro get_set_other) auto
  with cv y get_set_same [OF y(2)] set_field_type [OF y(2) same_ty assms(3)] show ?thesis
    by (auto simp: assign_field_def)
qed

text \<open>The pairs hold the texts of the fields of \<open>v\<close>, and \<open>d'\<close> is \<open>d\<close> with these fields taken from \<open>v\<close>.\<close>

definition texts_of :: "go_fmt \<Rightarrow> structSpec \<Rightarrow> gval \<Rightarrow> (bytes \<times> bytes) list \<Rightarrow> bool" where
  "texts_of L ss v kvs \<longleftrightarrow> (\<forall>(n, tx) \<in> set kvs. \<forall>fs. ss_m ss n = Some fs \<longrightarrow>
     (\<exists>x. FieldByIndex (fs_index fs) v = Some x \<and> storable L x \<and> tx = arg_text L (to_iface x)))"

definition scanned :: "structSpec \<Rightarrow> bytes set \<Rightarrow> gval \<Rightarrow> gval \<Rightarrow> gval \<Rightarrow> bool" where
  "scanned ss N v d d' \<longleftrightarrow> (\<forall>n fs. ss_m ss n = Some fs \<longrightarrow> FieldByIndex (fs_index fs) d' =
     (if n \<in> N then FieldByIndex (fs_index fs) v else FieldByIndex (fs_index fs) d))"

lemma scan_struct_loop_pairs:
  assumes "spec_inv t ss" and "has_type v (TStruct t)" and "has_type d (TStruct t)"
    and "distinct (map fst kvs)" and "texts_of L ss v kvs"
  shows "\<exists>d'. scan_struct_loop L ss (flat_pairs kvs) d = Some (d', None) \<and> scanned ss (fst ` set kvs) v d d'"
  using assms(3-)
proof (induction kvs arbitrary: d)
  case Nil
  then show ?case by (simp add: flat_pairs_def scanned_def)
next
  case (Cons p kvs)
  obtain n tx where p: "p = (n, tx)" by fastforce
  have fp: "flat_pairs (p # kvs) = IBytes n # IBytes tx # flat_pairs kvs" by (simp add: flat_pairs_def p)
  have n: "n \<notin> fst ` set kvs" "distinct (map fst kvs)" using Cons.prems(2) p by simp_all
  have rest: "texts_of L ss v kvs" using Cons.prems(3) by (simp add: texts_of_def)
  show ?case
  proof (cases "ss_m ss n")
    case None
    obtain d' where "scan_struct_loop L ss (flat_pairs kvs) d = Some (d', None)" "scanned ss (fst ` set kvs) v d d'"
      using Cons.IH [OF Cons.prems(1) n(2) rest] by blast
    with None fp p show ?thesis by (auto simp: structSpec_fieldSpec_def scanned_def)
  next
    case (Some fs)
    then obtain x where x: "FieldByIndex (fs_index fs) v = Some x" "storable L x" "tx = arg_text L (to_iface x)"
      using Cons.prems(3) p by (auto simp: texts_of_def)
    have vs: "valid_spec t gs" if m: "ss_m ss m = Some gs" for m gs
      using assms(1) m by (auto simp: spec_inv_def)
    obtain d1 where d1: "assign_field L fs d (IBytes tx) = Some (d1, None)" "has_type d1 (TStruct t)"
      "FieldByIndex (fs_index fs) d1 = Some x"
      "\<forall>gs. valid_spec t gs \<longrightarrow> gs \<noteq> fs \<longrightarrow> FieldByIndex (fs_index gs) d1 = FieldByIndex (fs_index gs) d"
      using assign_field_value [OF vs [OF Some] assms(2) Cons.prems(1) x(1,2)] x(3) by auto
    obtain d' where d': "scan_struct_loop L ss (flat_pairs kvs) d1 = Some (d', None)" "scanned ss (fst ` set kvs) v d1 d'"
      using Cons.IH [OF d1(2) n(2) rest] by blast
    have "scanned ss (fst ` set (p # kvs)) v d d'"
      unfolding scanned_def
    proof (intro allI impI)
      fix m gs
      assume m: "ss_m ss m = Some gs"
      show "FieldByIndex (fs_index gs) d' = (if m \<in> fst ` set (p # kvs) then FieldByIndex (fs_index gs) v
        else FieldByIndex (fs_index gs) d)"
      proof (cases "m = n")
        case True
        with m Some x d1(3) d'(2) n p show ?thesis by (auto simp: scanned_def)
      next
        case False
        then have "gs \<noteq> fs" using m Some assms(1) unfolding spec_inv_def by metis
        with d1(4) vs [OF m] d'(2) m False p show ?thesis by (auto simp: scanned_def)
      qed
    qed
    with d'(1) d1(1) Some fp show ?thesis by (simp add: structSpec_fieldSpec_def)
  qed
qed

text \<open>The texts of alternating names and values.\<close>

fun arg_pairs :: "go_fmt \<Rightarrow> Args \<Rightarrow> (bytes \<times> bytes) list" where
  "arg_pairs L (k # v # rest) = (arg_text L k, arg_text L v) # arg_pairs L rest"
| "arg_pairs L _ = []"

lemma flatten_fields_append:
  "flatten_fields fss v args = map_option (\<lambda>as. args @ as) (flatten_fields fss v [])"
proof (induction fss arbitrary: args)
  case (Cons fs fss)
  show ?case
  proof (cases "FieldByIndex (fs_index fs) v")
    case (Some x)
    with Cons.IH [of "args @ [IString (fs_name fs), to_iface x]"] Cons.IH [of "[IString (fs_name fs), to_iface x]"]
    show ?thesis by (simp add: option.map_comp comp_def)
  qed simp
qed simp

lemma flatten_pairs:
  assumes "flatten_fields fss v [] = Some args"
  shows "arg_pairs L args = map (\<lambda>fs. (fs_name fs, arg_text L (to_iface (the (FieldByIndex (fs_index fs) v))))) fss"
  using assms
proof (induction fss arbitrary: args)
  case (Cons fs fss)
  then obtain x where x: "FieldByIndex (fs_index fs) v = Some x" by (auto split: bind_splits)
  with Cons.prems flatten_fields_append [of fss v "[IString (fs_name fs), to_iface x]"]
  obtain as where "flatten_fields fss v [] = Some as" "args = [IString (fs_name fs), to_iface x] @ as" by auto
  with Cons.IH x show ?case by simp
qed simp

text \<open>
  C15. A struct survives the trip through a redis hash: if the arguments that \<open>flattenStruct\<close> makes of a
  struct are stored under their names, and all pairs of the hash, in any order, are scanned into a struct
  of the same type by \<open>ScanStruct\<close>, every field of the type's table has its original value again
  (integers of every size and sign, unsigned ones, booleans, strings, byte slices, and floats whose text parses back).
  The names of the table are distinct: two fields of one name would be stored under one.
\<close>

theorem ScanStruct_flattenStruct:
  assumes "structSpecForType t = Some ss" and "distinct (map fs_name (ss_l ss))"
    and "has_type v (TStruct t)" and "has_type d (TStruct t)"
    and "\<forall>fs \<in> set (ss_l ss). \<forall>x. FieldByIndex (fs_index fs) v = Some x \<longrightarrow> storable L x"
    and "flattenStruct [] t v = Some args"
    and "distinct (map fst kvs)" and "set kvs = set (arg_pairs L args)"
  shows "\<exists>d'. ScanStruct L (flat_pairs kvs) (SPtr t d) = Some (SPtr t d', None) \<and>
    (\<forall>fs \<in> set (ss_l ss). FieldByIndex (fs_index fs) d' = FieldByIndex (fs_index fs) v)"
proof -
  note inv = structSpecForType_inv [OF assms(1)]
  have kvs: "set kvs = (\<lambda>fs. (fs_name fs, arg_text L (to_iface (the (FieldByIndex (fs_index fs) v))))) ` set (ss_l ss)"
    using assms(1,6,8) flatten_pairs [of "ss_l ss" v args L] by (simp add: flattenStruct_def)
  have m: "ss_m ss (fs_name fs) = Some fs" if l: "fs \<in> set (ss_l ss)" for fs
  proof -
    have "ss_m ss (fs_name fs) \<noteq> None" using inv l by (simp add: spec_inv_def)
    then obtain gs where "ss_m ss (fs_name fs) = Some gs" by blast
    moreover from this have "gs \<in> set (ss_l ss)" "fs_name gs = fs_name fs" using inv by (simp_all add: spec_inv_def)
    ultimately show ?thesis using assms(2) l by (metis distinct_map inj_onD)
  qed
  have vals: "texts_of L ss v kvs"
    unfolding texts_of_def kvs
  proof (clarsimp)
    fix gs fs
    assume gs: "gs \<in> set (ss_l ss)" and fs: "ss_m ss (fs_name gs) = Some fs"
    have "valid_spec t gs" using inv gs by (simp add: spec_inv_def)
    then obtain x where "FieldByIndex (fs_index gs) v = Some x" using valid_spec_value assms(3) by blast
    with gs fs m [OF gs] assms(5) show "\<exists>x. FieldByIndex (fs_index fs) v = Some x \<and> storable L x \<and>
      arg_text L (to_iface (the (FieldByIndex (fs_index gs) v))) = arg_text L (to_iface x)" by auto
  qed
  obtain d' where d': "scan_struct_loop L ss (flat_pairs kvs) d = Some (d', None)" "scanned ss (fst ` set kvs) v d d'"
    using scan_struct_loop_pairs [OF inv assms(3,4,7) vals] by blast
  have "FieldByIndex (fs_index fs) d' = FieldByIndex (fs_index fs) v" if l: "fs \<in> set (ss_l ss)" for fs
  proof -
    have "fs_name fs \<in> fst ` set kvs" unfolding kvs using l by (force simp: image_image)
    with d'(2) m [OF l] show ?thesis by (simp add: scanned_def)
  qed
  with d'(1) assms(1) show ?thesis by (simp add: ScanStruct_def length_flat_pairs)
qed

text \<open>A type with an embedded struct, a renamed field and a field that is not exported.\<close>

definition sample_type :: "gofield list" where
  "sample_type = [GoField (lit ''ID'') True False [] (TInt K_64),
     GoField (lit ''Base'') True True [] (TStruct [GoField (lit ''Name'') True False (lit ''n'') TString]),
     GoField (lit ''x'') False False [] TBool]"

definition sample_val :: "int \<Rightarrow> bytes \<Rightarrow> gval" where
  "sample_val i s = VStruct [VInt K_64 i, VStruct [VString s], VBool False]"

lemma sample_spec: "\<exists>m. structSpecForType sample_type =
  Some \<lparr>ss_m = m, ss_l = [\<lparr>fs_name = lit ''ID'', fs_index = [0]\<rparr>, \<lparr>fs_name = lit ''n'', fs_index = [1, 0]\<rparr>]\<rparr>"
  by (simp add: sample_type_def structSpecForType_def field_name_def add_field_def Let_def)

theorem ScanStruct_flattenStruct_witness:
  "\<exists>d'. ScanStruct plain_fmt [IBytes (lit ''n''), IBytes (lit ''bob''), IBytes (lit ''ID''), IBytes (lit ''-7'')]
      (SPtr sample_type (sample_val 0 [])) = Some (SPtr sample_type d', None) \<and>
    FieldByIndex [0] d' = Some (VInt K_64 (- 7)) \<and> FieldByIndex [1, 0] d' = Some (VString (lit ''bob''))"
proof -
  let ?v = "sample_val (- 7) (lit ''bob'')"
  let ?l = "[\<lparr>fs_name = lit ''ID'', fs_index = [0]\<rparr>, \<lparr>fs_name = lit ''n'', fs_index = [1, 0]\<rparr>]"
  obtain m where ss: "structSpecForType sample_type = Some \<lparr>ss_m = m, ss_l = ?l\<rparr>" using sample_spec by blast
  have fl: "flattenStruct [] sample_type ?v =
      Some [IString (lit ''ID''), IInt64 (- 7), IString (lit ''n''), IString (lit ''bob'')]"
    by (simp add: flattenStruct_def ss sample_val_def)
  have tx: "FormatInt (- 7) = lit ''-7''" by (simp add: FormatInt_def nat_digits.simps digit_def)
  have ty: "has_type ?v (TStruct sample_type)" "has_type (sample_val 0 []) (TStruct sample_type)"
    by (simp_all add: sample_val_def sample_type_def)
  let ?kvs = "[(lit ''n'', lit ''bob''), (lit ''ID'', lit ''-7'')]"
  have kvs: "set ?kvs = set (arg_pairs plain_fmt [IString (lit ''ID''), IInt64 (- 7), IString (lit ''n''), IString (lit ''bob'')])"
    using tx by auto
  have st: "\<forall>fs \<in> set ?l. \<forall>x. FieldByIndex (fs_index fs) ?v = Some x \<longrightarrow> storable plain_fmt x"
    by (simp add: sample_val_def)
  have "\<exists>d'. ScanStruct plain_fmt (flat_pairs ?kvs) (SPtr sample_type (sample_val 0 [])) = Some (SPtr sample_type d', None) \<and>
    (\<forall>fs \<in> set ?l. FieldByIndex (fs_index fs) d' = FieldByIndex (fs_index fs) ?v)"
    using ScanStruct_flattenStruct [OF ss _ ty _ fl _ kvs] st by simp
  then show ?thesis by (auto simp: flat_pairs_def sample_val_def)
qed

text \<open>Reading the fields by name gives the loop of \<open>ScanStruct\<close> over the pairs of names and values.\<close>

lemma scan_value_loop_pairs:
  "scan_value_loop L ss (map (\<lambda>kv. IBytes (snd kv)) kvs) (map (\<lambda>kv. Some (fst kv)) kvs) d =
     scan_struct_loop L ss (flat_pairs kvs) d"
proof (induction kvs arbitrary: d)
  case (Cons kv kvs)
  have "flat_pairs (kv # kvs) = IBytes (fst kv) # IBytes (snd kv) # flat_pairs kvs"
    by (simp add: flat_pairs_def case_prod_beta)
  with Cons show ?case by (auto split: option.splits prod.splits)
qed (simp add: flat_pairs_def)

text \<open>
  The same holds for \<open>GetObject\<close>, which asks for the fields by name: the names that \<open>GetStructFields\<close> gives, in
  whatever order Go visits the map, with the texts of the struct's fields as the values, are scanned by
  \<open>ScanStructByValue\<close> back into these fields.
\<close>

lemma ScanStructByValue_fields:
  assumes "structSpecForType t = Some ss" and "set (iter (ss_m ss)) = dom (ss_m ss)" and "distinct (iter (ss_m ss))"
    and "has_type v (TStruct t)" and "has_type d (TStruct t)"
    and "\<forall>n fs x. ss_m ss n = Some fs \<longrightarrow> FieldByIndex (fs_index fs) v = Some x \<longrightarrow> storable L x"
    and "\<forall>n fs x. ss_m ss n = Some fs \<longrightarrow> FieldByIndex (fs_index fs) v = Some x \<longrightarrow> val n = arg_text L (to_iface x)"
  shows "\<exists>names d'. GetStructFields iter (SPtr t v0) = Some (names, None) \<and>
    ScanStructByValue L (map (\<lambda>n. IBytes (val n)) names) (map Some names) (SPtr t d) = Some (SPtr t d', None) \<and>
    (\<forall>n fs. ss_m ss n = Some fs \<longrightarrow> FieldByIndex (fs_index fs) d' = FieldByIndex (fs_index fs) v)"
proof -
  note inv = structSpecForType_inv [OF assms(1)]
  let ?names = "iter (ss_m ss)"
  let ?kvs = "map (\<lambda>n. (n, val n)) ?names"
  have "(case ss_m ss n of Some fs \<Rightarrow> fs_name fs | None \<Rightarrow> []) = n" if "n \<in> set ?names" for n
    using that assms(2) inv by (auto simp: spec_inv_def split: option.splits)
  then have names: "GetStructFields iter (SPtr t v0) = Some (?names, None)"
    using assms(1) by (auto simp: GetStructFields_def map_idI)
  have "texts_of L ss v ?kvs"
    unfolding texts_of_def
  proof (clarsimp)
    fix n fs
    assume fs: "ss_m ss n = Some fs"
    then have "valid_spec t fs" using inv by (auto simp: spec_inv_def)
    then obtain x where "FieldByIndex (fs_index fs) v = Some x" using valid_spec_value assms(4) by blast
    with fs assms(6,7) show "\<exists>x. FieldByIndex (fs_index fs) v = Some x \<and> storable L x \<and> val n = arg_text L (to_iface x)"
      by auto
  qed
  then obtain d' where d': "scan_struct_loop L ss (flat_pairs ?kvs) d = Some (d', None)" "scanned ss (fst ` set ?kvs) v d d'"
    using scan_struct_loop_pairs [OF inv assms(4,5), of ?kvs L] assms(3) by (auto simp: comp_def)
  have "ScanStructByValue L (map (\<lambda>n. IBytes (val n)) ?names) (map Some ?names) (SPtr t d) = Some (SPtr t d', None)"
    using d'(1) scan_value_loop_pairs [of L ss ?kvs d] assms(1) by (simp add: ScanStructByValue_def comp_def)
  moreover have "\<forall>n fs. ss_m ss n = Some fs \<longrightarrow> FieldByIndex (fs_index fs) d' = FieldByIndex (fs_index fs) v"
    using d'(2) assms(2) by (auto simp: scanned_def image_image dest: domI)
  ultimately show ?thesis using names by blast
qed

lemma ScanStructByValue_fields_example:
  "\<exists>names d'. GetStructFields (\<lambda>m. [lit ''n'', lit ''ID'']) (SPtr sample_type (sample_val 0 [])) = Some (names, None) \<and>
     ScanStructByValue plain_fmt [IBytes (lit ''bob''), IBytes (lit ''-7'')] (map Some names)
       (SPtr sample_type (sample_val 0 [])) = Some (SPtr sample_type d', None) \<and>
     FieldByIndex [0] d' = Some (VInt K_64 (- 7))"
proof -
  let ?v = "sample_val (- 7) (lit ''bob'')"
  let ?m = "[lit ''ID'' \<mapsto> \<lparr>fs_name = lit ''ID'', fs_index = [0]\<rparr>, lit ''n'' \<mapsto> \<lparr>fs_name = lit ''n'', fs_index = [1, 0]\<rparr>]"
  let ?val = "\<lambda>n. if n = lit ''n'' then lit ''bob'' else lit ''-7''"
  have ss: "structSpecForType sample_type = Some \<lparr>ss_m = ?m,
      ss_l = [\<lparr>fs_name = lit ''ID'', fs_index = [0]\<rparr>, \<lparr>fs_name = lit ''n'', fs_index = [1, 0]\<rparr>]\<rparr>"
    by (simp add: sample_type_def structSpecForType_def field_name_def add_field_def Let_def)
  have tx: "FormatInt (- 7) = lit ''-7''" by (simp add: FormatInt_def nat_digits.simps digit_def)
  have ty: "has_type ?v (TStruct sample_type)" "has_type (sample_val 0 []) (TStruct sample_type)"
    by (simp_all add: sample_val_def sample_type_def)
  have nm: "GetStructFields (\<lambda>m. [lit ''n'', lit ''ID'']) (SPtr sample_type (sample_val 0 [])) = Some ([lit ''n'', lit ''ID''], None)"
    by (simp add: GetStructFields_def ss)
  have a: "\<forall>n fs x. ?m n = Some fs \<longrightarrow> FieldByIndex (fs_index fs) ?v = Some x \<longrightarrow> storable plain_fmt x"
    "\<forall>n fs x. ?m n = Some fs \<longrightarrow> FieldByIndex (fs_index fs) ?v = Some x \<longrightarrow> ?val n = arg_text plain_fmt (to_iface x)"
    using tx by (auto simp: sample_val_def split: if_splits)
  have i: "set [lit ''n'', lit ''ID''] = dom ?m" "distinct [lit ''n'', lit ''ID'']" by auto
  obtain names d' where r: "GetStructFields (\<lambda>m. [lit ''n'', lit ''ID'']) (SPtr sample_type (sample_val 0 [])) = Some (names, None)"
      "ScanStructByValue plain_fmt (map (\<lambda>n. IBytes (?val n)) names) (map Some names) (SPtr sample_type (sample_val 0 [])) =
        Some (SPtr sample_type d', None)"
      and f: "\<forall>n fs. ?m n = Some fs \<longrightarrow> FieldByIndex (fs_index fs) d' = FieldByIndex (fs_index fs) ?v"
    using ScanStructByValue_fields [OF ss, of "\<lambda>m. [lit ''n'', lit ''ID'']" ?v "sample_val 0 []" plain_fmt ?val "sample_val 0 []"]
      a i ty by auto
  have "FieldByIndex [0] d' = FieldByIndex [0] ?v" using f [rule_format, of "lit ''ID''"] by simp
  then show ?thesis using r nm by (auto simp: sample_val_def)
qed

text \<open>
  The documentation says that a converter given an error returns that error; \<open>Int64s\<close> does, but \<open>Ints\<close> and
  \<open>Uint32s\<close> look at the reply first, and since a failed command has a nil reply, they report \<open>ErrNil\<close> in place of every
  error.
\<close>

lemma Ints_hides_error:
  "Int64s INil (Some e) = ([], Some e) \<and> Ints L INil (Some e) = ([], Some ErrNil) \<and> Uint32s INil (Some e) = ([], Some ErrNil)"
  by (simp add: Int64s_def conv_array_def Ints_def Uint32s_def)

end
