(* ===== verification/Redis_ScanTypes.thy ===== *)
theory Redis_ScanTypes
  imports Redis_ScanProofs
begin

text \<open>
  Scanning replies into a struct keeps the type of the struct, whatever the replies are: the numbers that end up in its
  fields are in the range of the field's type, also when an error is reported.
\<close>

lemma ParseUint_range: "fst (ParseUint s bits) < 2 ^ bits"
  by (auto simp: ParseUint_def Let_def split: option.splits)

lemma ParseInt_range: "- (2 ^ (bits - 1)) \<le> fst (ParseInt s bits) \<and> fst (ParseInt s bits) < 2 ^ (bits - 1)"
proof (cases "s = []")
  case False
  let ?neg = "hd s = of_char CHR ''-''"
  define c :: nat where "c = 2 ^ (bits - 1)"
  obtain un err where u: "ParseUint (if hd s = of_char CHR ''+'' \<or> ?neg then tl s else s) 64 = (un, err)"
    by fastforce
  have c: "0 < c" "int c = 2 ^ (bits - 1)"
    by (simp_all add: c_def)
  have "fst (ParseInt s bits) = (if err = Some ErrSyntax then 0 else if \<not> ?neg \<and> c \<le> un then int c - 1
      else if ?neg \<and> c < un then - int c else if ?neg then - int un else int un)"
    unfolding ParseInt_def Let_def u prod.case c_def [symmetric] using False by simp
  then show ?thesis
    unfolding c(2) [symmetric] using c(1) by (auto split: if_splits)
qed (simp add: ParseInt_def)

lemma signed_take_bit_range: "signed_take_bit n i = (i::int) \<Longrightarrow> - (2 ^ n) \<le> i \<and> i < 2 ^ n"
  by (metis signed_take_bit_int_greater_eq_minus_exp signed_take_bit_int_less_exp)

lemma take_bit_range: "take_bit n i = (i::nat) \<Longrightarrow> i < 2 ^ n"
  by (metis take_bit_nat_less_exp)

lemma convertAssignBytes_type:
  assumes "has_type d ty"
  shows "has_type (fst (convertAssignBytes L d s)) ty"
  using assms ParseUint_range [of s] ParseInt_range [of _ s]
  by (cases d; cases ty) (auto simp: num_result_def Let_def split: prod.splits)

lemma convertAssignInt_type:
  assumes "has_type d ty"
  shows "has_type (fst (convertAssignInt d s)) ty"
  using assms by (cases d; cases ty) (auto simp: Let_def dest!: signed_take_bit_range take_bit_range)

lemma convertAssignValue_type:
  assumes "has_type d ty"
  shows "has_type (fst (convertAssignValue L d s)) ty"
  using assms convertAssignBytes_type convertAssignInt_type by (cases s) simp_all

lemma assign_field_type:
  assumes "valid_spec t fs" "has_type v (TStruct t)"
  shows "\<exists>v' err. assign_field L fs v s = Some (v', err) \<and> has_type v' (TStruct t)"
proof -
  obtain x where x: "FieldByIndex (fs_index fs) v = Some x"
    using valid_spec_value [OF assms(1,2,2)] by blast
  then have "has_type (set_field (fs_index fs) (fst (convertAssignValue L x s)) v) (TStruct t)"
    by (rule set_field_type) (use assms(2) convertAssignValue_type in auto)
  then show ?thesis
    using x by (simp add: assign_field_def case_prod_beta)
qed

lemma spec_inv_valid: "spec_inv t ss \<Longrightarrow> structSpec_fieldSpec ss name = Some fs \<Longrightarrow> valid_spec t fs"
  by (auto simp: spec_inv_def structSpec_fieldSpec_def)

lemma scan_struct_loop_type:
  assumes "spec_inv t ss" "has_type v (TStruct t)"
  shows "\<exists>v' err. scan_struct_loop L ss src v = Some (v', err) \<and> has_type v' (TStruct t)"
  using assms
proof (induction L ss src v rule: scan_struct_loop.induct)
  case (1 L ss k s rest v)
  show ?case
  proof (cases "\<exists>name fs. s \<noteq> INil \<and> k = IBytes name \<and> structSpec_fieldSpec ss name = Some fs")
    case True
    then obtain name fs where k: "s \<noteq> INil" "k = IBytes name" "structSpec_fieldSpec ss name = Some fs" by blast
    obtain v1 err where v1: "assign_field L fs v s = Some (v1, err)" "has_type v1 (TStruct t)"
      using assign_field_type [OF spec_inv_valid [OF "1.prems"(1) k(3)] "1.prems"(2)] by blast
    show ?thesis
    proof (cases err)
      case None
      then show ?thesis using k v1 "1.IH"(3) [OF k(1,2,3) v1(1) refl] "1.prems"(1) by simp
    qed (use k v1 in simp)
  next
    case False
    then show ?thesis
      using "1.IH"(1,2) "1.prems" by (cases "s = INil"; cases k) (auto split: option.splits)
  qed
qed auto

lemma scan_value_loop_type:
  assumes "spec_inv t ss" "has_type v (TStruct t)"
  shows "\<exists>v' err. scan_value_loop L ss src names v = Some (v', err) \<and> has_type v' (TStruct t)"
  using assms
proof (induction L ss src names v rule: scan_value_loop.induct)
  case (1 L ss s src n names v)
  show ?case
  proof (cases "\<exists>name fs. s \<noteq> INil \<and> n = Some name \<and> structSpec_fieldSpec ss name = Some fs")
    case True
    then obtain name fs where k: "s \<noteq> INil" "n = Some name" "structSpec_fieldSpec ss name = Some fs" by blast
    obtain v1 err where v1: "assign_field L fs v s = Some (v1, err)" "has_type v1 (TStruct t)"
      using assign_field_type [OF spec_inv_valid [OF "1.prems"(1) k(3)] "1.prems"(2)] by blast
    show ?thesis
    proof (cases err)
      case None
      then show ?thesis using k v1 "1.IH"(3) [OF k(1,2,3) v1(1) refl] "1.prems"(1) by simp
    qed (use k v1 in simp)
  next
    case False
    then show ?thesis
      using "1.IH"(1,2) "1.prems" by (cases "s = INil"; cases n) (auto split: option.splits)
  qed
qed auto

text \<open>
  Scanning is type-safe: for a struct type whose field table can be made and a destination of that type, \<open>ScanStruct\<close> and
  \<open>ScanStructByValue\<close> return on every list of replies without a panic, with or without an error, and leave in the destination
  a value of the type, every number within the range of its field.
\<close>

lemma ScanStruct_type_safe:
  assumes "structSpecForType t = Some ss" "has_type v (TStruct t)"
  shows "(\<exists>v' err. ScanStruct L src (SPtr t v) = Some (SPtr t v', err) \<and> has_type v' (TStruct t)) \<and>
    (\<exists>v' err. ScanStructByValue L src names (SPtr t v) = Some (SPtr t v', err) \<and> has_type v' (TStruct t))"
proof
  note inv = structSpecForType_inv [OF assms(1)]
  show "\<exists>v' err. ScanStruct L src (SPtr t v) = Some (SPtr t v', err) \<and> has_type v' (TStruct t)"
    using scan_struct_loop_type [OF inv assms(2), of L src] assms by (auto simp: ScanStruct_def)
  show "\<exists>v' err. ScanStructByValue L src names (SPtr t v) = Some (SPtr t v', err) \<and> has_type v' (TStruct t)"
    using scan_value_loop_type [OF inv assms(2), of L src names] assms by (auto simp: ScanStructByValue_def)
qed

lemma ScanStruct_type_safe_instance:
  "\<exists>v' err. ScanStruct plain_fmt [IBytes (lit ''ID''), IBytes (lit ''99999999999999999999'')] (SPtr sample_type (sample_val 0 [])) =
     Some (SPtr sample_type v', err) \<and> has_type v' (TStruct sample_type)"
proof -
  obtain ss where "structSpecForType sample_type = Some ss"
    using sample_spec by blast
  moreover have "has_type (sample_val 0 []) (TStruct sample_type)"
    by (simp add: sample_val_def sample_type_def)
  ultimately show ?thesis
    by (rule ScanStruct_type_safe [THEN conjunct1])
qed

end
