(* ===== verification/Redis_CmdPool.thy ===== *)
theory Redis_CmdPool
  imports Go_Chan Redis_Codec
begin

text \<open>
  The commands of \<open>lib/redis/cmdpool.go\<close> and the pool they come from, and the results of
  \<open>lib/redis/resultPool.go\<close>.  A pointer to a command of the pool is its index; the token
  channel of a command, which holds at most one value, is the number of tokens in it.  A result
  channel is a number, and what it holds is kept with the connection.
\<close>

definition CmdUsed :: int where "CmdUsed = 0"

definition CmdFree :: int where "CmdFree = 1"

record Result =
  Data :: iface
  Err :: "redis_error option"

record Command =
  cm_Cmd :: bytes
  cm_CmdNum :: int
  cm_Arg1 :: iface
  cm_Arg2 :: iface
  cm_Arg3 :: iface
  cm_Args :: "iface list option"
  cm_isUsed :: int
  cm_bPoolCmd :: bool
  cm_useChan :: nat
  cm_ResultChan :: "nat option"
  cm_cmdIndex :: "64 word"
  cm_recvTime :: int

definition new_Command :: Command where
  "new_Command = \<lparr>cm_Cmd = [], cm_CmdNum = 0, cm_Arg1 = INil, cm_Arg2 = INil, cm_Arg3 = INil, cm_Args = None,
     cm_isUsed = CmdUsed, cm_bPoolCmd = False, cm_useChan = 0, cm_ResultChan = None, cm_cmdIndex = 0, cm_recvTime = 0\<rparr>"

text \<open>\<open>release\<close> of a command, with the receive index of its connection.\<close>

definition Command_release :: "Command \<Rightarrow> 64 word \<Rightarrow> (Command \<times> 64 word) outcome" where
  "Command_release c recv =
     (if cm_bPoolCmd c \<and> cm_isUsed c = CmdUsed
      then (if cm_useChan c = 0
            then Returns (c\<lparr>cm_isUsed := CmdFree, cm_useChan := 1\<rparr>, cm_cmdIndex c)
            else Blocks)
      else Returns (c, recv))"

record cmdPool =
  cp_size :: "32 word"
  cp_getIndex :: "32 word"
  cp_freeIndex :: "32 word"
  cp_cmds :: "Command list"

definition pool_Command :: Command where
  "pool_Command = new_Command\<lparr>cm_useChan := 1, cm_bPoolCmd := True, cm_isUsed := CmdFree\<rparr>"

definition NewCmdPool :: "32 word \<Rightarrow> cmdPool" where
  "NewCmdPool poolSize =
     (let n = poolSize * 10 in
      \<lparr>cp_size = n, cp_getIndex = 0, cp_freeIndex = 0, cp_cmds = replicate (unat n) pool_Command\<rparr>)"

text \<open>
  \<open>Get\<close> in its two parts: the index it takes, which panics on an empty pool, and the wait for the token
  of the command there.
\<close>

definition cmdPool_next :: "cmdPool \<Rightarrow> (nat \<times> cmdPool) outcome" where
  "cmdPool_next p =
     (let tmp = cp_getIndex p + 1 in
      if cp_size p = 0 then Panics
      else Returns (unat (tmp mod cp_size p), p\<lparr>cp_getIndex := tmp\<rparr>))"

definition cmdPool_take :: "cmdPool \<Rightarrow> 64 word \<Rightarrow> nat \<Rightarrow> (cmdPool \<times> 64 word) outcome" where
  "cmdPool_take p sendIndex i =
     (let c = cp_cmds p ! i in
      if length (cp_cmds p) \<le> i then Panics
      else if cm_useChan c = 0 then Blocks
      else Returns
        (p\<lparr>cp_cmds := (cp_cmds p)[i := c\<lparr>cm_useChan := cm_useChan c - 1, cm_isUsed := CmdUsed, cm_cmdIndex := sendIndex + 1\<rparr>]\<rparr>,
         sendIndex + 1))"

definition cmdPool_Get :: "cmdPool \<Rightarrow> 64 word \<Rightarrow> (nat \<times> cmdPool \<times> 64 word) outcome" where
  "cmdPool_Get p sendIndex =
     outcome_bind (cmdPool_next p) (\<lambda>(i, p1).
       outcome_bind (cmdPool_take p1 sendIndex i) (\<lambda>(p2, s). Returns (i, p2, s)))"

section \<open>The pool hands out each command to one user at a time\<close>

text \<open>A command of the pool is free with a token in its channel, or used without one.\<close>

definition slot_ok :: "Command \<Rightarrow> bool" where
  "slot_ok c \<longleftrightarrow> cm_bPoolCmd c \<and>
     (cm_isUsed c = CmdFree \<and> cm_useChan c = 1 \<or> cm_isUsed c = CmdUsed \<and> cm_useChan c = 0)"

definition pool_inv :: "cmdPool \<Rightarrow> bool" where
  "pool_inv p \<longleftrightarrow> length (cp_cmds p) = unat (cp_size p) \<and> list_all slot_ok (cp_cmds p)"

definition slot_used :: "Command \<Rightarrow> bool" where
  "slot_used c \<longleftrightarrow> cm_isUsed c = CmdUsed"

lemma CmdFree_neq [simp]: "CmdFree \<noteq> CmdUsed" "CmdUsed \<noteq> CmdFree"
  by (simp_all add: CmdUsed_def CmdFree_def)

lemma NewCmdPool_inv: "pool_inv (NewCmdPool n)"
  by (simp add: pool_inv_def NewCmdPool_def Let_def list_all_length slot_ok_def pool_Command_def)

lemma cmdPool_next_inv:
  assumes "cmdPool_next p = Returns (i, p')"
  shows "cp_cmds p' = cp_cmds p" and "cp_size p' = cp_size p" and "pool_inv p \<Longrightarrow> i < length (cp_cmds p)"
proof -
  from assms have z: "cp_size p \<noteq> 0" and i: "i = unat ((cp_getIndex p + 1) mod cp_size p)"
    by (auto simp: cmdPool_next_def Let_def split: if_splits)
  from z have "0 < unat (cp_size p)" by (simp add: unat_gt_0)
  then show "i < length (cp_cmds p)" if "pool_inv p"
    using that by (simp add: i pool_inv_def unat_mod)
qed (use assms in \<open>auto simp: cmdPool_next_def Let_def split: if_splits\<close>)

lemma slot_ok_cases: "slot_ok c \<Longrightarrow> cm_useChan c = 0 \<longleftrightarrow> slot_used c"
  by (auto simp: slot_ok_def slot_used_def CmdUsed_def CmdFree_def)

text \<open>
  Releasing never blocks on a command of the pool: the token is put back only by the release that
  finds the command used.
\<close>

lemma release_slot:
  assumes "slot_ok c"
  shows "\<exists>r. Command_release c recv =
    Returns (if slot_used c then c\<lparr>cm_isUsed := CmdFree, cm_useChan := 1\<rparr> else c, r) \<and>
    slot_ok (if slot_used c then c\<lparr>cm_isUsed := CmdFree, cm_useChan := 1\<rparr> else c)"
  using assms by (auto simp: Command_release_def slot_ok_def slot_used_def)

end
