(* ===== verification/Redis_Address.thy ===== *)
theory Redis_Address
  imports Go_Strings
begin

text \<open>
  The addresses of redis servers, \<open>ParseRedisKey\<close> of \<open>lib/redis/pool.go\<close>.  A text such as \<open>pwd@tcp(host:port)/db\<close> has
  the server between its last parentheses, the password before its last \<open>@\<close> and the database after its
  last \<open>/\<close>; any other text is the server itself.
\<close>

definition ParseRedisKey :: "bytes \<Rightarrow> (bytes \<times> bytes \<times> bytes) option" where
  "ParseRedisKey address =
     (case (LastIndex address (of_char CHR ''(''), LastIndex address (of_char CHR '')''),
            LastIndex address (of_char CHR ''@''), LastIndex address (of_char CHR ''/'')) of
        (Some lp, Some rp, Some at, Some sl) \<Rightarrow> do {
          server \<leftarrow> slice address (lp + 1) rp;
          pwd \<leftarrow> slice address 0 at;
          dbKey \<leftarrow> slice_from address (sl + 1);
          Some (server, pwd, dbKey)
        }
      | _ \<Rightarrow> Some (address, [], lit ''0''))"

lemma ParseRedisKey_None:
  "ParseRedisKey address = None \<longleftrightarrow>
    (\<exists>lp rp. LastIndex address (of_char CHR ''('') = Some lp \<and> LastIndex address (of_char CHR '')'') = Some rp \<and> rp < lp \<and>
      of_char CHR ''@'' \<in> set address \<and> of_char CHR ''/'' \<in> set address)"
proof (cases "LastIndex address (of_char CHR ''('') = None \<or> LastIndex address (of_char CHR '')'') = None \<or>
    LastIndex address (of_char CHR ''@'') = None \<or> LastIndex address (of_char CHR ''/'') = None")
  case True
  then show ?thesis
    by (auto simp: ParseRedisKey_def LastIndex_None [symmetric] split: option.splits simp del: of_char_Char)
next
  case False
  then obtain lp rp at sl where i: "LastIndex address (of_char CHR ''('') = Some lp"
    "LastIndex address (of_char CHR '')'') = Some rp" "LastIndex address (of_char CHR ''@'') = Some at"
    "LastIndex address (of_char CHR ''/'') = Some sl"
    unfolding de_Morgan_disj not_None_eq by (elim conjE exE)
  have "of_char CHR ''@'' \<in> set address" "of_char CHR ''/'' \<in> set address"
    using False LastIndex_None by metis+
  moreover have "lp \<noteq> rp" using LastIndex_Some [OF i(1)] LastIndex_Some [OF i(2)] by auto
  moreover have "ParseRedisKey address = None \<longleftrightarrow> \<not> lp + 1 \<le> rp"
    using LastIndex_Some [OF i(1)] LastIndex_Some [OF i(2)] LastIndex_Some [OF i(3)] LastIndex_Some [OF i(4)]
    unfolding ParseRedisKey_def i by (auto simp: slice_def slice_from_def)
  ultimately show ?thesis using i by auto
qed

text \<open>
  C30. An address made of a password, a server and a database in the documented form is taken apart again, for every
  password; and the only addresses on which the function panics are those with all four marks whose last closing
  parenthesis comes before the last opening one.
\<close>

theorem ParseRedisKey_roundtrip:
  assumes "of_char CHR ''('' \<notin> set server \<union> set db" and "of_char CHR ''@'' \<notin> set server \<union> set db"
    and "of_char CHR '')'' \<notin> set db" and "of_char CHR ''/'' \<notin> set db"
  shows "ParseRedisKey (pwd @ lit ''@tcp('' @ server @ lit '')/'' @ db) = Some (server, pwd, db) \<and>
    (ParseRedisKey address = None \<longleftrightarrow>
      (\<exists>lp rp. LastIndex address (of_char CHR ''('') = Some lp \<and> LastIndex address (of_char CHR '')'') = Some rp \<and> rp < lp \<and>
        of_char CHR ''@'' \<in> set address \<and> of_char CHR ''/'' \<in> set address))"
proof
  let ?a = "pwd @ lit ''@tcp('' @ server @ lit '')/'' @ db"
  have "LastIndex ?a (of_char CHR ''('') = Some (length (pwd @ lit ''@tcp''))"
    using LastIndex_append [of "of_char CHR ''(''" "server @ lit '')/'' @ db" "pwd @ lit ''@tcp''"] assms(1) by simp
  moreover have "LastIndex ?a (of_char CHR '')'') = Some (length (pwd @ lit ''@tcp('' @ server))"
    using LastIndex_append [of "of_char CHR '')''" "lit ''/'' @ db" "pwd @ lit ''@tcp('' @ server"] assms(3) by simp
  moreover have "LastIndex ?a (of_char CHR ''@'') = Some (length pwd)"
    using LastIndex_append [of "of_char CHR ''@''" "lit ''tcp('' @ server @ lit '')/'' @ db" pwd] assms(2) by simp
  moreover have "LastIndex ?a (of_char CHR ''/'') = Some (length (pwd @ lit ''@tcp('' @ server @ lit '')''))"
    using LastIndex_append [of "of_char CHR ''/''" db "pwd @ lit ''@tcp('' @ server @ lit '')''"] assms(4) by simp
  ultimately show "ParseRedisKey ?a = Some (server, pwd, db)"
    by (simp add: ParseRedisKey_def slice_def slice_from_def drop_Cons')
next
  show "ParseRedisKey address = None \<longleftrightarrow>
      (\<exists>lp rp. LastIndex address (of_char CHR ''('') = Some lp \<and> LastIndex address (of_char CHR '')'') = Some rp \<and> rp < lp \<and>
        of_char CHR ''@'' \<in> set address \<and> of_char CHR ''/'' \<in> set address)"
    by (rule ParseRedisKey_None)
qed

theorem ParseRedisKey_roundtrip_witness:
  "ParseRedisKey (lit ''p@ss/w@tcp(10.0.0.1:6379)/1'') = Some (lit ''10.0.0.1:6379'', lit ''p@ss/w'', lit ''1'') \<and>
   ParseRedisKey (lit '')(@/'') = None"
  using ParseRedisKey_roundtrip [of "lit ''10.0.0.1:6379''" "lit ''1''" "lit ''p@ss/w''" "lit '')(@/''"] by simp

end
