(* ===== verification/Redis_Conn.thy ===== *)
theory Redis_Conn
  imports Redis_CmdPool Redis_Reply Redis_Address
begin

text \<open>
  The connection of \<open>lib/redis/redisConn.go\<close>: its life cycle, the queues between the users, the
  goroutine that sends commands and the one that receives replies, and the goroutines that reconnect
  and watch for time-outs.

  A connection to the server is a number: \<open>rc_conn\<close> is the one that \<open>Close\<close> is called on, \<open>rc_io\<close> the one
  under the buffered reader and writer, and \<open>rc_closed\<close> the connections closed so far.  The
  channels that results are sent to are the map \<open>rc_results\<close>.  A channel that was not made is one of
  capacity zero, on which everything blocks.  Logging and sleeping are left out.
\<close>

definition NET_CLOSE_SIGNAL :: int where "NET_CLOSE_SIGNAL = 1"

definition Default_Warn_TT :: int where "Default_Warn_TT = 10"

definition Default_Recon_TT :: int where "Default_Recon_TT = 1800"

definition NetClosed :: int where "NetClosed = 0"

definition NetOpen :: int where "NetOpen = 1"

definition RedisConDead :: int where "RedisConDead = 0"

definition RedisConExcetion :: int where "RedisConExcetion = 1"

definition RedisClosedFriendly :: int where "RedisClosedFriendly = 2"

definition RedisConAlive :: int where "RedisConAlive = 3"

lemmas status_defs = NetClosed_def NetOpen_def RedisConDead_def RedisConExcetion_def RedisClosedFriendly_def RedisConAlive_def

definition defaultWaitChCap :: int where "defaultWaitChCap = 5000"

definition defaultCmdChCap :: int where "defaultCmdChCap = 5000"

definition ConRetryTimes :: int where "ConRetryTimes = - 1"

record RedisCon =
  rc_conn :: nat
  rc_io :: nat
  rc_closed :: "nat list"
  rc_net :: RedisNet
  rc_br :: bytes
  rc_server :: bytes
  rc_err :: "redis_error option"
  LifeCycle :: int
  conRetryTimes :: int
  conRetriedTimes :: int
  NetStatus :: int
  rc_cmdChan :: "nat gochan"
  rc_cmdsChan :: "Command list gochan"
  cmdChanCap :: nat
  rc_waitChan :: "nat gochan"
  waitChanCap :: nat
  waitProcessCmdNum :: int
  rc_cmdPool :: cmdPool
  recvIndex :: "64 word"
  sendIndex :: "64 word"
  warnTT :: int
  reConTT :: int
  rc_signal :: "int gochan"
  rc_addressFunc :: bool
  rc_results :: "nat \<Rightarrow> Result gochan"

section \<open>Life cycle\<close>

definition IsNetClose :: "RedisCon \<Rightarrow> bool" where
  "IsNetClose c \<longleftrightarrow> NetStatus c = NetClosed"

definition cycleIsExcetion :: "RedisCon \<Rightarrow> bool" where
  "cycleIsExcetion c \<longleftrightarrow> LifeCycle c = RedisConExcetion"

definition cycleIsAlive :: "RedisCon \<Rightarrow> bool" where
  "cycleIsAlive c \<longleftrightarrow> LifeCycle c = RedisConAlive \<or> cycleIsExcetion c"

definition cycleIsDead :: "RedisCon \<Rightarrow> bool" where
  "cycleIsDead c \<longleftrightarrow> LifeCycle c = RedisConDead"

definition cycleIsClosedFriendly :: "RedisCon \<Rightarrow> bool" where
  "cycleIsClosedFriendly c \<longleftrightarrow> LifeCycle c = RedisClosedFriendly"

definition changeLifeCycle :: "RedisCon \<Rightarrow> int \<Rightarrow> int \<times> RedisCon" where
  "changeLifeCycle c new =
     (let c1 = (if LifeCycle c \<noteq> new then c\<lparr>LifeCycle := new\<rparr> else c) in (LifeCycle c1, c1))"

definition tryChangeLifeCycle :: "RedisCon \<Rightarrow> int \<Rightarrow> int \<Rightarrow> bool \<times> RedisCon" where
  "tryChangeLifeCycle c old new =
     (if LifeCycle c = old then (True, c\<lparr>LifeCycle := new\<rparr>) else (False, c))"

definition SetWarnTimeOut :: "RedisCon \<Rightarrow> int \<Rightarrow> RedisCon" where
  "SetWarnTimeOut c t = c\<lparr>warnTT := t\<rparr>"

definition SetReconTimeOut :: "RedisCon \<Rightarrow> int \<Rightarrow> RedisCon" where
  "SetReconTimeOut c t = c\<lparr>reConTT := t\<rparr>"

definition fatal :: "RedisCon \<Rightarrow> redis_error \<Rightarrow> redis_error \<times> RedisCon" where
  "fatal c err = (err, c\<lparr>rc_err := Some err\<rparr>)"

text \<open>The signal channel is never closed, so that the send on it does not panic.\<close>

definition SendExceptionSignal :: "RedisCon \<Rightarrow> int \<Rightarrow> RedisCon" where
  "SendExceptionSignal c s =
     (case chan_try_send (rc_signal c) s of Returns ch \<Rightarrow> c\<lparr>rc_signal := ch\<rparr> | _ \<Rightarrow> c)"

definition netClose :: "RedisCon \<Rightarrow> bool \<times> RedisCon" where
  "netClose c =
     (let c1 = (if NetStatus c = NetOpen then c\<lparr>NetStatus := NetClosed, rc_closed := rc_conn c # rc_closed c\<rparr> else c);
          c2 = SendExceptionSignal c1 NET_CLOSE_SIGNAL
      in (IsNetClose c2, c2))"

text \<open>
  \<open>Close\<close> and \<open>CloseFriendly\<close>: their loops end in the first round, since nothing but these writes to the
  fields between the write and the test of one round.
\<close>

definition RedisCon_Close :: "RedisCon \<Rightarrow> RedisCon" where
  "RedisCon_Close c = snd (netClose (snd (changeLifeCycle c RedisConDead)))"

definition CloseFriendly :: "RedisCon \<Rightarrow> RedisCon" where
  "CloseFriendly c = snd (changeLifeCycle c RedisClosedFriendly)"

section \<open>Handing results to users\<close>

text \<open>A pointer to a command: one of the pool, one made for an error path with only its result channel set, or nil.\<close>

datatype cmd_ref = PoolCmd nat | NewCmd "nat option" | NilCmd

fun ref_chan :: "RedisCon \<Rightarrow> cmd_ref \<Rightarrow> nat option" where
  "ref_chan c (PoolCmd i) = cm_ResultChan (cp_cmds (rc_cmdPool c) ! i)"
| "ref_chan c (NewCmd ch) = ch"
| "ref_chan c NilCmd = None"

definition set_cmd :: "RedisCon \<Rightarrow> nat \<Rightarrow> Command \<Rightarrow> RedisCon" where
  "set_cmd c i x = c\<lparr>rc_cmdPool := (rc_cmdPool c)\<lparr>cp_cmds := (cp_cmds (rc_cmdPool c))[i := x]\<rparr>\<rparr>"

fun release_ref :: "RedisCon \<Rightarrow> cmd_ref \<Rightarrow> RedisCon outcome" where
  "release_ref c (PoolCmd i) =
     outcome_bind (Command_release (cp_cmds (rc_cmdPool c) ! i) (recvIndex c))
       (\<lambda>(x, r). Returns ((set_cmd c i x)\<lparr>recvIndex := r\<rparr>))"
| "release_ref c (NewCmd ch) = Returns c"
| "release_ref c NilCmd = Panics"

text \<open>
  \<open>sendResultToUser\<close>: the send, whose panic on a closed channel is recovered, and then the deferred part,
  which releases the command and counts it as done.  For a nil command the deferred part itself
  panics before it counts.
\<close>

definition post_result :: "RedisCon \<Rightarrow> Result \<Rightarrow> nat option \<Rightarrow> RedisCon outcome" where
  "post_result c result ch = (case ch of
     None \<Rightarrow> Returns c
   | Some k \<Rightarrow> (case chan_send (rc_results c k) result of
         Returns ch' \<Rightarrow> Returns (c\<lparr>rc_results := (rc_results c)(k := ch')\<rparr>)
       | Panics \<Rightarrow> Returns c
       | Blocks \<Rightarrow> Blocks))"

definition sendResultToUser :: "RedisCon \<Rightarrow> Result \<Rightarrow> cmd_ref \<Rightarrow> RedisCon outcome" where
  "sendResultToUser c result cmd =
     outcome_bind (post_result c result (ref_chan c cmd)) (\<lambda>c1.
       outcome_bind (release_ref c1 cmd) (\<lambda>c2.
         Returns (c2\<lparr>waitProcessCmdNum := waitProcessCmdNum c2 - 1\<rparr>)))"

definition closed_result :: Result where
  "closed_result = \<lparr>Data = INil, Err = Some ErrRedisConClose\<rparr>"

definition closeUserChan :: "RedisCon \<Rightarrow> cmd_ref \<Rightarrow> RedisCon outcome" where
  "closeUserChan c p = sendResultToUser c closed_result p"

section \<open>Sending commands\<close>

definition fill_Command ::
  "Command \<Rightarrow> int \<Rightarrow> bytes \<Rightarrow> int \<Rightarrow> iface \<Rightarrow> iface \<Rightarrow> iface \<Rightarrow> iface list option \<Rightarrow> Command option" where
  "fill_Command x now cmd argNum arg1 arg2 arg3 args =
     (let y = x\<lparr>cm_recvTime := now\<rparr>; z = y\<lparr>cm_CmdNum := argNum, cm_Cmd := cmd\<rparr> in
      if argNum = ARGSNUMARRAY then Some (z\<lparr>cm_Args := args\<rparr>)
      else if argNum = 0 then Some z
      else if argNum = 1 then Some (z\<lparr>cm_Arg1 := arg1\<rparr>)
      else if argNum = 2 then Some (z\<lparr>cm_Arg1 := arg1, cm_Arg2 := arg2\<rparr>)
      else if argNum = 3 then Some (z\<lparr>cm_Arg1 := arg1, cm_Arg2 := arg2, cm_Arg3 := arg3\<rparr>)
      else if argNum = ARGSKEY then Some (z\<lparr>cm_Arg1 := arg1, cm_Args := args\<rparr>)
      else None)"

text \<open>
  \<open>packageRedisCmd\<close> at time \<open>now\<close>, after \<open>Get\<close> has taken the index \<open>i\<close>: wait for the command there and fill it in; a wrong number
  of arguments releases it again.
\<close>

definition package_at ::
  "RedisCon \<Rightarrow> nat \<Rightarrow> int \<Rightarrow> bytes \<Rightarrow> int \<Rightarrow> iface \<Rightarrow> iface \<Rightarrow> iface \<Rightarrow> iface list option \<Rightarrow> (nat option \<times> RedisCon) outcome" where
  "package_at c i now cmd argNum arg1 arg2 arg3 args =
     outcome_bind (cmdPool_take (rc_cmdPool c) (sendIndex c) i) (\<lambda>(p, s).
       let c1 = c\<lparr>rc_cmdPool := p, sendIndex := s\<rparr>; x = cp_cmds p ! i in
       case fill_Command x now cmd argNum arg1 arg2 arg3 args of
         Some y \<Rightarrow> Returns (Some i, set_cmd c1 i y)
       | None \<Rightarrow> outcome_bind (release_ref (set_cmd c1 i (x\<lparr>cm_recvTime := now\<rparr>)) (PoolCmd i)) (\<lambda>c2. Returns (None, c2)))"

definition packageRedisCmd ::
  "RedisCon \<Rightarrow> int \<Rightarrow> bytes \<Rightarrow> int \<Rightarrow> iface \<Rightarrow> iface \<Rightarrow> iface \<Rightarrow> iface list option \<Rightarrow> (nat option \<times> RedisCon) outcome" where
  "packageRedisCmd c now cmd argNum arg1 arg2 arg3 args =
     outcome_bind (cmdPool_next (rc_cmdPool c)) (\<lambda>(i, p).
       package_at (c\<lparr>rc_cmdPool := p\<rparr>) i now cmd argNum arg1 arg2 arg3 args)"

text \<open>
  The last part of \<open>sendToCmdChan\<close>: the packaged command gets its result channel, is counted and goes to the
  command channel.  When that channel is closed the send panics and the recovery answers the user.
\<close>

definition count_cmd :: "RedisCon \<Rightarrow> nat option \<Rightarrow> nat \<Rightarrow> RedisCon" where
  "count_cmd c ch i =
     (let c1 = set_cmd c i ((cp_cmds (rc_cmdPool c) ! i)\<lparr>cm_ResultChan := ch\<rparr>) in
      c1\<lparr>waitProcessCmdNum := waitProcessCmdNum c1 + 1\<rparr>)"

definition enqueue_cmd :: "RedisCon \<Rightarrow> nat \<Rightarrow> RedisCon outcome" where
  "enqueue_cmd c i = (case chan_send (rc_cmdChan c) i of
     Returns q \<Rightarrow> Returns (c\<lparr>rc_cmdChan := q\<rparr>)
   | Blocks \<Rightarrow> Blocks
   | Panics \<Rightarrow> closeUserChan c (PoolCmd i))"

text \<open>The check for the arguments that panics: a command that is no script needs one when it is sent as an array.\<close>

definition bad_array :: "bytes \<Rightarrow> int \<Rightarrow> iface list option \<Rightarrow> bool" where
  "bad_array cmd argNum args \<longleftrightarrow> cmd \<noteq> lit ''EVALSHA'' \<and> cmd \<noteq> lit ''EVAL'' \<and> argNum = ARGSNUMARRAY \<and>
     (case args of None \<Rightarrow> True | Some as \<Rightarrow> as = [])"

text \<open>
  \<open>sendToCmdChan\<close>, with \<open>None\<close> for a nil command name.  The keys that are too long are logged only.  A panic leaves the
  returned error at its zero value; one in \<open>packageRedisCmd\<close> comes from a pool of size zero, whose index does not matter.
\<close>

definition sendToCmdChan ::
  "RedisCon \<Rightarrow> int \<Rightarrow> nat option \<Rightarrow> bytes option \<Rightarrow> int \<Rightarrow> iface \<Rightarrow> iface \<Rightarrow> iface \<Rightarrow> iface list option
     \<Rightarrow> (redis_error option \<times> RedisCon) outcome" where
  "sendToCmdChan c now ch cmd argNum arg1 arg2 arg3 args = (case cmd of
     None \<Rightarrow> outcome_bind (closeUserChan c (NewCmd ch)) (\<lambda>c1. Returns (Some ErrInvalidArgNum, c1))
   | Some name \<Rightarrow>
       if bad_array name argNum args
       then outcome_bind (closeUserChan c (NewCmd ch)) (\<lambda>c1. Returns (None, c1))
       else (case packageRedisCmd c now name argNum arg1 arg2 arg3 args of
           Blocks \<Rightarrow> Blocks
         | Panics \<Rightarrow> outcome_bind (closeUserChan c (NewCmd ch)) (\<lambda>c1. Returns (None, c1))
         | Returns (None, c1) \<Rightarrow> Returns (Some ErrInvalidArgNum, c1)
         | Returns (Some i, c1) \<Rightarrow>
             outcome_bind (enqueue_cmd (count_cmd c1 ch i) i) (\<lambda>c2. Returns (None, c2))))"

definition sendToCmdChanArgsKey where
  "sendToCmdChanArgsKey c now ch cmd key args = sendToCmdChan c now ch (Some cmd) ARGSKEY key INil INil args"

definition sendToCmdChanArgsNum0 where
  "sendToCmdChanArgsNum0 c now ch cmd = sendToCmdChan c now ch (Some cmd) 0 INil INil INil None"

definition sendToCmdChanArgsNum1 where
  "sendToCmdChanArgsNum1 c now ch cmd arg = sendToCmdChan c now ch (Some cmd) 1 arg INil INil None"

definition sendToCmdChanArgsNum2 where
  "sendToCmdChanArgsNum2 c now ch cmd arg1 arg2 = sendToCmdChan c now ch (Some cmd) 2 arg1 arg2 INil None"

definition sendToCmdChanArgsNum3 where
  "sendToCmdChanArgsNum3 c now ch cmd arg1 arg2 arg3 = sendToCmdChan c now ch (Some cmd) 3 arg1 arg2 arg3 None"

definition SendToCmdChan where
  "SendToCmdChan c now ch cmd args = sendToCmdChan c now ch (Some cmd) ARGSNUMARRAY INil INil INil args"

definition SendToConn where
  "SendToConn c now ch cmd args =
     (if \<not> IsNetClose c then SendToCmdChan c now ch cmd args else Returns (Some ErrRedisConClose, c))"

definition sendToCmdsChan :: "RedisCon \<Rightarrow> Command list \<Rightarrow> RedisCon outcome" where
  "sendToCmdsChan c cmds = outcome_bind (chan_send (rc_cmdsChan c) cmds) (\<lambda>q. Returns (c\<lparr>rc_cmdsChan := q\<rparr>))"

text \<open>The senders that do not wait.\<close>

definition RedisCon_Send where
  "RedisCon_Send c now cmd args = SendToConn c now None cmd (Some args)"

definition RedisCon_SendArg0 where
  "RedisCon_SendArg0 c now cmd = sendToCmdChanArgsNum0 c now None cmd"

definition RedisCon_SendArg1 where
  "RedisCon_SendArg1 c now cmd arg1 = sendToCmdChanArgsNum1 c now None cmd arg1"

definition RedisCon_SendArg2 where
  "RedisCon_SendArg2 c now cmd arg1 arg2 = sendToCmdChanArgsNum2 c now None cmd arg1 arg2"

definition RedisCon_SendArg3 where
  "RedisCon_SendArg3 c now cmd arg1 arg2 arg3 = sendToCmdChanArgsNum3 c now None cmd arg1 arg2 arg3"

text \<open>
  The senders that wait, \<open>Do\<close> and its variants, in two parts: the first makes the channel \<open>k\<close> and sends the
  command, and returns at once with an error; otherwise the second receives the result from the channel.
\<close>

definition make_result_chan :: "RedisCon \<Rightarrow> nat \<Rightarrow> RedisCon" where
  "make_result_chan c k = c\<lparr>rc_results := (rc_results c)(k := make_chan 1)\<rparr>"

definition RedisCon_Do where
  "RedisCon_Do c now k cmd args = SendToConn (make_result_chan c k) now (Some k) cmd (Some args)"

definition RedisCon_DoKeyArgs where
  "RedisCon_DoKeyArgs c now k cmd key args = sendToCmdChanArgsKey (make_result_chan c k) now (Some k) cmd key args"

definition RedisCon_DoKey where
  "RedisCon_DoKey c now k cmd key args = sendToCmdChanArgsKey (make_result_chan c k) now (Some k) cmd key (Some args)"

definition RedisCon_DoArg1 where
  "RedisCon_DoArg1 c now k cmd arg = sendToCmdChanArgsNum1 (make_result_chan c k) now (Some k) cmd arg"

definition RedisCon_DoArg2 where
  "RedisCon_DoArg2 c now k cmd arg1 arg2 = sendToCmdChanArgsNum2 (make_result_chan c k) now (Some k) cmd arg1 arg2"

definition RedisCon_DoArg3 where
  "RedisCon_DoArg3 c now k cmd arg1 arg2 arg3 = sendToCmdChanArgsNum3 (make_result_chan c k) now (Some k) cmd arg1 arg2 arg3"

definition Do_wait :: "RedisCon \<Rightarrow> nat \<Rightarrow> ((iface \<times> redis_error option) \<times> RedisCon) outcome" where
  "Do_wait c k =
     outcome_bind (chan_recv (rc_results c k)) (\<lambda>(r, ch). case r of
       Some x \<Rightarrow> Returns ((Data x, Err x), c\<lparr>rc_results := (rc_results c)(k := ch)\<rparr>)
     | None \<Rightarrow> Panics)"

section \<open>The goroutine that sends to redis\<close>

definition write_cmd :: "go_fmt \<Rightarrow> RedisCon \<Rightarrow> nat \<Rightarrow> redis_error option \<times> RedisCon" where
  "write_cmd L c i =
     (let x = cp_cmds (rc_cmdPool c) ! i;
          (n, err) = writeCommand L (rc_net c) (cm_CmdNum x) (cm_Cmd x) (cm_Arg1 x) (cm_Arg2 x) (cm_Arg3 x) (cm_Args x)
      in (err, c\<lparr>rc_net := n\<rparr>))"

text \<open>The deferred part of \<open>sendToRedis\<close>: answer the user, close the connection.\<close>

definition send_failed :: "RedisCon \<Rightarrow> nat \<Rightarrow> (redis_error option \<times> RedisCon) outcome" where
  "send_failed c i =
     outcome_bind (closeUserChan c (PoolCmd i)) (\<lambda>c1. Returns (Some ErrRedisNetFatal, snd (netClose c1)))"

definition sendToRedis :: "go_fmt \<Rightarrow> RedisCon \<Rightarrow> nat \<Rightarrow> (redis_error option \<times> RedisCon) outcome" where
  "sendToRedis L c i =
     (let (err, c1) = write_cmd L c i in
      if err = None
      then (case chan_send (rc_waitChan c1) i of
          Returns q \<Rightarrow> Returns (None, c1\<lparr>rc_waitChan := q\<rparr>)
        | Blocks \<Rightarrow> Blocks
        | Panics \<Rightarrow> send_failed c1 i)
      else send_failed (snd (netClose c1)) i)"

definition RedisCon_Flush :: "RedisCon \<Rightarrow> redis_error option \<times> RedisCon" where
  "RedisCon_Flush c =
     (let b = Writer_Flush (net_bw (rc_net c)); c1 = c\<lparr>rc_net := (rc_net c)\<lparr>net_bw := b\<rparr>\<rparr> in
      if wr_err b then (Some WriteErr, snd (netClose c1)) else (None, c1))"

text \<open>One round of the loop of \<open>processReceiveUser\<close>; \<open>False\<close> when the loop ends.\<close>

definition processReceiveUser :: "go_fmt \<Rightarrow> RedisCon \<Rightarrow> (bool \<times> RedisCon) outcome" where
  "processReceiveUser L c =
     (if IsNetClose c then Returns (\<not> cycleIsDead c, c)
      else outcome_bind (chan_recv (rc_cmdChan c)) (\<lambda>(r, q).
        let c1 = c\<lparr>rc_cmdChan := q\<rparr> in
        case r of
          None \<Rightarrow> Returns (True, c1)
        | Some i \<Rightarrow> outcome_bind (sendToRedis L c1 i) (\<lambda>(err, c2).
            if err \<noteq> None then Returns (True, c2)
            else let (err', c3) = RedisCon_Flush c2 in
              if err' \<noteq> None then outcome_bind (closeUserChan c3 (PoolCmd i)) (\<lambda>c4. Returns (True, c4))
              else Returns (True, c3))))"

section \<open>The goroutine that receives from redis\<close>

text \<open>
  \<open>receive\<close>, on the bytes that arrive; the end of these bytes is the end of the connection.  Beside an error the data is
  left nil.
\<close>

definition receive :: "RedisCon \<Rightarrow> (Result \<times> RedisCon) option" where
  "receive c = (case readReply (2 * length (rc_br c) + 1) (rc_br c) of
     None \<Rightarrow> None
   | Some (Inl e, s) \<Rightarrow> Some (\<lparr>Data = INil, Err = Some e\<rparr>, snd (netClose (c\<lparr>rc_br := s\<rparr>)))
   | Some (Inr v, s) \<Rightarrow>
       Some (\<lparr>Data = v, Err = (case v of IError e \<Rightarrow> Some (RedisError e) | _ \<Rightarrow> None)\<rparr>, c\<lparr>rc_br := s\<rparr>))"

text \<open>
  One round of the loop of \<open>processReceiveRedis\<close>.  The statistics it keeps while \<open>print_profile_log_flag\<close> is set
  are for the log only.  On a closed channel the command is nil and handing over the result panics; the panic is
  recovered outside the loop, where the restart is commented out, and the goroutine ends.
\<close>

definition processReceiveRedis :: "RedisCon \<Rightarrow> (bool \<times> RedisCon) outcome" where
  "processReceiveRedis c =
     (if IsNetClose c then Returns (\<not> cycleIsDead c, c)
      else case receive c of
        None \<Rightarrow> Blocks
      | Some (result, c1) \<Rightarrow> outcome_bind (chan_recv (rc_waitChan c1)) (\<lambda>(r, q).
          let c2 = c1\<lparr>rc_waitChan := q\<rparr> in
          case sendResultToUser c2 result (case r of Some i \<Rightarrow> PoolCmd i | None \<Rightarrow> NilCmd) of
            Returns c3 \<Rightarrow> Returns (True, c3)
          | Blocks \<Rightarrow> Blocks
          | Panics \<Rightarrow> Returns (False, c2)))"

section \<open>Cleaning the queues\<close>

datatype queue = CmdQueue | WaitQueue

fun queue_of :: "queue \<Rightarrow> RedisCon \<Rightarrow> nat gochan" where
  "queue_of CmdQueue c = rc_cmdChan c"
| "queue_of WaitQueue c = rc_waitChan c"

fun set_queue :: "queue \<Rightarrow> nat gochan \<Rightarrow> RedisCon \<Rightarrow> RedisCon" where
  "set_queue CmdQueue q c = c\<lparr>rc_cmdChan := q\<rparr>"
| "set_queue WaitQueue q c = c\<lparr>rc_waitChan := q\<rparr>"

text \<open>
  \<open>cleanChan\<close> over the commands in the channel: each is received and its user answered.  The error passed in is not
  used.
\<close>

fun clean_loop :: "queue \<Rightarrow> nat list \<Rightarrow> RedisCon \<Rightarrow> RedisCon outcome" where
  "clean_loop q [] c = Returns c"
| "clean_loop q (i # is) c =
     outcome_bind (closeUserChan (set_queue q ((queue_of q c)\<lparr>ch_buf := is\<rparr>) c) (PoolCmd i)) (clean_loop q is)"

definition cleanChan :: "queue \<Rightarrow> RedisCon \<Rightarrow> RedisCon outcome" where
  "cleanChan q c = clean_loop q (ch_buf (queue_of q c)) c"

definition closeChan :: "queue \<Rightarrow> RedisCon \<Rightarrow> RedisCon outcome" where
  "closeChan q c = outcome_bind (cleanChan q c) (\<lambda>c1. case chan_close (queue_of q c1) of
     Returns ch \<Rightarrow> Returns (set_queue q ch c1)
   | _ \<Rightarrow> Returns c1)"

section \<open>Connecting\<close>

text \<open>
  An attempt to dial: the connection it makes or \<open>None\<close>, what the connection will do with writes and the bytes it
  will deliver, and the address that the address function returns next.
\<close>

record attempt =
  at_conn :: "nat option"
  at_writes :: "write_outcome list"
  at_bytes :: bytes
  at_address :: bytes

definition NewWriter :: "write_outcome list \<Rightarrow> Writer" where
  "NewWriter ws = \<lparr>wr_buf = [], wr_out = [], wr_err = False, wr_todo = ws\<rparr>"

definition net_reset :: "RedisCon \<Rightarrow> nat \<Rightarrow> attempt \<Rightarrow> RedisCon" where
  "net_reset c k a = c\<lparr>rc_io := k, rc_br := at_bytes a, rc_net := (rc_net c)\<lparr>net_bw := NewWriter (at_writes a)\<rparr>,
     rc_waitChan := make_chan (waitChanCap c), NetStatus := NetOpen, conRetriedTimes := 0\<rparr>"

text \<open>
  The dial loop of \<open>resetNet\<close> over the attempts: with an address function it goes on to the next address
  until one answers.
\<close>

fun dial_loop :: "RedisCon \<Rightarrow> attempt list \<Rightarrow> (redis_error option \<times> RedisCon \<times> attempt list) outcome" where
  "dial_loop c [] = Blocks"
| "dial_loop c (a # as) = (case at_conn a of
     Some k \<Rightarrow> Returns (None, net_reset c k a, as)
   | None \<Rightarrow> if rc_addressFunc c then dial_loop (c\<lparr>rc_server := at_address a\<rparr>) as
             else Returns (Some (Unexpected (lit ''dial'')), c, as))"

definition resetNet :: "RedisCon \<Rightarrow> bytes \<Rightarrow> attempt list \<Rightarrow> (redis_error option \<times> RedisCon \<times> attempt list) outcome" where
  "resetNet c addr as =
     (if rc_server c = [] then Returns (Some (Unexpected (lit ''no address'')), c, as)
      else let c1 = (if rc_addressFunc c then c\<lparr>rc_server := addr\<rparr> else c) in
        dial_loop (c1\<lparr>conRetriedTimes := conRetriedTimes c1 + 1\<rparr>) as)"

section \<open>The goroutine that reconnects and closes\<close>

text \<open>
  \<open>exceptionProcess\<close> as the steps of its loops: waiting for a signal, the loop for a connection that was
  closed, the loop for one that is to finish its commands first, the loop while the network is closed with its
  inner loop over the commands that wait for replies, and the attempt to reconnect.
\<close>

datatype ex_phase = ExSignal | ExDead | ExFriendly | ExNet | ExClean | ExReset | ExDone

definition exception_signal :: "RedisCon \<Rightarrow> (ex_phase \<times> RedisCon) outcome" where
  "exception_signal c =
     outcome_bind (chan_recv (rc_signal c)) (\<lambda>(r, q).
       let c1 = c\<lparr>rc_signal := q\<rparr> in
       if \<not> cycleIsAlive c1 \<and> waitProcessCmdNum c1 \<le> 0
       then outcome_bind (closeChan CmdQueue c1) (\<lambda>c2. outcome_bind (closeChan WaitQueue c2) (\<lambda>c3. Returns (ExDone, c3)))
       else Returns (if cycleIsDead c1 then ExDead else if cycleIsClosedFriendly c1 then ExFriendly else ExNet, c1))"

definition exception_reset :: "RedisCon \<Rightarrow> bytes \<Rightarrow> attempt list \<Rightarrow> (ex_phase \<times> RedisCon \<times> attempt list) outcome" where
  "exception_reset c addr as =
     (if cycleIsAlive c \<and> (conRetryTimes c < 0 \<or> conRetriedTimes c < conRetryTimes c)
      then outcome_bind (resetNet c addr as) (\<lambda>(err, c1, as1).
        if err = None then Returns (ExSignal, c1, as1)
        else if conRetriedTimes c1 > 1 then outcome_bind (cleanChan CmdQueue c1) (\<lambda>c2. Returns (ExNet, c2, as1))
        else Returns (ExNet, c1, as1))
      else Returns (ExSignal, RedisCon_Close c, as))"

fun exceptionProcess ::
  "ex_phase \<Rightarrow> RedisCon \<Rightarrow> bytes \<Rightarrow> attempt list \<Rightarrow> (ex_phase \<times> RedisCon \<times> attempt list) outcome" where
  "exceptionProcess ExSignal c addr as =
     outcome_bind (exception_signal c) (\<lambda>(ph, c1). Returns (ph, c1, as))"
| "exceptionProcess ExDead c addr as =
     outcome_bind (cleanChan CmdQueue c) (\<lambda>c1. outcome_bind (cleanChan WaitQueue c1) (\<lambda>c2.
       Returns (if waitProcessCmdNum c2 \<le> 0 then ExNet else ExDead, c2, as)))"
| "exceptionProcess ExFriendly c addr as =
     (if IsNetClose c then Returns (ExNet, c, as)
      else if waitProcessCmdNum c \<le> 0 then Returns (ExNet, RedisCon_Close c, as)
      else Returns (ExFriendly, c, as))"
| "exceptionProcess ExNet c addr as =
     (if IsNetClose c \<and> cycleIsAlive c
      then Returns (ExClean, snd (tryChangeLifeCycle c RedisConAlive RedisConExcetion), as)
      else Returns (ExSignal, c, as))"
| "exceptionProcess ExClean c addr as =
     outcome_bind (cleanChan WaitQueue c) (\<lambda>c1.
       if waitProcessCmdNum c1 \<le> int (length (ch_buf (rc_cmdChan c1)))
       then outcome_bind (closeChan WaitQueue c1) (\<lambda>c2. Returns (ExReset, c2, as))
       else Returns (ExClean, c1, as))"
| "exceptionProcess ExReset c addr as = exception_reset c addr as"
| "exceptionProcess ExDone c addr as = Blocks"

section \<open>Making a connection\<close>

definition RedisCon_init :: "RedisCon \<Rightarrow> RedisCon" where
  "RedisCon_init c = c\<lparr>rc_cmdChan := make_chan (cmdChanCap c), rc_cmdsChan := make_chan (cmdChanCap c),
     rc_waitChan := make_chan (waitChanCap c), NetStatus := NetOpen, LifeCycle := RedisConAlive,
     rc_cmdPool := NewCmdPool (of_nat (waitChanCap c + cmdChanCap c))\<rparr>"

definition conRedis :: "attempt \<Rightarrow> RedisCon option" where
  "conRedis a = (case at_conn a of
     None \<Rightarrow> None
   | Some k \<Rightarrow> Some \<lparr>rc_conn = k, rc_io = k, rc_closed = [],
       rc_net = \<lparr>lenScratch = replicate 32 0, net_bw = NewWriter (at_writes a)\<rparr>, rc_br = at_bytes a, rc_server = [], rc_err = None,
       LifeCycle = 0, conRetryTimes = 0, conRetriedTimes = 0, NetStatus = 0,
       rc_cmdChan = make_chan 0, rc_cmdsChan = make_chan 0, cmdChanCap = 0, rc_waitChan = make_chan 0, waitChanCap = 0,
       waitProcessCmdNum = 0, rc_cmdPool = \<lparr>cp_size = 0, cp_getIndex = 0, cp_freeIndex = 0, cp_cmds = []\<rparr>,
       recvIndex = 0, sendIndex = 0, warnTT = Default_Warn_TT, reConTT = Default_Recon_TT,
       rc_signal = make_chan 0, rc_addressFunc = False, rc_results = (\<lambda>k. make_chan 0)\<rparr>)"

text \<open>
  \<open>NewRedisCon\<close> up to the point where it waits for the answer to \<open>AUTH\<close>, which it sends when the address has a
  password: the connection, and whether it waits.  The answer comes over a channel without a buffer whose
  receiver is already there, which takes one value.
\<close>

definition con_settings :: "RedisCon \<Rightarrow> bytes \<Rightarrow> int \<Rightarrow> int \<Rightarrow> RedisCon" where
  "con_settings c svr cmdCap waitCap =
     c\<lparr>cmdChanCap := nat (if cmdCap \<le> 0 then defaultCmdChCap else cmdCap),
       waitChanCap := nat (if waitCap \<le> 0 then defaultWaitChCap else waitCap),
       conRetryTimes := ConRetryTimes, conRetriedTimes := 0, rc_server := svr, rc_signal := make_chan 10\<rparr>"

definition NewRedisCon ::
  "attempt \<Rightarrow> int \<Rightarrow> nat \<Rightarrow> bytes \<Rightarrow> int \<Rightarrow> int \<Rightarrow> (redis_error + RedisCon \<times> bool) outcome" where
  "NewRedisCon a now k server cmdCap waitCap = (case ParseRedisKey server of
     None \<Rightarrow> Panics
   | Some (svr, pwd, _) \<Rightarrow>
       if svr = [] then Returns (Inl (Unexpected (lit ''Invalid redis server address'')))
       else (case conRedis a of
           None \<Rightarrow> Returns (Inl (Unexpected (lit ''dial'')))
         | Some c0 \<Rightarrow>
             let c = RedisCon_init (con_settings c0 svr cmdCap waitCap) in
             if pwd = [] then Returns (Inr (c, False))
             else outcome_bind (SendToConn (make_result_chan c k) now (Some k) (lit ''AUTH'') (Some [IString pwd]))
               (\<lambda>(err, c1). Returns (Inr (c1, True)))))"

definition NewRedisCon_auth :: "RedisCon \<Rightarrow> Result \<Rightarrow> redis_error option \<times> RedisCon" where
  "NewRedisCon_auth c result = (case String (Data result) (Err result) of
     (ret, Some rerr) \<Rightarrow> (Some rerr, snd (fatal c rerr))
   | (ret, None) \<Rightarrow>
       if ret \<noteq> lit ''OK'' then (let rerr = Unexpected (lit ''invalid passwd'') in (Some rerr, snd (fatal c rerr)))
       else (None, c))"

definition NewRedisConWithTimeOut ::
  "attempt \<Rightarrow> int \<Rightarrow> nat \<Rightarrow> bytes \<Rightarrow> int \<Rightarrow> int \<Rightarrow> int \<Rightarrow> int \<Rightarrow> (redis_error + RedisCon \<times> bool) outcome" where
  "NewRedisConWithTimeOut a now k server cmdCap waitCap warn recon =
     outcome_bind (NewRedisCon a now k server cmdCap waitCap) (\<lambda>r. Returns (case r of
       Inl e \<Rightarrow> Inl e
     | Inr (c, b) \<Rightarrow> Inr (c\<lparr>warnTT := warn, reConTT := recon\<rparr>, b)))"

section \<open>The watch for time-outs\<close>

record timeout_state =
  to_lastRecvId :: "64 word"
  to_index :: int
  to_ttTimes :: int
  to_ttTime :: int

text \<open>
  One second of \<open>processTimeOut\<close> at the time \<open>now\<close>: whether the goroutine goes on, since a remainder by a period of
  zero panics, whether it reconnects, and its counters.  The second period \<open>reConTT\<close> is for the log only.
\<close>

definition timeout_warn :: "timeout_state \<Rightarrow> int \<Rightarrow> bool \<times> timeout_state" where
  "timeout_warn t now =
     (let t1 = (if now - to_ttTime t > 60 then t\<lparr>to_ttTime := now, to_ttTimes := 0\<rparr> else t);
          t2 = t1\<lparr>to_ttTimes := to_ttTimes t1 + 1\<rparr>
      in if to_ttTimes t2 > 5 then (True, t2\<lparr>to_ttTime := 0, to_ttTimes := 0\<rparr>) else (False, t2))"

definition timeout_check :: "timeout_state \<Rightarrow> RedisCon \<Rightarrow> int \<Rightarrow> bool \<times> bool \<times> timeout_state" where
  "timeout_check t0 c now =
     (let t = t0\<lparr>to_index := to_index t0 + 1\<rparr> in
      if recvIndex c \<noteq> to_lastRecvId t then (True, False, t\<lparr>to_index := 0, to_lastRecvId := recvIndex c\<rparr>)
      else if warnTT c = 0 then (False, False, t)
      else let (reset, t1) = (if to_index t mod warnTT c = 0 \<and> sendIndex c - recvIndex c > 100
                              then timeout_warn t now else (False, t))
           in (reConTT c \<noteq> 0, reset, t1))"

definition processTimeOut ::
  "timeout_state \<Rightarrow> RedisCon \<Rightarrow> int \<Rightarrow> bytes \<Rightarrow> attempt list \<Rightarrow> (bool \<times> timeout_state \<times> RedisCon \<times> attempt list) outcome" where
  "processTimeOut t c now addr as =
     (let (goes_on, reset, t1) = timeout_check t c now in
      if reset then outcome_bind (resetNet c addr as) (\<lambda>(err, c1, as1). Returns (goes_on, t1, c1, as1))
      else Returns (goes_on, t1, c, as))"

end
