(* ===== verification/Redis_ConnFail.thy ===== *)
theory Redis_ConnFail
  imports Redis_Conn Redis_ReadReply
begin

text \<open>
  What the connection does when something goes wrong: commands without arguments, a flush that fails, the
  reconnection after the network closed, and the watch for time-outs.
\<close>

section \<open>Answering a command of the pool\<close>

definition has_room :: "'a gochan \<Rightarrow> bool" where
  "has_room ch \<longleftrightarrow> \<not> ch_closed ch \<and> length (ch_buf ch) < ch_cap ch"

definition free_cmd :: "Command \<Rightarrow> Command" where
  "free_cmd x = x\<lparr>cm_isUsed := CmdFree, cm_useChan := 1\<rparr>"

definition add_result :: "(nat \<Rightarrow> Result gochan) \<Rightarrow> nat option \<Rightarrow> Result \<Rightarrow> nat \<Rightarrow> Result gochan" where
  "add_result m ch r = (case ch of None \<Rightarrow> m | Some k \<Rightarrow> m(k := (m k)\<lparr>ch_buf := ch_buf (m k) @ [r]\<rparr>))"

definition settle :: "RedisCon \<Rightarrow> nat \<Rightarrow> Result \<Rightarrow> RedisCon" where
  "settle c i r =
     (let x = cp_cmds (rc_cmdPool c) ! i in
      (set_cmd c i (free_cmd x))\<lparr>rc_results := add_result (rc_results c) (cm_ResultChan x) r,
         recvIndex := cm_cmdIndex x, waitProcessCmdNum := waitProcessCmdNum c - 1\<rparr>)"

text \<open>A command that can be answered: it is in use and there is room for its result.\<close>

definition pending :: "RedisCon \<Rightarrow> nat \<Rightarrow> bool" where
  "pending c i \<longleftrightarrow> i < length (cp_cmds (rc_cmdPool c)) \<and> slot_ok (cp_cmds (rc_cmdPool c) ! i) \<and>
     slot_used (cp_cmds (rc_cmdPool c) ! i) \<and>
     (\<forall>k. cm_ResultChan (cp_cmds (rc_cmdPool c) ! i) = Some k \<longrightarrow> has_room (rc_results c k))"

lemma sendResultToUser_settle:
  assumes "pending c i"
  shows "sendResultToUser c r (PoolCmd i) = Returns (settle c i r)"
  using assms
  by (auto simp: sendResultToUser_def pending_def post_result_def has_room_def chan_send_def settle_def add_result_def Let_def
      set_cmd_def Command_release_def slot_ok_def slot_used_def free_cmd_def split: option.splits)

lemma settle_fields [simp]:
  "rc_cmdChan (settle c i r) = rc_cmdChan c" "rc_waitChan (settle c i r) = rc_waitChan c"
  "waitProcessCmdNum (settle c i r) = waitProcessCmdNum c - 1" "NetStatus (settle c i r) = NetStatus c"
  "LifeCycle (settle c i r) = LifeCycle c" "rc_signal (settle c i r) = rc_signal c" "rc_conn (settle c i r) = rc_conn c"
  "rc_closed (settle c i r) = rc_closed c" "rc_io (settle c i r) = rc_io c" "rc_server (settle c i r) = rc_server c"
  "conRetryTimes (settle c i r) = conRetryTimes c" "conRetriedTimes (settle c i r) = conRetriedTimes c"
  "waitChanCap (settle c i r) = waitChanCap c" "rc_addressFunc (settle c i r) = rc_addressFunc c"
  "rc_results (settle c i r) = add_result (rc_results c) (cm_ResultChan (cp_cmds (rc_cmdPool c) ! i)) r"
  "cp_cmds (rc_cmdPool (settle c i r)) = (cp_cmds (rc_cmdPool c))[i := free_cmd (cp_cmds (rc_cmdPool c) ! i)]"
  "rc_br (settle c i r) = rc_br c" "rc_net (settle c i r) = rc_net c"
  by (simp_all add: settle_def Let_def set_cmd_def)

section \<open>Commands without arguments\<close>

text \<open>
  A command sent with an empty argument list, such as \<open>Do("PING")\<close>, never reaches the server: \<open>sendToCmdChan\<close> panics before it
  has taken a command from the pool, the recovery answers the user with \<open>ErrRedisConClose\<close>, no error is returned, and the
  number of commands in progress falls by one although none was counted.
\<close>

lemma Do_without_arguments:
  assumes "\<not> IsNetClose c" and "cmd \<noteq> lit ''EVAL''" and "cmd \<noteq> lit ''EVALSHA''"
  shows "\<exists>c1 c2. RedisCon_Do c now k cmd [] = Returns (None, c1) \<and>
    Do_wait c1 k = Returns ((INil, Some ErrRedisConClose), c2) \<and>
    waitProcessCmdNum c2 = waitProcessCmdNum c - 1 \<and> rc_cmdChan c2 = rc_cmdChan c \<and> rc_cmdPool c2 = rc_cmdPool c"
  using assms
  by (simp add: RedisCon_Do_def SendToConn_def SendToCmdChan_def sendToCmdChan_def bad_array_def IsNetClose_def
      make_result_chan_def closeUserChan_def sendResultToUser_def post_result_def chan_send_def Do_wait_def chan_recv_def
      closed_result_def)

definition sample_con :: RedisCon where
  "sample_con = RedisCon_init (con_settings
     (the (conRedis \<lparr>at_conn = Some 0, at_writes = [], at_bytes = [], at_address = []\<rparr>)) (lit ''host:1'') 2 2)"

lemma sample_con_fields:
  "NetStatus sample_con = NetOpen" "LifeCycle sample_con = RedisConAlive" "waitProcessCmdNum sample_con = 0"
  "rc_cmdChan sample_con = make_chan 2" "rc_waitChan sample_con = make_chan 2" "rc_cmdPool sample_con = NewCmdPool 4"
  "rc_signal sample_con = make_chan 10" "rc_conn sample_con = 0" "rc_closed sample_con = []" "rc_server sample_con = lit ''host:1''"
  "rc_net sample_con = \<lparr>lenScratch = replicate 32 0, net_bw = NewWriter []\<rparr>" "conRetryTimes sample_con = - 1"
  "rc_addressFunc sample_con = False" "waitChanCap sample_con = 2" "sendIndex sample_con = 0" "recvIndex sample_con = 0"
  by (simp_all add: sample_con_def conRedis_def con_settings_def RedisCon_init_def ConRetryTimes_def)

lemma Do_without_arguments_instance:
  "\<exists>c1 c2. RedisCon_Do sample_con 0 7 (lit ''PING'') [] = Returns (None, c1) \<and>
    Do_wait c1 7 = Returns ((INil, Some ErrRedisConClose), c2) \<and> waitProcessCmdNum c2 = - 1"
  using Do_without_arguments [of sample_con "lit ''PING''" 0 7]
  by (auto simp: IsNetClose_def sample_con_fields status_defs)

section \<open>A flush that fails\<close>

lemma SendExceptionSignal_fields [simp]:
  "NetStatus (SendExceptionSignal c s) = NetStatus c" "rc_cmdChan (SendExceptionSignal c s) = rc_cmdChan c"
  "rc_waitChan (SendExceptionSignal c s) = rc_waitChan c" "rc_cmdPool (SendExceptionSignal c s) = rc_cmdPool c"
  "rc_results (SendExceptionSignal c s) = rc_results c" "waitProcessCmdNum (SendExceptionSignal c s) = waitProcessCmdNum c"
  "LifeCycle (SendExceptionSignal c s) = LifeCycle c" "rc_closed (SendExceptionSignal c s) = rc_closed c"
  "recvIndex (SendExceptionSignal c s) = recvIndex c" "rc_conn (SendExceptionSignal c s) = rc_conn c"
  by (simp_all add: SendExceptionSignal_def split: outcome.splits)

lemma netClose_fields [simp]:
  "rc_cmdChan (snd (netClose c)) = rc_cmdChan c" "rc_waitChan (snd (netClose c)) = rc_waitChan c"
  "rc_cmdPool (snd (netClose c)) = rc_cmdPool c" "rc_results (snd (netClose c)) = rc_results c"
  "waitProcessCmdNum (snd (netClose c)) = waitProcessCmdNum c" "LifeCycle (snd (netClose c)) = LifeCycle c"
  "recvIndex (snd (netClose c)) = recvIndex c"
  "NetStatus (snd (netClose c)) = (if NetStatus c = NetOpen then NetClosed else NetStatus c)"
  "rc_closed (snd (netClose c)) = (if NetStatus c = NetOpen then rc_conn c # rc_closed c else rc_closed c)"
  by (simp_all add: netClose_def Let_def)

lemma pending_cong:
  "rc_cmdPool c' = rc_cmdPool c \<Longrightarrow> rc_results c' = rc_results c \<Longrightarrow> pending c' i \<longleftrightarrow> pending c i"
  by (simp add: pending_def)

text \<open>A free command is answered again: its channel gets the result if it can, and the count falls.\<close>

lemma sendResultToUser_again:
  assumes "i < length (cp_cmds (rc_cmdPool c))" and "\<not> slot_used (cp_cmds (rc_cmdPool c) ! i)"
    and "cm_ResultChan (cp_cmds (rc_cmdPool c) ! i) = Some k" and "ch_closed (rc_results c k)"
  shows "\<exists>c'. sendResultToUser c r (PoolCmd i) = Returns c' \<and> waitProcessCmdNum c' = waitProcessCmdNum c - 1"
  using assms
  by (simp add: sendResultToUser_def post_result_def chan_send_def Command_release_def slot_used_def set_cmd_def)

text \<open>
  C36. When the flush after a command fails, the command is answered although it is already in the channel of commands that
  wait for their reply.  It is free for the next user while the channel still refers to it, and when that
  channel is cleaned for the reconnection the command is answered a second time, here after the user
  has taken the first answer and closed the channel: the number of commands in progress falls twice for the one command.
\<close>

theorem failed_flush_answers_twice:
  assumes "NetStatus c = NetOpen" and "ch_buf (rc_cmdChan c) = i # rest" and "pending c i"
    and "cm_ResultChan x = Some k" and "x = cp_cmds (rc_cmdPool c) ! i"
    and "ch_buf (rc_waitChan c) = []" and "has_room (rc_waitChan c)"
    and "writeCommand L (rc_net c) (cm_CmdNum x) (cm_Cmd x) (cm_Arg1 x) (cm_Arg2 x) (cm_Arg3 x) (cm_Args x) = (n, None)"
    and "wr_err (Writer_Flush (net_bw n))"
  shows "\<exists>c2 c4. processReceiveUser L c = Returns (True, c2) \<and> IsNetClose c2 \<and> ch_buf (rc_waitChan c2) = [i] \<and>
    ch_buf (rc_results c2 k) = ch_buf (rc_results c k) @ [closed_result] \<and> \<not> slot_used (cp_cmds (rc_cmdPool c2) ! i) \<and>
    cleanChan WaitQueue (c2\<lparr>rc_results := (rc_results c2)(k := \<lparr>ch_cap = 1, ch_buf = [], ch_closed = True\<rparr>)\<rparr>) = Returns c4 \<and>
    waitProcessCmdNum c4 = waitProcessCmdNum c - 2"
proof -
  define c1 where "c1 = c\<lparr>rc_cmdChan := (rc_cmdChan c)\<lparr>ch_buf := rest\<rparr>, rc_net := n,
    rc_waitChan := (rc_waitChan c)\<lparr>ch_buf := [i]\<rparr>\<rparr>"
  define c2 where "c2 = snd (netClose (c1\<lparr>rc_net := n\<lparr>net_bw := Writer_Flush (net_bw n)\<rparr>\<rparr>))"
  have send: "sendToRedis L (c\<lparr>rc_cmdChan := (rc_cmdChan c)\<lparr>ch_buf := rest\<rparr>\<rparr>) i = Returns (None, c1)"
    using assms(5-8) by (simp add: sendToRedis_def write_cmd_def Let_def chan_send_def has_room_def c1_def)
  have flush: "RedisCon_Flush c1 = (Some WriteErr, c2)"
    using assms(9) by (simp add: RedisCon_Flush_def Let_def c1_def c2_def)
  have "pending c2 i" using assms(3) by (simp add: pending_def c2_def c1_def)
  then have close: "closeUserChan c2 (PoolCmd i) = Returns (settle c2 i closed_result)"
    by (simp add: closeUserChan_def sendResultToUser_settle)
  have run: "processReceiveUser L c = Returns (True, settle c2 i closed_result)"
    using assms(1,2) send flush close by (simp add: processReceiveUser_def IsNetClose_def chan_recv_def status_defs)
  let ?c3 = "(settle c2 i closed_result)\<lparr>rc_results := (rc_results (settle c2 i closed_result))(k := \<lparr>ch_cap = 1, ch_buf = [], ch_closed = True\<rparr>)\<rparr>"
  have i: "i < length (cp_cmds (rc_cmdPool c))" using assms(3) by (simp add: pending_def)
  obtain c4 where c4: "closeUserChan (?c3\<lparr>rc_waitChan := (rc_waitChan c)\<lparr>ch_buf := []\<rparr>\<rparr>) (PoolCmd i) = Returns c4"
      "waitProcessCmdNum c4 = waitProcessCmdNum c - 2"
    using i assms(4,5) sendResultToUser_again [of i "?c3\<lparr>rc_waitChan := (rc_waitChan c)\<lparr>ch_buf := []\<rparr>\<rparr>" k closed_result]
    by (auto simp: closeUserChan_def c2_def c1_def slot_used_def free_cmd_def)
  have "cleanChan WaitQueue ?c3 = Returns c4"
    using c4(1) by (simp add: cleanChan_def c2_def c1_def)
  with run c4(2) i assms(1,4,5) show ?thesis
    by (auto simp: IsNetClose_def c2_def c1_def slot_used_def free_cmd_def add_result_def)
qed

definition sample_queued :: RedisCon where
  "sample_queued = (set_cmd sample_con 2 (pool_Command\<lparr>cm_isUsed := CmdUsed, cm_useChan := 0, cm_Cmd := lit ''GET'', cm_CmdNum := 1,
       cm_Arg1 := IString (lit ''k''), cm_ResultChan := Some 7\<rparr>))
     \<lparr>rc_cmdChan := \<lparr>ch_cap = 2, ch_buf = [2], ch_closed = False\<rparr>, waitProcessCmdNum := 1, rc_results := (\<lambda>k. make_chan 1)\<rparr>"

lemma sample_write:
  "\<exists>n. writeCommand plain_fmt (rc_net sample_con) 1 (lit ''GET'') (IString (lit ''k'')) INil INil None = (n, None) \<and>
     wr_err (Writer_Flush (net_bw n))"
  by (simp add: sample_con_fields NewWriter_def writeCommand_def writeCommand_body_def writeHeader_def writeArgs_def ARGSKEY_def
      ARGSNUMARRAY_def writeLen_def writeLen_loop.simps writeString_def net_write_def Write_fits bufio_size_def set_at_def
      slice_from_def Let_def Writer_Flush_def signed_divide_int_def signed_modulo_int_def STRLINEBREAK_def)

theorem failed_flush_answers_twice_witness:
  "\<exists>c2 c4. processReceiveUser plain_fmt sample_queued = Returns (True, c2) \<and> IsNetClose c2 \<and> ch_buf (rc_waitChan c2) = [2] \<and>
    ch_buf (rc_results c2 7) = [closed_result] \<and>
    cleanChan WaitQueue (c2\<lparr>rc_results := (rc_results c2)(7 := \<lparr>ch_cap = 1, ch_buf = [], ch_closed = True\<rparr>)\<rparr>) = Returns c4 \<and>
    waitProcessCmdNum c4 = - 1"
proof -
  let ?x = "cp_cmds (rc_cmdPool sample_queued) ! 2"
  have x: "?x = pool_Command\<lparr>cm_isUsed := CmdUsed, cm_useChan := 0, cm_Cmd := lit ''GET'', cm_CmdNum := 1,
       cm_Arg1 := IString (lit ''k''), cm_ResultChan := Some 7\<rparr>" "length (cp_cmds (rc_cmdPool sample_queued)) = 40"
    by (simp_all add: sample_queued_def set_cmd_def sample_con_fields NewCmdPool_def)
  have q: "NetStatus sample_queued = NetOpen" "ch_buf (rc_cmdChan sample_queued) = [2]" "ch_buf (rc_waitChan sample_queued) = []"
      "has_room (rc_waitChan sample_queued)" "rc_net sample_queued = rc_net sample_con" "waitProcessCmdNum sample_queued = 1"
      "rc_results sample_queued = (\<lambda>k. make_chan 1)"
    by (simp_all add: sample_queued_def set_cmd_def sample_con_fields has_room_def)
  have p: "pending sample_queued 2"
    by (simp add: pending_def x q has_room_def slot_ok_def slot_used_def) (simp add: pool_Command_def)
  obtain n where n: "writeCommand plain_fmt (rc_net sample_queued) (cm_CmdNum ?x) (cm_Cmd ?x) (cm_Arg1 ?x) (cm_Arg2 ?x) (cm_Arg3 ?x) (cm_Args ?x) = (n, None)"
      "wr_err (Writer_Flush (net_bw n))"
    using sample_write by (auto simp: x q pool_Command_def new_Command_def)
  have k: "cm_ResultChan ?x = Some 7" by (simp add: x)
  show ?thesis
    using failed_flush_answers_twice [OF q(1) q(2) p k refl q(3) q(4) n] by (auto simp: q)
qed

section \<open>Reconnecting\<close>

text \<open>What the cleaning of a channel leaves alone.\<close>

definition con_frame where
  "con_frame c = (NetStatus c, LifeCycle c, rc_server c, conRetryTimes c, conRetriedTimes c, waitChanCap c, rc_addressFunc c,
     rc_conn c, rc_closed c, rc_io c, rc_cmdChan c, rc_signal c)"

text \<open>Every one of the commands was answered with \<open>ErrRedisConClose\<close> and is free.\<close>

definition answered :: "nat list \<Rightarrow> RedisCon \<Rightarrow> RedisCon \<Rightarrow> bool" where
  "answered is c c' \<longleftrightarrow>
     con_frame c' = con_frame c \<and> waitProcessCmdNum c' = waitProcessCmdNum c - int (length is) \<and>
     (\<forall>i \<in> set is. \<not> slot_used (cp_cmds (rc_cmdPool c') ! i) \<and>
        (\<forall>k. cm_ResultChan (cp_cmds (rc_cmdPool c) ! i) = Some k \<longrightarrow>
           ch_buf (rc_results c' k) = ch_buf (rc_results c k) @ [closed_result])) \<and>
     (\<forall>i. i \<notin> set is \<longrightarrow> cp_cmds (rc_cmdPool c') ! i = cp_cmds (rc_cmdPool c) ! i) \<and>
     (\<forall>k. k \<notin> {k. \<exists>i \<in> set is. cm_ResultChan (cp_cmds (rc_cmdPool c) ! i) = Some k} \<longrightarrow> rc_results c' k = rc_results c k)"

text \<open>No two of the commands have the same result channel.\<close>

definition separate :: "nat list \<Rightarrow> RedisCon \<Rightarrow> bool" where
  "separate is c \<longleftrightarrow> distinct is \<and> (\<forall>i \<in> set is. \<forall>j \<in> set is. \<forall>k.
     cm_ResultChan (cp_cmds (rc_cmdPool c) ! i) = Some k \<longrightarrow> cm_ResultChan (cp_cmds (rc_cmdPool c) ! j) = Some k \<longrightarrow> i = j)"

lemma settle_pending:
  assumes "pending c j" and "separate (i # is) c" and "j \<in> set is"
  shows "pending (settle c i r) j"
proof -
  from assms have "i \<noteq> j" by (auto simp: separate_def)
  moreover have "cm_ResultChan (cp_cmds (rc_cmdPool c) ! i) \<noteq> Some k" if "cm_ResultChan (cp_cmds (rc_cmdPool c) ! j) = Some k" for k
    using assms that \<open>i \<noteq> j\<close> unfolding separate_def by auto
  ultimately show ?thesis
    using assms(1) by (auto simp: pending_def add_result_def split: option.splits)
qed

lemma answered_Cons:
  assumes "pending c i" and "separate (i # is) c" and "answered is (settle c i closed_result) c'"
  shows "answered (i # is) c c'"
proof -
  let ?s = "settle c i closed_result"
  let ?ch = "\<lambda>j. cm_ResultChan (cp_cmds (rc_cmdPool c) ! j)"
  have i: "i \<notin> set is" "i < length (cp_cmds (rc_cmdPool c))" using assms(1,2) by (auto simp: separate_def pending_def)
  have sep: "?ch j = Some k \<Longrightarrow> ?ch i = Some k \<Longrightarrow> j \<notin> set is" for j k
    using assms(2) i unfolding separate_def by auto
  have ch: "cm_ResultChan (cp_cmds (rc_cmdPool ?s) ! j) = ?ch j" for j
    using i by (cases "j = i") (auto simp: free_cmd_def)
  have res: "rc_results ?s k = rc_results c k" if "?ch i \<noteq> Some k" for k
    using that by (auto simp: add_result_def split: option.splits)
  have resi: "ch_buf (rc_results ?s k) = ch_buf (rc_results c k) @ [closed_result]" if "?ch i = Some k" for k
    using that by (simp add: add_result_def)
  have a: "con_frame c' = con_frame ?s" "waitProcessCmdNum c' = waitProcessCmdNum ?s - int (length is)"
    "\<And>j. j \<notin> set is \<Longrightarrow> cp_cmds (rc_cmdPool c') ! j = cp_cmds (rc_cmdPool ?s) ! j"
    "\<And>j. j \<in> set is \<Longrightarrow> \<not> slot_used (cp_cmds (rc_cmdPool c') ! j)"
    "\<And>j k. j \<in> set is \<Longrightarrow> ?ch j = Some k \<Longrightarrow> ch_buf (rc_results c' k) = ch_buf (rc_results ?s k) @ [closed_result]"
    "\<And>k. (\<And>j. j \<in> set is \<Longrightarrow> ?ch j \<noteq> Some k) \<Longrightarrow> rc_results c' k = rc_results ?s k"
    using assms(3) unfolding answered_def ch by auto
  have "con_frame c' = con_frame c" using a(1) by (simp add: con_frame_def)
  moreover have "\<not> slot_used (cp_cmds (rc_cmdPool c') ! j)" if "j \<in> set (i # is)" for j
    using that a(3) [OF i(1)] a(4) i(2) by (auto simp: slot_used_def free_cmd_def)
  moreover have "ch_buf (rc_results c' k) = ch_buf (rc_results c k) @ [closed_result]" if "j \<in> set (i # is)" "?ch j = Some k" for j k
  proof (cases "j = i")
    case True
    then have "rc_results c' k = rc_results ?s k" using a(6) sep that(2) by blast
    with resi True that(2) show ?thesis by simp
  next
    case False
    with that have "j \<in> set is" "?ch i \<noteq> Some k" using sep by auto
    with a(5) res that(2) show ?thesis by simp
  qed
  moreover have "cp_cmds (rc_cmdPool c') ! j = cp_cmds (rc_cmdPool c) ! j" if "j \<notin> set (i # is)" for j
    using that a(3) by simp
  moreover have "rc_results c' k = rc_results c k" if "\<forall>j \<in> set (i # is). ?ch j \<noteq> Some k" for k
    using that a(6) res by simp
  ultimately show ?thesis using a(2) by (auto simp: answered_def)
qed

lemma separate_settle: "separate (i # is) c \<Longrightarrow> pending c i \<Longrightarrow> separate is (settle c i r)"
  by (simp add: separate_def pending_def nth_list_update free_cmd_def)

lemma answered_set_queue:
  "answered is (c\<lparr>rc_waitChan := q\<rparr>) c' \<Longrightarrow> answered is c c'"
  by (simp add: answered_def con_frame_def)

lemma clean_loop_answers:
  assumes "\<forall>i \<in> set is. pending c i" and "separate is c"
  shows "\<exists>c'. clean_loop WaitQueue is c = Returns c' \<and> answered is c c' \<and>
    rc_waitChan c' = (if is = [] then rc_waitChan c else (rc_waitChan c)\<lparr>ch_buf := []\<rparr>)"
  using assms
proof (induction "is" arbitrary: c)
  case Nil
  then show ?case by (auto simp: answered_def)
next
  case (Cons i "is")
  let ?c = "c\<lparr>rc_waitChan := (rc_waitChan c)\<lparr>ch_buf := is\<rparr>\<rparr>"
  have p: "\<forall>j \<in> set (i # is). pending ?c j" "separate (i # is) ?c"
    using Cons.prems by (auto simp: pending_def separate_def)
  have rest: "\<forall>j \<in> set is. pending (settle ?c i closed_result) j" "separate is (settle ?c i closed_result)"
    using p settle_pending [OF _ p(2)] separate_settle [OF p(2)] by auto
  obtain c' where c': "clean_loop WaitQueue is (settle ?c i closed_result) = Returns c'"
      "answered is (settle ?c i closed_result) c'"
      "rc_waitChan c' = (if is = [] then rc_waitChan ?c else (rc_waitChan ?c)\<lparr>ch_buf := []\<rparr>)"
    using Cons.IH [OF rest] by auto
  have "closeUserChan ?c (PoolCmd i) = Returns (settle ?c i closed_result)"
    using p by (simp add: closeUserChan_def sendResultToUser_settle)
  moreover have "answered (i # is) c c'"
    using answered_Cons [OF _ p(2) c'(2)] p(1) answered_set_queue by auto
  ultimately show ?case using c' by auto
qed

text \<open>
  C20. When the network has closed and the count of commands in progress is right, the goroutine that reconnects answers
  every command that waits for a reply with \<open>ErrRedisConClose\<close> and frees it, keeps the commands that were not sent, and opens the
  network again with an empty channel of waiting commands and a right count.  The new
  connection is under the reader and the writer only: closing the network later closes the old one
  again and leaves the new one open.
\<close>

theorem reconnect_answers_waiting:
  assumes "IsNetClose c" and "cycleIsAlive c" and "conRetryTimes c < 0" and "rc_server c \<noteq> []" and "\<not> rc_addressFunc c"
    and "\<not> ch_closed (rc_waitChan c)" and "\<forall>i \<in> set (ch_buf (rc_waitChan c)). pending c i"
    and "separate (ch_buf (rc_waitChan c)) c"
    and "waitProcessCmdNum c = int (length (ch_buf (rc_waitChan c)) + length (ch_buf (rc_cmdChan c)))"
    and "at_conn a = Some k" and "k \<notin> set (rc_conn c # rc_closed c)"
  shows "\<exists>c1 c2 c3. exceptionProcess ExNet c addr [a] = Returns (ExClean, c1, [a]) \<and>
    exceptionProcess ExClean c1 addr [a] = Returns (ExReset, c2, [a]) \<and>
    exceptionProcess ExReset c2 addr [a] = Returns (ExSignal, c3, []) \<and>
    \<not> IsNetClose c3 \<and> rc_waitChan c3 = make_chan (waitChanCap c) \<and> rc_cmdChan c3 = rc_cmdChan c \<and>
    waitProcessCmdNum c3 = int (length (ch_buf (rc_cmdChan c))) \<and>
    (\<forall>i \<in> set (ch_buf (rc_waitChan c)). \<not> slot_used (cp_cmds (rc_cmdPool c3) ! i) \<and>
       (\<forall>k. cm_ResultChan (cp_cmds (rc_cmdPool c) ! i) = Some k \<longrightarrow>
          ch_buf (rc_results c3 k) = ch_buf (rc_results c k) @ [closed_result])) \<and>
    rc_io c3 = k \<and> k \<notin> set (rc_closed (snd (netClose c3)))"
proof -
  define c1 where "c1 = snd (tryChangeLifeCycle c RedisConAlive RedisConExcetion)"
  have c1: "c1 = c\<lparr>LifeCycle := LifeCycle c1\<rparr>" "cycleIsAlive c1"
    using assms(2) by (auto simp: c1_def tryChangeLifeCycle_def cycleIsAlive_def cycleIsExcetion_def)
  let ?is = "ch_buf (rc_waitChan c)"
  have "\<forall>i \<in> set ?is. pending c1 i" "separate ?is c1"
    using assms(7,8) by (subst c1(1); simp add: pending_def separate_def)+
  then obtain c' where c': "clean_loop WaitQueue ?is c1 = Returns c'" "answered ?is c1 c'"
      "rc_waitChan c' = (if ?is = [] then rc_waitChan c1 else (rc_waitChan c1)\<lparr>ch_buf := []\<rparr>)"
    using clean_loop_answers by blast
  have wc: "rc_waitChan c1 = rc_waitChan c" by (subst c1(1)) simp
  have w: "rc_waitChan c' = (rc_waitChan c)\<lparr>ch_buf := []\<rparr>" using c'(3) wc by (cases "?is = []") auto
  have fr: "con_frame c' = con_frame c1" "waitProcessCmdNum c' = int (length (ch_buf (rc_cmdChan c)))"
    using c'(2) assms(9) by (auto simp: answered_def) (subst c1(1), simp)
  let ?c2 = "c'\<lparr>rc_waitChan := (rc_waitChan c')\<lparr>ch_closed := True\<rparr>\<rparr>"
  have cf: "con_frame c1 = con_frame (c\<lparr>LifeCycle := LifeCycle c1\<rparr>)" using c1(1) by simp
  have f: "rc_cmdChan c' = rc_cmdChan c" "LifeCycle c' = LifeCycle c1" "conRetryTimes c' = conRetryTimes c"
      "rc_server c' = rc_server c" "rc_addressFunc c' = rc_addressFunc c" "waitChanCap c' = waitChanCap c"
      "rc_conn c' = rc_conn c" "rc_closed c' = rc_closed c"
    using fr(1) unfolding cf by (simp_all add: con_frame_def)
  have s1: "exceptionProcess ExNet c addr [a] = Returns (ExClean, c1, [a])"
    using assms(1,2) by (simp add: c1_def)
  have s2: "exceptionProcess ExClean c1 addr [a] = Returns (ExReset, ?c2, [a])"
    using c'(1) fr(2) f(1) w assms(6) by (simp add: cleanChan_def wc closeChan_def chan_close_def)
  let ?c3 = "net_reset (?c2\<lparr>conRetriedTimes := conRetriedTimes ?c2 + 1\<rparr>) k a"
  have al: "cycleIsAlive ?c2" using c1(2) f(2) by (simp add: cycleIsAlive_def cycleIsExcetion_def)
  have s3: "exceptionProcess ExReset ?c2 addr [a] = Returns (ExSignal, ?c3, [])"
    using al assms(3,4,5,10) f by (simp add: exception_reset_def resetNet_def)
  have same: "cp_cmds (rc_cmdPool c1) = cp_cmds (rc_cmdPool c)" "rc_results c1 = rc_results c"
    by (subst c1(1), simp)+
  have an: "\<forall>i \<in> set ?is. \<not> slot_used (cp_cmds (rc_cmdPool c') ! i) \<and> (\<forall>k. cm_ResultChan (cp_cmds (rc_cmdPool c) ! i) = Some k \<longrightarrow>
      ch_buf (rc_results c' k) = ch_buf (rc_results c k) @ [closed_result])"
    using c'(2) by (simp add: answered_def same)
  show ?thesis
    using s1 s2 s3 an f fr(2) assms(11)
    by (intro exI [of _ c1] exI [of _ ?c2] exI [of _ ?c3]) (simp add: net_reset_def IsNetClose_def status_defs)
qed

theorem reconnect_answers_waiting_witness:
  "let c = sample_queued\<lparr>NetStatus := NetClosed, rc_cmdChan := make_chan 2, rc_waitChan := \<lparr>ch_cap = 2, ch_buf = [2], ch_closed = False\<rparr>\<rparr>;
       a = \<lparr>at_conn = Some 5, at_writes = [], at_bytes = [], at_address = []\<rparr>
   in \<exists>c1 c2 c3. exceptionProcess ExNet c [] [a] = Returns (ExClean, c1, [a]) \<and>
    exceptionProcess ExClean c1 [] [a] = Returns (ExReset, c2, [a]) \<and>
    exceptionProcess ExReset c2 [] [a] = Returns (ExSignal, c3, []) \<and> waitProcessCmdNum c3 = 0 \<and>
    ch_buf (rc_results c3 7) = [closed_result] \<and> rc_io c3 = 5 \<and> 5 \<notin> set (rc_closed (snd (netClose c3)))"
proof -
  let ?c = "sample_queued\<lparr>NetStatus := NetClosed, rc_cmdChan := make_chan 2, rc_waitChan := \<lparr>ch_cap = 2, ch_buf = [2], ch_closed = False\<rparr>\<rparr>"
  let ?a = "\<lparr>at_conn = Some 5, at_writes = [], at_bytes = [], at_address = []\<rparr>"
  have x: "cp_cmds (rc_cmdPool sample_queued) ! 2 = pool_Command\<lparr>cm_isUsed := CmdUsed, cm_useChan := 0, cm_Cmd := lit ''GET'',
       cm_CmdNum := 1, cm_Arg1 := IString (lit ''k''), cm_ResultChan := Some 7\<rparr>"
    "length (cp_cmds (rc_cmdPool sample_queued)) = 40"
    by (simp_all add: sample_queued_def set_cmd_def sample_con_fields NewCmdPool_def)
  have q: "LifeCycle sample_queued = RedisConAlive" "waitProcessCmdNum sample_queued = 1" "rc_results sample_queued = (\<lambda>k. make_chan 1)"
      "conRetryTimes sample_queued = - 1" "rc_server sample_queued = lit ''host:1''" "\<not> rc_addressFunc sample_queued"
      "rc_conn sample_queued = 0" "rc_closed sample_queued = []"
    by (simp_all add: sample_queued_def set_cmd_def sample_con_fields)
  have p: "pending ?c 2" "separate [2] ?c"
    by (simp_all add: pending_def separate_def x q has_room_def slot_ok_def slot_used_def) (simp add: pool_Command_def)
  show ?thesis
    using reconnect_answers_waiting [of ?c ?a 5 "[]"] p
    by (auto simp: q x IsNetClose_def cycleIsAlive_def simp del: exceptionProcess.simps netClose_fields)
qed

end
