(* ===== verification/Redis_Timeout.thy ===== *)
theory Redis_Timeout
  imports Redis_ConnFail
begin

text \<open>
  The watch for time-outs of \<open>lib/redis/redisConn.go\<close> on a connection that stands still: which periods of warnings
  lead to a reconnection.
\<close>

text \<open>Whether the watch reconnects within \<open>n\<close> checks, one each second, on a connection that does not change.\<close>

fun watch :: "nat \<Rightarrow> timeout_state \<Rightarrow> RedisCon \<Rightarrow> int \<Rightarrow> bool" where
  "watch 0 t c now = False"
| "watch (Suc n) t c now =
     (let (goes_on, reset, t1) = timeout_check t c (now + 1) in reset \<or> goes_on \<and> watch n t1 c (now + 1))"

text \<open>A connection that stands still: no reply arrives and more than a hundred commands are out.\<close>

definition stalled :: "RedisCon \<Rightarrow> timeout_state \<Rightarrow> bool" where
  "stalled c t \<longleftrightarrow> to_lastRecvId t = recvIndex c \<and> sendIndex c - recvIndex c > 100 \<and> reConTT c \<noteq> 0 \<and> 0 < warnTT c"

lemma timeout_check_stalled:
  assumes "stalled c t"
  shows "timeout_check t c now =
    (let t1 = t\<lparr>to_index := to_index t + 1\<rparr>; (reset, t2) = (if (to_index t + 1) mod warnTT c = 0 then timeout_warn t1 now else (False, t1))
     in (True, reset, t2))"
  using assms by (auto simp: timeout_check_def stalled_def Let_def)

lemma stalled_step: "stalled c t \<Longrightarrow> timeout_check t c now = (g, r, t1) \<Longrightarrow> g \<and> stalled c t1 \<and> to_index t1 = to_index t + 1"
  by (auto simp: timeout_check_def stalled_def timeout_warn_def Let_def split: if_splits prod.splits)

text \<open>
  With a long period the window of sixty seconds ends before the sixth warning: the counter never passes five, because the
  warnings of a window lie one period apart.
\<close>

definition slow_inv :: "int \<Rightarrow> int \<Rightarrow> timeout_state \<Rightarrow> int \<Rightarrow> bool" where
  "slow_inv w start t now \<longleftrightarrow> now = start + to_index t \<and> 0 \<le> to_index t \<and> to_ttTimes t \<le> 5 \<and>
     (to_ttTimes t = 0 \<and> to_ttTime t = 0 \<or>
      0 < to_ttTimes t \<and> to_ttTime t = start + w * (to_index t div w - (to_ttTimes t - 1)))"

lemma div_step:
  assumes "0 < (w :: int)"
  shows "(i + 1) mod w = 0 \<Longrightarrow> (i + 1) div w = i div w + 1 \<and> i + 1 = w * (i div w + 1)"
    and "(i + 1) mod w \<noteq> 0 \<Longrightarrow> (i + 1) div w = i div w"
proof -
  have eq: "i = w * (i div w) + i mod w" "0 \<le> i mod w" "i mod w < w" using assms by simp_all
  show "(i + 1) div w = i div w + 1 \<and> i + 1 = w * (i div w + 1)" if "(i + 1) mod w = 0"
  proof -
    have e: "i + 1 = w * ((i + 1) div w)" using that by (metis add.right_neutral mult_div_mod_eq)
    have "i mod w + 1 = w"
    proof (rule ccontr)
      assume "i mod w + 1 \<noteq> w"
      then have "(i mod w + 1) mod w = i mod w + 1" using eq by simp
      with that eq(2) show False by (metis add.commute mod_add_right_eq add_nonneg_eq_0_iff zero_le_one one_neq_zero)
    qed
    then have "i + 1 = w * (i div w) + w" using eq(1) by linarith
    then have "i + 1 = w * (i div w + 1)" by (simp add: algebra_simps)
    then show ?thesis using assms by simp
  qed
  show "(i + 1) div w = i div w" if "(i + 1) mod w \<noteq> 0"
  proof -
    have "i mod w + 1 \<noteq> w" using that eq by (metis add.commute add_diff_cancel_right' mod_add_right_eq mod_self)
    then have "i mod w + 1 < w" using eq by simp
    then show ?thesis using eq by (intro int_div_pos_eq [of _ _ _ "i mod w + 1"]) auto
  qed
qed

lemma slow_step:
  assumes "stalled c t" and "slow_inv (warnTT c) start t now" and "12 < warnTT c" and "60 < start"
    and "timeout_check t c (now + 1) = (g, r, t1)"
  shows "\<not> r \<and> slow_inv (warnTT c) start t1 (now + 1)"
proof -
  let ?w = "warnTT c" and ?i = "to_index t"
  have w: "0 < ?w" using assms(3) by simp
  show ?thesis
  proof (cases "(?i + 1) mod ?w = 0")
    case False
    then show ?thesis
      using assms div_step(2) [OF w False] by (auto simp: timeout_check_stalled [OF assms(1)] slow_inv_def)
  next
    case True
    note d = div_step(1) [OF w True]
    have now: "now + 1 = start + ?w * (?i div ?w + 1)" using assms(2) d by (auto simp: slow_inv_def)
    have c: "timeout_check t c (now + 1) = (True, timeout_warn (t\<lparr>to_index := ?i + 1\<rparr>) (now + 1))"
      using True by (simp add: timeout_check_stalled [OF assms(1)] Let_def case_prod_beta)
    show ?thesis
    proof (cases "to_ttTimes t = 0")
      case T0: True
      have "0 \<le> ?i" using assms(2) by (simp add: slow_inv_def)
      then have "now + 1 > 60" using assms(2,4) by (simp add: slow_inv_def)
      with T0 c assms(2,5) d now show ?thesis
        by (auto simp: slow_inv_def timeout_warn_def Let_def algebra_simps split: if_splits)
    next
      case F: False
      then have tt: "0 < to_ttTimes t" "to_ttTimes t \<le> 5" "to_ttTime t = start + ?w * (?i div ?w - (to_ttTimes t - 1))"
        using assms(2) by (auto simp: slow_inv_def)
      have gap: "now + 1 - to_ttTime t = ?w * to_ttTimes t"
        unfolding now tt(3) by (simp add: algebra_simps)
      have five: "60 < ?w * to_ttTimes t" if "to_ttTimes t = 5" using that assms(3) by simp
      show ?thesis
      proof (cases "60 < now + 1 - to_ttTime t")
        case True
        with c assms(2,5) d now show ?thesis
          by (auto simp: slow_inv_def timeout_warn_def Let_def algebra_simps split: if_splits)
      next
        case False
        then have "to_ttTimes t < 5" using gap five tt(2) by fastforce
        with False c assms(2,5) d tt show ?thesis
          by (auto simp: slow_inv_def timeout_warn_def Let_def algebra_simps split: if_splits)
      qed
    qed
  qed
qed

lemma slow_never:
  assumes "stalled c t" and "slow_inv (warnTT c) start t now" and "12 < warnTT c" and "60 < start"
  shows "\<not> watch n t c now"
  using assms(1,2)
proof (induction n arbitrary: t now)
  case (Suc n)
  obtain g r t1 where ch: "timeout_check t c (now + 1) = (g, r, t1)" by (metis prod_cases3)
  with Suc slow_step [OF Suc.prems assms(3,4) ch] stalled_step [OF Suc.prems(1) ch] show ?case by simp
qed simp

text \<open>With a period of at most twelve seconds six warnings fall into one window.\<close>

definition fast_inv :: "int \<Rightarrow> int \<Rightarrow> timeout_state \<Rightarrow> int \<Rightarrow> bool" where
  "fast_inv w start t now \<longleftrightarrow> now = start + to_index t \<and> 0 \<le> to_index t \<and> to_ttTimes t = to_index t div w \<and> to_ttTimes t \<le> 5 \<and>
     to_ttTime t = (if to_ttTimes t = 0 then 0 else start + w)"

lemma fast_step:
  assumes "stalled c t" and "fast_inv (warnTT c) start t now" and "warnTT c \<le> 12" and "60 < start"
    and "timeout_check t c (now + 1) = (g, r, t1)"
  shows "r \<or> fast_inv (warnTT c) start t1 (now + 1)"
proof -
  let ?w = "warnTT c" and ?i = "to_index t"
  have w: "0 < ?w" using assms(1) by (simp add: stalled_def)
  show ?thesis
  proof (cases "(?i + 1) mod ?w = 0")
    case False
    then show ?thesis
      using assms div_step(2) [OF w False] by (auto simp: timeout_check_stalled [OF assms(1)] fast_inv_def)
  next
    case True
    note d = div_step(1) [OF w True]
    have now: "now + 1 = start + ?w * (to_ttTimes t + 1)" using assms(2) d by (auto simp: fast_inv_def)
    have c: "timeout_check t c (now + 1) = (True, timeout_warn (t\<lparr>to_index := ?i + 1\<rparr>) (now + 1))"
      using True by (simp add: timeout_check_stalled [OF assms(1)] Let_def case_prod_beta)
    have q: "0 \<le> to_ttTimes t" using assms(2) w by (simp add: fast_inv_def pos_imp_zdiv_nonneg_iff)
    show ?thesis
    proof (cases "to_ttTimes t = 0")
      case T0: True
      have "now + 1 > 60" using assms(2,4) by (simp add: fast_inv_def)
      with T0 c assms(2,5) d now show ?thesis
        by (auto simp: fast_inv_def timeout_warn_def Let_def algebra_simps split: if_splits)
    next
      case False
      have "?w * to_ttTimes t \<le> 12 * 5"
        using assms(2,3) q by (intro mult_mono) (auto simp: fast_inv_def)
      then have "\<not> 60 < now + 1 - to_ttTime t"
        using False now assms(2) by (simp add: fast_inv_def algebra_simps)
      with False c assms(2,5) d q show ?thesis
        by (auto simp: fast_inv_def timeout_warn_def Let_def split: if_splits)
    qed
  qed
qed

lemma fast_resets:
  assumes "stalled c t" and "fast_inv (warnTT c) start t now" and "warnTT c \<le> 12" and "60 < start"
    and "6 * warnTT c \<le> to_index t + int n"
  shows "watch n t c now"
  using assms(1,2,5)
proof (induction n arbitrary: t now)
  case 0
  have "6 \<le> to_index t div warnTT c" using 0 zdiv_mono1 [of "6 * warnTT c" "to_index t" "warnTT c"] by (simp add: stalled_def)
  with 0 show ?case by (simp add: fast_inv_def)
next
  case (Suc n)
  obtain g r t1 where ch: "timeout_check t c (now + 1) = (g, r, t1)" by (metis prod_cases3)
  with Suc fast_step [OF Suc.prems(1,2) assms(3,4) ch] stalled_step [OF Suc.prems(1) ch] show ?case by auto
qed

text \<open>
  C33. A connection that stands still with more than a hundred commands out is reset exactly when the period of warnings
  is at most twelve seconds, and then within six periods.  With a longer period, which \<open>SetWarnTimeOut\<close> allows, the window of
  sixty seconds always ends before the sixth warning, and the watch never reconnects.  The checks are one second apart, as the timer of
  \<open>processTimeOut\<close> has them.
\<close>

theorem processTimeOut_resets_iff:
  assumes "stalled c t" and "60 < now" and "to_index t = 0" and "to_ttTimes t = 0" and "to_ttTime t = 0"
  shows "((\<exists>n. watch n t c now) \<longleftrightarrow> warnTT c \<le> 12) \<and> (warnTT c \<le> 12 \<longrightarrow> watch (6 * nat (warnTT c)) t c now)"
proof -
  have "watch (6 * nat (warnTT c)) t c now" if "warnTT c \<le> 12"
    using fast_resets [OF assms(1) _ that assms(2), of now] assms by (auto simp: fast_inv_def stalled_def)
  then show ?thesis
    using slow_never [OF assms(1) _ _ assms(2), of now] assms by (force simp: slow_inv_def)
qed

theorem processTimeOut_resets_iff_witness:
  "watch 60 \<lparr>to_lastRecvId = 0, to_index = 0, to_ttTimes = 0, to_ttTime = 0\<rparr> (sample_con\<lparr>sendIndex := 101\<rparr>) 1000 \<and>
   (\<nexists>n. watch n \<lparr>to_lastRecvId = 0, to_index = 0, to_ttTimes = 0, to_ttTime = 0\<rparr> (sample_con\<lparr>sendIndex := 101, warnTT := 13\<rparr>) 1000)"
proof -
  let ?t = "\<lparr>to_lastRecvId = 0, to_index = 0, to_ttTimes = 0, to_ttTime = 0\<rparr>"
  have w: "warnTT sample_con = 10" "reConTT sample_con = 1800"
    by (simp_all add: sample_con_def conRedis_def con_settings_def RedisCon_init_def Default_Warn_TT_def Default_Recon_TT_def)
  then have "stalled (sample_con\<lparr>sendIndex := 101\<rparr>) ?t" "stalled (sample_con\<lparr>sendIndex := 101, warnTT := 13\<rparr>) ?t"
    by (simp_all add: stalled_def sample_con_fields)
  then show ?thesis
    using processTimeOut_resets_iff [of "sample_con\<lparr>sendIndex := 101\<rparr>" ?t 1000]
      processTimeOut_resets_iff [of "sample_con\<lparr>sendIndex := 101, warnTT := 13\<rparr>" ?t 1000] w by simp
qed

end
