(* ===== verification/Redis_ConnLink.thy ===== *)
theory Redis_ConnLink
  imports Redis_ConnFail
begin

text \<open>
  The connection of \<open>lib/redis/redisConn.go\<close> at work while nothing fails: any number of callers, the goroutine that
  sends, the one that receives, and the server, in every interleaving.  The branches for a failed write, flush or
  read and the goroutines that reconnect and watch for time-outs are added in \<open>Redis_ConnNet\<close>.  A call takes an index from the pool, waits for the
  command there and fills it, and puts it into the command channel; the sender takes it, writes it, puts it
  into the channel of waiting commands and flushes; the server reads whole commands and writes whole
  replies; the receiver reads a reply, takes the next waiting command and hands the result over.

  The server is a parameter: a function from its state and the words of a command to the new state and the
  reply.
\<close>

record call =
  cl_cmd :: bytes
  cl_argNum :: int
  cl_arg1 :: iface
  cl_arg2 :: iface
  cl_arg3 :: iface
  cl_args :: "iface list option"
  cl_wait :: bool

datatype call_phase = NotYet | GotIndex nat | Packed nat | Sent

datatype sender = SIdle | STook nat | SWrote nat | SPushed nat

datatype receiver = RIdle | RReply Result | RMatched Result nat

record 's sys =
  sy_con :: RedisCon
  sy_calls :: "nat \<Rightarrow> call_phase"
  sy_sender :: sender
  sy_receiver :: receiver
  sy_srv :: 's
  sy_read :: nat
  sy_owner :: "nat \<Rightarrow> nat"
  sy_sent :: "nat list"
  sy_done :: "(nat \<times> Result) list"

text \<open>
  \<open>sy_read\<close> counts the bytes the server has read.  The last three fields record the run: which call a command of the
  pool serves, the calls in the order of the command channel, and the results in the order they were handed over.
\<close>

definition sys_init :: "nat \<Rightarrow> write_outcome list \<Rightarrow> bytes \<Rightarrow> int \<Rightarrow> int \<Rightarrow> 's \<Rightarrow> 's sys" where
  "sys_init k ws svr cmdCap waitCap s0 =
     \<lparr>sy_con = RedisCon_init (con_settings
        (the (conRedis \<lparr>at_conn = Some k, at_writes = ws, at_bytes = [], at_address = []\<rparr>)) svr cmdCap waitCap),
      sy_calls = (\<lambda>u. NotYet), sy_sender = SIdle, sy_receiver = RIdle, sy_srv = s0, sy_read = 0,
      sy_owner = (\<lambda>i. 0), sy_sent = [], sy_done = []\<rparr>"

definition call_chan :: "call \<Rightarrow> nat \<Rightarrow> nat option" where
  "call_chan q u = (if cl_wait q then Some u else None)"

inductive sys_step ::
  "go_fmt \<Rightarrow> ('s \<Rightarrow> bytes list \<Rightarrow> 's \<times> resp) \<Rightarrow> (nat \<Rightarrow> call) \<Rightarrow> 's sys \<Rightarrow> 's sys \<Rightarrow> bool"
  for L srv req where
  index: "sy_calls s u = NotYet \<Longrightarrow> cmdPool_next (rc_cmdPool (sy_con s)) = Returns (i, p) \<Longrightarrow>
    sys_step L srv req s (s\<lparr>sy_con := (if cl_wait (req u) then make_result_chan (sy_con s) u else sy_con s)\<lparr>rc_cmdPool := p\<rparr>,
      sy_calls := (sy_calls s)(u := GotIndex i)\<rparr>)"
| pack: "sy_calls s u = GotIndex i \<Longrightarrow>
    package_at (sy_con s) i now (cl_cmd (req u)) (cl_argNum (req u)) (cl_arg1 (req u)) (cl_arg2 (req u)) (cl_arg3 (req u))
      (cl_args (req u)) = Returns (Some j, c) \<Longrightarrow>
    sys_step L srv req s (s\<lparr>sy_con := count_cmd c (call_chan (req u) u) j, sy_calls := (sy_calls s)(u := Packed j),
      sy_owner := (sy_owner s)(j := u)\<rparr>)"
| enqueue: "sy_calls s u = Packed i \<Longrightarrow> enqueue_cmd (sy_con s) i = Returns c \<Longrightarrow>
    sys_step L srv req s (s\<lparr>sy_con := c, sy_calls := (sy_calls s)(u := Sent), sy_sent := sy_sent s @ [u]\<rparr>)"
| take_cmd: "sy_sender s = SIdle \<Longrightarrow> \<not> IsNetClose (sy_con s) \<Longrightarrow> chan_recv (rc_cmdChan (sy_con s)) = Returns (Some i, q) \<Longrightarrow>
    sys_step L srv req s (s\<lparr>sy_con := (sy_con s)\<lparr>rc_cmdChan := q\<rparr>, sy_sender := STook i\<rparr>)"
| write_out: "sy_sender s = STook i \<Longrightarrow> write_cmd L (sy_con s) i = (None, c) \<Longrightarrow>
    sys_step L srv req s (s\<lparr>sy_con := c, sy_sender := SWrote i\<rparr>)"
| push: "sy_sender s = SWrote i \<Longrightarrow> chan_send (rc_waitChan (sy_con s)) i = Returns q \<Longrightarrow>
    sys_step L srv req s (s\<lparr>sy_con := (sy_con s)\<lparr>rc_waitChan := q\<rparr>, sy_sender := SPushed i\<rparr>)"
| flush: "sy_sender s = SPushed i \<Longrightarrow> RedisCon_Flush (sy_con s) = (None, c) \<Longrightarrow>
    sys_step L srv req s (s\<lparr>sy_con := c, sy_sender := SIdle\<rparr>)"
| serve: "drop (sy_read s) (wr_out (net_bw (rc_net (sy_con s)))) = command_bytes ws @ rest \<Longrightarrow>
    16 * length ws \<le> maxAlloc \<Longrightarrow> \<forall>w \<in> set ws. length w \<le> maxAlloc \<Longrightarrow> srv (sy_srv s) ws = (st, r) \<Longrightarrow>
    sys_step L srv req s (s\<lparr>sy_con := (sy_con s)\<lparr>rc_br := rc_br (sy_con s) @ resp_bytes r\<rparr>, sy_srv := st,
      sy_read := sy_read s + length (command_bytes ws)\<rparr>)"
| reply: "sy_receiver s = RIdle \<Longrightarrow> \<not> IsNetClose (sy_con s) \<Longrightarrow> receive (sy_con s) = Some (r, c) \<Longrightarrow> \<not> IsNetClose c \<Longrightarrow>
    sys_step L srv req s (s\<lparr>sy_con := c, sy_receiver := RReply r\<rparr>)"
| match: "sy_receiver s = RReply r \<Longrightarrow> chan_recv (rc_waitChan (sy_con s)) = Returns (Some i, q) \<Longrightarrow>
    sys_step L srv req s (s\<lparr>sy_con := (sy_con s)\<lparr>rc_waitChan := q\<rparr>, sy_receiver := RMatched r i\<rparr>)"
| deliver: "sy_receiver s = RMatched r i \<Longrightarrow> sendResultToUser (sy_con s) r (PoolCmd i) = Returns c \<Longrightarrow>
    sys_step L srv req s (s\<lparr>sy_con := c, sy_receiver := RIdle, sy_done := sy_done s @ [(sy_owner s i, r)]\<rparr>)"
| collect: "Do_wait (sy_con s) u = Returns (x, c) \<Longrightarrow>
    sys_step L srv req s (s\<lparr>sy_con := c\<rparr>)"

section \<open>Commands in flight\<close>

text \<open>The commands between the command channel and the handing over, from the oldest on.\<close>

definition flight :: "'s sys \<Rightarrow> nat list" where
  "flight s = (case sy_receiver s of RMatched r i \<Rightarrow> [i] | _ \<Rightarrow> []) @ ch_buf (rc_waitChan (sy_con s)) @
     (case sy_sender s of STook i \<Rightarrow> [i] | SWrote i \<Rightarrow> [i] | _ \<Rightarrow> []) @ ch_buf (rc_cmdChan (sy_con s))"

definition holds_call :: "Command \<Rightarrow> call \<Rightarrow> nat \<Rightarrow> bool" where
  "holds_call x q u \<longleftrightarrow> cm_Cmd x = cl_cmd q \<and>
     command_args (cm_CmdNum x) (cm_Arg1 x) (cm_Arg2 x) (cm_Arg3 x) (cm_Args x) =
       command_args (cl_argNum q) (cl_arg1 q) (cl_arg2 q) (cl_arg3 q) (cl_args q) \<and>
     cm_ResultChan x = call_chan q u"

definition packed :: "(nat \<Rightarrow> call_phase) \<Rightarrow> nat set" where
  "packed calls = {u. \<exists>i. calls u = Packed i}"

text \<open>
  Every command in flight or about to be queued is in use for one call and holds what that call asked for; results
  go to their calls only; and the count of commands in progress is right.
\<close>

definition slots_inv ::
  "(nat \<Rightarrow> call) \<Rightarrow> Command list \<Rightarrow> nat list \<Rightarrow> (nat \<Rightarrow> call_phase) \<Rightarrow> (nat \<Rightarrow> nat) \<Rightarrow> nat list \<Rightarrow> (nat \<times> Result) list \<Rightarrow>
     (nat \<Rightarrow> Result gochan) \<Rightarrow> int \<Rightarrow> bool" where
  "slots_inv req cmds fl calls owner sent dn results n \<longleftrightarrow>
     list_all slot_ok cmds \<and> distinct fl \<and>
     (\<forall>i \<in> set fl. i < length cmds \<and> slot_used (cmds ! i) \<and> holds_call (cmds ! i) (req (owner i)) (owner i)) \<and>
     (\<forall>u i. calls u = Packed i \<longrightarrow>
        i < length cmds \<and> i \<notin> set fl \<and> slot_used (cmds ! i) \<and> owner i = u \<and> holds_call (cmds ! i) (req u) u) \<and>
     sent = map fst dn @ map owner fl \<and> distinct sent \<and> (\<forall>u. u \<in> set sent \<longleftrightarrow> calls u = Sent) \<and>
     (\<forall>u. cl_wait (req u) \<longrightarrow> calls u \<noteq> NotYet \<longrightarrow> u \<notin> fst ` set dn \<longrightarrow> results u = make_chan 1) \<and>
     (\<forall>u r. r \<in> set (ch_buf (results u)) \<longrightarrow> (u, r) \<in> set dn) \<and>
     finite (packed calls) \<and> n = int (length fl + card (packed calls))"

abbreviation con_slots :: "(nat \<Rightarrow> call) \<Rightarrow> 's sys \<Rightarrow> bool" where
  "con_slots req s \<equiv> slots_inv req (cp_cmds (rc_cmdPool (sy_con s))) (flight s) (sy_calls s) (sy_owner s) (sy_sent s) (sy_done s)
     (rc_results (sy_con s)) (waitProcessCmdNum (sy_con s))"

lemma slots_invD:
  assumes "slots_inv req cmds fl calls owner sent dn results n"
  shows "list_all slot_ok cmds" "distinct fl"
    "i \<in> set fl \<Longrightarrow> i < length cmds \<and> slot_used (cmds ! i) \<and> holds_call (cmds ! i) (req (owner i)) (owner i)"
    "calls u = Packed i \<Longrightarrow> i < length cmds \<and> i \<notin> set fl \<and> slot_used (cmds ! i) \<and> owner i = u \<and> holds_call (cmds ! i) (req u) u"
    "sent = map fst dn @ map owner fl" "distinct sent" "u \<in> set sent \<longleftrightarrow> calls u = Sent"
    "cl_wait (req u) \<Longrightarrow> calls u \<noteq> NotYet \<Longrightarrow> u \<notin> fst ` set dn \<Longrightarrow> results u = make_chan 1"
    "r \<in> set (ch_buf (results u)) \<Longrightarrow> (u, r) \<in> set dn"
    "finite (packed calls)" "n = int (length fl + card (packed calls))"
  using assms unfolding slots_inv_def by blast+

lemma slots_invI:
  assumes "list_all slot_ok cmds" "distinct fl"
    "\<And>i. i \<in> set fl \<Longrightarrow> i < length cmds \<and> slot_used (cmds ! i) \<and> holds_call (cmds ! i) (req (owner i)) (owner i)"
    "\<And>u i. calls u = Packed i \<Longrightarrow> i < length cmds \<and> i \<notin> set fl \<and> slot_used (cmds ! i) \<and> owner i = u \<and> holds_call (cmds ! i) (req u) u"
    "sent = map fst dn @ map owner fl" "distinct sent" "\<And>u. u \<in> set sent \<longleftrightarrow> calls u = Sent"
    "\<And>u. cl_wait (req u) \<Longrightarrow> calls u \<noteq> NotYet \<Longrightarrow> u \<notin> fst ` set dn \<Longrightarrow> results u = make_chan 1"
    "\<And>u r. r \<in> set (ch_buf (results u)) \<Longrightarrow> (u, r) \<in> set dn"
    "finite (packed calls)" "n = int (length fl + card (packed calls))"
  shows "slots_inv req cmds fl calls owner sent dn results n"
  using assms unfolding slots_inv_def by blast

lemma slots_inv_index:
  assumes I: "slots_inv req cmds fl calls owner sent dn results n" and u: "calls u = NotYet"
  shows "slots_inv req cmds fl (calls(u := GotIndex i)) owner sent dn
    (if cl_wait (req u) then results(u := make_chan 1) else results) n"
proof (rule slots_invI)
  have p: "packed (calls(u := GotIndex i)) = packed calls" using u by (auto simp: packed_def)
  show "finite (packed (calls(u := GotIndex i)))" "n = int (length fl + card (packed (calls(u := GotIndex i))))"
    using slots_invD(10,11) [OF I] by (simp_all add: p)
  show "v \<in> set sent \<longleftrightarrow> (calls(u := GotIndex i)) v = Sent" for v
    using slots_invD(7) [OF I, of v] u by simp
  show "(if cl_wait (req u) then results(u := make_chan 1) else results) v = make_chan 1"
    if "cl_wait (req v)" "(calls(u := GotIndex i)) v \<noteq> NotYet" "v \<notin> fst ` set dn" for v
    using slots_invD(8) [OF I that(1)] that by auto
  show "(v, r) \<in> set dn" if "r \<in> set (ch_buf ((if cl_wait (req u) then results(u := make_chan 1) else results) v))" for v r
    using slots_invD(9) [OF I, of r v] that by (auto split: if_splits)
  show "j < length cmds \<and> j \<notin> set fl \<and> slot_used (cmds ! j) \<and> owner j = v \<and> holds_call (cmds ! j) (req v) v"
    if "(calls(u := GotIndex i)) v = Packed j" for v j
    using slots_invD(4) [OF I, of v j] that by (auto split: if_splits)
qed (fact slots_invD [OF I])+

lemma slots_inv_pack:
  assumes I: "slots_inv req cmds fl calls owner sent dn results n" and u: "calls u = GotIndex i"
    and j: "j < length cmds" "\<not> slot_used (cmds ! j)" and x: "slot_ok x" "slot_used x" "holds_call x (req u) u"
  shows "slots_inv req (cmds[j := x]) fl (calls(u := Packed j)) (owner(j := u)) sent dn results (n + 1)"
proof (rule slots_invI)
  have nj: "j \<notin> set fl" "\<And>v. calls v \<noteq> Packed j" using slots_invD(3,4) [OF I] j(2) by blast+
  have p: "packed (calls(u := Packed j)) = insert u (packed calls)" "u \<notin> packed calls"
    using u by (auto simp: packed_def)
  show "list_all slot_ok (cmds[j := x])"
    using slots_invD(1) [OF I] x(1) j(1) by (auto simp: list_all_length nth_list_update)
  show "k < length (cmds[j := x]) \<and> slot_used (cmds[j := x] ! k) \<and>
      holds_call (cmds[j := x] ! k) (req ((owner(j := u)) k)) ((owner(j := u)) k)" if "k \<in> set fl" for k
    using slots_invD(3) [OF I that] that nj by (cases "k = j") auto
  show "k < length (cmds[j := x]) \<and> k \<notin> set fl \<and> slot_used (cmds[j := x] ! k) \<and> (owner(j := u)) k = v \<and>
      holds_call (cmds[j := x] ! k) (req v) v" if "(calls(u := Packed j)) v = Packed k" for v k
    using slots_invD(4) [OF I, of v k] that nj j(1) x(2,3) by (cases "v = u") auto
  show "sent = map fst dn @ map (owner(j := u)) fl" using slots_invD(5) [OF I] nj(1) by auto
  show "v \<in> set sent \<longleftrightarrow> (calls(u := Packed j)) v = Sent" for v using slots_invD(7) [OF I, of v] u by simp
  show "results v = make_chan 1" if "cl_wait (req v)" "(calls(u := Packed j)) v \<noteq> NotYet" "v \<notin> fst ` set dn" for v
    using slots_invD(8) [OF I that(1)] that u by (cases "v = u") auto
  show "finite (packed (calls(u := Packed j)))" "n + 1 = int (length fl + card (packed (calls(u := Packed j))))"
    using slots_invD(10,11) [OF I] p by simp_all
qed (fact slots_invD [OF I])+

lemma slots_inv_enqueue:
  assumes I: "slots_inv req cmds fl calls owner sent dn results n" and u: "calls u = Packed i"
  shows "slots_inv req cmds (fl @ [i]) (calls(u := Sent)) owner (sent @ [u]) dn results n"
proof (rule slots_invI)
  have i: "i < length cmds" "i \<notin> set fl" "slot_used (cmds ! i)" "owner i = u" "holds_call (cmds ! i) (req u) u"
    using slots_invD(4) [OF I u] by auto
  have p: "packed calls = insert u (packed (calls(u := Sent)))" "u \<notin> packed (calls(u := Sent))"
    using u by (auto simp: packed_def)
  have us: "u \<notin> set sent" using slots_invD(7) [OF I, of u] u by simp
  show "distinct (fl @ [i])" using slots_invD(2) [OF I] i by simp
  show "k < length cmds \<and> slot_used (cmds ! k) \<and> holds_call (cmds ! k) (req (owner k)) (owner k)" if "k \<in> set (fl @ [i])" for k
    using slots_invD(3) [OF I, of k] that i by auto
  show "k < length cmds \<and> k \<notin> set (fl @ [i]) \<and> slot_used (cmds ! k) \<and> owner k = v \<and> holds_call (cmds ! k) (req v) v"
    if "(calls(u := Sent)) v = Packed k" for v k
    using slots_invD(4) [OF I, of v k] that i(4) by (cases "v = u") auto
  show "sent @ [u] = map fst dn @ map owner (fl @ [i])" using slots_invD(5) [OF I] i(4) by simp
  show "distinct (sent @ [u])" using slots_invD(6) [OF I] us by simp
  show "v \<in> set (sent @ [u]) \<longleftrightarrow> (calls(u := Sent)) v = Sent" for v using slots_invD(7) [OF I, of v] by simp
  show "results v = make_chan 1" if "cl_wait (req v)" "(calls(u := Sent)) v \<noteq> NotYet" "v \<notin> fst ` set dn" for v
    using slots_invD(8) [OF I that(1)] that u by (cases "v = u") auto
  show "finite (packed (calls(u := Sent)))" "n = int (length (fl @ [i]) + card (packed (calls(u := Sent))))"
    using slots_invD(10,11) [OF I] p by auto
qed (fact slots_invD [OF I])+

lemma slots_inv_deliver:
  assumes I: "slots_inv req cmds (i # fl) calls owner sent dn results n"
  shows "slots_inv req (cmds[i := free_cmd (cmds ! i)]) fl calls owner sent (dn @ [(owner i, r)])
    (add_result results (cm_ResultChan (cmds ! i)) r) (n - 1)"
proof (rule slots_invI)
  have i: "i < length cmds" "i \<notin> set fl" "cm_ResultChan (cmds ! i) = call_chan (req (owner i)) (owner i)" "slot_ok (cmds ! i)"
    using slots_invD(1,2) [OF I] slots_invD(3) [OF I, of i] by (auto simp: holds_call_def list_all_length)
  have "sent = map fst dn @ owner i # map owner fl" using slots_invD(5) [OF I] by simp
  then have o: "owner i \<notin> fst ` set dn" "owner i \<in> set sent" using slots_invD(6) [OF I] by auto
  then have res: "results (owner i) = make_chan 1" if "cl_wait (req (owner i))"
    using slots_invD(8) [OF I that] slots_invD(7) [OF I, of "owner i"] by simp
  have same: "add_result results (cm_ResultChan (cmds ! i)) r u = results u" if "u \<noteq> owner i" for u
    using that by (auto simp: i(3) call_chan_def add_result_def)
  show "list_all slot_ok (cmds[i := free_cmd (cmds ! i)])"
    using slots_invD(1) [OF I] i(1,4) by (auto simp: list_all_length nth_list_update slot_ok_def free_cmd_def)
  show "distinct fl" using slots_invD(2) [OF I] by simp
  show "k < length (cmds[i := free_cmd (cmds ! i)]) \<and> slot_used (cmds[i := free_cmd (cmds ! i)] ! k) \<and>
      holds_call (cmds[i := free_cmd (cmds ! i)] ! k) (req (owner k)) (owner k)" if "k \<in> set fl" for k
    using slots_invD(3) [OF I, of k] that i(2) by (cases "k = i") auto
  show "k < length (cmds[i := free_cmd (cmds ! i)]) \<and> k \<notin> set fl \<and> slot_used (cmds[i := free_cmd (cmds ! i)] ! k) \<and> owner k = v \<and>
      holds_call (cmds[i := free_cmd (cmds ! i)] ! k) (req v) v" if "calls v = Packed k" for v k
    using slots_invD(4) [OF I that] by (cases "k = i") auto
  show "sent = map fst (dn @ [(owner i, r)]) @ map owner fl" using slots_invD(5) [OF I] by simp
  show "add_result results (cm_ResultChan (cmds ! i)) r u = make_chan 1"
    if "cl_wait (req u)" "calls u \<noteq> NotYet" "u \<notin> fst ` set (dn @ [(owner i, r)])" for u
    using slots_invD(8) [OF I that(1,2)] that(3) same by (auto simp: image_Un)
  show "(u, x) \<in> set (dn @ [(owner i, r)])" if "x \<in> set (ch_buf (add_result results (cm_ResultChan (cmds ! i)) r u))" for u x
    using that slots_invD(9) [OF I, of x u] res same by (cases "u = owner i") (auto simp: i(3) call_chan_def add_result_def split: if_splits)
  show "n - 1 = int (length fl + card (packed calls))" using slots_invD(11) [OF I] by simp
qed (fact slots_invD [OF I])+

section \<open>Bytes on the wire\<close>

definition call_args :: "call \<Rightarrow> iface list option" where
  "call_args q = command_args (cl_argNum q) (cl_arg1 q) (cl_arg2 q) (cl_arg3 q) (cl_args q)"

definition call_words :: "go_fmt \<Rightarrow> call \<Rightarrow> bytes list" where
  "call_words L q = cl_cmd q # map (arg_text L) (the (call_args q))"

text \<open>A call with a valid number of arguments whose texts Go can allocate.\<close>

definition call_ok :: "go_fmt \<Rightarrow> call \<Rightarrow> bool" where
  "call_ok L q \<longleftrightarrow> \<not> bad_array (cl_cmd q) (cl_argNum q) (cl_args q) \<and> call_args q \<noteq> None \<and>
     16 * length (call_words L q) \<le> maxAlloc \<and> (\<forall>w \<in> set (call_words L q). length w \<le> maxAlloc)"

fun srv_run :: "('s \<Rightarrow> bytes list \<Rightarrow> 's \<times> resp) \<Rightarrow> 's \<Rightarrow> bytes list list \<Rightarrow> 's \<times> resp list" where
  "srv_run srv st [] = (st, [])"
| "srv_run srv st (w # ws) = (let (st1, r) = srv st w; (st2, rs) = srv_run srv st1 ws in (st2, r # rs))"

lemma srv_run_snoc:
  "srv_run srv st (ws @ [w]) =
     (let (st1, rs) = srv_run srv st ws; (st2, r) = srv st1 w in (st2, rs @ [r]))"
  by (induction ws arbitrary: st) (auto simp: Let_def split: prod.splits)

lemma srv_run_length: "length (snd (srv_run srv st ws)) = length ws"
  by (induction ws arbitrary: st) (simp_all add: Let_def case_prod_beta)

lemma srv_run_ok:
  assumes "\<And>st w. resp_ok (snd (srv st w))"
  shows "list_all resp_ok (snd (srv_run srv st ws))"
proof (induction ws arbitrary: st)
  case (Cons w ws)
  then show ?case using assms [of st w] by (simp add: Let_def case_prod_beta)
qed simp

text \<open>What a caller gets for a reply.\<close>

definition reply_result :: "resp \<Rightarrow> Result" where
  "reply_result r = \<lparr>Data = resp_value r, Err = (case resp_value r of IError e \<Rightarrow> Some (RedisError e) | _ \<Rightarrow> None)\<rparr>"

definition wire :: "go_fmt \<Rightarrow> (nat \<Rightarrow> call) \<Rightarrow> nat list \<Rightarrow> bytes" where
  "wire L req us = concat (map (\<lambda>u. command_bytes (call_words L (req u))) us)"

text \<open>
  Of the calls queued, the first \<open>nw\<close> are written, of which the first \<open>k\<close> at least have left the buffer; the server has
  executed the first \<open>m\<close> of these, and the replies that were read are \<open>got\<close>, a prefix of its replies.
\<close>

definition bytes_inv where
  "bytes_inv L srv req s0 sent nw k out buf br st rd got \<longleftrightarrow>
     nw \<le> length sent \<and> k \<le> nw \<and> out @ buf = wire L req (take nw sent) \<and> prefix (wire L req (take k sent)) out \<and>
     (\<exists>m reps. length got \<le> m \<and> m \<le> nw \<and> prefix (wire L req (take m sent)) out \<and> rd = length (wire L req (take m sent)) \<and>
        srv_run srv s0 (map (\<lambda>u. call_words L (req u)) (take m sent)) = (st, reps) \<and>
        br = concat (map resp_bytes (drop (length got) reps)) \<and> got = map reply_result (take (length got) reps))"

lemma bytes_invE:
  assumes "bytes_inv L srv req s0 sent nw k out buf br st rd got"
  obtains m reps where "nw \<le> length sent" "k \<le> nw" "out @ buf = wire L req (take nw sent)" "prefix (wire L req (take k sent)) out"
    "length got \<le> m" "m \<le> nw" "prefix (wire L req (take m sent)) out" "rd = length (wire L req (take m sent))"
    "srv_run srv s0 (map (\<lambda>u. call_words L (req u)) (take m sent)) = (st, reps)"
    "br = concat (map resp_bytes (drop (length got) reps))" "got = map reply_result (take (length got) reps)" "length reps = m"
proof -
  from assms obtain m reps where m: "nw \<le> length sent" "k \<le> nw" "out @ buf = wire L req (take nw sent)" "prefix (wire L req (take k sent)) out"
    "length got \<le> m" "m \<le> nw" "prefix (wire L req (take m sent)) out" "rd = length (wire L req (take m sent))"
    "srv_run srv s0 (map (\<lambda>u. call_words L (req u)) (take m sent)) = (st, reps)"
    "br = concat (map resp_bytes (drop (length got) reps))" "got = map reply_result (take (length got) reps)"
    unfolding bytes_inv_def by blast
  moreover have "length reps = m"
    using srv_run_length [of srv s0 "map (\<lambda>u. call_words L (req u)) (take m sent)"] m(1,6,9) by simp
  ultimately show ?thesis by (rule that)
qed

lemma bytes_invI:
  assumes "nw \<le> length sent" "k \<le> nw" "out @ buf = wire L req (take nw sent)" "prefix (wire L req (take k sent)) out"
    "length got \<le> m" "m \<le> nw" "prefix (wire L req (take m sent)) out" "rd = length (wire L req (take m sent))"
    "srv_run srv s0 (map (\<lambda>u. call_words L (req u)) (take m sent)) = (st, reps)"
    "br = concat (map resp_bytes (drop (length got) reps))" "got = map reply_result (take (length got) reps)"
  shows "bytes_inv L srv req s0 sent nw k out buf br st rd got"
  using assms unfolding bytes_inv_def by blast

lemma wire_append: "wire L req (us @ vs) = wire L req us @ wire L req vs"
  by (simp add: wire_def)

lemma bytes_inv_enqueue:
  assumes "bytes_inv L srv req s0 sent nw k out buf br st rd got"
  shows "bytes_inv L srv req s0 (sent @ [u]) nw k out buf br st rd got"
  using assms
proof (rule bytes_invE)
  fix m reps
  assume m: "nw \<le> length sent" "k \<le> nw" "out @ buf = wire L req (take nw sent)" "prefix (wire L req (take k sent)) out"
    "length got \<le> m" "m \<le> nw" "prefix (wire L req (take m sent)) out" "rd = length (wire L req (take m sent))"
    "srv_run srv s0 (map (\<lambda>u. call_words L (req u)) (take m sent)) = (st, reps)"
    "br = concat (map resp_bytes (drop (length got) reps))" "got = map reply_result (take (length got) reps)"
  have "take i (sent @ [u]) = take i sent" if "i \<le> nw" for i using that m(1) by simp
  then show ?thesis using m by (intro bytes_invI [of _ _ _ _ _ _ _ _ m _ _ _ _ reps]) simp_all
qed

lemma bytes_inv_write:
  assumes "bytes_inv L srv req s0 sent nw k out buf br st rd got" and "nw < length sent"
    and "out' @ buf' = out @ buf @ command_bytes (call_words L (req (sent ! nw)))" and "prefix out out'"
  shows "bytes_inv L srv req s0 sent (Suc nw) k out' buf' br st rd got"
  using assms(1)
proof (rule bytes_invE)
  fix m reps
  assume m: "k \<le> nw" "out @ buf = wire L req (take nw sent)" "prefix (wire L req (take k sent)) out"
    "length got \<le> m" "m \<le> nw" "prefix (wire L req (take m sent)) out" "rd = length (wire L req (take m sent))"
    "srv_run srv s0 (map (\<lambda>u. call_words L (req u)) (take m sent)) = (st, reps)"
    "br = concat (map resp_bytes (drop (length got) reps))" "got = map reply_result (take (length got) reps)"
  have "wire L req (take (Suc nw) sent) = wire L req (take nw sent) @ command_bytes (call_words L (req (sent ! nw)))"
    using assms(2) by (simp add: take_Suc_conv_app_nth wire_append) (simp add: wire_def)
  then have w: "out' @ buf' = wire L req (take (Suc nw) sent)" using m(2) assms(3) by simp
  show ?thesis
    using m w assms(2) prefix_order.trans [OF m(3) assms(4)] prefix_order.trans [OF m(6) assms(4)]
    by (intro bytes_invI [of _ _ _ _ _ _ _ _ m _ _ _ _ reps]) simp_all
qed

lemma bytes_inv_flush:
  assumes "bytes_inv L srv req s0 sent nw k out buf br st rd got"
  shows "bytes_inv L srv req s0 sent nw nw (out @ buf) [] br st rd got"
  using assms
proof (rule bytes_invE)
  fix m reps
  assume m: "nw \<le> length sent" "out @ buf = wire L req (take nw sent)"
    "length got \<le> m" "m \<le> nw" "prefix (wire L req (take m sent)) out" "rd = length (wire L req (take m sent))"
    "srv_run srv s0 (map (\<lambda>u. call_words L (req u)) (take m sent)) = (st, reps)"
    "br = concat (map resp_bytes (drop (length got) reps))" "got = map reply_result (take (length got) reps)"
  then show ?thesis
    using prefix_prefix [OF m(5), of buf] by (intro bytes_invI [of _ _ _ _ _ _ _ _ m _ _ _ _ reps]) simp_all
qed

text \<open>What the server reads is the next command, because a command ends where its bytes end.\<close>

lemma command_bytes_unique:
  assumes "command_bytes ws @ x = command_bytes vs @ y"
    and "16 * length ws \<le> maxAlloc" and "\<forall>w \<in> set ws. length w \<le> maxAlloc"
    and "16 * length vs \<le> maxAlloc" and "\<forall>w \<in> set vs. length w \<le> maxAlloc"
  shows "ws = vs"
proof -
  let ?k = "2 * length (command_bytes ws @ x) + 1"
  have "readReply ?k (command_bytes ws @ x) = Some (Inr (IList (map IBytes ws)), x)"
    using command_bytes_read [OF assms(2,3), of x ?k] by simp
  moreover have "readReply ?k (command_bytes vs @ y) = Some (Inr (IList (map IBytes vs)), y)"
    using command_bytes_read [OF assms(4,5), of y ?k] assms(1) by simp
  ultimately have "map IBytes ws = map IBytes vs" using assms(1) by simp
  then show ?thesis by (simp add: inj_map_eq_map inj_def)
qed

lemma command_bytes_not_Nil [simp]: "command_bytes ws \<noteq> []"
  by (simp add: command_bytes_def)

lemma bytes_inv_serve:
  assumes "bytes_inv L srv req s0 sent nw k out buf br st rd got" and "\<And>u. call_ok L (req u)"
    and "drop rd out = command_bytes ws @ rest" and "16 * length ws \<le> maxAlloc" and "\<forall>w \<in> set ws. length w \<le> maxAlloc"
    and "srv st ws = (st', r)"
  shows "bytes_inv L srv req s0 sent nw k out buf (br @ resp_bytes r) st' (rd + length (command_bytes ws)) got"
proof -
  obtain m reps where m: "length got \<le> m" "m \<le> nw" "prefix (wire L req (take m sent)) out" "rd = length (wire L req (take m sent))"
      "srv_run srv s0 (map (\<lambda>u. call_words L (req u)) (take m sent)) = (st, reps)"
      "br = concat (map resp_bytes (drop (length got) reps))" "got = map reply_result (take (length got) reps)" "length reps = m"
      and n: "nw \<le> length sent" "out @ buf = wire L req (take nw sent)" "k \<le> nw" "prefix (wire L req (take k sent)) out"
    using assms(1) by (rule bytes_invE)
  have out: "out = wire L req (take m sent) @ command_bytes ws @ rest"
    using m(3,4) assms(3) by (metis append_eq_conv_conj prefix_def)
  have "take nw sent = take m sent @ take (nw - m) (drop m sent)" using m(2) by (metis le_add_diff_inverse take_add)
  with n(2) out have rest: "command_bytes ws @ rest @ buf = wire L req (take (nw - m) (drop m sent))"
    by (simp add: wire_append)
  have mn: "m < nw"
  proof (rule ccontr)
    assume "\<not> m < nw"
    then have "command_bytes ws = []" using rest by (simp add: wire_def)
    then show False by simp
  qed
  then have "take (nw - m) (drop m sent) = sent ! m # take (nw - Suc m) (drop (Suc m) sent)"
    using n(1) by (simp add: take_Cons' Cons_nth_drop_Suc [symmetric])
  with rest have "command_bytes ws @ rest @ buf =
      command_bytes (call_words L (req (sent ! m))) @ wire L req (take (nw - Suc m) (drop (Suc m) sent))"
    by (simp add: wire_def)
  from command_bytes_unique [OF this assms(4,5)] assms(2) [of "sent ! m"] have ws: "ws = call_words L (req (sent ! m))"
    by (simp add: call_ok_def)
  have tk: "take (Suc m) sent = take m sent @ [sent ! m]" using mn n(1) by (simp add: take_Suc_conv_app_nth)
  have wm: "wire L req (take (Suc m) sent) = wire L req (take m sent) @ command_bytes ws"
    unfolding tk wire_append by (simp add: wire_def ws)
  have run: "srv_run srv s0 (map (\<lambda>u. call_words L (req u)) (take (Suc m) sent)) = (st', reps @ [r])"
    using m(5) assms(6) by (simp add: tk srv_run_snoc ws)
  have "Suc m \<le> nw" "length got \<le> Suc m" using mn m(1) by auto
  moreover have "prefix (wire L req (take (Suc m) sent)) out" unfolding wm out by simp
  moreover have "rd + length (command_bytes ws) = length (wire L req (take (Suc m) sent))" unfolding wm m(4) by simp
  moreover have "br @ resp_bytes r = concat (map resp_bytes (drop (length got) (reps @ [r])))" using m(1,6,8) by simp
  moreover have "got = map reply_result (take (length got) (reps @ [r]))" using m(1,7,8) by simp
  ultimately show ?thesis using n run by (intro bytes_invI [of _ _ _ _ _ _ _ _ "Suc m" _ _ _ _ "reps @ [r]"])
qed

text \<open>A reply that is read is the next one.\<close>

lemma bytes_inv_reply:
  assumes "bytes_inv L srv req s0 sent nw k out buf br st rd got" and "\<And>st w. resp_ok (snd (srv st w))"
    and "readReply (2 * length br + 1) br = Some (Inr v, br')"
  shows "bytes_inv L srv req s0 sent nw k out buf br' st rd
    (got @ [\<lparr>Data = v, Err = (case v of IError e \<Rightarrow> Some (RedisError e) | _ \<Rightarrow> None)\<rparr>])"
proof -
  obtain m reps where m: "length got \<le> m" "m \<le> nw" "prefix (wire L req (take m sent)) out" "rd = length (wire L req (take m sent))"
      "srv_run srv s0 (map (\<lambda>u. call_words L (req u)) (take m sent)) = (st, reps)"
      "br = concat (map resp_bytes (drop (length got) reps))" "got = map reply_result (take (length got) reps)" "length reps = m"
      and n: "nw \<le> length sent" "out @ buf = wire L req (take nw sent)" "k \<le> nw" "prefix (wire L req (take k sent)) out"
    using assms(1) by (rule bytes_invE)
  have "br \<noteq> []" using assms(3) by (auto simp: readReply.simps(2) [of 0] readHead_def readLine_def ReadSlice_def bufio_size_def Let_def)
  then have lt: "length got < length reps" using m(6) by (cases "length got < length reps") auto
  let ?r = "reps ! length got"
  have br: "br = resp_bytes ?r @ concat (map resp_bytes (drop (Suc (length got)) reps))"
    using m(6) lt by (simp add: Cons_nth_drop_Suc [symmetric])
  have "resp_ok ?r" using srv_run_ok [of srv s0, OF assms(2)] m(5) lt by (metis list_all_length snd_conv)
  from readReply_resp [OF this] obtain k' where
    "readReply k' br = Some (Inr (resp_value ?r), concat (map resp_bytes (drop (Suc (length got)) reps)))"
    using br by metis
  from readReply_enough [OF this order_refl] assms(3)
  have v: "v = resp_value ?r" "br' = concat (map resp_bytes (drop (Suc (length got)) reps))" by auto
  let ?got = "got @ [reply_result ?r]"
  have "?got = map reply_result (take (length ?got) reps)"
    using m(7) lt by (simp add: take_Suc_conv_app_nth)
  moreover have "length ?got \<le> m" using lt m(8) by simp
  moreover have "br' = concat (map resp_bytes (drop (length ?got) reps))" using v by simp
  ultimately have "bytes_inv L srv req s0 sent nw k out buf br' st rd ?got"
    using n m(2-5) by (intro bytes_invI [of _ _ _ _ _ _ _ _ m _ _ _ _ reps])
  then show ?thesis by (simp add: v(1) reply_result_def)
qed

section \<open>The invariant of the whole\<close>

definition con_open :: "RedisCon \<Rightarrow> bool" where
  "con_open c \<longleftrightarrow> NetStatus c = NetOpen \<and> \<not> ch_closed (rc_cmdChan c) \<and> \<not> ch_closed (rc_waitChan c) \<and> 0 < ch_cap (rc_waitChan c) \<and>
     length (lenScratch (rc_net c)) = 32 \<and> \<not> wr_err (net_bw (rc_net c))"

text \<open>How many calls are written, how many of these are flushed for certain, and the results read so far.\<close>

definition n_written :: "'s sys \<Rightarrow> nat" where
  "n_written s = length (sy_done s) + (case sy_receiver s of RMatched r i \<Rightarrow> 1 | _ \<Rightarrow> 0) +
     length (ch_buf (rc_waitChan (sy_con s))) + (case sy_sender s of SWrote i \<Rightarrow> 1 | _ \<Rightarrow> 0)"

definition n_unflushed :: "'s sys \<Rightarrow> nat" where
  "n_unflushed s = (case sy_sender s of SWrote i \<Rightarrow> 1 | SPushed i \<Rightarrow> 1 | _ \<Rightarrow> 0)"

definition results_read :: "'s sys \<Rightarrow> Result list" where
  "results_read s = map snd (sy_done s) @ (case sy_receiver s of RIdle \<Rightarrow> [] | RReply r \<Rightarrow> [r] | RMatched r i \<Rightarrow> [r])"

definition con_bytes where
  "con_bytes L srv req s0 s \<longleftrightarrow>
     bytes_inv L srv req s0 (sy_sent s) (n_written s) (n_written s - n_unflushed s)
       (wr_out (net_bw (rc_net (sy_con s)))) (wr_buf (net_bw (rc_net (sy_con s)))) (rc_br (sy_con s)) (sy_srv s) (sy_read s) (results_read s)"

definition sys_inv where
  "sys_inv L srv req s0 s \<longleftrightarrow> con_open (sy_con s) \<and> con_slots req s \<and> con_bytes L srv req s0 s"

lemma sys_inv_init: "sys_inv L srv req s0 (sys_init k ws svr cmdCap waitCap s0)"
proof -
  have "slots_inv req (replicate n pool_Command) [] (\<lambda>u. NotYet) (\<lambda>i. 0) [] [] (\<lambda>k. make_chan 0) 0" for n
    by (rule slots_invI) (auto simp: packed_def list_all_length slot_ok_def pool_Command_def)
  moreover have "bytes_inv L srv req s0 [] 0 0 [] [] [] s0 0 []"
    by (rule bytes_invI [of _ _ _ _ _ _ _ _ 0 _ _ _ _ "[]"]) (simp_all add: wire_def)
  ultimately show ?thesis
    by (simp add: sys_inv_def sys_init_def con_open_def conRedis_def con_settings_def RedisCon_init_def NewCmdPool_def Let_def
        flight_def con_bytes_def n_written_def n_unflushed_def results_read_def NewWriter_def defaultWaitChCap_def)
qed

text \<open>The steps that only move a command from one stage to the next.\<close>

lemma take_cmd_inv:
  assumes "sys_inv L srv req s0 s" and "sy_sender s = SIdle" and "chan_recv (rc_cmdChan (sy_con s)) = Returns (Some i, q)"
  shows "sys_inv L srv req s0 (s\<lparr>sy_con := (sy_con s)\<lparr>rc_cmdChan := q\<rparr>, sy_sender := STook i\<rparr>)"
proof -
  obtain js where "ch_buf (rc_cmdChan (sy_con s)) = i # js" "q = (rc_cmdChan (sy_con s))\<lparr>ch_buf := js\<rparr>"
    using assms(3) by (auto simp: chan_recv_def split: list.splits if_splits)
  then show ?thesis
    using assms(1,2) by (simp add: sys_inv_def con_open_def flight_def con_bytes_def n_written_def n_unflushed_def results_read_def)
qed

lemma push_inv:
  assumes "sys_inv L srv req s0 s" and "sy_sender s = SWrote i" and "chan_send (rc_waitChan (sy_con s)) i = Returns q"
  shows "sys_inv L srv req s0 (s\<lparr>sy_con := (sy_con s)\<lparr>rc_waitChan := q\<rparr>, sy_sender := SPushed i\<rparr>)"
proof -
  have "q = (rc_waitChan (sy_con s))\<lparr>ch_buf := ch_buf (rc_waitChan (sy_con s)) @ [i]\<rparr>"
    using assms(3) by (auto simp: chan_send_def split: if_splits)
  then show ?thesis
    using assms(1,2) by (simp add: sys_inv_def con_open_def flight_def con_bytes_def n_written_def n_unflushed_def results_read_def)
qed

lemma match_inv:
  assumes "sys_inv L srv req s0 s" and "sy_receiver s = RReply r" and "chan_recv (rc_waitChan (sy_con s)) = Returns (Some i, q)"
  shows "sys_inv L srv req s0 (s\<lparr>sy_con := (sy_con s)\<lparr>rc_waitChan := q\<rparr>, sy_receiver := RMatched r i\<rparr>)"
proof -
  obtain js where "ch_buf (rc_waitChan (sy_con s)) = i # js" "q = (rc_waitChan (sy_con s))\<lparr>ch_buf := js\<rparr>"
    using assms(3) by (auto simp: chan_recv_def split: list.splits if_splits)
  then show ?thesis
    using assms(1,2) by (simp add: sys_inv_def con_open_def flight_def con_bytes_def n_written_def n_unflushed_def results_read_def)
qed

text \<open>The steps of a caller.\<close>

lemma index_inv:
  assumes "sys_inv L srv req s0 s" and "sy_calls s u = NotYet" and "cmdPool_next (rc_cmdPool (sy_con s)) = Returns (i, p)"
  shows "sys_inv L srv req s0 (s\<lparr>sy_con := (if cl_wait (req u) then make_result_chan (sy_con s) u else sy_con s)\<lparr>rc_cmdPool := p\<rparr>,
      sy_calls := (sy_calls s)(u := GotIndex i)\<rparr>)"
proof -
  have I: "con_slots req s" using assms(1) by (simp add: sys_inv_def)
  show ?thesis
    using assms(1) slots_inv_index [OF I assms(2), of i] cmdPool_next_inv(1) [OF assms(3)]
    by (auto simp: sys_inv_def con_open_def flight_def con_bytes_def n_written_def n_unflushed_def results_read_def make_result_chan_def)
qed

lemma fill_holds:
  assumes "fill_Command x now (cl_cmd q) (cl_argNum q) (cl_arg1 q) (cl_arg2 q) (cl_arg3 q) (cl_args q) = Some y"
  shows "holds_call (y\<lparr>cm_ResultChan := call_chan q u\<rparr>) q u"
    and "cm_isUsed y = cm_isUsed x" "cm_useChan y = cm_useChan x" "cm_bPoolCmd y = cm_bPoolCmd x"
  using assms by (auto simp: fill_Command_def holds_call_def command_args_def ARGSNUMARRAY_def ARGSKEY_def Let_def split: if_splits)

lemma pack_inv:
  assumes "sys_inv L srv req s0 s" and "sy_calls s u = GotIndex i"
    and "package_at (sy_con s) i now (cl_cmd (req u)) (cl_argNum (req u)) (cl_arg1 (req u)) (cl_arg2 (req u)) (cl_arg3 (req u))
      (cl_args (req u)) = Returns (Some j, c)"
  shows "sys_inv L srv req s0 (s\<lparr>sy_con := count_cmd c (call_chan (req u) u) j, sy_calls := (sy_calls s)(u := Packed j),
      sy_owner := (sy_owner s)(j := u)\<rparr>)"
proof -
  let ?cmds = "cp_cmds (rc_cmdPool (sy_con s))"
  define x where "x = (?cmds ! i)\<lparr>cm_useChan := cm_useChan (?cmds ! i) - 1, cm_isUsed := CmdUsed, cm_cmdIndex := sendIndex (sy_con s) + 1\<rparr>"
  from assms(3) obtain y where y: "i < length ?cmds" "cm_useChan (?cmds ! i) \<noteq> 0" "j = i"
    "fill_Command x now (cl_cmd (req u)) (cl_argNum (req u)) (cl_arg1 (req u)) (cl_arg2 (req u)) (cl_arg3 (req u)) (cl_args (req u)) = Some y"
    "c = (sy_con s)\<lparr>rc_cmdPool := (rc_cmdPool (sy_con s))\<lparr>cp_cmds := ?cmds[i := y]\<rparr>, sendIndex := sendIndex (sy_con s) + 1\<rparr>"
    by (auto simp: package_at_def cmdPool_take_def outcome_bind_eq_Returns Let_def x_def set_cmd_def split: if_splits option.splits prod.splits)
  have I: "con_slots req s" using assms(1) by (simp add: sys_inv_def)
  have ok: "slot_ok (?cmds ! i)" using slots_invD(1) [OF I] y(1) by (simp add: list_all_length)
  let ?y = "y\<lparr>cm_ResultChan := call_chan (req u) u\<rparr>"
  have "slot_ok ?y" "slot_used ?y" "\<not> slot_used (?cmds ! i)"
    using ok y(2) fill_holds(2-4) [OF y(4)] slot_ok_cases [OF ok] by (auto simp: slot_ok_def slot_used_def x_def)
  with slots_inv_pack [OF I assms(2) y(1) _ _ _ fill_holds(1) [OF y(4)]]
  have "slots_inv req (?cmds[i := ?y]) (flight s) ((sy_calls s)(u := Packed i)) ((sy_owner s)(i := u)) (sy_sent s) (sy_done s)
    (rc_results (sy_con s)) (waitProcessCmdNum (sy_con s) + 1)" by blast
  then show ?thesis
    using assms(1) y(1,3,5)
    by (simp add: sys_inv_def con_open_def flight_def con_bytes_def n_written_def n_unflushed_def results_read_def count_cmd_def set_cmd_def Let_def)
qed

lemma enqueue_inv:
  assumes "sys_inv L srv req s0 s" and "sy_calls s u = Packed i" and "enqueue_cmd (sy_con s) i = Returns c"
  shows "sys_inv L srv req s0 (s\<lparr>sy_con := c, sy_calls := (sy_calls s)(u := Sent), sy_sent := sy_sent s @ [u]\<rparr>)"
proof -
  have o: "\<not> ch_closed (rc_cmdChan (sy_con s))" using assms(1) by (simp add: sys_inv_def con_open_def)
  then have c: "c = (sy_con s)\<lparr>rc_cmdChan := (rc_cmdChan (sy_con s))\<lparr>ch_buf := ch_buf (rc_cmdChan (sy_con s)) @ [i]\<rparr>\<rparr>"
    using assms(3) by (auto simp: enqueue_cmd_def chan_send_def split: if_splits)
  have I: "con_slots req s" using assms(1) by (simp add: sys_inv_def)
  show ?thesis
    using assms(1) slots_inv_enqueue [OF I assms(2)] unfolding c
    by (simp add: sys_inv_def con_open_def flight_def con_bytes_def n_written_def n_unflushed_def results_read_def bytes_inv_enqueue)
qed

text \<open>The sender.\<close>

lemmas sys_simps = sys_inv_def con_open_def flight_def con_bytes_def n_written_def n_unflushed_def results_read_def

lemma write_cmd_bytes:
  assumes "holds_call (cp_cmds (rc_cmdPool c) ! i) q u" and "call_ok L q" and "con_open c" and "write_cmd L c i = (None, c')"
  shows "\<exists>n. c' = c\<lparr>rc_net := n\<rparr> \<and> length (lenScratch n) = 32 \<and> \<not> wr_err (net_bw n) \<and>
    wr_out (net_bw n) @ wr_buf (net_bw n) = wr_out (net_bw (rc_net c)) @ wr_buf (net_bw (rc_net c)) @ command_bytes (call_words L q) \<and>
    prefix (wr_out (net_bw (rc_net c))) (wr_out (net_bw n))"
proof -
  let ?x = "cp_cmds (rc_cmdPool c) ! i"
  obtain as where as: "call_args q = Some as" using assms(2) by (auto simp: call_ok_def)
  have a: "command_args (cm_CmdNum ?x) (cm_Arg1 ?x) (cm_Arg2 ?x) (cm_Arg3 ?x) (cm_Args ?x) = Some as" "cm_Cmd ?x = cl_cmd q"
    using assms(1) as by (simp_all add: holds_call_def call_args_def)
  have w: "call_words L q = cl_cmd q # map (arg_text L) as" by (simp add: call_words_def as)
  have "16 * (length as + 1) \<le> maxAlloc" "length (cl_cmd q) \<le> maxAlloc" "\<forall>arg \<in> set as. length (arg_text L arg) \<le> maxAlloc"
    using assms(2) by (auto simp: call_ok_def w)
  then have "length as + 1 < 2 ^ 63" "length (cl_cmd q) < 2 ^ 63" "\<forall>arg \<in> set as. length (arg_text L arg) < 2 ^ 63"
    by (auto simp: maxAlloc_def)
  then obtain n where n: "writeCommand L (rc_net c) (cm_CmdNum ?x) (cm_Cmd ?x) (cm_Arg1 ?x) (cm_Arg2 ?x) (cm_Arg3 ?x) (cm_Args ?x) = (n, werr n)"
      "wrote (rc_net c) (command_bytes (call_words L q)) n"
    using writeCommand_wrote [OF _ _ a(1), of "rc_net c" "cl_cmd q" L] assms(3) by (auto simp: con_open_def w a(2))
  with assms(3,4) show ?thesis
    by (auto simp: write_cmd_def Let_def werr_def wrote_def written_def con_open_def split: if_splits)
qed

lemma write_out_inv:
  assumes "sys_inv L srv req s0 s" and "\<And>u. call_ok L (req u)" and "sy_sender s = STook i" and "write_cmd L (sy_con s) i = (None, c)"
  shows "sys_inv L srv req s0 (s\<lparr>sy_con := c, sy_sender := SWrote i\<rparr>)"
proof -
  have I: "con_slots req s" and O: "con_open (sy_con s)" and B: "con_bytes L srv req s0 s"
    using assms(1) by (simp_all add: sys_inv_def)
  have i: "i \<in> set (flight s)" using assms(3) by (simp add: flight_def)
  obtain n where n: "c = (sy_con s)\<lparr>rc_net := n\<rparr>" "length (lenScratch n) = 32" "\<not> wr_err (net_bw n)"
      "wr_out (net_bw n) @ wr_buf (net_bw n) = wr_out (net_bw (rc_net (sy_con s))) @ wr_buf (net_bw (rc_net (sy_con s))) @
         command_bytes (call_words L (req (sy_owner s i)))"
      "prefix (wr_out (net_bw (rc_net (sy_con s)))) (wr_out (net_bw n))"
    using write_cmd_bytes [OF _ assms(2) O assms(4)] slots_invD(3) [OF I i] by blast
  have sent: "n_written s < length (sy_sent s)" "sy_sent s ! n_written s = sy_owner s i"
    unfolding slots_invD(5) [OF I] using assms(3)
    by (auto simp: flight_def n_written_def nth_append split: receiver.splits)
  have "n_unflushed s = 0" using assms(3) by (simp add: n_unflushed_def)
  then have "bytes_inv L srv req s0 (sy_sent s) (Suc (n_written s)) (n_written s) (wr_out (net_bw n)) (wr_buf (net_bw n))
      (rc_br (sy_con s)) (sy_srv s) (sy_read s) (results_read s)"
    using bytes_inv_write [OF B [unfolded con_bytes_def] sent(1)] n(4,5) sent(2) by simp
  then show ?thesis
    using assms(1,3) n(1-3) by (simp add: sys_simps)
qed

lemma flush_inv:
  assumes "sys_inv L srv req s0 s" and "sy_sender s = SPushed i" and "RedisCon_Flush (sy_con s) = (None, c)"
  shows "sys_inv L srv req s0 (s\<lparr>sy_con := c, sy_sender := SIdle\<rparr>)"
proof -
  let ?b = "net_bw (rc_net (sy_con s))"
  have O: "\<not> wr_err ?b" and B: "con_bytes L srv req s0 s" using assms(1) by (simp_all add: sys_inv_def con_open_def)
  have e: "\<not> wr_err (Writer_Flush ?b)" "c = (sy_con s)\<lparr>rc_net := (rc_net (sy_con s))\<lparr>net_bw := Writer_Flush ?b\<rparr>\<rparr>"
    using assms(3) by (auto simp: RedisCon_Flush_def Let_def split: if_splits)
  have f: "wr_out (Writer_Flush ?b) = wr_out ?b @ wr_buf ?b" "wr_buf (Writer_Flush ?b) = []"
    using Flush_spec [OF O] e(1) by simp_all
  show ?thesis
    using assms(1,2) bytes_inv_flush [OF B [unfolded con_bytes_def]] e f by (simp add: sys_simps)
qed

text \<open>The server and the receiver.\<close>

lemma serve_inv:
  assumes "sys_inv L srv req s0 s" and "\<And>u. call_ok L (req u)"
    and "drop (sy_read s) (wr_out (net_bw (rc_net (sy_con s)))) = command_bytes ws @ rest"
    and "16 * length ws \<le> maxAlloc" and "\<forall>w \<in> set ws. length w \<le> maxAlloc" and "srv (sy_srv s) ws = (st, r)"
  shows "sys_inv L srv req s0 (s\<lparr>sy_con := (sy_con s)\<lparr>rc_br := rc_br (sy_con s) @ resp_bytes r\<rparr>, sy_srv := st,
      sy_read := sy_read s + length (command_bytes ws)\<rparr>)"
proof -
  have B: "con_bytes L srv req s0 s" using assms(1) by (simp add: sys_inv_def)
  show ?thesis
    using assms(1) bytes_inv_serve [OF B [unfolded con_bytes_def] assms(2-6)] by (simp add: sys_simps)
qed

lemma reply_inv:
  assumes "sys_inv L srv req s0 s" and "\<And>st w. resp_ok (snd (srv st w))"
    and "sy_receiver s = RIdle" and "receive (sy_con s) = Some (r, c)" and "\<not> IsNetClose c"
  shows "sys_inv L srv req s0 (s\<lparr>sy_con := c, sy_receiver := RReply r\<rparr>)"
proof -
  have B: "con_bytes L srv req s0 s" and O: "NetStatus (sy_con s) = NetOpen" using assms(1) by (simp_all add: sys_inv_def con_open_def)
  let ?br = "rc_br (sy_con s)"
  obtain x br' where x: "readReply (2 * length ?br + 1) ?br = Some (x, br')"
    using assms(4) by (auto simp: receive_def split: option.splits)
  have "\<exists>v. x = Inr v"
    using assms(4,5) x O by (cases x) (auto simp: receive_def IsNetClose_def)
  then obtain v where v: "x = Inr v" by blast
  have c: "c = (sy_con s)\<lparr>rc_br := br'\<rparr>" "r = \<lparr>Data = v, Err = (case v of IError e \<Rightarrow> Some (RedisError e) | _ \<Rightarrow> None)\<rparr>"
    using assms(4) x v by (auto simp: receive_def)
  have "bytes_inv L srv req s0 (sy_sent s) (n_written s) (n_written s - n_unflushed s) (wr_out (net_bw (rc_net (sy_con s))))
      (wr_buf (net_bw (rc_net (sy_con s)))) br' (sy_srv s) (sy_read s) (results_read s @ [r])"
    using bytes_inv_reply [OF B [unfolded con_bytes_def] assms(2)] x v unfolding c(2) by blast
  then show ?thesis
    using assms(1,3) unfolding c(1) by (simp add: sys_simps)
qed

lemma flight_pending:
  assumes "sys_inv L srv req s0 s" and "sy_receiver s = RMatched r i"
  shows "pending (sy_con s) i"
proof -
  have I: "con_slots req s" using assms(1) by (simp add: sys_inv_def)
  let ?u = "sy_owner s i"
  have i: "i \<in> set (flight s)" using assms(2) by (simp add: flight_def)
  note h = slots_invD(3) [OF I i]
  have "sy_sent s = map fst (sy_done s) @ ?u # map (sy_owner s) (tl (flight s))"
    using slots_invD(5) [OF I] assms(2) by (simp add: flight_def)
  then have u: "?u \<notin> fst ` set (sy_done s)" "?u \<in> set (sy_sent s)" using slots_invD(6) [OF I] by auto
  then have "sy_calls s ?u \<noteq> NotYet" using slots_invD(7) [OF I, of ?u] by auto
  then have "rc_results (sy_con s) ?u = make_chan 1" if "cl_wait (req ?u)" using slots_invD(8) [OF I that] u(1) by blast
  then show ?thesis
    using h slots_invD(1) [OF I] by (auto simp: pending_def holds_call_def call_chan_def has_room_def list_all_length split: if_splits)
qed

lemma deliver_inv:
  assumes "sys_inv L srv req s0 s" and "sy_receiver s = RMatched r i" and "sendResultToUser (sy_con s) r (PoolCmd i) = Returns c"
  shows "sys_inv L srv req s0 (s\<lparr>sy_con := c, sy_receiver := RIdle, sy_done := sy_done s @ [(sy_owner s i, r)]\<rparr>)"
proof -
  have c: "c = settle (sy_con s) i r" using assms(3) sendResultToUser_settle [OF flight_pending [OF assms(1,2)]] by simp
  have I: "slots_inv req (cp_cmds (rc_cmdPool (sy_con s))) (i # tl (flight s)) (sy_calls s) (sy_owner s) (sy_sent s) (sy_done s)
     (rc_results (sy_con s)) (waitProcessCmdNum (sy_con s))"
    using assms(1,2) by (simp add: sys_inv_def flight_def)
  show ?thesis
    using assms(1,2) slots_inv_deliver [OF I, of r] unfolding c by (simp add: sys_simps)
qed

lemma collect_inv:
  assumes "sys_inv L srv req s0 s" and "Do_wait (sy_con s) u = Returns (x, c)"
  shows "sys_inv L srv req s0 (s\<lparr>sy_con := c\<rparr>)"
proof -
  have I: "con_slots req s" using assms(1) by (simp add: sys_inv_def)
  let ?ch = "rc_results (sy_con s) u"
  obtain r rs where r: "ch_buf ?ch = r # rs" "c = (sy_con s)\<lparr>rc_results := (rc_results (sy_con s))(u := ?ch\<lparr>ch_buf := rs\<rparr>)\<rparr>"
    using assms(2) by (auto simp: Do_wait_def chan_recv_def outcome_bind_eq_Returns split: list.splits if_splits)
  have dn: "u \<in> fst ` set (sy_done s)" using slots_invD(9) [OF I, of r u] r(1) by force
  have "slots_inv req (cp_cmds (rc_cmdPool (sy_con s))) (flight s) (sy_calls s) (sy_owner s) (sy_sent s) (sy_done s)
     ((rc_results (sy_con s))(u := ?ch\<lparr>ch_buf := rs\<rparr>)) (waitProcessCmdNum (sy_con s))"
  proof (rule slots_invI)
    show "((rc_results (sy_con s))(u := ?ch\<lparr>ch_buf := rs\<rparr>)) v = make_chan 1"
      if "cl_wait (req v)" "sy_calls s v \<noteq> NotYet" "v \<notin> fst ` set (sy_done s)" for v
      using slots_invD(8) [OF I that] that(3) dn by auto
    show "(v, x) \<in> set (sy_done s)" if "x \<in> set (ch_buf (((rc_results (sy_con s))(u := ?ch\<lparr>ch_buf := rs\<rparr>)) v))" for v x
      using that slots_invD(9) [OF I, of x v] r(1) by (cases "v = u") auto
  qed (fact slots_invD [OF I])+
  then show ?thesis using assms(1) unfolding r(2) by (simp add: sys_simps)
qed

lemma sys_step_inv:
  assumes "sys_step L srv req s s'" and "sys_inv L srv req s0 s"
    and "\<And>u. call_ok L (req u)" and "\<And>st w. resp_ok (snd (srv st w))"
  shows "sys_inv L srv req s0 s'"
  using assms(1)
proof cases
  case index then show ?thesis using index_inv [OF assms(2)] by blast
next
  case pack then show ?thesis using pack_inv [OF assms(2)] by blast
next
  case enqueue then show ?thesis using enqueue_inv [OF assms(2)] by blast
next
  case take_cmd then show ?thesis using take_cmd_inv [OF assms(2)] by blast
next
  case write_out then show ?thesis using write_out_inv [OF assms(2,3)] by blast
next
  case push then show ?thesis using push_inv [OF assms(2)] by blast
next
  case flush then show ?thesis using flush_inv [OF assms(2)] by blast
next
  case serve then show ?thesis using serve_inv [OF assms(2,3)] by blast
next
  case reply then show ?thesis using reply_inv [OF assms(2,4)] by blast
next
  case match then show ?thesis using match_inv [OF assms(2)] by blast
next
  case deliver then show ?thesis using deliver_inv [OF assms(2)] by blast
next
  case collect then show ?thesis using collect_inv [OF assms(2)] by blast
qed

end
