(* ===== verification/Redis_ConnOrder.thy ===== *)
theory Redis_ConnOrder
  imports Redis_ConnLink
begin

text \<open>
  What the interleaving of \<open>Redis_ConnLink\<close> gives: the results are the replies in order, and the goroutines bring every
  queued command to its result.
\<close>

lemma reachable_inv:
  assumes "(sys_step L srv req)\<^sup>*\<^sup>* (sys_init k ws svr cmdCap waitCap s0) s"
    and "\<And>u. call_ok L (req u)" and "\<And>st w. resp_ok (snd (srv st w))"
  shows "sys_inv L srv req s0 s"
  using assms(1)
proof (induction rule: rtranclp_induct)
  case base
  show ?case by (rule sys_inv_init)
next
  case (step y z)
  show ?case by (rule sys_step_inv [OF step(2,3) assms(2,3)])
qed

lemma srv_run_take: "snd (srv_run srv st (take n ws)) = take n (snd (srv_run srv st ws))"
proof (induction ws arbitrary: st n)
  case (Cons w ws)
  then show ?case by (cases n) (simp_all add: Let_def case_prod_beta)
qed simp

text \<open>
  What the invariant says of the results: those handed over so far are, call by call in the order of the command
  channel, the replies of the server, and a result that lies in a channel was handed to its caller.
\<close>

lemma inv_replies:
  assumes "sys_inv L srv req s0 s"
  shows "map fst (sy_done s) = take (length (sy_done s)) (sy_sent s) \<and> distinct (sy_sent s) \<and>
    map snd (sy_done s) = map reply_result
      (snd (srv_run srv s0 (map (\<lambda>u. call_words L (req u)) (take (length (sy_done s)) (sy_sent s))))) \<and>
    (\<forall>u r. r \<in> set (ch_buf (rc_results (sy_con s) u)) \<longrightarrow> (u, r) \<in> set (sy_done s))"
proof -
  from assms have I: "con_slots req s" and B: "con_bytes L srv req s0 s" by (simp_all add: sys_inv_def)
  let ?n = "length (sy_done s)"
  from B [unfolded con_bytes_def] obtain m reps where m: "length (results_read s) \<le> m"
      "srv_run srv s0 (map (\<lambda>u. call_words L (req u)) (take m (sy_sent s))) = (sy_srv s, reps)"
      "results_read s = map reply_result (take (length (results_read s)) reps)"
    by (rule bytes_invE)
  have n: "?n \<le> length (results_read s)" "take ?n (results_read s) = map snd (sy_done s)"
    by (simp_all add: results_read_def)
  have "map snd (sy_done s) = map reply_result (take ?n reps)"
    using n m(3) by (metis min.absorb2 take_map take_take min.commute)
  moreover have "take ?n reps = snd (srv_run srv s0 (map (\<lambda>u. call_words L (req u)) (take ?n (sy_sent s))))"
    using srv_run_take [of srv s0 ?n "map (\<lambda>u. call_words L (req u)) (take m (sy_sent s))"] m(1,2) n(1)
    by (simp add: take_map min_def)
  moreover have "map fst (sy_done s) = take ?n (sy_sent s)" unfolding slots_invD(5) [OF I] by simp
  ultimately show ?thesis using slots_invD(6,9) [OF I] by simp
qed

section \<open>Progress\<close>

text \<open>The connection refuses what the sender writes.\<close>

definition refused :: "go_fmt \<Rightarrow> 's sys \<Rightarrow> bool" where
  "refused L s \<longleftrightarrow> (case sy_sender s of
     STook i \<Rightarrow> fst (write_cmd L (sy_con s) i) \<noteq> None
   | SPushed i \<Rightarrow> fst (RedisCon_Flush (sy_con s)) \<noteq> None
   | _ \<Rightarrow> False)"

text \<open>The work that is left for the goroutines and the server: takes, writes, pushes, flushes, bytes to serve, replies, matches and deliveries.\<close>

definition sender_work :: "sender \<Rightarrow> nat" where
  "sender_work x = (case x of SIdle \<Rightarrow> 0 | STook i \<Rightarrow> 3 | SWrote i \<Rightarrow> 2 | SPushed i \<Rightarrow> 1)"

definition receiver_work :: "receiver \<Rightarrow> nat" where
  "receiver_work x = (case x of RIdle \<Rightarrow> 0 | RReply r \<Rightarrow> 2 | RMatched r i \<Rightarrow> 1)"

definition unserved :: "go_fmt \<Rightarrow> (nat \<Rightarrow> call) \<Rightarrow> 's sys \<Rightarrow> nat" where
  "unserved L req s = length (wire L req (sy_sent s)) - sy_read s"

definition work :: "go_fmt \<Rightarrow> (nat \<Rightarrow> call) \<Rightarrow> 's sys \<Rightarrow> nat" where
  "work L req s = 4 * length (ch_buf (rc_cmdChan (sy_con s))) + sender_work (sy_sender s) +
     unserved L req s + 3 * (length (sy_sent s) - length (results_read s)) + receiver_work (sy_receiver s)"

definition advances where
  "advances L srv req s s' \<longleftrightarrow> sys_step L srv req s s' \<and> sy_calls s' = sy_calls s \<and> sy_sent s' = sy_sent s \<and> work L req s' < work L req s"

lemma deliver_advances:
  assumes "sys_inv L srv req s0 s" and "sy_receiver s = RMatched r i"
  shows "\<exists>s'. advances L srv req s s'"
proof -
  have d: "sendResultToUser (sy_con s) r (PoolCmd i) = Returns (settle (sy_con s) i r)"
    by (rule sendResultToUser_settle [OF flight_pending [OF assms]])
  from deliver [OF assms(2) d] show ?thesis
    using assms(2) by (intro exI) (auto simp: advances_def work_def unserved_def results_read_def receiver_work_def)
qed

lemma match_advances:
  assumes "sy_receiver s = RReply r" and "ch_buf (rc_waitChan (sy_con s)) \<noteq> []"
  shows "\<exists>s'. advances L srv req s s'"
proof -
  from assms(2) obtain i q where "chan_recv (rc_waitChan (sy_con s)) = Returns (Some i, q)"
    by (cases "ch_buf (rc_waitChan (sy_con s))") (auto simp: chan_recv_def)
  from match [OF assms(1) this] show ?thesis
    using assms(1) by (intro exI) (auto simp: advances_def work_def unserved_def results_read_def receiver_work_def)
qed

lemma push_advances:
  assumes "sy_sender s = SWrote i" and "has_room (rc_waitChan (sy_con s))"
  shows "\<exists>s'. advances L srv req s s'"
proof -
  from assms(2) obtain q where "chan_send (rc_waitChan (sy_con s)) i = Returns q" by (simp add: chan_send_def has_room_def)
  from push [OF assms(1) this] show ?thesis
    using assms(1) by (intro exI) (auto simp: advances_def work_def unserved_def results_read_def sender_work_def)
qed

lemma take_advances:
  assumes "sys_inv L srv req s0 s" and "sy_sender s = SIdle" and "ch_buf (rc_cmdChan (sy_con s)) \<noteq> []"
  shows "\<exists>s'. advances L srv req s s'"
proof -
  from assms(3) obtain i js where b: "ch_buf (rc_cmdChan (sy_con s)) = i # js" by (cases "ch_buf (rc_cmdChan (sy_con s))") auto
  have o: "\<not> IsNetClose (sy_con s)" using assms(1) by (simp add: sys_inv_def con_open_def IsNetClose_def status_defs)
  have "chan_recv (rc_cmdChan (sy_con s)) = Returns (Some i, (rc_cmdChan (sy_con s))\<lparr>ch_buf := js\<rparr>)" by (simp add: chan_recv_def b)
  from take_cmd [OF assms(2) o this] show ?thesis
    using assms(2) b by (intro exI) (auto simp: advances_def work_def unserved_def results_read_def sender_work_def)
qed

lemma sender_advances:
  assumes "\<not> refused L s"
  shows "sy_sender s = STook i \<Longrightarrow> \<exists>s'. advances L srv req s s'" and "sy_sender s = SPushed i \<Longrightarrow> \<exists>s'. advances L srv req s s'"
proof -
  assume t: "sy_sender s = STook i"
  then obtain c where c: "write_cmd L (sy_con s) i = (None, c)"
    using assms by (cases "write_cmd L (sy_con s) i") (simp add: refused_def)
  then have "rc_cmdChan c = rc_cmdChan (sy_con s)" by (auto simp: write_cmd_def Let_def split: prod.splits)
  with write_out [OF t c] t show "\<exists>s'. advances L srv req s s'"
    by (intro exI) (auto simp: advances_def work_def unserved_def results_read_def sender_work_def)
next
  assume t: "sy_sender s = SPushed i"
  then obtain c where c: "RedisCon_Flush (sy_con s) = (None, c)"
    using assms by (cases "RedisCon_Flush (sy_con s)") (simp add: refused_def)
  then have "rc_cmdChan c = rc_cmdChan (sy_con s)" by (auto simp: RedisCon_Flush_def Let_def split: if_splits)
  with flush [OF t c] t show "\<exists>s'. advances L srv req s s'"
    by (intro exI) (auto simp: advances_def work_def unserved_def results_read_def sender_work_def)
qed

lemma wire_single: "wire L req [u] = command_bytes (call_words L (req u))"
  by (simp add: wire_def)

lemma take_split:
  assumes "m < n" and "n \<le> length xs"
  shows "take n xs = take m xs @ xs ! m # take (n - Suc m) (drop (Suc m) xs)"
proof -
  have "take n xs = take m xs @ take (n - m) (drop m xs)" using assms(1) take_add [of m "n - m" xs] by simp
  moreover have "drop m xs = xs ! m # drop (Suc m) xs" using assms by (simp add: Cons_nth_drop_Suc)
  moreover have "n - m = Suc (n - Suc m)" using assms(1) by simp
  ultimately show ?thesis by simp
qed

text \<open>A command that was flushed and is not answered is served, or its reply is read.\<close>

lemma serve_advances:
  assumes "sys_inv L srv req s0 s" and "\<And>u. call_ok L (req u)" and "m < n" and "n \<le> length (sy_sent s)"
    and "prefix (wire L req (take n (sy_sent s))) (wr_out (net_bw (rc_net (sy_con s))))"
    and "sy_read s = length (wire L req (take m (sy_sent s)))"
  shows "\<exists>s'. advances L srv req s s'"
proof -
  let ?w = "call_words L (req (sy_sent s ! m))"
  let ?out = "wr_out (net_bw (rc_net (sy_con s)))"
  note sp = take_split [OF assms(3,4)] take_split [of m "length (sy_sent s)" "sy_sent s"]
  have "wire L req (take n (sy_sent s)) = wire L req (take m (sy_sent s)) @ command_bytes ?w @
      wire L req (take (n - Suc m) (drop (Suc m) (sy_sent s)))"
    unfolding sp(1) by (simp add: wire_def)
  with assms(5,6) obtain rest where d: "drop (sy_read s) ?out = command_bytes ?w @ rest"
    by (auto simp: prefix_def)
  obtain st r where r: "srv (sy_srv s) ?w = (st, r)" by fastforce
  have ok: "16 * length ?w \<le> maxAlloc" "\<forall>w \<in> set ?w. length w \<le> maxAlloc"
    using assms(2) [of "sy_sent s ! m"] by (simp_all add: call_ok_def)
  have "sy_read s < length (wire L req (sy_sent s))"
  proof -
    have "sy_sent s = take m (sy_sent s) @ sy_sent s ! m # drop (Suc m) (sy_sent s)"
      using sp(2) assms(3,4) by simp
    then have "wire L req (sy_sent s) = wire L req (take m (sy_sent s)) @ command_bytes ?w @ wire L req (drop (Suc m) (sy_sent s))"
      by (metis (no_types) append_Cons append_Nil wire_append wire_single)
    then show ?thesis using assms(6) by simp
  qed
  moreover have "0 < length (command_bytes ?w)" by simp
  ultimately have "unserved L req (s\<lparr>sy_con := (sy_con s)\<lparr>rc_br := rc_br (sy_con s) @ resp_bytes r\<rparr>, sy_srv := st,
      sy_read := sy_read s + length (command_bytes ?w)\<rparr>) < unserved L req s"
    unfolding unserved_def by (simp add: diff_less_mono2)
  with serve [where srv = srv and L = L and req = req, OF d ok r] show ?thesis
    by (intro exI) (auto simp: advances_def work_def results_read_def)
qed

lemma answer_advances:
  assumes "sys_inv L srv req s0 s" and "\<And>u. call_ok L (req u)" and "\<And>st w. resp_ok (snd (srv st w))"
    and "sy_receiver s = RIdle" and "length (sy_done s) < n_written s - n_unflushed s"
  shows "\<exists>s'. advances L srv req s s'"
proof -
  have B: "con_bytes L srv req s0 s" and O: "NetStatus (sy_con s) = NetOpen" using assms(1) by (simp_all add: sys_inv_def con_open_def)
  let ?k = "n_written s - n_unflushed s" and ?out = "wr_out (net_bw (rc_net (sy_con s)))" and ?br = "rc_br (sy_con s)"
  from B [unfolded con_bytes_def] obtain m reps where m: "n_written s \<le> length (sy_sent s)" "prefix (wire L req (take ?k (sy_sent s))) ?out"
      "length (results_read s) \<le> m" "m \<le> n_written s" "sy_read s = length (wire L req (take m (sy_sent s)))"
      "srv_run srv s0 (map (\<lambda>u. call_words L (req u)) (take m (sy_sent s))) = (sy_srv s, reps)"
      "?br = concat (map resp_bytes (drop (length (results_read s)) reps))" "length reps = m"
    by (rule bytes_invE)
  have got: "length (results_read s) = length (sy_done s)" using assms(4) by (simp add: results_read_def)
  show ?thesis
  proof (cases "length (sy_done s) < m")
    case True
    let ?r = "reps ! length (sy_done s)"
    have br: "?br = resp_bytes ?r @ concat (map resp_bytes (drop (Suc (length (sy_done s))) reps))"
      using m(7,8) True by (simp add: got Cons_nth_drop_Suc [symmetric])
    have "resp_ok ?r" using srv_run_ok [of srv s0, OF assms(3)] m(6,8) True by (metis list_all_length snd_conv)
    from readReply_resp [OF this] obtain k' where
      "readReply k' ?br = Some (Inr (resp_value ?r), concat (map resp_bytes (drop (Suc (length (sy_done s))) reps)))"
      using br by metis
    from readReply_enough [OF this order_refl] obtain r c where c: "receive (sy_con s) = Some (r, c)" "c = (sy_con s)\<lparr>rc_br := rc_br c\<rparr>"
      by (simp add: receive_def)
    have "NetStatus c = NetStatus (sy_con s)" by (subst c(2)) simp
    then have o: "\<not> IsNetClose (sy_con s)" "\<not> IsNetClose c" using O by (simp_all add: IsNetClose_def status_defs)
    have "rc_cmdChan c = rc_cmdChan (sy_con s)" by (subst c(2)) simp
    moreover have "length (sy_done s) < length (sy_sent s)" using True m(1,4) by simp
    ultimately show ?thesis
      using reply [OF assms(4) o(1) c(1) o(2)] assms(4)
      by (intro exI) (auto simp: advances_def work_def unserved_def results_read_def receiver_work_def)
  next
    case False
    then have "m = length (sy_done s)" using m(3) got by simp
    then show ?thesis using serve_advances [OF assms(1,2) _ _ m(2,5)] assms(5) m(1) by simp
  qed
qed

lemma progress:
  assumes "sys_inv L srv req s0 s" and "\<And>u. call_ok L (req u)" and "\<And>st w. resp_ok (snd (srv st w))"
    and "flight s \<noteq> []" and "\<not> refused L s"
  shows "\<exists>s'. advances L srv req s s'"
proof -
  let ?w = "rc_waitChan (sy_con s)"
  have O: "\<not> ch_closed ?w" "0 < ch_cap ?w" using assms(1) by (simp_all add: sys_inv_def con_open_def)
  show ?thesis
  proof (cases "sy_receiver s")
    case (RMatched r i)
    then show ?thesis by (rule deliver_advances [OF assms(1)])
  next
    case (RReply r)
    show ?thesis
    proof (cases "ch_buf ?w = []")
      case True
      have "length (results_read s) \<le> n_written s"
        using assms(1) unfolding sys_inv_def con_bytes_def by (elim conjE bytes_invE) simp
      then obtain i where "sy_sender s = SWrote i"
        using True RReply by (auto simp: results_read_def n_written_def split: sender.splits)
      then show ?thesis using push_advances O True by (metis has_room_def list.size(3))
    qed (use match_advances [OF RReply] in blast)
  next
    case RIdle
    note ans = answer_advances [OF assms(1-3) RIdle]
    show ?thesis
    proof (cases "sy_sender s")
      case SIdle
      show ?thesis
      proof (cases "ch_buf (rc_cmdChan (sy_con s)) = []")
        case True
        with assms(4) SIdle RIdle have "ch_buf ?w \<noteq> []" by (simp add: flight_def)
        with ans SIdle RIdle show ?thesis by (simp add: n_written_def n_unflushed_def)
      qed (rule take_advances [OF assms(1) SIdle])
    next
      case (SWrote i)
      show ?thesis
      proof (cases "has_room ?w")
        case False
        with O have "0 < length (ch_buf ?w)" unfolding has_room_def by linarith
        with ans SWrote RIdle show ?thesis by (simp add: n_written_def n_unflushed_def)
      qed (use push_advances [OF SWrote] in blast)
    qed (use sender_advances [OF assms(5)] in blast)+
  qed
qed

lemma sys_completes:
  assumes "(sys_step L srv req)\<^sup>*\<^sup>* (sys_init k ws svr cmdCap waitCap s0) s"
    and "\<And>u. call_ok L (req u)" and "\<And>st w. resp_ok (snd (srv st w))"
  shows "\<exists>s'. (sys_step L srv req)\<^sup>*\<^sup>* s s' \<and> sy_calls s' = sy_calls s \<and> sy_sent s' = sy_sent s \<and>
    (refused L s' \<or> map fst (sy_done s') = sy_sent s)"
  using assms(1)
proof (induction "work L req s" arbitrary: s rule: less_induct)
  case less
  have inv: "sys_inv L srv req s0 s" by (rule reachable_inv [OF less.prems assms(2,3)])
  then have I: "con_slots req s" by (simp add: sys_inv_def)
  show ?case
  proof (cases "flight s = [] \<or> refused L s")
    case True
    then show ?thesis using slots_invD(5) [OF I] by auto
  next
    case False
    then obtain s1 where s1: "advances L srv req s s1" using progress [OF inv assms(2,3)] by blast
    then have "(sys_step L srv req)\<^sup>*\<^sup>* (sys_init k ws svr cmdCap waitCap s0) s1"
      using less.prems by (auto simp: advances_def)
    with less.hyps [of s1] s1 obtain s' where "(sys_step L srv req)\<^sup>*\<^sup>* s1 s'" "sy_calls s' = sy_calls s" "sy_sent s' = sy_sent s"
        "refused L s' \<or> map fst (sy_done s') = sy_sent s"
      by (auto simp: advances_def)
    moreover have "sys_step L srv req s s1" using s1 by (simp add: advances_def)
    ultimately show ?thesis by (meson converse_rtranclp_into_rtranclp)
  qed
qed


section \<open>A run\<close>

definition get_call :: "nat \<Rightarrow> call" where
  "get_call u = \<lparr>cl_cmd = lit ''GET'', cl_argNum = 1, cl_arg1 = IString (lit ''k''), cl_arg2 = INil, cl_arg3 = INil, cl_args = None, cl_wait = True\<rparr>"

definition count_srv :: "nat \<Rightarrow> bytes list \<Rightarrow> nat \<times> resp" where
  "count_srv n w = (Suc n, RInt (of_nat n))"

definition run_start :: "nat sys" where
  "run_start = sys_init 0 [WriteOk 1000] (lit ''host:1'') 2 2 5"

lemma get_call_ok: "call_ok plain_fmt (get_call u)"
  by (auto simp: call_ok_def get_call_def bad_array_def ARGSNUMARRAY_def call_args_def command_args_def call_words_def maxAlloc_def)

lemma count_srv_ok: "resp_ok (snd (count_srv n w))"
  by (simp add: count_srv_def)

text \<open>The seventh call is queued.\<close>

lemma run_queued:
  "\<exists>s. (sys_step plain_fmt count_srv get_call)\<^sup>*\<^sup>* run_start s \<and> sy_sent s = [7] \<and> flight s = [Suc 0]"
proof -
  let ?step = "sys_step plain_fmt count_srv get_call"
  define p where "p = (NewCmdPool 4)\<lparr>cp_getIndex := 1\<rparr>"
  have con: "rc_cmdPool (sy_con run_start) = NewCmdPool 4" "rc_cmdChan (sy_con run_start) = make_chan 2" "sy_sender run_start = SIdle"
      "rc_waitChan (sy_con run_start) = make_chan 2" "sy_receiver run_start = RIdle" "sy_calls run_start 7 = NotYet" "sy_sent run_start = []"
    by (simp_all add: run_start_def sys_init_def conRedis_def con_settings_def RedisCon_init_def)
  define s1 where "s1 = run_start\<lparr>sy_con := (make_result_chan (sy_con run_start) 7)\<lparr>rc_cmdPool := p\<rparr>, sy_calls := (sy_calls run_start)(7 := GotIndex 1)\<rparr>"
  have "cmdPool_next (rc_cmdPool (sy_con run_start)) = Returns (1, p)"
    by (simp add: con cmdPool_next_def NewCmdPool_def p_def unat_mod)
  from index [OF con(6) this, of plain_fmt count_srv get_call] have st1: "?step run_start s1"
    by (simp add: s1_def get_call_def)
  have cmds: "cp_cmds p = replicate 40 pool_Command" by (simp add: p_def NewCmdPool_def)
  have s1: "sy_calls s1 7 = GotIndex 1" "rc_cmdPool (sy_con s1) = p" "rc_cmdChan (sy_con s1) = make_chan 2" "rc_waitChan (sy_con s1) = make_chan 2"
      "sy_sender s1 = SIdle" "sy_receiver s1 = RIdle" "sy_sent s1 = []"
    by (simp_all add: s1_def con make_result_chan_def)
  obtain c where c: "package_at (sy_con s1) 1 0 (cl_cmd (get_call 7)) (cl_argNum (get_call 7)) (cl_arg1 (get_call 7)) (cl_arg2 (get_call 7))
      (cl_arg3 (get_call 7)) (cl_args (get_call 7)) = Returns (Some 1, c)"
      "rc_cmdChan c = make_chan 2" "rc_waitChan c = make_chan 2"
    by (simp add: package_at_def cmdPool_take_def s1 cmds pool_Command_def get_call_def fill_Command_def ARGSNUMARRAY_def set_cmd_def Let_def)
  define s2 where "s2 = s1\<lparr>sy_con := count_cmd c (call_chan (get_call 7) 7) 1, sy_calls := (sy_calls s1)(7 := Packed 1), sy_owner := (sy_owner s1)(1 := 7)\<rparr>"
  have st2: "?step s1 s2" using pack [where req = get_call and L = plain_fmt and srv = count_srv, OF s1(1) c(1)] by (simp add: s2_def)
  have s2: "sy_calls s2 7 = Packed 1" "rc_cmdChan (sy_con s2) = make_chan 2" "rc_waitChan (sy_con s2) = make_chan 2"
      "sy_sender s2 = SIdle" "sy_receiver s2 = RIdle" "sy_sent s2 = []"
    by (simp_all add: s2_def count_cmd_def set_cmd_def Let_def c s1)
  have "enqueue_cmd (sy_con s2) 1 = Returns ((sy_con s2)\<lparr>rc_cmdChan := \<lparr>ch_cap = 2, ch_buf = [1], ch_closed = False\<rparr>\<rparr>)"
    by (simp add: enqueue_cmd_def chan_send_def s2 make_chan_def)
  note st3 = enqueue [where L = plain_fmt and srv = count_srv and req = get_call, OF s2(1) this]
  define s3 where "s3 = s2\<lparr>sy_con := (sy_con s2)\<lparr>rc_cmdChan := \<lparr>ch_cap = 2, ch_buf = [1], ch_closed = False\<rparr>\<rparr>,
      sy_calls := (sy_calls s2)(7 := Sent), sy_sent := sy_sent s2 @ [7]\<rparr>"
  have "?step\<^sup>*\<^sup>* run_start s1" using st1 by (rule r_into_rtranclp)
  then have "?step\<^sup>*\<^sup>* run_start s2" using st2 by (rule rtranclp.rtrancl_into_rtrancl)
  then have "?step\<^sup>*\<^sup>* run_start s3" using st3 [folded s3_def] by (rule rtranclp.rtrancl_into_rtrancl)
  moreover have "sy_sent s3 = [7]" "flight s3 = [Suc 0]" by (simp_all add: s3_def s2 flight_def)
  ultimately show ?thesis by blast
qed

text \<open>The run goes on until the call has its result, unless the connection refuses a write.\<close>

lemma run_done:
  "\<exists>s. (sys_step plain_fmt count_srv get_call)\<^sup>*\<^sup>* (sys_init 0 [WriteOk 1000] (lit ''host:1'') 2 2 5) s \<and> sy_sent s = [7] \<and>
     (refused plain_fmt s \<or> map fst (sy_done s) = [7])"
proof -
  obtain s where s: "(sys_step plain_fmt count_srv get_call)\<^sup>*\<^sup>* run_start s" "sy_sent s = [7]" using run_queued by blast
  from sys_completes [OF s(1) [unfolded run_start_def] get_call_ok count_srv_ok]
  obtain s' where s': "(sys_step plain_fmt count_srv get_call)\<^sup>*\<^sup>* s s'" "sy_sent s' = sy_sent s"
      "refused plain_fmt s' \<or> map fst (sy_done s') = sy_sent s" by blast
  from rtranclp_trans [OF s(1) [unfolded run_start_def] s'(1)] s' s(2) show ?thesis by auto
qed


end
