(* ===== verification/Redis_ConnNet.thy ===== *)
theory Redis_ConnNet
  imports Redis_ConnOrder
begin

text \<open>
  The whole connection of \<open>lib/redis/redisConn.go\<close>, with what goes wrong: to the steps of \<open>Redis_ConnLink\<close> come a write, a push or a
  flush of the sender that fails, a read of the receiver that fails, the ends of both goroutines, every step of the goroutine that
  reconnects, the watch for time-outs, and the user who closes the connection.  The theorems say what holds until the first failure,
  and of the results that were handed over before it in every later state.
\<close>

section \<open>The goroutines of a connection\<close>

text \<open>
  \<open>nt_taking\<close> and \<open>nt_reading\<close> hold when the sender and the receiver have tested the status of the network and are
  waiting in the receive from \<open>cmdChan\<close> and in the read, which the closing of the network does not take back.
  \<open>nt_sender\<close> and \<open>nt_receiver\<close> hold while these goroutines run, \<open>nt_watching\<close> while the watch does.
  \<open>nt_failed\<close> is the number of results that had been handed over at the first failure.
\<close>

record 's net =
  nt_sys :: "'s sys"
  nt_taking :: bool
  nt_reading :: bool
  nt_sender :: bool
  nt_receiver :: bool
  nt_ex :: ex_phase
  nt_watch :: timeout_state
  nt_watching :: bool
  nt_attempts :: "attempt list"
  nt_failed :: "nat option"

definition net_init :: "nat \<Rightarrow> write_outcome list \<Rightarrow> bytes \<Rightarrow> int \<Rightarrow> int \<Rightarrow> attempt list \<Rightarrow> 's \<Rightarrow> 's net" where
  "net_init k ws svr cmdCap waitCap as s0 =
     \<lparr>nt_sys = sys_init k ws svr cmdCap waitCap s0, nt_taking = False, nt_reading = False, nt_sender = True, nt_receiver = True,
      nt_ex = ExSignal, nt_watch = \<lparr>to_lastRecvId = 0, to_index = 0, to_ttTimes = 0, to_ttTime = 0\<rparr>, nt_watching = True,
      nt_attempts = as, nt_failed = None\<rparr>"

abbreviation nt_con :: "'s net \<Rightarrow> RedisCon" where
  "nt_con n \<equiv> sy_con (nt_sys n)"

text \<open>The results handed over before the first failure.\<close>

definition good_results :: "'s net \<Rightarrow> nat" where
  "good_results n = (case nt_failed n of None \<Rightarrow> length (sy_done (nt_sys n)) | Some m \<Rightarrow> m)"

definition failing :: "'s net \<Rightarrow> 's net" where
  "failing n = n\<lparr>nt_failed := Some (good_results n)\<rparr>"

text \<open>A new connection to the server starts a new stream.\<close>

definition with_con :: "'s sys \<Rightarrow> RedisCon \<Rightarrow> 's sys" where
  "with_con s c = s\<lparr>sy_con := c, sy_read := (if rc_io c = rc_io (sy_con s) then sy_read s else 0)\<rparr>"

text \<open>The sender answers the command it holds with \<open>ErrRedisConClose\<close> and goes back to its loop.\<close>

definition answered_closed :: "'s sys \<Rightarrow> RedisCon \<Rightarrow> nat \<Rightarrow> 's sys" where
  "answered_closed s c i = s\<lparr>sy_con := c, sy_sender := SIdle, sy_done := sy_done s @ [(sy_owner s i, closed_result)]\<rparr>"

text \<open>
  The steps.  In \<open>run\<close> a goroutine that ended does nothing: each of its steps would change where it is.
\<close>

inductive net_step ::
  "go_fmt \<Rightarrow> ('s \<Rightarrow> bytes list \<Rightarrow> 's \<times> resp) \<Rightarrow> (nat \<Rightarrow> call) \<Rightarrow> 's net \<Rightarrow> 's net \<Rightarrow> bool"
  for L srv req where
  run: "sys_step L srv req (nt_sys n) s \<Longrightarrow>
    nt_sender n \<or> sy_sender s = sy_sender (nt_sys n) \<Longrightarrow> nt_receiver n \<or> sy_receiver s = sy_receiver (nt_sys n) \<Longrightarrow>
    net_step L srv req n (n\<lparr>nt_sys := s, nt_taking := nt_taking n \<and> sy_sender s = sy_sender (nt_sys n),
      nt_reading := nt_reading n \<and> sy_receiver s = sy_receiver (nt_sys n)\<rparr>)"
| wait_cmd: "nt_sender n \<Longrightarrow> sy_sender (nt_sys n) = SIdle \<Longrightarrow> \<not> IsNetClose (nt_con n) \<Longrightarrow>
    net_step L srv req n (n\<lparr>nt_taking := True\<rparr>)"
| take_late: "nt_sender n \<Longrightarrow> nt_taking n \<Longrightarrow> sy_sender (nt_sys n) = SIdle \<Longrightarrow>
    chan_recv (rc_cmdChan (nt_con n)) = Returns (Some i, q) \<Longrightarrow> IsNetClose (nt_con n) \<Longrightarrow>
    net_step L srv req n (n\<lparr>nt_sys := (nt_sys n)\<lparr>sy_con := (nt_con n)\<lparr>rc_cmdChan := q\<rparr>, sy_sender := STook i\<rparr>, nt_taking := False\<rparr>)"
| take_nil: "nt_sender n \<Longrightarrow> nt_taking n \<Longrightarrow> sy_sender (nt_sys n) = SIdle \<Longrightarrow>
    chan_recv (rc_cmdChan (nt_con n)) = Returns (None, q) \<Longrightarrow>
    net_step L srv req n (n\<lparr>nt_taking := False\<rparr>)"
| write_fails: "nt_sender n \<Longrightarrow> sy_sender (nt_sys n) = STook i \<Longrightarrow> write_cmd L (nt_con n) i = (Some e, c) \<Longrightarrow>
    send_failed (snd (netClose c)) i = Returns (e', c') \<Longrightarrow>
    net_step L srv req n ((failing n)\<lparr>nt_sys := answered_closed (nt_sys n) c' i\<rparr>)"
| push_fails: "nt_sender n \<Longrightarrow> sy_sender (nt_sys n) = SWrote i \<Longrightarrow> chan_send (rc_waitChan (nt_con n)) i = Panics \<Longrightarrow>
    send_failed (nt_con n) i = Returns (e', c') \<Longrightarrow>
    net_step L srv req n ((failing n)\<lparr>nt_sys := answered_closed (nt_sys n) c' i\<rparr>)"
| flush_fails: "nt_sender n \<Longrightarrow> sy_sender (nt_sys n) = SPushed i \<Longrightarrow> RedisCon_Flush (nt_con n) = (Some e, c) \<Longrightarrow>
    closeUserChan c (PoolCmd i) = Returns c' \<Longrightarrow>
    net_step L srv req n ((failing n)\<lparr>nt_sys := answered_closed (nt_sys n) c' i\<rparr>)"
| sender_ends: "sy_sender (nt_sys n) = SIdle \<Longrightarrow> IsNetClose (nt_con n) \<Longrightarrow> cycleIsDead (nt_con n) \<Longrightarrow>
    net_step L srv req n (n\<lparr>nt_sender := False\<rparr>)"
| wait_reply: "nt_receiver n \<Longrightarrow> sy_receiver (nt_sys n) = RIdle \<Longrightarrow> \<not> IsNetClose (nt_con n) \<Longrightarrow>
    net_step L srv req n (n\<lparr>nt_reading := True\<rparr>)"
| read_fails: "nt_receiver n \<Longrightarrow> sy_receiver (nt_sys n) = RIdle \<Longrightarrow> nt_reading n \<or> \<not> IsNetClose (nt_con n) \<Longrightarrow>
    receive (nt_con n) = Some (r, c) \<Longrightarrow> IsNetClose c \<Longrightarrow>
    net_step L srv req n ((failing n)\<lparr>nt_sys := (nt_sys n)\<lparr>sy_con := c, sy_receiver := RReply r\<rparr>, nt_reading := False\<rparr>)"
| match_nil: "nt_receiver n \<Longrightarrow> sy_receiver (nt_sys n) = RReply r \<Longrightarrow> chan_recv (rc_waitChan (nt_con n)) = Returns (None, q) \<Longrightarrow>
    sendResultToUser (nt_con n) r NilCmd = Panics \<Longrightarrow>
    net_step L srv req n (n\<lparr>nt_receiver := False\<rparr>)"
| receiver_ends: "sy_receiver (nt_sys n) = RIdle \<Longrightarrow> IsNetClose (nt_con n) \<Longrightarrow> cycleIsDead (nt_con n) \<Longrightarrow>
    net_step L srv req n (n\<lparr>nt_receiver := False\<rparr>)"
| except: "exceptionProcess (nt_ex n) (nt_con n) addr (nt_attempts n) = Returns (ph, c, as) \<Longrightarrow>
    net_step L srv req n (n\<lparr>nt_sys := with_con (nt_sys n) c, nt_ex := ph, nt_attempts := as\<rparr>)"
| watch_quiet: "nt_watching n \<Longrightarrow> timeout_check (nt_watch n) (nt_con n) now = (goes_on, False, t) \<Longrightarrow>
    net_step L srv req n (n\<lparr>nt_watch := t, nt_watching := goes_on\<rparr>)"
| watch_resets: "nt_watching n \<Longrightarrow> timeout_check (nt_watch n) (nt_con n) now = (goes_on, True, t) \<Longrightarrow>
    resetNet (nt_con n) addr (nt_attempts n) = Returns (err, c, as) \<Longrightarrow>
    net_step L srv req n ((failing n)\<lparr>nt_sys := with_con (nt_sys n) c, nt_watch := t, nt_watching := goes_on, nt_attempts := as\<rparr>)"
| close: "net_step L srv req n ((failing n)\<lparr>nt_sys := (nt_sys n)\<lparr>sy_con := RedisCon_Close (nt_con n)\<rparr>\<rparr>)"
| close_friendly: "net_step L srv req n (n\<lparr>nt_sys := (nt_sys n)\<lparr>sy_con := CloseFriendly (nt_con n)\<rparr>\<rparr>)"

section \<open>Until the first failure\<close>

text \<open>
  No signal was sent, so that the goroutine that reconnects waits for one, and the connection is in order.
\<close>

definition net_inv where
  "net_inv L srv req s0 n \<longleftrightarrow> sys_inv L srv req s0 (nt_sys n) \<and> nt_ex n = ExSignal \<and> rc_signal (nt_con n) = make_chan 10"

lemma sys_step_signal:
  assumes "sys_step L srv req s s'" and "NetStatus (sy_con s) = NetOpen"
  shows "rc_signal (sy_con s') = rc_signal (sy_con s)"
  using assms(1)
proof cases
  case (reply r c)
  then show ?thesis
    using assms(2) by (auto simp: receive_def IsNetClose_def split: option.splits sum.splits prod.splits)
next
  case (enqueue u i c)
  then show ?thesis
    by (auto simp: enqueue_cmd_def closeUserChan_def sendResultToUser_def post_result_def set_cmd_def outcome_bind_eq_Returns
        split: outcome.splits option.splits)
next
  case (deliver r i c)
  then show ?thesis
    by (auto simp: sendResultToUser_def post_result_def set_cmd_def outcome_bind_eq_Returns split: outcome.splits option.splits)
next
  case (pack u i now j c)
  then show ?thesis
    by (auto simp: package_at_def outcome_bind_eq_Returns count_cmd_def set_cmd_def Let_def split: option.splits prod.splits)
next
  case (write_out i c)
  then show ?thesis by (auto simp: write_cmd_def Let_def split: prod.splits)
next
  case (flush i c)
  then show ?thesis by (auto simp: RedisCon_Flush_def Let_def split: if_splits)
next
  case (collect u x c)
  then show ?thesis by (auto simp: Do_wait_def outcome_bind_eq_Returns split: option.splits)
qed (auto simp: make_result_chan_def)

lemma exception_waits:
  assumes "rc_signal c = make_chan 10"
  shows "exceptionProcess ExSignal c addr as = Blocks"
  using assms by (simp add: exception_signal_def chan_recv_def)

lemma CloseFriendly_inv: "sys_inv L srv req s0 s \<Longrightarrow> sys_inv L srv req s0 (s\<lparr>sy_con := CloseFriendly (sy_con s)\<rparr>)"
  by (simp add: sys_simps CloseFriendly_def changeLifeCycle_def Let_def)

lemma net_step_inv:
  assumes "net_step L srv req n n'" and "net_inv L srv req s0 n" and "nt_failed n' = None"
    and "\<And>u. call_ok L (req u)" and "\<And>st w. resp_ok (snd (srv st w))"
  shows "net_inv L srv req s0 n'"
  using assms(1)
proof cases
  case (run s)
  have o: "NetStatus (nt_con n) = NetOpen" using assms(2) by (simp add: net_inv_def sys_inv_def con_open_def)
  show ?thesis
    using assms(2) sys_step_inv [OF run(2) _ assms(4,5)] sys_step_signal [OF run(2) o] run(1) by (simp add: net_inv_def)
next
  case (take_late i q)
  then show ?thesis using assms(2) by (simp add: net_inv_def sys_inv_def con_open_def IsNetClose_def status_defs)
next
  case (except addr ph c as)
  then show ?thesis using assms(2) exception_waits [of "nt_con n" addr "nt_attempts n"] by (simp add: net_inv_def)
next
  case close_friendly
  then show ?thesis
    using assms(2) CloseFriendly_inv [of L srv req s0 "nt_sys n"]
    by (simp add: net_inv_def) (simp add: CloseFriendly_def changeLifeCycle_def Let_def)
qed (use assms(2,3) in \<open>simp_all add: net_inv_def failing_def\<close>)

lemma net_failed_stays: "net_step L srv req n n' \<Longrightarrow> nt_failed n' = None \<Longrightarrow> nt_failed n = None"
  by (erule net_step.cases) (simp_all add: failing_def)

lemma net_init_inv: "net_inv L srv req s0 (net_init k ws svr cmdCap waitCap as s0)"
  using sys_inv_init [of L srv req s0 k ws svr cmdCap waitCap]
  by (simp add: net_inv_def net_init_def) (simp add: sys_init_def conRedis_def con_settings_def RedisCon_init_def)

lemma net_reachable_inv:
  assumes "(net_step L srv req)\<^sup>*\<^sup>* (net_init k ws svr cmdCap waitCap as s0) n" and "nt_failed n = None"
    and "\<And>u. call_ok L (req u)" and "\<And>st w. resp_ok (snd (srv st w))"
  shows "net_inv L srv req s0 n"
  using assms(1,2)
proof (induction rule: rtranclp_induct)
  case base
  show ?case by (rule net_init_inv)
next
  case (step n n')
  then show ?case using net_step_inv [OF step(2) _ step.prems assms(3,4)] net_failed_stays [OF step(2) step.prems] by blast
qed

section \<open>After it\<close>

text \<open>What was queued and handed over stays.\<close>

lemma sys_step_grows:
  "sys_step L srv req s s' \<Longrightarrow> prefix (sy_sent s) (sy_sent s') \<and> prefix (sy_done s) (sy_done s')"
  by (erule sys_step.cases) simp_all

lemma net_step_grows:
  "net_step L srv req n n' \<Longrightarrow> prefix (sy_sent (nt_sys n)) (sy_sent (nt_sys n')) \<and> prefix (sy_done (nt_sys n)) (sy_done (nt_sys n'))"
  by (erule net_step.cases) (auto simp: answered_closed_def with_con_def dest: sys_step_grows)

lemma net_step_good:
  assumes "net_step L srv req n n'" and "nt_failed n' \<noteq> None"
  shows "good_results n' = good_results n"
  using assms by (cases rule: net_step.cases) (auto simp: good_results_def failing_def)

text \<open>The first \<open>m\<close> results are the replies to the first \<open>m\<close> calls queued.\<close>

definition replies_upto where
  "replies_upto L srv req s0 s m \<longleftrightarrow> m \<le> length (sy_done s) \<and> m \<le> length (sy_sent s) \<and> distinct (take m (sy_sent s)) \<and>
     map fst (take m (sy_done s)) = take m (sy_sent s) \<and>
     map snd (take m (sy_done s)) = map reply_result
       (snd (srv_run srv s0 (map (\<lambda>u. call_words L (req u)) (take m (sy_sent s)))))"

lemma replies_upto_inv:
  assumes "sys_inv L srv req s0 s"
  shows "replies_upto L srv req s0 s (length (sy_done s))"
proof -
  have I: "con_slots req s" using assms by (simp add: sys_inv_def)
  have "length (sy_done s) \<le> length (sy_sent s)" unfolding slots_invD(5) [OF I] by simp
  then show ?thesis using inv_replies [OF assms] by (simp add: replies_upto_def)
qed

lemma replies_upto_grows:
  assumes "replies_upto L srv req s0 s m" and "prefix (sy_sent s) (sy_sent s')" and "prefix (sy_done s) (sy_done s')"
  shows "replies_upto L srv req s0 s' m"
  using assms by (auto simp: replies_upto_def prefix_def)

lemma net_reachable_replies:
  assumes "(net_step L srv req)\<^sup>*\<^sup>* (net_init k ws svr cmdCap waitCap as s0) n"
    and "\<And>u. call_ok L (req u)" and "\<And>st w. resp_ok (snd (srv st w))"
  shows "replies_upto L srv req s0 (nt_sys n) (good_results n)"
  using assms(1)
proof (induction rule: rtranclp_induct)
  case base
  then show ?case by (simp add: net_init_def good_results_def sys_init_def replies_upto_def)
next
  case (step n n')
  show ?case
  proof (cases "nt_failed n' = None")
    case True
    have "(net_step L srv req)\<^sup>*\<^sup>* (net_init k ws svr cmdCap waitCap as s0) n'" using step(1,2) by simp
    from net_reachable_inv [OF this True assms(2,3)] show ?thesis
      using replies_upto_inv True by (auto simp: net_inv_def good_results_def)
  next
    case False
    show ?thesis
      using replies_upto_grows [OF step(3)] net_step_grows [OF step(2)] net_step_good [OF step(2) False] by auto
  qed
qed


text \<open>
  C6. As long as no write, flush or read has failed and the connection was neither reset nor closed, and when every call has
  arguments, no two commands in flight share a place in the pool, each holds what its caller asked for and the channel for its
  result although the callers fill the commands of the pool through shared pointers, and the number of commands in progress
  is that of the commands in flight and of the callers about to queue theirs.  A failed flush and a call without arguments
  make that number wrong.
\<close>

theorem RedisCon_commands_not_shared:
  assumes "(net_step L srv req)\<^sup>*\<^sup>* (net_init k ws svr cmdCap waitCap as s0) n" and "nt_failed n = None"
    and "\<And>u. call_ok L (req u)" and "\<And>st w. resp_ok (snd (srv st w))"
  shows "let s = nt_sys n in distinct (flight s) \<and>
    (\<forall>i \<in> set (flight s). holds_call (cp_cmds (rc_cmdPool (sy_con s)) ! i) (req (sy_owner s i)) (sy_owner s i)) \<and>
    (\<forall>u i. sy_calls s u = Packed i \<longrightarrow> i \<notin> set (flight s) \<and> holds_call (cp_cmds (rc_cmdPool (sy_con s)) ! i) (req u) u) \<and>
    sy_sent s = map fst (sy_done s) @ map (sy_owner s) (flight s) \<and>
    waitProcessCmdNum (sy_con s) = int (length (flight s) + card (packed (sy_calls s)))"
proof -
  have I: "con_slots req (nt_sys n)" using net_reachable_inv [OF assms(1-4)] by (simp add: net_inv_def sys_inv_def)
  show ?thesis
    unfolding Let_def using slots_invD(2,5,11) [OF I] slots_invD(3,4) [OF I] by blast
qed

section \<open>Runs\<close>

text \<open>A run of \<open>Redis_ConnLink\<close> is one of the connection in which nothing fails.\<close>

lemma net_run:
  assumes "(sys_step L srv req)\<^sup>*\<^sup>* s s'" and "nt_sys n = s" and "nt_sender n" "nt_receiver n" "\<not> nt_taking n" "\<not> nt_reading n"
  shows "(net_step L srv req)\<^sup>*\<^sup>* n (n\<lparr>nt_sys := s'\<rparr>)"
  using assms(1)
proof (induction rule: rtranclp_induct)
  case base
  have "n\<lparr>nt_sys := s\<rparr> = n" using assms(2) by auto
  then show ?case by simp
next
  case (step y z)
  have eq: "n\<lparr>nt_sys := z, nt_taking := False, nt_reading := False\<rparr> = n\<lparr>nt_sys := z\<rparr>"
    by (rule net.equality) (use assms(5,6) in simp_all)
  have "net_step L srv req (n\<lparr>nt_sys := y\<rparr>) (n\<lparr>nt_sys := z, nt_taking := False, nt_reading := False\<rparr>)"
    using run [of L srv req "n\<lparr>nt_sys := y\<rparr>" z] step(2) assms(3-6) by simp
  then have "net_step L srv req (n\<lparr>nt_sys := y\<rparr>) (n\<lparr>nt_sys := z\<rparr>)" unfolding eq .
  with step(3) show ?case by simp
qed

lemma net_run_init:
  assumes "(sys_step L srv req)\<^sup>*\<^sup>* (sys_init k ws svr cmdCap waitCap s0) s"
  shows "\<exists>n. (net_step L srv req)\<^sup>*\<^sup>* (net_init k ws svr cmdCap waitCap as s0) n \<and> nt_sys n = s \<and> nt_failed n = None"
  using net_run [OF assms, of "net_init k ws svr cmdCap waitCap as s0"]
  by (intro exI [of _ "(net_init k ws svr cmdCap waitCap as s0)\<lparr>nt_sys := s\<rparr>"]) (simp add: net_init_def)


theorem RedisCon_commands_not_shared_witness:
  "\<exists>n. (net_step plain_fmt count_srv get_call)\<^sup>*\<^sup>* (net_init 0 [WriteOk 1000] (lit ''host:1'') 2 2 [] 5) n \<and>
     (let s = nt_sys n in
      holds_call (cp_cmds (rc_cmdPool (sy_con s)) ! Suc 0) (get_call (sy_owner s (Suc 0))) (sy_owner s (Suc 0)) \<and> sy_owner s (Suc 0) = 7 \<and>
      waitProcessCmdNum (sy_con s) = int (1 + card (packed (sy_calls s))))"
proof -
  obtain s where s: "(sys_step plain_fmt count_srv get_call)\<^sup>*\<^sup>* run_start s" "sy_sent s = [7]" "flight s = [Suc 0]"
    using run_queued by blast
  obtain n where n: "(net_step plain_fmt count_srv get_call)\<^sup>*\<^sup>* (net_init 0 [WriteOk 1000] (lit ''host:1'') 2 2 [] 5) n"
      "nt_sys n = s" "nt_failed n = None" using net_run_init [OF s(1) [unfolded run_start_def]] by blast
  have "sy_owner s (Suc 0) = 7 \<and> holds_call (cp_cmds (rc_cmdPool (sy_con s)) ! Suc 0) (get_call 7) 7 \<and>
      waitProcessCmdNum (sy_con s) = int (1 + card (packed (sy_calls s)))"
    using RedisCon_commands_not_shared [OF n(1,3) get_call_ok count_srv_ok] s(2,3) n(2)
    by (cases "sy_done s") (auto simp: Let_def)
  with n(1,2) show ?thesis by (intro exI [of _ n]) (simp add: Let_def)
qed

end
