(* ===== verification/Redis_Pool.thy ===== *)
theory Redis_Pool
  imports Redis_ConnLink
begin

text \<open>
  The pools of \<open>lib/redis/pool.go\<close>: connections registered under numbers, and the commands sent through a pool, which
  refuse keys that are too long.  Pools and connections are shared through pointers, so they live in a store and a
  pointer is an index into it; one pool can be registered under several keys.

  A connection is made with an attempt to dial and, when the address has a password, the answer to \<open>AUTH\<close>.
\<close>

definition MAX_KEY_LEN :: nat where "MAX_KEY_LEN = 464"

record RedisPool =
  rp_nodes :: "nat list"
  rp_node :: nat
  rp_size :: int
  rp_cur :: int
  rp_address :: bytes
  rp_pwd :: bytes
  rp_slot :: bytes

record registry =
  rg_cons :: "RedisCon list"
  rg_heap :: "RedisPool list"
  rg_pools :: "int \<rightharpoonup> nat"

record dialing =
  dl_attempt :: attempt
  dl_auth :: Result
  dl_now :: int
  dl_chan :: nat

definition connect :: "dialing \<Rightarrow> bytes \<Rightarrow> int \<Rightarrow> int \<Rightarrow> (redis_error + RedisCon) outcome" where
  "connect d address cmdCap waitCap =
     outcome_bind (NewRedisCon (dl_attempt d) (dl_now d) (dl_chan d) address cmdCap waitCap) (\<lambda>r. Returns (case r of
       Inl e \<Rightarrow> Inl e
     | Inr (c, False) \<Rightarrow> Inr c
     | Inr (c, True) \<Rightarrow> (case NewRedisCon_auth c (dl_auth d) of (Some e, c1) \<Rightarrow> Inl e | (None, c1) \<Rightarrow> Inr c1)))"

section \<open>The registry\<close>

text \<open>\<open>NewRedisPool\<close> puts the connection and the pool into the store; the size it is given is not used.\<close>

definition NewRedisPool :: "registry \<Rightarrow> dialing \<Rightarrow> bytes \<Rightarrow> int \<Rightarrow> int \<Rightarrow> ((redis_error + nat) \<times> registry) outcome" where
  "NewRedisPool w d address n chanSize =
     outcome_bind (connect d address chanSize chanSize) (\<lambda>r. Returns (case r of
       Inl e \<Rightarrow> (Inl e, w)
     | Inr c \<Rightarrow> (Inr (length (rg_heap w)),
         w\<lparr>rg_cons := rg_cons w @ [c],
           rg_heap := rg_heap w @ [\<lparr>rp_nodes = [], rp_node = length (rg_cons w), rp_size = 0, rp_cur = 0,
             rp_address = address, rp_pwd = [], rp_slot = []\<rparr>]\<rparr>)))"

definition NewRedisPoolByFunc :: "registry \<Rightarrow> dialing \<Rightarrow> bytes \<Rightarrow> int \<Rightarrow> int \<Rightarrow> ((redis_error + nat) \<times> registry) outcome" where
  "NewRedisPoolByFunc w d address n chanSize =
     outcome_bind (NewRedisPool w d address n chanSize) (\<lambda>(r, w1). Returns (case r of
       Inl e \<Rightarrow> (Inl e, w1)
     | Inr p \<Rightarrow> (let k = rp_node (rg_heap w1 ! p) in
         (Inr p, w1\<lparr>rg_cons := (rg_cons w1)[k := (rg_cons w1 ! k)\<lparr>rc_addressFunc := True\<rparr>]\<rparr>))))"

definition RegRedisKeySize :: "registry \<Rightarrow> dialing \<Rightarrow> int \<Rightarrow> bytes \<Rightarrow> int \<Rightarrow> (redis_error option \<times> registry) outcome" where
  "RegRedisKeySize w d key address n =
     outcome_bind (NewRedisPool w d address n 1024) (\<lambda>(r, w1). Returns (case r of
       Inl e \<Rightarrow> (Some e, w1)
     | Inr p \<Rightarrow> (None, w1\<lparr>rg_pools := (rg_pools w1)(key \<mapsto> p)\<rparr>)))"

definition RegRedisKey :: "registry \<Rightarrow> dialing \<Rightarrow> int \<Rightarrow> bytes \<Rightarrow> (redis_error option \<times> registry) outcome" where
  "RegRedisKey w d key address =
     outcome_bind (NewRedisPool w d address 2 1024) (\<lambda>(r, w1). Returns (case r of
       Inl e \<Rightarrow> (Some e, w1)
     | Inr p \<Rightarrow> (None, w1\<lparr>rg_pools := (rg_pools w1)(key \<mapsto> p)\<rparr>)))"

text \<open>One pool for all the keys.\<close>

definition RegRedisKeyByFunc :: "registry \<Rightarrow> dialing \<Rightarrow> bytes \<Rightarrow> int list \<Rightarrow> (redis_error option \<times> registry) outcome" where
  "RegRedisKeyByFunc w d address keys =
     outcome_bind (NewRedisPoolByFunc w d address 2 1024) (\<lambda>(r, w1). Returns (case r of
       Inl e \<Rightarrow> (Some e, w1)
     | Inr p \<Rightarrow> (None, w1\<lparr>rg_pools := fold (\<lambda>key m. m(key \<mapsto> p)) keys (rg_pools w1)\<rparr>)))"

text \<open>
  A pool for each key; \<open>env i\<close> is the address the registered function gives for the pool of the \<open>i\<close>th key and the dialing
  of that address.  On an error the log statement reads a field of the nil pool, which panics.
\<close>

fun RegKeyByFunc :: "registry \<Rightarrow> (nat \<Rightarrow> dialing \<times> bytes) \<Rightarrow> nat \<Rightarrow> int list \<Rightarrow> (redis_error option \<times> registry) outcome" where
  "RegKeyByFunc w env i [] = Returns (None, w)"
| "RegKeyByFunc w env i (key # keys) =
     outcome_bind (NewRedisPoolByFunc w (fst (env i)) (snd (env i)) 2 1024) (\<lambda>(r, w1). case r of
       Inl e \<Rightarrow> Panics
     | Inr p \<Rightarrow> RegKeyByFunc (w1\<lparr>rg_pools := (rg_pools w1)(key \<mapsto> p)\<rparr>) env (i + 1) keys)"

definition RedisPool_get :: "registry \<Rightarrow> nat \<Rightarrow> nat" where
  "RedisPool_get w p = rp_node (rg_heap w ! p)"

definition pool_Get :: "registry \<Rightarrow> int \<Rightarrow> nat option" where
  "pool_Get w key = map_option (RedisPool_get w) (rg_pools w key)"

definition update_con :: "registry \<Rightarrow> int \<Rightarrow> (RedisCon \<Rightarrow> RedisCon) \<Rightarrow> registry" where
  "update_con w key f = (case rg_pools w key of
     None \<Rightarrow> w
   | Some p \<Rightarrow> (let k = rp_node (rg_heap w ! p) in w\<lparr>rg_cons := (rg_cons w)[k := f (rg_cons w ! k)]\<rparr>))"

definition pool_SetWarnTimeOut :: "registry \<Rightarrow> int \<Rightarrow> int \<Rightarrow> registry" where
  "pool_SetWarnTimeOut w key t = update_con w key (\<lambda>c. SetWarnTimeOut c (if t = 0 then Default_Warn_TT else t))"

definition pool_SetReconTimeOut :: "registry \<Rightarrow> int \<Rightarrow> int \<Rightarrow> registry" where
  "pool_SetReconTimeOut w key t = update_con w key (\<lambda>c. SetReconTimeOut c (if t = 0 then Default_Recon_TT else t))"

definition pool_SetTimeOut :: "registry \<Rightarrow> int \<Rightarrow> int \<Rightarrow> int \<Rightarrow> registry" where
  "pool_SetTimeOut w key warn recon = pool_SetReconTimeOut (pool_SetWarnTimeOut w key warn) key recon"

text \<open>\<open>Destory\<close> closes the connections in \<open>nodes\<close>, and \<open>CloseAll\<close> destroys the pools in the order \<open>keys\<close> in which Go visits the map.\<close>

definition Destory :: "registry \<Rightarrow> nat \<Rightarrow> registry" where
  "Destory w p = w\<lparr>rg_cons := fold (\<lambda>k cs. cs[k := RedisCon_Close (cs ! k)]) (rp_nodes (rg_heap w ! p)) (rg_cons w)\<rparr>"

fun CloseAll :: "registry \<Rightarrow> int list \<Rightarrow> registry" where
  "CloseAll w [] = w"
| "CloseAll w (key # keys) = CloseAll (case rg_pools w key of None \<Rightarrow> w | Some p \<Rightarrow> Destory w p) keys"

section \<open>Commands through a pool\<close>

text \<open>
  The ways to wait for a command and to send one, with the state behind them as a parameter: the connection of
  the pool in the source.
\<close>

type_synonym 's conn_do = "'s \<Rightarrow> call \<Rightarrow> (iface \<times> redis_error option) \<times> 's"

type_synonym 's conn_send = "'s \<Rightarrow> call \<Rightarrow> redis_error option \<times> 's"

definition argsN :: "bytes \<Rightarrow> iface list \<Rightarrow> bool \<Rightarrow> call" where
  "argsN cmd args w = \<lparr>cl_cmd = cmd, cl_argNum = ARGSNUMARRAY, cl_arg1 = INil, cl_arg2 = INil, cl_arg3 = INil, cl_args = Some args, cl_wait = w\<rparr>"

definition args1 :: "bytes \<Rightarrow> iface \<Rightarrow> bool \<Rightarrow> call" where
  "args1 cmd a w = \<lparr>cl_cmd = cmd, cl_argNum = 1, cl_arg1 = a, cl_arg2 = INil, cl_arg3 = INil, cl_args = None, cl_wait = w\<rparr>"

definition args2 :: "bytes \<Rightarrow> iface \<Rightarrow> iface \<Rightarrow> bool \<Rightarrow> call" where
  "args2 cmd a b w = \<lparr>cl_cmd = cmd, cl_argNum = 2, cl_arg1 = a, cl_arg2 = b, cl_arg3 = INil, cl_args = None, cl_wait = w\<rparr>"

definition args3 :: "bytes \<Rightarrow> iface \<Rightarrow> iface \<Rightarrow> iface \<Rightarrow> bool \<Rightarrow> call" where
  "args3 cmd a b c w = \<lparr>cl_cmd = cmd, cl_argNum = 3, cl_arg1 = a, cl_arg2 = b, cl_arg3 = c, cl_args = None, cl_wait = w\<rparr>"

definition key_too_long :: "iface \<Rightarrow> bool" where
  "key_too_long k \<longleftrightarrow> (case k of IString s \<Rightarrow> length s > MAX_KEY_LEN | _ \<Rightarrow> False)"

definition RedisPool_DoArg1 :: "'s conn_do \<Rightarrow> 's \<Rightarrow> bytes \<Rightarrow> iface \<Rightarrow> (iface \<times> redis_error option) \<times> 's" where
  "RedisPool_DoArg1 ask st cmd arg =
     (if key_too_long arg then ((INil, Some ErrorKeyTooLong), st) else ask st (args1 cmd arg True))"

definition RedisPool_DoArg2 :: "'s conn_do \<Rightarrow> 's \<Rightarrow> bytes \<Rightarrow> iface \<Rightarrow> iface \<Rightarrow> (iface \<times> redis_error option) \<times> 's" where
  "RedisPool_DoArg2 ask st cmd arg1 arg2 =
     (if key_too_long arg1 then ((INil, Some ErrorKeyTooLong), st) else ask st (args2 cmd arg1 arg2 True))"

definition RedisPool_DoArg3 :: "'s conn_do \<Rightarrow> 's \<Rightarrow> bytes \<Rightarrow> iface \<Rightarrow> iface \<Rightarrow> iface \<Rightarrow> (iface \<times> redis_error option) \<times> 's" where
  "RedisPool_DoArg3 ask st cmd arg1 arg2 arg3 =
     (if key_too_long arg1 then ((INil, Some ErrorKeyTooLong), st) else ask st (args3 cmd arg1 arg2 arg3 True))"

definition RedisPool_Do :: "'s conn_do \<Rightarrow> 's \<Rightarrow> bytes \<Rightarrow> iface list \<Rightarrow> (iface \<times> redis_error option) \<times> 's" where
  "RedisPool_Do ask st cmd args =
     (if args \<noteq> [] \<and> key_too_long (hd args) then ((INil, Some ErrorKeyTooLong), st) else ask st (argsN cmd args True))"

definition RedisPool_Send :: "'s conn_send \<Rightarrow> 's \<Rightarrow> bytes \<Rightarrow> iface list \<Rightarrow> redis_error option \<times> 's" where
  "RedisPool_Send send st cmd args =
     (if args \<noteq> [] \<and> key_too_long (hd args) then (Some ErrorKeyTooLong, st) else send st (argsN cmd args False))"

definition RedisPool_SendArg1 :: "'s conn_send \<Rightarrow> 's \<Rightarrow> bytes \<Rightarrow> iface \<Rightarrow> redis_error option \<times> 's" where
  "RedisPool_SendArg1 send st cmd arg =
     (if key_too_long arg then (Some ErrorKeyTooLong, st) else send st (args1 cmd arg False))"

definition RedisPool_SendArg2 :: "'s conn_send \<Rightarrow> 's \<Rightarrow> bytes \<Rightarrow> iface \<Rightarrow> iface \<Rightarrow> redis_error option \<times> 's" where
  "RedisPool_SendArg2 send st cmd arg1 arg2 =
     (if key_too_long arg1 then (Some ErrorKeyTooLong, st) else send st (args2 cmd arg1 arg2 False))"

definition RedisPool_SendArg3 :: "'s conn_send \<Rightarrow> 's \<Rightarrow> bytes \<Rightarrow> iface \<Rightarrow> iface \<Rightarrow> iface \<Rightarrow> redis_error option \<times> 's" where
  "RedisPool_SendArg3 send st cmd arg1 arg2 arg3 =
     (if key_too_long arg1 then (Some ErrorKeyTooLong, st) else send st (args3 cmd arg1 arg2 arg3 False))"

text \<open>
  Batches: \<open>SendSync\<close> collects commands, and \<open>Flush\<close> gives them a common result channel, puts them into the
  batch channel of the connection and waits for as many results.
\<close>

definition RedisPool_SendSync :: "Command list \<Rightarrow> bytes \<Rightarrow> iface list \<Rightarrow> Command list" where
  "RedisPool_SendSync cmds cmd args = cmds @ [new_Command\<lparr>cm_Cmd := cmd, cm_Args := Some args\<rparr>]"

definition RedisPool_flush_send :: "RedisCon \<Rightarrow> nat \<Rightarrow> Command list \<Rightarrow> RedisCon outcome" where
  "RedisPool_flush_send c k cmds =
     sendToCmdsChan (c\<lparr>rc_results := (rc_results c)(k := make_chan (length cmds))\<rparr>) (map (\<lambda>x. x\<lparr>cm_ResultChan := Some k\<rparr>) cmds)"

fun RedisPool_flush_wait :: "RedisCon \<Rightarrow> nat \<Rightarrow> nat \<Rightarrow> ((iface \<times> redis_error option) list \<times> RedisCon) outcome" where
  "RedisPool_flush_wait c k 0 = Returns ([], c)"
| "RedisPool_flush_wait c k (Suc n) =
     outcome_bind (Do_wait c k) (\<lambda>(r, c1). outcome_bind (RedisPool_flush_wait c1 k n) (\<lambda>(rs, c2). Returns (r # rs, c2)))"

section \<open>Channels for results\<close>

text \<open>The pool of result channels, which the code no longer uses; a channel is a number and \<open>fresh\<close> is the next one.\<close>

record chanPool =
  cpl_chans :: "nat list"
  cpl_max :: int
  cpl_fresh :: nat

definition newChanPool :: "nat \<Rightarrow> nat \<Rightarrow> chanPool" where
  "newChanPool fresh n = \<lparr>cpl_chans = [fresh..<fresh + n], cpl_max = 0, cpl_fresh = fresh + n\<rparr>"

definition chanPool_get :: "chanPool \<Rightarrow> nat \<times> chanPool" where
  "chanPool_get p =
     (if cpl_chans p \<noteq> [] then (last (cpl_chans p), p\<lparr>cpl_chans := butlast (cpl_chans p)\<rparr>)
      else (cpl_fresh p, p\<lparr>cpl_fresh := cpl_fresh p + 1\<rparr>))"

definition chanPool_set :: "chanPool \<Rightarrow> nat \<Rightarrow> chanPool" where
  "chanPool_set p c = p\<lparr>cpl_chans := cpl_chans p @ [c]\<rparr>"

record chans =
  cs_pools :: "chanPool list"
  cs_size :: nat
  cs_cur :: nat

fun new_pools :: "nat \<Rightarrow> nat \<Rightarrow> nat \<Rightarrow> chanPool list" where
  "new_pools fresh 0 poolsize = []"
| "new_pools fresh (Suc n) poolsize = newChanPool fresh poolsize # new_pools (fresh + poolsize) n poolsize"

definition NewChans :: "nat \<Rightarrow> nat \<Rightarrow> nat \<Rightarrow> chans" where
  "NewChans fresh n poolsize = \<lparr>cs_pools = new_pools fresh n poolsize, cs_size = n, cs_cur = 0\<rparr>"

definition chans_get :: "chans \<Rightarrow> (nat \<times> chans) option" where
  "chans_get cs =
     (if cs_size cs = 0 then None
      else let i = cs_cur cs mod cs_size cs; cur = cs_cur cs + 1 in
        if i < length (cs_pools cs) then Some (i, cs\<lparr>cs_cur := (if cur \<ge> cs_size cs then 0 else cur)\<rparr>) else None)"

section \<open>The registry stays well-formed\<close>

definition no_registry :: registry where
  "no_registry = \<lparr>rg_cons = [], rg_heap = [], rg_pools = Map.empty\<rparr>"

text \<open>The registries the functions of the package lead to from the empty one.\<close>

inductive registered :: "registry \<Rightarrow> bool" where
  reg_init: "registered no_registry"
| reg_key: "\<lbrakk>registered w; RegRedisKey w d key address = Returns (e, w')\<rbrakk> \<Longrightarrow> registered w'"
| reg_size: "\<lbrakk>registered w; RegRedisKeySize w d key address n = Returns (e, w')\<rbrakk> \<Longrightarrow> registered w'"
| reg_func: "\<lbrakk>registered w; RegRedisKeyByFunc w d address keys = Returns (e, w')\<rbrakk> \<Longrightarrow> registered w'"
| reg_keys: "\<lbrakk>registered w; RegKeyByFunc w env 0 keys = Returns (e, w')\<rbrakk> \<Longrightarrow> registered w'"
| reg_time: "registered w \<Longrightarrow> registered (pool_SetTimeOut w key warn recon)"
| reg_close: "registered w \<Longrightarrow> registered (CloseAll w keys)"

definition registry_wf :: "registry \<Rightarrow> bool" where
  "registry_wf w \<longleftrightarrow> (\<forall>p \<in> set (rg_heap w). rp_nodes p = [] \<and> rp_node p < length (rg_cons w)) \<and>
     (\<forall>p \<in> ran (rg_pools w). p < length (rg_heap w))"

lemma registry_wfI:
  assumes "\<And>p. p \<in> set (rg_heap w) \<Longrightarrow> rp_nodes p = [] \<and> rp_node p < length (rg_cons w)"
    and "\<And>p. p \<in> ran (rg_pools w) \<Longrightarrow> p < length (rg_heap w)"
  shows "registry_wf w"
  using assms unfolding registry_wf_def by blast

lemma NewRedisPool_wf:
  assumes "registry_wf w" "NewRedisPool w d address n m = Returns (r, w')"
  shows "registry_wf w' \<and> (\<forall>p. r = Inr p \<longrightarrow> p < length (rg_heap w'))"
proof -
  obtain x where "Returns (case x of Inl e \<Rightarrow> (Inl e, w) | Inr c \<Rightarrow> (Inr (length (rg_heap w)),
         w\<lparr>rg_cons := rg_cons w @ [c],
           rg_heap := rg_heap w @ [\<lparr>rp_nodes = [], rp_node = length (rg_cons w), rp_size = 0, rp_cur = 0,
             rp_address = address, rp_pwd = [], rp_slot = []\<rparr>]\<rparr>)) = Returns (r, w')"
    using assms(2) unfolding NewRedisPool_def outcome_bind_eq_Returns by blast
  then show ?thesis
    using assms(1) by (cases x) (auto simp: registry_wf_def less_Suc_eq)
qed

lemma NewRedisPoolByFunc_wf:
  assumes "registry_wf w" "NewRedisPoolByFunc w d address n m = Returns (r, w')"
  shows "registry_wf w' \<and> (\<forall>p. r = Inr p \<longrightarrow> p < length (rg_heap w'))"
proof -
  obtain r1 w1 where 1: "NewRedisPool w d address n m = Returns (r1, w1)"
    and 2: "(r, w') = (case r1 of Inl e \<Rightarrow> (Inl e, w1) | Inr p \<Rightarrow> (let k = rp_node (rg_heap w1 ! p) in
         (Inr p, w1\<lparr>rg_cons := (rg_cons w1)[k := (rg_cons w1 ! k)\<lparr>rc_addressFunc := True\<rparr>]\<rparr>)))"
    using assms(2) by (auto simp: NewRedisPoolByFunc_def outcome_bind_eq_Returns)
  show ?thesis
    using NewRedisPool_wf [OF assms(1) 1] 2 by (auto simp: registry_wf_def Let_def split: sum.splits)
qed

lemma register_wf:
  assumes "registry_wf w" "p < length (rg_heap w)"
  shows "registry_wf (w\<lparr>rg_pools := (rg_pools w)(key \<mapsto> p)\<rparr>)"
  using assms by (auto simp: registry_wf_def ran_def split: if_splits)

lemma register_all_wf:
  assumes "registry_wf w" "p < length (rg_heap w)"
  shows "registry_wf (w\<lparr>rg_pools := fold (\<lambda>key m. m(key \<mapsto> p)) keys (rg_pools w)\<rparr>)"
  using assms
proof (induction keys arbitrary: w)
  case (Cons key keys)
  show ?case
    using Cons.IH [OF register_wf [OF Cons.prems]] Cons.prems(2) by simp
qed simp

lemma RegKeyByFunc_wf:
  assumes "registry_wf w" "RegKeyByFunc w env i keys = Returns (e, w')"
  shows "registry_wf w'"
  using assms
proof (induction keys arbitrary: w i)
  case (Cons key keys)
  from Cons.prems(2) obtain r w1 where r: "NewRedisPoolByFunc w (fst (env i)) (snd (env i)) 2 1024 = Returns (r, w1)"
    "(case r of Inl e \<Rightarrow> Panics | Inr p \<Rightarrow> RegKeyByFunc (w1\<lparr>rg_pools := (rg_pools w1)(key \<mapsto> p)\<rparr>) env (i + 1) keys) = Returns (e, w')"
    by (auto simp only: RegKeyByFunc.simps outcome_bind_eq_Returns prod.case)
  then obtain p where p: "r = Inr p"
    by (cases r) simp_all
  note 1 = r(1) [unfolded p] and 2 = r(2) [unfolded p sum.case]
  have "registry_wf (w1\<lparr>rg_pools := (rg_pools w1)(key \<mapsto> p)\<rparr>)"
    using NewRedisPoolByFunc_wf [OF Cons.prems(1) 1] by (simp add: register_wf)
  then show ?case
    using 2 by (rule Cons.IH)
qed simp

lemma update_con_wf: "registry_wf w \<Longrightarrow> registry_wf (update_con w key f)"
  by (auto simp: update_con_def registry_wf_def Let_def split: option.splits)

lemma CloseAll_wf: "registry_wf w \<Longrightarrow> CloseAll w keys = w"
proof (induction keys)
  case (Cons key keys)
  have "Destory w p = w" if "rg_pools w key = Some p" for p
    using that Cons.prems by (auto simp: Destory_def registry_wf_def ran_def)
  then show ?case
    using Cons by (auto split: option.splits)
qed simp

lemma registered_wf: "registered w \<Longrightarrow> registry_wf w"
proof (induction rule: registered.induct)
  case reg_init
  show ?case by (simp add: registry_wf_def no_registry_def)
next
  case (reg_key w d key address e w')
  obtain r1 w1 where 1: "NewRedisPool w d address 2 1024 = Returns (r1, w1)"
    and 2: "(e, w') = (case r1 of Inl e \<Rightarrow> (Some e, w1) | Inr p \<Rightarrow> (None, w1\<lparr>rg_pools := (rg_pools w1)(key \<mapsto> p)\<rparr>))"
    using reg_key.hyps(2) by (auto simp: RegRedisKey_def outcome_bind_eq_Returns)
  show ?case
    using NewRedisPool_wf [OF reg_key.IH 1] 2 by (auto simp: register_wf split: sum.splits)
next
  case (reg_size w d key address n e w')
  obtain r1 w1 where 1: "NewRedisPool w d address n 1024 = Returns (r1, w1)"
    and 2: "(e, w') = (case r1 of Inl e \<Rightarrow> (Some e, w1) | Inr p \<Rightarrow> (None, w1\<lparr>rg_pools := (rg_pools w1)(key \<mapsto> p)\<rparr>))"
    using reg_size.hyps(2) by (auto simp: RegRedisKeySize_def outcome_bind_eq_Returns)
  show ?case
    using NewRedisPool_wf [OF reg_size.IH 1] 2 by (auto simp: register_wf split: sum.splits)
next
  case (reg_func w d address keys e w')
  obtain r1 w1 where 1: "NewRedisPoolByFunc w d address 2 1024 = Returns (r1, w1)"
    and 2: "(e, w') = (case r1 of Inl e \<Rightarrow> (Some e, w1)
       | Inr p \<Rightarrow> (None, w1\<lparr>rg_pools := fold (\<lambda>key m. m(key \<mapsto> p)) keys (rg_pools w1)\<rparr>))"
    using reg_func.hyps(2) by (auto simp: RegRedisKeyByFunc_def outcome_bind_eq_Returns)
  show ?case
    using NewRedisPoolByFunc_wf [OF reg_func.IH 1] 2 by (auto simp: register_all_wf split: sum.splits)
next
  case (reg_keys w env keys e w')
  then show ?case by (blast intro: RegKeyByFunc_wf)
next
  case (reg_time w key warn recon)
  then show ?case by (simp add: pool_SetTimeOut_def pool_SetReconTimeOut_def pool_SetWarnTimeOut_def update_con_wf)
next
  case (reg_close w keys)
  then show ?case by (simp add: CloseAll_wf)
qed

text \<open>
  C37.  Whatever connections were registered, in whatever order, and whether or not the dialing succeeded: \<open>CloseAll\<close>
  changes nothing.  It closes the connections in the field \<open>nodes\<close> of each pool, which no function of the package fills, and
  the connection in \<open>node\<close> that \<open>Get\<close> returns, and which exists for every registered key, stays open.
\<close>

theorem CloseAll_leaves_open:
  assumes "registered w"
  shows "CloseAll w keys = w \<and> (\<forall>key. rg_pools w key \<noteq> None \<longrightarrow> (\<exists>k. pool_Get w key = Some k \<and> k < length (rg_cons w)))"
proof (intro conjI allI impI)
  have wf: "registry_wf w"
    using assms by (rule registered_wf)
  then show "CloseAll w keys = w"
    by (rule CloseAll_wf)
  fix key assume "rg_pools w key \<noteq> None"
  then show "\<exists>k. pool_Get w key = Some k \<and> k < length (rg_cons w)"
    using wf by (fastforce simp: registry_wf_def pool_Get_def RedisPool_get_def ran_def)
qed

definition sample_dialing :: dialing where
  "sample_dialing = \<lparr>dl_attempt = \<lparr>at_conn = Some 0, at_writes = [], at_bytes = [], at_address = []\<rparr>,
     dl_auth = \<lparr>Data = INil, Err = None\<rparr>, dl_now = 100, dl_chan = 0\<rparr>"

lemma sample_connect: "\<exists>c. connect sample_dialing (lit ''host:1'') 1024 1024 = Returns (Inr c)"
proof -
  have "ParseRedisKey (lit ''host:1'') = Some (lit ''host:1'', [], lit ''0'')"
    by code_simp
  moreover have "lit ''host:1'' \<noteq> []"
    by code_simp
  ultimately show ?thesis
    by (simp add: connect_def sample_dialing_def NewRedisCon_def conRedis_def Let_def)
qed

theorem CloseAll_leaves_open_witness:
  "\<exists>w. RegRedisKey no_registry sample_dialing 3 (lit ''host:1'') = Returns (None, w) \<and> CloseAll w [3] = w \<and>
     (\<exists>k. pool_Get w 3 = Some k \<and> k < length (rg_cons w))"
proof -
  obtain c where "connect sample_dialing (lit ''host:1'') 1024 1024 = Returns (Inr c)"
    using sample_connect by blast
  then obtain w where w: "RegRedisKey no_registry sample_dialing 3 (lit ''host:1'') = Returns (None, w)" "rg_pools w 3 \<noteq> None"
    by (auto simp: RegRedisKey_def NewRedisPool_def)
  have "registered w"
    using reg_init w(1) by (rule reg_key)
  then show ?thesis
    using CloseAll_leaves_open [of w "[3]"] w by blast
qed

end
