(* ===== verification/Go_Sha1.thy ===== *)
theory Go_Sha1
  imports Go_Prelude
begin

text \<open>
  The digests of \<open>crypto/sha1\<close> and the text \<open>encoding/hex\<close> makes of them: padding to blocks of 64 bytes, 80 rounds on
  five words of 32 bits for each block, and lower-case hexadecimal digits.
\<close>

unbundle bit_operations_syntax

type_synonym sha_state = "32 word \<times> 32 word \<times> 32 word \<times> 32 word \<times> 32 word"

definition rotl :: "nat \<Rightarrow> 32 word \<Rightarrow> 32 word" where
  "rotl n x = (push_bit n x) OR (drop_bit (32 - n) x)"

definition be_bytes :: "nat \<Rightarrow> nat \<Rightarrow> bytes" where
  "be_bytes k n = map (\<lambda>i. of_nat (n div 256 ^ (k - 1 - i))) [0..<k]"

text \<open>A one bit, zeros up to 56 bytes modulo 64, and the number of bits in 8 bytes.\<close>

definition sha_pad :: "bytes \<Rightarrow> bytes" where
  "sha_pad m = m @ 0x80 # replicate ((119 - length m mod 64) mod 64) 0 @ be_bytes 8 (8 * length m)"

definition be_word :: "bytes \<Rightarrow> 32 word" where
  "be_word bs = of_nat (fold (\<lambda>b a. a * 256 + unat b) bs 0)"

fun chunks :: "nat \<Rightarrow> nat \<Rightarrow> 'a list \<Rightarrow> 'a list list" where
  "chunks 0 k xs = []"
| "chunks (Suc n) k xs = take k xs # chunks n k (drop k xs)"

text \<open>The 80 words of a block, each in front of the ones before it.\<close>

fun sha_schedule :: "nat \<Rightarrow> (32 word) list \<Rightarrow> (32 word) list" where
  "sha_schedule 0 ws = ws"
| "sha_schedule (Suc n) ws = sha_schedule n (rotl 1 (ws ! 2 XOR ws ! 7 XOR ws ! 13 XOR ws ! 15) # ws)"

definition sha_round :: "nat \<Rightarrow> 32 word \<Rightarrow> sha_state \<Rightarrow> sha_state" where
  "sha_round i w = (\<lambda>(a, b, c, d, e).
     let (f, k) =
       (if i < 20 then ((b AND c) OR (NOT b AND d), 0x5A827999)
        else if i < 40 then (b XOR c XOR d, 0x6ED9EBA1)
        else if i < 60 then ((b AND c) OR (b AND d) OR (c AND d), 0x8F1BBCDC)
        else (b XOR c XOR d, 0xCA62C1D6))
     in (rotl 5 a + f + e + k + w, a, rotl 30 b, c, d))"

definition sha_block :: "bytes \<Rightarrow> sha_state \<Rightarrow> sha_state" where
  "sha_block bs h =
     (let ws = rev (sha_schedule 64 (rev (map be_word (chunks 16 4 bs))));
          (a, b, c, d, e) = fold (\<lambda>(i, w) s. sha_round i w s) (enumerate 0 ws) h;
          (h0, h1, h2, h3, h4) = h
      in (h0 + a, h1 + b, h2 + c, h3 + d, h4 + e))"

definition sha1_Sum :: "bytes \<Rightarrow> bytes" where
  "sha1_Sum m =
     (let p = sha_pad m;
          (h0, h1, h2, h3, h4) = fold sha_block (chunks (length p div 64) 64 p)
            (0x67452301, 0xEFCDAB89, 0x98BADCFE, 0x10325476, 0xC3D2E1F0)
      in concat (map (\<lambda>h. be_bytes 4 (unat h)) [h0, h1, h2, h3, h4]))"

definition hex_digit :: "nat \<Rightarrow> byte" where
  "hex_digit d = (if d < 10 then of_nat (48 + d) else of_nat (87 + d))"

definition hex_EncodeToString :: "bytes \<Rightarrow> bytes" where
  "hex_EncodeToString bs = concat (map (\<lambda>b. [hex_digit (unat b div 16), hex_digit (unat b mod 16)]) bs)"

lemma length_be_bytes [simp]: "length (be_bytes k n) = k"
  by (simp add: be_bytes_def)

lemma length_sha1_Sum: "length (sha1_Sum m) = 20"
  by (simp add: sha1_Sum_def Let_def split: prod.split)

lemma sha_pad_blocks: "length (sha_pad m) mod 64 = 0"
proof -
  have "length (sha_pad m) = length m + (119 - length m mod 64) mod 64 + 9"
    by (simp add: sha_pad_def)
  moreover have "(n + (119 - n mod 64) mod 64 + 9) mod 64 = 0" for n :: nat
  proof -
    obtain q r where n: "n = 64 * q + r" "r < 64"
      by (metis mod_less_divisor mult_div_mod_eq zero_less_numeral)
    have "(119 - r) mod 64 = (if r \<le> 55 then 55 - r else 119 - r)"
      by (simp add: mod_if)
    then have "n + (119 - n mod 64) mod 64 + 9 = 64 * (q + (if r \<le> 55 then 1 else 2))"
      using n by simp
    then show ?thesis by (metis mod_mult_self1_is_0)
  qed
  ultimately show ?thesis by simp
qed

lemma length_hex_EncodeToString: "length (hex_EncodeToString bs) = 2 * length bs"
  by (induction bs) (simp_all add: hex_EncodeToString_def)

end
