(* ===== verification/Redis_Script.thy ===== *)
theory Redis_Script
  imports Redis_Pool Go_Sha1 Go_Strings
begin

text \<open>
  Lua scripts, \<open>lib/redis/script.go\<close>: a script is evaluated by its hash, and by its source when the server
  does not know the hash.
\<close>

record Script =
  sc_keyCount :: int
  sc_src :: bytes
  sc_hash :: bytes

definition NewScript :: "int \<Rightarrow> bytes \<Rightarrow> Script" where
  "NewScript keyCount src = \<lparr>sc_keyCount = keyCount, sc_src = src, sc_hash = hex_EncodeToString (sha1_Sum src)\<rparr>"

definition Script_args :: "Script \<Rightarrow> bytes \<Rightarrow> iface list \<Rightarrow> iface list" where
  "Script_args s spec keysAndArgs =
     (if sc_keyCount s < 0 then IString spec # keysAndArgs
      else IString spec # IInt (word_of_int (sc_keyCount s)) # keysAndArgs)"

definition noscript :: "redis_error option \<Rightarrow> bool" where
  "noscript err \<longleftrightarrow> (case err of Some (RedisError e) \<Rightarrow> prefix (lit ''NOSCRIPT '') e | _ \<Rightarrow> False)"

definition Script_Do :: "'s conn_do \<Rightarrow> 's \<Rightarrow> Script \<Rightarrow> iface list \<Rightarrow> (iface \<times> redis_error option) \<times> 's" where
  "Script_Do ask st s keysAndArgs =
     (let ((v, err), st1) = ask st (argsN (lit ''EVALSHA'') (Script_args s (sc_hash s) keysAndArgs) True) in
      if noscript err then ask st1 (argsN (lit ''EVAL'') (Script_args s (sc_src s) keysAndArgs) True)
      else ((v, err), st1))"

definition SendHash :: "'s conn_send \<Rightarrow> 's \<Rightarrow> Script \<Rightarrow> iface list \<Rightarrow> redis_error option \<times> 's" where
  "SendHash send st s keysAndArgs = send st (argsN (lit ''EVALSHA'') (Script_args s (sc_hash s) keysAndArgs) False)"

definition Script_Load :: "'s conn_do \<Rightarrow> 's \<Rightarrow> Script \<Rightarrow> redis_error option \<times> 's" where
  "Script_Load ask st s =
     (let ((v, err), st1) = ask st (argsN (lit ''SCRIPT'') [IString (lit ''LOAD''), IString (sc_src s)] True) in (err, st1))"

section \<open>Commands on a server\<close>

text \<open>
  The connection as its users see it: commands are executed in order and each caller gets the reply to its
  command; \<open>srv\<close> is the server.
\<close>

definition srv_ask :: "go_fmt \<Rightarrow> ('s \<Rightarrow> bytes list \<Rightarrow> 's \<times> resp) \<Rightarrow> 's conn_do" where
  "srv_ask L srv st q = (let (st1, r) = srv st (call_words L q) in ((Data (reply_result r), Err (reply_result r)), st1))"

definition srv_send :: "go_fmt \<Rightarrow> ('s \<Rightarrow> bytes list \<Rightarrow> 's \<times> resp) \<Rightarrow> 's conn_send" where
  "srv_send L srv st q = (None, fst (srv st (call_words L q)))"

lemma call_words_args:
  "call_words L (argsN cmd args w) = cmd # map (arg_text L) args"
  "call_words L (args1 cmd a w) = [cmd, arg_text L a]"
  "call_words L (args2 cmd a b w) = [cmd, arg_text L a, arg_text L b]"
  "call_words L (args3 cmd a b c w) = [cmd, arg_text L a, arg_text L b, arg_text L c]"
  by (simp_all add: call_words_def call_args_def command_args_def argsN_def args1_def args2_def args3_def ARGSNUMARRAY_def)

text \<open>
  What the server does with scripts: \<open>loaded\<close> are the sources it keeps, found by their hash.  A script
  evaluated by its source is loaded, and evaluating it by hash or by source runs it the same way.
\<close>

definition script_server ::
  "('s \<Rightarrow> bytes list \<Rightarrow> 's \<times> resp) \<Rightarrow> ('s \<Rightarrow> bytes set) \<Rightarrow> ('s \<Rightarrow> bytes \<Rightarrow> 's) \<Rightarrow> ('s \<Rightarrow> bytes \<Rightarrow> bytes list \<Rightarrow> 's \<times> resp) \<Rightarrow> bool" where
  "script_server srv loaded load run \<longleftrightarrow>
     (\<forall>st src args. srv st (lit ''EVAL'' # src # args) = run (load st src) src args) \<and>
     (\<forall>st src args. src \<in> loaded st \<longrightarrow> srv st (lit ''EVALSHA'' # hex_EncodeToString (sha1_Sum src) # args) = run st src args) \<and>
     (\<forall>st h args. (\<forall>src \<in> loaded st. hex_EncodeToString (sha1_Sum src) \<noteq> h) \<longrightarrow>
        srv st (lit ''EVALSHA'' # h # args) = (st, RError (lit ''NOSCRIPT No matching script. Please use EVAL.''))) \<and>
     (\<forall>st src. src \<in> loaded st \<longrightarrow> load st src = st)"

definition script_words :: "go_fmt \<Rightarrow> int \<Rightarrow> iface list \<Rightarrow> bytes list" where
  "script_words L keyCount keysAndArgs =
     (if keyCount < 0 then [] else [FormatInt (sint (word_of_int keyCount :: 64 word))]) @ map (arg_text L) keysAndArgs"

lemma Script_args_words: "map (arg_text L) (Script_args s spec xs) = spec # script_words L (sc_keyCount s) xs"
  by (simp add: Script_args_def script_words_def)

lemma srv_ask_eq: "srv st (call_words L q) = (st1, r) \<Longrightarrow> srv_ask L srv st q = ((Data (reply_result r), Err (reply_result r)), st1)"
  by (simp add: srv_ask_def)

text \<open>
  C21.  \<open>Script.Do\<close> evaluates the script whether or not the server has it: it ends in the state, and returns
  the reply, of running the script in the server with the script loaded.  Assumed of the server is what redis documents for \<open>EVAL\<close>
  and \<open>EVALSHA\<close>, that the script does not itself fail with a \<open>NOSCRIPT\<close> error, and that no loaded script has the same hash
  and another source.
\<close>

theorem Script_Do_evaluates:
  assumes "script_server srv loaded load run"
    and "\<forall>src' \<in> loaded st. hex_EncodeToString (sha1_Sum src') = hex_EncodeToString (sha1_Sum src) \<longrightarrow> src' = src"
    and "run (load st src) src (script_words L keyCount xs) = (st', r)" and "\<not> noscript (Err (reply_result r))"
  shows "Script_Do (srv_ask L srv) st (NewScript keyCount src) xs = ((Data (reply_result r), Err (reply_result r)), st')"
proof -
  let ?s = "NewScript keyCount src"
  let ?h = "hex_EncodeToString (sha1_Sum src)"
  let ?q = "argsN (lit ''EVALSHA'') (Script_args ?s ?h xs) True" and ?q' = "argsN (lit ''EVAL'') (Script_args ?s src xs) True"
  have w: "call_words L ?q = lit ''EVALSHA'' # ?h # script_words L keyCount xs"
    "call_words L ?q' = lit ''EVAL'' # src # script_words L keyCount xs"
    by (simp_all add: call_words_args Script_args_words NewScript_def)
  show ?thesis
  proof (cases "src \<in> loaded st")
    case True
    then have "srv st (call_words L ?q) = (st', r)"
      using assms(1,3) unfolding w script_server_def by metis
    then show ?thesis
      using assms(4) by (simp add: Script_Do_def srv_ask_eq NewScript_def)
  next
    case False
    let ?r = "RError (lit ''NOSCRIPT No matching script. Please use EVAL.'')"
    have "\<forall>src' \<in> loaded st. hex_EncodeToString (sha1_Sum src') \<noteq> ?h"
      using assms(2) False by metis
    then have 1: "srv st (call_words L ?q) = (st, ?r)"
      using assms(1) unfolding w script_server_def by metis
    have 2: "srv st (call_words L ?q') = (st', r)"
      using assms(1,3) unfolding w script_server_def by metis
    have "noscript (Err (reply_result ?r))"
      by (simp add: noscript_def reply_result_def)
    then show ?thesis
      using srv_ask_eq [where srv = srv and L = L and q = ?q, OF 1] srv_ask_eq [where srv = srv and L = L and q = ?q', OF 2] by (simp add: Script_Do_def NewScript_def)
  qed
qed

text \<open>A server whose scripts return the number of their arguments.\<close>

definition sample_scripts :: "bytes list \<Rightarrow> bytes list \<Rightarrow> bytes list \<times> resp" where
  "sample_scripts st ws =
     (if ws = [] \<or> tl ws = [] then (st, RNilBulk)
      else if hd ws = lit ''EVAL'' then (List.insert (ws ! 1) st, RInt (of_nat (length ws - 2)))
      else if hd ws = lit ''EVALSHA'' then
        (if \<exists>src \<in> set st. hex_EncodeToString (sha1_Sum src) = ws ! 1 then (st, RInt (of_nat (length ws - 2)))
         else (st, RError (lit ''NOSCRIPT No matching script. Please use EVAL.'')))
      else (st, RNilBulk))"

theorem Script_Do_evaluates_witness:
  "Script_Do (srv_ask plain_fmt sample_scripts) [] (NewScript 0 (lit ''return 1'')) [IString (lit ''a'')] = ((IInt64 2, None), [lit ''return 1''])"
proof -
  have "script_server sample_scripts set (\<lambda>st src. List.insert src st) (\<lambda>st src args. (st, RInt (of_nat (length args))))"
    by (auto simp: script_server_def sample_scripts_def)
  from Script_Do_evaluates [OF this, of "[]" "lit ''return 1''" plain_fmt 0 "[IString (lit ''a'')]" "[lit ''return 1'']" "RInt 2"]
  show ?thesis
    by (simp add: script_words_def noscript_def reply_result_def List.insert_def)
qed

end
