(* ===== verification/Redis_Helper.thy ===== *)
theory Redis_Helper
  imports Redis_Script Redis_ScanProofs "HOL-Library.AList"
begin

text \<open>
  The commands on keys and objects, \<open>lib/redis/helper.go\<close>: \<open>RedisOp\<close> over a connection and \<open>RedisObj\<close> over a pool.  The
  parameters \<open>ask\<close> and \<open>send\<close> are the connection's ways to wait for a command and to send one; \<open>None\<close> is a panic.
\<close>

section \<open>RedisOp\<close>

definition RedisOp_Set :: "'s conn_send \<Rightarrow> 's \<Rightarrow> bytes \<Rightarrow> iface \<Rightarrow> redis_error option \<times> 's" where
  "RedisOp_Set send st key val = send st (args2 (lit ''SET'') (IString key) val False)"

definition RedisOp_SetEX :: "'s conn_send \<Rightarrow> 's \<Rightarrow> bytes \<Rightarrow> 64 word \<Rightarrow> iface \<Rightarrow> redis_error option \<times> 's" where
  "RedisOp_SetEX send st key seconds val = send st (args3 (lit ''SETEX'') (IString key) (IInt64 seconds) val False)"

definition RedisOp_SetObject :: "'s conn_send \<Rightarrow> 's \<Rightarrow> bytes \<Rightarrow> flat_arg \<Rightarrow> (redis_error option \<times> 's) option" where
  "RedisOp_SetObject send st key obj = do {
     args \<leftarrow> Args_AddFlat (Args_Add [] [IString key]) obj;
     Some (send st (argsN (lit ''HMSET'') args False))
   }"

definition RedisOp_SetField :: "'s conn_send \<Rightarrow> 's \<Rightarrow> bytes \<Rightarrow> bytes \<Rightarrow> iface \<Rightarrow> redis_error option \<times> 's" where
  "RedisOp_SetField send st key fieldKey obj = send st (args3 (lit ''HSET'') (IString key) (IString fieldKey) obj False)"

definition RedisOp_Get :: "'s conn_do \<Rightarrow> 's \<Rightarrow> bytes \<Rightarrow> (iface \<times> redis_error option) \<times> 's" where
  "RedisOp_Get ask st key = ask st (args1 (lit ''GET'') (IString key) True)"

definition RedisOp_GetObject1 :: "go_fmt \<Rightarrow> 's conn_do \<Rightarrow> 's \<Rightarrow> bytes \<Rightarrow> struct_dest \<Rightarrow> (struct_dest result \<times> 's) option" where
  "RedisOp_GetObject1 L ask st key obj =
     (let ((reply, rerr), st1) = ask st (args1 (lit ''HGETALL'') (IString key) True) in
      case Values reply rerr of
        (v, Some err) \<Rightarrow> Some ((obj, Some err), st1)
      | (v, None) \<Rightarrow> map_option (\<lambda>r. (r, st1)) (ScanStruct L v obj))"

text \<open>The names of the fields come in the order \<open>iter\<close> in which Go visits the map.\<close>

definition RedisOp_GetObject ::
  "((bytes \<rightharpoonup> fieldSpec) \<Rightarrow> bytes list) \<Rightarrow> go_fmt \<Rightarrow> 's conn_do \<Rightarrow> 's \<Rightarrow> bytes \<Rightarrow> struct_dest \<Rightarrow> (struct_dest result \<times> 's) option" where
  "RedisOp_GetObject iter L ask st key obj = do {
     (names, e) \<leftarrow> GetStructFields iter obj;
     if e \<noteq> None then Some ((obj, e), st)
     else do {
       args \<leftarrow> Args_AddFlat (Args_Add [] [IString key]) (FSlice (map IBytes names));
       let ((reply, rerr), st1) = ask st (argsN (lit ''HMGET'') args True) in
       case Values reply rerr of
         (v, Some err) \<Rightarrow> Some ((obj, Some err), st1)
       | (v, None) \<Rightarrow> map_option (\<lambda>r. (r, st1)) (ScanStructByValue L v (map Some names) obj)
     }
   }"

definition RedisOp_Incrby :: "'s conn_send \<Rightarrow> 's \<Rightarrow> bytes \<Rightarrow> iface \<Rightarrow> redis_error option \<times> 's" where
  "RedisOp_Incrby send st key val = send st (args2 (lit ''INCRBY'') (IString key) val False)"

definition RedisOp_FieldIncrby :: "'s conn_send \<Rightarrow> 's \<Rightarrow> bytes \<Rightarrow> iface \<Rightarrow> iface \<Rightarrow> redis_error option \<times> 's" where
  "RedisOp_FieldIncrby send st key fieldKey val = send st (args3 (lit ''HINCRBY'') (IString key) fieldKey val False)"

definition RedisOp_GetField :: "'s conn_do \<Rightarrow> 's \<Rightarrow> bytes \<Rightarrow> iface \<Rightarrow> (iface \<times> redis_error option) \<times> 's" where
  "RedisOp_GetField ask st objKey fieldKey = ask st (args2 (lit ''HGET'') (IString objKey) fieldKey True)"

text \<open>The answers of the commands that tell whether something is there; an error counts as no.\<close>

definition ask_bool :: "(iface \<times> redis_error option) \<times> 's \<Rightarrow> bool \<times> 's" where
  "ask_bool r = (let ((reply, rerr), st) = r; (v, err) = Bool reply rerr in (if err \<noteq> None then False else v, st))"

definition RedisOp_Exist :: "'s conn_do \<Rightarrow> 's \<Rightarrow> bytes \<Rightarrow> bool \<times> 's" where
  "RedisOp_Exist ask st key = ask_bool (ask st (args1 (lit ''EXISTS'') (IString key) True))"

definition RedisOp_ExistField :: "'s conn_do \<Rightarrow> 's \<Rightarrow> bytes \<Rightarrow> iface \<Rightarrow> bool \<times> 's" where
  "RedisOp_ExistField ask st objKey fieldKey = ask_bool (ask st (args2 (lit ''HEXISTS'') (IString objKey) fieldKey True))"

definition RedisOp_DelField :: "'s conn_do \<Rightarrow> 's \<Rightarrow> iface \<Rightarrow> iface \<Rightarrow> bool \<times> 's" where
  "RedisOp_DelField ask st objKey fieldKey = ask_bool (ask st (args2 (lit ''HDEL'') objKey fieldKey True))"

definition RedisOp_Del :: "'s conn_do \<Rightarrow> 's \<Rightarrow> bytes \<Rightarrow> bool \<times> 's" where
  "RedisOp_Del ask st key = ask_bool (ask st (args1 (lit ''DEL'') (IString key) True))"

text \<open>
  The rows of \<open>GEORADIUS\<close>: in each the first element is the member and the others are coordinates.  Errors in the rows
  and the coordinates are dropped, with what the converter returned beside the error.
\<close>

fun geo_data_uint :: "go_fmt \<Rightarrow> nat \<Rightarrow> iface list \<Rightarrow> (64 word) list \<times> (64 word) list \<Rightarrow> redis_error + (64 word) list \<times> (64 word) list" where
  "geo_data_uint L idx [] (ids, poss) = Inr (ids, poss)"
| "geo_data_uint L idx (d # datas) (ids, poss) =
     (if idx = 0 then (case Uint64 d None of
          (i, Some err) \<Rightarrow> Inl err
        | (i, None) \<Rightarrow> geo_data_uint L (idx + 1) datas (ids @ [i], poss))
      else geo_data_uint L (idx + 1) datas (ids, poss @ fst (Float64s L d None)))"

fun geo_rows_uint :: "go_fmt \<Rightarrow> iface list \<Rightarrow> (64 word) list \<times> (64 word) list \<Rightarrow> redis_error + (64 word) list \<times> (64 word) list" where
  "geo_rows_uint L [] acc = Inr acc"
| "geo_rows_uint L (v # vs) acc =
     (case geo_data_uint L 0 (fst (Values v None)) acc of
        Inl err \<Rightarrow> Inl err
      | Inr acc1 \<Rightarrow> geo_rows_uint L vs acc1)"

definition geo_args :: "bytes \<Rightarrow> 64 word \<Rightarrow> 64 word \<Rightarrow> 64 word \<Rightarrow> 64 word \<Rightarrow> iface list" where
  "geo_args key longi lati radius cnt =
     [IString key, IFloat64 longi, IFloat64 lati, IInt64 radius, IString (lit ''m''), IString (lit ''WITHCOORD''),
      IString (lit ''COUNT''), IInt64 cnt, IString (lit ''ASC'')]"

definition GeoRadiusUint ::
  "go_fmt \<Rightarrow> 's conn_do \<Rightarrow> 's \<Rightarrow> bytes \<Rightarrow> 64 word \<Rightarrow> 64 word \<Rightarrow> 64 word \<Rightarrow> 64 word \<Rightarrow>
    ((64 word) list \<times> (64 word) list \<times> redis_error option) \<times> 's" where
  "GeoRadiusUint L ask st key longi lati radius cnt =
     (let ((reply, rerr), st1) = ask st (argsN (lit ''GEORADIUS'') (geo_args key longi lati radius cnt) True) in
      (case Values reply rerr of
         (values, Some err) \<Rightarrow> ([], [], Some err)
       | (values, None) \<Rightarrow> (case geo_rows_uint L values ([], []) of
             Inl err \<Rightarrow> ([], [], Some err)
           | Inr (ids, poss) \<Rightarrow> (ids, poss, None)), st1))"

fun geo_data_string :: "go_fmt \<Rightarrow> nat \<Rightarrow> iface list \<Rightarrow> bytes list \<times> (64 word) list \<Rightarrow> bytes list \<times> (64 word) list" where
  "geo_data_string L idx [] (ids, poss) = (ids, poss)"
| "geo_data_string L idx (d # datas) (ids, poss) =
     (if idx = 0 then geo_data_string L (idx + 1) datas (ids @ [fst (String d None)], poss)
      else geo_data_string L (idx + 1) datas (ids, poss @ fst (Float64s L d None)))"

definition GeoRadiusString ::
  "go_fmt \<Rightarrow> 's conn_do \<Rightarrow> 's \<Rightarrow> bytes \<Rightarrow> 64 word \<Rightarrow> 64 word \<Rightarrow> 64 word \<Rightarrow> 64 word \<Rightarrow>
    (bytes list \<times> (64 word) list \<times> redis_error option) \<times> 's" where
  "GeoRadiusString L ask st key longi lati radius cnt =
     (let ((reply, rerr), st1) = ask st (argsN (lit ''GEORADIUS'') (geo_args key longi lati radius cnt) True) in
      (case Values reply rerr of
         (values, Some err) \<Rightarrow> ([], [], Some err)
       | (values, None) \<Rightarrow>
           (let (ids, poss) = fold (\<lambda>v acc. geo_data_string L 0 (fst (Values v None)) acc) values ([], []) in (ids, poss, None)), st1))"

definition RedisOp_SetExpire :: "'s conn_send \<Rightarrow> 's \<Rightarrow> bytes \<Rightarrow> 64 word \<Rightarrow> redis_error option \<times> 's" where
  "RedisOp_SetExpire send st key second = send st (args2 (lit ''EXPIRE'') (IString key) (IInt second) False)"

definition RedisOp_SetExpireAt :: "'s conn_send \<Rightarrow> 's \<Rightarrow> bytes \<Rightarrow> 64 word \<Rightarrow> redis_error option \<times> 's" where
  "RedisOp_SetExpireAt send st key timestamp = send st (args2 (lit ''EXPIREAT'') (IString key) (IInt64 timestamp) False)"

definition RedisOp_Do :: "'s conn_do \<Rightarrow> 's \<Rightarrow> bytes \<Rightarrow> iface list \<Rightarrow> (iface \<times> redis_error option) \<times> 's" where
  "RedisOp_Do ask st commandName args = ask st (argsN commandName args True)"

definition RedisOp_Send :: "'s conn_send \<Rightarrow> 's \<Rightarrow> bytes \<Rightarrow> iface list \<Rightarrow> redis_error option \<times> 's" where
  "RedisOp_Send send st commandName args = send st (argsN commandName args False)"

definition RedisOp_GetFields :: "'s conn_do \<Rightarrow> 's \<Rightarrow> bytes \<Rightarrow> iface list \<Rightarrow> ((iface \<times> redis_error option) \<times> 's) option" where
  "RedisOp_GetFields ask st objKey args =
     map_option (RedisOp_Do ask st (lit ''HMGET'')) (Args_AddFlat (Args_Add [] [IString objKey]) (FSlice args))"

definition RedisOp_SetFields :: "'s conn_do \<Rightarrow> 's \<Rightarrow> bytes \<Rightarrow> iface list \<Rightarrow> ((iface \<times> redis_error option) \<times> 's) option" where
  "RedisOp_SetFields ask st objKey args =
     map_option (RedisOp_Do ask st (lit ''HMSET'')) (Args_AddFlat (Args_Add [] [IString objKey]) (FSlice args))"

section \<open>RedisObj\<close>

text \<open>An object has its name for the key, and its commands go through a pool, which checks the length of the name.\<close>

definition RedisObj_SetExpire :: "'s conn_send \<Rightarrow> 's \<Rightarrow> bytes \<Rightarrow> 64 word \<Rightarrow> redis_error option \<times> 's" where
  "RedisObj_SetExpire send st name second = RedisPool_Send send st (lit ''EXPIRE'') [IString name, IInt second]"

definition RedisObj_Set :: "'s conn_send \<Rightarrow> 's \<Rightarrow> bytes \<Rightarrow> flat_arg \<Rightarrow> (redis_error option \<times> 's) option" where
  "RedisObj_Set send st name val =
     map_option (RedisPool_Send send st (lit ''HMSET'')) (Args_AddFlat (Args_Add [] [IString name]) val)"

definition RedisObj_SetField :: "'s conn_send \<Rightarrow> 's \<Rightarrow> bytes \<Rightarrow> iface \<Rightarrow> iface \<Rightarrow> redis_error option \<times> 's" where
  "RedisObj_SetField send st name fieldKey val = RedisPool_SendArg3 send st (lit ''HSET'') (IString name) fieldKey val"

definition RedisObj_Get :: "go_fmt \<Rightarrow> 's conn_do \<Rightarrow> 's \<Rightarrow> bytes \<Rightarrow> struct_dest \<Rightarrow> (struct_dest result \<times> 's) option" where
  "RedisObj_Get L ask st name val =
     (let ((reply, rerr), st1) = RedisPool_DoArg1 ask st (lit ''HGETALL'') (IString name) in
      case Values reply rerr of
        (v, Some err) \<Rightarrow> Some ((val, Some err), st1)
      | (v, None) \<Rightarrow> map_option (\<lambda>r. (r, st1)) (ScanStruct L v val))"

definition RedisObj_GetField :: "'s conn_do \<Rightarrow> 's \<Rightarrow> bytes \<Rightarrow> bytes \<Rightarrow> (iface \<times> redis_error option) \<times> 's" where
  "RedisObj_GetField ask st name fieldKey = RedisPool_DoArg2 ask st (lit ''HGET'') (IString name) (IString fieldKey)"

definition RedisObj_Incrby :: "'s conn_send \<Rightarrow> 's \<Rightarrow> bytes \<Rightarrow> bytes \<Rightarrow> redis_error option \<times> 's" where
  "RedisObj_Incrby send st name fieldKey =
     RedisPool_SendArg3 send st (lit ''HINCRBY'') (IString name) (IString fieldKey) (IInt 1)"

definition RedisObj_Size :: "'s conn_do \<Rightarrow> 's \<Rightarrow> bytes \<Rightarrow> (64 word) result \<times> 's" where
  "RedisObj_Size ask st name =
     (let ((reply, rerr), st1) = RedisPool_DoArg1 ask st (lit ''HLEN'') (IString name) in (Int_reply reply rerr, st1))"

definition RedisObj_Remove :: "'s conn_send \<Rightarrow> 's \<Rightarrow> bytes \<Rightarrow> bytes \<Rightarrow> redis_error option \<times> 's" where
  "RedisObj_Remove send st name fieldKey = RedisPool_SendArg2 send st (lit ''HDEL'') (IString name) (IString fieldKey)"

definition RedisObj_HasField :: "'s conn_do \<Rightarrow> 's \<Rightarrow> bytes \<Rightarrow> bytes \<Rightarrow> bool \<times> 's" where
  "RedisObj_HasField ask st name fieldKey =
     ask_bool (RedisPool_DoArg2 ask st (lit ''HEXISTS'') (IString name) (IString fieldKey))"

definition RedisObj_Exist :: "'s conn_do \<Rightarrow> 's \<Rightarrow> bytes \<Rightarrow> bool \<times> 's" where
  "RedisObj_Exist ask st name = ask_bool (RedisPool_DoArg1 ask st (lit ''EXISTS'') (IString name))"

definition RedisObj_Clear :: "'s conn_send \<Rightarrow> 's \<Rightarrow> bytes \<Rightarrow> redis_error option \<times> 's" where
  "RedisObj_Clear send st name = RedisPool_SendArg1 send st (lit ''DEL'') (IString name)"

section \<open>Objects in a hash\<close>

text \<open>
  What the server does with the commands on hashes: \<open>HMSET\<close> adds the pairs it is given, later ones last, \<open>HGETALL\<close> returns all pairs in any
  order, and \<open>HMGET\<close> the values of the fields asked for, nil for one that is not there.  \<open>K\<close> are the keys that are used for hashes.
\<close>

definition hash_server :: "bytes set \<Rightarrow> ('s \<Rightarrow> bytes list \<Rightarrow> 's \<times> resp) \<Rightarrow> ('s \<Rightarrow> bytes \<Rightarrow> bytes \<rightharpoonup> bytes) \<Rightarrow> bool" where
  "hash_server K srv hash \<longleftrightarrow> (\<forall>st. \<forall>key \<in> K.
     (\<forall>ps. ps \<noteq> [] \<longrightarrow>
        hash (fst (srv st (lit ''HMSET'' # key # concat (map (\<lambda>(f, x). [f, x]) ps)))) key = hash st key ++ map_of (rev ps)) \<and>
     (\<exists>kvs. distinct (map fst kvs) \<and> map_of kvs = hash st key \<and>
        snd (srv st [lit ''HGETALL'', key]) = RArray (concat (map (\<lambda>(f, x). [RBulk f, RBulk x]) kvs))) \<and>
     (\<forall>fs. fs \<noteq> [] \<longrightarrow> snd (srv st (lit ''HMGET'' # key # fs)) =
        RArray (map (\<lambda>f. case hash st key f of None \<Rightarrow> RNilBulk | Some x \<Rightarrow> RBulk x) fs)))"

definition field_text :: "go_fmt \<Rightarrow> gval \<Rightarrow> fieldSpec \<Rightarrow> bytes" where
  "field_text L v fs = arg_text L (to_iface (the (FieldByIndex (fs_index fs) v)))"

lemma flatten_fields_words:
  assumes "\<forall>fs \<in> set fss. FieldByIndex (fs_index fs) v \<noteq> None"
  shows "\<exists>args. flatten_fields fss v as = Some (as @ args) \<and>
    map (arg_text L) args = concat (map (\<lambda>(f, x). [f, x]) (map (\<lambda>fs. (fs_name fs, field_text L v fs)) fss))"
  using assms
proof (induction fss arbitrary: as)
  case (Cons fs fss)
  then obtain x where x: "FieldByIndex (fs_index fs) v = Some x" by auto
  obtain args where "flatten_fields fss v (as @ [IString (fs_name fs), to_iface x]) = Some ((as @ [IString (fs_name fs), to_iface x]) @ args)"
    "map (arg_text L) args = concat (map (\<lambda>(f, x). [f, x]) (map (\<lambda>fs. (fs_name fs, field_text L v fs)) fss))"
    using Cons.IH [of "as @ [IString (fs_name fs), to_iface x]"] Cons.prems by auto
  then show ?case
    using x by (simp add: field_text_def)
qed simp

lemma map_of_rev_distinct: "distinct (map fst ps) \<Longrightarrow> map_of (rev ps) = map_of ps"
  by (rule map_of_inject_set [THEN iffD2]) (simp_all add: rev_map [symmetric])

text \<open>The hash holds the text of every field of the table.\<close>

definition holds_fields :: "go_fmt \<Rightarrow> structSpec \<Rightarrow> gval \<Rightarrow> (bytes \<rightharpoonup> bytes) \<Rightarrow> bool" where
  "holds_fields L ss v h \<longleftrightarrow> (\<forall>n fs. ss_m ss n = Some fs \<longrightarrow> h n = Some (field_text L v fs))"

lemma SetObject_words:
  assumes "structSpecForType t = Some ss" "has_type v (TStruct t)"
  shows "RedisOp_SetObject (srv_send L srv) st key (FStruct t v) = Some (None, fst (srv st (lit ''HMSET'' # key #
    concat (map (\<lambda>(f, x). [f, x]) (map (\<lambda>fs. (fs_name fs, field_text L v fs)) (ss_l ss))))))"
proof -
  let ?ps = "map (\<lambda>fs. (fs_name fs, field_text L v fs)) (ss_l ss)"
  have "\<forall>fs \<in> set (ss_l ss). FieldByIndex (fs_index fs) v \<noteq> None"
    using structSpecForType_inv [OF assms(1)] valid_spec_value assms(2) by (fastforce simp: spec_inv_def)
  then obtain args where args: "flatten_fields (ss_l ss) v [IString key] = Some ([IString key] @ args)"
      "map (arg_text L) args = concat (map (\<lambda>(f, x). [f, x]) ?ps)"
    using flatten_fields_words [of "ss_l ss" v "[IString key]" L] by blast
  then show ?thesis
    using assms(1) by (simp add: RedisOp_SetObject_def Args_AddFlat_def Args_Add_def flattenStruct_def srv_send_def call_words_args)
qed

lemma SetObject_holds:
  assumes "hash_server K srv hash" "structSpecForType t = Some ss" "distinct (map fs_name (ss_l ss))" "ss_l ss \<noteq> []"
    and "has_type v (TStruct t)"
    and K: "key \<in> K"
  shows "\<exists>st1. RedisOp_SetObject (srv_send L srv) st key (FStruct t v) = Some (None, st1) \<and> holds_fields L ss v (hash st1 key)"
proof -
  note inv = structSpecForType_inv [OF assms(2)]
  let ?ps = "map (\<lambda>fs. (fs_name fs, field_text L v fs)) (ss_l ss)"
  let ?st1 = "fst (srv st (lit ''HMSET'' # key # concat (map (\<lambda>(f, x). [f, x]) ?ps)))"
  have 1: "RedisOp_SetObject (srv_send L srv) st key (FStruct t v) = Some (None, ?st1)"
    by (rule SetObject_words [OF assms(2,5)])
  have d: "distinct (map fst ?ps)"
    using assms(3) by (simp add: comp_def)
  have "?ps \<noteq> []"
    using assms(4) by simp
  then have h: "hash ?st1 key = hash st key ++ map_of ?ps"
    using assms(1) K unfolding map_of_rev_distinct [OF d, symmetric] hash_server_def by blast
  have "hash ?st1 key n = Some (field_text L v fs)" if n: "ss_m ss n = Some fs" for n fs
  proof -
    have "fs \<in> set (ss_l ss)" "fs_name fs = n"
      using inv n by (auto simp: spec_inv_def)
    then have "map_of ?ps n = Some (field_text L v fs)"
      using d by (intro map_of_is_SomeI) auto
    then show ?thesis
      unfolding h by simp
  qed
  then show ?thesis
    using 1 unfolding holds_fields_def by blast
qed

lemma holds_texts_of:
  assumes "spec_inv t ss" "has_type v (TStruct t)" "holds_fields L ss v h"
    and "\<forall>fs \<in> set (ss_l ss). \<forall>x. FieldByIndex (fs_index fs) v = Some x \<longrightarrow> storable L x"
    and "\<And>n tx. (n, tx) \<in> set kvs \<Longrightarrow> h n = Some tx"
  shows "texts_of L ss v kvs"
  unfolding texts_of_def
proof (intro ballI, clarify)
  fix n tx fs
  assume n: "(n, tx) \<in> set kvs" "ss_m ss n = Some fs"
  have l: "fs \<in> set (ss_l ss)" "valid_spec t fs"
    using assms(1) n(2) by (auto simp: spec_inv_def)
  then obtain x where x: "FieldByIndex (fs_index fs) v = Some x"
    using valid_spec_value assms(2) by blast
  have "h n = Some (field_text L v fs)"
    using assms(3) n(2) by (simp add: holds_fields_def)
  then show "\<exists>x. FieldByIndex (fs_index fs) v = Some x \<and> storable L x \<and> tx = arg_text L (to_iface x)"
    using assms(4,5) n(1) l x by (auto simp: field_text_def)
qed

lemma spec_fields_eq:
  assumes "spec_inv t ss" "distinct (map fs_name (ss_l ss))" "scanned ss N v d d'" "dom (ss_m ss) \<subseteq> N" "fs \<in> set (ss_l ss)"
  shows "FieldByIndex (fs_index fs) d' = FieldByIndex (fs_index fs) v"
proof -
  obtain gs where gs: "ss_m ss (fs_name fs) = Some gs"
    using assms(1,5) by (fastforce simp: spec_inv_def)
  then have "gs \<in> set (ss_l ss)" "fs_name gs = fs_name fs"
    using assms(1) by (auto simp: spec_inv_def)
  then have "gs = fs"
    using assms(2,5) by (metis distinct_map inj_onD)
  then show ?thesis
    using assms(3,4) gs by (auto simp: scanned_def)
qed

lemma resp_pairs: "map resp_value (concat (map (\<lambda>(f, x). [RBulk f, RBulk x]) kvs)) = flat_pairs kvs"
  by (induction kvs) (auto simp: flat_pairs_def)

lemma GetObject1_reads:
  assumes "hash_server K srv hash" "structSpecForType t = Some ss" "distinct (map fs_name (ss_l ss))"
    and "has_type v (TStruct t)" "has_type d (TStruct t)" "holds_fields L ss v (hash st key)"
    and "\<forall>fs \<in> set (ss_l ss). \<forall>x. FieldByIndex (fs_index fs) v = Some x \<longrightarrow> storable L x"
    and K: "key \<in> K"
  shows "\<exists>d' st1. RedisOp_GetObject1 L (srv_ask L srv) st key (SPtr t d) = Some ((SPtr t d', None), st1) \<and>
    (\<forall>fs \<in> set (ss_l ss). FieldByIndex (fs_index fs) d' = FieldByIndex (fs_index fs) v)"
proof -
  note inv = structSpecForType_inv [OF assms(2)]
  obtain kvs where kvs: "distinct (map fst kvs)" "map_of kvs = hash st key"
      "snd (srv st [lit ''HGETALL'', key]) = RArray (concat (map (\<lambda>(f, x). [RBulk f, RBulk x]) kvs))"
    using assms(1) K unfolding hash_server_def by blast
  have "texts_of L ss v kvs"
    using kvs(1) by (intro holds_texts_of [OF inv assms(4,6,7)]) (simp add: kvs(2) [symmetric])
  then obtain d' where d': "scan_struct_loop L ss (flat_pairs kvs) d = Some (d', None)" "scanned ss (fst ` set kvs) v d d'"
    using scan_struct_loop_pairs [OF inv assms(4,5) kvs(1)] by blast
  have "dom (ss_m ss) \<subseteq> dom (hash st key)"
    using assms(6) by (auto simp: holds_fields_def)
  then have "dom (ss_m ss) \<subseteq> fst ` set kvs"
    by (simp add: kvs(2) [symmetric] dom_map_of_conv_image_fst)
  then have "\<forall>fs \<in> set (ss_l ss). FieldByIndex (fs_index fs) d' = FieldByIndex (fs_index fs) v"
    using spec_fields_eq [OF inv assms(3) d'(2)] by blast
  moreover obtain st1 where "srv st [lit ''HGETALL'', key] = (st1, RArray (concat (map (\<lambda>(f, x). [RBulk f, RBulk x]) kvs)))"
    using kvs(3) by (metis prod.collapse)
  then have "RedisOp_GetObject1 L (srv_ask L srv) st key (SPtr t d) = Some ((SPtr t d', None), st1)"
    using d'(1) assms(2)
    by (simp add: RedisOp_GetObject1_def srv_ask_def call_words_args reply_result_def Values_def conv_array_def resp_pairs
      ScanStruct_def length_flat_pairs)
  ultimately show ?thesis by blast
qed

lemma GetObject_reads:
  assumes "hash_server K srv hash" "structSpecForType t = Some ss" "distinct (map fs_name (ss_l ss))" "ss_l ss \<noteq> []"
    and "has_type v (TStruct t)" "has_type d (TStruct t)" "holds_fields L ss v (hash st key)"
    and "\<forall>fs \<in> set (ss_l ss). \<forall>x. FieldByIndex (fs_index fs) v = Some x \<longrightarrow> storable L x"
    and iter: "set (iter (ss_m ss)) = dom (ss_m ss)" "distinct (iter (ss_m ss))"
    and K: "key \<in> K"
  shows "\<exists>d' st1. RedisOp_GetObject iter L (srv_ask L srv) st key (SPtr t d) = Some ((SPtr t d', None), st1) \<and>
    st1 = fst (srv st (lit ''HMGET'' # key # iter (ss_m ss))) \<and>
    (\<forall>fs \<in> set (ss_l ss). FieldByIndex (fs_index fs) d' = FieldByIndex (fs_index fs) v)"
proof -
  note inv = structSpecForType_inv [OF assms(2)]
  let ?names = "iter (ss_m ss)"
  let ?kvs = "map (\<lambda>n. (n, the (hash st key n))) ?names"
  have "(case ss_m ss n of Some fs \<Rightarrow> fs_name fs | None \<Rightarrow> []) = n" if "n \<in> set ?names" for n
    using that iter(1) inv by (auto simp: spec_inv_def split: option.splits)
  then have names: "GetStructFields iter (SPtr t d) = Some (?names, None)"
    using assms(2) by (auto simp: GetStructFields_def map_idI)
  have h: "hash st key n = Some (the (hash st key n))" if "n \<in> set ?names" for n
    using that iter(1) assms(7) by (auto simp: holds_fields_def)
  have "texts_of L ss v ?kvs"
    using h by (intro holds_texts_of [OF inv assms(5,7,8)]) auto
  then obtain d' where d': "scan_struct_loop L ss (flat_pairs ?kvs) d = Some (d', None)" "scanned ss (fst ` set ?kvs) v d d'"
    using scan_struct_loop_pairs [OF inv assms(5,6), of ?kvs L] iter(2) by (auto simp: comp_def)
  have eq: "\<forall>fs \<in> set (ss_l ss). FieldByIndex (fs_index fs) d' = FieldByIndex (fs_index fs) v"
    using spec_fields_eq [OF inv assms(3) d'(2)] iter(1) by (auto simp: image_image)
  have "?names \<noteq> []"
    using assms(4) inv iter(1) by (cases "ss_l ss") (auto simp: spec_inv_def dom_def)
  then have "snd (srv st (lit ''HMGET'' # key # ?names)) = RArray (map (\<lambda>f. case hash st key f of None \<Rightarrow> RNilBulk | Some x \<Rightarrow> RBulk x) ?names)"
    using assms(1) K unfolding hash_server_def by blast
  moreover have "map (\<lambda>f. case hash st key f of None \<Rightarrow> RNilBulk | Some x \<Rightarrow> RBulk x) ?names = map (\<lambda>n. RBulk (the (hash st key n))) ?names"
    using h by (intro map_cong) (auto split: option.split)
  ultimately obtain st1 where st1: "srv st (lit ''HMGET'' # key # ?names) = (st1, RArray (map (\<lambda>n. RBulk (the (hash st key n))) ?names))"
    by (metis prod.collapse)
  have "RedisOp_GetObject iter L (srv_ask L srv) st key (SPtr t d) = Some ((SPtr t d', None), st1)"
    using names st1 d'(1) assms(2) scan_value_loop_pairs [of L ss ?kvs d]
    by (simp add: RedisOp_GetObject_def Args_AddFlat_def Args_Add_def srv_ask_def call_words_args comp_def reply_result_def
      Values_def conv_array_def ScanStructByValue_def)
  then show ?thesis
    using eq st1 by auto
qed

text \<open>
  C14.  An object stored with \<open>SetObject\<close> is read back by \<open>GetObject1\<close>, which asks for all pairs, and by \<open>GetObject\<close>, which asks for
  the fields of the type by name, whatever the hash held before and in whatever order the pairs come and Go visits the table: every field
  of the table has its value again in the destination.  Assumed of the server is what redis documents for \<open>HMSET\<close>, \<open>HGETALL\<close> and
  \<open>HMGET\<close>; the type has fields, with different names and values whose texts parse back.
\<close>

theorem SetObject_GetObject:
  assumes "hash_server K srv hash" "structSpecForType t = Some ss" "distinct (map fs_name (ss_l ss))" "ss_l ss \<noteq> []"
    and "has_type v (TStruct t)" "has_type d (TStruct t)"
    and "\<forall>fs \<in> set (ss_l ss). \<forall>x. FieldByIndex (fs_index fs) v = Some x \<longrightarrow> storable L x"
    and "set (iter (ss_m ss)) = dom (ss_m ss)" "distinct (iter (ss_m ss))"
    and K: "key \<in> K"
  shows "\<exists>st1 d1 d2 st2 st3. RedisOp_SetObject (srv_send L srv) st key (FStruct t v) = Some (None, st1) \<and>
    RedisOp_GetObject1 L (srv_ask L srv) st1 key (SPtr t d) = Some ((SPtr t d1, None), st2) \<and>
    RedisOp_GetObject iter L (srv_ask L srv) st1 key (SPtr t d) = Some ((SPtr t d2, None), st3) \<and>
    (\<forall>fs \<in> set (ss_l ss). FieldByIndex (fs_index fs) d1 = FieldByIndex (fs_index fs) v \<and>
       FieldByIndex (fs_index fs) d2 = FieldByIndex (fs_index fs) v)"
proof -
  obtain st1 where st1: "RedisOp_SetObject (srv_send L srv) st key (FStruct t v) = Some (None, st1)"
      "holds_fields L ss v (hash st1 key)"
    using SetObject_holds [OF assms(1-5) K] by blast
  show ?thesis
    using st1(1) GetObject1_reads [where hash = hash and st = st1 and key = key, OF assms(1-3,5,6) st1(2) assms(7) K]
      GetObject_reads [where hash = hash and st = st1 and key = key and iter = iter, OF assms(1-6) st1(2) assms(7-9) K] by blast
qed

text \<open>A server that keeps its hashes as lists of pairs.\<close>

fun word_pairs :: "bytes list \<Rightarrow> (bytes \<times> bytes) list" where
  "word_pairs (f # x # ws) = (f, x) # word_pairs ws"
| "word_pairs _ = []"

definition sample_hashes :: "(bytes \<Rightarrow> (bytes \<times> bytes) list) \<Rightarrow> bytes list \<Rightarrow> (bytes \<Rightarrow> (bytes \<times> bytes) list) \<times> resp" where
  "sample_hashes st ws = (case ws of
     cmd # key # rest \<Rightarrow>
       if cmd = lit ''HMSET'' then (st(key := rev (word_pairs rest) @ st key), RSimple (lit ''OK''))
       else if cmd = lit ''HGETALL'' then (st, RArray (concat (map (\<lambda>(f, x). [RBulk f, RBulk x]) (AList.clearjunk (st key)))))
       else if cmd = lit ''HMGET'' then (st, RArray (map (\<lambda>f. case map_of (st key) f of None \<Rightarrow> RNilBulk | Some x \<Rightarrow> RBulk x) rest))
       else (st, RError (lit ''ERR unknown command''))
   | _ \<Rightarrow> (st, RError (lit ''ERR unknown command'')))"

lemma word_pairs_concat: "word_pairs (concat (map (\<lambda>(f, x). [f, x]) ps)) = ps"
  by (induction ps) auto

lemma sample_hashes_ok: "hash_server UNIV sample_hashes (\<lambda>st key. map_of (st key))"
  unfolding hash_server_def
proof (intro conjI allI impI ballI)
  fix st key
  show "\<exists>kvs. distinct (map fst kvs) \<and> map_of kvs = map_of (st key) \<and>
      snd (sample_hashes st [lit ''HGETALL'', key]) = RArray (concat (map (\<lambda>(f, x). [RBulk f, RBulk x]) kvs))"
    by (intro exI [of _ "AList.clearjunk (st key)"]) (simp add: sample_hashes_def map_of_clearjunk distinct_clearjunk)
qed (simp_all add: sample_hashes_def word_pairs_concat)

theorem SetObject_GetObject_witness:
  "\<exists>st1 d1 d2 st2 st3. RedisOp_SetObject (srv_send plain_fmt sample_hashes) (\<lambda>_. []) (lit ''k'')
      (FStruct sample_type (sample_val (- 7) (lit ''bob''))) = Some (None, st1) \<and>
    RedisOp_GetObject1 plain_fmt (srv_ask plain_fmt sample_hashes) st1 (lit ''k'') (SPtr sample_type (sample_val 0 [])) =
      Some ((SPtr sample_type d1, None), st2) \<and>
    RedisOp_GetObject (\<lambda>m. [lit ''n'', lit ''ID'']) plain_fmt (srv_ask plain_fmt sample_hashes) st1 (lit ''k'')
      (SPtr sample_type (sample_val 0 [])) = Some ((SPtr sample_type d2, None), st3) \<and>
    FieldByIndex [0] d1 = Some (VInt K_64 (- 7)) \<and> FieldByIndex [0] d2 = Some (VInt K_64 (- 7))"
proof -
  let ?v = "sample_val (- 7) (lit ''bob'')"
  let ?l = "[\<lparr>fs_name = lit ''ID'', fs_index = [0]\<rparr>, \<lparr>fs_name = lit ''n'', fs_index = [1, 0]\<rparr>]"
  let ?m = "[lit ''ID'' \<mapsto> \<lparr>fs_name = lit ''ID'', fs_index = [0]\<rparr>, lit ''n'' \<mapsto> \<lparr>fs_name = lit ''n'', fs_index = [1, 0]\<rparr>]"
  have ss: "structSpecForType sample_type = Some \<lparr>ss_m = ?m, ss_l = ?l\<rparr>"
    by (simp add: sample_type_def structSpecForType_def field_name_def add_field_def Let_def)
  have ty: "has_type ?v (TStruct sample_type)" "has_type (sample_val 0 []) (TStruct sample_type)"
    by (simp_all add: sample_val_def sample_type_def)
  have st: "\<forall>fs \<in> set (ss_l \<lparr>ss_m = ?m, ss_l = ?l\<rparr>). \<forall>x. FieldByIndex (fs_index fs) ?v = Some x \<longrightarrow> storable plain_fmt x"
    by (simp add: sample_val_def)
  have l: "distinct (map fs_name (ss_l \<lparr>ss_m = ?m, ss_l = ?l\<rparr>))" "ss_l \<lparr>ss_m = ?m, ss_l = ?l\<rparr> \<noteq> []"
    by simp_all
  have i: "set ((\<lambda>m. [lit ''n'', lit ''ID'']) (ss_m \<lparr>ss_m = ?m, ss_l = ?l\<rparr>)) = dom (ss_m \<lparr>ss_m = ?m, ss_l = ?l\<rparr>)"
    "distinct ((\<lambda>m. [lit ''n'', lit ''ID'']) (ss_m \<lparr>ss_m = ?m, ss_l = ?l\<rparr>))" by auto
  have "FieldByIndex [0] ?v = Some (VInt K_64 (- 7))"
    by (simp add: sample_val_def)
  then show ?thesis
    using SetObject_GetObject [where iter = "\<lambda>m. [lit ''n'', lit ''ID'']", OF sample_hashes_ok ss l ty st i UNIV_I, of "\<lambda>_. []" "lit ''k''"]
    by auto
qed

end
