(* ===== verification/Web_Admin.thy ===== *)
theory Web_Admin
  imports Redis_Helper "HOL-Library.Multiset"
begin

text \<open>
  The management server, \<open>gredis_webserver\<close>, with the error codes of \<open>common/error.go\<close>.  It hands out redis instances: free
  addresses are in a list of the management database, and each instance has a hash with its data and an entry in a sorted set.

  A handler has the decoded request as its argument (\<open>None\<close> when the body can not be decoded) and the answer as its result.  The
  database is reached through the commands of \<open>RedisOp\<close>; \<open>None\<close> as a result is a panic.
\<close>

section \<open>Error codes\<close>

definition ERR_OK :: int where "ERR_OK = 0"

definition ERR_DB :: int where "ERR_DB = 1"

definition ERR_REDIS_POOLS_EMPTY :: int where "ERR_REDIS_POOLS_EMPTY = 2"

definition ERR_URL_PARSE :: int where "ERR_URL_PARSE = 3"

definition ERR_INVALID_REDIS :: int where "ERR_INVALID_REDIS = 4"

record ErrInfo =
  ei_Ret :: int
  ei_RetInfo :: bytes

definition errInfoList :: "ErrInfo list" where
  "errInfoList =
     [\<lparr>ei_Ret = ERR_OK, ei_RetInfo = lit ''okay''\<rparr>,
      \<lparr>ei_Ret = ERR_DB, ei_RetInfo = lit ''db error''\<rparr>,
      \<lparr>ei_Ret = ERR_REDIS_POOLS_EMPTY, ei_RetInfo = lit ''can not create more redis''\<rparr>,
      \<lparr>ei_Ret = ERR_URL_PARSE, ei_RetInfo = lit ''parse quest failed''\<rparr>,
      \<lparr>ei_Ret = ERR_INVALID_REDIS, ei_RetInfo = lit ''redis not exists''\<rparr>]"

definition errMap :: "int \<rightharpoonup> bytes" where
  "errMap = fold (\<lambda>info m. m(ei_Ret info \<mapsto> ei_RetInfo info)) errInfoList Map.empty"

text \<open>Reading a key a Go map does not have gives the empty string.\<close>

definition ErrDesc :: "int \<Rightarrow> bytes" where
  "ErrDesc err = (case errMap err of None \<Rightarrow> [] | Some s \<Rightarrow> s)"

definition GetErrInfo :: "int \<Rightarrow> ErrInfo" where
  "GetErrInfo ret = \<lparr>ei_Ret = ret, ei_RetInfo = ErrDesc ret\<rparr>"

definition zero_ErrInfo :: ErrInfo where
  "zero_ErrInfo = \<lparr>ei_Ret = 0, ei_RetInfo = []\<rparr>"

section \<open>Instances\<close>

record DB_RedisInfo =
  di_Id :: "64 word"
  di_Name :: bytes
  di_Addr :: bytes
  di_MemUsed :: "64 word"
  di_DBSize :: "64 word"
  di_CTime :: "64 word"

definition zero_RedisInfo :: DB_RedisInfo where
  "zero_RedisInfo = \<lparr>di_Id = 0, di_Name = [], di_Addr = [], di_MemUsed = 0, di_DBSize = 0, di_CTime = 0\<rparr>"

text \<open>The type and a value of \<open>DB_RedisInfo\<close> as reflection sees them.\<close>

definition info_type :: "gofield list" where
  "info_type =
     [GoField (lit ''Id'') True False [] (TUint K_64), GoField (lit ''Name'') True False [] TString,
      GoField (lit ''Addr'') True False [] TString, GoField (lit ''MemUsed'') True False [] (TUint K_64),
      GoField (lit ''DBSize'') True False [] (TUint K_64), GoField (lit ''CTime'') True False [] (TInt K_64)]"

definition info_val :: "DB_RedisInfo \<Rightarrow> gval" where
  "info_val i = VStruct [VUint K_64 (unat (di_Id i)), VString (di_Name i), VString (di_Addr i),
     VUint K_64 (unat (di_MemUsed i)), VUint K_64 (unat (di_DBSize i)), VInt K_64 (sint (di_CTime i))]"

fun uint_field :: "gval \<Rightarrow> nat" where
  "uint_field (VUint k n) = n"
| "uint_field _ = 0"

fun string_field :: "gval \<Rightarrow> bytes" where
  "string_field (VString s) = s"
| "string_field _ = []"

definition info_of :: "gval \<Rightarrow> DB_RedisInfo option" where
  "info_of v = (case v of
     VStruct vs \<Rightarrow>
       if length vs = 6
       then Some \<lparr>di_Id = of_nat (uint_field (vs ! 0)), di_Name = string_field (vs ! 1), di_Addr = string_field (vs ! 2),
              di_MemUsed = of_nat (uint_field (vs ! 3)), di_DBSize = of_nat (uint_field (vs ! 4)), di_CTime = of_int (int_of_gval (vs ! 5))\<rparr>
       else None
   | _ \<Rightarrow> None)"

record RedisInstance =
  ri_Id :: "64 word"
  ri_Name :: bytes
  ri_Addr :: bytes
  ri_MemUsed :: "64 word"
  ri_DBSize :: "64 word"
  ri_CTime :: "64 word"

definition RedisInstance_Conv :: "DB_RedisInfo \<Rightarrow> RedisInstance" where
  "RedisInstance_Conv i = \<lparr>ri_Id = di_Id i, ri_Name = di_Name i, ri_Addr = di_Addr i, ri_MemUsed = di_MemUsed i,
     ri_DBSize = di_DBSize i, ri_CTime = di_CTime i\<rparr>"

definition zero_RedisInstance :: RedisInstance where
  "zero_RedisInstance = RedisInstance_Conv zero_RedisInfo"

record RedisListRet =
  rl_ListInfo :: "RedisInstance list"
  rl_TotalCnt :: "64 word"
  rl_UsedCnt :: "64 word"
  rl_Ret :: ErrInfo

record CreateInstanceRet =
  cr_Instance :: RedisInstance
  cr_Ret :: ErrInfo

section \<open>The management database\<close>

definition Key_RedisIdIndex :: bytes where "Key_RedisIdIndex = lit ''redis_id_index''"

definition Key_RedisPools :: bytes where "Key_RedisPools = lit ''redis_pools''"

definition Key_RedisList :: bytes where "Key_RedisList = lit ''redis_list''"

definition Key_RedisInfo :: bytes where "Key_RedisInfo = lit ''redis_info:''"

definition info_key :: "64 word \<Rightarrow> bytes" where
  "info_key i = Key_RedisInfo @ FormatUint (unat i)"

definition InvalidRedis :: "'s conn_do \<Rightarrow> 's \<Rightarrow> 64 word \<Rightarrow> bool \<times> 's" where
  "InvalidRedis ask st i =
     (let ((reply, rerr), st1) = RedisOp_Do ask st (lit ''EXISTS'') [IString (info_key i)];
          (exist, err) = Int_reply reply rerr in
      (if err \<noteq> None then False else sint exist > 0, st1))"

definition read_info ::
  "((bytes \<rightharpoonup> fieldSpec) \<Rightarrow> bytes list) \<Rightarrow> go_fmt \<Rightarrow> 's conn_do \<Rightarrow> 's \<Rightarrow> bytes \<Rightarrow> (DB_RedisInfo result \<times> 's) option" where
  "read_info iter L ask st key = do {
     ((dst, err), st1) \<leftarrow> RedisOp_GetObject iter L ask st key (SPtr info_type (info_val zero_RedisInfo));
     i \<leftarrow> (case dst of SPtr t v \<Rightarrow> info_of v | _ \<Rightarrow> None);
     Some ((i, err), st1)
   }"

definition GetRedisInfo ::
  "((bytes \<rightharpoonup> fieldSpec) \<Rightarrow> bytes list) \<Rightarrow> go_fmt \<Rightarrow> 's conn_do \<Rightarrow> 's \<Rightarrow> 64 word \<Rightarrow> ((int \<times> DB_RedisInfo option) \<times> 's) option" where
  "GetRedisInfo iter L ask st i =
     map_option (\<lambda>((info, err), st1). (if err \<noteq> None then (ERR_DB, None) else (ERR_OK, Some info), st1))
       (read_info iter L ask st (info_key i))"

text \<open>An error while an instance is read ends the list, with the code for success.\<close>

fun list_infos ::
  "((bytes \<rightharpoonup> fieldSpec) \<Rightarrow> bytes list) \<Rightarrow> go_fmt \<Rightarrow> 's conn_do \<Rightarrow> 's \<Rightarrow> bytes list \<Rightarrow> RedisInstance list \<Rightarrow> (RedisInstance list \<times> 's) option" where
  "list_infos iter L ask st [] acc = Some (acc, st)"
| "list_infos iter L ask st (i # ids) acc = (case read_info iter L ask st (Key_RedisInfo @ i) of
     None \<Rightarrow> None
   | Some ((info, Some err), st1) \<Rightarrow> Some (acc, st1)
   | Some ((info, None), st1) \<Rightarrow> list_infos iter L ask st1 ids (acc @ [RedisInstance_Conv info]))"

definition GetRedisList ::
  "((bytes \<rightharpoonup> fieldSpec) \<Rightarrow> bytes list) \<Rightarrow> go_fmt \<Rightarrow> 's conn_do \<Rightarrow> 's \<Rightarrow> (RedisListRet \<times> 's) option" where
  "GetRedisList iter L ask st =
     (let ((reply, rerr), st1) = RedisOp_Do ask st (lit ''zrange'') [IString Key_RedisList, IInt 0, IInt (- 1)];
          ret = \<lparr>rl_ListInfo = [], rl_TotalCnt = 0, rl_UsedCnt = 0, rl_Ret = GetErrInfo ERR_OK\<rparr> in
      case Strings reply rerr of
        (ids, Some err) \<Rightarrow> Some (ret\<lparr>rl_Ret := GetErrInfo ERR_DB\<rparr>, st1)
      | (ids, None) \<Rightarrow> map_option (\<lambda>(infos, st2). (ret\<lparr>rl_ListInfo := infos\<rparr>, st2)) (list_infos iter L ask st1 ids []))"

definition CreateRedisCheck :: "'s conn_do \<Rightarrow> 's \<Rightarrow> bool \<times> 's" where
  "CreateRedisCheck ask st =
     (let ((reply, rerr), st1) = RedisOp_Do ask st (lit ''llen'') [IString Key_RedisPools];
          (n, err) = Int_reply reply rerr in
      (if err \<noteq> None then False else if sint n \<le> 0 then False else True, st1))"

definition CreateRedis ::
  "'s conn_do \<Rightarrow> 's conn_send \<Rightarrow> 64 word \<Rightarrow> 's \<Rightarrow> bytes \<Rightarrow> ((int \<times> DB_RedisInfo option) \<times> 's) option" where
  "CreateRedis ask send now st name =
     (let ((reply1, rerr1), st1) = RedisOp_Do ask st (lit ''lpop'') [IString Key_RedisPools];
          (addr, err1) = String reply1 rerr1 in
      if err1 \<noteq> None then Some ((ERR_DB, None), st1)
      else if addr = [] then Some ((ERR_REDIS_POOLS_EMPTY, None), st1)
      else
        let ((reply2, rerr2), st2) = RedisOp_Do ask st1 (lit ''incr'') [IString Key_RedisIdIndex];
            (i, err2) = Uint64 reply2 rerr2 in
        if err2 \<noteq> None then Some ((ERR_DB, None), st2)
        else
          let info = \<lparr>di_Id = i, di_Name = name, di_Addr = addr, di_MemUsed = 0, di_DBSize = 0, di_CTime = now\<rparr> in
          case RedisOp_SetObject send st2 (info_key i) (FStruct info_type (info_val info)) of
            None \<Rightarrow> None
          | Some (Some err3, st3) \<Rightarrow> Some ((ERR_DB, None), st3)
          | Some (None, st3) \<Rightarrow>
              (let ((reply4, err4), st4) = RedisOp_Do ask st3 (lit ''zadd'') [IString Key_RedisList, IInt64 (di_CTime info), IUint64 i] in
               Some (if err4 \<noteq> None then (ERR_DB, None) else (ERR_OK, Some info), st4)))"

definition RecycleRedis :: "'s conn_do \<Rightarrow> 's \<Rightarrow> DB_RedisInfo \<Rightarrow> bool \<times> 's" where
  "RecycleRedis ask st info =
     (let ((r1, err1), st1) = RedisOp_Do ask st (lit ''zrem'') [IString Key_RedisList, IUint64 (di_Id info)] in
      if err1 \<noteq> None then (False, st1)
      else let ((r2, err2), st2) = RedisOp_Do ask st1 (lit ''lpush'') [IString Key_RedisPools, IString (di_Addr info)] in
        if err2 \<noteq> None then (False, st2)
        else let (gone, st3) = RedisOp_Del ask st2 (info_key (di_Id info)) in (True, st3))"

section \<open>The handlers\<close>

definition createInstance ::
  "'s conn_do \<Rightarrow> 's conn_send \<Rightarrow> 64 word \<Rightarrow> 's \<Rightarrow> bytes option \<Rightarrow> (CreateInstanceRet \<times> 's) option" where
  "createInstance ask send now st req =
     (let result = \<lparr>cr_Instance = zero_RedisInstance, cr_Ret = zero_ErrInfo\<rparr> in
      case req of
        None \<Rightarrow> Some (result\<lparr>cr_Ret := GetErrInfo ERR_URL_PARSE\<rparr>, st)
      | Some name \<Rightarrow>
          (let (ok, st1) = CreateRedisCheck ask st in
           if \<not> ok then Some (result\<lparr>cr_Ret := GetErrInfo ERR_REDIS_POOLS_EMPTY\<rparr>, st1)
           else case CreateRedis ask send now st1 name of
             None \<Rightarrow> None
           | Some ((errCode, redisInfo), st2) \<Rightarrow>
               if errCode \<noteq> ERR_OK then Some (result\<lparr>cr_Ret := GetErrInfo errCode\<rparr>, st2)
               else map_option (\<lambda>info. (result\<lparr>cr_Instance := RedisInstance_Conv info, cr_Ret := GetErrInfo ERR_OK\<rparr>, st2)) redisInfo))"

text \<open>
  \<open>delInstance\<close> up to the reading of the instance, and as a whole.  Its answer to success is the zero \<open>ErrInfo\<close>.
\<close>

definition delInstance_find ::
  "((bytes \<rightharpoonup> fieldSpec) \<Rightarrow> bytes list) \<Rightarrow> go_fmt \<Rightarrow> 's conn_do \<Rightarrow> 's \<Rightarrow> 64 word \<Rightarrow> ((int + DB_RedisInfo) \<times> 's) option" where
  "delInstance_find iter L ask st i =
     (let (exist, st1) = InvalidRedis ask st i in
      if \<not> exist then Some (Inl ERR_INVALID_REDIS, st1)
      else case GetRedisInfo iter L ask st1 i of
        None \<Rightarrow> None
      | Some ((errCode, redisInfo), st2) \<Rightarrow>
          if errCode \<noteq> ERR_OK then Some (Inl ERR_INVALID_REDIS, st2)
          else map_option (\<lambda>info. (Inr info, st2)) redisInfo)"

definition delInstance ::
  "((bytes \<rightharpoonup> fieldSpec) \<Rightarrow> bytes list) \<Rightarrow> go_fmt \<Rightarrow> 's conn_do \<Rightarrow> 's \<Rightarrow> (64 word) option \<Rightarrow> (ErrInfo \<times> 's) option" where
  "delInstance iter L ask st req = (case req of
     None \<Rightarrow> Some (GetErrInfo ERR_URL_PARSE, st)
   | Some i \<Rightarrow> (case delInstance_find iter L ask st i of
         None \<Rightarrow> None
       | Some (Inl e, st1) \<Rightarrow> Some (GetErrInfo e, st1)
       | Some (Inr info, st1) \<Rightarrow>
           (let (ok, st2) = RecycleRedis ask st1 info in
            Some (if \<not> ok then GetErrInfo ERR_DB else zero_ErrInfo, st2))))"

text \<open>
  \<open>clearInstance\<close> runs \<open>redis-cli\<close> on the instance; \<open>run\<close> is whether the command succeeds.  The second result is the
  command it runs, without its path.
\<close>

definition clearInstance ::
  "((bytes \<rightharpoonup> fieldSpec) \<Rightarrow> bytes list) \<Rightarrow> go_fmt \<Rightarrow> 's conn_do \<Rightarrow> (bytes list \<Rightarrow> bool) \<Rightarrow> 's \<Rightarrow> (64 word) option \<Rightarrow>
    (ErrInfo \<times> bytes list option \<times> 's) option" where
  "clearInstance iter L ask run st req = (case req of
     None \<Rightarrow> Some (GetErrInfo ERR_URL_PARSE, None, st)
   | Some i \<Rightarrow> (case GetRedisInfo iter L ask st i of
         Some ((retCode, Some info), st1) \<Rightarrow>
           if retCode \<noteq> ERR_OK then Some (GetErrInfo ERR_INVALID_REDIS, None, st1)
           else (case split_on (of_char CHR '':'') (di_Addr info) of
               [h, p] \<Rightarrow>
                 (let argv = [lit ''-h'', h, lit ''-p'', p, lit ''_reset_''] in
                  Some (if run argv then zero_ErrInfo else GetErrInfo ERR_INVALID_REDIS, Some argv, st1))
             | _ \<Rightarrow> Some (GetErrInfo ERR_INVALID_REDIS, None, st1))
       | Some ((retCode, None), st1) \<Rightarrow> if retCode \<noteq> ERR_OK then Some (GetErrInfo ERR_INVALID_REDIS, None, st1) else None
       | None \<Rightarrow> None))"

definition redisList :: "((bytes \<rightharpoonup> fieldSpec) \<Rightarrow> bytes list) \<Rightarrow> go_fmt \<Rightarrow> 's conn_do \<Rightarrow> 's \<Rightarrow> (RedisListRet \<times> 's) option" where
  "redisList iter L ask st = GetRedisList iter L ask st"

text \<open>\<open>getInstance\<close> and \<open>findInstance\<close> answer every request with the same made-up instance.\<close>

definition getInstance :: RedisInstance where
  "getInstance = \<lparr>ri_Id = 1, ri_Name = lit ''name1'', ri_Addr = [], ri_MemUsed = 1000, ri_DBSize = 1000, ri_CTime = 1582686617\<rparr>"

definition findInstance :: RedisInstance where
  "findInstance = \<lparr>ri_Id = 1, ri_Name = lit ''name1'', ri_Addr = [], ri_MemUsed = 1000, ri_DBSize = 1000, ri_CTime = 1582686617\<rparr>"

text \<open>The body of a request is what one read of at most 2048 bytes gives.\<close>

definition GetRequestPayload :: "bytes \<Rightarrow> nat \<Rightarrow> bytes" where
  "GetRequestPayload body n = take (min n 2048) body"

end
