(* ===== verification/Web_AdminProofs.thy ===== *)
theory Web_AdminProofs
  imports Web_Admin Redis_ScanTypes
begin

text \<open>
  Every address of the management database is either free or belongs to one instance: creating and deleting instances, one
  request after the other, keeps this, and two deletions of one instance at the same time break it.
\<close>

section \<open>The hash of an instance\<close>

definition info_spec :: structSpec where
  "info_spec = the (structSpecForType info_type)"

definition info_names :: "(bytes \<times> nat) list" where
  "info_names = [(lit ''Id'', 0), (lit ''Name'', 1), (lit ''Addr'', 2), (lit ''MemUsed'', 3), (lit ''DBSize'', 4), (lit ''CTime'', 5)]"

lemma info_spec_Some: "structSpecForType info_type = Some info_spec"
  and info_spec_l: "ss_l info_spec = map (\<lambda>(n, i). \<lparr>fs_name = n, fs_index = [i]\<rparr>) info_names"
proof -
  have "\<exists>m. structSpecForType info_type = Some \<lparr>ss_m = m, ss_l = map (\<lambda>(n, i). \<lparr>fs_name = n, fs_index = [i]\<rparr>) info_names\<rparr>"
    by (simp add: info_type_def info_names_def structSpecForType_def field_name_def add_field_def Let_def)
  then show "structSpecForType info_type = Some info_spec"
    and "ss_l info_spec = map (\<lambda>(n, i). \<lparr>fs_name = n, fs_index = [i]\<rparr>) info_names"
    by (auto simp: info_spec_def)
qed

lemma info_spec_distinct: "distinct (map fs_name (ss_l info_spec))" "ss_l info_spec \<noteq> []"
  by (simp_all add: info_spec_l info_names_def)

lemma info_val_type: "has_type (info_val i) (TStruct info_type)"
  using unat_bound64 [of "di_Id i"] unat_bound64 [of "di_MemUsed i"] unat_bound64 [of "di_DBSize i"]
    sint_ge [of "di_CTime i"] sint_lt [of "di_CTime i"]
  by (simp add: info_val_def info_type_def)

lemma info_fields_storable: "\<forall>fs \<in> set (ss_l info_spec). \<forall>x. FieldByIndex (fs_index fs) (info_val i) = Some x \<longrightarrow> storable L x"
  using unat_bound64 [of "di_Id i"] unat_bound64 [of "di_MemUsed i"] unat_bound64 [of "di_DBSize i"]
    sint_ge [of "di_CTime i"] sint_lt [of "di_CTime i"]
  by (simp add: info_spec_l info_names_def info_val_def)

lemma info_of_fields:
  assumes "has_type v (TStruct info_type)"
    and "\<forall>fs \<in> set (ss_l info_spec). FieldByIndex (fs_index fs) v = FieldByIndex (fs_index fs) (info_val i)"
  shows "info_of v = Some i"
proof -
  obtain vs where vs: "v = VStruct vs" "length vs = 6"
    using assms(1) by (cases v) (auto simp: info_type_def dest: list_all2_lengthD)
  then have "vs ! 0 = VUint K_64 (unat (di_Id i))" "vs ! 1 = VString (di_Name i)" "vs ! 2 = VString (di_Addr i)"
    "vs ! 3 = VUint K_64 (unat (di_MemUsed i))" "vs ! 4 = VUint K_64 (unat (di_DBSize i))" "vs ! 5 = VInt K_64 (sint (di_CTime i))"
    using assms(2) by (simp_all add: info_spec_l info_names_def info_val_def)
  then show ?thesis
    using vs by (simp add: info_of_def)
qed

text \<open>The hash an instance is stored as.\<close>

definition info_hash :: "go_fmt \<Rightarrow> DB_RedisInfo \<Rightarrow> bytes \<rightharpoonup> bytes" where
  "info_hash L i = map_of (map (\<lambda>fs. (fs_name fs, field_text L (info_val i) fs)) (ss_l info_spec))"

lemma info_hash_Addr: "info_hash L i (lit ''Addr'') = Some (di_Addr i)"
  by (simp add: info_hash_def info_spec_l info_names_def field_text_def info_val_def)

lemma info_hash_not_empty: "info_hash L i \<noteq> Map.empty"
  using info_hash_Addr [of L i] by auto

lemma info_hash_holds: "holds_fields L info_spec (info_val i) (info_hash L i)"
proof -
  have "info_hash L i n = Some (field_text L (info_val i) fs)" if "ss_m info_spec n = Some fs" for n fs
  proof -
    have "fs \<in> set (ss_l info_spec)" "fs_name fs = n"
      using structSpecForType_inv [OF info_spec_Some] that by (auto simp: spec_inv_def)
    then show ?thesis
      unfolding info_hash_def using info_spec_distinct(1) by (intro map_of_is_SomeI) (auto simp: comp_def)
  qed
  then show ?thesis by (simp add: holds_fields_def)
qed

lemma GetObject_type:
  assumes "RedisOp_GetObject iter L ask st key (SPtr t d) = Some ((SPtr t' d', err), st')" "structSpecForType t = Some ss"
    and "has_type d (TStruct t)"
  shows "has_type d' (TStruct t')"
proof -
  have *: "has_type d2 (TStruct t2)" if "ScanStructByValue L vs ns (SPtr t d) = Some (SPtr t2 d2, e)" for vs ns t2 d2 e
    using that scan_value_loop_type [OF structSpecForType_inv [OF assms(2)] assms(3), of L vs ns] assms(2,3)
    by (auto simp: ScanStructByValue_def split: if_splits)
  show ?thesis
    using assms(1,3) by (auto simp: RedisOp_GetObject_def Let_def split: bind_splits if_splits option.splits prod.splits dest: *)
qed

section \<open>The database\<close>

record admin_db =
  ad_pool :: "bytes list"
  ad_index :: nat
  ad_hash :: "bytes \<Rightarrow> bytes \<rightharpoonup> bytes"

text \<open>
  What the server does with the commands of the management server: the list of free addresses, the counter, and the hashes at the
  keys of instances.  Commands on the sorted set answer with a number and change none of these.
\<close>

definition admin_server :: "('s \<Rightarrow> bytes list \<Rightarrow> 's \<times> resp) \<Rightarrow> ('s \<Rightarrow> admin_db) \<Rightarrow> bool" where
  "admin_server srv view \<longleftrightarrow>
     hash_server (range info_key) srv (\<lambda>st. ad_hash (view st)) \<and>
     (\<forall>st i fs. view (fst (srv st (lit ''HMGET'' # info_key i # fs))) = view st) \<and>
     (\<forall>st i ps. ps \<noteq> [] \<longrightarrow> (let db = view st in
        view (fst (srv st (lit ''HMSET'' # info_key i # concat (map (\<lambda>(f, x). [f, x]) ps)))) =
        db\<lparr>ad_hash := (ad_hash db)(info_key i := ad_hash db (info_key i) ++ map_of (rev ps))\<rparr>)) \<and>
     (\<forall>st i. view (fst (srv st [lit ''EXISTS'', info_key i])) = view st \<and>
        snd (srv st [lit ''EXISTS'', info_key i]) = RInt (if ad_hash (view st) (info_key i) = Map.empty then 0 else 1)) \<and>
     (\<forall>st i. view (fst (srv st [lit ''DEL'', info_key i])) = (view st)\<lparr>ad_hash := (ad_hash (view st))(info_key i := Map.empty)\<rparr> \<and>
        (\<exists>n. snd (srv st [lit ''DEL'', info_key i]) = RInt n)) \<and>
     (\<forall>st. view (fst (srv st [lit ''llen'', Key_RedisPools])) = view st \<and>
        snd (srv st [lit ''llen'', Key_RedisPools]) = RInt (of_nat (length (ad_pool (view st))))) \<and>
     (\<forall>st. view (fst (srv st [lit ''lpop'', Key_RedisPools])) = (view st)\<lparr>ad_pool := tl (ad_pool (view st))\<rparr> \<and>
        snd (srv st [lit ''lpop'', Key_RedisPools]) = (case ad_pool (view st) of [] \<Rightarrow> RNilBulk | a # _ \<Rightarrow> RBulk a)) \<and>
     (\<forall>st a. view (fst (srv st [lit ''lpush'', Key_RedisPools, a])) = (view st)\<lparr>ad_pool := a # ad_pool (view st)\<rparr> \<and>
        (\<exists>n. snd (srv st [lit ''lpush'', Key_RedisPools, a]) = RInt n)) \<and>
     (\<forall>st. view (fst (srv st [lit ''incr'', Key_RedisIdIndex])) = (view st)\<lparr>ad_index := ad_index (view st) + 1\<rparr> \<and>
        snd (srv st [lit ''incr'', Key_RedisIdIndex]) = RInt (of_nat (ad_index (view st) + 1))) \<and>
     (\<forall>st x y. view (fst (srv st [lit ''zadd'', Key_RedisList, x, y])) = view st \<and>
        (\<exists>n. snd (srv st [lit ''zadd'', Key_RedisList, x, y]) = RInt n)) \<and>
     (\<forall>st x. view (fst (srv st [lit ''zrem'', Key_RedisList, x])) = view st \<and>
        (\<exists>n. snd (srv st [lit ''zrem'', Key_RedisList, x]) = RInt n))"

text \<open>The laws one by one, as the answer a command gets and the database after it.\<close>

lemma admin_laws:
  assumes "admin_server srv view"
  shows "hash_server (range info_key) srv (\<lambda>st. ad_hash (view st))"
    and "view (fst (srv st (lit ''HMGET'' # info_key i # fs))) = view st"
    and "ps \<noteq> [] \<Longrightarrow> view (fst (srv st (lit ''HMSET'' # info_key i # concat (map (\<lambda>(f, x). [f, x]) ps)))) =
      (view st)\<lparr>ad_hash := (ad_hash (view st))(info_key i := ad_hash (view st) (info_key i) ++ map_of (rev ps))\<rparr>"
    and "\<exists>st1. srv st [lit ''EXISTS'', info_key i] = (st1, RInt (if ad_hash (view st) (info_key i) = Map.empty then 0 else 1)) \<and> view st1 = view st"
    and "\<exists>st1 n. srv st [lit ''DEL'', info_key i] = (st1, RInt n) \<and> view st1 = (view st)\<lparr>ad_hash := (ad_hash (view st))(info_key i := Map.empty)\<rparr>"
    and "\<exists>st1. srv st [lit ''llen'', Key_RedisPools] = (st1, RInt (of_nat (length (ad_pool (view st))))) \<and> view st1 = view st"
    and "\<exists>st1. srv st [lit ''lpop'', Key_RedisPools] = (st1, case ad_pool (view st) of [] \<Rightarrow> RNilBulk | a # _ \<Rightarrow> RBulk a) \<and>
      view st1 = (view st)\<lparr>ad_pool := tl (ad_pool (view st))\<rparr>"
    and "\<exists>st1 n. srv st [lit ''lpush'', Key_RedisPools, a] = (st1, RInt n) \<and> view st1 = (view st)\<lparr>ad_pool := a # ad_pool (view st)\<rparr>"
    and "\<exists>st1. srv st [lit ''incr'', Key_RedisIdIndex] = (st1, RInt (of_nat (ad_index (view st) + 1))) \<and>
      view st1 = (view st)\<lparr>ad_index := ad_index (view st) + 1\<rparr>"
    and "\<exists>st1 n. srv st [lit ''zadd'', Key_RedisList, x, y] = (st1, RInt n) \<and> view st1 = view st"
    and "\<exists>st1 n. srv st [lit ''zrem'', Key_RedisList, x] = (st1, RInt n) \<and> view st1 = view st"
proof -
  note laws = assms [unfolded admin_server_def Let_def]
  note law3 = laws [THEN conjunct2, THEN conjunct2, THEN conjunct2]
  note law6 = law3 [THEN conjunct2, THEN conjunct2, THEN conjunct2]
  note law9 = law6 [THEN conjunct2, THEN conjunct2, THEN conjunct2]
  show "hash_server (range info_key) srv (\<lambda>st. ad_hash (view st))"
    using laws [THEN conjunct1] by blast
  show "view (fst (srv st (lit ''HMGET'' # info_key i # fs))) = view st"
    using laws [THEN conjunct2, THEN conjunct1, rule_format] by blast
  show "view (fst (srv st (lit ''HMSET'' # info_key i # concat (map (\<lambda>(f, x). [f, x]) ps)))) =
      (view st)\<lparr>ad_hash := (ad_hash (view st))(info_key i := ad_hash (view st) (info_key i) ++ map_of (rev ps))\<rparr>" if "ps \<noteq> []"
    using laws [THEN conjunct2, THEN conjunct2, THEN conjunct1, rule_format] that by blast
  show "\<exists>st1. srv st [lit ''EXISTS'', info_key i] = (st1, RInt (if ad_hash (view st) (info_key i) = Map.empty then 0 else 1)) \<and> view st1 = view st"
    using law3 [THEN conjunct1, rule_format, of st i] by (cases "srv st [lit ''EXISTS'', info_key i]") auto
  show "\<exists>st1 n. srv st [lit ''DEL'', info_key i] = (st1, RInt n) \<and> view st1 = (view st)\<lparr>ad_hash := (ad_hash (view st))(info_key i := Map.empty)\<rparr>"
    using law3 [THEN conjunct2, THEN conjunct1, rule_format, of st i] by (cases "srv st [lit ''DEL'', info_key i]") auto
  show "\<exists>st1. srv st [lit ''llen'', Key_RedisPools] = (st1, RInt (of_nat (length (ad_pool (view st))))) \<and> view st1 = view st"
    using law3 [THEN conjunct2, THEN conjunct2, THEN conjunct1, rule_format, of st] by (cases "srv st [lit ''llen'', Key_RedisPools]") auto
  show "\<exists>st1. srv st [lit ''lpop'', Key_RedisPools] = (st1, case ad_pool (view st) of [] \<Rightarrow> RNilBulk | a # _ \<Rightarrow> RBulk a) \<and>
      view st1 = (view st)\<lparr>ad_pool := tl (ad_pool (view st))\<rparr>"
    using law6 [THEN conjunct1, rule_format, of st] by (cases "srv st [lit ''lpop'', Key_RedisPools]") auto
  show "\<exists>st1 n. srv st [lit ''lpush'', Key_RedisPools, a] = (st1, RInt n) \<and> view st1 = (view st)\<lparr>ad_pool := a # ad_pool (view st)\<rparr>"
    using law6 [THEN conjunct2, THEN conjunct1, rule_format, of st a] by (cases "srv st [lit ''lpush'', Key_RedisPools, a]") auto
  show "\<exists>st1. srv st [lit ''incr'', Key_RedisIdIndex] = (st1, RInt (of_nat (ad_index (view st) + 1))) \<and>
      view st1 = (view st)\<lparr>ad_index := ad_index (view st) + 1\<rparr>"
    using law6 [THEN conjunct2, THEN conjunct2, THEN conjunct1, rule_format, of st] by (cases "srv st [lit ''incr'', Key_RedisIdIndex]") auto
  show "\<exists>st1 n. srv st [lit ''zadd'', Key_RedisList, x, y] = (st1, RInt n) \<and> view st1 = view st"
    using law9 [THEN conjunct1, rule_format, of st x y] by (cases "srv st [lit ''zadd'', Key_RedisList, x, y]") auto
  show "\<exists>st1 n. srv st [lit ''zrem'', Key_RedisList, x] = (st1, RInt n) \<and> view st1 = view st"
    using law9 [THEN conjunct2, rule_format, of st x] by (cases "srv st [lit ''zrem'', Key_RedisList, x]") auto
qed

section \<open>What the operations do\<close>

lemma FormatUint_inj:
  assumes "FormatUint (unat (i :: 64 word)) = FormatUint (unat j)"
  shows "i = j"
proof -
  have "ParseUint (FormatUint (unat k)) 64 = (unat k, None)" for k :: "64 word"
    by (rule ParseUint_FormatUint) (use unat_bound64 [of k] in simp)
  from this [of i] this [of j] have "unat i = unat j"
    unfolding assms by (metis prod.inject)
  then show ?thesis
    by (simp only: word_unat_eq_iff)
qed

lemma info_key_eq [simp]: "info_key i = info_key j \<longleftrightarrow> i = j"
  by (auto simp: info_key_def dest: FormatUint_inj)

lemma Do_answer: "srv st (cmd # map (arg_text L) args) = (st1, r) \<Longrightarrow>
  RedisOp_Do (srv_ask L srv) st cmd args = ((resp_value r, Err (reply_result r)), st1)"
  by (simp add: RedisOp_Do_def srv_ask_def call_words_args reply_result_def)

lemma InvalidRedis_spec:
  assumes "admin_server srv view"
  shows "\<exists>st1. InvalidRedis (srv_ask L srv) st i = (ad_hash (view st) (info_key i) \<noteq> Map.empty, st1) \<and> view st1 = view st"
proof -
  obtain st1 where 1: "srv st [lit ''EXISTS'', info_key i] = (st1, RInt (if ad_hash (view st) (info_key i) = Map.empty then 0 else 1))"
      "view st1 = view st"
    using admin_laws(4) [OF assms] by blast
  show ?thesis
    using Do_answer [of srv st "lit ''EXISTS''" L "[IString (info_key i)]"] 1
    by (simp add: InvalidRedis_def reply_result_def Int_reply_def)
qed

lemma CreateRedisCheck_spec:
  assumes "admin_server srv view" "length (ad_pool (view st)) < 2 ^ 63"
  shows "\<exists>st1. CreateRedisCheck (srv_ask L srv) st = (ad_pool (view st) \<noteq> [], st1) \<and> view st1 = view st"
proof -
  obtain st1 where 1: "srv st [lit ''llen'', Key_RedisPools] = (st1, RInt (of_nat (length (ad_pool (view st)))))" "view st1 = view st"
    using admin_laws(6) [OF assms(1)] by blast
  show ?thesis
    using Do_answer [of srv st "lit ''llen''" L "[IString Key_RedisPools]"] 1 sint_of_nat_small [OF assms(2)]
    by (simp add: CreateRedisCheck_def reply_result_def Int_reply_def)
qed

definition new_info :: "admin_db \<Rightarrow> bytes \<Rightarrow> 64 word \<Rightarrow> bytes \<Rightarrow> DB_RedisInfo" where
  "new_info db name now a =
     \<lparr>di_Id = of_nat (ad_index db + 1), di_Name = name, di_Addr = a, di_MemUsed = 0, di_DBSize = 0, di_CTime = now\<rparr>"

lemma SetObject_info:
  assumes "admin_server srv view"
  shows "\<exists>st1. RedisOp_SetObject (srv_send L srv) st (info_key i) (FStruct info_type (info_val info)) = Some (None, st1) \<and>
    view st1 = (view st)\<lparr>ad_hash := (ad_hash (view st))(info_key i := ad_hash (view st) (info_key i) ++ info_hash L info)\<rparr>"
proof -
  let ?ps = "map (\<lambda>fs. (fs_name fs, field_text L (info_val info) fs)) (ss_l info_spec)"
  have m: "map_of (rev ?ps) = info_hash L info"
    using info_spec_distinct map_of_rev_distinct [of ?ps] by (simp add: comp_def info_hash_def)
  have "?ps \<noteq> []"
    using info_spec_distinct by simp
  from admin_laws(3) [OF assms this, of st i] show ?thesis
    unfolding m SetObject_words [OF info_spec_Some info_val_type] by blast
qed

lemma CreateRedis_spec:
  assumes "admin_server srv view" "ad_pool (view st) = a # p" "a \<noteq> []" "ad_index (view st) + 1 < 2 ^ 63"
    and "ad_hash (view st) (info_key (of_nat (ad_index (view st) + 1))) = Map.empty"
  shows "\<exists>st1. CreateRedis (srv_ask L srv) (srv_send L srv) now st name = Some ((ERR_OK, Some (new_info (view st) name now a)), st1) \<and>
    view st1 = \<lparr>ad_pool = p, ad_index = ad_index (view st) + 1,
      ad_hash = (ad_hash (view st))(info_key (of_nat (ad_index (view st) + 1)) := info_hash L (new_info (view st) name now a))\<rparr>"
proof -
  let ?info = "new_info (view st) name now a" and ?i = "of_nat (ad_index (view st) + 1) :: 64 word"
  obtain st1 where 1: "srv st [lit ''lpop'', Key_RedisPools] = (st1, RBulk a)" "view st1 = (view st)\<lparr>ad_pool := p\<rparr>"
    using admin_laws(7) [OF assms(1), of st] assms(2) by auto
  obtain st2 where 2: "srv st1 [lit ''incr'', Key_RedisIdIndex] = (st2, RInt ?i)" "view st2 = (view st)\<lparr>ad_pool := p, ad_index := ad_index (view st) + 1\<rparr>"
    using admin_laws(9) [OF assms(1), of st1] 1(2) by auto
  obtain st3 where 3: "RedisOp_SetObject (srv_send L srv) st2 (info_key ?i) (FStruct info_type (info_val ?info)) = Some (None, st3)"
      "view st3 = (view st2)\<lparr>ad_hash := (ad_hash (view st2))(info_key ?i := ad_hash (view st2) (info_key ?i) ++ info_hash L ?info)\<rparr>"
    using SetObject_info [OF assms(1)] by blast
  obtain st4 n where 4: "srv st3 [lit ''zadd'', Key_RedisList, arg_text L (IInt64 now), arg_text L (IUint64 ?i)] = (st4, RInt n)" "view st4 = view st3"
    using admin_laws(10) [OF assms(1)] by blast
  have "sint ?i = int (ad_index (view st) + 1)"
    by (rule sint_of_nat_small [OF assms(4)])
  then have "CreateRedis (srv_ask L srv) (srv_send L srv) now st name = Some ((ERR_OK, Some ?info), st4)"
    using Do_answer [of srv st "lit ''lpop''" L "[IString Key_RedisPools]"] 1
      Do_answer [of srv st1 "lit ''incr''" L "[IString Key_RedisIdIndex]"] 2(1)
      Do_answer [of srv st3 "lit ''zadd''" L "[IString Key_RedisList, IInt64 now, IUint64 ?i]"] 4(1) 3(1) assms(3)
    unfolding new_info_def by (simp add: CreateRedis_def reply_result_def String_def Uint64_def)
  moreover have "view st4 = \<lparr>ad_pool = p, ad_index = ad_index (view st) + 1, ad_hash = (ad_hash (view st))(info_key ?i := info_hash L ?info)\<rparr>"
    using 4(2) 3(2) 2(2) assms(5) by simp
  ultimately show ?thesis by blast
qed

lemma read_info_spec:
  assumes "admin_server srv view" "ad_hash (view st) (info_key i) = info_hash L info"
    and "set (iter (ss_m info_spec)) = dom (ss_m info_spec)" "distinct (iter (ss_m info_spec))"
  shows "\<exists>st1. read_info iter L (srv_ask L srv) st (info_key i) = Some ((info, None), st1) \<and> view st1 = view st"
proof -
  have h: "holds_fields L info_spec (info_val info) (ad_hash (view st) (info_key i))"
    unfolding assms(2) by (rule info_hash_holds)
  obtain d st1 where 1: "RedisOp_GetObject iter L (srv_ask L srv) st (info_key i) (SPtr info_type (info_val zero_RedisInfo)) = Some ((SPtr info_type d, None), st1)"
      "view st1 = view st" "\<forall>fs \<in> set (ss_l info_spec). FieldByIndex (fs_index fs) d = FieldByIndex (fs_index fs) (info_val info)"
    using GetObject_reads [where hash = "\<lambda>st. ad_hash (view st)" and d = "info_val zero_RedisInfo" and st = st and key = "info_key i" and iter = iter,
        OF admin_laws(1) [OF assms(1)] info_spec_Some info_spec_distinct info_val_type info_val_type h info_fields_storable assms(3,4) rangeI]
      admin_laws(2) [OF assms(1), of st i "iter (ss_m info_spec)"] by metis
  then show ?thesis
    using info_of_fields [OF GetObject_type [OF 1(1) info_spec_Some info_val_type] 1(3)] by (simp add: read_info_def)
qed

lemma RecycleRedis_spec:
  assumes "admin_server srv view"
  shows "\<exists>st1. RecycleRedis (srv_ask L srv) st info = (True, st1) \<and>
    view st1 = (view st)\<lparr>ad_pool := di_Addr info # ad_pool (view st), ad_hash := (ad_hash (view st))(info_key (di_Id info) := Map.empty)\<rparr>"
proof -
  obtain st1 n1 where 1: "srv st [lit ''zrem'', Key_RedisList, arg_text L (IUint64 (di_Id info))] = (st1, RInt n1)" "view st1 = view st"
    using admin_laws(11) [OF assms] by blast
  obtain st2 n2 where 2: "srv st1 [lit ''lpush'', Key_RedisPools, di_Addr info] = (st2, RInt n2)"
      "view st2 = (view st)\<lparr>ad_pool := di_Addr info # ad_pool (view st)\<rparr>"
    using admin_laws(8) [OF assms, of st1] 1(2) by metis
  obtain st3 n3 where 3: "srv st2 [lit ''DEL'', info_key (di_Id info)] = (st3, RInt n3)"
      "view st3 = (view st2)\<lparr>ad_hash := (ad_hash (view st2))(info_key (di_Id info) := Map.empty)\<rparr>"
    using admin_laws(5) [OF assms] by blast
  have "snd (RedisOp_Del (srv_ask L srv) st2 (info_key (di_Id info))) = st3"
    using 3(1) by (simp add: RedisOp_Del_def ask_bool_def srv_ask_def call_words_args split: prod.splits)
  then have "RecycleRedis (srv_ask L srv) st info = (True, st3)"
    using Do_answer [of srv st "lit ''zrem''" L "[IString Key_RedisList, IUint64 (di_Id info)]"] 1(1)
      Do_answer [of srv st1 "lit ''lpush''" L "[IString Key_RedisPools, IString (di_Addr info)]"] 2(1)
    by (auto simp: RecycleRedis_def reply_result_def split: prod.splits)
  then show ?thesis
    using 3(2) 2(2) by simp
qed

lemma createInstance_spec:
  assumes "admin_server srv view" "ad_pool (view st) = a # p" "a \<noteq> []" "ad_index (view st) + 1 < 2 ^ 63" "length (a # p) < 2 ^ 63"
    and "ad_hash (view st) (info_key (of_nat (ad_index (view st) + 1))) = Map.empty"
  shows "\<exists>st1. createInstance (srv_ask L srv) (srv_send L srv) now st (Some name) =
      Some (\<lparr>cr_Instance = RedisInstance_Conv (new_info (view st) name now a), cr_Ret = GetErrInfo ERR_OK\<rparr>, st1) \<and>
    view st1 = \<lparr>ad_pool = p, ad_index = ad_index (view st) + 1,
      ad_hash = (ad_hash (view st))(info_key (of_nat (ad_index (view st) + 1)) := info_hash L (new_info (view st) name now a))\<rparr>"
proof -
  obtain st1 where 1: "CreateRedisCheck (srv_ask L srv) st = (True, st1)" "view st1 = view st"
    using CreateRedisCheck_spec [OF assms(1), of st L] assms(2,5) by auto
  obtain st2 where "CreateRedis (srv_ask L srv) (srv_send L srv) now st1 name = Some ((ERR_OK, Some (new_info (view st) name now a)), st2)"
    "view st2 = \<lparr>ad_pool = p, ad_index = ad_index (view st) + 1,
      ad_hash = (ad_hash (view st))(info_key (of_nat (ad_index (view st) + 1)) := info_hash L (new_info (view st) name now a))\<rparr>"
    using CreateRedis_spec [OF assms(1), of st1 a p L now name] assms(2-4,6) unfolding 1(2) by blast
  then show ?thesis
    using 1(1) by (simp add: createInstance_def)
qed

lemma createInstance_empty:
  assumes "admin_server srv view" "ad_pool (view st) = []"
  shows "\<exists>st1. createInstance (srv_ask L srv) (srv_send L srv) now st (Some name) =
      Some (\<lparr>cr_Instance = zero_RedisInstance, cr_Ret = GetErrInfo ERR_REDIS_POOLS_EMPTY\<rparr>, st1) \<and> view st1 = view st"
  using CreateRedisCheck_spec [OF assms(1), of st L] assms(2) by (auto simp: createInstance_def)

lemma delInstance_find_spec:
  assumes "admin_server srv view" "ad_hash (view st) (info_key i) = info_hash L info"
    and "set (iter (ss_m info_spec)) = dom (ss_m info_spec)" "distinct (iter (ss_m info_spec))"
  shows "\<exists>st1. delInstance_find iter L (srv_ask L srv) st i = Some (Inr info, st1) \<and> view st1 = view st"
proof -
  obtain st1 where 1: "InvalidRedis (srv_ask L srv) st i = (True, st1)" "view st1 = view st"
    using InvalidRedis_spec [OF assms(1), of L st i] assms(2) info_hash_not_empty [of L info] by auto
  obtain st2 where "read_info iter L (srv_ask L srv) st1 (info_key i) = Some ((info, None), st2)" "view st2 = view st"
    using read_info_spec [OF assms(1), of st1 i L info iter] assms(2-4) unfolding 1(2) by blast
  then show ?thesis
    using 1(1) by (simp add: delInstance_find_def GetRedisInfo_def)
qed

lemma delInstance_spec:
  assumes "admin_server srv view" "ad_hash (view st) (info_key i) = info_hash L info" "di_Id info = i"
    and "set (iter (ss_m info_spec)) = dom (ss_m info_spec)" "distinct (iter (ss_m info_spec))"
  shows "\<exists>st1. delInstance iter L (srv_ask L srv) st (Some i) = Some (zero_ErrInfo, st1) \<and>
    view st1 = (view st)\<lparr>ad_pool := di_Addr info # ad_pool (view st), ad_hash := (ad_hash (view st))(info_key i := Map.empty)\<rparr>"
proof -
  obtain st1 where 1: "delInstance_find iter L (srv_ask L srv) st i = Some (Inr info, st1)" "view st1 = view st"
    using delInstance_find_spec [where iter = iter and st = st, OF assms(1,2,4,5)] by blast
  show ?thesis
    using RecycleRedis_spec [OF assms(1), of L st1 info] 1 assms(3) by (auto simp: delInstance_def)
qed

lemma delInstance_missing:
  assumes "admin_server srv view" "ad_hash (view st) (info_key i) = Map.empty"
  shows "\<exists>st1. delInstance iter L (srv_ask L srv) st (Some i) = Some (GetErrInfo ERR_INVALID_REDIS, st1) \<and> view st1 = view st"
  using InvalidRedis_spec [OF assms(1), of L st i] assms(2) by (auto simp: delInstance_def delInstance_find_def)

section \<open>The allocator\<close>

text \<open>
  What the management server promises: it takes an address from the free ones for an instance with a new number, and a deleted
  instance gives its address back.
\<close>

record allocator =
  al_free :: "bytes list"
  al_used :: "DB_RedisInfo list"
  al_next :: nat

datatype request = NewInstance bytes "64 word" | DropInstance "64 word"

datatype answer = Created CreateInstanceRet | Dropped ErrInfo

fun allocate :: "request \<Rightarrow> allocator \<Rightarrow> answer \<times> allocator" where
  "allocate (NewInstance name now) al = (case al_free al of
     [] \<Rightarrow> (Created \<lparr>cr_Instance = zero_RedisInstance, cr_Ret = GetErrInfo ERR_REDIS_POOLS_EMPTY\<rparr>, al)
   | a # p \<Rightarrow>
       (let info = \<lparr>di_Id = of_nat (al_next al + 1), di_Name = name, di_Addr = a, di_MemUsed = 0, di_DBSize = 0, di_CTime = now\<rparr> in
        (Created \<lparr>cr_Instance = RedisInstance_Conv info, cr_Ret = GetErrInfo ERR_OK\<rparr>,
         \<lparr>al_free = p, al_used = info # al_used al, al_next = al_next al + 1\<rparr>)))"
| "allocate (DropInstance i) al = (case find (\<lambda>info. di_Id info = i) (al_used al) of
     None \<Rightarrow> (Dropped (GetErrInfo ERR_INVALID_REDIS), al)
   | Some info \<Rightarrow> (Dropped zero_ErrInfo,
       al\<lparr>al_free := di_Addr info # al_free al, al_used := filter (\<lambda>info. di_Id info \<noteq> i) (al_used al)\<rparr>))"

fun allocate_all :: "request list \<Rightarrow> allocator \<Rightarrow> answer list \<times> allocator" where
  "allocate_all [] al = ([], al)"
| "allocate_all (rq # rqs) al = (let (r, al1) = allocate rq al; (rs, al2) = allocate_all rqs al1 in (r # rs, al2))"

text \<open>The management server answers requests one after the other.\<close>

fun serve_request ::
  "((bytes \<rightharpoonup> fieldSpec) \<Rightarrow> bytes list) \<Rightarrow> go_fmt \<Rightarrow> ('s \<Rightarrow> bytes list \<Rightarrow> 's \<times> resp) \<Rightarrow> request \<Rightarrow> 's \<Rightarrow> (answer \<times> 's) option" where
  "serve_request iter L srv (NewInstance name now) st =
     map_option (\<lambda>(r, st1). (Created r, st1)) (createInstance (srv_ask L srv) (srv_send L srv) now st (Some name))"
| "serve_request iter L srv (DropInstance i) st =
     map_option (\<lambda>(r, st1). (Dropped r, st1)) (delInstance iter L (srv_ask L srv) st (Some i))"

fun serve_requests ::
  "((bytes \<rightharpoonup> fieldSpec) \<Rightarrow> bytes list) \<Rightarrow> go_fmt \<Rightarrow> ('s \<Rightarrow> bytes list \<Rightarrow> 's \<times> resp) \<Rightarrow> request list \<Rightarrow> 's \<Rightarrow> (answer list \<times> 's) option" where
  "serve_requests iter L srv [] st = Some ([], st)"
| "serve_requests iter L srv (rq # rqs) st = (case serve_request iter L srv rq st of
     None \<Rightarrow> None
   | Some (r, st1) \<Rightarrow> map_option (\<lambda>(rs, st2). (r # rs, st2)) (serve_requests iter L srv rqs st1))"

definition allocator_db :: "go_fmt \<Rightarrow> admin_db \<Rightarrow> allocator \<Rightarrow> bool" where
  "allocator_db L db al \<longleftrightarrow> ad_pool db = al_free al \<and> ad_index db = al_next al \<and>
     (\<forall>i. ad_hash db (info_key i) = (case find (\<lambda>info. di_Id info = i) (al_used al) of None \<Rightarrow> Map.empty | Some info \<Rightarrow> info_hash L info))"

definition addresses :: "allocator \<Rightarrow> bytes multiset" where
  "addresses al = mset (al_free al) + mset (map di_Addr (al_used al))"

definition allocator_inv :: "allocator \<Rightarrow> bool" where
  "allocator_inv al \<longleftrightarrow> distinct (map di_Id (al_used al)) \<and> (\<forall>info \<in> set (al_used al). unat (di_Id info) \<le> al_next al) \<and>
     [] \<notin># addresses al"

lemma find_above:
  assumes "allocator_inv al" "n < 2 ^ 63" "al_next al < n"
  shows "find (\<lambda>info. di_Id info = of_nat n) (al_used al) = None"
  using assms(1,3) unat_of_nat_small [OF assms(2)] by (fastforce simp: find_None_iff allocator_inv_def)

lemma find_new:
  assumes "allocator_inv al" "al_next al + 1 < 2 ^ 63"
  shows "find (\<lambda>info. di_Id info = of_nat (al_next al + 1)) (al_used al) = None"
  by (rule find_above [OF assms]) simp

lemma find_mset_filter:
  assumes "find (\<lambda>info. di_Id info = i) us = Some u" "distinct (map di_Id us)"
  shows "mset (map di_Addr us) = add_mset (di_Addr u) (mset (map di_Addr (filter (\<lambda>info. di_Id info \<noteq> i) us)))" "di_Id u = i"
  using assms
proof (induction us)
  case (Cons v us)
  { case 1
    have "filter (\<lambda>info. di_Id info \<noteq> i) us = us" if "di_Id v = i"
      using 1 that by (simp add: filter_id_conv) (metis imageI)
    then show ?case
      using 1 Cons.IH(1) by (auto split: if_splits) }
  { case 2 then show ?case using Cons.IH(2) by (auto split: if_splits) }
qed simp_all

lemma allocate_inv:
  assumes "allocator_inv al" "al_next al + 1 < 2 ^ 63"
  shows "allocator_inv (snd (allocate rq al))" "addresses (snd (allocate rq al)) = addresses al" "al_next (snd (allocate rq al)) \<le> al_next al + 1"
proof -
  have u: "unat (of_nat (al_next al + 1) :: 64 word) = al_next al + 1"
    by (rule unat_of_nat_small [OF assms(2)])
  show a: "addresses (snd (allocate rq al)) = addresses al"
  proof (cases rq)
    case (DropInstance i)
    then show ?thesis
      using find_mset_filter(1) [of i "al_used al"] assms(1) by (auto simp: addresses_def allocator_inv_def split: option.split)
  qed (auto simp: addresses_def Let_def split: list.split)
  show "al_next (snd (allocate rq al)) \<le> al_next al + 1"
    by (cases rq) (auto simp: Let_def split: list.split option.split)
  have "distinct (map di_Id (al_used (snd (allocate rq al))))"
    using find_new [OF assms] assms(1) by (cases rq) (auto simp: allocator_inv_def Let_def distinct_map_filter find_None_iff split: list.split option.split)
  moreover have "\<forall>info \<in> set (al_used (snd (allocate rq al))). unat (di_Id info) \<le> al_next (snd (allocate rq al))"
    using u assms(1) by (cases rq) (auto simp: allocator_inv_def Let_def split: list.split option.split)
  ultimately show "allocator_inv (snd (allocate rq al))"
    using assms(1) a by (simp add: allocator_inv_def)
qed

lemma serve_new_refines:
  assumes "admin_server srv view" "allocator_db L (view st) al" "allocator_inv al" "al_next al + 1 < 2 ^ 63" "size (addresses al) < 2 ^ 63"
  shows "\<exists>st1. serve_request iter L srv (NewInstance name now) st = Some (fst (allocate (NewInstance name now) al), st1) \<and>
    allocator_db L (view st1) (snd (allocate (NewInstance name now) al))"
proof (cases "al_free al")
  case Nil
  then show ?thesis
    using createInstance_empty [OF assms(1), of st L now name] assms(2) by (auto simp: allocator_db_def)
next
  case (Cons a p)
  have db: "ad_pool (view st) = a # p" "ad_index (view st) = al_next al"
    using assms(2) Cons by (simp_all add: allocator_db_def)
  have "a \<noteq> []" "length (a # p) < 2 ^ 63"
    using assms(3,5) Cons by (auto simp: allocator_inv_def addresses_def)
  moreover have "ad_hash (view st) (info_key (of_nat (ad_index (view st) + 1))) = Map.empty"
    using find_new [OF assms(3,4)] assms(2) unfolding db(2) by (simp add: allocator_db_def)
  ultimately obtain st1 where "createInstance (srv_ask L srv) (srv_send L srv) now st (Some name) =
      Some (\<lparr>cr_Instance = RedisInstance_Conv (new_info (view st) name now a), cr_Ret = GetErrInfo ERR_OK\<rparr>, st1)"
    "view st1 = \<lparr>ad_pool = p, ad_index = ad_index (view st) + 1,
      ad_hash = (ad_hash (view st))(info_key (of_nat (ad_index (view st) + 1)) := info_hash L (new_info (view st) name now a))\<rparr>"
    using createInstance_spec [OF assms(1) db(1), of L now name] assms(4) db(2) by metis
  then show ?thesis
    using assms(2) Cons db(2) by (auto simp: allocator_db_def new_info_def Let_def)
qed

lemma find_filter_other:
  "find (\<lambda>u. di_Id u = j) (filter (\<lambda>u. di_Id u \<noteq> i) us) = (if j = i then None else find (\<lambda>u. di_Id u = j) us)"
  by (induction us) auto

lemma serve_drop_refines:
  assumes "admin_server srv view" "allocator_db L (view st) al" "allocator_inv al"
    and "set (iter (ss_m info_spec)) = dom (ss_m info_spec)" "distinct (iter (ss_m info_spec))"
  shows "\<exists>st1. serve_request iter L srv (DropInstance i) st = Some (fst (allocate (DropInstance i) al), st1) \<and>
    allocator_db L (view st1) (snd (allocate (DropInstance i) al))"
proof (cases "find (\<lambda>u. di_Id u = i) (al_used al)")
  case None
  then have "ad_hash (view st) (info_key i) = Map.empty"
    using assms(2) by (simp add: allocator_db_def)
  then show ?thesis
    using delInstance_missing [OF assms(1), of st i iter L] assms(2) None by (auto simp: allocator_db_def)
next
  case (Some info)
  then have "ad_hash (view st) (info_key i) = info_hash L info" "di_Id info = i"
    using assms(2,3) find_mset_filter(2) [OF Some] by (simp_all add: allocator_db_def allocator_inv_def)
  then obtain st1 where "delInstance iter L (srv_ask L srv) st (Some i) = Some (zero_ErrInfo, st1)"
    "view st1 = (view st)\<lparr>ad_pool := di_Addr info # ad_pool (view st), ad_hash := (ad_hash (view st))(info_key i := Map.empty)\<rparr>"
    using delInstance_spec [where st = st and iter = iter and L = L, OF assms(1) _ _ assms(4,5)] by blast
  then show ?thesis
    using assms(2) Some by (auto simp: allocator_db_def find_filter_other split: option.split)
qed

text \<open>
  C3.  Requests to create and to delete instances, served one after the other, get the answers of the allocator and leave the
  database as the allocator says: the free addresses, the counter and the hash of each instance.  On the way no address is lost and none is
  handed out twice: the free addresses and those of the instances are together the same as before.  Assumed of the server is
  what redis documents for the commands used; the numbers stay within 63 bits.
\<close>

theorem admin_refines_allocator:
  assumes "admin_server srv view" "allocator_db L (view st) al" "allocator_inv al"
    and "al_next al + length rqs < 2 ^ 63" "size (addresses al) < 2 ^ 63"
    and "set (iter (ss_m info_spec)) = dom (ss_m info_spec)" "distinct (iter (ss_m info_spec))"
  shows "\<exists>st1. serve_requests iter L srv rqs st = Some (fst (allocate_all rqs al), st1) \<and>
    allocator_db L (view st1) (snd (allocate_all rqs al)) \<and> allocator_inv (snd (allocate_all rqs al)) \<and>
    addresses (snd (allocate_all rqs al)) = addresses al"
  using assms(2-5)
proof (induction rqs arbitrary: st al)
  case (Cons rq rqs)
  let ?al = "snd (allocate rq al)"
  have n: "al_next al + 1 < 2 ^ 63" "al_next ?al + length rqs < 2 ^ 63"
    using Cons.prems(3) allocate_inv(3) [OF Cons.prems(2), of rq] by simp_all
  obtain st1 where 1: "serve_request iter L srv rq st = Some (fst (allocate rq al), st1)" "allocator_db L (view st1) ?al"
    using serve_new_refines [OF assms(1) Cons.prems(1,2) n(1) Cons.prems(4)]
      serve_drop_refines [where iter = iter and st = st, OF assms(1) Cons.prems(1,2) assms(6,7)] by (cases rq) blast+
  note inv = allocate_inv [OF Cons.prems(2) n(1), of rq]
  show ?case
    using Cons.IH [OF 1(2) inv(1) n(2)] Cons.prems(4) 1(1) inv(2) by (auto simp: Let_def split: prod.splits)
qed simp

lemma info_iter: "set (map fst info_names) = dom (ss_m info_spec)" "distinct (map fst info_names)"
proof -
  have "dom (ss_m info_spec) = fs_name ` set (ss_l info_spec)"
    using structSpecForType_inv [OF info_spec_Some] by (fastforce simp: spec_inv_def)
  then show "set (map fst info_names) = dom (ss_m info_spec)"
    by (simp add: info_spec_l info_names_def)
qed (simp add: info_names_def)

text \<open>A server with the list of free addresses, the counter and the hashes.\<close>

type_synonym sample_db = "bytes list \<times> nat \<times> (bytes \<Rightarrow> (bytes \<times> bytes) list)"

definition sample_admin :: "sample_db \<Rightarrow> bytes list \<Rightarrow> sample_db \<times> resp" where
  "sample_admin st ws = (case st of (p, n, h) \<Rightarrow> (case ws of
     cmd # key # rest \<Rightarrow>
       if cmd = lit ''EXISTS'' then (st, RInt (if h key = [] then 0 else 1))
       else if cmd = lit ''DEL'' then ((p, n, h(key := [])), RInt 1)
       else if cmd = lit ''llen'' then (st, RInt (of_nat (length p)))
       else if cmd = lit ''lpop'' then ((tl p, n, h), case p of [] \<Rightarrow> RNilBulk | a # _ \<Rightarrow> RBulk a)
       else if cmd = lit ''lpush'' then ((rest @ p, n, h), RInt (of_nat (length (rest @ p))))
       else if cmd = lit ''incr'' then ((p, n + 1, h), RInt (of_nat (n + 1)))
       else if cmd = lit ''zadd'' \<or> cmd = lit ''zrem'' then (st, RInt 1)
       else (let (h1, r) = sample_hashes h ws in ((p, n, h1), r))
   | _ \<Rightarrow> (st, RError (lit ''ERR unknown command''))))"

definition sample_view :: "sample_db \<Rightarrow> admin_db" where
  "sample_view st = (case st of (p, n, h) \<Rightarrow> \<lparr>ad_pool = p, ad_index = n, ad_hash = (\<lambda>k. map_of (h k))\<rparr>)"

lemma sample_admin_cmds:
  "sample_admin (p, n, h) (lit ''HMSET'' # key # concat (map (\<lambda>(f, x). [f, x]) ps)) = ((p, n, h(key := rev ps @ h key)), RSimple (lit ''OK''))"
  "sample_admin (p, n, h) [lit ''HGETALL'', key] = ((p, n, h), RArray (concat (map (\<lambda>(f, x). [RBulk f, RBulk x]) (AList.clearjunk (h key)))))"
  "sample_admin (p, n, h) (lit ''HMGET'' # key # fs) =
    ((p, n, h), RArray (map (\<lambda>f. case map_of (h key) f of None \<Rightarrow> RNilBulk | Some x \<Rightarrow> RBulk x) fs))"
  by (simp_all add: sample_admin_def sample_hashes_def word_pairs_concat)

lemma sample_admin_hashes: "hash_server (range info_key) sample_admin (\<lambda>st. ad_hash (sample_view st))"
  unfolding hash_server_def
proof (intro conjI allI impI ballI)
  fix st :: sample_db and key
  obtain p n h where st: "st = (p, n, h)" by (cases st)
  show "\<exists>kvs. distinct (map fst kvs) \<and> map_of kvs = ad_hash (sample_view st) key \<and>
      snd (sample_admin st [lit ''HGETALL'', key]) = RArray (concat (map (\<lambda>(f, x). [RBulk f, RBulk x]) kvs))"
    unfolding st sample_admin_cmds
    by (intro exI [of _ "AList.clearjunk (h key)"]) (simp add: sample_view_def map_of_clearjunk distinct_clearjunk)
next
  fix st :: sample_db and key fs
  obtain p n h where st: "st = (p, n, h)" by (cases st)
  show "snd (sample_admin st (lit ''HMGET'' # key # fs)) =
      RArray (map (\<lambda>f. case ad_hash (sample_view st) key f of None \<Rightarrow> RNilBulk | Some x \<Rightarrow> RBulk x) fs)"
    unfolding st sample_admin_cmds by (simp add: sample_view_def)
next
  fix st :: sample_db and key ps
  obtain p n h where st: "st = (p, n, h)" by (cases st)
  show "ad_hash (sample_view (fst (sample_admin st (lit ''HMSET'' # key # concat (map (\<lambda>(f, x). [f, x]) ps))))) key =
      ad_hash (sample_view st) key ++ map_of (rev ps)"
    unfolding st sample_admin_cmds by (simp add: sample_view_def)
qed

lemma sample_admin_ok: "admin_server sample_admin sample_view"
proof -
  have e: "(\<exists>x y. map_of l x = Some y) \<longleftrightarrow> l \<noteq> []" for l :: "(bytes \<times> bytes) list"
    by (cases l) auto
  have c: "(\<forall>st. P st) \<longleftrightarrow> (\<forall>p n h. P (p, n, h))" for P :: "sample_db \<Rightarrow> bool"
    by auto
  show ?thesis
    unfolding admin_server_def Let_def c sample_admin_cmds
    by (intro conjI allI impI sample_admin_hashes) (simp_all add: e sample_admin_def sample_view_def fun_eq_iff)
qed

theorem admin_refines_allocator_witness:
  "\<exists>st1 r1 r2. serve_requests (\<lambda>_. map fst info_names) plain_fmt sample_admin [NewInstance (lit ''a'') 5, DropInstance 1] ([lit ''h:1''], 0, \<lambda>_. []) =
      Some ([r1, r2], st1) \<and> ad_pool (sample_view st1) = [lit ''h:1'']"
proof -
  let ?al = "\<lparr>al_free = [lit ''h:1''], al_used = [], al_next = 0\<rparr>" and ?rqs = "[NewInstance (lit ''a'') 5, DropInstance 1]"
  have 1: "allocator_db plain_fmt (sample_view ([lit ''h:1''], 0, \<lambda>_. [])) ?al" "allocator_inv ?al" "al_next ?al + length ?rqs < 2 ^ 63"
    "size (addresses ?al) < 2 ^ 63"
    by (simp_all add: allocator_db_def sample_view_def allocator_inv_def addresses_def)
  have "\<exists>r1 r2. fst (allocate_all ?rqs ?al) = [r1, r2]" "al_free (snd (allocate_all ?rqs ?al)) = [lit ''h:1'']"
    by (simp_all add: Let_def)
  then show ?thesis
    using admin_refines_allocator [where iter = "\<lambda>_. map fst info_names", OF sample_admin_ok 1 info_iter] by (auto simp: allocator_db_def)
qed

section \<open>Two deletions at the same time\<close>

lemma delInstance_twice:
  assumes "admin_server srv view" "ad_hash (view st) (info_key i) = info_hash L info" "di_Id info = i"
    and "set (iter (ss_m info_spec)) = dom (ss_m info_spec)" "distinct (iter (ss_m info_spec))"
  shows "\<exists>st1 st2 st3 st4.
    delInstance_find iter L (srv_ask L srv) st i = Some (Inr info, st1) \<and>
    delInstance_find iter L (srv_ask L srv) st1 i = Some (Inr info, st2) \<and>
    RecycleRedis (srv_ask L srv) st2 info = (True, st3) \<and> RecycleRedis (srv_ask L srv) st3 info = (True, st4) \<and>
    view st4 = (view st)\<lparr>ad_pool := di_Addr info # di_Addr info # ad_pool (view st), ad_hash := (ad_hash (view st))(info_key i := Map.empty)\<rparr>"
proof -
  obtain st1 where 1: "delInstance_find iter L (srv_ask L srv) st i = Some (Inr info, st1)" "view st1 = view st"
    using delInstance_find_spec [where st = st and iter = iter, OF assms(1,2,4,5)] by blast
  have h: "ad_hash (view st1) (info_key i) = info_hash L info"
    using 1(2) assms(2) by simp
  obtain st2 where 2: "delInstance_find iter L (srv_ask L srv) st1 i = Some (Inr info, st2)" "view st2 = view st"
    using delInstance_find_spec [where st = st1 and iter = iter, OF assms(1) h assms(4,5)] 1(2) by metis
  obtain st3 where 3: "RecycleRedis (srv_ask L srv) st2 info = (True, st3)"
      "view st3 = (view st)\<lparr>ad_pool := di_Addr info # ad_pool (view st), ad_hash := (ad_hash (view st))(info_key i := Map.empty)\<rparr>"
    using RecycleRedis_spec [OF assms(1), of L st2 info] unfolding 2(2) assms(3) by blast
  show ?thesis
    using 1(1) 2(1) 3 RecycleRedis_spec [OF assms(1), of L st3 info] assms(3) by auto
qed

lemma createInstance_twice:
  assumes "admin_server srv view" "ad_pool (view st) = a # a # p" "a \<noteq> []" "ad_index (view st) = n" "n + 2 < 2 ^ 63" "length (a # a # p) < 2 ^ 63"
    and "ad_hash (view st) (info_key (of_nat (n + 1))) = Map.empty" "ad_hash (view st) (info_key (of_nat (n + 1 + 1))) = Map.empty"
  shows "\<exists>st1 st2 r1 r2. createInstance (srv_ask L srv) (srv_send L srv) now1 st (Some name1) = Some (r1, st1) \<and>
    createInstance (srv_ask L srv) (srv_send L srv) now2 st1 (Some name2) = Some (r2, st2) \<and>
    cr_Ret r1 = GetErrInfo ERR_OK \<and> cr_Ret r2 = GetErrInfo ERR_OK \<and>
    ri_Addr (cr_Instance r1) = a \<and> ri_Addr (cr_Instance r2) = a \<and> ri_Id (cr_Instance r1) \<noteq> ri_Id (cr_Instance r2)"
proof -
  have ne: "of_nat (n + 1 + 1) \<noteq> (of_nat (n + 1) :: 64 word)"
    using unat_of_nat_small [of "n + 1"] unat_of_nat_small [of "n + 1 + 1"] assms(5) by (auto dest: arg_cong [where f = unat])
  let ?info1 = "new_info (view st) name1 now1 a"
  obtain st1 where 1: "createInstance (srv_ask L srv) (srv_send L srv) now1 st (Some name1) =
      Some (\<lparr>cr_Instance = RedisInstance_Conv ?info1, cr_Ret = GetErrInfo ERR_OK\<rparr>, st1)"
    "view st1 = \<lparr>ad_pool = a # p, ad_index = n + 1, ad_hash = (ad_hash (view st))(info_key (of_nat (n + 1)) := info_hash L ?info1)\<rparr>"
    using createInstance_spec [OF assms(1-3), of L now1 name1] assms(5-7) unfolding assms(4) by auto
  have v: "ad_pool (view st1) = a # p" "ad_index (view st1) = n + 1" "ad_hash (view st1) (info_key (of_nat (n + 1 + 1))) = Map.empty"
    using assms(8) ne by (simp_all add: 1(2))
  obtain st2 where 2: "createInstance (srv_ask L srv) (srv_send L srv) now2 st1 (Some name2) =
      Some (\<lparr>cr_Instance = RedisInstance_Conv (new_info (view st1) name2 now2 a), cr_Ret = GetErrInfo ERR_OK\<rparr>, st2)"
    using createInstance_spec [OF assms(1) v(1) assms(3), of L now2 name2] assms(5,6) v(3) unfolding v(2) by auto
  show ?thesis
    using 1(1) 2 ne assms(4) v(2) by (auto simp: RedisInstance_Conv_def new_info_def)
qed

text \<open>
  C40.  The requests of the web server run concurrently.  When two deletions of one instance both read it before either removes
  it, both succeed, its address is free twice, and the next two creations hand it out to two instances.
\<close>

theorem delInstance_twice_shares_address:
  assumes "admin_server srv view" "allocator_db L (view st) al" "allocator_inv al" "find (\<lambda>u. di_Id u = i) (al_used al) = Some info"
    and "al_next al + 2 < 2 ^ 63" "size (addresses al) + 1 < 2 ^ 63"
    and "set (iter (ss_m info_spec)) = dom (ss_m info_spec)" "distinct (iter (ss_m info_spec))"
  shows "\<exists>st1 st2 st3 st4 st5 st6 r1 r2.
    delInstance_find iter L (srv_ask L srv) st i = Some (Inr info, st1) \<and>
    delInstance_find iter L (srv_ask L srv) st1 i = Some (Inr info, st2) \<and>
    RecycleRedis (srv_ask L srv) st2 info = (True, st3) \<and> RecycleRedis (srv_ask L srv) st3 info = (True, st4) \<and>
    createInstance (srv_ask L srv) (srv_send L srv) now1 st4 (Some name1) = Some (r1, st5) \<and>
    createInstance (srv_ask L srv) (srv_send L srv) now2 st5 (Some name2) = Some (r2, st6) \<and>
    cr_Ret r1 = GetErrInfo ERR_OK \<and> cr_Ret r2 = GetErrInfo ERR_OK \<and>
    ri_Addr (cr_Instance r1) = di_Addr info \<and> ri_Addr (cr_Instance r2) = di_Addr info \<and> ri_Id (cr_Instance r1) \<noteq> ri_Id (cr_Instance r2)"
proof -
  let ?n = "al_next al"
  have i: "di_Id info = i"
    using find_mset_filter(2) [OF assms(4)] assms(3) by (simp add: allocator_inv_def)
  have u: "info \<in> set (al_used al)"
    using assms(4) by (auto simp: find_Some_iff)
  have h: "ad_hash (view st) (info_key i) = info_hash L info"
    using assms(2,4) by (simp add: allocator_db_def)
  obtain st1 st2 st3 st4 where 1: "delInstance_find iter L (srv_ask L srv) st i = Some (Inr info, st1)"
      "delInstance_find iter L (srv_ask L srv) st1 i = Some (Inr info, st2)"
      "RecycleRedis (srv_ask L srv) st2 info = (True, st3)" "RecycleRedis (srv_ask L srv) st3 info = (True, st4)"
      "view st4 = (view st)\<lparr>ad_pool := di_Addr info # di_Addr info # ad_pool (view st), ad_hash := (ad_hash (view st))(info_key i := Map.empty)\<rparr>"
    using delInstance_twice [where st = st and iter = iter, OF assms(1) h i assms(7,8)] by blast
  have a: "di_Addr info \<noteq> []"
    using assms(3) u by (force simp: allocator_inv_def addresses_def)
  have v: "ad_pool (view st4) = di_Addr info # di_Addr info # ad_pool (view st)" "ad_index (view st4) = ?n"
    using assms(2) by (simp_all add: 1(5) allocator_db_def)
  have len: "length (di_Addr info # di_Addr info # ad_pool (view st)) < 2 ^ 63"
    using assms(2,6) u by (cases "al_used al") (auto simp: allocator_db_def addresses_def)
  have "ad_hash (view st4) (info_key (of_nat (?n + 1))) = Map.empty" "ad_hash (view st4) (info_key (of_nat (?n + 1 + 1))) = Map.empty"
    using find_above [OF assms(3), of "?n + 1"] find_above [OF assms(3), of "?n + 1 + 1"] assms(2,5) by (simp_all add: 1(5) allocator_db_def)
  from createInstance_twice [OF assms(1) v(1) a v(2) assms(5) len this, of L now1 name1 now2 name2] show ?thesis
    using 1(1-4) by blast
qed

theorem delInstance_twice_shares_address_witness:
  "\<exists>st st4 st5 st6 r1 r2. sample_view st = \<lparr>ad_pool = [], ad_index = 1,
      ad_hash = (\<lambda>_. Map.empty)(info_key 1 := info_hash plain_fmt \<lparr>di_Id = 1, di_Name = [], di_Addr = lit ''h:1'', di_MemUsed = 0, di_DBSize = 0, di_CTime = 0\<rparr>)\<rparr> \<and>
    createInstance (srv_ask plain_fmt sample_admin) (srv_send plain_fmt sample_admin) 7 st4 (Some []) = Some (r1, st5) \<and>
    createInstance (srv_ask plain_fmt sample_admin) (srv_send plain_fmt sample_admin) 8 st5 (Some []) = Some (r2, st6) \<and>
    ri_Addr (cr_Instance r1) = lit ''h:1'' \<and> ri_Addr (cr_Instance r2) = lit ''h:1'' \<and> ri_Id (cr_Instance r1) \<noteq> ri_Id (cr_Instance r2)"
proof -
  let ?info = "\<lparr>di_Id = 1, di_Name = [], di_Addr = lit ''h:1'', di_MemUsed = 0, di_DBSize = 0, di_CTime = 0\<rparr> :: DB_RedisInfo"
  let ?ps = "map (\<lambda>fs. (fs_name fs, field_text plain_fmt (info_val ?info) fs)) (ss_l info_spec)"
  let ?st = "([], 1, (\<lambda>_. [])(info_key 1 := ?ps)) :: sample_db" and ?al = "\<lparr>al_free = [], al_used = [?info], al_next = 1\<rparr>"
  have v: "sample_view ?st = \<lparr>ad_pool = [], ad_index = 1, ad_hash = (\<lambda>_. Map.empty)(info_key 1 := info_hash plain_fmt ?info)\<rparr>"
    by (simp add: sample_view_def info_hash_def fun_eq_iff)
  have 1: "allocator_db plain_fmt (sample_view ?st) ?al"
    unfolding v by (simp add: allocator_db_def)
  have 2: "allocator_inv ?al" "find (\<lambda>u. di_Id u = 1) (al_used ?al) = Some ?info" "al_next ?al + 2 < 2 ^ 63" "size (addresses ?al) + 1 < 2 ^ 63"
    by (simp_all add: allocator_inv_def addresses_def)
  let ?create = "createInstance (srv_ask plain_fmt sample_admin) (srv_send plain_fmt sample_admin)"
  obtain st4 st5 st6 r1 r2 where r: "?create 7 st4 (Some []) = Some (r1, st5)" "?create 8 st5 (Some []) = Some (r2, st6)"
      "ri_Addr (cr_Instance r1) = di_Addr ?info" "ri_Addr (cr_Instance r2) = di_Addr ?info" "ri_Id (cr_Instance r1) \<noteq> ri_Id (cr_Instance r2)"
    using delInstance_twice_shares_address [where iter = "\<lambda>_. map fst info_names" and st = ?st and al = ?al and ?now1.0 = 7 and ?name1.0 = "[]"
        and ?now2.0 = 8 and ?name2.0 = "[]", OF sample_admin_ok 1 2 info_iter]
    by (elim exE conjE) (rule that)
  show ?thesis
    by (rule exI [of _ ?st], rule exI [of _ st4], rule exI [of _ st5], rule exI [of _ st6], rule exI [of _ r1], rule exI [of _ r2])
      (use v r in \<open>simp only: DB_RedisInfo.select_convs simp_thms\<close>)
qed

end
