(* ===== verification/Lib_Utils.thy ===== *)
theory Lib_Utils
  imports Go_Strings Go_Value
begin

text \<open>
  The helpers of \<open>lib/utils\<close> and the configuration of \<open>lib/env\<close>: addresses as numbers (\<open>ip.go\<close>), texts as numbers and lists
  (\<open>parsestr.go\<close>), and the comments and lookups of the configuration file (\<open>env.go\<close>).
\<close>

section \<open>Addresses\<close>

definition atoi32 :: "bytes \<Rightarrow> 32 word" where
  "atoi32 s = word_of_int (fst (Atoi s))"

definition IPToUInt32 :: "bytes \<Rightarrow> 32 word" where
  "IPToUInt32 ip = (case split_on (of_char CHR ''.'') ip of
     [s0, s1, s2, s3] \<Rightarrow>
       (let sum = 0;
            sum = sum + push_bit 24 (atoi32 s0);
            sum = sum + push_bit 16 (atoi32 s1);
            sum = sum + push_bit 8 (atoi32 s2) in
        sum + atoi32 s3)
   | _ \<Rightarrow> 0)"

definition AddrToUint64 :: "bytes \<Rightarrow> 64 word" where
  "AddrToUint64 addr = (case split_on (of_char CHR '':'') addr of
     [host, port] \<Rightarrow>
       (let intIp = IPToUInt32 host in
        if intIp = 0 then 0
        else case ParseUint port 64 of
          (intPort, Some err) \<Rightarrow> 0
        | (intPort, None) \<Rightarrow> push_bit 32 (ucast intIp) OR of_nat intPort)
   | _ \<Rightarrow> 0)"

section \<open>Texts\<close>

definition StrRemoveEmpty :: "bytes \<Rightarrow> bytes" where
  "StrRemoveEmpty str = filter (\<lambda>c. c \<noteq> of_char CHR '' '') str"

fun StrListRemoveEmpty_loop :: "bytes list \<Rightarrow> bytes list \<Rightarrow> bytes list" where
  "StrListRemoveEmpty_loop [] results = results"
| "StrListRemoveEmpty_loop (str # strs) results =
     (let tmpStr = StrRemoveEmpty str in
      if tmpStr = [] then StrListRemoveEmpty_loop strs results else StrListRemoveEmpty_loop strs (results @ [tmpStr]))"

definition StrListRemoveEmpty :: "bytes list \<Rightarrow> bytes list" where
  "StrListRemoveEmpty strs = StrListRemoveEmpty_loop strs []"

definition StrToInt :: "bytes \<Rightarrow> 64 word" where
  "StrToInt str = word_of_int (fst (ParseInt str 64))"

definition StrToInt32 :: "bytes \<Rightarrow> 32 word" where
  "StrToInt32 str = word_of_int (fst (ParseInt str 64))"

definition StrToInt64 :: "bytes \<Rightarrow> 64 word" where
  "StrToInt64 str = word_of_int (fst (ParseInt str 64))"

definition StrToUint32 :: "bytes \<Rightarrow> 32 word" where
  "StrToUint32 str = of_nat (fst (ParseUint str 64))"

definition StrToUint64 :: "bytes \<Rightarrow> 64 word" where
  "StrToUint64 str = of_nat (fst (ParseUint str 64))"

text \<open>\<open>ParseFloat(str, 10)\<close>: a bit size other than 32 stands for 64.\<close>

definition StrToFloat64 :: "go_fmt \<Rightarrow> bytes \<Rightarrow> 64 word" where
  "StrToFloat64 L str = fst (ParseFloat L str 64)"

section \<open>The configuration\<close>

text \<open>\<open>strings.Split(s, sep)\<close> for a separator that is not empty.\<close>

function Split :: "bytes \<Rightarrow> bytes \<Rightarrow> bytes list" where
  "Split sep s =
     (if sep = [] \<or> s = [] then [s]
      else if prefix sep s then [] # Split sep (drop (length sep) s)
      else case Split sep (tl s) of [] \<Rightarrow> [[hd s]] | w # ws \<Rightarrow> (hd s # w) # ws)"
  by pat_completeness auto
termination
  by (relation "measure (\<lambda>(sep, s). length s)") (auto simp: prefix_def)

declare Split.simps [simp del]

text \<open>What \<open>Load\<close> gives to the JSON decoder: each line up to its first \<open>//\<close>, the lines joined.\<close>

definition env_strip :: "bytes \<Rightarrow> bytes" where
  "env_strip file = foldl (\<lambda>dstStr str. case Split (lit ''//'') str of [] \<Rightarrow> dstStr | tmp # _ \<Rightarrow> dstStr @ tmp) [] (split_on 10 file)"

type_synonym config = "bytes \<rightharpoonup> (bytes \<rightharpoonup> bytes)"

definition env_Get :: "config \<Rightarrow> bytes \<Rightarrow> bytes \<Rightarrow> bytes" where
  "env_Get configData table key = (case configData table of
     None \<Rightarrow> []
   | Some t \<Rightarrow> (case t key of None \<Rightarrow> [] | Some val \<Rightarrow> val))"

section \<open>What they compute\<close>

lemma StrListRemoveEmpty_filter: "StrListRemoveEmpty strs = filter (\<lambda>s. s \<noteq> []) (map StrRemoveEmpty strs)"
proof -
  have "StrListRemoveEmpty_loop strs acc = acc @ filter (\<lambda>s. s \<noteq> []) (map StrRemoveEmpty strs)" for acc
    by (induction strs arbitrary: acc) (simp_all add: Let_def)
  then show ?thesis by (simp add: StrListRemoveEmpty_def)
qed

lemma Split_no_sep: "\<not> sublist sep s \<Longrightarrow> Split sep s = [s]"
proof (induction sep s rule: Split.induct)
  case (1 sep s)
  show ?case
  proof (cases "sep = [] \<or> s = []")
    case False
    then obtain c s' where s: "s = c # s'" by (cases s) auto
    have "\<not> prefix sep s" "\<not> sublist sep s'"
      using 1(3) by (auto simp: s sublist_Cons_right)
    then show ?thesis
      using 1(2) False by (simp add: Split.simps [of sep "c # s'"] s)
  qed (simp add: Split.simps [of sep s])
qed

text \<open>A file without \<open>//\<close> loses its line ends only; a \<open>//\<close> inside a value, as in a URL, cuts the line there too.\<close>

lemma env_strip_plain:
  assumes "\<forall>str \<in> set (split_on 10 file). \<not> sublist (lit ''//'') str"
  shows "env_strip file = concat (split_on 10 file)"
proof -
  have "foldl (\<lambda>dstStr str. case Split (lit ''//'') str of [] \<Rightarrow> dstStr | tmp # _ \<Rightarrow> dstStr @ tmp) acc strs = acc @ concat strs"
    if "\<forall>str \<in> set strs. \<not> sublist (lit ''//'') str" for acc strs
    using that by (induction strs arbitrary: acc) (simp_all add: Split_no_sep)
  then show ?thesis
    using assms by (simp add: env_strip_def)
qed

lemma env_strip_cuts_url: "env_strip (lit ''{\"a\": \"http://h\"}'') = lit ''{\"a\": \"http:''"
  by (simp add: env_strip_def Split.simps)

text \<open>The text of an address with four numbers and a port.\<close>

definition ip_text :: "nat \<Rightarrow> nat \<Rightarrow> nat \<Rightarrow> nat \<Rightarrow> bytes" where
  "ip_text a b c d = FormatUint a @ lit ''.'' @ FormatUint b @ lit ''.'' @ FormatUint c @ lit ''.'' @ FormatUint d"

definition addr_text :: "bytes \<Rightarrow> nat \<Rightarrow> bytes" where
  "addr_text ip port = ip @ lit '':'' @ FormatUint port"

lemma FormatUint_no_mark: "of_char CHR ''.'' \<notin> set (FormatUint n)" "of_char CHR '':'' \<notin> set (FormatUint n)"
  using nat_digits_all [of n] by (auto simp: FormatUint_def is_digit_unat)

lemma atoi32_FormatUint: "n < 256 \<Longrightarrow> atoi32 (FormatUint n) = of_nat n"
  using ParseInt_FormatInt [of 64 "int n"] by (simp add: atoi32_def Atoi_def FormatInt_def FormatUint_def)

lemma IPToUInt32_text:
  assumes "a < 256" "b < 256" "c < 256" "d < 256"
  shows "unat (IPToUInt32 (ip_text a b c d)) = ((a * 256 + b) * 256 + c) * 256 + d"
proof -
  note parts = split_on_append [OF FormatUint_no_mark(1)] split_on_no_sep [OF FormatUint_no_mark(1)]
  have "split_on (of_char CHR ''.'') (ip_text a b c d) = [FormatUint a, FormatUint b, FormatUint c, FormatUint d]"
    using parts by (simp add: ip_text_def)
  then have "IPToUInt32 (ip_text a b c d) = push_bit 24 (of_nat a) + push_bit 16 (of_nat b) + push_bit 8 (of_nat c) + of_nat d"
    using assms by (simp add: IPToUInt32_def atoi32_FormatUint Let_def)
  also have "\<dots> = of_nat (((a * 256 + b) * 256 + c) * 256 + d)"
    by (simp add: push_bit_eq_mult algebra_simps)
  finally have v: "IPToUInt32 (ip_text a b c d) = of_nat (((a * 256 + b) * 256 + c) * 256 + d)" .
  have u: "unat (of_nat n :: 32 word) = n" if "n < 2 ^ 32" for n
    using that by (simp add: unat_of_nat)
  show ?thesis
    unfolding v by (rule u) (use assms in simp)
qed

lemma or_port:
  assumes "i < 2 ^ 32" "p < 2 ^ 32"
  shows "unat (push_bit 32 (of_nat i) OR of_nat p :: 64 word) = i * 2 ^ 32 + p"
proof -
  have "take_bit 32 p = p"
    using assms(2) by (simp add: take_bit_nat_eq_self)
  then have "\<not> bit (push_bit 32 (of_nat i :: 64 word)) n \<or> \<not> bit (of_nat p :: 64 word) n" for n
    by (metis bit_of_nat_iff bit_push_bit_iff bit_take_bit_iff not_less possible_bit_def)
  then have "push_bit 32 (of_nat i) OR of_nat p = push_bit 32 (of_nat i) + (of_nat p :: 64 word)"
    by (simp add: disjunctive_add)
  also have "\<dots> = of_nat (i * 2 ^ 32 + p)"
    by (simp add: push_bit_eq_mult)
  finally have v: "push_bit 32 (of_nat i) OR of_nat p = (of_nat (i * 2 ^ 32 + p) :: 64 word)" .
  have u: "unat (of_nat n :: 64 word) = n" if "n < 2 ^ 64" for n
    using that by (simp add: unat_of_nat)
  show ?thesis
    unfolding v by (rule u) (use assms in simp)
qed

lemma AddrToUint64_text:
  assumes "a < 256" "b < 256" "c < 256" "d < 256" "0 < a + b + c + d" "port < 2 ^ 32"
  shows "unat (AddrToUint64 (addr_text (ip_text a b c d) port)) = (((a * 256 + b) * 256 + c) * 256 + d) * 2 ^ 32 + port"
proof -
  let ?ip = "ip_text a b c d" and ?v = "((a * 256 + b) * 256 + c) * 256 + d"
  note ip = IPToUInt32_text [OF assms(1-4)]
  have v: "?v < 2 ^ 32" "0 < ?v"
    using assms(1-5) by simp_all
  have "of_char CHR '':'' \<notin> set ?ip"
    using FormatUint_no_mark(2) by (simp add: ip_text_def)
  then have sp: "split_on (of_char CHR '':'') (addr_text ?ip port) = [?ip, FormatUint port]"
    using split_on_append [of "of_char CHR '':''" ?ip] split_on_no_sep [OF FormatUint_no_mark(2)] by (simp add: addr_text_def)
  have nz: "IPToUInt32 ?ip \<noteq> 0"
    using ip v(2) by auto
  have "ucast (IPToUInt32 ?ip) = (of_nat ?v :: 64 word)"
    unfolding ip [symmetric] by simp
  moreover have "ParseUint (FormatUint port) 64 = (port, None)"
    using assms(6) by (intro ParseUint_FormatUint) simp
  ultimately have "AddrToUint64 (addr_text ?ip port) = push_bit 32 (of_nat ?v) OR of_nat port"
    using sp nz by (simp add: AddrToUint64_def)
  then show ?thesis
    using or_port [OF v(1) assms(6)] by (simp only:)
qed

text \<open>A port of more than 32 bits runs over the number of the host, so that two hosts get the same number.\<close>

lemma AddrToUint64_overlaps: "AddrToUint64 (lit ''0.0.0.1:8589934592'') = AddrToUint64 (lit ''0.0.0.3:0'')"
  by (simp add: AddrToUint64_def IPToUInt32_def atoi32_def Atoi_def ParseInt_def ParseUint_def is_digit_unat digits_val_def digit_val_def Let_def)

end
