(* ===== verification/Lib_Service.thy ===== *)
theory Lib_Service
  imports Go_Chan Go_Prelude
begin

text \<open>
  The life of a process, \<open>lib/service/service.go\<close>.  The process supplies an object with four methods; \<open>Main\<close> writes the pid file,
  starts the object, calls its \<open>MainLoop\<close> until a signal ends it, and stops it.  The methods change a world the model does not look
  into.  Signals come in batches: a batch is what the signal goroutine handles before the next look at \<open>terminate\<close>.
\<close>

record 'w IService =
  sv_Init :: "'w \<Rightarrow> bool \<times> 'w"
  sv_MainLoop :: "'w \<Rightarrow> 'w"
  sv_Reload :: "'w \<Rightarrow> 'w"
  sv_Final :: "'w \<Rightarrow> bool \<times> 'w"

datatype os_signal = SIGINT | SIGQUIT | SIGABRT | SIGTERM | SIGPIPE | SIGHUP

definition on_signal :: "'w IService \<Rightarrow> os_signal \<Rightarrow> bool \<times> 'w \<Rightarrow> bool \<times> 'w" where
  "on_signal d sig = (\<lambda>(terminate, w). case sig of
     SIGHUP \<Rightarrow> (terminate, sv_Reload d w)
   | SIGPIPE \<Rightarrow> (terminate, w)
   | _ \<Rightarrow> (True, w))"

text \<open>The loop of \<open>Main\<close>: the world, and whether the loop has ended.\<close>

fun service_loop :: "'w IService \<Rightarrow> os_signal list list \<Rightarrow> bool \<times> 'w \<Rightarrow> bool \<times> 'w" where
  "service_loop d [] st = st"
| "service_loop d (sigs # batches) st =
     (let (terminate, w) = fold (on_signal d) sigs st in
      if terminate then (True, w) else service_loop d batches (False, sv_MainLoop d w))"

text \<open>
  \<open>Main\<close>: \<open>create\<close> is whether the pid file of a path can be made.  The deferred function stops the object first of all, also when there is
  none, which panics where nothing recovers.  The result is the answer, the world, and whether the pid file is removed.
\<close>

definition Service_Main ::
  "'w IService option \<Rightarrow> (bytes \<Rightarrow> bool) \<Rightarrow> bytes \<Rightarrow> os_signal list list \<Rightarrow> 'w \<Rightarrow> (bool \<times> 'w \<times> bool) outcome" where
  "Service_Main derived create pidfilepath batches w =
     outcome_bind
       (if pidfilepath \<noteq> [] \<and> \<not> create pidfilepath then Returns (False, w, False)
        else let pid = (pidfilepath \<noteq> []) in
          case derived of
            None \<Rightarrow> Returns (False, w, pid)
          | Some d \<Rightarrow>
              (let (ok, w1) = sv_Init d w in
               if \<not> ok then Returns (False, w1, pid)
               else let (ended, w2) = service_loop d batches (False, w1) in
                 if ended then Returns (True, w2, pid) else Blocks))
       (\<lambda>(r, w3, pid). case derived of None \<Rightarrow> Panics | Some d \<Rightarrow> Returns (r, snd (sv_Final d w3), pid))"

section \<open>What it does\<close>

definition ending :: "os_signal \<Rightarrow> bool" where
  "ending sig \<longleftrightarrow> sig \<noteq> SIGHUP \<and> sig \<noteq> SIGPIPE"

lemma on_signals:
  "fold (on_signal d) sigs (False, w) = (\<exists>sig \<in> set sigs. ending sig, (sv_Reload d ^^ count_list sigs SIGHUP) w)"
proof -
  have "fold (on_signal d) sigs (tm, w) = (tm \<or> (\<exists>sig \<in> set sigs. ending sig), (sv_Reload d ^^ count_list sigs SIGHUP) w)" for tm w
  proof (induction sigs arbitrary: tm w)
    case (Cons sig sigs)
    have "on_signal d sig (tm, w) = (tm \<or> ending sig, if sig = SIGHUP then sv_Reload d w else w)"
      by (cases sig) (simp_all add: on_signal_def ending_def)
    then show ?case
      using Cons by (auto simp: funpow_swap1)
  qed simp
  then show ?thesis by simp
qed

text \<open>The loop ends with the first batch that has an ending signal, after one \<open>MainLoop\<close> per batch before it.\<close>

lemma service_loop_ends:
  assumes "\<forall>sigs \<in> set before. \<forall>sig \<in> set sigs. sig = SIGPIPE" "\<exists>sig \<in> set sigs. ending sig" "SIGHUP \<notin> set sigs"
  shows "service_loop d (before @ sigs # after) (False, w) = (True, (sv_MainLoop d ^^ length before) w)"
  using assms(1)
proof (induction before arbitrary: w)
  case Nil
  then show ?case
    using on_signals [of d sigs w] assms(2,3) by (simp add: count_list_0_iff)
next
  case (Cons b before)
  have "SIGHUP \<notin> set b" "\<not> (\<exists>sig \<in> set b. ending sig)"
    using Cons.prems by (auto simp: ending_def)
  then have "fold (on_signal d) b (False, w) = (False, w)"
    using on_signals [of d b w] by (simp add: count_list_0_iff)
  then show ?case
    using Cons by (simp add: funpow_swap1)
qed

lemma Service_Main_runs:
  assumes "sv_Init d w = (True, w1)" "\<forall>sigs \<in> set before. \<forall>sig \<in> set sigs. sig = SIGPIPE" "\<exists>sig \<in> set sigs. ending sig"
    and "SIGHUP \<notin> set sigs" "path = [] \<or> create path"
  shows "Service_Main (Some d) create path (before @ sigs # after) w =
    Returns (True, snd (sv_Final d ((sv_MainLoop d ^^ length before) w1)), path \<noteq> [])"
  using assms(1,5) service_loop_ends [OF assms(2-4), of d after w1] by (auto simp: Service_Main_def)

text \<open>Without an object, \<open>Main\<close> reports that it is missing and then panics, instead of returning \<open>false\<close>.\<close>

lemma Service_Main_no_object: "Service_Main None create path batches w = Panics"
  by (simp add: Service_Main_def)

end
