(* ===== verification/Log_Buffer.thy ===== *)
theory Log_Buffer
  imports Go_Io "HOL-Library.Sublist"
begin

text \<open>
  The files of the log, \<open>syncBuffer\<close> of \<open>lib/glog/glog.go\<close>.  Lines are copied into blocks of one megabyte; a full block is added to the
  chain of used blocks, and a flush takes this chain, writes it to the file and puts the blocks on the chain of free ones.  A file that has
  grown too large, or is of another day, is replaced by a new one.

  A chain of blocks is a list.  The array of a block is the list of its bytes up to the highest one written so far; the bytes after that are zero and
  are never read.  \<open>sb_files\<close> are the contents of the files made so far, the current one last.
\<close>

definition bufferSize :: nat where "bufferSize = 1024 * 1024"

definition MsgLineSize :: nat where "MsgLineSize = 64 * 1024"

definition maxFreeBlockSize :: int where "maxFreeBlockSize = 16"

definition MaxSize :: nat where "MaxSize = 1024 * 1024 * 500"

record blockbuf =
  bk_b :: bytes
  bk_pos :: nat

definition new_blockbuf :: blockbuf where
  "new_blockbuf = \<lparr>bk_b = [], bk_pos = 0\<rparr>"

record syncBuffer =
  sb_nbytes :: nat
  sb_yearday :: int
  sb_curblock :: blockbuf
  sb_freeblock :: "blockbuf list"
  sb_usedblock :: "blockbuf list"
  sb_freeblockNum :: int
  sb_files :: "bytes list"

section \<open>Writing lines\<close>

definition changeblock :: "syncBuffer \<Rightarrow> syncBuffer" where
  "changeblock sb =
     (let sb1 = sb\<lparr>sb_usedblock := sb_usedblock sb @ [sb_curblock sb]\<rparr> in
      case sb_freeblock sb1 of
        b # bs \<Rightarrow> sb1\<lparr>sb_curblock := b\<lparr>bk_pos := 0\<rparr>, sb_freeblock := bs, sb_freeblockNum := sb_freeblockNum sb1 - 1\<rparr>
      | [] \<Rightarrow> sb1\<lparr>sb_curblock := new_blockbuf\<rparr>)"

definition copy_block :: "blockbuf \<Rightarrow> bytes \<Rightarrow> blockbuf" where
  "copy_block b p =
     (let n = min (length p) (bufferSize - bk_pos b) in
      b\<lparr>bk_b := take (bk_pos b) (bk_b b) @ take n p @ drop (bk_pos b + n) (bk_b b), bk_pos := bk_pos b + length p\<rparr>)"

text \<open>The number of bytes taken, \<open>None\<close> for the error of a line that is too long, which is reported in a line of its own.\<close>

definition syncBuffer_Write :: "bytes \<Rightarrow> syncBuffer \<Rightarrow> nat option \<times> syncBuffer" where
  "syncBuffer_Write p sb =
     (if length p > MsgLineSize then (None, sb)
      else
        let sb1 = (if int bufferSize - int (bk_pos (sb_curblock sb)) < int (length p) then changeblock sb else sb) in
        (Some (length p), sb1\<lparr>sb_curblock := copy_block (sb_curblock sb1) p\<rparr>))"

section \<open>Flushing\<close>

definition Flush_take :: "syncBuffer \<Rightarrow> blockbuf list \<times> syncBuffer" where
  "Flush_take sb =
     (let sb1 = (if bk_pos (sb_curblock sb) > 0 then changeblock sb else sb) in
      (sb_usedblock sb1, sb1\<lparr>sb_usedblock := []\<rparr>))"

text \<open>
  \<open>rotateFile\<close> on a day.  The new file can not be made, or the write of its header fails after some bytes, or the header is written.
  The size of a file stays far below 64 bits.
\<close>

datatype new_file = NoFile | HeaderFails bytes | HeaderWritten bytes

definition rotateFile :: "int \<Rightarrow> new_file \<Rightarrow> syncBuffer \<Rightarrow> bool \<times> syncBuffer" where
  "rotateFile yearday nf sb =
     (let sb1 = sb\<lparr>sb_nbytes := 0, sb_yearday := yearday\<rparr> in
      case nf of
        NoFile \<Rightarrow> (False, sb1)
      | HeaderFails h \<Rightarrow> (False, sb1\<lparr>sb_nbytes := length h, sb_files := sb_files sb @ [h]\<rparr>)
      | HeaderWritten h \<Rightarrow> (True, sb1\<lparr>sb_nbytes := length h, sb_files := sb_files sb @ [h]\<rparr>))"

text \<open>The loop that writes one block: what the file accepted, and whether all is written (\<open>None\<close> while a write is under way).\<close>

fun write_block :: "write_outcome list \<Rightarrow> bytes \<Rightarrow> bytes \<times> bool option" where
  "write_block ws [] = ([], Some True)"
| "write_block [] (x # xs) = ([], None)"
| "write_block (WriteFail # ws) (x # xs) = ([], Some False)"
| "write_block (WriteOk n # ws) (x # xs) =
     (let k = min n (length (x # xs)); (out, r) = write_block ws (drop k (x # xs)) in (take k (x # xs) @ out, r))"

definition file_append :: "bytes \<Rightarrow> syncBuffer \<Rightarrow> syncBuffer" where
  "file_append out sb = (if sb_files sb = [] then sb else sb\<lparr>sb_files := butlast (sb_files sb) @ [last (sb_files sb) @ out]\<rparr>)"

text \<open>How writing the blocks ends: all written, an error, or still writing.\<close>

datatype flush_end = FlushOk | FlushError | FlushWriting

text \<open>
  The loop over the blocks.  For each block there are the outcomes of its writes, and the day and the header of the file that replaces a
  full one.
\<close>

fun flush_blocks :: "(write_outcome list \<times> int \<times> new_file) list \<Rightarrow> blockbuf list \<Rightarrow> syncBuffer \<Rightarrow> flush_end \<times> syncBuffer" where
  "flush_blocks env [] sb = (FlushOk, sb)"
| "flush_blocks [] (p # ps) sb = (FlushWriting, sb)"
| "flush_blocks ((ws, yearday, nf) # env) (p # ps) sb =
     (let pos = (if bk_pos p \<le> bufferSize then bk_pos p else bufferSize);
          (out, r) = write_block ws (take pos (bk_b p));
          sb1 = file_append out sb in
      case r of
        None \<Rightarrow> (FlushWriting, sb1)
      | Some False \<Rightarrow> (FlushError, sb1)
      | Some True \<Rightarrow>
          (let sb2 = sb1\<lparr>sb_nbytes := sb_nbytes sb1 + pos\<rparr> in
           if sb_nbytes sb2 > MaxSize
           then (let (ok, sb3) = rotateFile yearday nf sb2 in if ok then flush_blocks env ps sb3 else (FlushError, sb3))
           else flush_blocks env ps sb2))"

definition Flush_write ::
  "int \<Rightarrow> new_file \<Rightarrow> (write_outcome list \<times> int \<times> new_file) list \<Rightarrow> blockbuf list \<Rightarrow> syncBuffer \<Rightarrow> flush_end \<times> syncBuffer" where
  "Flush_write now nf env tmpblock sb =
     (if now \<noteq> sb_yearday sb
      then (let (ok, sb1) = rotateFile now nf sb in if ok then flush_blocks env tmpblock sb1 else (FlushError, sb1))
      else flush_blocks env tmpblock sb)"

definition Flush_recycle :: "blockbuf list \<Rightarrow> syncBuffer \<Rightarrow> syncBuffer" where
  "Flush_recycle tmpblock sb =
     (if sb_freeblock sb = [] then sb\<lparr>sb_freeblock := tmpblock, sb_freeblockNum := int (length tmpblock)\<rparr>
      else if sb_freeblockNum sb < maxFreeBlockSize
      then sb\<lparr>sb_freeblock := sb_freeblock sb @ tmpblock, sb_freeblockNum := sb_freeblockNum sb + int (length tmpblock)\<rparr>
      else sb)"

text \<open>
  An error while the file is locked calls \<open>exit\<close>, which flushes all files before it ends the process, this one too: when lines are pending the flush
  waits for the lock that is held, and the process does not end.
\<close>

datatype exit_end = Exits | Deadlocks

definition Flush_error_exit :: "syncBuffer \<Rightarrow> exit_end" where
  "Flush_error_exit sb = (if fst (Flush_take sb) = [] then Exits else Deadlocks)"

section \<open>Writers and the flusher\<close>

text \<open>
  Writers and the flush daemon at the same time.  A write and the two ends of a flush hold one lock, writing the file holds another and
  touches only the file and the blocks taken, so that these four are the steps.  Here one flush begins when the one before is at its end;
  flushes that overlap are the subject of the last section and of \<open>Log_Flushes\<close>.
\<close>

datatype log_op = is_OpWrite: OpWrite bytes | OpTake | OpPut int new_file "(write_outcome list \<times> int \<times> new_file) list" | OpRecycle

datatype flush_phase = FlushIdle | FlushTaken | FlushWritten

record log_sys =
  ls_sb :: syncBuffer
  ls_flight :: "blockbuf list"
  ls_phase :: flush_phase

fun log_step :: "log_op \<Rightarrow> log_sys \<Rightarrow> log_sys option" where
  "log_step (OpWrite p) s = Some (s\<lparr>ls_sb := snd (syncBuffer_Write p (ls_sb s))\<rparr>)"
| "log_step OpTake s =
     (if ls_phase s = FlushIdle
      then (let (tmp, sb) = Flush_take (ls_sb s) in
            Some (if tmp = [] then s\<lparr>ls_sb := sb\<rparr> else s\<lparr>ls_sb := sb, ls_flight := tmp, ls_phase := FlushTaken\<rparr>))
      else None)"
| "log_step (OpPut now nf env) s =
     (if ls_phase s = FlushTaken
      then (case Flush_write now nf env (ls_flight s) (ls_sb s) of
          (FlushOk, sb) \<Rightarrow> Some (s\<lparr>ls_sb := sb, ls_phase := FlushWritten\<rparr>)
        | _ \<Rightarrow> None)
      else None)"
| "log_step OpRecycle s =
     (if ls_phase s = FlushWritten
      then Some (s\<lparr>ls_sb := Flush_recycle (ls_flight s) (ls_sb s), ls_flight := [], ls_phase := FlushIdle\<rparr>)
      else None)"

fun log_run :: "log_op list \<Rightarrow> log_sys \<Rightarrow> log_sys option" where
  "log_run [] s = Some s"
| "log_run (x # xs) s = (case log_step x s of None \<Rightarrow> None | Some s1 \<Rightarrow> log_run xs s1)"

text \<open>A log whose first file was just made, as \<open>createFiles\<close> makes it.\<close>

definition new_syncBuffer :: syncBuffer where
  "new_syncBuffer = \<lparr>sb_nbytes = 0, sb_yearday = 0, sb_curblock = new_blockbuf, sb_freeblock = [], sb_usedblock = [], sb_freeblockNum = 0, sb_files = []\<rparr>"

definition log_new :: "int \<Rightarrow> bytes \<Rightarrow> log_sys" where
  "log_new day h = \<lparr>ls_sb = snd (rotateFile day (HeaderWritten h) new_syncBuffer), ls_flight = [], ls_phase = FlushIdle\<rparr>"

text \<open>The lines the log accepts, and the bytes it has accepted and not yet written.\<close>

fun accepted :: "log_op \<Rightarrow> bytes list" where
  "accepted (OpWrite p) = (if length p > MsgLineSize then [] else [p])"
| "accepted _ = []"

definition block_data :: "blockbuf \<Rightarrow> bytes" where
  "block_data b = take (bk_pos b) (bk_b b)"

definition in_flight :: "log_sys \<Rightarrow> blockbuf list" where
  "in_flight s = (if ls_phase s = FlushTaken then ls_flight s else [])"

lemma in_flight_sb [simp]: "in_flight (s\<lparr>ls_sb := sb\<rparr>) = in_flight s"
  by (simp add: in_flight_def)

definition unwritten :: "log_sys \<Rightarrow> bytes" where
  "unwritten s = concat (map block_data (in_flight s @ sb_usedblock (ls_sb s) @ [sb_curblock (ls_sb s)]))"

section \<open>Lines stay whole and in order\<close>

definition holds_lines :: "blockbuf \<Rightarrow> bytes list \<Rightarrow> bool" where
  "holds_lines b ls \<longleftrightarrow> bk_pos b \<le> bufferSize \<and> bk_pos b \<le> length (bk_b b) \<and> block_data b = concat ls"

definition files_hold :: "bytes list \<Rightarrow> (bytes \<times> bytes list) list \<Rightarrow> bool" where
  "files_hold files gs \<longleftrightarrow> gs \<noteq> [] \<and> files = map (\<lambda>(h, ls). h @ concat ls) gs"

definition log_inv :: "bytes list \<Rightarrow> log_sys \<Rightarrow> bool" where
  "log_inv acc s \<longleftrightarrow> (\<exists>gs fl ul cl.
     files_hold (sb_files (ls_sb s)) gs \<and> list_all2 holds_lines (in_flight s) fl \<and>
     list_all2 holds_lines (sb_usedblock (ls_sb s)) ul \<and> holds_lines (sb_curblock (ls_sb s)) cl \<and>
     acc = concat (map snd gs) @ concat fl @ concat ul @ cl \<and> sb_freeblockNum (ls_sb s) = int (length (sb_freeblock (ls_sb s))))"

lemma log_invI:
  assumes "files_hold (sb_files (ls_sb s)) gs" "list_all2 holds_lines (in_flight s) fl"
    and "list_all2 holds_lines (sb_usedblock (ls_sb s)) ul" "holds_lines (sb_curblock (ls_sb s)) cl"
    and "acc = concat (map snd gs) @ concat fl @ concat ul @ cl" "sb_freeblockNum (ls_sb s) = int (length (sb_freeblock (ls_sb s)))"
  shows "log_inv acc s"
  using assms unfolding log_inv_def by blast

lemma log_invE:
  assumes "log_inv acc s"
  obtains gs fl ul cl where "files_hold (sb_files (ls_sb s)) gs" "list_all2 holds_lines (in_flight s) fl"
    "list_all2 holds_lines (sb_usedblock (ls_sb s)) ul" "holds_lines (sb_curblock (ls_sb s)) cl"
    "acc = concat (map snd gs) @ concat fl @ concat ul @ cl" "sb_freeblockNum (ls_sb s) = int (length (sb_freeblock (ls_sb s)))"
  using assms unfolding log_inv_def by blast

lemma holds_new: "holds_lines new_blockbuf []" "holds_lines (b\<lparr>bk_pos := 0\<rparr>) []"
  by (simp_all add: holds_lines_def new_blockbuf_def block_data_def)

lemma changeblock_spec:
  "sb_usedblock (changeblock sb) = sb_usedblock sb @ [sb_curblock sb]" "holds_lines (sb_curblock (changeblock sb)) []"
  "bk_pos (sb_curblock (changeblock sb)) = 0" "sb_files (changeblock sb) = sb_files sb"
  "sb_freeblockNum sb = int (length (sb_freeblock sb)) \<Longrightarrow> sb_freeblockNum (changeblock sb) = int (length (sb_freeblock (changeblock sb)))"
  using holds_new by (auto simp: changeblock_def Let_def new_blockbuf_def split: list.split)

lemma copy_block_holds:
  assumes "holds_lines b ls" "bk_pos b + length p \<le> bufferSize"
  shows "holds_lines (copy_block b p) (ls @ [p])"
proof -
  have c: "take (bk_pos b) (bk_b b) = concat ls" "bk_pos b = length (concat ls)"
    using assms(1) by (auto simp: holds_lines_def block_data_def dest: arg_cong [where f = length])
  have "min (length p) (bufferSize - bk_pos b) = length p"
    using assms(2) by linarith
  then show ?thesis
    using assms(2) c by (simp add: holds_lines_def copy_block_def block_data_def Let_def)
qed

lemma Write_inv:
  assumes "log_inv acc s"
  shows "log_inv (acc @ accepted (OpWrite p)) (s\<lparr>ls_sb := snd (syncBuffer_Write p (ls_sb s))\<rparr>)"
proof (cases "length p > MsgLineSize")
  case True
  then show ?thesis using assms by (simp add: syncBuffer_Write_def)
next
  case False
  have small: "length p \<le> bufferSize"
    using False by (simp add: MsgLineSize_def bufferSize_def)
  obtain gs fl ul cl where i: "files_hold (sb_files (ls_sb s)) gs" "list_all2 holds_lines (in_flight s) fl"
      "list_all2 holds_lines (sb_usedblock (ls_sb s)) ul" "holds_lines (sb_curblock (ls_sb s)) cl"
      "acc = concat (map snd gs) @ concat fl @ concat ul @ cl" "sb_freeblockNum (ls_sb s) = int (length (sb_freeblock (ls_sb s)))"
    using assms by (rule log_invE)
  show ?thesis
  proof (cases "int bufferSize - int (bk_pos (sb_curblock (ls_sb s))) < int (length p)")
    case True
    have "holds_lines (copy_block (sb_curblock (changeblock (ls_sb s))) p) ([] @ [p])"
      using copy_block_holds [OF changeblock_spec(2)] small by (simp add: changeblock_spec)
    moreover have "list_all2 holds_lines (sb_usedblock (changeblock (ls_sb s))) (ul @ [cl])"
      using i(3,4) by (simp add: changeblock_spec list_all2_appendI)
    ultimately show ?thesis
      using True False i(1,2,5) changeblock_spec(5) [OF i(6)]
      by (intro log_invI [of _ gs fl "ul @ [cl]" "[p]"]) (simp_all add: syncBuffer_Write_def Let_def changeblock_spec(4))
  next
    case fits: False
    then have "bk_pos (sb_curblock (ls_sb s)) + length p \<le> bufferSize"
      by linarith
    then show ?thesis
      using fits False i copy_block_holds [OF i(4), of p]
      by (intro log_invI [of _ gs fl ul "cl @ [p]"]) (simp_all add: syncBuffer_Write_def Let_def)
  qed
qed

lemma Take_inv:
  assumes "log_inv acc s" "log_step OpTake s = Some s'"
  shows "log_inv acc s'"
proof -
  obtain gs fl ul cl where i: "files_hold (sb_files (ls_sb s)) gs" "list_all2 holds_lines (in_flight s) fl"
      "list_all2 holds_lines (sb_usedblock (ls_sb s)) ul" "holds_lines (sb_curblock (ls_sb s)) cl"
      "acc = concat (map snd gs) @ concat fl @ concat ul @ cl" "sb_freeblockNum (ls_sb s) = int (length (sb_freeblock (ls_sb s)))"
    using assms(1) by (rule log_invE)
  have idle: "ls_phase s = FlushIdle" "fl = []"
    using assms(2) i(2) by (auto simp: in_flight_def split: if_splits)
  let ?sb = "if bk_pos (sb_curblock (ls_sb s)) > 0 then changeblock (ls_sb s) else ls_sb s"
  let ?ul = "if bk_pos (sb_curblock (ls_sb s)) > 0 then ul @ [cl] else ul" and ?cl = "if bk_pos (sb_curblock (ls_sb s)) > 0 then [] else cl"
  have sb: "files_hold (sb_files ?sb) gs" "list_all2 holds_lines (sb_usedblock ?sb) ?ul" "holds_lines (sb_curblock ?sb) ?cl"
      "acc = concat (map snd gs) @ concat ?ul @ ?cl" "sb_freeblockNum ?sb = int (length (sb_freeblock ?sb))"
    using i idle changeblock_spec [of "ls_sb s"] by (auto intro: list_all2_appendI)
  show ?thesis
  proof (cases "sb_usedblock ?sb = []")
    case True
    then show ?thesis
      using assms(2) idle sb by (intro log_invI [of _ gs "[]" ?ul ?cl]) (auto simp: Flush_take_def Let_def in_flight_def split: if_splits)
  next
    case False
    then show ?thesis
      using assms(2) idle sb by (intro log_invI [of _ gs ?ul "[]" ?cl]) (auto simp: Flush_take_def Let_def in_flight_def split: if_splits)
  qed
qed

lemma write_block_all: "write_block ws xs = (out, Some True) \<Longrightarrow> out = xs"
proof (induction ws xs arbitrary: out rule: write_block.induct)
  case (4 n ws x xs)
  then show ?case
    by (auto simp: Let_def split: prod.splits simp del: take_Cons' drop_Cons')
qed auto

lemma files_hold_append:
  assumes "files_hold (sb_files sb) gs"
  shows "files_hold (sb_files (file_append (concat ls) sb)) (butlast gs @ [(fst (last gs), snd (last gs) @ ls)])"
    "concat (map snd (butlast gs @ [(fst (last gs), snd (last gs) @ ls)])) = concat (map snd gs) @ ls"
proof -
  obtain gs0 h ls0 where gs: "gs = gs0 @ [(h, ls0)]"
    using assms by (metis files_hold_def append_butlast_last_id prod.collapse)
  show "files_hold (sb_files (file_append (concat ls) sb)) (butlast gs @ [(fst (last gs), snd (last gs) @ ls)])"
    using assms by (simp add: files_hold_def file_append_def gs)
  show "concat (map snd (butlast gs @ [(fst (last gs), snd (last gs) @ ls)])) = concat (map snd gs) @ ls"
    by (simp add: gs)
qed

text \<open>What the steps on the file leave alone.\<close>

definition same_blocks :: "syncBuffer \<Rightarrow> syncBuffer \<Rightarrow> bool" where
  "same_blocks sb sb' \<longleftrightarrow> sb_usedblock sb' = sb_usedblock sb \<and> sb_curblock sb' = sb_curblock sb \<and>
     sb_freeblock sb' = sb_freeblock sb \<and> sb_freeblockNum sb' = sb_freeblockNum sb"

lemma same_blocks_trans: "same_blocks a b \<Longrightarrow> same_blocks b c \<Longrightarrow> same_blocks a c"
  by (simp add: same_blocks_def)

lemma same_blocks_simps [simp]: "same_blocks sb (sb\<lparr>sb_nbytes := n\<rparr>)" "same_blocks sb sb" "same_blocks sb (file_append xs sb)"
  by (simp_all add: same_blocks_def file_append_def)

definition put_lines :: "bytes list \<Rightarrow> syncBuffer \<Rightarrow> syncBuffer \<Rightarrow> bool" where
  "put_lines ls sb sb' \<longleftrightarrow> same_blocks sb sb' \<and>
     (\<forall>gs. files_hold (sb_files sb) gs \<longrightarrow>
        (\<exists>gs'. files_hold (sb_files sb') gs' \<and> concat (map snd gs') = concat (map snd gs) @ ls))"

lemma put_lines_trans: "put_lines xs a b \<Longrightarrow> put_lines ys b c \<Longrightarrow> put_lines (xs @ ys) a c"
  unfolding put_lines_def by (fastforce intro: same_blocks_trans)

lemma put_lines_nbytes: "put_lines [] sb (sb\<lparr>sb_nbytes := n\<rparr>)"
  unfolding put_lines_def by simp blast

lemma put_lines_append: "put_lines ls sb (file_append (concat ls) sb)"
  unfolding put_lines_def by (intro conjI allI impI exI) (rule same_blocks_simps, erule files_hold_append, erule files_hold_append)

lemma put_lines_rotate:
  assumes "rotateFile day nf sb = (True, sb')"
  shows "put_lines [] sb sb'"
proof -
  obtain h where "nf = HeaderWritten h" and sb': "sb' = sb\<lparr>sb_nbytes := length h, sb_yearday := day, sb_files := sb_files sb @ [h]\<rparr>"
    using assms by (auto simp: rotateFile_def Let_def split: new_file.splits)
  show ?thesis
    unfolding put_lines_def
  proof (intro conjI allI impI)
    show "same_blocks sb sb'" by (simp add: sb' same_blocks_def)
  next
    fix gs assume "files_hold (sb_files sb) gs"
    then show "\<exists>gs'. files_hold (sb_files sb') gs' \<and> concat (map snd gs') = concat (map snd gs) @ []"
      by (intro exI [of _ "gs @ [(h, [])]"]) (simp add: files_hold_def sb')
  qed
qed

lemma rotateFile_written:
  "rotateFile day (HeaderWritten h) sb = (True, sb\<lparr>sb_nbytes := length h, sb_yearday := day, sb_files := sb_files sb @ [h]\<rparr>)"
  by (simp add: rotateFile_def Let_def)

lemma flush_blocks_step:
  assumes run: "flush_blocks ((ws, yearday, nf) # env) (p # ps) sb = (FlushOk, sb')" and p: "holds_lines p ls"
  shows "\<exists>sb2. put_lines ls sb sb2 \<and> flush_blocks env ps sb2 = (FlushOk, sb')"
proof -
  have pos: "(if bk_pos p \<le> bufferSize then bk_pos p else bufferSize) = bk_pos p" "take (bk_pos p) (bk_b p) = concat ls"
    using p by (auto simp: holds_lines_def block_data_def)
  obtain out r where w: "write_block ws (concat ls) = (out, r)" by fastforce
  define sb2 where "sb2 = (file_append out sb)\<lparr>sb_nbytes := sb_nbytes (file_append out sb) + bk_pos p\<rparr>"
  have run1: "(case r of None \<Rightarrow> (FlushWriting, file_append out sb) | Some False \<Rightarrow> (FlushError, file_append out sb)
      | Some True \<Rightarrow> (if sb_nbytes sb2 > MaxSize
           then (let (ok, sb3) = rotateFile yearday nf sb2 in if ok then flush_blocks env ps sb3 else (FlushError, sb3))
           else flush_blocks env ps sb2)) = (FlushOk, sb')"
    using run unfolding flush_blocks.simps pos w Let_def sb2_def by (simp only: prod.case)
  then have r: "r = Some True"
    by (simp split: option.split_asm bool.split_asm)
  have head: "put_lines ls sb sb2"
    using put_lines_trans [OF put_lines_append put_lines_nbytes, of ls sb] unfolding sb2_def write_block_all [OF w [unfolded r]] by simp
  show ?thesis
  proof (cases "sb_nbytes sb2 > MaxSize")
    case True
    obtain ok sb3 where rot: "rotateFile yearday nf sb2 = (ok, sb3)" by fastforce
    then have "ok" "flush_blocks env ps sb3 = (FlushOk, sb')"
      using run1 True r by (auto split: if_splits)
    then show ?thesis
      using put_lines_trans [OF head put_lines_rotate, of yearday nf sb3] rot by (intro exI [of _ sb3]) simp
  next
    case False
    then show ?thesis using run1 r head by (intro exI [of _ sb2]) simp
  qed
qed

lemma flush_blocks_put:
  assumes "flush_blocks env ps sb = (FlushOk, sb')" "list_all2 holds_lines ps pls"
  shows "put_lines (concat pls) sb sb'"
  using assms(2,1)
proof (induction ps pls arbitrary: env sb rule: list_all2_induct)
  case Nil
  then show ?case by (auto simp: put_lines_def)
next
  case (Cons p ps ls pls)
  then obtain ws yearday nf env1 where env: "env = (ws, yearday, nf) # env1"
    by (cases env) auto
  obtain sb2 where "put_lines ls sb sb2" "flush_blocks env1 ps sb2 = (FlushOk, sb')"
    using flush_blocks_step [OF Cons.prems [unfolded env] Cons.hyps(1)] by blast
  then show ?case
    using put_lines_trans [OF _ Cons.IH] by simp
qed

lemma Flush_write_put:
  assumes "Flush_write now nf env ps sb = (FlushOk, sb')" "list_all2 holds_lines ps pls"
  shows "put_lines (concat pls) sb sb'"
proof (cases "now = sb_yearday sb")
  case True
  then show ?thesis using assms flush_blocks_put by (simp add: Flush_write_def)
next
  case False
  then obtain sb1 where "rotateFile now nf sb = (True, sb1)" "flush_blocks env ps sb1 = (FlushOk, sb')"
    using assms(1) by (auto simp: Flush_write_def split: prod.splits if_splits)
  then show ?thesis
    using put_lines_trans [OF put_lines_rotate flush_blocks_put [OF _ assms(2)], of now nf sb sb1 env sb'] by simp
qed

lemma Put_inv:
  assumes "log_inv acc s" "log_step (OpPut now nf env) s = Some s'"
  shows "log_inv acc s'"
proof -
  obtain gs fl ul cl where i: "files_hold (sb_files (ls_sb s)) gs" "list_all2 holds_lines (in_flight s) fl"
      "list_all2 holds_lines (sb_usedblock (ls_sb s)) ul" "holds_lines (sb_curblock (ls_sb s)) cl"
      "acc = concat (map snd gs) @ concat fl @ concat ul @ cl" "sb_freeblockNum (ls_sb s) = int (length (sb_freeblock (ls_sb s)))"
    using assms(1) by (rule log_invE)
  obtain sb where t: "ls_phase s = FlushTaken" "Flush_write now nf env (ls_flight s) (ls_sb s) = (FlushOk, sb)"
      "s' = s\<lparr>ls_sb := sb, ls_phase := FlushWritten\<rparr>"
    using assms(2) by (auto split: if_splits prod.splits flush_end.splits)
  have "put_lines (concat fl) (ls_sb s) sb"
    using Flush_write_put [OF t(2)] i(2) t(1) by (simp add: in_flight_def)
  then obtain gs' where "files_hold (sb_files sb) gs'" "concat (map snd gs') = concat (map snd gs) @ concat fl" "same_blocks (ls_sb s) sb"
    using i(1) unfolding put_lines_def by blast
  then show ?thesis
    using i(3-6) by (intro log_invI [of _ gs' "[]" ul cl]) (simp_all add: t(3) in_flight_def same_blocks_def)
qed

lemma Recycle_inv:
  assumes "log_inv acc s" "log_step OpRecycle s = Some s'"
  shows "log_inv acc s'"
proof -
  have t: "ls_phase s = FlushWritten" "s' = s\<lparr>ls_sb := Flush_recycle (ls_flight s) (ls_sb s), ls_flight := [], ls_phase := FlushIdle\<rparr>"
    using assms(2) by (auto split: if_splits)
  obtain gs fl ul cl where i: "files_hold (sb_files (ls_sb s)) gs" "list_all2 holds_lines (in_flight s) fl"
      "list_all2 holds_lines (sb_usedblock (ls_sb s)) ul" "holds_lines (sb_curblock (ls_sb s)) cl"
      "acc = concat (map snd gs) @ concat fl @ concat ul @ cl" "sb_freeblockNum (ls_sb s) = int (length (sb_freeblock (ls_sb s)))"
    using assms(1) by (rule log_invE)
  show ?thesis
    using i t(1) by (intro log_invI [of _ gs fl ul cl]) (simp_all add: t(2) in_flight_def Flush_recycle_def)
qed

lemma log_step_inv:
  assumes "log_inv acc s" "log_step x s = Some s'"
  shows "log_inv (acc @ accepted x) s'"
proof (cases x)
  case (OpWrite p)
  then show ?thesis using Write_inv [OF assms(1), of p] assms(2) by simp
next
  case OpTake
  then show ?thesis using Take_inv [OF assms(1)] assms(2) by simp
next
  case (OpPut now nf env)
  then show ?thesis using Put_inv [OF assms(1)] assms(2) by simp
next
  case OpRecycle
  then show ?thesis using Recycle_inv [OF assms(1)] assms(2) by simp
qed

lemma log_run_inv:
  assumes "log_inv acc s" "log_run ops s = Some s'"
  shows "log_inv (acc @ concat (map accepted ops)) s'"
  using assms
proof (induction ops arbitrary: acc s)
  case (Cons x xs)
  then obtain s1 where "log_step x s = Some s1" "log_run xs s1 = Some s'"
    by (auto split: option.splits)
  then show ?case
    using Cons.IH [OF log_step_inv [OF Cons.prems(1)]] by simp
qed simp

lemma log_new_inv: "log_inv [] (log_new day h)"
  using holds_new(1)
  by (intro log_invI [of _ "[(h, [])]" "[]" "[]" "[]"]) (simp_all add: log_new_def new_syncBuffer_def rotateFile_def Let_def files_hold_def in_flight_def)

lemma block_data_concat: "list_all2 holds_lines bs lss \<Longrightarrow> concat (map block_data bs) = concat (concat lss)"
  by (induction rule: list_all2_induct) (simp_all add: holds_lines_def)

lemma log_inv_files:
  assumes "log_inv acc s"
  obtains gs ls where "sb_files (ls_sb s) = map (\<lambda>(h, ls). h @ concat ls) gs" "concat (map snd gs) @ ls = acc" "unwritten s = concat ls"
proof -
  obtain gs fl ul cl where i: "files_hold (sb_files (ls_sb s)) gs" "list_all2 holds_lines (in_flight s) fl"
      "list_all2 holds_lines (sb_usedblock (ls_sb s)) ul" "holds_lines (sb_curblock (ls_sb s)) cl"
      "acc = concat (map snd gs) @ concat fl @ concat ul @ cl"
    using assms by (rule log_invE)
  have "unwritten s = concat (concat fl @ concat ul @ cl)"
    using i(4) block_data_concat [OF i(2)] block_data_concat [OF i(3)] by (simp add: unwritten_def holds_lines_def)
  then show thesis
    using i(1,5) that [of gs "concat fl @ concat ul @ cl"] by (simp add: files_hold_def)
qed

text \<open>
  However writers and the flush daemon interleave, the log files hold the lines that were accepted, each one whole and all in the order in which they were written:
  every file is its header followed by a run of whole lines, the lines of the files in a row are a prefix of those accepted, and the rest are
  in the blocks that are not written yet.
\<close>

lemma syncBuffer_lines_in_order:
  assumes "log_run ops (log_new day h) = Some s"
  shows "\<exists>gs ls. sb_files (ls_sb s) = map (\<lambda>(h, ls). h @ concat ls) gs \<and>
    concat (map snd gs) @ ls = concat (map accepted ops) \<and> unwritten s = concat ls"
proof -
  have "log_inv (concat (map accepted ops)) s"
    using log_run_inv [OF log_new_inv assms] by simp
  then obtain gs ls where "sb_files (ls_sb s) = map (\<lambda>(h, ls). h @ concat ls) gs" "concat (map snd gs) @ ls = concat (map accepted ops)"
      "unwritten s = concat ls"
    by (rule log_inv_files)
  then show ?thesis by (intro exI [of _ gs] exI [of _ ls]) simp
qed

lemma syncBuffer_lines_in_order_instance:
  "\<exists>s gs ls. log_run [OpWrite (lit ''a''), OpTake, OpWrite (lit ''b''), OpPut 2 (HeaderWritten (lit ''h'')) [([WriteOk 1], 2, NoFile)], OpRecycle]
      (log_new 1 (lit ''g'')) = Some s \<and>
    sb_files (ls_sb s) = [lit ''g'', lit ''ha''] \<and> unwritten s = lit ''b'' \<and>
    sb_files (ls_sb s) = map (\<lambda>(h, ls). h @ concat ls) gs \<and> concat (map snd gs) @ ls = [lit ''a'', lit ''b''] \<and> unwritten s = concat ls"
proof -
  let ?ops = "[OpWrite (lit ''a''), OpTake, OpWrite (lit ''b''), OpPut 2 (HeaderWritten (lit ''h'')) [([WriteOk 1], 2, NoFile)], OpRecycle]"
  obtain s where s: "log_run ?ops (log_new 1 (lit ''g'')) = Some s" "sb_files (ls_sb s) = [lit ''g'', lit ''ha'']" "unwritten s = lit ''b''"
    by (simp add: log_new_def new_syncBuffer_def rotateFile_def Let_def syncBuffer_Write_def MsgLineSize_def bufferSize_def new_blockbuf_def copy_block_def lit_def
      Flush_take_def changeblock_def Flush_write_def file_append_def MaxSize_def Flush_recycle_def unwritten_def in_flight_def block_data_def)
  show ?thesis
    using syncBuffer_lines_in_order [OF s(1)] s by (simp add: MsgLineSize_def lit_def)
qed

section \<open>A flush that ends\<close>

lemma write_block_complete:
  assumes "length xs \<le> n"
  shows "write_block [WriteOk n] xs = (xs, Some True)"
  using assms by (cases xs) (simp_all add: Let_def min_absorb2)

lemma flush_blocks_ok:
  assumes "length ps \<le> n"
  shows "\<exists>sb'. flush_blocks (replicate n ([WriteOk bufferSize], day, HeaderWritten h)) ps sb = (FlushOk, sb')"
  using assms
proof (induction ps arbitrary: n sb)
  case (Cons p ps)
  then obtain m where m: "n = Suc m" "length ps \<le> m" by (cases n) auto
  let ?pos = "if bk_pos p \<le> bufferSize then bk_pos p else bufferSize"
  have "write_block [WriteOk bufferSize] (take ?pos (bk_b p)) = (take ?pos (bk_b p), Some True)"
    by (rule write_block_complete) (simp add: min_le_iff_disj)
  then show ?case
    using Cons.IH [OF m(2)] by (simp add: m(1) Let_def rotateFile_written split del: if_split) (simp split: if_split add: rotateFile_written)
qed simp

text \<open>After the blocks are taken nothing is left that is not in them.\<close>

lemma Flush_take_rest:
  assumes "Flush_take sb = (tmp, sb')"
  shows "sb_usedblock sb' = []" "block_data (sb_curblock sb') = []"
    "length tmp \<le> Suc (length (sb_usedblock sb))" "tmp = [] \<Longrightarrow> sb_usedblock sb = [] \<and> block_data (sb_curblock sb) = []"
  using assms changeblock_spec [of sb] by (auto simp: Flush_take_def Let_def block_data_def split: if_splits)

lemma flush_run:
  assumes "log_inv acc s" "ls_phase s = FlushIdle" "unwritten s \<noteq> []" "Suc (length (sb_usedblock (ls_sb s))) \<le> n"
  shows "\<exists>s'. log_run [OpTake, OpPut day (HeaderWritten h) (replicate n ([WriteOk bufferSize], day, HeaderWritten h)), OpRecycle] s = Some s' \<and>
    unwritten s' = []"
proof -
  obtain tmp sb where t: "Flush_take (ls_sb s) = (tmp, sb)" by fastforce
  have "tmp \<noteq> []"
    using Flush_take_rest(4) [OF t] assms(2,3) by (auto simp: unwritten_def in_flight_def)
  let ?env = "replicate n ([WriteOk bufferSize], day, HeaderWritten h)"
  let ?s1 = "s\<lparr>ls_sb := sb, ls_flight := tmp, ls_phase := FlushTaken\<rparr>"
  have s1: "log_step OpTake s = Some ?s1"
    using assms(2) t \<open>tmp \<noteq> []\<close> by simp
  obtain fl where fl: "list_all2 holds_lines tmp fl"
    using log_invE [OF Take_inv [OF assms(1) s1]] by (auto simp: in_flight_def)
  obtain sb1 where w: "Flush_write day (HeaderWritten h) ?env tmp sb = (FlushOk, sb1)"
    using flush_blocks_ok [of tmp n] Flush_take_rest(3) [OF t] assms(4)
    by (cases "day = sb_yearday sb") (fastforce simp: Flush_write_def rotateFile_written)+
  have same: "sb_usedblock sb1 = sb_usedblock sb" "sb_curblock sb1 = sb_curblock sb"
    using Flush_write_put [OF w fl] by (simp_all add: put_lines_def same_blocks_def)
  show ?thesis
    using s1 w Flush_take_rest(1,2) [OF t]
    by (simp add: unwritten_def in_flight_def Flush_recycle_def same del: log_step.simps(2))
qed

text \<open>
  C27. A flush brings all accepted lines into the files.  From any state of the log in which no flush is under way and some line is
  not written yet, taking the blocks, writing them to a disk that accepts every block and gives a new file when one is needed, and
  returning the blocks ends, and then the lines of the files are exactly the accepted ones, in order.
\<close>

theorem syncBuffer_flush_complete:
  assumes "log_run ops (log_new day h) = Some s" "ls_phase s = FlushIdle" "unwritten s \<noteq> []" "Suc (length (sb_usedblock (ls_sb s))) \<le> n"
  shows "\<exists>s' gs. log_run [OpTake, OpPut now (HeaderWritten h') (replicate n ([WriteOk bufferSize], now, HeaderWritten h')), OpRecycle] s = Some s' \<and>
    sb_files (ls_sb s') = map (\<lambda>(h, ls). h @ concat ls) gs \<and> concat (concat (map snd gs)) = concat (concat (map accepted ops)) \<and>
    prefix (concat (map snd gs)) (concat (map accepted ops))"
proof -
  have inv: "log_inv (concat (map accepted ops)) s"
    using log_run_inv [OF log_new_inv assms(1)] by simp
  let ?fl = "[OpTake, OpPut now (HeaderWritten h') (replicate n ([WriteOk bufferSize], now, HeaderWritten h')), OpRecycle]"
  obtain s' where s': "log_run ?fl s = Some s'" "unwritten s' = []"
    using flush_run [OF inv assms(2-4)] by blast
  have "log_inv (concat (map accepted ops)) s'"
    using log_run_inv [OF inv s'(1)] by simp
  then obtain gs ls where "sb_files (ls_sb s') = map (\<lambda>(h, ls). h @ concat ls) gs" "concat (map snd gs) @ ls = concat (map accepted ops)"
      "unwritten s' = concat ls"
    by (rule log_inv_files)
  then show ?thesis
    using s' by (intro exI [of _ s'] exI [of _ gs]) (metis append_Nil2 concat_append prefixI)
qed

theorem syncBuffer_flush_complete_witness:
  "\<exists>s s' gs. log_run [OpWrite (lit ''a''), OpWrite (lit ''b'')] (log_new 1 (lit ''g'')) = Some s \<and>
    log_run [OpTake, OpPut 2 (HeaderWritten (lit ''h'')) (replicate 1 ([WriteOk bufferSize], 2, HeaderWritten (lit ''h''))), OpRecycle] s = Some s' \<and>
    sb_files (ls_sb s') = map (\<lambda>(h, ls). h @ concat ls) gs \<and> concat (concat (map snd gs)) = lit ''ab''"
proof -
  obtain s where s: "log_run [OpWrite (lit ''a''), OpWrite (lit ''b'')] (log_new 1 (lit ''g'')) = Some s" "ls_phase s = FlushIdle"
      "unwritten s \<noteq> []" "Suc (length (sb_usedblock (ls_sb s))) \<le> 1"
    by (simp add: log_new_def new_syncBuffer_def rotateFile_def Let_def syncBuffer_Write_def MsgLineSize_def bufferSize_def new_blockbuf_def copy_block_def lit_def
      unwritten_def in_flight_def block_data_def)
  show ?thesis
    using syncBuffer_flush_complete [OF s, of 2 "lit ''h''"] s(1) by (fastforce simp: MsgLineSize_def lit_def)
qed

section \<open>Two flushes at once\<close>

text \<open>
  \<open>lockAndFlushAll\<close> takes no lock, so that the flush daemon and a caller of \<open>Flush\<close> can flush one file at the same time.  The second may take its
  blocks later and write them first: then the lines are in the file in the other order.
\<close>

lemma write_to_empty:
  assumes "bk_pos (sb_curblock sb) = 0" "sb_usedblock sb = []" "p \<noteq> []" "length p \<le> MsgLineSize" "sb_freeblock sb = []"
  obtains b sb' where "Flush_take (snd (syncBuffer_Write p sb)) = ([b], sb')" "block_data b = p" "bk_pos b = length p"
    "bk_pos (sb_curblock sb') = 0" "sb_usedblock sb' = []" "sb_freeblock sb' = []"
    "sb_files sb' = sb_files sb" "sb_nbytes sb' = sb_nbytes sb" "sb_yearday sb' = sb_yearday sb"
proof -
  have "length p \<le> bufferSize" using assms(4) by (simp add: MsgLineSize_def bufferSize_def)
  then show thesis
    using assms that [of "copy_block (sb_curblock sb) p" "(changeblock (snd (syncBuffer_Write p sb)))\<lparr>sb_usedblock := []\<rparr>"]
    by (simp add: syncBuffer_Write_def Flush_take_def Let_def copy_block_def changeblock_def block_data_def new_blockbuf_def)
qed

lemma flush_one_block:
  assumes "block_data b = p" "bk_pos b = length p" "length p \<le> bufferSize" "sb_nbytes sb + length p \<le> MaxSize" "sb_files sb = [f]"
  shows "Flush_write (sb_yearday sb) nf [([WriteOk bufferSize], day, nf)] [b] sb =
    (FlushOk, sb\<lparr>sb_nbytes := sb_nbytes sb + length p, sb_files := [f @ p]\<rparr>)"
  using assms by (simp add: Flush_write_def block_data_def write_block_complete Let_def file_append_def)

lemma concurrent_flushes_reorder:
  assumes "a \<noteq> []" "b \<noteq> []" "length a \<le> MsgLineSize" "length b \<le> MsgLineSize" "length h \<le> MsgLineSize"
  shows "\<exists>ta sb2 tb sb4 sb5 sb6. Flush_take (snd (syncBuffer_Write a (ls_sb (log_new day h)))) = (ta, sb2) \<and>
    Flush_take (snd (syncBuffer_Write b sb2)) = (tb, sb4) \<and>
    Flush_write day NoFile [([WriteOk bufferSize], day, NoFile)] tb sb4 = (FlushOk, sb5) \<and>
    Flush_write day NoFile [([WriteOk bufferSize], day, NoFile)] ta sb5 = (FlushOk, sb6) \<and> sb_files sb6 = [h @ b @ a]"
proof -
  let ?sb = "ls_sb (log_new day h)"
  have new: "bk_pos (sb_curblock ?sb) = 0" "sb_usedblock ?sb = []" "sb_freeblock ?sb = []" "sb_files ?sb = [h]" "sb_nbytes ?sb = length h" "sb_yearday ?sb = day"
    by (simp_all add: log_new_def new_syncBuffer_def rotateFile_written new_blockbuf_def)
  obtain ba sb2 where ta: "Flush_take (snd (syncBuffer_Write a ?sb)) = ([ba], sb2)" "block_data ba = a" "bk_pos ba = length a"
      and sb2: "bk_pos (sb_curblock sb2) = 0" "sb_usedblock sb2 = []" "sb_freeblock sb2 = []"
        "sb_files sb2 = [h]" "sb_nbytes sb2 = length h" "sb_yearday sb2 = day"
    using write_to_empty [OF new(1,2) assms(1,3) new(3)] unfolding new by metis
  obtain bb sb4 where tb: "Flush_take (snd (syncBuffer_Write b sb2)) = ([bb], sb4)" "block_data bb = b" "bk_pos bb = length b"
      and sb4: "sb_files sb4 = [h]" "sb_nbytes sb4 = length h" "sb_yearday sb4 = day"
    using write_to_empty [OF sb2(1,2) assms(2,4) sb2(3)] unfolding sb2 by metis
  have small: "length a \<le> bufferSize" "length b \<le> bufferSize" "length h + length b + length a \<le> MaxSize"
    using assms by (simp_all add: MsgLineSize_def bufferSize_def MaxSize_def)
  let ?sb5 = "sb4\<lparr>sb_nbytes := length h + length b, sb_files := [h @ b]\<rparr>"
  have "Flush_write day NoFile [([WriteOk bufferSize], day, NoFile)] [bb] sb4 = (FlushOk, ?sb5)"
    using flush_one_block [OF tb(2,3) small(2), of sb4 h NoFile day] small(3) sb4 by simp
  moreover have "Flush_write day NoFile [([WriteOk bufferSize], day, NoFile)] [ba] ?sb5 = (FlushOk, ?sb5\<lparr>sb_nbytes := length h + length b + length a, sb_files := [(h @ b) @ a]\<rparr>)"
    using flush_one_block [OF ta(2,3) small(1), of ?sb5 "h @ b" NoFile day] small(3) sb4 by simp
  ultimately show ?thesis
    using ta(1) tb(1) by simp
qed

text \<open>An error of the disk while another line waits does not end the process: \<open>exit\<close> flushes this file again and waits for the lock its caller holds.\<close>

lemma Flush_error_deadlocks:
  assumes "p \<noteq> []" "length p \<le> MsgLineSize"
  shows "Flush_error_exit (snd (syncBuffer_Write p sb)) = Deadlocks"
  using assms by (simp add: Flush_error_exit_def Flush_take_def syncBuffer_Write_def Let_def copy_block_def changeblock_def split: list.split)

end
