(* ===== verification/Log_Flushes.thy ===== *)
theory Log_Flushes
  imports Log_Buffer "HOL-Library.Multiset"
begin

text \<open>
  A file of the log with any number of flushes at once, \<open>syncBuffer\<close> of \<open>lib/glog/glog.go\<close>: the lock of \<open>lockAndFlushAll\<close> is commented out, so
  that the flush daemon and the callers of \<open>Flush\<close> may flush one file at the same time.  Each flush takes its blocks under one lock, writes
  them under another, and gives them back under the first; writers and other flushes come in between.  No line is lost, doubled or
  torn by this, but lines may change places.
\<close>

text \<open>The flushes in the order in which they took their blocks, and whether one did so while another had not yet written its own.\<close>

record log_file =
  fl_sb :: syncBuffer
  fl_flushes :: "(blockbuf list \<times> flush_phase) list"
  fl_overlap :: bool

datatype file_op = is_FileWrite: FileWrite bytes | FileTake | FilePut nat int new_file "(write_outcome list \<times> int \<times> new_file) list" | FileRecycle nat

definition unwritten_flushes :: "(blockbuf list \<times> flush_phase) list \<Rightarrow> (blockbuf list \<times> flush_phase) list" where
  "unwritten_flushes fs = filter (\<lambda>f. snd f = FlushTaken) fs"

fun file_step :: "file_op \<Rightarrow> log_file \<Rightarrow> log_file option" where
  "file_step (FileWrite p) s = Some (s\<lparr>fl_sb := snd (syncBuffer_Write p (fl_sb s))\<rparr>)"
| "file_step FileTake s =
     (let (tmp, sb) = Flush_take (fl_sb s) in
      Some (if tmp = [] then s\<lparr>fl_sb := sb\<rparr>
            else s\<lparr>fl_sb := sb, fl_flushes := fl_flushes s @ [(tmp, FlushTaken)],
                   fl_overlap := fl_overlap s \<or> unwritten_flushes (fl_flushes s) \<noteq> []\<rparr>))"
| "file_step (FilePut i now nf env) s =
     (if i < length (fl_flushes s) \<and> snd (fl_flushes s ! i) = FlushTaken
      then (case Flush_write now nf env (fst (fl_flushes s ! i)) (fl_sb s) of
          (FlushOk, sb) \<Rightarrow> Some (s\<lparr>fl_sb := sb, fl_flushes := (fl_flushes s)[i := (fst (fl_flushes s ! i), FlushWritten)]\<rparr>)
        | _ \<Rightarrow> None)
      else None)"
| "file_step (FileRecycle i) s =
     (if i < length (fl_flushes s) \<and> snd (fl_flushes s ! i) = FlushWritten
      then Some (s\<lparr>fl_sb := Flush_recycle (fst (fl_flushes s ! i)) (fl_sb s), fl_flushes := (fl_flushes s)[i := ([], FlushIdle)]\<rparr>)
      else None)"

fun file_run :: "file_op list \<Rightarrow> log_file \<Rightarrow> log_file option" where
  "file_run [] s = Some s"
| "file_run (x # xs) s = (case file_step x s of None \<Rightarrow> None | Some s1 \<Rightarrow> file_run xs s1)"

definition file_new :: "int \<Rightarrow> bytes \<Rightarrow> log_file" where
  "file_new day h = \<lparr>fl_sb = snd (rotateFile day (HeaderWritten h) new_syncBuffer), fl_flushes = [], fl_overlap = False\<rparr>"

text \<open>The lines the file accepts, and the blocks that are not in it yet.\<close>

fun file_accepted :: "file_op \<Rightarrow> bytes list" where
  "file_accepted (FileWrite p) = (if length p > MsgLineSize then [] else [p])"
| "file_accepted _ = []"

definition taken_blocks :: "log_file \<Rightarrow> blockbuf list" where
  "taken_blocks s = concat (map fst (unwritten_flushes (fl_flushes s)))"

definition file_unwritten :: "log_file \<Rightarrow> bytes" where
  "file_unwritten s = concat (map block_data (taken_blocks s @ sb_usedblock (fl_sb s) @ [sb_curblock (fl_sb s)]))"

section \<open>The blocks of a buffer\<close>

definition sb_lines :: "syncBuffer \<Rightarrow> bytes list list \<Rightarrow> bytes list \<Rightarrow> bool" where
  "sb_lines sb ul cl \<longleftrightarrow> list_all2 holds_lines (sb_usedblock sb) ul \<and> holds_lines (sb_curblock sb) cl \<and>
     sb_freeblockNum sb = int (length (sb_freeblock sb))"

lemma changeblock_lines: "sb_lines sb ul cl \<Longrightarrow> sb_lines (changeblock sb) (ul @ [cl]) []"
  by (auto simp: sb_lines_def changeblock_spec intro: list_all2_appendI)

lemma Write_lines:
  assumes "sb_lines sb ul cl"
  shows "\<exists>ul' cl'. sb_lines (snd (syncBuffer_Write p sb)) ul' cl' \<and> concat ul' @ cl' = concat ul @ cl @ file_accepted (FileWrite p) \<and>
    sb_files (snd (syncBuffer_Write p sb)) = sb_files sb"
proof (cases "length p > MsgLineSize")
  case True
  then show ?thesis using assms by (intro exI [of _ ul] exI [of _ cl]) (simp add: syncBuffer_Write_def)
next
  case False
  have small: "length p \<le> bufferSize" using False by (simp add: MsgLineSize_def bufferSize_def)
  show ?thesis
  proof (cases "int bufferSize - int (bk_pos (sb_curblock sb)) < int (length p)")
    case True
    have "holds_lines (copy_block (sb_curblock (changeblock sb)) p) ([] @ [p])"
      using copy_block_holds [OF changeblock_spec(2)] small by (simp add: changeblock_spec)
    with changeblock_lines [OF assms] True False show ?thesis
      by (intro exI [of _ "ul @ [cl]"] exI [of _ "[p]"]) (simp add: syncBuffer_Write_def Let_def sb_lines_def changeblock_spec(4))
  next
    case fits: False
    then have "bk_pos (sb_curblock sb) + length p \<le> bufferSize" by linarith
    then have "holds_lines (copy_block (sb_curblock sb) p) (cl @ [p])" using copy_block_holds assms by (simp add: sb_lines_def)
    with assms fits False show ?thesis
      by (intro exI [of _ ul] exI [of _ "cl @ [p]"]) (simp add: syncBuffer_Write_def Let_def sb_lines_def)
  qed
qed

lemma Take_lines:
  assumes "sb_lines sb ul cl" and "Flush_take sb = (tmp, sb')"
  shows "\<exists>tl cl'. list_all2 holds_lines tmp tl \<and> sb_lines sb' [] cl' \<and> concat tl @ cl' = concat ul @ cl \<and> sb_files sb' = sb_files sb"
proof (cases "bk_pos (sb_curblock sb) > 0")
  case True
  then show ?thesis
    using assms changeblock_lines [OF assms(1)] changeblock_spec(4) [of sb]
    by (intro exI [of _ "ul @ [cl]"] exI [of _ "[]"]) (auto simp: Flush_take_def Let_def sb_lines_def)
next
  case False
  then show ?thesis
    using assms by (intro exI [of _ ul] exI [of _ cl]) (auto simp: Flush_take_def Let_def sb_lines_def)
qed

section \<open>No line is lost\<close>

text \<open>
  Where the accepted lines are: in the files, in the blocks that flushes took, and in the blocks of the buffer.  As long as no two
  flushes overlapped they are so in their order.
\<close>

definition file_inv :: "bytes list \<Rightarrow> log_file \<Rightarrow> bool" where
  "file_inv acc s \<longleftrightarrow> (\<exists>gs fl ul cl.
     files_hold (sb_files (fl_sb s)) gs \<and> list_all2 holds_lines (taken_blocks s) fl \<and> sb_lines (fl_sb s) ul cl \<and>
     mset (concat (map snd gs) @ concat fl @ concat ul @ cl) = mset acc \<and>
     (\<not> fl_overlap s \<longrightarrow> concat (map snd gs) @ concat fl @ concat ul @ cl = acc \<and> length (unwritten_flushes (fl_flushes s)) \<le> 1))"

lemma file_invI:
  assumes "files_hold (sb_files (fl_sb s)) gs" "list_all2 holds_lines (taken_blocks s) fl" "sb_lines (fl_sb s) ul cl"
    and "mset (concat (map snd gs) @ concat fl @ concat ul @ cl) = mset acc"
    and "\<not> fl_overlap s \<Longrightarrow> concat (map snd gs) @ concat fl @ concat ul @ cl = acc \<and> length (unwritten_flushes (fl_flushes s)) \<le> 1"
  shows "file_inv acc s"
  using assms unfolding file_inv_def by blast

lemma file_invE:
  assumes "file_inv acc s"
  obtains gs fl ul cl where "files_hold (sb_files (fl_sb s)) gs" "list_all2 holds_lines (taken_blocks s) fl" "sb_lines (fl_sb s) ul cl"
    "mset (concat (map snd gs) @ concat fl @ concat ul @ cl) = mset acc"
    "\<not> fl_overlap s \<Longrightarrow> concat (map snd gs) @ concat fl @ concat ul @ cl = acc \<and> length (unwritten_flushes (fl_flushes s)) \<le> 1"
  using assms unfolding file_inv_def by blast

lemma file_write_inv:
  assumes "file_inv acc s"
  shows "file_inv (acc @ file_accepted (FileWrite p)) (s\<lparr>fl_sb := snd (syncBuffer_Write p (fl_sb s))\<rparr>)"
proof -
  obtain gs fl ul cl where i: "files_hold (sb_files (fl_sb s)) gs" "list_all2 holds_lines (taken_blocks s) fl" "sb_lines (fl_sb s) ul cl"
      "mset (concat (map snd gs) @ concat fl @ concat ul @ cl) = mset acc"
      "\<not> fl_overlap s \<Longrightarrow> concat (map snd gs) @ concat fl @ concat ul @ cl = acc \<and> length (unwritten_flushes (fl_flushes s)) \<le> 1"
    using assms by (rule file_invE) blast
  obtain ul' cl' where w: "sb_lines (snd (syncBuffer_Write p (fl_sb s))) ul' cl'" "concat ul' @ cl' = concat ul @ cl @ file_accepted (FileWrite p)"
      "sb_files (snd (syncBuffer_Write p (fl_sb s))) = sb_files (fl_sb s)"
    using Write_lines [OF i(3)] by blast
  have eq: "concat (map snd gs) @ concat fl @ concat ul' @ cl' = (concat (map snd gs) @ concat fl @ concat ul @ cl) @ file_accepted (FileWrite p)"
    using w(2) by simp
  show ?thesis
  proof (rule file_invI)
    show "list_all2 holds_lines (taken_blocks (s\<lparr>fl_sb := snd (syncBuffer_Write p (fl_sb s))\<rparr>)) fl" using i(2) by (simp add: taken_blocks_def)
    show "mset (concat (map snd gs) @ concat fl @ concat ul' @ cl') = mset (acc @ file_accepted (FileWrite p))"
      unfolding eq mset_append i(4) [symmetric] by simp
    show "concat (map snd gs) @ concat fl @ concat ul' @ cl' = acc @ file_accepted (FileWrite p) \<and>
        length (unwritten_flushes (fl_flushes (s\<lparr>fl_sb := snd (syncBuffer_Write p (fl_sb s))\<rparr>))) \<le> 1"
      if "\<not> fl_overlap (s\<lparr>fl_sb := snd (syncBuffer_Write p (fl_sb s))\<rparr>)"
      unfolding eq using i(5) that by simp
  qed (use i(1) w in simp_all)
qed

lemma file_take_inv:
  assumes "file_inv acc s" and "file_step FileTake s = Some s'"
  shows "file_inv acc s'"
proof -
  obtain gs fl ul cl where i: "files_hold (sb_files (fl_sb s)) gs" "list_all2 holds_lines (taken_blocks s) fl" "sb_lines (fl_sb s) ul cl"
      "mset (concat (map snd gs) @ concat fl @ concat ul @ cl) = mset acc"
      "\<not> fl_overlap s \<Longrightarrow> concat (map snd gs) @ concat fl @ concat ul @ cl = acc \<and> length (unwritten_flushes (fl_flushes s)) \<le> 1"
    using assms(1) by (rule file_invE) blast
  obtain tmp sb where t: "Flush_take (fl_sb s) = (tmp, sb)" by fastforce
  obtain tl cl' where l: "list_all2 holds_lines tmp tl" "sb_lines sb [] cl'" "concat tl @ cl' = concat ul @ cl" "sb_files sb = sb_files (fl_sb s)"
    using Take_lines [OF i(3) t] by blast
  show ?thesis
  proof (cases "tmp = []")
    case True
    then have s': "s' = s\<lparr>fl_sb := sb\<rparr>" and "tl = []" using assms(2) t l(1) by auto
    then show ?thesis
      using i l by (intro file_invI [of _ gs fl "[]" cl']) (simp_all add: taken_blocks_def)
  next
    case False
    then have s': "s' = s\<lparr>fl_sb := sb, fl_flushes := fl_flushes s @ [(tmp, FlushTaken)],
        fl_overlap := fl_overlap s \<or> unwritten_flushes (fl_flushes s) \<noteq> []\<rparr>" using assms(2) t by simp
    have "list_all2 holds_lines (taken_blocks s') (fl @ tl)"
      using i(2) l(1) by (simp add: s' taken_blocks_def unwritten_flushes_def list_all2_appendI)
    moreover have eq: "concat (map snd gs) @ concat (fl @ tl) @ concat [] @ cl' = concat (map snd gs) @ concat fl @ concat ul @ cl"
      using l(3) by simp
    ultimately show ?thesis
      using i l(2,4) by (intro file_invI [of _ gs "fl @ tl" "[]" cl'], unfold eq) (auto simp: s' unwritten_flushes_def)
  qed
qed

lemma list_all2_split3:
  assumes "list_all2 P (as @ bs @ cs) zs"
  obtains xs ys us where "zs = xs @ ys @ us" "list_all2 P as xs" "list_all2 P bs ys" "list_all2 P cs us"
  using assms by (auto simp: list_all2_append1)

lemma unwritten_nth:
  assumes "i < length fs"
  shows "unwritten_flushes fs =
    unwritten_flushes (take i fs) @ (if snd (fs ! i) = FlushTaken then [fs ! i] else []) @ unwritten_flushes (drop (Suc i) fs)"
proof -
  have "unwritten_flushes (take i fs @ fs ! i # drop (Suc i) fs) =
      unwritten_flushes (take i fs) @ (if snd (fs ! i) = FlushTaken then [fs ! i] else []) @ unwritten_flushes (drop (Suc i) fs)"
    by (simp add: unwritten_flushes_def)
  then show ?thesis by (simp only: id_take_nth_drop [OF assms, symmetric])
qed

lemma unwritten_update:
  assumes "i < length fs" and "snd x \<noteq> FlushTaken"
  shows "unwritten_flushes (fs[i := x]) = unwritten_flushes (take i fs) @ unwritten_flushes (drop (Suc i) fs)"
  unfolding upd_conv_take_nth_drop [OF assms(1)] using assms(2) by (simp add: unwritten_flushes_def)

lemma file_put_inv:
  assumes "file_inv acc s" and "file_step (FilePut k now nf env) s = Some s'"
  shows "file_inv acc s'"
proof -
  obtain gs fl ul cl where i: "files_hold (sb_files (fl_sb s)) gs" "list_all2 holds_lines (taken_blocks s) fl" "sb_lines (fl_sb s) ul cl"
      "mset (concat (map snd gs) @ concat fl @ concat ul @ cl) = mset acc"
      "\<not> fl_overlap s \<Longrightarrow> concat (map snd gs) @ concat fl @ concat ul @ cl = acc \<and> length (unwritten_flushes (fl_flushes s)) \<le> 1"
    using assms(1) by (rule file_invE) blast
  let ?fs = "fl_flushes s" and ?b = "fst (fl_flushes s ! k)"
  obtain sb where t: "k < length ?fs" "snd (?fs ! k) = FlushTaken" "Flush_write now nf env ?b (fl_sb s) = (FlushOk, sb)"
      "s' = s\<lparr>fl_sb := sb, fl_flushes := ?fs[k := (?b, FlushWritten)]\<rparr>"
    using assms(2) by (auto split: if_splits prod.splits flush_end.splits)
  have u: "unwritten_flushes ?fs = unwritten_flushes (take k ?fs) @ [?fs ! k] @ unwritten_flushes (drop (Suc k) ?fs)"
      "unwritten_flushes (?fs[k := (?b, FlushWritten)]) = unwritten_flushes (take k ?fs) @ unwritten_flushes (drop (Suc k) ?fs)"
    using unwritten_nth [OF t(1)] unwritten_update [OF t(1), of "(?b, FlushWritten)"] t(2) by simp_all
  let ?A = "concat (map fst (unwritten_flushes (take k ?fs)))" and ?C = "concat (map fst (unwritten_flushes (drop (Suc k) ?fs)))"
  have "list_all2 holds_lines (?A @ ?b @ ?C) fl" using i(2) by (simp add: taken_blocks_def u(1))
  then obtain xs ys us where fl: "fl = xs @ ys @ us" "list_all2 holds_lines ?A xs" "list_all2 holds_lines ?b ys" "list_all2 holds_lines ?C us"
    by (rule list_all2_split3)
  obtain gs' where g: "files_hold (sb_files sb) gs'" "concat (map snd gs') = concat (map snd gs) @ concat ys" "same_blocks (fl_sb s) sb"
    using Flush_write_put [OF t(3) fl(3)] i(1) unfolding put_lines_def by blast
  have "list_all2 holds_lines (taken_blocks s') (xs @ us)"
    using fl(2,4) by (simp add: taken_blocks_def t(4) u(2) list_all2_appendI)
  moreover have "xs = []" "us = []" "length (unwritten_flushes (fl_flushes s')) \<le> 1" if "\<not> fl_overlap s"
  proof -
    have "unwritten_flushes (take k ?fs) = []" "unwritten_flushes (drop (Suc k) ?fs) = []" using i(5) [OF that] by (auto simp: u(1))
    with fl(2,4) show "xs = []" "us = []" "length (unwritten_flushes (fl_flushes s')) \<le> 1" by (simp_all add: t(4) u(2))
  qed
  ultimately show ?thesis
    using i(3-5) g fl(1)
    by (intro file_invI [of _ gs' "xs @ us" ul cl]) (auto simp: t(4) sb_lines_def same_blocks_def ac_simps)
qed

lemma file_recycle_inv:
  assumes "file_inv acc s" and "file_step (FileRecycle k) s = Some s'"
  shows "file_inv acc s'"
proof -
  have t: "k < length (fl_flushes s)" "snd (fl_flushes s ! k) = FlushWritten"
      "s' = s\<lparr>fl_sb := Flush_recycle (fst (fl_flushes s ! k)) (fl_sb s), fl_flushes := (fl_flushes s)[k := ([], FlushIdle)]\<rparr>"
    using assms(2) by (auto split: if_splits)
  have u: "unwritten_flushes ((fl_flushes s)[k := ([], FlushIdle)]) = unwritten_flushes (fl_flushes s)"
    using unwritten_nth [OF t(1)] unwritten_update [OF t(1), of "([], FlushIdle)"] t(2) by simp
  have sb: "sb_files (Flush_recycle bs sb) = sb_files sb" "sb_lines sb ul cl \<Longrightarrow> sb_lines (Flush_recycle bs sb) ul cl" for bs sb ul cl
    by (simp_all add: sb_lines_def Flush_recycle_def)
  obtain gs fl ul cl where i: "files_hold (sb_files (fl_sb s)) gs" "list_all2 holds_lines (taken_blocks s) fl" "sb_lines (fl_sb s) ul cl"
      "mset (concat (map snd gs) @ concat fl @ concat ul @ cl) = mset acc"
      "\<not> fl_overlap s \<Longrightarrow> concat (map snd gs) @ concat fl @ concat ul @ cl = acc \<and> length (unwritten_flushes (fl_flushes s)) \<le> 1"
    using assms(1) by (rule file_invE) blast
  show ?thesis
    using i by (intro file_invI [of _ gs fl ul cl]) (simp_all add: t(3) u sb taken_blocks_def)
qed

lemma file_step_inv:
  assumes "file_inv acc s" and "file_step x s = Some s'"
  shows "file_inv (acc @ file_accepted x) s'"
proof (cases x)
  case (FileWrite p)
  then show ?thesis using file_write_inv [OF assms(1), of p] assms(2) by simp
next
  case FileTake
  then show ?thesis using file_take_inv [OF assms(1)] assms(2) by simp
next
  case (FilePut k now nf env)
  then show ?thesis using file_put_inv [OF assms(1)] assms(2) by simp
next
  case (FileRecycle k)
  then show ?thesis using file_recycle_inv [OF assms(1)] assms(2) by simp
qed

lemma file_new_inv: "file_inv [] (file_new day h)"
  using holds_new(1)
  by (intro file_invI [of _ "[(h, [])]" "[]" "[]" "[]"])
    (simp_all add: file_new_def new_syncBuffer_def rotateFile_def Let_def files_hold_def taken_blocks_def unwritten_flushes_def sb_lines_def)

lemma file_inv_files:
  assumes "file_inv acc s"
  obtains gs ls where "sb_files (fl_sb s) = map (\<lambda>(h, ls). h @ concat ls) gs" "mset (concat (map snd gs) @ ls) = mset acc"
    "\<not> fl_overlap s \<Longrightarrow> concat (map snd gs) @ ls = acc" "file_unwritten s = concat ls"
proof -
  obtain gs fl ul cl where i: "files_hold (sb_files (fl_sb s)) gs" "list_all2 holds_lines (taken_blocks s) fl" "sb_lines (fl_sb s) ul cl"
      "mset (concat (map snd gs) @ concat fl @ concat ul @ cl) = mset acc"
      "\<not> fl_overlap s \<Longrightarrow> concat (map snd gs) @ concat fl @ concat ul @ cl = acc \<and> length (unwritten_flushes (fl_flushes s)) \<le> 1"
    using assms by (rule file_invE) blast
  have "file_unwritten s = concat (concat fl @ concat ul @ cl)"
    using i(3) block_data_concat [OF i(2)] block_data_concat [of "sb_usedblock (fl_sb s)" ul]
    by (simp add: file_unwritten_def holds_lines_def sb_lines_def)
  then show thesis
    using i(1,4,5) that [of gs "concat fl @ concat ul @ cl"] by (simp add: files_hold_def)
qed

lemma Flush_take_line:
  assumes "p \<noteq> []" and "length p \<le> MsgLineSize"
  shows "fst (Flush_take (snd (syncBuffer_Write p sb))) \<noteq> []"
  using assms by (simp add: Flush_take_def syncBuffer_Write_def Let_def copy_block_def changeblock_def split: list.split)

text \<open>What overlapping flushes do to the order: the flush that took the first line writes after the one that took the second.\<close>

lemma overlapping_flushes_reorder:
  assumes "a \<noteq> []" "b \<noteq> []" "length a \<le> MsgLineSize" "length b \<le> MsgLineSize" "length h \<le> MsgLineSize"
    and env_def: "env = [([WriteOk bufferSize], day, NoFile)]"
  shows "\<exists>s. file_run [FileWrite a, FileTake, FileWrite b, FileTake, FilePut 1 day NoFile env, FilePut 0 day NoFile env] (file_new day h) = Some s \<and>
    sb_files (fl_sb s) = [h @ b @ a] \<and> fl_overlap s"
proof -
  have new: "fl_sb (file_new day h) = ls_sb (log_new day h)" "fl_flushes (file_new day h) = []"
    by (simp_all add: file_new_def log_new_def)
  obtain ta sb2 tb sb4 sb5 sb6 where s: "Flush_take (snd (syncBuffer_Write a (ls_sb (log_new day h)))) = (ta, sb2)"
      "Flush_take (snd (syncBuffer_Write b sb2)) = (tb, sb4)" "Flush_write day NoFile env tb sb4 = (FlushOk, sb5)"
      "Flush_write day NoFile env ta sb5 = (FlushOk, sb6)" "sb_files sb6 = [h @ b @ a]"
    using concurrent_flushes_reorder [OF assms(1-5), of day] unfolding env_def by blast
  have "ta \<noteq> []" "tb \<noteq> []" using Flush_take_line [OF assms(1,3)] Flush_take_line [OF assms(2,4)] s(1,2) by (metis fst_conv)+
  then show ?thesis using s by (simp add: new unwritten_flushes_def Let_def)
qed

end
