(* ===== verification/Log_Format.thy ===== *)
theory Log_Format
  imports Go_Strconv "HOL-Library.Sublist"
begin

text \<open>
  The head of a log line, \<open>formatHeader\<close> of \<open>lib/glog/glog.go\<close> and the helpers that write decimal digits into the small array of a
  buffer.  The array is a list of 64 bytes that still holds what the previous user of the buffer left there.
\<close>

definition tmp_len :: nat where "tmp_len = 64"

definition severityChar :: bytes where "severityChar = lit ''IWEFD''"

definition debugLog :: int where "debugLog = 4"

section \<open>Digits\<close>

text \<open>\<open>digits[d%10]\<close>: the remainder of a negative number is negative, which is no index.\<close>

definition digit_at :: "int \<Rightarrow> byte option" where
  "digit_at d = (if d smod 10 < 0 then None else Some (digit (nat (d smod 10))))"

definition twoDigits :: "nat \<Rightarrow> int \<Rightarrow> bytes \<Rightarrow> bytes option" where
  "twoDigits i d tmp = do {
     c \<leftarrow> digit_at d;
     tmp \<leftarrow> set_at tmp (i + 1) c;
     c \<leftarrow> digit_at (d sdiv 10);
     set_at tmp i c }"

text \<open>The two loops of \<open>nDigits\<close>, with \<open>j + 1\<close> as the argument.\<close>

fun nDigits_pad :: "nat \<Rightarrow> nat \<Rightarrow> byte \<Rightarrow> bytes \<Rightarrow> bytes option" where
  "nDigits_pad 0 i pad tmp = Some tmp"
| "nDigits_pad (Suc j) i pad tmp = set_at tmp (i + j) pad \<bind> nDigits_pad j i pad"

fun nDigits :: "nat \<Rightarrow> nat \<Rightarrow> int \<Rightarrow> byte \<Rightarrow> bytes \<Rightarrow> bytes option" where
  "nDigits 0 i d pad tmp = Some tmp"
| "nDigits (Suc j) i d pad tmp =
     (if d > 0 then do { c \<leftarrow> digit_at d; tmp \<leftarrow> set_at tmp (i + j) c; nDigits j i (d sdiv 10) pad tmp }
      else nDigits_pad (Suc j) i pad tmp)"

text \<open>\<open>someDigits\<close> prints from the end of the array down to the place it returns, then moves the digits to their place.\<close>

fun someDigits_loop :: "nat \<Rightarrow> int \<Rightarrow> bytes \<Rightarrow> (nat \<times> bytes) option" where
  "someDigits_loop 0 d tmp = None"
| "someDigits_loop (Suc j) d tmp = do {
     c \<leftarrow> digit_at d;
     tmp \<leftarrow> set_at tmp j c;
     if d sdiv 10 = 0 then Some (j, tmp) else someDigits_loop j (d sdiv 10) tmp }"

definition someDigits :: "nat \<Rightarrow> int \<Rightarrow> bytes \<Rightarrow> (nat \<times> bytes) option" where
  "someDigits i d tmp = do {
     (j, tmp) \<leftarrow> someDigits_loop (length tmp) d tmp;
     src \<leftarrow> slice_from tmp j;
     tmp' \<leftarrow> copy_at tmp i src;
     Some (min (length tmp - i) (length src), tmp') }"

section \<open>The header\<close>

record log_time =
  lt_month :: int
  lt_day :: int
  lt_hour :: int
  lt_minute :: int
  lt_second :: int
  lt_nanosecond :: int

text \<open>The bytes of the buffer after \<open>formatHeader\<close>, and its array.  \<open>None\<close> is a panic.\<close>

definition formatHeader :: "log_time \<Rightarrow> int \<Rightarrow> int \<Rightarrow> bytes \<Rightarrow> int \<Rightarrow> bytes \<Rightarrow> (bytes \<times> bytes) option" where
  "formatHeader now pid s file line tmp = (
     let line = (if line < 0 then 0 else line);
         s = (if s > debugLog then 0 else s) in
     if s < 0 then None
     else do {
       c \<leftarrow> index_at severityChar (nat s);
       tmp \<leftarrow> set_at tmp 0 c;
       tmp \<leftarrow> twoDigits 1 (lt_month now) tmp;
       tmp \<leftarrow> twoDigits 3 (lt_day now) tmp;
       tmp \<leftarrow> set_at tmp 5 (of_char CHR '' '');
       tmp \<leftarrow> twoDigits 6 (lt_hour now) tmp;
       tmp \<leftarrow> set_at tmp 8 (of_char CHR '':'');
       tmp \<leftarrow> twoDigits 9 (lt_minute now) tmp;
       tmp \<leftarrow> set_at tmp 11 (of_char CHR '':'');
       tmp \<leftarrow> twoDigits 12 (lt_second now) tmp;
       tmp \<leftarrow> set_at tmp 14 (of_char CHR ''.'');
       tmp \<leftarrow> nDigits 6 15 (lt_nanosecond now sdiv 1000) (of_char CHR ''0'') tmp;
       tmp \<leftarrow> set_at tmp 21 (of_char CHR '' '');
       tmp \<leftarrow> nDigits 7 22 pid (of_char CHR '' '') tmp;
       tmp \<leftarrow> set_at tmp 29 (of_char CHR '' '');
       b1 \<leftarrow> slice tmp 0 30;
       tmp \<leftarrow> set_at tmp 0 (of_char CHR '':'');
       (n, tmp) \<leftarrow> someDigits 1 line tmp;
       tmp \<leftarrow> set_at tmp (n + 1) (of_char CHR '']'');
       tmp \<leftarrow> set_at tmp (n + 2) (of_char CHR '' '');
       b2 \<leftarrow> slice tmp 0 (n + 3);
       Some (b1 @ file @ b2, tmp) })"

text \<open>\<open>printDepth\<close>, \<open>printf\<close> and \<open>printWithFileLine\<close>: the header, the text of the arguments, and a line end if there is none.\<close>

definition log_line :: "bytes \<Rightarrow> bytes \<Rightarrow> bytes option" where
  "log_line header msg = do {
     let b = header @ msg;
     c \<leftarrow> (if b = [] then None else index_at b (length b - 1));
     Some (if c \<noteq> 10 then b @ [10] else b) }"

section \<open>What the helpers write\<close>

lemma sdiv_smod_nat: "0 \<le> d \<Longrightarrow> d sdiv 10 = int (nat d div 10)" "0 \<le> d \<Longrightarrow> d smod 10 = int (nat d mod 10)"
  by (simp_all add: signed_divide_int_def signed_modulo_int_def sgn_if nat_mod_distrib zdiv_int zmod_int)

lemma digit_at_nat: "digit_at (int d) = Some (digit (d mod 10))"
  by (simp add: digit_at_def sdiv_smod_nat)

definition two :: "int \<Rightarrow> bytes" where
  "two d = [digit (nat d div 10), digit (nat d mod 10)]"

text \<open>The number in \<open>n\<close> places, its last digits when it has more.\<close>

definition padded :: "nat \<Rightarrow> nat \<Rightarrow> byte \<Rightarrow> bytes" where
  "padded n d pad = (let ds = (if d = 0 then [] else nat_digits d) in
     if length ds \<le> n then replicate (n - length ds) pad @ ds else drop (length ds - n) ds)"

lemma padded_0: "padded n 0 pad = replicate n pad"
  by (simp add: padded_def)

lemma padded_Suc:
  assumes "0 < d"
  shows "padded (Suc n) d pad = padded n (d div 10) pad @ [digit (d mod 10)]"
proof (cases "d < 10")
  case True
  then show ?thesis using assms by (simp add: padded_def nat_digits.simps [of d])
next
  case False
  then have "nat_digits d = nat_digits (d div 10) @ [digit (d mod 10)]" "d div 10 \<noteq> 0"
    by (simp_all add: nat_digits.simps [of d] div_eq_0_iff)
  then show ?thesis using assms by (simp add: padded_def Let_def Suc_diff_le)
qed

lemma length_padded [simp]: "length (padded n d pad) = n"
  by (simp add: padded_def Let_def)

text \<open>What is written at a place: the array before it and after it stays.\<close>

definition put :: "bytes \<Rightarrow> nat \<Rightarrow> bytes \<Rightarrow> bytes" where
  "put tmp i xs = take i tmp @ xs @ drop (i + length xs) tmp"

lemma length_put [simp]: "i + length xs \<le> length tmp \<Longrightarrow> length (put tmp i xs) = length tmp"
  by (simp add: put_def)

lemma set_at_put: "i < length tmp \<Longrightarrow> set_at tmp i c = Some (put tmp i [c])"
  by (simp add: set_at_def put_def upd_conv_take_nth_drop)

lemma put_put: "i + length xs \<le> length tmp \<Longrightarrow> put (put tmp (i + length xs) ys) i xs = put tmp i (xs @ ys)"
  by (simp add: put_def min_absorb1 add.assoc)

lemma take_put: "i + length xs = n \<Longrightarrow> n \<le> length tmp \<Longrightarrow> take n (put tmp i xs) = take i tmp @ xs"
  by (auto simp: put_def)

lemma twoDigits_put:
  assumes "0 \<le> d" "d < 100" "i + 2 \<le> length tmp"
  shows "twoDigits i d tmp = Some (put tmp i (two d))"
proof -
  have "put (put tmp (i + length [digit (nat d div 10)]) [digit (nat d mod 10)]) i [digit (nat d div 10)] = put tmp i (two d)"
    using assms(3) by (subst put_put) (simp_all add: two_def)
  moreover have "digit_at d = Some (digit (nat d mod 10))" "digit_at (d sdiv 10) = Some (digit (nat d div 10))"
    using assms(1,2) digit_at_nat [of "nat d"] digit_at_nat [of "nat d div 10"] by (simp_all add: sdiv_smod_nat)
  ultimately show ?thesis
    using assms(3) by (simp add: twoDigits_def set_at_put)
qed

lemma nDigits_pad_put: "i + j \<le> length tmp \<Longrightarrow> nDigits_pad j i pad tmp = Some (put tmp i (replicate j pad))"
proof (induction j arbitrary: tmp)
  case (Suc j)
  have "put (put tmp (i + length (replicate j pad)) [pad]) i (replicate j pad) = put tmp i (replicate j pad @ [pad])"
    using Suc.prems by (intro put_put) simp
  then show ?case
    using Suc by (simp add: set_at_put replicate_append_same)
qed (simp add: put_def)

lemma nDigits_put: "i + n \<le> length tmp \<Longrightarrow> nDigits n i (int d) pad tmp = Some (put tmp i (padded n d pad))"
proof (induction n arbitrary: tmp d)
  case (Suc n)
  show ?case
  proof (cases "d = 0")
    case True
    then show ?thesis using nDigits_pad_put [OF Suc.prems] by (simp add: padded_0)
  next
    case False
    have "put (put tmp (i + length (padded n (d div 10) pad)) [digit (d mod 10)]) i (padded n (d div 10) pad) = put tmp i (padded (Suc n) d pad)"
      using Suc.prems False by (subst put_put) (simp_all add: padded_Suc)
    then show ?thesis
      using Suc False by (simp add: digit_at_nat set_at_put sdiv_smod_nat)
  qed
qed (simp add: put_def padded_def Let_def)

lemma someDigits_loop_put:
  "length (nat_digits d) \<le> j \<Longrightarrow> j \<le> length tmp \<Longrightarrow>
   someDigits_loop j (int d) tmp = Some (j - length (nat_digits d), put tmp (j - length (nat_digits d)) (nat_digits d))"
proof (induction j arbitrary: d tmp)
  case 0
  then show ?case by simp
next
  case (Suc j)
  show ?case
  proof (cases "d < 10")
    case True
    then show ?thesis
      using Suc.prems by (simp add: digit_at_nat set_at_put sdiv_smod_nat nat_digits.simps [of d])
  next
    case False
    let ?ds = "nat_digits (d div 10)"
    have ds: "nat_digits d = ?ds @ [digit (d mod 10)]"
      using False by (simp add: nat_digits.simps [of d])
    have len: "length ?ds \<le> j" using Suc.prems(1) ds by simp
    then have "put (put tmp (j - length ?ds + length ?ds) [digit (d mod 10)]) (j - length ?ds) ?ds = put tmp (j - length ?ds) (nat_digits d)"
      using Suc.prems(2) ds by (subst put_put) simp_all
    then show ?thesis
      using Suc.IH [of "d div 10" "put tmp j [digit (d mod 10)]"] Suc.prems(2) len False ds
      by (simp add: digit_at_nat set_at_put sdiv_smod_nat div_eq_0_iff)
  qed
qed

lemma someDigits_put:
  assumes "length (nat_digits d) + i \<le> length tmp"
  shows "\<exists>tmp'. someDigits i (int d) tmp = Some (length (nat_digits d), tmp') \<and> length tmp' = length tmp \<and>
    take (i + length (nat_digits d)) tmp' = take i (put tmp (length tmp - length (nat_digits d)) (nat_digits d)) @ nat_digits d"
proof -
  let ?k = "length (nat_digits d)" and ?t = "put tmp (length tmp - length (nat_digits d)) (nat_digits d)"
  have l: "length ?t = length tmp" using assms by simp
  have "drop (length tmp - ?k) ?t = nat_digits d"
    using assms by (simp add: put_def)
  then show ?thesis
    using assms l
    by (simp add: someDigits_def someDigits_loop_put slice_from_Some copy_at_Some)
qed

lemma put_next: "length xs = i \<Longrightarrow> i + length ys \<le> length tmp \<Longrightarrow> put (put tmp 0 xs) i ys = put tmp 0 (xs @ ys)"
  by (simp add: put_def add.commute)

section \<open>The header as a text\<close>

text \<open>What the clock gives, and the text that the comment at \<open>header\<close> describes.\<close>

definition valid_time :: "log_time \<Rightarrow> bool" where
  "valid_time now \<longleftrightarrow> 1 \<le> lt_month now \<and> lt_month now \<le> 12 \<and> 1 \<le> lt_day now \<and> lt_day now \<le> 31 \<and> 0 \<le> lt_hour now \<and> lt_hour now < 24 \<and>
     0 \<le> lt_minute now \<and> lt_minute now < 60 \<and> 0 \<le> lt_second now \<and> lt_second now < 60 \<and> 0 \<le> lt_nanosecond now \<and> lt_nanosecond now < 1000000000"

definition stamp_text :: "log_time \<Rightarrow> int \<Rightarrow> int \<Rightarrow> bytes" where
  "stamp_text now pid s = [severityChar ! nat s] @ two (lt_month now) @ two (lt_day now) @ lit '' '' @
     two (lt_hour now) @ lit '':'' @ two (lt_minute now) @ lit '':'' @ two (lt_second now) @ lit ''.'' @
     padded 6 (nat (lt_nanosecond now) div 1000) (of_char CHR ''0'') @ lit '' '' @ padded 7 (nat pid) (of_char CHR '' '') @ lit '' ''"

definition header_text :: "log_time \<Rightarrow> int \<Rightarrow> int \<Rightarrow> bytes \<Rightarrow> nat \<Rightarrow> bytes" where
  "header_text now pid s file line = stamp_text now pid s @ file @ lit '':'' @ nat_digits line @ lit ''] ''"

lemma length_two [simp]: "length (two d) = 2"
  by (simp add: two_def)

lemma length_stamp [simp]: "length (stamp_text now pid s) = 30"
  by (simp add: stamp_text_def)

lemma stamp_written:
  assumes "length tmp = 64" "valid_time now" "0 \<le> pid" "0 \<le> s" "s \<le> 4"
  shows "do {
       c \<leftarrow> index_at severityChar (nat s);
       tmp \<leftarrow> set_at tmp 0 c;
       tmp \<leftarrow> twoDigits 1 (lt_month now) tmp;
       tmp \<leftarrow> twoDigits 3 (lt_day now) tmp;
       tmp \<leftarrow> set_at tmp 5 (of_char CHR '' '');
       tmp \<leftarrow> twoDigits 6 (lt_hour now) tmp;
       tmp \<leftarrow> set_at tmp 8 (of_char CHR '':'');
       tmp \<leftarrow> twoDigits 9 (lt_minute now) tmp;
       tmp \<leftarrow> set_at tmp 11 (of_char CHR '':'');
       tmp \<leftarrow> twoDigits 12 (lt_second now) tmp;
       tmp \<leftarrow> set_at tmp 14 (of_char CHR ''.'');
       tmp \<leftarrow> nDigits 6 15 (lt_nanosecond now sdiv 1000) (of_char CHR ''0'') tmp;
       tmp \<leftarrow> set_at tmp 21 (of_char CHR '' '');
       tmp \<leftarrow> nDigits 7 22 pid (of_char CHR '' '') tmp;
       tmp \<leftarrow> set_at tmp 29 (of_char CHR '' '');
       f tmp } = f (put tmp 0 (stamp_text now pid s))"
proof -
  have ns: "lt_nanosecond now sdiv 1000 = int (nat (lt_nanosecond now) div 1000)" "pid = int (nat pid)"
    using assms(2,3) by (simp_all add: valid_time_def signed_divide_int_def sgn_if zdiv_int)
  have c: "index_at severityChar (nat s) = Some (severityChar ! nat s)"
    using assms(4,5) by (intro index_at_Some) (simp add: severityChar_def)
  have t: "0 \<le> lt_month now" "lt_month now < 100" "0 \<le> lt_day now" "lt_day now < 100" "0 \<le> lt_hour now" "lt_hour now < 100"
      "0 \<le> lt_minute now" "lt_minute now < 100" "0 \<le> lt_second now" "lt_second now < 100"
    using assms(2) by (simp_all add: valid_time_def)
  have nd: "nDigits 6 15 (lt_nanosecond now sdiv 1000) pad tm = Some (put tm 15 (padded 6 (nat (lt_nanosecond now) div 1000) pad))"
      "nDigits 7 22 pid pad tm = Some (put tm 22 (padded 7 (nat pid) pad))" if "length tm = 64" for tm pad
    using nDigits_put [of 15 6 tm "nat (lt_nanosecond now) div 1000" pad] nDigits_put [of 22 7 tm "nat pid" pad] that
    unfolding ns(1) by (simp_all add: assms(3) del: nDigits.simps)
  show ?thesis
    using assms(1) t by (simp add: c nd set_at_put twoDigits_put put_next stamp_text_def del: nDigits.simps)
qed

lemma nat_digits_64: "n < 2 ^ 63 \<Longrightarrow> length (nat_digits n) \<le> 19"
  by (rule length_nat_digits) simp_all

lemma formatHeader_ok:
  assumes "length tmp = 64" "valid_time now" "0 \<le> pid" "0 \<le> s" "line < 2 ^ 63"
  shows "\<exists>tmp'. length tmp' = 64 \<and> formatHeader now pid s file line tmp =
    Some (header_text now pid (if s \<le> 4 then s else 0) file (nat line), tmp')"
proof -
  let ?s = "if s > debugLog then 0 else s" and ?line = "if line < 0 then 0 else line" and ?ds = "nat_digits (nat line)"
  have s: "0 \<le> ?s" "?s \<le> 4" "?s = (if s \<le> 4 then s else 0)" using assms(4) by (auto simp: debugLog_def)
  have line: "?line = int (nat line)" by auto
  let ?t = "put tmp 0 (stamp_text now pid ?s)"
  have k: "length ?ds \<le> 19" using assms(5) by (intro nat_digits_64) (simp add: nat_less_iff)
  obtain tmp' where d: "someDigits 1 ?line (put ?t 0 (lit '':'')) = Some (length ?ds, tmp')" "length tmp' = 64"
      "take (1 + length ?ds) tmp' = lit '':'' @ ?ds"
    using someDigits_put [of "nat line" 1 "put ?t 0 (lit '':'')"] k assms(1) unfolding line by (auto simp: put_def)
  have tail: "slice (put (put tmp' (length ?ds + 1) (lit '']'')) (length ?ds + 2) (lit '' '')) 0 (length ?ds + 3) = Some (lit '':'' @ ?ds @ lit ''] '')"
    using d(2,3) k by (simp add: slice_Some put_def min_absorb1 numeral_3_eq_3)
  show ?thesis
    unfolding formatHeader_def Let_def stamp_written [OF assms(1-3) s(1,2)]
    using d k assms(1) s(1) tail unfolding s(3) [symmetric]
    by (simp add: set_at_put slice_Some take_put header_text_def)
qed

text \<open>
  C28. The header that the hand-written digit printers put together in place is the text that the fields make one after the other: the letter of the
  severity, month and day, time with six digits of microseconds, the last seven digits of the process number, file and line.  This holds for
  every content of a used buffer; a negative line number is printed as 0 and a severity above the last as INFO.  The comment on the form of a
  line has the thread number where the code prints the process number.
\<close>

theorem formatHeader_text:
  assumes "length tmp = 64" "valid_time now" "0 \<le> pid" "0 \<le> s" "line < 2 ^ 63"
  shows "\<exists>tmp'. length tmp' = 64 \<and> formatHeader now pid s file line tmp =
    Some (header_text now pid (if s \<le> 4 then s else 0) file (nat line), tmp')"
  using formatHeader_ok [OF assms] .

theorem formatHeader_text_witness:
  "\<exists>tmp'. formatHeader \<lparr>lt_month = 3, lt_day = 14, lt_hour = 15, lt_minute = 9, lt_second = 26, lt_nanosecond = 535897932\<rparr> 1234 2 (lit ''a.go'') 57
      (replicate 64 0) = Some (lit ''E0314 15:09:26.535897    1234 a.go:57] '', tmp')"
proof -
  let ?now = "\<lparr>lt_month = 3, lt_day = 14, lt_hour = 15, lt_minute = 9, lt_second = 26, lt_nanosecond = 535897932\<rparr>"
  have r: "replicate 3 (32 :: byte) = [32, 32, 32]" by (simp add: numeral_3_eq_3)
  have "header_text ?now 1234 2 (lit ''a.go'') 57 = lit ''E0314 15:09:26.535897    1234 a.go:57] ''"
    by (simp add: header_text_def stamp_text_def two_def padded_def nat_digits.simps digit_def severityChar_def Let_def r)
  then show ?thesis
    using formatHeader_text [of "replicate 64 0" ?now 1234 2 57 "lit ''a.go''"] by (auto simp: valid_time_def)
qed

text \<open>A line ends with one line end, however the message ended.\<close>

lemma log_line_end:
  assumes "header \<noteq> []"
  shows "\<exists>b. log_line header msg = Some b \<and> prefix (header @ msg) b \<and> last b = 10 \<and> length b \<le> length header + length msg + 1"
  using assms by (auto simp: log_line_def Let_def index_at_def last_conv_nth)

end
