(* ===== verification/Log_Flags.thy ===== *)
theory Log_Flags
  imports Go_Strconv Go_Strings
begin

text \<open>
  The flags of the log, \<open>lib/glog/glog.go\<close> and \<open>glog_file.go\<close>: severities by name, the threshold for standard error, the verbosity and the
  list of file patterns that \<open>V\<close> asks, with its cache, and the place of a stack trace.  Severities and levels are \<open>int32\<close> in the source; the texts of flags are
  ASCII.
\<close>

definition to_int32 :: "int \<Rightarrow> int" where
  "to_int32 v = sint (word_of_int v :: 32 word)"

section \<open>Severities\<close>

definition severityName :: "bytes list" where
  "severityName = [lit ''INFO'', lit ''WARNING'', lit ''ERROR'', lit ''FATAL'', lit ''DEBUG'']"

definition ToUpper :: "bytes \<Rightarrow> bytes" where
  "ToUpper s = map (\<lambda>b. if of_char CHR ''a'' \<le> b \<and> b \<le> of_char CHR ''z'' then b - 32 else b) s"

fun severity_find :: "bytes \<Rightarrow> int \<Rightarrow> bytes list \<Rightarrow> int \<times> bool" where
  "severity_find s i [] = (0, False)"
| "severity_find s i (name # names) = (if name = s then (i, True) else severity_find s (i + 1) names)"

definition severityByName :: "bytes \<Rightarrow> int \<times> bool" where
  "severityByName s = severity_find (ToUpper s) 0 severityName"

datatype flag_error = FlagNum num_error | ErrVmoduleSyntax | ErrVmoduleNegative | ErrTraceSyntax | ErrTraceLine

section \<open>The state of the flags\<close>

record modulePat =
  mp_pattern :: bytes
  mp_literal :: bool
  mp_level :: int

record traceLocation =
  tl_file :: bytes
  tl_line :: int

record loggingT =
  lg_toStderr :: bool
  lg_alsoToStderr :: bool
  lg_stderrThreshold :: int
  lg_vmap :: "nat \<rightharpoonup> int"
  lg_filterLength :: int
  lg_traceLocation :: traceLocation
  lg_vmodule :: "modulePat list"
  lg_verbosity :: int

definition severity_Set :: "bytes \<Rightarrow> 'a loggingT_scheme \<Rightarrow> flag_error option \<times> 'a loggingT_scheme" where
  "severity_Set val lg = (case severityByName val of
     (v, True) \<Rightarrow> (None, lg\<lparr>lg_stderrThreshold := v\<rparr>)
   | (_, False) \<Rightarrow> (case Atoi val of
       (_, Some err) \<Rightarrow> (Some (FlagNum err), lg)
     | (v, None) \<Rightarrow> (None, lg\<lparr>lg_stderrThreshold := to_int32 v\<rparr>)))"

definition setVState :: "int \<Rightarrow> modulePat list \<Rightarrow> bool \<Rightarrow> 'a loggingT_scheme \<Rightarrow> 'a loggingT_scheme" where
  "setVState verbosity flt setFilter lg =
     (let lg = lg\<lparr>lg_verbosity := 0, lg_filterLength := 0\<rparr>;
          lg = (if setFilter then lg\<lparr>lg_vmodule := flt, lg_vmap := Map.empty\<rparr> else lg) in
      lg\<lparr>lg_filterLength := to_int32 (int (length flt)), lg_verbosity := verbosity\<rparr>)"

definition Level_Set :: "bytes \<Rightarrow> 'a loggingT_scheme \<Rightarrow> flag_error option \<times> 'a loggingT_scheme" where
  "Level_Set val lg = (case Atoi val of
     (_, Some err) \<Rightarrow> (Some (FlagNum err), lg)
   | (v, None) \<Rightarrow> (None, setVState (to_int32 v) (lg_vmodule lg) False lg))"

section \<open>Patterns of files\<close>

definition isLiteral :: "bytes \<Rightarrow> bool" where
  "isLiteral pattern \<longleftrightarrow> \<not> list_ex (\<lambda>b. b \<in> set (lit [CHR 0x5C, CHR ''*'', CHR ''?'', CHR ''['', CHR '']''])) pattern"

fun moduleSpec_parse :: "bytes list \<Rightarrow> modulePat list \<Rightarrow> flag_error + modulePat list" where
  "moduleSpec_parse [] flt = Inr flt"
| "moduleSpec_parse (pat # pats) flt =
     (if length pat = 0 then moduleSpec_parse pats flt
      else case split_on (of_char CHR ''='') pat of
        [pattern, lev] \<Rightarrow>
          (if length pattern = 0 \<or> length lev = 0 then Inl ErrVmoduleSyntax
           else case Atoi lev of
             (_, Some err) \<Rightarrow> Inl ErrVmoduleSyntax
           | (v, None) \<Rightarrow>
               if v < 0 then Inl ErrVmoduleNegative
               else if v = 0 then moduleSpec_parse pats flt
               else moduleSpec_parse pats (flt @ [\<lparr>mp_pattern = pattern, mp_literal = isLiteral pattern, mp_level = to_int32 v\<rparr>]))
      | _ \<Rightarrow> Inl ErrVmoduleSyntax)"

definition moduleSpec_Set :: "bytes \<Rightarrow> 'a loggingT_scheme \<Rightarrow> flag_error option \<times> 'a loggingT_scheme" where
  "moduleSpec_Set val lg = (case moduleSpec_parse (split_on (of_char CHR '','') val) [] of
     Inl err \<Rightarrow> (Some err, lg)
   | Inr flt \<Rightarrow> (None, setVState (lg_verbosity lg) flt True lg))"

fun moduleSpec_String :: "modulePat list \<Rightarrow> bytes" where
  "moduleSpec_String [] = []"
| "moduleSpec_String [f] = mp_pattern f @ lit ''='' @ FormatInt (mp_level f)"
| "moduleSpec_String (f # g # fs) = mp_pattern f @ lit ''='' @ FormatInt (mp_level f) @ lit '','' @ moduleSpec_String (g # fs)"

text \<open>
  \<open>filepath.Match\<close> on Unix, for ASCII names: \<open>*\<close> is any run of bytes other than the separator, \<open>?\<close> any one of them, a class matches by its
  ranges and a backslash takes the next byte as it is.  A malformed pattern matches nothing.
\<close>

fun class_char :: "bytes \<Rightarrow> (byte \<times> bytes) option" where
  "class_char [] = None"
| "class_char (c # p) =
     (if c = of_char CHR ''-'' \<or> c = of_char CHR '']'' then None
      else if c = of_char CHR 0x5C then (case p of [] \<Rightarrow> None | [d] \<Rightarrow> None | d # q \<Rightarrow> Some (d, q))
      else if p = [] then None else Some (c, p))"

lemma class_char_shorter: "class_char p = Some (c, q) \<Longrightarrow> length q < length p"
  by (cases p) (auto split: if_splits list.splits)

text \<open>The ranges of a class up to its bracket: whether the byte is in one of them, and the rest of the pattern.\<close>

function class_ranges :: "byte \<Rightarrow> bool \<Rightarrow> nat \<Rightarrow> bytes \<Rightarrow> (bool \<times> bytes) option" where
  "class_ranges r m n p =
     (if p \<noteq> [] \<and> hd p = of_char CHR '']'' \<and> n > 0 then Some (m, tl p)
      else case class_char p of
        None \<Rightarrow> None
      | Some (lo, q) \<Rightarrow>
          if q \<noteq> [] \<and> hd q = of_char CHR ''-'' then
            (case class_char (tl q) of
               None \<Rightarrow> None
             | Some (hi, q') \<Rightarrow> class_ranges r (m \<or> lo \<le> r \<and> r \<le> hi) (Suc n) q')
          else class_ranges r (m \<or> lo = r) (Suc n) q)"
  by pat_completeness auto
termination
  by (relation "measure (\<lambda>(r, m, n, p). length p)") (auto dest!: class_char_shorter simp: less_Suc_eq neq_Nil_conv)

declare class_ranges.simps [simp del]

lemma class_ranges_shorter: "class_ranges r m n p = Some (b, rest) \<Longrightarrow> length rest < length p"
proof (induction r m n p rule: class_ranges.induct)
  case (1 r m n p)
  show ?case
  proof (cases "p \<noteq> [] \<and> hd p = of_char CHR '']'' \<and> n > 0")
    case True
    then show ?thesis using 1(3) by (auto simp: class_ranges.simps [of r m n p] neq_Nil_conv)
  next
    case False
    with 1(3) obtain lo q where q: "class_char p = Some (lo, q)"
      by (auto simp: class_ranges.simps [of r m n p] split: option.splits)
    show ?thesis
    proof (cases "q \<noteq> [] \<and> hd q = of_char CHR ''-''")
      case True
      with 1(3) False q obtain hi q' where q': "class_char (tl q) = Some (hi, q')" "class_ranges r (m \<or> lo \<le> r \<and> r \<le> hi) (Suc n) q' = Some (b, rest)"
        by (auto simp: class_ranges.simps [of r m n p] split: option.splits)
      show ?thesis
        using 1(1) [OF False q refl True q'(1) refl q'(2)] class_char_shorter [OF q] class_char_shorter [OF q'(1)] by simp
    next
      case no: False
      with 1(3) False q have "class_ranges r (m \<or> lo = r) (Suc n) q = Some (b, rest)"
        by (auto simp: class_ranges.simps [of r m n p])
      then show ?thesis
        using 1(2) [OF False q refl no] class_char_shorter [OF q] by simp
    qed
  qed
qed

function glob :: "bytes \<Rightarrow> bytes \<Rightarrow> bool" where
  "glob [] s = (s = [])"
| "glob (c # p) s =
     (if c = of_char CHR ''*'' then (if glob p s then True else if s = [] \<or> hd s = of_char CHR ''/'' then False else glob (c # p) (tl s))
      else if s = [] then False
      else if c = of_char CHR ''?'' then hd s \<noteq> of_char CHR ''/'' \<and> glob p (tl s)
      else if c = of_char CHR ''['' then
        (let negated = (p \<noteq> [] \<and> hd p = of_char CHR ''^'') in
         case class_ranges (hd s) False 0 (if negated then tl p else p) of
           None \<Rightarrow> False
         | Some (m, p') \<Rightarrow> m \<noteq> negated \<and> glob p' (tl s))
      else if c = of_char CHR 0x5C then (p \<noteq> [] \<and> hd p = hd s \<and> glob (tl p) (tl s))
      else c = hd s \<and> glob p (tl s))"
  by pat_completeness auto
termination
  by (relation "measure (\<lambda>(p, s). length p + length s)")
    (auto dest!: class_ranges_shorter simp: neq_Nil_conv split: if_splits)

declare glob.simps(2) [simp del]

definition modulePat_match :: "modulePat \<Rightarrow> bytes \<Rightarrow> bool" where
  "modulePat_match m file = (if mp_literal m then file = mp_pattern m else glob (mp_pattern m) file)"

section \<open>Verbosity\<close>

text \<open>\<open>/a/b/c/d.go\<close> becomes \<open>d\<close>.\<close>

definition after_slash :: "bytes \<Rightarrow> bytes" where
  "after_slash file = (case LastIndex file (of_char CHR ''/'') of None \<Rightarrow> file | Some i \<Rightarrow> drop (i + 1) file)"

definition setV_file :: "bytes \<Rightarrow> bytes" where
  "setV_file file = after_slash (if suffix (lit ''.go'') file then take (length file - 3) file else file)"

fun setV_find :: "modulePat list \<Rightarrow> bytes \<Rightarrow> int" where
  "setV_find [] file = 0"
| "setV_find (f # fs) file = (if modulePat_match f file then mp_level f else setV_find fs file)"

text \<open>The file of a call site is what the runtime says, the argument \<open>file_of\<close>.\<close>

definition setV :: "(nat \<Rightarrow> bytes) \<Rightarrow> nat \<Rightarrow> 'a loggingT_scheme \<Rightarrow> int \<times> 'a loggingT_scheme" where
  "setV file_of pc lg =
     (let v = setV_find (lg_vmodule lg) (setV_file (file_of pc)) in (v, lg\<lparr>lg_vmap := (lg_vmap lg)(pc \<mapsto> v)\<rparr>))"

definition V :: "(nat \<Rightarrow> bytes) \<Rightarrow> nat option \<Rightarrow> int \<Rightarrow> 'a loggingT_scheme \<Rightarrow> bool \<times> 'a loggingT_scheme" where
  "V file_of caller level lg =
     (if lg_verbosity lg \<ge> level then (True, lg)
      else if lg_filterLength lg > 0 then
        (case caller of
           None \<Rightarrow> (False, lg)
         | Some pc \<Rightarrow> (case lg_vmap lg pc of
             Some v \<Rightarrow> (v \<ge> level, lg)
           | None \<Rightarrow> (let (v, lg') = setV file_of pc lg in (v \<ge> level, lg'))))
      else (False, lg))"

section \<open>The place of a stack trace\<close>

definition traceLocation_isSet :: "traceLocation \<Rightarrow> bool" where
  "traceLocation_isSet t \<longleftrightarrow> tl_line t > 0"

definition traceLocation_match :: "traceLocation \<Rightarrow> bytes \<Rightarrow> int \<Rightarrow> bool" where
  "traceLocation_match t file line = (if tl_line t \<noteq> line then False else tl_file t = after_slash file)"

definition traceLocation_String :: "traceLocation \<Rightarrow> bytes" where
  "traceLocation_String t = tl_file t @ lit '':'' @ FormatInt (tl_line t)"

definition traceLocation_Set :: "bytes \<Rightarrow> traceLocation \<Rightarrow> flag_error option \<times> traceLocation" where
  "traceLocation_Set val t =
     (let t = (if val = [] then t\<lparr>tl_line := 0, tl_file := []\<rparr> else t) in
      case split_on (of_char CHR '':'') val of
        [file, line] \<Rightarrow>
          (if of_char CHR ''.'' \<notin> set file then (Some ErrTraceSyntax, t)
           else case Atoi line of
             (_, Some err) \<Rightarrow> (Some ErrTraceSyntax, t)
           | (v, None) \<Rightarrow> if v \<le> 0 then (Some ErrTraceLine, t) else (None, t\<lparr>tl_line := v, tl_file := file\<rparr>))
      | _ \<Rightarrow> (Some ErrTraceSyntax, t))"

section \<open>The names of the files\<close>

record log_names =
  ln_logDir :: bytes
  ln_program :: bytes

definition SetLogFile :: "bytes \<Rightarrow> log_names \<Rightarrow> log_names" where
  "SetLogFile logfile ln =
     (if logfile = [] then ln
      else case LastIndex logfile (of_char CHR ''/'') of
        None \<Rightarrow> ln\<lparr>ln_logDir := lit ''./''\<rparr>
      | Some i \<Rightarrow> ln\<lparr>ln_logDir := take (i + 1) logfile, ln_program := drop (i + 1) logfile\<rparr>)"

definition SetLogLevel :: "bytes \<Rightarrow> int \<Rightarrow> num_error option \<times> int" where
  "SetLogLevel logLevel glogLevel = (case Atoi logLevel of
     (_, Some err) \<Rightarrow> (Some err, glogLevel)
   | (level, None) \<Rightarrow> (None, to_int32 level))"

definition shortHostname :: "bytes \<Rightarrow> bytes" where
  "shortHostname hostname = takeWhile (\<lambda>c. c \<noteq> of_char CHR ''.'') hostname"

definition createLogDirs :: "bytes \<Rightarrow> bytes \<Rightarrow> bytes list \<Rightarrow> bytes list" where
  "createLogDirs logDir tempDir logDirs = (if logDir \<noteq> [] then logDirs @ [logDir] else logDirs) @ [tempDir]"

section \<open>Verbosity without the cache\<close>

definition V_spec :: "(nat \<Rightarrow> bytes) \<Rightarrow> nat option \<Rightarrow> int \<Rightarrow> int \<Rightarrow> modulePat list \<Rightarrow> bool" where
  "V_spec file_of caller level verbosity flt \<longleftrightarrow> level \<le> verbosity \<or>
     (flt \<noteq> [] \<and> (case caller of None \<Rightarrow> False | Some pc \<Rightarrow> level \<le> setV_find flt (setV_file (file_of pc))))"

datatype flag_op = OpLevel bytes | OpModule bytes | OpV "nat option" int

fun flag_step :: "(nat \<Rightarrow> bytes) \<Rightarrow> flag_op \<Rightarrow> 'a loggingT_scheme \<Rightarrow> 'a loggingT_scheme" where
  "flag_step file_of (OpLevel val) lg = snd (Level_Set val lg)"
| "flag_step file_of (OpModule val) lg = snd (moduleSpec_Set val lg)"
| "flag_step file_of (OpV caller level) lg = snd (V file_of caller level lg)"

definition flag_run :: "(nat \<Rightarrow> bytes) \<Rightarrow> flag_op list \<Rightarrow> 'a loggingT_scheme \<Rightarrow> 'a loggingT_scheme" where
  "flag_run file_of ops lg = fold (flag_step file_of) ops lg"

text \<open>The state at the start of the process: \<open>init\<close> sets no verbosity and no pattern.\<close>

definition flags_new :: loggingT where
  "flags_new = setVState 0 [] False
     \<lparr>lg_toStderr = False, lg_alsoToStderr = False, lg_stderrThreshold = 2, lg_vmap = Map.empty, lg_filterLength = 0,
      lg_traceLocation = \<lparr>tl_file = [], tl_line = 0\<rparr>, lg_vmodule = [], lg_verbosity = 0\<rparr>"

definition cache_ok :: "(nat \<Rightarrow> bytes) \<Rightarrow> 'a loggingT_scheme \<Rightarrow> bool" where
  "cache_ok file_of lg \<longleftrightarrow> lg_filterLength lg = int (length (lg_vmodule lg)) \<and>
     (\<forall>pc v. lg_vmap lg pc = Some v \<longrightarrow> v = setV_find (lg_vmodule lg) (setV_file (file_of pc)))"

lemma to_int32_small: "- (2 ^ 31) \<le> v \<Longrightarrow> v < 2 ^ 31 \<Longrightarrow> to_int32 v = v"
  by (simp add: to_int32_def signed_of_int signed_take_bit_int_eq_self)

lemma setVState_cache:
  assumes "length flt < 2 ^ 31" "setFilter \<or> (cache_ok file_of lg \<and> flt = lg_vmodule lg)"
  shows "cache_ok file_of (setVState v flt setFilter lg)" "lg_vmodule (setVState v flt setFilter lg) = flt"
  using assms to_int32_small [of "int (length flt)"] by (auto simp: setVState_def cache_ok_def Let_def)

lemma moduleSpec_parse_length: "moduleSpec_parse pats acc = Inr flt \<Longrightarrow> length flt \<le> length acc + length pats"
proof (induction pats acc rule: moduleSpec_parse.induct)
  case (2 pat pats acc)
  show ?case
    using 2(4) by (auto split: if_splits list.splits prod.splits option.splits) (use 2(1-3) in fastforce)+
qed simp

lemma length_split_on: "length (split_on c xs) \<le> Suc (length xs)"
  by (induction xs) (auto split: list.splits)

lemma moduleSpec_parse_small:
  assumes "length val < 2 ^ 30" "moduleSpec_parse (split_on c val) [] = Inr flt"
  shows "length flt < 2 ^ 31"
  using moduleSpec_parse_length [OF assms(2)] length_split_on [of c val] assms(1) by simp

lemma moduleSpec_Set_cache:
  assumes "length val < 2 ^ 30"
  shows "cache_ok file_of lg \<Longrightarrow> cache_ok file_of (snd (moduleSpec_Set val lg))"
    "length (lg_vmodule lg) < 2 ^ 31 \<Longrightarrow> length (lg_vmodule (snd (moduleSpec_Set val lg))) < 2 ^ 31"
proof -
  note small = moduleSpec_parse_small [OF assms, of "of_char CHR '',''"]
  show "cache_ok file_of lg \<Longrightarrow> cache_ok file_of (snd (moduleSpec_Set val lg))"
    by (cases "moduleSpec_parse (split_on (of_char CHR '','') val) []") (use small in \<open>simp_all add: moduleSpec_Set_def setVState_cache\<close>)
  show "length (lg_vmodule lg) < 2 ^ 31 \<Longrightarrow> length (lg_vmodule (snd (moduleSpec_Set val lg))) < 2 ^ 31"
    by (cases "moduleSpec_parse (split_on (of_char CHR '','') val) []") (use small in \<open>simp_all add: moduleSpec_Set_def setVState_def Let_def\<close>)
qed

lemma V_cache:
  assumes "cache_ok file_of lg"
  shows "fst (V file_of caller level lg) = V_spec file_of caller level (lg_verbosity lg) (lg_vmodule lg)"
    "cache_ok file_of (snd (V file_of caller level lg))" "lg_vmodule (snd (V file_of caller level lg)) = lg_vmodule lg"
  using assms by (auto simp: V_def V_spec_def setV_def cache_ok_def Let_def split: option.splits)

lemma Level_Set_cache:
  assumes "cache_ok file_of lg" "length (lg_vmodule lg) < 2 ^ 31"
  shows "cache_ok file_of (snd (Level_Set val lg))" "lg_vmodule (snd (Level_Set val lg)) = lg_vmodule lg"
  using assms by (simp_all add: Level_Set_def setVState_cache split: prod.split option.split)

lemma flag_run_cache:
  assumes "\<forall>val. OpModule val \<in> set ops \<longrightarrow> length val < 2 ^ 30" "cache_ok file_of lg" "length (lg_vmodule lg) < 2 ^ 31"
  shows "cache_ok file_of (flag_run file_of ops lg)"
  using assms
proof (induction ops arbitrary: lg)
  case (Cons x xs)
  have "cache_ok file_of (flag_step file_of x lg) \<and> length (lg_vmodule (flag_step file_of x lg)) < 2 ^ 31"
    using Cons.prems moduleSpec_Set_cache(2) [of _ lg] by (cases x) (simp_all add: Level_Set_cache moduleSpec_Set_cache(1) V_cache)
  then show ?case
    using Cons by (simp add: flag_run_def)
qed (simp add: flag_run_def)

text \<open>
  C29. \<open>V\<close> with its cache of call sites answers as without: after any sequence of settings of both flags and calls of \<open>V\<close>, at every call site, the
  answer is whether the level is at most the verbosity, or at most the level of the first pattern that matches the file.
\<close>

theorem V_cache_transparent:
  assumes "\<forall>val. OpModule val \<in> set ops \<longrightarrow> length val < 2 ^ 30" "lg = flag_run file_of ops flags_new"
  shows "fst (V file_of caller level lg) = V_spec file_of caller level (lg_verbosity lg) (lg_vmodule lg)"
proof -
  have "cache_ok file_of flags_new" "length (lg_vmodule flags_new) < 2 ^ 31"
    by (simp_all add: flags_new_def setVState_def cache_ok_def to_int32_def Let_def)
  then show ?thesis
    using flag_run_cache assms V_cache(1) by blast
qed

theorem V_cache_transparent_witness:
  "\<exists>lg. lg = flag_run (\<lambda>pc. lit ''/src/conn.go'') [OpModule (lit ''co*=2''), OpV (Some 7) 1, OpLevel (lit ''1'')] flags_new \<and>
    fst (V (\<lambda>pc. lit ''/src/conn.go'') (Some 7) 2 lg) = V_spec (\<lambda>pc. lit ''/src/conn.go'') (Some 7) 2 (lg_verbosity lg) (lg_vmodule lg)"
proof -
  let ?ops = "[OpModule (lit ''co*=2''), OpV (Some 7) 1, OpLevel (lit ''1'')]"
  have "\<forall>val. OpModule val \<in> set ?ops \<longrightarrow> length val < 2 ^ 30" by simp
  then show ?thesis
    using V_cache_transparent [of ?ops _ "\<lambda>pc. lit ''/src/conn.go''" "Some 7" 2] by blast
qed

section \<open>Flags printed and read back\<close>

definition pattern_ok :: "modulePat \<Rightarrow> bool" where
  "pattern_ok f \<longleftrightarrow> mp_pattern f \<noteq> [] \<and> of_char CHR '','' \<notin> set (mp_pattern f) \<and> of_char CHR ''='' \<notin> set (mp_pattern f) \<and>
     mp_literal f = isLiteral (mp_pattern f) \<and> 0 < mp_level f \<and> mp_level f < 2 ^ 31"

definition pattern_text :: "modulePat \<Rightarrow> bytes" where
  "pattern_text f = mp_pattern f @ lit ''='' @ FormatInt (mp_level f)"

lemma FormatInt_pos_digits: "0 \<le> i \<Longrightarrow> b \<in> set (FormatInt i) \<Longrightarrow> is_digit b"
  using nat_digits_all by (auto simp: FormatInt_def split: if_splits)

lemma no_digit: "\<not> is_digit (of_char CHR '','')" "\<not> is_digit (of_char CHR ''='')" "\<not> is_digit (of_char CHR '':'')"
  by (simp_all add: is_digit_unat)

lemma split_module_text:
  assumes "fs \<noteq> []" "\<forall>f \<in> set fs. pattern_ok f"
  shows "split_on (of_char CHR '','') (moduleSpec_String fs) = map pattern_text fs"
  using assms
proof (induction fs rule: moduleSpec_String.induct)
  case (3 f g fs)
  have "of_char CHR '','' \<notin> set (pattern_text f)"
    using 3(3) FormatInt_pos_digits [of "mp_level f"] no_digit by (auto simp: pattern_text_def pattern_ok_def)
  then have "split_on (of_char CHR '','') (pattern_text f @ of_char CHR '','' # moduleSpec_String (g # fs)) = pattern_text f # map pattern_text (g # fs)"
    using 3 split_on_append by fastforce
  then show ?case by (simp add: pattern_text_def)
next
  case (2 f)
  have "of_char CHR '','' \<notin> set (pattern_text f)"
    using 2(2) FormatInt_pos_digits [of "mp_level f"] no_digit by (auto simp: pattern_text_def pattern_ok_def)
  then show ?case using split_on_no_sep by (fastforce simp: pattern_text_def)
qed simp

lemma moduleSpec_parse_text:
  assumes "\<forall>f \<in> set fs. pattern_ok f"
  shows "moduleSpec_parse (map pattern_text fs) acc = Inr (acc @ fs)"
  using assms
proof (induction fs arbitrary: acc)
  case (Cons f fs)
  then have f: "mp_pattern f \<noteq> []" "of_char CHR ''='' \<notin> set (mp_pattern f)" "mp_literal f = isLiteral (mp_pattern f)" "0 < mp_level f" "mp_level f < 2 ^ 31"
    by (simp_all add: pattern_ok_def)
  have "of_char CHR ''='' \<notin> set (FormatInt (mp_level f))"
    using FormatInt_pos_digits [of "mp_level f"] no_digit f(4) by auto
  then have split: "split_on (of_char CHR ''='') (pattern_text f) = [mp_pattern f, FormatInt (mp_level f)]"
    using split_on_append [OF f(2)] split_on_no_sep by (fastforce simp: pattern_text_def)
  have atoi: "Atoi (FormatInt (mp_level f)) = (mp_level f, None)" "FormatInt (mp_level f) \<noteq> []" "to_int32 (mp_level f) = mp_level f"
    using ParseInt_FormatInt [of 64 "mp_level f"] f(4,5) by (simp_all add: Atoi_def FormatInt_def to_int32_small)
  have "\<lparr>mp_pattern = mp_pattern f, mp_literal = isLiteral (mp_pattern f), mp_level = mp_level f\<rparr> = f"
    using f(3) by simp
  moreover have "pattern_text f \<noteq> []" by (simp add: pattern_text_def)
  ultimately show ?case
    using Cons f(1,4) atoi split by simp
qed simp

lemma moduleSpec_roundtrip:
  assumes "\<forall>f \<in> set fs. pattern_ok f"
  shows "moduleSpec_Set (moduleSpec_String fs) lg = (None, setVState (lg_verbosity lg) fs True lg)"
proof (cases "fs = []")
  case False
  then show ?thesis
    using split_module_text [OF False assms] moduleSpec_parse_text [OF assms, of "[]"] by (simp add: moduleSpec_Set_def)
qed (simp add: moduleSpec_Set_def)

lemma traceLocation_roundtrip:
  assumes "of_char CHR ''.'' \<in> set (tl_file t)" "of_char CHR '':'' \<notin> set (tl_file t)" "0 < tl_line t" "tl_line t < 2 ^ 63"
  shows "traceLocation_Set (traceLocation_String t) t0 = (None, t0\<lparr>tl_line := tl_line t, tl_file := tl_file t\<rparr>)"
proof -
  have "of_char CHR '':'' \<notin> set (FormatInt (tl_line t))"
    using FormatInt_pos_digits [of "tl_line t"] no_digit assms(3) by auto
  then have "split_on (of_char CHR '':'') (traceLocation_String t) = [tl_file t, FormatInt (tl_line t)]"
    using split_on_append [OF assms(2)] split_on_no_sep by (fastforce simp: traceLocation_String_def)
  moreover have "Atoi (FormatInt (tl_line t)) = (tl_line t, None)"
    using ParseInt_FormatInt [of 64 "tl_line t"] assms(3,4) by (simp add: Atoi_def)
  moreover have "traceLocation_String t \<noteq> []" by (simp add: traceLocation_String_def)
  ultimately show ?thesis
    using assms(1,3) by (simp add: traceLocation_Set_def Let_def)
qed

text \<open>The empty text takes the place away and still reports a syntax error.\<close>

lemma traceLocation_unset_reports_error: "traceLocation_Set [] t = (Some ErrTraceSyntax, t\<lparr>tl_line := 0, tl_file := []\<rparr>)"
  by (simp add: traceLocation_Set_def)

text \<open>A name without a directory sets the directory only; the files keep the name of the program.\<close>

lemma SetLogFile_plain_name_ignored:
  "of_char CHR ''/'' \<notin> set name \<Longrightarrow> name \<noteq> [] \<Longrightarrow> SetLogFile name ln = ln\<lparr>ln_logDir := lit ''./''\<rparr>"
  using LastIndex_None [of name "of_char CHR ''/''"] by (simp add: SetLogFile_def)

lemma severity_names: "i < 5 \<Longrightarrow> severityByName (severityName ! i) = (int i, True)"
  by (simp add: severityByName_def severityName_def ToUpper_def less_Suc_eq numeral_eq_Suc) (auto simp: severityByName_def severityName_def ToUpper_def)

end
