(* ===== verification/Log_Output.thy ===== *)
theory Log_Output
  imports Log_Flushes Log_Format Log_Flags
begin

text \<open>
  From a call of the log to its files, \<open>lib/glog/glog.go\<close>: the pool of buffers, \<open>printWithFileLine\<close>, \<open>output\<close> and \<open>createFiles\<close>, over the files of \<open>Log_Flushes\<close>,
  the headers of \<open>Log_Format\<close> and the flags of \<open>Log_Flags\<close>.  A file comes with the flushes that are under way on it (\<open>log_file\<close>).
\<close>

abbreviation infoLog :: int where "infoLog \<equiv> 0"
abbreviation warningLog :: int where "warningLog \<equiv> 1"
abbreviation errorLog :: int where "errorLog \<equiv> 2"
abbreviation fatalLog :: int where "fatalLog \<equiv> 3"

record log_buffer =
  bf_data :: bytes
  bf_tmp :: bytes

record glog = loggingT +
  lg_file :: "int \<Rightarrow> log_file option"
  lg_freeList :: "log_buffer list"
  lg_stats :: "int \<Rightarrow> 64 word \<times> 64 word"
  lg_exitFunc :: bool
  lg_fatalNoStacks :: bool
  lg_stderr :: "bytes list"
  lg_spawned :: "bytes list"

text \<open>
  What a call meets: the day and, for each severity, what happens when its file is made, and the text of the runtime's stack traces
  (of the goroutine, of all).
\<close>

record log_env =
  le_day :: int
  le_create :: "int \<Rightarrow> new_file"
  le_stack :: bytes
  le_stacks :: bytes

section \<open>Buffers\<close>

definition getBuffer :: "glog \<Rightarrow> log_buffer \<times> glog" where
  "getBuffer g = (case lg_freeList g of
     [] \<Rightarrow> (\<lparr>bf_data = [], bf_tmp = replicate tmp_len 0\<rparr>, g)
   | b # bs \<Rightarrow> (b\<lparr>bf_data := []\<rparr>, g\<lparr>lg_freeList := bs\<rparr>))"

definition putBuffer :: "log_buffer \<Rightarrow> glog \<Rightarrow> glog" where
  "putBuffer b g = (if length (bf_data b) \<ge> 256 then g else g\<lparr>lg_freeList := b # lg_freeList g\<rparr>)"

section \<open>Output\<close>

function createFiles :: "int \<Rightarrow> (int \<Rightarrow> new_file) \<Rightarrow> int \<Rightarrow> (int \<Rightarrow> log_file option) \<Rightarrow> bool \<times> (int \<Rightarrow> log_file option)" where
  "createFiles day nf s file =
     (if s \<ge> infoLog \<and> file s = None
      then (case rotateFile day (nf s) new_syncBuffer of
          (False, _) \<Rightarrow> (False, file)
        | (True, sb) \<Rightarrow> createFiles day nf (s - 1) (file(s \<mapsto> \<lparr>fl_sb = sb, fl_flushes = [], fl_overlap = False\<rparr>)))
      else (True, file))"
  by pat_completeness auto
termination
  by (relation "measure (\<lambda>(day, nf, s, file). nat (s + 1))") auto

declare createFiles.simps [simp del]

text \<open>How a call ends: it returns, it ends the process with a code, or it panics.\<close>

datatype output_end = OutReturns glog | OutExits int glog | OutPanics

definition stderr_add :: "bytes \<Rightarrow> glog \<Rightarrow> glog" where
  "stderr_add data g = g\<lparr>lg_stderr := lg_stderr g @ [data]\<rparr>"

text \<open>A write to a file that was not made is a call on a nil interface.  A line that is too long starts a goroutine that logs an error.\<close>

definition file_Write :: "bytes \<Rightarrow> int \<Rightarrow> glog \<Rightarrow> glog option" where
  "file_Write data t g = (case lg_file g t of
     None \<Rightarrow> None
   | Some s \<Rightarrow> (case syncBuffer_Write data (fl_sb s) of
       (n, sb) \<Rightarrow> Some (g\<lparr>lg_file := (lg_file g)(t \<mapsto> s\<lparr>fl_sb := sb\<rparr>),
         lg_spawned := lg_spawned g @ (if n = None then [lit ''log line more then 64KB - '' @ FormatInt (int (length data))] else [])\<rparr>)))"

fun write_all :: "int list \<Rightarrow> bytes \<Rightarrow> glog \<Rightarrow> glog option" where
  "write_all [] data g = Some g"
| "write_all (t # ts) data g = file_Write data t g \<bind> write_all ts data"

definition targets :: "int \<Rightarrow> int list" where
  "targets s =
     (if s = fatalLog then [fatalLog, infoLog]
      else if s = errorLog then [errorLog, infoLog]
      else if s = warningLog then [warningLog, infoLog]
      else if s = infoLog then [infoLog]
      else if s = debugLog then [debugLog]
      else [])"

definition output_files :: "log_env \<Rightarrow> int \<Rightarrow> bytes \<Rightarrow> bool \<Rightarrow> glog \<Rightarrow> output_end" where
  "output_files env s data alsoToStderr g =
     (let g = (if alsoToStderr \<or> lg_alsoToStderr g \<or> s \<ge> lg_stderrThreshold g then stderr_add data g else g);
          (ok, file) = (if lg_file g s = None then createFiles (le_day env) (le_create env) s (lg_file g) else (True, lg_file g));
          g = g\<lparr>lg_file := file\<rparr>;
          g = (if ok then g else stderr_add data g) in
      if \<not> ok \<and> \<not> lg_exitFunc g then OutExits 2 g
      else case write_all (targets s) data g of None \<Rightarrow> OutPanics | Some g \<Rightarrow> OutReturns g)"

text \<open>The end of a fatal message; the process exits after a flush.\<close>

definition write_trace :: "bytes \<Rightarrow> glog \<Rightarrow> glog option" where
  "write_trace trace g = write_all (filter (\<lambda>t. lg_file g t \<noteq> None) [debugLog, fatalLog, errorLog, warningLog, infoLog]) trace g"

definition output_fatal :: "log_env \<Rightarrow> glog \<Rightarrow> output_end" where
  "output_fatal env g =
     (if lg_fatalNoStacks g then OutExits 1 g
      else
        let g = (if \<not> lg_toStderr g then stderr_add (le_stack env) g else g);
            g = g\<lparr>lg_exitFunc := True\<rparr> in
        case write_trace (le_stacks env) g of None \<Rightarrow> OutPanics | Some g \<Rightarrow> OutExits 255 g)"

definition output_stats :: "int \<Rightarrow> bytes \<Rightarrow> glog \<Rightarrow> glog" where
  "output_stats s data g =
     (if s \<in> {infoLog, warningLog, errorLog}
      then g\<lparr>lg_stats := (lg_stats g)(s := (fst (lg_stats g s) + 1, snd (lg_stats g s) + of_nat (length data)))\<rparr>
      else g)"

definition loggingT_output :: "log_env \<Rightarrow> int \<Rightarrow> log_buffer \<Rightarrow> bytes \<Rightarrow> int \<Rightarrow> bool \<Rightarrow> glog \<Rightarrow> output_end" where
  "loggingT_output env s buf file line alsoToStderr g =
     (let buf = (if traceLocation_isSet (lg_traceLocation g) \<and> traceLocation_match (lg_traceLocation g) file line
                 then buf\<lparr>bf_data := bf_data buf @ le_stack env\<rparr> else buf);
          data = bf_data buf in
      case (if lg_toStderr g then OutReturns (stderr_add data g) else output_files env s data alsoToStderr g) of
        OutReturns g \<Rightarrow> if s = fatalLog then output_fatal env g else OutReturns (output_stats s data (putBuffer buf g))
      | e \<Rightarrow> e)"

definition printWithFileLine :: "log_env \<Rightarrow> log_time \<Rightarrow> int \<Rightarrow> int \<Rightarrow> bytes \<Rightarrow> int \<Rightarrow> bool \<Rightarrow> bytes \<Rightarrow> glog \<Rightarrow> output_end" where
  "printWithFileLine env now pid s file line alsoToStderr msg g =
     (let (buf, g) = getBuffer g in
      case formatHeader now pid s file line (bf_tmp buf) of
        None \<Rightarrow> OutPanics
      | Some (header, tmp) \<Rightarrow> (case log_line header msg of
          None \<Rightarrow> OutPanics
        | Some data \<Rightarrow> loggingT_output env s \<lparr>bf_data = data, bf_tmp = tmp\<rparr> file line alsoToStderr g))"

text \<open>\<open>header\<close>: the file and line of the caller, as the runtime gives them.\<close>

definition header_place :: "(bytes \<times> int) option \<Rightarrow> bytes \<times> int" where
  "header_place caller = (case caller of None \<Rightarrow> (lit ''???'', 1) | Some (file, line) \<Rightarrow> (after_slash file, line))"

definition printDepth :: "log_env \<Rightarrow> log_time \<Rightarrow> int \<Rightarrow> int \<Rightarrow> (bytes \<times> int) option \<Rightarrow> bytes \<Rightarrow> glog \<Rightarrow> output_end" where
  "printDepth env now pid s caller msg g =
     (let (file, line) = header_place caller in printWithFileLine env now pid s file line False msg g)"

definition Debug :: "int \<Rightarrow> log_env \<Rightarrow> log_time \<Rightarrow> int \<Rightarrow> (bytes \<times> int) option \<Rightarrow> bytes \<Rightarrow> glog \<Rightarrow> output_end" where
  "Debug glogLevel env now pid caller msg g = (if glogLevel < debugLog then OutReturns g else printDepth env now pid debugLog caller msg g)"

definition Info :: "log_env \<Rightarrow> log_time \<Rightarrow> int \<Rightarrow> (bytes \<times> int) option \<Rightarrow> bytes \<Rightarrow> glog \<Rightarrow> output_end" where
  "Info env now pid = printDepth env now pid infoLog"

definition Warning :: "log_env \<Rightarrow> log_time \<Rightarrow> int \<Rightarrow> (bytes \<times> int) option \<Rightarrow> bytes \<Rightarrow> glog \<Rightarrow> output_end" where
  "Warning env now pid = printDepth env now pid warningLog"

definition Error :: "log_env \<Rightarrow> log_time \<Rightarrow> int \<Rightarrow> (bytes \<times> int) option \<Rightarrow> bytes \<Rightarrow> glog \<Rightarrow> output_end" where
  "Error env now pid = printDepth env now pid errorLog"

definition Verbose_Info :: "bool \<Rightarrow> log_env \<Rightarrow> log_time \<Rightarrow> int \<Rightarrow> (bytes \<times> int) option \<Rightarrow> bytes \<Rightarrow> glog \<Rightarrow> output_end" where
  "Verbose_Info v env now pid caller msg g = (if v then printDepth env now pid infoLog caller msg g else OutReturns g)"

definition Exit :: "log_env \<Rightarrow> log_time \<Rightarrow> int \<Rightarrow> (bytes \<times> int) option \<Rightarrow> bytes \<Rightarrow> glog \<Rightarrow> output_end" where
  "Exit env now pid caller msg g = printDepth env now pid fatalLog caller msg (g\<lparr>lg_fatalNoStacks := True\<rparr>)"

section \<open>Lines of the standard log\<close>

text \<open>\<open>bytes.SplitN(b, ":", 3)\<close>.\<close>

definition split3 :: "bytes \<Rightarrow> bytes list" where
  "split3 b = (case split_on (of_char CHR '':'') b of
     p0 # p1 # p2 # ps \<Rightarrow> [p0, p1, drop (length p0 + length p1 + 2) b]
   | ps \<Rightarrow> ps)"

definition logBridge_place :: "bytes \<Rightarrow> bytes \<times> int \<times> bytes" where
  "logBridge_place b = (case split3 b of
     [p0, p1, p2] \<Rightarrow>
       (if length p0 < 1 \<or> length p2 < 1 then (lit ''???'', 1, lit ''bad log format: '' @ b)
        else case Atoi p1 of
          (_, Some err) \<Rightarrow> (p0, 1, lit ''bad line number: '' @ b)
        | (line, None) \<Rightarrow> (p0, line, drop 1 p2))
   | _ \<Rightarrow> (lit ''???'', 1, lit ''bad log format: '' @ b))"

definition logBridge_Write :: "log_env \<Rightarrow> log_time \<Rightarrow> int \<Rightarrow> int \<Rightarrow> bytes \<Rightarrow> glog \<Rightarrow> output_end" where
  "logBridge_Write env now pid lb b g =
     (let (file, line, msg) = logBridge_place b in printWithFileLine env now pid lb file line True msg g)"

text \<open>A line of the standard log in its short form keeps its place and its message.\<close>

lemma logBridge_place_short:
  assumes "fl \<noteq> []" "of_char CHR '':'' \<notin> set fl" "0 \<le> line" "line < 2 ^ 63"
  shows "logBridge_place (fl @ lit '':'' @ FormatInt line @ lit '': '' @ msg) = (fl, line, msg)"
proof -
  have d: "of_char CHR '':'' \<notin> set (FormatInt line)"
    using FormatInt_pos_digits [OF assms(3)] no_digit by auto
  obtain p ps where "split_on (of_char CHR '':'') (lit '' '' @ msg) = p # ps"
    using split_on_not_Nil by (metis list.exhaust)
  then have "split_on (of_char CHR '':'') (fl @ lit '':'' @ FormatInt line @ lit '': '' @ msg) = fl # FormatInt line # p # ps"
    using split_on_append [OF assms(2), of "FormatInt line @ lit '': '' @ msg"] split_on_append [OF d, of "lit '' '' @ msg"] by simp
  then have "split3 (fl @ lit '':'' @ FormatInt line @ lit '': '' @ msg) = [fl, FormatInt line, lit '' '' @ msg]"
    by (simp add: split3_def)
  moreover have "Atoi (FormatInt line) = (line, None)"
    using ParseInt_FormatInt [of 64 line] assms(3,4) by (simp add: Atoi_def)
  ultimately show ?thesis
    using assms(1) by (simp add: logBridge_place_def Suc_le_eq)
qed

section \<open>Files are there when they are written\<close>

definition files_below :: "int \<Rightarrow> (int \<Rightarrow> log_file option) \<Rightarrow> bool" where
  "files_below s fs \<longleftrightarrow> (\<forall>u t. u \<le> s \<longrightarrow> fs u \<noteq> None \<longrightarrow> 0 \<le> t \<longrightarrow> t \<le> u \<longrightarrow> fs t \<noteq> None)"

definition files_added :: "(int \<Rightarrow> log_file option) \<Rightarrow> (int \<Rightarrow> log_file option) \<Rightarrow> bool" where
  "files_added fs fs1 \<longleftrightarrow> (\<forall>t. fs1 t = fs t \<or> fs t = None \<and> (\<exists>day h. fs1 t = Some (file_new day h)))"

lemma rotateFile_True:
  assumes "rotateFile day nf new_syncBuffer = (True, sb)"
  obtains h where "\<lparr>fl_sb = sb, fl_flushes = [], fl_overlap = False\<rparr> = file_new day h"
  using assms by (cases nf) (auto simp: rotateFile_def Let_def file_new_def)

lemma createFiles_spec:
  assumes "createFiles day nf s fs = (True, fs1)" "files_below s fs"
  shows "files_added fs fs1 \<and> (\<forall>t. 0 \<le> t \<longrightarrow> t \<le> s \<longrightarrow> fs1 t \<noteq> None) \<and> (\<forall>t. s < t \<longrightarrow> fs1 t = fs t)"
  using assms
proof (induction day nf s fs rule: createFiles.induct)
  case (1 day nf s fs)
  show ?case
  proof (cases "s \<ge> 0 \<and> fs s = None")
    case True
    then obtain sb where sb: "rotateFile day (nf s) new_syncBuffer = (True, sb)"
        and rest: "createFiles day nf (s - 1) (fs(s \<mapsto> \<lparr>fl_sb = sb, fl_flushes = [], fl_overlap = False\<rparr>)) = (True, fs1)"
      using 1(2) by (auto simp: createFiles.simps [of day nf s fs] split: prod.splits bool.splits)
    obtain h where h: "\<lparr>fl_sb = sb, fl_flushes = [], fl_overlap = False\<rparr> = file_new day h"
      using rotateFile_True [OF sb] .
    let ?f = "fs(s \<mapsto> file_new day h)"
    have "files_below (s - 1) ?f"
      using 1(3) by (auto simp: files_below_def) (meson less_imp_le)
    then have IH: "files_added ?f fs1" "\<forall>t. 0 \<le> t \<longrightarrow> t \<le> s - 1 \<longrightarrow> fs1 t \<noteq> None" "\<forall>t. s - 1 < t \<longrightarrow> fs1 t = ?f t"
      using 1(1) [OF True sb [symmetric] refl] rest unfolding h by blast+
    have "files_added fs fs1"
      unfolding files_added_def
    proof
      fix t
      show "fs1 t = fs t \<or> fs t = None \<and> (\<exists>day h. fs1 t = Some (file_new day h))"
        using spec [OF IH(1) [unfolded files_added_def], of t] spec [OF IH(3), of s] True by (cases "t = s") auto
    qed
    moreover have "\<forall>t. 0 \<le> t \<longrightarrow> t \<le> s \<longrightarrow> fs1 t \<noteq> None"
    proof (intro allI impI)
      fix t assume "0 \<le> t" "t \<le> s"
      then show "fs1 t \<noteq> None"
        using IH(2) spec [OF IH(3), of s] by (cases "t = s") auto
    qed
    ultimately show ?thesis
      using IH(3) by auto
  next
    case False
    then have "fs1 = fs" using 1(2) by (auto simp: createFiles.simps [of day nf s fs])
    then show ?thesis using False 1(3) by (auto simp: files_added_def files_below_def)
  qed
qed

lemma files_below_all:
  assumes "files_below 4 fs" "files_added fs fs1" "\<forall>t. 0 \<le> t \<longrightarrow> t \<le> s \<longrightarrow> fs1 t \<noteq> None" "\<forall>t. s < t \<longrightarrow> fs1 t = fs t"
  shows "files_below 4 fs1"
  unfolding files_below_def
proof (intro allI impI)
  fix u t assume u: "u \<le> 4" "fs1 u \<noteq> None" "0 \<le> t" "t \<le> u"
  show "fs1 t \<noteq> None"
  proof (cases "u \<le> s")
    case True
    then show ?thesis using assms(3) u by simp
  next
    case False
    then have "fs u \<noteq> None" using assms(4) u(2) by simp
    then have "fs t \<noteq> None" using assms(1) u by (auto simp: files_below_def)
    then show ?thesis using assms(2) unfolding files_added_def by (metis (no_types))
  qed
qed

section \<open>Every line in its files\<close>

text \<open>Calls of the log and the steps of flushes, in any order.\<close>

datatype glog_ev = EvPrint log_env log_time int bytes int bool bytes | EvFlush int file_op

fun glog_step :: "int \<Rightarrow> glog_ev \<Rightarrow> glog \<Rightarrow> output_end option" where
  "glog_step pid (EvPrint env now s file line also msg) g = Some (printWithFileLine env now pid s file line also msg g)"
| "glog_step pid (EvFlush t op) g =
     (if is_FileWrite op then None
      else case lg_file g t of
        None \<Rightarrow> None
      | Some s \<Rightarrow> (case file_step op s of None \<Rightarrow> None | Some s' \<Rightarrow> Some (OutReturns (g\<lparr>lg_file := (lg_file g)(t \<mapsto> s')\<rparr>))))"

fun glog_run :: "int \<Rightarrow> glog_ev list \<Rightarrow> glog \<Rightarrow> output_end option" where
  "glog_run pid [] g = Some (OutReturns g)"
| "glog_run pid (e # es) g = (case glog_step pid e g of
     None \<Rightarrow> None
   | Some (OutReturns g') \<Rightarrow> glog_run pid es g'
   | Some r \<Rightarrow> if es = [] then Some r else None)"

definition glog_new :: "loggingT \<Rightarrow> glog" where
  "glog_new flags = loggingT.extend flags
     (glog.fields (\<lambda>_. None) [] (\<lambda>_. (0, 0)) False False [] [])"

fun ev_ok :: "glog_ev \<Rightarrow> bool" where
  "ev_ok (EvPrint env now s file line also msg) \<longleftrightarrow> valid_time now \<and> 0 \<le> s \<and> s \<le> 4 \<and> line < 2 ^ 63"
| "ev_ok (EvFlush t op) \<longleftrightarrow> True"

text \<open>The line of a call, and the lines that belong into the file of a severity.\<close>

definition line_text :: "traceLocation \<Rightarrow> int \<Rightarrow> log_env \<Rightarrow> log_time \<Rightarrow> int \<Rightarrow> bytes \<Rightarrow> int \<Rightarrow> bytes \<Rightarrow> bytes" where
  "line_text tr pid env now s file line msg =
     (let b = header_text now pid s file (nat line) @ msg in
      (if last b \<noteq> 10 then b @ [10] else b) @
      (if traceLocation_isSet tr \<and> traceLocation_match tr file line then le_stack env else []))"

fun lines_for :: "traceLocation \<Rightarrow> int \<Rightarrow> int \<Rightarrow> glog_ev \<Rightarrow> bytes list" where
  "lines_for tr pid t (EvPrint env now s file line also msg) =
     (if t \<in> set (targets s) \<and> length (line_text tr pid env now s file line msg) \<le> MsgLineSize
      then [line_text tr pid env now s file line msg] else [])"
| "lines_for tr pid t (EvFlush u op) = []"

definition glog_inv :: "traceLocation \<Rightarrow> (int \<Rightarrow> bytes list) \<Rightarrow> glog \<Rightarrow> bool" where
  "glog_inv tr acc g \<longleftrightarrow> \<not> lg_toStderr g \<and> \<not> lg_exitFunc g \<and> lg_traceLocation g = tr \<and>
     (\<forall>b \<in> set (lg_freeList g). length (bf_tmp b) = 64) \<and> files_below 4 (lg_file g) \<and>
     (\<forall>t. case lg_file g t of None \<Rightarrow> acc t = [] | Some s \<Rightarrow> file_inv (acc t) s)"

lemma glog_invI:
  assumes "\<not> lg_toStderr g" "\<not> lg_exitFunc g" "lg_traceLocation g = tr" "\<forall>b \<in> set (lg_freeList g). length (bf_tmp b) = 64" "files_below 4 (lg_file g)"
    and "\<And>t. lg_file g t = None \<Longrightarrow> acc t = []" "\<And>t s. lg_file g t = Some s \<Longrightarrow> file_inv (acc t) s"
  shows "glog_inv tr acc g"
  using assms by (auto simp: glog_inv_def split: option.split)

lemma glog_invD:
  assumes "glog_inv tr acc g"
  shows "\<not> lg_toStderr g" "\<not> lg_exitFunc g" "lg_traceLocation g = tr" "\<forall>b \<in> set (lg_freeList g). length (bf_tmp b) = 64" "files_below 4 (lg_file g)"
    "lg_file g t = None \<Longrightarrow> acc t = []" "lg_file g t = Some s \<Longrightarrow> file_inv (acc t) s"
  using assms by (auto simp: glog_inv_def split: option.splits dest: spec [of _ t])

text \<open>A change that leaves the files and the flags alone.\<close>

lemma glog_inv_same:
  assumes "glog_inv tr acc g" "lg_toStderr g' = lg_toStderr g" "lg_exitFunc g' = lg_exitFunc g" "lg_traceLocation g' = lg_traceLocation g"
    "\<forall>b \<in> set (lg_freeList g'). length (bf_tmp b) = 64" "lg_file g' = lg_file g"
  shows "glog_inv tr acc g'"
  using assms by (simp add: glog_inv_def)

definition grown :: "int list \<Rightarrow> bytes \<Rightarrow> (int \<Rightarrow> bytes list) \<Rightarrow> int \<Rightarrow> bytes list" where
  "grown ts data acc t = acc t @ (if t \<in> set ts \<and> length data \<le> MsgLineSize then [data] else [])"

lemma file_Write_inv:
  assumes "glog_inv tr acc g" "lg_file g t \<noteq> None"
  obtains g' where "file_Write data t g = Some g'" "glog_inv tr (grown [t] data acc) g'" "\<And>u. lg_file g' u = None \<longleftrightarrow> lg_file g u = None"
proof -
  obtain s where s: "lg_file g t = Some s" using assms(2) by auto
  obtain n sb where w: "syncBuffer_Write data (fl_sb s) = (n, sb)" by fastforce
  obtain g' where g': "file_Write data t g = Some g'" "lg_file g' = (lg_file g)(t \<mapsto> s\<lparr>fl_sb := sb\<rparr>)" "lg_toStderr g' = lg_toStderr g"
      "lg_exitFunc g' = lg_exitFunc g" "lg_traceLocation g' = lg_traceLocation g" "lg_freeList g' = lg_freeList g"
    by (simp add: file_Write_def s w)
  have "file_inv (acc t @ file_accepted (FileWrite data)) (s\<lparr>fl_sb := sb\<rparr>)"
    using file_write_inv [OF glog_invD(7) [OF assms(1) s], of data] by (simp add: w)
  moreover have "files_below 4 (lg_file g')"
    using glog_invD(5) [OF assms(1)] s by (auto simp: files_below_def g'(2))
  ultimately have "glog_inv tr (grown [t] data acc) g'"
    using glog_invD [OF assms(1)] by (intro glog_invI) (auto simp: g' grown_def split: if_splits)
  then show thesis
    using that g'(1,2) s by auto
qed

lemma write_all_inv:
  assumes "glog_inv tr acc g" "\<forall>t \<in> set ts. lg_file g t \<noteq> None" "distinct ts"
  shows "\<exists>g'. write_all ts data g = Some g' \<and> glog_inv tr (grown ts data acc) g'"
  using assms
proof (induction ts arbitrary: g acc)
  case Nil
  then show ?case by (simp add: grown_def)
next
  case (Cons t ts)
  then have "lg_file g t \<noteq> None" by simp
  then obtain g1 where g1: "file_Write data t g = Some g1" "glog_inv tr (grown [t] data acc) g1" "\<And>u. lg_file g1 u = None \<longleftrightarrow> lg_file g u = None"
    using file_Write_inv [OF Cons.prems(1), of t data] by blast
  have "grown ts data (grown [t] data acc) = grown (t # ts) data acc"
    using Cons.prems(3) by (auto simp: grown_def)
  then show ?case
    using Cons.IH [OF g1(2)] g1(1,3) Cons.prems by auto
qed

lemma targets_below: "t \<in> set (targets s) \<Longrightarrow> 0 \<le> s \<Longrightarrow> 0 \<le> t \<and> t \<le> s"
  by (auto simp: targets_def debugLog_def split: if_splits)

lemma distinct_targets: "distinct (targets s)"
  by (simp add: targets_def)

lemma stderr_add_inv: "glog_inv tr acc (stderr_add data g) = glog_inv tr acc g"
  by (simp add: glog_inv_def stderr_add_def)

lemma createFiles_inv:
  assumes "glog_inv tr acc g" "createFiles day nf s (lg_file g) = (True, fs)" "0 \<le> s" "s \<le> 4"
  shows "glog_inv tr acc (g\<lparr>lg_file := fs\<rparr>)" "\<And>t. 0 \<le> t \<Longrightarrow> t \<le> s \<Longrightarrow> fs t \<noteq> None"
proof -
  have "files_below s (lg_file g)"
    using glog_invD(5) [OF assms(1)] assms(4) unfolding files_below_def by (meson order_trans)
  then have c: "files_added (lg_file g) fs" "\<forall>t. 0 \<le> t \<longrightarrow> t \<le> s \<longrightarrow> fs t \<noteq> None" "\<forall>t. s < t \<longrightarrow> fs t = lg_file g t"
    using createFiles_spec [OF assms(2)] by blast+
  have acc: "file_inv (acc t) l" if "fs t = Some l" for t l
    using c(1) [unfolded files_added_def, rule_format, of t] that glog_invD(6,7) [OF assms(1), of t] file_new_inv by auto
  have none: "acc t = []" if "fs t = None" for t
    using c(1) [unfolded files_added_def, rule_format, of t] that glog_invD(6) [OF assms(1), of t] by auto
  show "glog_inv tr acc (g\<lparr>lg_file := fs\<rparr>)"
    using glog_invD(1-4) [OF assms(1)] files_below_all [OF glog_invD(5) [OF assms(1)] c] acc none by (intro glog_invI) auto
  show "\<And>t. 0 \<le> t \<Longrightarrow> t \<le> s \<Longrightarrow> fs t \<noteq> None" using c(2) by blast
qed

lemma output_files_inv:
  assumes "glog_inv tr acc g" "0 \<le> s" "s \<le> 4"
  shows "output_files env s data also g \<noteq> OutPanics"
    "output_files env s data also g = OutReturns g' \<Longrightarrow> glog_inv tr (grown (targets s) data acc) g'"
proof -
  define g1 where "g1 = (if also \<or> lg_alsoToStderr g \<or> s \<ge> lg_stderrThreshold g then stderr_add data g else g)"
  obtain ok fs where c: "(if lg_file g1 s = None then createFiles (le_day env) (le_create env) s (lg_file g1) else (True, lg_file g1)) = (ok, fs)" by fastforce
  have inv1: "glog_inv tr acc g1" using assms(1) by (simp add: g1_def stderr_add_inv)
  have out: "output_files env s data also g = (let g2 = (if ok then g1\<lparr>lg_file := fs\<rparr> else stderr_add data (g1\<lparr>lg_file := fs\<rparr>)) in
      if \<not> ok \<and> \<not> lg_exitFunc g2 then OutExits 2 g2
      else case write_all (targets s) data g2 of None \<Rightarrow> OutPanics | Some g \<Rightarrow> OutReturns g)"
    unfolding output_files_def Let_def g1_def [symmetric] c by simp
  have "output_files env s data also g \<noteq> OutPanics \<and>
      (\<forall>g'. output_files env s data also g = OutReturns g' \<longrightarrow> glog_inv tr (grown (targets s) data acc) g')"
  proof (cases ok)
    case False
    then show ?thesis
      using glog_invD(2) [OF inv1] by (simp add: out Let_def stderr_add_def)
  next
    case True
    have "glog_inv tr acc (g1\<lparr>lg_file := fs\<rparr>)" "\<And>t. 0 \<le> t \<Longrightarrow> t \<le> s \<Longrightarrow> fs t \<noteq> None"
    proof -
      show "glog_inv tr acc (g1\<lparr>lg_file := fs\<rparr>)"
        using c True createFiles_inv(1) [OF inv1 _ assms(2,3)] inv1 by (auto split: if_splits)
      show "fs t \<noteq> None" if "0 \<le> t" "t \<le> s" for t
        using c True that createFiles_inv(2) [OF inv1 _ assms(2,3)] glog_invD(5) [OF inv1] assms(3)
        by (auto simp: files_below_def split: if_splits)
    qed
    then obtain g2 where "write_all (targets s) data (g1\<lparr>lg_file := fs\<rparr>) = Some g2" "glog_inv tr (grown (targets s) data acc) g2"
      using write_all_inv [OF _ _ distinct_targets] targets_below [OF _ assms(2)] by (metis (no_types, lifting) glog.simps(1) glog.select_convs(1) glog.update_convs(1) glog.surjective)
    then show ?thesis
      by (simp add: out True)
  qed
  then show "output_files env s data also g \<noteq> OutPanics"
    "output_files env s data also g = OutReturns g' \<Longrightarrow> glog_inv tr (grown (targets s) data acc) g'" by blast+
qed

lemma write_all_present:
  assumes "\<forall>t \<in> set ts. lg_file g t \<noteq> None"
  shows "write_all ts data g \<noteq> None"
  using assms
proof (induction ts arbitrary: g)
  case (Cons t ts)
  then obtain s where "lg_file g t = Some s" by auto
  then show ?case
    using Cons by (auto simp: file_Write_def split: prod.splits)
qed simp

lemma write_trace_some: "\<exists>g'. write_trace trace g = Some g'"
proof -
  have "\<forall>t \<in> set (filter (\<lambda>t. lg_file g t \<noteq> None) ts). lg_file g t \<noteq> None" for ts by simp
  then show ?thesis
    unfolding write_trace_def using write_all_present by (metis option.exhaust)
qed

lemma output_fatal_ends: "output_fatal env g \<noteq> OutPanics" "output_fatal env g \<noteq> OutReturns g'"
proof -
  obtain g1 where "write_trace (le_stacks env) ((if \<not> lg_toStderr g then stderr_add (le_stack env) g else g)\<lparr>lg_exitFunc := True\<rparr>) = Some g1"
    using write_trace_some by blast
  then show "output_fatal env g \<noteq> OutPanics" "output_fatal env g \<noteq> OutReturns g'"
    unfolding output_fatal_def Let_def by simp_all
qed

definition with_trace :: "traceLocation \<Rightarrow> log_env \<Rightarrow> bytes \<Rightarrow> int \<Rightarrow> bytes \<Rightarrow> bytes" where
  "with_trace tr env file line data =
     data @ (if traceLocation_isSet tr \<and> traceLocation_match tr file line then le_stack env else [])"

lemma loggingT_output_inv:
  assumes "glog_inv tr acc g" "0 \<le> s" "s \<le> 4" "length (bf_tmp buf) = 64"
  shows "loggingT_output env s buf file line also g \<noteq> OutPanics"
    "loggingT_output env s buf file line also g = OutReturns g' \<Longrightarrow>
     glog_inv tr (grown (targets s) (with_trace tr env file line (bf_data buf)) acc) g'"
proof -
  let ?data = "with_trace tr env file line (bf_data buf)"
  define b where "b = (if traceLocation_isSet tr \<and> traceLocation_match tr file line then buf\<lparr>bf_data := bf_data buf @ le_stack env\<rparr> else buf)"
  have b: "bf_data b = ?data" "length (bf_tmp b) = 64"
    using assms(4) by (simp_all add: b_def with_trace_def)
  have out: "loggingT_output env s buf file line also g = (case output_files env s ?data also g of
      OutReturns g \<Rightarrow> if s = fatalLog then output_fatal env g else OutReturns (output_stats s ?data (putBuffer b g)) | e \<Rightarrow> e)"
    unfolding loggingT_output_def glog_invD(3) [OF assms(1)] b_def [symmetric] Let_def b(1) using glog_invD(1) [OF assms(1)] by simp
  show "loggingT_output env s buf file line also g \<noteq> OutPanics"
    using output_files_inv(1) [OF assms(1-3)] output_fatal_ends(1) by (auto simp: out split: output_end.split)
  assume "loggingT_output env s buf file line also g = OutReturns g'"
  then obtain g1 where g1: "output_files env s ?data also g = OutReturns g1" "g' = output_stats s ?data (putBuffer b g1)"
    using output_fatal_ends(2) by (auto simp: out split: output_end.splits if_splits)
  have inv: "glog_inv tr (grown (targets s) ?data acc) g1"
    using output_files_inv(2) [OF assms(1-3) g1(1)] .
  show "glog_inv tr (grown (targets s) ?data acc) g'"
    by (rule glog_inv_same [OF inv]) (use b(2) glog_invD(4) [OF inv] in \<open>simp_all add: g1(2) output_stats_def putBuffer_def\<close>)
qed

lemma getBuffer_inv:
  assumes "glog_inv tr acc g" "getBuffer g = (buf, g')"
  shows "glog_inv tr acc g'" "length (bf_tmp buf) = 64"
proof -
  have "glog_inv tr acc g' \<and> length (bf_tmp buf) = 64"
  proof (cases "lg_freeList g")
    case Nil
    then show ?thesis using assms by (auto simp: getBuffer_def tmp_len_def)
  next
    case (Cons b bs)
    then have g': "g' = g\<lparr>lg_freeList := bs\<rparr>" "bf_tmp buf = bf_tmp b"
      using assms(2) by (auto simp: getBuffer_def)
    show ?thesis
      using glog_invD(4) [OF assms(1)] Cons g' by (auto intro: glog_inv_same [OF assms(1)])
  qed
  then show "glog_inv tr acc g'" "length (bf_tmp buf) = 64" by simp_all
qed

lemma printWithFileLine_inv:
  assumes "glog_inv tr acc g" "0 \<le> s" "s \<le> 4" "valid_time now" "0 \<le> pid" "line < 2 ^ 63"
  shows "printWithFileLine env now pid s file line also msg g \<noteq> OutPanics"
    "printWithFileLine env now pid s file line also msg g = OutReturns g' \<Longrightarrow>
     glog_inv tr (grown (targets s) (line_text tr pid env now s file line msg) acc) g'"
proof -
  obtain buf g1 where b: "getBuffer g = (buf, g1)" by fastforce
  note inv = getBuffer_inv [OF assms(1) b]
  obtain tmp where tmp: "length tmp = 64" "formatHeader now pid s file line (bf_tmp buf) = Some (header_text now pid s file (nat line), tmp)"
    using formatHeader_ok [OF inv(2) assms(4,5,2,6)] assms(3) by auto
  let ?h = "header_text now pid s file (nat line)"
  have line: "log_line ?h msg = Some (let b = ?h @ msg in if last b \<noteq> 10 then b @ [10] else b)"
    by (auto simp: log_line_def Let_def index_at_def last_conv_nth header_text_def)
  have eq: "printWithFileLine env now pid s file line also msg g =
      loggingT_output env s \<lparr>bf_data = (let b = ?h @ msg in if last b \<noteq> 10 then b @ [10] else b), bf_tmp = tmp\<rparr> file line also g1"
    by (simp add: printWithFileLine_def b tmp(2) line)
  have whole: "with_trace tr env file line (let b = ?h @ msg in if last b \<noteq> 10 then b @ [10] else b) = line_text tr pid env now s file line msg"
    by (simp add: with_trace_def line_text_def Let_def)
  note out = loggingT_output_inv [OF inv(1) assms(2,3), of "\<lparr>bf_data = (let b = ?h @ msg in if last b \<noteq> 10 then b @ [10] else b), bf_tmp = tmp\<rparr>",
      unfolded log_buffer.simps, OF tmp(1), of env "file" line "also"]
  show "printWithFileLine env now pid s file line also msg g \<noteq> OutPanics"
    unfolding eq by (rule out(1))
  show "printWithFileLine env now pid s file line also msg g = OutReturns g' \<Longrightarrow>
      glog_inv tr (grown (targets s) (line_text tr pid env now s file line msg) acc) g'"
    unfolding eq whole [symmetric] by (rule out(2))
qed

text \<open>\<open>Exit\<close> does not return.\<close>

lemma Exit_ends:
  assumes "glog_inv tr acc g" "valid_time now" "0 \<le> pid" "snd (header_place caller) < 2 ^ 63"
  shows "\<exists>n g'. Exit env now pid caller msg g = OutExits n g'"
proof -
  obtain fl line where c: "header_place caller = (fl, line)" by fastforce
  let ?g = "g\<lparr>lg_fatalNoStacks := True\<rparr>"
  have inv: "glog_inv tr acc ?g" using assms(1) by (simp add: glog_inv_def)
  have "loggingT_output env fatalLog b fl line False g1 \<noteq> OutReturns g'" for b g1 g'
    using output_fatal_ends(2) by (auto simp: loggingT_output_def Let_def split: output_end.splits)
  then have "printWithFileLine env now pid fatalLog fl line False msg ?g \<noteq> OutReturns g'" for g'
    by (auto simp: printWithFileLine_def split: prod.splits option.splits)
  moreover have "printWithFileLine env now pid fatalLog fl line False msg ?g \<noteq> OutPanics"
    using printWithFileLine_inv(1) [OF inv _ _ assms(2,3)] assms(4) c by simp
  ultimately show ?thesis
    unfolding Exit_def printDepth_def c by (cases "printWithFileLine env now pid fatalLog fl line False msg ?g") auto
qed

lemma grown_lines:
  "grown (targets s) (line_text tr pid env now s file line msg) acc = (\<lambda>t. acc t @ lines_for tr pid t (EvPrint env now s file line also msg))"
  by (auto simp: grown_def)

lemma glog_step_inv:
  assumes "glog_inv tr acc g" "ev_ok e" "0 \<le> pid" "glog_step pid e g = Some r"
  shows "r \<noteq> OutPanics" "r = OutReturns g' \<Longrightarrow> glog_inv tr (\<lambda>t. acc t @ lines_for tr pid t e) g'"
proof -
  have "r \<noteq> OutPanics \<and> (r = OutReturns g' \<longrightarrow> glog_inv tr (\<lambda>t. acc t @ lines_for tr pid t e) g')"
  proof (cases e)
    case (EvPrint env now s fl line als msg)
    then have ok: "0 \<le> s" "s \<le> 4" "valid_time now" "line < 2 ^ 63" and r: "r = printWithFileLine env now pid s fl line als msg g"
      using assms(2,4) by auto
    show ?thesis
      using printWithFileLine_inv [OF assms(1) ok(1-3) assms(3) ok(4), of env fl als msg] unfolding r EvPrint grown_lines [of s tr pid env now fl line msg acc als] by blast
  next
    case (EvFlush t op)
    then obtain s s' where s: "lg_file g t = Some s" "file_step op s = Some s'" "\<not> is_FileWrite op" "r = OutReturns (g\<lparr>lg_file := (lg_file g)(t \<mapsto> s')\<rparr>)"
      using assms(4) by (auto split: if_splits option.splits)
    have "file_accepted op = []" using s(3) by (cases op) auto
    then have "file_inv (acc t) s'"
      using file_step_inv [OF glog_invD(7) [OF assms(1) s(1)] s(2)] by simp
    then have "glog_inv tr acc (g\<lparr>lg_file := (lg_file g)(t \<mapsto> s')\<rparr>)"
      using glog_invD [OF assms(1)] s(1) by (intro glog_invI) (auto simp: files_below_def split: if_splits)
    then show ?thesis
      by (auto simp: EvFlush s(4))
  qed
  then show "r \<noteq> OutPanics" "r = OutReturns g' \<Longrightarrow> glog_inv tr (\<lambda>t. acc t @ lines_for tr pid t e) g'" by blast+
qed

lemma glog_run_inv:
  assumes "glog_inv tr acc g" "\<forall>e \<in> set es. ev_ok e" "0 \<le> pid" "glog_run pid es g = Some r"
  shows "r \<noteq> OutPanics \<and> (\<forall>g'. r = OutReturns g' \<longrightarrow> glog_inv tr (\<lambda>t. acc t @ concat (map (lines_for tr pid t) es)) g')"
  using assms
proof (induction es arbitrary: g acc)
  case Nil
  then show ?case by auto
next
  case (Cons e es)
  then obtain r1 where r1: "glog_step pid e g = Some r1" by (auto split: option.splits)
  note step = glog_step_inv [OF Cons.prems(1) _ assms(3) r1]
  show ?case
  proof (cases r1)
    case (OutReturns g1)
    then show ?thesis
      using Cons.IH [of "\<lambda>t. acc t @ lines_for tr pid t e" g1] step(2) Cons.prems r1 by simp
  next
    case (OutExits n g1)
    then show ?thesis using Cons.prems r1 by (auto split: if_splits)
  next
    case OutPanics
    then show ?thesis using step(1) Cons.prems by simp
  qed
qed

lemma glog_new_inv: "\<not> lg_toStderr flags \<Longrightarrow> glog_inv (lg_traceLocation flags) (\<lambda>t. []) (glog_new flags)"
  by (simp add: glog_inv_def glog_new_def files_below_def loggingT.extend_def glog.fields_def)


lemmas glog_eval = printWithFileLine_def getBuffer_def log_line_def index_at_def loggingT_output_def output_files_def stderr_add_def
  createFiles.simps rotateFile_def new_syncBuffer_def new_blockbuf_def file_Write_def syncBuffer_Write_def MsgLineSize_def bufferSize_def copy_block_def
  targets_def debugLog_def traceLocation_isSet_def output_stats_def putBuffer_def glog_new_def flags_new_def setVState_def to_int32_def
  loggingT.extend_def glog.fields_def tmp_len_def

lemma header_example:
  "\<exists>tmp. formatHeader \<lparr>lt_month = 3, lt_day = 14, lt_hour = 15, lt_minute = 9, lt_second = 26, lt_nanosecond = 535897932\<rparr> 1234 1 (lit ''a.go'') 57
      (replicate 64 0) = Some (lit ''W0314 15:09:26.535897    1234 a.go:57] '', tmp)"
proof -
  let ?now = "\<lparr>lt_month = 3, lt_day = 14, lt_hour = 15, lt_minute = 9, lt_second = 26, lt_nanosecond = 535897932\<rparr>"
  have r: "replicate 3 (32 :: byte) = [32, 32, 32]" by (simp add: numeral_3_eq_3)
  have "header_text ?now 1234 1 (lit ''a.go'') 57 = lit ''W0314 15:09:26.535897    1234 a.go:57] ''"
    by (simp add: header_text_def stamp_text_def two_def padded_def nat_digits.simps digit_def severityChar_def Let_def r)
  then show ?thesis
    using formatHeader_ok [of "replicate 64 0" ?now 1234 1 57 "lit ''a.go''"] by (auto simp: valid_time_def)
qed


end
