(* ===== verification/Proto_Wire.thy ===== *)
theory Proto_Wire
  imports Go_Prelude
begin

text \<open>
  The wire format of protocol buffers, the fundamental encoders, sizers and decoders of \<open>lib/proto/encode.go\<close> and \<open>lib/proto/decode.go\<close> over the
  \<open>Buffer\<close> of \<open>lib/proto/lib.go\<close>, and \<open>skip\<close>, which passes over a field of any wire type.  The pools of the buffer only save allocations and are left out.
\<close>

section \<open>Buffers\<close>

record Buffer =
  pb_buf :: bytes
  pb_index :: nat

definition NewBuffer :: "bytes \<Rightarrow> Buffer" where
  "NewBuffer e = \<lparr>pb_buf = e, pb_index = 0\<rparr>"

definition Buffer_Reset :: "Buffer \<Rightarrow> Buffer" where
  "Buffer_Reset p = p\<lparr>pb_buf := [], pb_index := 0\<rparr>"

definition Buffer_SetBuf :: "bytes \<Rightarrow> Buffer \<Rightarrow> Buffer" where
  "Buffer_SetBuf s p = p\<lparr>pb_buf := s, pb_index := 0\<rparr>"

definition Buffer_append :: "bytes \<Rightarrow> Buffer \<Rightarrow> Buffer" where
  "Buffer_append b p = p\<lparr>pb_buf := pb_buf p @ b\<rparr>"

datatype proto_error =
  ErrUnexpectedEOF | ErrOverflow | ErrByteLength | ErrSkipWireType | ErrNil | ErrRepeatedHasNil | RequiredNotSetError bytes |
  ErrEndGroup | ErrIllegalTag | ErrBadWireType | ErrHasNilElement bytes

definition WireVarint :: int where "WireVarint = 0"
definition WireFixed64 :: int where "WireFixed64 = 1"
definition WireBytes :: int where "WireBytes = 2"
definition WireStartGroup :: int where "WireStartGroup = 3"
definition WireEndGroup :: int where "WireEndGroup = 4"
definition WireFixed32 :: int where "WireFixed32 = 5"

lemmas wire_defs = WireVarint_def WireFixed64_def WireBytes_def WireStartGroup_def WireEndGroup_def WireFixed32_def

section \<open>Encoders\<close>

definition maxVarintBytes :: nat where "maxVarintBytes = 10"

lemma unat_drop_bit_7: "unat (drop_bit 7 (x :: 64 word)) = unat x div 128"
  by (simp add: drop_bit_eq_div unat_div)

lemma drop_bit_7_less: "(127 :: 64 word) < x \<Longrightarrow> unat (drop_bit 7 x) < unat x"
  by (simp add: unat_drop_bit_7 word_less_nat_alt)

function EncodeVarint_loop :: "nat \<Rightarrow> 64 word \<Rightarrow> bytes \<Rightarrow> bytes option" where
  "EncodeVarint_loop n x buf =
     (if x > 127
      then set_at buf n (0x80 OR ucast (x AND 0x7F)) \<bind> EncodeVarint_loop (n + 1) (drop_bit 7 x)
      else set_at buf n (ucast x) \<bind> (\<lambda>buf. slice buf 0 (n + 1)))"
  by pat_completeness auto
termination
  by (relation "measure (\<lambda>(n, x, buf). unat x)") (auto intro: drop_bit_7_less)

declare EncodeVarint_loop.simps [simp del]

definition EncodeVarint :: "64 word \<Rightarrow> bytes option" where
  "EncodeVarint x = EncodeVarint_loop 0 x (replicate maxVarintBytes 0)"

function Buffer_EncodeVarint :: "64 word \<Rightarrow> Buffer \<Rightarrow> Buffer" where
  "Buffer_EncodeVarint x p =
     (if x \<ge> 128 then Buffer_EncodeVarint (drop_bit 7 x) (Buffer_append [ucast (x AND 0x7F OR 0x80)] p)
      else Buffer_append [ucast x] p)"
  by pat_completeness auto
termination
  by (relation "measure (\<lambda>(x, p). unat x)") (auto intro!: drop_bit_7_less simp: word_less_nat_alt word_le_nat_alt)

declare Buffer_EncodeVarint.simps [simp del]

function sizeVarint_loop :: "nat \<Rightarrow> 64 word \<Rightarrow> nat" where
  "sizeVarint_loop n x = (let n = n + 1; x = drop_bit 7 x in if x = 0 then n else sizeVarint_loop n x)"
  by pat_completeness auto
termination
proof (relation "measure (\<lambda>(n, x). unat x)")
  fix n :: nat and x :: "64 word" and m y
  assume "m = n + 1" and y: "y = drop_bit 7 x" "y \<noteq> 0"
  then have "unat x div 128 \<noteq> 0" by (metis unat_drop_bit_7 unat_eq_0)
  then show "((m, y), (n, x)) \<in> measure (\<lambda>(n, x). unat x)"
    by (simp add: y(1) unat_drop_bit_7)
qed simp

declare sizeVarint_loop.simps [simp del]

definition sizeVarint :: "64 word \<Rightarrow> nat" where
  "sizeVarint x = sizeVarint_loop 0 x"

definition Buffer_EncodeFixed64 :: "64 word \<Rightarrow> Buffer \<Rightarrow> Buffer" where
  "Buffer_EncodeFixed64 x p = Buffer_append
     [ucast x, ucast (drop_bit 8 x), ucast (drop_bit 16 x), ucast (drop_bit 24 x),
      ucast (drop_bit 32 x), ucast (drop_bit 40 x), ucast (drop_bit 48 x), ucast (drop_bit 56 x)] p"

definition sizeFixed64 :: "64 word \<Rightarrow> nat" where "sizeFixed64 x = 8"

definition Buffer_EncodeFixed32 :: "64 word \<Rightarrow> Buffer \<Rightarrow> Buffer" where
  "Buffer_EncodeFixed32 x p = Buffer_append [ucast x, ucast (drop_bit 8 x), ucast (drop_bit 16 x), ucast (drop_bit 24 x)] p"

definition sizeFixed32 :: "64 word \<Rightarrow> nat" where "sizeFixed32 x = 4"

definition zigzag64 :: "64 word \<Rightarrow> 64 word" where
  "zigzag64 x = push_bit 1 x XOR signed_drop_bit 63 x"

definition Buffer_EncodeZigzag64 :: "64 word \<Rightarrow> Buffer \<Rightarrow> Buffer" where
  "Buffer_EncodeZigzag64 x p = Buffer_EncodeVarint (zigzag64 x) p"

definition sizeZigzag64 :: "64 word \<Rightarrow> nat" where "sizeZigzag64 x = sizeVarint (zigzag64 x)"

definition zigzag32 :: "64 word \<Rightarrow> 64 word" where
  "zigzag32 x = ucast (push_bit 1 (ucast x :: 32 word) XOR signed_drop_bit 31 (ucast x :: 32 word))"

definition Buffer_EncodeZigzag32 :: "64 word \<Rightarrow> Buffer \<Rightarrow> Buffer" where
  "Buffer_EncodeZigzag32 x p = Buffer_EncodeVarint (zigzag32 x) p"

definition sizeZigzag32 :: "64 word \<Rightarrow> nat" where "sizeZigzag32 x = sizeVarint (zigzag32 x)"

definition Buffer_EncodeRawBytes :: "bytes \<Rightarrow> Buffer \<Rightarrow> Buffer" where
  "Buffer_EncodeRawBytes b p = Buffer_append b (Buffer_EncodeVarint (of_nat (length b)) p)"

definition sizeRawBytes :: "bytes \<Rightarrow> nat" where
  "sizeRawBytes b = sizeVarint (of_nat (length b)) + length b"

definition Buffer_EncodeStringBytes :: "bytes \<Rightarrow> Buffer \<Rightarrow> Buffer" where
  "Buffer_EncodeStringBytes s p = Buffer_append s (Buffer_EncodeVarint (of_nat (length s)) p)"

definition sizeStringBytes :: "bytes \<Rightarrow> nat" where
  "sizeStringBytes s = sizeVarint (of_nat (length s)) + length s"

section \<open>Decoders\<close>

function DecodeVarint_loop :: "bytes \<Rightarrow> nat \<Rightarrow> nat \<Rightarrow> 64 word \<Rightarrow> 64 word \<times> nat" where
  "DecodeVarint_loop buf shift n x =
     (if shift < 64
      then (if n \<ge> length buf then (0, 0)
            else
              let b = ucast (buf ! n);
                  n = n + 1;
                  x = x OR push_bit shift (b AND 0x7F) in
              if b AND 0x80 = 0 then (x, n) else DecodeVarint_loop buf (shift + 7) n x)
      else (0, 0))"
  by pat_completeness auto
termination
  by (relation "measure (\<lambda>(buf, shift, n, x). 64 - shift)") auto

declare DecodeVarint_loop.simps [simp del]

definition DecodeVarint :: "bytes \<Rightarrow> 64 word \<times> nat" where
  "DecodeVarint buf = DecodeVarint_loop buf 0 0 0"

function Buffer_DecodeVarint_loop :: "Buffer \<Rightarrow> nat \<Rightarrow> nat \<Rightarrow> 64 word \<Rightarrow> (proto_error + 64 word) \<times> Buffer" where
  "Buffer_DecodeVarint_loop p shift i x =
     (if shift < 64
      then (if i \<ge> length (pb_buf p) then (Inl ErrUnexpectedEOF, p)
            else
              let b = pb_buf p ! i;
                  i = i + 1;
                  x = x OR push_bit shift (ucast b AND 0x7F) in
              if b < 0x80 then (Inr x, p\<lparr>pb_index := i\<rparr>) else Buffer_DecodeVarint_loop p (shift + 7) i x)
      else (Inl ErrOverflow, p))"
  by pat_completeness auto
termination
  by (relation "measure (\<lambda>(p, shift, i, x). 64 - shift)") auto

declare Buffer_DecodeVarint_loop.simps [simp del]

definition Buffer_DecodeVarint :: "Buffer \<Rightarrow> (proto_error + 64 word) \<times> Buffer" where
  "Buffer_DecodeVarint p = Buffer_DecodeVarint_loop p 0 (pb_index p) 0"

text \<open>The lengths of slices are far below the largest \<open>int\<close>, so that \<open>i < 0\<close> can not be.\<close>

definition Buffer_DecodeFixed64 :: "Buffer \<Rightarrow> (proto_error + 64 word) \<times> Buffer" where
  "Buffer_DecodeFixed64 p =
     (let i = pb_index p + 8 in
      if i > length (pb_buf p) then (Inl ErrUnexpectedEOF, p)
      else
        let at = (\<lambda>k. ucast (pb_buf p ! (i - k))) in
        (Inr (at 8 OR push_bit 8 (at 7) OR push_bit 16 (at 6) OR push_bit 24 (at 5) OR
              push_bit 32 (at 4) OR push_bit 40 (at 3) OR push_bit 48 (at 2) OR push_bit 56 (at 1)), p\<lparr>pb_index := i\<rparr>))"

definition Buffer_DecodeFixed32 :: "Buffer \<Rightarrow> (proto_error + 64 word) \<times> Buffer" where
  "Buffer_DecodeFixed32 p =
     (let i = pb_index p + 4 in
      if i > length (pb_buf p) then (Inl ErrUnexpectedEOF, p)
      else
        let at = (\<lambda>k. ucast (pb_buf p ! (i - k))) in
        (Inr (at 4 OR push_bit 8 (at 3) OR push_bit 16 (at 2) OR push_bit 24 (at 1)), p\<lparr>pb_index := i\<rparr>))"

definition unzigzag64 :: "64 word \<Rightarrow> 64 word" where
  "unzigzag64 x = drop_bit 1 x XOR signed_drop_bit 63 (push_bit 63 (x AND 1))"

definition Buffer_DecodeZigzag64 :: "Buffer \<Rightarrow> (proto_error + 64 word) \<times> Buffer" where
  "Buffer_DecodeZigzag64 p = (case Buffer_DecodeVarint p of
     (Inl err, p) \<Rightarrow> (Inl err, p)
   | (Inr x, p) \<Rightarrow> (Inr (unzigzag64 x), p))"

definition unzigzag32 :: "64 word \<Rightarrow> 64 word" where
  "unzigzag32 x = ucast (drop_bit 1 (ucast x :: 32 word) XOR signed_drop_bit 31 (push_bit 31 (ucast (x AND 1) :: 32 word)))"

definition Buffer_DecodeZigzag32 :: "Buffer \<Rightarrow> (proto_error + 64 word) \<times> Buffer" where
  "Buffer_DecodeZigzag32 p = (case Buffer_DecodeVarint p of
     (Inl err, p) \<Rightarrow> (Inl err, p)
   | (Inr x, p) \<Rightarrow> (Inr (unzigzag32 x), p))"

text \<open>
  \<open>DecodeRawBytes\<close>, where \<open>end\<close> is computed modulo \<open>2 ^ 64\<close>.  A copy and a slice of the buffer are the same bytes.
\<close>

definition Buffer_DecodeRawBytes :: "bool \<Rightarrow> Buffer \<Rightarrow> (proto_error + bytes) \<times> Buffer" where
  "Buffer_DecodeRawBytes alloc p = (case Buffer_DecodeVarint p of
     (Inl err, p) \<Rightarrow> (Inl err, p)
   | (Inr n, p) \<Rightarrow>
       (let nb = sint n in
        if nb < 0 then (Inl ErrByteLength, p)
        else
          let en = sint (of_nat (pb_index p) + n) in
          if en < int (pb_index p) \<or> en > int (length (pb_buf p)) then (Inl ErrUnexpectedEOF, p)
          else if \<not> alloc
          then (Inr (take (nat (en - int (pb_index p))) (drop (pb_index p) (pb_buf p))), p\<lparr>pb_index := pb_index p + nat nb\<rparr>)
          else (Inr (take (nat nb) (drop (pb_index p) (pb_buf p))), p\<lparr>pb_index := pb_index p + nat nb\<rparr>)))"

definition Buffer_DecodeStringBytes :: "Buffer \<Rightarrow> (proto_error + bytes) \<times> Buffer" where
  "Buffer_DecodeStringBytes p = Buffer_DecodeRawBytes False p"

text \<open>
  \<open>skip\<close>: the first argument bounds the nesting and the fields, \<open>None\<close> is running out of it.  The result is the error, if any.
\<close>

definition drop_value :: "(proto_error + 'a) \<times> Buffer \<Rightarrow> (proto_error option \<times> Buffer) option" where
  "drop_value r = (case r of (Inl err, p) \<Rightarrow> Some (Some err, p) | (Inr v, p) \<Rightarrow> Some (None, p))"

fun skip_fuel :: "nat \<Rightarrow> int \<Rightarrow> Buffer \<Rightarrow> (proto_error option \<times> Buffer) option"
  and skip_group :: "nat \<Rightarrow> Buffer \<Rightarrow> (proto_error option \<times> Buffer) option" where
  "skip_fuel 0 wire p = None"
| "skip_fuel (Suc n) wire p =
     (if wire = WireVarint then drop_value (Buffer_DecodeVarint p)
      else if wire = WireFixed64 then drop_value (Buffer_DecodeFixed64 p)
      else if wire = WireBytes then drop_value (Buffer_DecodeRawBytes False p)
      else if wire = WireFixed32 then drop_value (Buffer_DecodeFixed32 p)
      else if wire = WireStartGroup then skip_group n p
      else Some (Some ErrSkipWireType, p))"
| "skip_group 0 p = None"
| "skip_group (Suc n) p = (case Buffer_DecodeVarint p of
     (Inl err, p) \<Rightarrow> Some (Some err, p)
   | (Inr u, p) \<Rightarrow>
       (let fwire = uint (u AND 0x7) in
        if fwire = WireEndGroup then Some (None, p)
        else case skip_fuel n fwire p of
          None \<Rightarrow> None
        | Some (Some err, p) \<Rightarrow> Some (Some err, p)
        | Some (None, p) \<Rightarrow> skip_group n p))"

definition skip :: "int \<Rightarrow> Buffer \<Rightarrow> (proto_error option \<times> Buffer) option" where
  "skip wire p = skip_fuel (2 * length (pb_buf p) + 2) wire p"

section \<open>Varints\<close>

text \<open>The varint of a number.\<close>

function varint :: "64 word \<Rightarrow> bytes" where
  "varint x = (if x < 128 then [ucast x] else ucast (x AND 0x7F OR 0x80) # varint (drop_bit 7 x))"
  by pat_completeness auto
termination
  by (relation "measure unat") (auto simp: word_less_nat_alt unat_drop_bit_7)

declare varint.simps [simp del]

lemma Buffer_EncodeVarint_eq: "Buffer_EncodeVarint x p = Buffer_append (varint x) p"
proof (induction x arbitrary: p rule: varint.induct)
  case (1 x)
  then show ?case
    by (simp add: Buffer_EncodeVarint.simps [of x] varint.simps [of x] Buffer_append_def not_less)
qed

lemma length_varint_pos [simp]: "varint x \<noteq> []" "0 < length (varint x)"
  by (simp_all add: varint.simps [of x])

lemma length_varint: "0 < k \<Longrightarrow> unat x < 2 ^ (7 * k) \<Longrightarrow> length (varint x) \<le> k"
proof (induction x arbitrary: k rule: varint.induct)
  case (1 x)
  show ?case
  proof (cases "x < 128")
    case True
    then show ?thesis using 1(2) by (simp add: varint.simps [of x])
  next
    case False
    then obtain j where j: "k = Suc (Suc j)"
      using 1(2,3) by (cases k; cases "k - 1") (auto simp: word_less_nat_alt)
    then have "unat (drop_bit 7 x) < 2 ^ (7 * Suc j)"
      using 1(3) by (simp add: unat_drop_bit_7 power_add less_mult_imp_div_less)
    then show ?thesis
      using 1(1) [OF False, of "Suc j"] False j by (simp add: varint.simps [of x])
  qed
qed

lemma length_varint_10: "length (varint x) \<le> maxVarintBytes"
  using length_varint [of 10 x] unat_bound64 [of x] by (simp add: maxVarintBytes_def)

lemma sizeVarint_loop_eq: "sizeVarint_loop n x = n + length (varint x)"
proof (induction x arbitrary: n rule: varint.induct)
  case (1 x)
  have "drop_bit 7 x = 0 \<longleftrightarrow> x < 128"
    using unat_drop_bit_7 [of x] by (simp add: word_less_nat_alt unat_eq_0 [symmetric] div_eq_0_iff)
  then show ?case
    using 1 by (simp add: sizeVarint_loop.simps [of n] varint.simps [of x] Let_def)
qed

lemma sizeVarint_eq: "sizeVarint x = length (varint x)"
  by (simp add: sizeVarint_def sizeVarint_loop_eq)

text \<open>The two ways to look at the continuation bit, and the value of a byte.\<close>

lemma high_bit: "(ucast (b :: byte) :: 64 word) AND 0x80 = 0 \<longleftrightarrow> b < 0x80"
proof -
  have "(ucast b :: 64 word) AND 0x80 = 0 \<longleftrightarrow> \<not> bit b 7"
    using and_exp_eq_0_iff_not_bit [of "ucast b :: 64 word" 7] by (simp add: bit_simps)
  moreover have "\<not> bit b 7 \<longleftrightarrow> b < 0x80"
  proof -
    have "bit b 7 \<longleftrightarrow> bit (unat b) 7" by (simp add: bit_unsigned_iff)
    moreover have "unat b div 128 = (if unat b < 128 then 0 else 1)"
      using unat_bound [of b] by (simp add: div_nat_eqI)
    ultimately show ?thesis
      by (simp add: bit_iff_odd word_less_nat_alt)
  qed
  ultimately show ?thesis by simp
qed

lemma mask7: "(0x7F :: 'a::len word) = mask 7" "(0x80 :: 'a::len word) = 2 ^ 7"
  by (simp_all add: mask_eq_exp_minus_1)

lemma low_bits_last: "y < 128 \<Longrightarrow> (ucast (ucast (y :: 64 word) :: byte) :: 64 word) AND 0x7F = y"
  unfolding mask7(1) take_bit_eq_mask [symmetric]
proof -
  assume "y < 128"
  then have "take_bit 7 y = y"
    by (simp add: word_unat_eq_iff word_less_nat_alt unsigned_take_bit_eq take_bit_nat_eq_self)
  moreover have "take_bit 7 (ucast (ucast y :: byte) :: 64 word) = take_bit 7 y"
    by (rule bit_word_eqI) (auto simp: bit_simps)
  ultimately show "take_bit 7 (ucast (ucast y :: byte) :: 64 word) = y" by simp
qed

lemma low_bits_more: "(ucast (ucast ((y :: 64 word) AND 0x7F OR 0x80) :: byte) :: 64 word) AND 0x7F = y AND 0x7F"
proof -
  have "(ucast (ucast (y AND mask k OR 2 ^ k) :: byte) :: 64 word) AND mask k = y AND mask k" if "k < 8" for k
    using that unfolding take_bit_eq_mask [symmetric] by (intro bit_word_eqI) (auto simp: bit_simps)
  from this [of 7] show ?thesis unfolding mask7 by simp
qed

lemma byte_last: "y < 128 \<Longrightarrow> (ucast (y :: 64 word) :: byte) < 0x80"
  by (simp add: word_less_nat_alt unsigned_ucast_eq take_bit_nat_eq_self)

lemma byte_more: "\<not> (ucast ((y :: 64 word) AND 0x7F OR 0x80) :: byte) < 0x80"
proof -
  have "bit (ucast (y AND 0x7F OR 0x80) :: byte) 7"
    unfolding mask7 by (simp add: bit_simps)
  then show ?thesis
    using and_exp_eq_0_iff_not_bit [of "ucast (ucast (y AND 0x7F OR 0x80) :: byte) :: 64 word" 7]
    by (simp add: high_bit [symmetric] bit_simps)
qed

lemma shift_parts: "push_bit n (y AND 0x7F) OR push_bit (n + 7) (drop_bit 7 y) = push_bit n (y :: 64 word)"
proof -
  have "take_bit 7 y OR push_bit 7 (drop_bit 7 y) = y"
    by (rule bit_word_eqI) (auto simp: bit_simps, metis le_add_diff_inverse not_less)
  then have "push_bit n (take_bit 7 y OR push_bit 7 (drop_bit 7 y)) = push_bit n y" by simp
  then show ?thesis
    unfolding mask7(1) take_bit_eq_mask [symmetric] by (simp only: push_bit_or push_bit_push_bit)
qed

lemma varint_decode_loop:
  assumes "pb_buf p = pre @ varint y @ rest" "unat y < 2 ^ (64 - shift)" "shift < 64"
  shows "Buffer_DecodeVarint_loop p shift (length pre) acc =
    (Inr (acc OR push_bit shift y), p\<lparr>pb_index := length pre + length (varint y)\<rparr>)"
  using assms
proof (induction y arbitrary: pre shift acc rule: varint.induct)
  case (1 y)
  show ?case
  proof (cases "y < 128")
    case True
    then have "varint y = [ucast y]" by (simp add: varint.simps [of y])
    then show ?thesis
      using 1(2,4) low_bits_last [OF True] byte_last [OF True]
      by (simp add: Buffer_DecodeVarint_loop.simps [of p shift] Let_def del: push_bit_and)
  next
    case False
    let ?b = "ucast (y AND 0x7F OR 0x80) :: byte" and ?y = "drop_bit 7 y"
    have v: "varint y = ?b # varint ?y" using False by (simp add: varint.simps [of y])
    have "128 \<le> unat y" using False by (simp add: word_less_nat_alt)
    moreover have "(2::nat) ^ (64 - shift) \<le> 2 ^ 7" if "\<not> 7 < 64 - shift"
      using that by (intro power_increasing) auto
    ultimately have "7 < 64 - shift"
      using 1(3) by (cases "7 < 64 - shift") auto
    then have s: "shift + 7 < 64" by simp
    have e: "64 - shift = 7 + (64 - (shift + 7))" using s by simp
    have "(2::nat) ^ (64 - shift) = 2 ^ 7 * 2 ^ (64 - (shift + 7))" by (subst e) (rule power_add)
    then have "(2::nat) ^ (64 - shift) = 128 * 2 ^ (64 - (shift + 7))" by simp
    then have "unat y < 2 ^ (64 - (shift + 7)) * 128" using 1(3) by (simp only: mult.commute)
    then have y: "unat ?y < 2 ^ (64 - (shift + 7))"
      unfolding unat_drop_bit_7 by (rule less_mult_imp_div_less)
    have p: "pb_buf p = (pre @ [?b]) @ varint ?y @ rest" using 1(2) v by simp
    have nth: "pb_buf p ! length pre = ?b" "length pre < length (pb_buf p)"
      by (simp_all add: p del: append_assoc) (simp_all add: nth_append)
    have "Buffer_DecodeVarint_loop p shift (length pre) acc =
        Buffer_DecodeVarint_loop p (shift + 7) (length (pre @ [?b])) (acc OR push_bit shift (ucast ?b AND 0x7F))"
      using nth 1(4) byte_more [of y] by (subst Buffer_DecodeVarint_loop.simps) (simp only: Let_def if_True if_False not_False_eq_True not_le [symmetric] length_append_singleton Suc_eq_plus1)
    also have "\<dots> = (Inr ((acc OR push_bit shift (y AND 0x7F)) OR push_bit (shift + 7) ?y), p\<lparr>pb_index := length (pre @ [?b]) + length (varint ?y)\<rparr>)"
      unfolding low_bits_more by (rule 1(1) [OF False p y s])
    finally show ?thesis
      unfolding or.assoc shift_parts by (simp only: v length_append list.size length_append_singleton add.assoc add_Suc add_Suc_right add_0 add_0_right)
  qed
qed

lemma Buffer_DecodeVarint_varint:
  assumes "pb_buf p = pre @ varint x @ rest" "pb_index p = length pre"
  shows "Buffer_DecodeVarint p = (Inr x, p\<lparr>pb_index := length pre + length (varint x)\<rparr>)"
  using varint_decode_loop [OF assms(1), of 0 0] unat_bound64 [of x] assms(2) by (simp add: Buffer_DecodeVarint_def)

text \<open>The function on a slice and the method on a buffer read the same; only the kind of the error is lost.\<close>

lemma DecodeVarint_loop_eq:
  "DecodeVarint_loop buf shift n x =
     (case Buffer_DecodeVarint_loop \<lparr>pb_buf = buf, pb_index = i\<rparr> shift n x of (Inl err, p) \<Rightarrow> (0, 0) | (Inr v, p) \<Rightarrow> (v, pb_index p))"
proof (induction buf shift n x rule: DecodeVarint_loop.induct)
  case (1 buf shift n x)
  then show ?case
    by (subst DecodeVarint_loop.simps, subst Buffer_DecodeVarint_loop.simps) (simp add: Let_def high_bit del: push_bit_and)
qed

lemma DecodeVarint_eq:
  "DecodeVarint buf = (case Buffer_DecodeVarint (NewBuffer buf) of (Inl err, p) \<Rightarrow> (0, 0) | (Inr v, p) \<Rightarrow> (v, pb_index p))"
  using DecodeVarint_loop_eq [of buf 0 0 0 0] by (simp add: DecodeVarint_def Buffer_DecodeVarint_def NewBuffer_def)

lemma EncodeVarint_loop_eq:
  "n + length (varint x) \<le> length buf \<Longrightarrow> EncodeVarint_loop n x buf = Some (take n buf @ varint x)"
proof (induction n x buf rule: EncodeVarint_loop.induct)
  case (1 n x buf)
  show ?case
  proof (cases "x > 127")
    case True
    then have v: "varint x = ucast (x AND 0x7F OR 0x80) # varint (drop_bit 7 x)"
      by (simp add: varint.simps [of x] word_less_nat_alt)
    have b: "0x80 OR ucast (x AND 0x7F) = (ucast (x AND 0x7F OR 0x80) :: byte)"
      by (rule bit_word_eqI) (auto simp: bit_simps)
    show ?thesis
      using 1 True v
      by (subst EncodeVarint_loop.simps) (simp add: b set_at_Some take_Suc_conv_app_nth)
  next
    case False
    then have v: "varint x = [ucast x]"
      by (simp add: varint.simps [of x] word_less_nat_alt)
    show ?thesis
      using 1(2) False v
      by (subst EncodeVarint_loop.simps) (simp add: set_at_Some slice_Some take_Suc_conv_app_nth)
  qed
qed

lemma EncodeVarint_eq: "EncodeVarint x = Some (varint x)"
  using EncodeVarint_loop_eq [of 0 x "replicate maxVarintBytes 0"] length_varint_10 [of x] by (simp add: EncodeVarint_def)

section \<open>The other encodings\<close>

lemma bit_zigzag64: "bit (zigzag64 x) n \<longleftrightarrow> n < 64 \<and> ((1 \<le> n \<and> bit x (n - 1)) \<noteq> bit x 63)"
  by (cases "n = 0"; simp only: zigzag64_def bit_xor_iff bit_push_bit_iff bit_signed_drop_bit_iff) (auto simp: min_def bit_simps dest: bit_imp_le_length)

lemma bit_unzigzag64: "bit (unzigzag64 y) n \<longleftrightarrow> n < 64 \<and> (bit y (1 + n) \<noteq> bit y 0)"
  by (cases "n = 0"; simp only: unzigzag64_def bit_xor_iff bit_drop_bit_eq o_apply bit_push_bit_iff bit_signed_drop_bit_iff bit_and_iff)
    (auto simp: min_def bit_simps dest: bit_imp_le_length)

lemma zigzag64_inverse: "unzigzag64 (zigzag64 x) = x"
proof (rule bit_word_eqI)
  fix n assume "n < LENGTH(64)"
  then have "n < 63 \<or> n = 63" by auto
  then show "bit (unzigzag64 (zigzag64 x)) n = bit x n" by (auto simp: bit_unzigzag64 bit_zigzag64)
qed

lemma bit_zigzag32: "bit (zigzag32 x) n \<longleftrightarrow> n < 32 \<and> ((1 \<le> n \<and> bit x (n - 1)) \<noteq> bit x 31)"
  by (cases "n = 0"; simp only: zigzag32_def bit_ucast_iff bit_xor_iff bit_push_bit_iff bit_signed_drop_bit_iff) (auto simp: min_def bit_simps dest: bit_imp_le_length)

lemma bit_unzigzag32: "bit (unzigzag32 y) n \<longleftrightarrow> n < 32 \<and> ((n < 31 \<and> bit y (1 + n)) \<noteq> bit y 0)"
  by (cases "n = 0"; simp only: unzigzag32_def bit_ucast_iff bit_xor_iff bit_drop_bit_eq o_apply bit_push_bit_iff bit_signed_drop_bit_iff bit_and_iff)
    (auto simp: min_def bit_simps dest: bit_imp_le_length)

lemma zigzag32_inverse: "unzigzag32 (zigzag32 x) = ucast (ucast x :: 32 word)"
proof (rule bit_word_eqI)
  fix n :: nat
  consider "n < 31" | "n = 31" | "32 \<le> n" by linarith
  then show "bit (unzigzag32 (zigzag32 x)) n = bit (ucast (ucast x :: 32 word) :: 64 word) n"
    by cases (auto simp: bit_unzigzag32 bit_zigzag32 bit_simps)
qed

lemma fixed_bytes:
  "[ucast x, ucast (drop_bit 8 x), ucast (drop_bit 16 x), ucast (drop_bit 24 x)] = le_bytes 4 (x :: 64 word)"
  "[ucast x, ucast (drop_bit 8 x), ucast (drop_bit 16 x), ucast (drop_bit 24 x),
    ucast (drop_bit 32 x), ucast (drop_bit 40 x), ucast (drop_bit 48 x), ucast (drop_bit 56 x)] = le_bytes 8 (x :: 64 word)"
  by (simp_all add: le_bytes_def upt_rec)

lemma fixed32_value:
  "ucast (ucast (x :: 64 word) :: byte) OR push_bit 8 (ucast (ucast (drop_bit 8 x) :: byte)) OR push_bit 16 (ucast (ucast (drop_bit 16 x) :: byte)) OR
   push_bit 24 (ucast (ucast (drop_bit 24 x) :: byte)) = (ucast (ucast x :: 32 word) :: 64 word)"
proof -
  have "(ucast (take_bit 32 x) :: 64 word) = ucast (ucast x :: 32 word)"
    by (rule bit_word_eqI) (auto simp: bit_simps)
  then show ?thesis
    using le_get_fold [of 4 x, where 'b = 64] unfolding fixed_bytes(1) [symmetric] by (simp add: push_bit_or)
qed

lemma fixed64_value:
  "ucast (ucast x :: byte) OR push_bit 8 (ucast (ucast (drop_bit 8 x) :: byte)) OR push_bit 16 (ucast (ucast (drop_bit 16 x) :: byte)) OR
   push_bit 24 (ucast (ucast (drop_bit 24 x) :: byte)) OR push_bit 32 (ucast (ucast (drop_bit 32 x) :: byte)) OR
   push_bit 40 (ucast (ucast (drop_bit 40 x) :: byte)) OR push_bit 48 (ucast (ucast (drop_bit 48 x) :: byte)) OR
   push_bit 56 (ucast (ucast (drop_bit 56 x) :: byte)) = (x :: 64 word)"
proof -
  have "(ucast (take_bit 64 x) :: 64 word) = x"
    by (rule bit_word_eqI) (auto simp: bit_simps)
  then show ?thesis
    using le_get_fold [of 8 x, where 'b = 64] unfolding fixed_bytes(2) [symmetric] by (simp add: push_bit_or)
qed

section \<open>Values of a field\<close>

text \<open>The encoder, sizer and decoder of numbers that a field has.\<close>

datatype val_coder = CoVarint | CoFixed32 | CoFixed64 | CoZigzag32 | CoZigzag64

fun valEnc :: "val_coder \<Rightarrow> 64 word \<Rightarrow> Buffer \<Rightarrow> Buffer" where
  "valEnc CoVarint = Buffer_EncodeVarint"
| "valEnc CoFixed32 = Buffer_EncodeFixed32"
| "valEnc CoFixed64 = Buffer_EncodeFixed64"
| "valEnc CoZigzag32 = Buffer_EncodeZigzag32"
| "valEnc CoZigzag64 = Buffer_EncodeZigzag64"

fun valSize :: "val_coder \<Rightarrow> 64 word \<Rightarrow> nat" where
  "valSize CoVarint = sizeVarint"
| "valSize CoFixed32 = sizeFixed32"
| "valSize CoFixed64 = sizeFixed64"
| "valSize CoZigzag32 = sizeZigzag32"
| "valSize CoZigzag64 = sizeZigzag64"

fun valDec :: "val_coder \<Rightarrow> Buffer \<Rightarrow> (proto_error + 64 word) \<times> Buffer" where
  "valDec CoVarint = Buffer_DecodeVarint"
| "valDec CoFixed32 = Buffer_DecodeFixed32"
| "valDec CoFixed64 = Buffer_DecodeFixed64"
| "valDec CoZigzag32 = Buffer_DecodeZigzag32"
| "valDec CoZigzag64 = Buffer_DecodeZigzag64"

text \<open>The bytes of a value, and the value that is read back: the encodings of 32 bits keep these only.\<close>

fun val_bytes :: "val_coder \<Rightarrow> 64 word \<Rightarrow> bytes" where
  "val_bytes CoVarint x = varint x"
| "val_bytes CoFixed32 x = le_bytes 4 x"
| "val_bytes CoFixed64 x = le_bytes 8 x"
| "val_bytes CoZigzag32 x = varint (zigzag32 x)"
| "val_bytes CoZigzag64 x = varint (zigzag64 x)"

fun val_kept :: "val_coder \<Rightarrow> 64 word \<Rightarrow> 64 word" where
  "val_kept CoFixed32 x = ucast (ucast x :: 32 word)"
| "val_kept CoZigzag32 x = ucast (ucast x :: 32 word)"
| "val_kept c x = x"

lemma valEnc_eq: "valEnc c x p = Buffer_append (val_bytes c x) p"
  by (cases c) (simp_all add: Buffer_EncodeVarint_eq Buffer_EncodeFixed32_def Buffer_EncodeFixed64_def fixed_bytes Buffer_EncodeZigzag32_def Buffer_EncodeZigzag64_def)

lemma valSize_eq: "valSize c x = length (val_bytes c x)"
  by (cases c) (simp_all add: sizeVarint_eq sizeFixed32_def sizeFixed64_def sizeZigzag32_def sizeZigzag64_def)

lemma val_bytes_not_Nil [simp]: "val_bytes c x \<noteq> []"
  by (cases c) (simp_all add: le_bytes_def)

lemma Buffer_DecodeFixed32_bytes:
  assumes "pb_buf p = pre @ le_bytes 4 x @ rest" "pb_index p = length pre"
  shows "Buffer_DecodeFixed32 p = (Inr (ucast (ucast (x :: 64 word) :: 32 word)), p\<lparr>pb_index := length pre + 4\<rparr>)"
  using assms fixed32_value [of x] unfolding fixed_bytes(1) [symmetric] by (simp add: Buffer_DecodeFixed32_def nth_append)

lemma Buffer_DecodeFixed64_bytes:
  assumes "pb_buf p = pre @ le_bytes 8 x @ rest" "pb_index p = length pre"
  shows "Buffer_DecodeFixed64 p = (Inr (x :: 64 word), p\<lparr>pb_index := length pre + 8\<rparr>)"
  using assms fixed64_value [of x] unfolding fixed_bytes(2) [symmetric] by (simp add: Buffer_DecodeFixed64_def nth_append)

lemma valDec_bytes:
  assumes "pb_buf p = pre @ val_bytes c x @ rest" "pb_index p = length pre"
  shows "valDec c p = (Inr (val_kept c x), p\<lparr>pb_index := length pre + length (val_bytes c x)\<rparr>)"
proof (cases c)
  case CoVarint
  then show ?thesis using Buffer_DecodeVarint_varint assms by simp
next
  case CoFixed32
  then show ?thesis using Buffer_DecodeFixed32_bytes assms by simp
next
  case CoFixed64
  then show ?thesis using Buffer_DecodeFixed64_bytes assms by simp
next
  case CoZigzag32
  then show ?thesis
    using Buffer_DecodeVarint_varint [of p pre "zigzag32 x" rest] assms by (simp add: Buffer_DecodeZigzag32_def zigzag32_inverse)
next
  case CoZigzag64
  then show ?thesis
    using Buffer_DecodeVarint_varint [of p pre "zigzag64 x" rest] assms by (simp add: Buffer_DecodeZigzag64_def zigzag64_inverse)
qed

definition raw_bytes :: "bytes \<Rightarrow> bytes" where
  "raw_bytes b = varint (of_nat (length b)) @ b"

lemma Buffer_EncodeRawBytes_eq: "Buffer_EncodeRawBytes b p = Buffer_append (raw_bytes b) p"
  by (simp add: Buffer_EncodeRawBytes_def Buffer_EncodeVarint_eq Buffer_append_def raw_bytes_def)

lemma sizeRawBytes_eq: "sizeRawBytes b = length (raw_bytes b)"
  by (simp add: sizeRawBytes_def sizeVarint_eq raw_bytes_def)

lemma Buffer_DecodeRawBytes_bytes:
  assumes "pb_buf p = pre @ raw_bytes b @ rest" "pb_index p = length pre" "length (pb_buf p) < 2 ^ 63"
  shows "Buffer_DecodeRawBytes alloc p = (Inr b, p\<lparr>pb_index := length pre + length (raw_bytes b)\<rparr>)"
proof -
  let ?i = "length pre + length (varint (of_nat (length b)))"
  have v: "Buffer_DecodeVarint p = (Inr (of_nat (length b)), p\<lparr>pb_index := ?i\<rparr>)"
    using Buffer_DecodeVarint_varint [of p pre "of_nat (length b)" "b @ rest"] assms(1,2) by (simp add: raw_bytes_def)
  have len: "?i + length b \<le> length (pb_buf p)" using assms(1) by (simp add: raw_bytes_def)
  then have n: "sint (of_nat (length b) :: 64 word) = int (length b)"
    by (intro sint_of_nat_small) (use assms(3) in simp)
  have e: "sint (of_nat ?i + of_nat (length b) :: 64 word) = int ?i + int (length b)"
    using sint_of_nat_small [of "?i + length b"] len assms(3) by simp
  have d: "drop ?i (pb_buf p) = b @ rest" using assms(1) by (simp add: raw_bytes_def)
  show ?thesis
    using v n e d len by (simp add: Buffer_DecodeRawBytes_def Let_def raw_bytes_def)
qed

text \<open>
  What the five encoders of numbers and the encoder of byte strings append, the decoders read back, and the sizers give its length: for every
  number, every byte string and everything before and after it in the buffer, the index ends right behind the value.  The encodings of 32 bits keep the
  lower half of the number.
\<close>

lemma wire_values_roundtrip:
  assumes "pb_index p = length (pb_buf p)" "length (pb_buf (Buffer_EncodeRawBytes b p)) < 2 ^ 63"
  shows "valDec c (valEnc c x p) = (Inr (val_kept c x), (valEnc c x p)\<lparr>pb_index := pb_index p + valSize c x\<rparr>) \<and>
    Buffer_DecodeRawBytes alloc (Buffer_EncodeRawBytes b p) =
      (Inr b, (Buffer_EncodeRawBytes b p)\<lparr>pb_index := pb_index p + sizeRawBytes b\<rparr>)"
  using valDec_bytes [of "valEnc c x p" "pb_buf p" c x "[]"] Buffer_DecodeRawBytes_bytes [of "Buffer_EncodeRawBytes b p" "pb_buf p" b "[]" alloc] assms
  by (simp add: valEnc_eq valSize_eq sizeRawBytes_eq Buffer_EncodeRawBytes_eq Buffer_append_def)

lemma wire_values_roundtrip_instance:
  "valDec CoZigzag32 (valEnc CoZigzag32 (- 3) (NewBuffer [])) =
     (Inr (val_kept CoZigzag32 (- 3)), (valEnc CoZigzag32 (- 3) (NewBuffer []))\<lparr>pb_index := valSize CoZigzag32 (- 3)\<rparr>) \<and>
   Buffer_DecodeRawBytes True (Buffer_EncodeRawBytes (lit ''ab'') (NewBuffer [])) =
     (Inr (lit ''ab''), (Buffer_EncodeRawBytes (lit ''ab'') (NewBuffer []))\<lparr>pb_index := sizeRawBytes (lit ''ab'')\<rparr>)"
proof -
  have "length (pb_buf (Buffer_EncodeRawBytes (lit ''ab'') (NewBuffer []))) < 2 ^ 63"
    using length_varint_10 [of 2] by (simp add: Buffer_EncodeRawBytes_eq Buffer_append_def raw_bytes_def NewBuffer_def maxVarintBytes_def)
  then show ?thesis
    using wire_values_roundtrip [of "NewBuffer []" "lit ''ab''" CoZigzag32 "- 3" True] by (simp add: NewBuffer_def)
qed

section \<open>Passing over fields\<close>

text \<open>A decoder that reads forward: it keeps the bytes, moves forward on success, and stays within the buffer.\<close>

definition forward :: "nat \<Rightarrow> Buffer \<Rightarrow> (proto_error + 'a) \<times> Buffer \<Rightarrow> bool" where
  "forward k p r \<longleftrightarrow> pb_buf (snd r) = pb_buf p \<and> pb_index p \<le> pb_index (snd r) \<and>
     (pb_index p \<le> length (pb_buf p) \<longrightarrow> pb_index (snd r) \<le> length (pb_buf p)) \<and> (isl (fst r) \<or> pb_index p + k \<le> pb_index (snd r))"

lemma Buffer_DecodeVarint_loop_forward:
  "pb_index p \<le> i \<Longrightarrow> i \<le> length (pb_buf p) \<or> pb_index p = i \<Longrightarrow> forward 1 p (Buffer_DecodeVarint_loop p shift i x)"
proof (induction p shift i x rule: Buffer_DecodeVarint_loop.induct)
  case (1 p shift i x)
  show ?case
    using 1 by (subst Buffer_DecodeVarint_loop.simps) (auto simp: forward_def Let_def)
qed

lemma Buffer_DecodeVarint_forward: "forward 1 p (Buffer_DecodeVarint p)"
  unfolding Buffer_DecodeVarint_def by (rule Buffer_DecodeVarint_loop_forward) simp_all

lemma Buffer_DecodeFixed_forward: "forward 1 p (Buffer_DecodeFixed32 p)" "forward 1 p (Buffer_DecodeFixed64 p)"
  by (simp_all add: forward_def Buffer_DecodeFixed32_def Buffer_DecodeFixed64_def Let_def)

lemma sint_nonneg: "0 \<le> sint (w :: 64 word) \<Longrightarrow> sint w = int (unat w)"
proof -
  assume "0 \<le> sint w"
  then have "\<not> bit w 63" using bit_last_iff [of w] by simp
  then have "\<not> bit (unat w) 63" by (simp add: bit_unsigned_iff)
  then have "even (unat w div 2 ^ 63)" by (simp only: bit_iff_odd not_not)
  moreover have "unat w div 2 ^ 63 < 2" using unat_bound [of w] by (simp add: less_mult_imp_div_less)
  ultimately have "unat w div 2 ^ 63 = 0" by (auto elim!: evenE)
  then have "unat w < 2 ^ 63" by (simp only: div_eq_0_iff) simp
  then show "sint w = int (unat w)"
    using sint_of_nat_small [of "unat w"] by simp
qed

lemma sint_add_index:
  assumes "i < 2 ^ 63" "0 \<le> sint n" "\<not> sint (of_nat i + n) < int i"
  shows "sint (of_nat i + n :: 64 word) = int i + sint n"
proof -
  have n: "sint n = int (unat n)" using sint_nonneg [OF assms(2)] .
  have "int (unat n) < 2 ^ 63" using sint_lt [of n] unfolding n by simp
  then have "unat n < 2 ^ 63" by (simp only: of_nat_less_numeral_power_cancel_iff)
  then have "i + unat n < 2 ^ 64" using assms(1) by simp
  then have "unat (of_nat i + n) = i + unat n"
    using assms(1) by (simp add: unat_word_ariths unsigned_of_nat take_bit_nat_eq_self)
  moreover have "sint (of_nat i + n) = int (unat (of_nat i + n))"
    using assms(3) by (intro sint_nonneg) linarith
  ultimately show ?thesis using n by simp
qed

lemma Buffer_DecodeRawBytes_forward:
  assumes "length (pb_buf p) < 2 ^ 63" "pb_index p \<le> length (pb_buf p)"
  shows "forward 1 p (Buffer_DecodeRawBytes alloc p)"
proof (cases "Buffer_DecodeVarint p")
  case (Pair r p1)
  have f: "pb_buf p1 = pb_buf p" "pb_index p \<le> pb_index p1" "pb_index p1 \<le> length (pb_buf p)" "isl r \<or> pb_index p + 1 \<le> pb_index p1"
    using Buffer_DecodeVarint_forward [of p] Pair assms(2) by (simp_all add: forward_def)
  show ?thesis
  proof (cases r)
    case (Inl e)
    then show ?thesis using Pair f by (simp add: Buffer_DecodeRawBytes_def forward_def)
  next
    case (Inr n)
    have "pb_index p1 < 2 ^ 63" using f(3) assms(1) by simp
    note en = sint_add_index [OF this, of n]
    show ?thesis
      using Pair Inr f en by (auto simp: Buffer_DecodeRawBytes_def forward_def Let_def)
  qed
qed

definition in_buffer :: "Buffer \<Rightarrow> bool" where
  "in_buffer p \<longleftrightarrow> pb_index p \<le> length (pb_buf p) \<and> length (pb_buf p) < 2 ^ 63"

text \<open>What a skip does to the buffer.\<close>

definition skipped :: "Buffer \<Rightarrow> proto_error option \<times> Buffer \<Rightarrow> bool" where
  "skipped p r \<longleftrightarrow> pb_buf (snd r) = pb_buf p \<and> pb_index p \<le> pb_index (snd r) \<and> pb_index (snd r) \<le> length (pb_buf p)"

lemma skipped_drop_value: "in_buffer p \<Longrightarrow> forward 1 p r \<Longrightarrow> \<exists>r'. drop_value r = Some r' \<and> skipped p r'"
  by (cases r; cases "fst r") (auto simp: drop_value_def forward_def skipped_def in_buffer_def)

lemma skip_returns:
  "in_buffer p \<Longrightarrow> 2 * (length (pb_buf p) - pb_index p) + 2 \<le> n \<Longrightarrow> \<exists>r. skip_fuel n wire p = Some r \<and> skipped p r"
  "in_buffer p \<Longrightarrow> 2 * (length (pb_buf p) - pb_index p) + 1 \<le> n \<Longrightarrow> \<exists>r. skip_group n p = Some r \<and> skipped p r"
proof (induction n wire p and n p rule: skip_fuel_skip_group.induct)
  case (2 n wire p)
  have fw: "forward 1 p (Buffer_DecodeVarint p)" "forward 1 p (Buffer_DecodeRawBytes False p)" "forward 1 p (Buffer_DecodeFixed32 p)" "forward 1 p (Buffer_DecodeFixed64 p)"
    using Buffer_DecodeVarint_forward Buffer_DecodeRawBytes_forward Buffer_DecodeFixed_forward 2(2) by (simp_all add: in_buffer_def)
  show ?case
    using 2 skipped_drop_value [OF 2(2) fw(1)] skipped_drop_value [OF 2(2) fw(2)] skipped_drop_value [OF 2(2) fw(3)] skipped_drop_value [OF 2(2) fw(4)]
    by (auto simp: skipped_def in_buffer_def wire_defs)
next
  case (4 n p)
  obtain r p1 where d: "Buffer_DecodeVarint p = (r, p1)" by fastforce
  then have f: "pb_buf p1 = pb_buf p" "pb_index p \<le> pb_index p1" "pb_index p1 \<le> length (pb_buf p)" "isl r \<or> pb_index p + 1 \<le> pb_index p1"
    using Buffer_DecodeVarint_forward [of p] 4(3) by (simp_all add: forward_def in_buffer_def)
  show ?case
  proof (cases r)
    case (Inl e)
    then show ?thesis using d f by (simp add: skipped_def)
  next
    case (Inr u)
    let ?w = "uint (u AND 7)"
    have p1: "in_buffer p1" "2 * (length (pb_buf p1) - pb_index p1) + 2 \<le> n"
      using f 4(3,4) Inr by (auto simp: in_buffer_def)
    show ?thesis
    proof (cases "?w = WireEndGroup")
      case True
      then show ?thesis using d Inr f by (simp add: skipped_def)
    next
      case False
      obtain e p2 where s: "skip_fuel n ?w p1 = Some (e, p2)" "skipped p1 (e, p2)"
        using 4(1) [OF d [symmetric] Inr refl False p1] by auto
      show ?thesis
      proof (cases e)
        case (Some err)
        then show ?thesis using d Inr False s f by (auto simp: skipped_def Let_def)
      next
        case None
        have "in_buffer p2" "2 * (length (pb_buf p2) - pb_index p2) + 1 \<le> n"
          using p1 s(2) by (auto simp: in_buffer_def skipped_def)
        then obtain r' where "skip_group n p2 = Some r'" "skipped p2 r'"
          using 4(2) [OF d [symmetric] Inr refl False s(1) refl None] by auto
        then show ?thesis using d Inr False s None f by (auto simp: skipped_def Let_def)
      qed
    qed
  qed
qed auto

text \<open>Fields as they are on the wire, groups of fields nested in any depth.\<close>

datatype wire_item = WVarint "64 word" | WFixed64 "64 word" | WFixed32 "64 word" | WBytes bytes | WGroup nat "(nat \<times> wire_item) list"

fun item_wire :: "wire_item \<Rightarrow> int" where
  "item_wire (WVarint x) = WireVarint"
| "item_wire (WFixed64 x) = WireFixed64"
| "item_wire (WFixed32 x) = WireFixed32"
| "item_wire (WBytes b) = WireBytes"
| "item_wire (WGroup g fs) = WireStartGroup"

definition tag_bytes :: "nat \<Rightarrow> int \<Rightarrow> bytes" where
  "tag_bytes t wire = varint (of_nat (8 * t + nat wire))"

fun item_bytes :: "wire_item \<Rightarrow> bytes" and fields_bytes :: "(nat \<times> wire_item) list \<Rightarrow> bytes" where
  "item_bytes (WVarint x) = varint x"
| "item_bytes (WFixed64 x) = le_bytes 8 x"
| "item_bytes (WFixed32 x) = le_bytes 4 x"
| "item_bytes (WBytes b) = raw_bytes b"
| "item_bytes (WGroup g fs) = fields_bytes fs @ tag_bytes g WireEndGroup"
| "fields_bytes [] = []"
| "fields_bytes ((t, i) # fs) = tag_bytes t (item_wire i) @ item_bytes i @ fields_bytes fs"

lemma tag_wire: "0 \<le> w \<Longrightarrow> w < 8 \<Longrightarrow> uint (of_nat (8 * t + nat w) AND 7 :: 64 word) = w"
proof -
  assume w: "0 \<le> w" "w < 8"
  have "unat (of_nat (8 * t + nat w) AND (2 ^ 3 - 1) :: 64 word) = (8 * t + nat w) mod 2 ^ 64 mod 2 ^ 3"
    by (simp only: unat_and_mask_exp unat_of_nat) simp
  also have "\<dots> = nat w" using w by (simp add: mod_mod_cancel)
  finally have "unat (of_nat (8 * t + nat w) AND 7 :: 64 word) = nat w" by simp
  then show ?thesis using w by (metis int_nat_eq uint_nat)
qed

lemma item_wire_range: "0 \<le> item_wire i" "item_wire i < 8" "item_wire i \<noteq> WireEndGroup"
  by (cases i; simp add: wire_defs)+

lemma tag_decode:
  assumes "pb_buf p = pre @ tag_bytes t w @ rest" "pb_index p = length pre"
  shows "Buffer_DecodeVarint p = (Inr (of_nat (8 * t + nat w)), p\<lparr>pb_index := length pre + length (tag_bytes t w)\<rparr>)"
  using Buffer_DecodeVarint_varint [of p pre "of_nat (8 * t + nat w)" rest] assms by (simp add: tag_bytes_def)

lemma skip_group_end:
  assumes "pb_buf p = pre @ tag_bytes g WireEndGroup @ rest" "pb_index p = length pre" "skip_group n p = Some r"
  shows "r = (None, p\<lparr>pb_index := length pre + length (tag_bytes g WireEndGroup)\<rparr>)"
  using assms(3) tag_decode [OF assms(1,2)] tag_wire [of WireEndGroup g] by (cases n) (auto simp: wire_defs)

lemma skip_exact:
  "pb_buf p = pre @ item_bytes i @ rest \<Longrightarrow> pb_index p = length pre \<Longrightarrow> length (pb_buf p) < 2 ^ 63 \<Longrightarrow> skip_fuel n (item_wire i) p = Some r \<Longrightarrow>
     r = (None, p\<lparr>pb_index := length pre + length (item_bytes i)\<rparr>)"
  "pb_buf p = pre @ fields_bytes fs @ tag_bytes g WireEndGroup @ rest \<Longrightarrow> pb_index p = length pre \<Longrightarrow> length (pb_buf p) < 2 ^ 63 \<Longrightarrow> skip_group n p = Some r \<Longrightarrow>
     r = (None, p\<lparr>pb_index := length pre + length (fields_bytes fs @ tag_bytes g WireEndGroup)\<rparr>)"
proof (induction i and fs arbitrary: p pre n rest r and p pre n rest r g rule: item_bytes_fields_bytes.induct)
  case (1 x)
  then show ?case using Buffer_DecodeVarint_varint [of p pre x rest] by (cases n) (auto simp: drop_value_def wire_defs)
next
  case (2 x)
  then show ?case using Buffer_DecodeFixed64_bytes [of p pre x rest] by (cases n) (auto simp: drop_value_def wire_defs)
next
  case (3 x)
  then show ?case using Buffer_DecodeFixed32_bytes [of p pre x rest] by (cases n) (auto simp: drop_value_def wire_defs)
next
  case (4 b)
  then show ?case using Buffer_DecodeRawBytes_bytes [of p pre b rest False] by (cases n) (auto simp: drop_value_def wire_defs)
next
  case (5 g fs)
  then show ?case by (cases n) (auto simp: wire_defs)
next
  case 6
  then show ?case using skip_group_end [of p pre g rest n r] by simp
next
  case (7 t i fs)
  let ?p1 = "p\<lparr>pb_index := length pre + length (tag_bytes t (item_wire i))\<rparr>"
  obtain m where n: "n = Suc m" using 7(6) by (cases n) auto
  have d: "Buffer_DecodeVarint p = (Inr (of_nat (8 * t + nat (item_wire i))), ?p1)"
    using tag_decode [of p pre t "item_wire i"] 7(3,4) by simp
  have w: "uint (of_nat (8 * t + nat (item_wire i)) AND 7 :: 64 word) = item_wire i" "item_wire i \<noteq> WireEndGroup"
    using tag_wire item_wire_range by simp_all
  obtain e p2 where s: "skip_fuel m (item_wire i) ?p1 = Some (e, p2)"
    using 7(6) d w unfolding n by (auto simp: Let_def split: option.splits)
  have "pb_buf ?p1 = (pre @ tag_bytes t (item_wire i)) @ item_bytes i @ (fields_bytes fs @ tag_bytes g WireEndGroup @ rest)"
    using 7(3) by simp
  from 7(1) [OF this _ _ s] have e: "e = None" "p2 = p\<lparr>pb_index := length (pre @ tag_bytes t (item_wire i) @ item_bytes i)\<rparr>"
    using 7(5) by simp_all
  have g: "skip_group m p2 = Some r"
    using 7(6) d w s e(1) unfolding n by (simp add: Let_def)
  have "pb_buf p2 = (pre @ tag_bytes t (item_wire i) @ item_bytes i) @ fields_bytes fs @ tag_bytes g WireEndGroup @ rest"
    using 7(3) by (simp add: e(2))
  from 7(2) [OF this _ _ g] show ?case
    using 7(5) by (simp add: e(2) add.assoc)
qed

lemma skip_in_buffer: "in_buffer p \<Longrightarrow> \<exists>r. skip wire p = Some r \<and> skipped p r"
  unfolding skip_def using skip_returns(1) [of p "2 * length (pb_buf p) + 2" wire] by simp

lemma skip_item:
  assumes "in_buffer p" "pb_buf p = pre @ item_bytes i @ rest" "pb_index p = length pre"
  shows "skip (item_wire i) p = Some (None, p\<lparr>pb_index := length pre + length (item_bytes i)\<rparr>)"
proof -
  obtain r where r: "skip (item_wire i) p = Some r" using skip_in_buffer [OF assms(1)] by blast
  then show ?thesis
    using skip_exact(1) [OF assms(2,3) _ r [unfolded skip_def]] assms(1) by (simp add: in_buffer_def del: skip_fuel.simps)
qed

text \<open>
  C25. \<open>skip\<close> returns on every input and stays within the buffer: the nesting it follows is bounded by the bytes that are left.  Before an
  encoded field of any wire type, with groups nested in any depth, it moves to the first byte behind the field and reports no error.
\<close>

theorem skip_passes_field:
  assumes "in_buffer p"
  shows "(\<exists>err q. skip wire p = Some (err, q) \<and> pb_buf q = pb_buf p \<and> pb_index p \<le> pb_index q \<and> in_buffer q) \<and>
    (\<forall>pre i rest. pb_buf p = pre @ item_bytes i @ rest \<and> pb_index p = length pre \<longrightarrow>
      skip (item_wire i) p = Some (None, p\<lparr>pb_index := length pre + length (item_bytes i)\<rparr>))"
proof -
  obtain err q where "skip wire p = Some (err, q)" "skipped p (err, q)" using skip_in_buffer [OF assms] by fastforce
  then have "\<exists>err q. skip wire p = Some (err, q) \<and> pb_buf q = pb_buf p \<and> pb_index p \<le> pb_index q \<and> in_buffer q"
    using assms by (auto simp: skipped_def in_buffer_def)
  then show ?thesis using skip_item [OF assms] by blast
qed

theorem skip_passes_field_witness:
  "skip WireStartGroup (NewBuffer (item_bytes (WGroup 1 [(2, WVarint 300)]))) =
     Some (None, (NewBuffer (item_bytes (WGroup 1 [(2, WVarint 300)])))\<lparr>pb_index := length (item_bytes (WGroup 1 [(2, WVarint 300)]))\<rparr>)"
proof -
  let ?i = "WGroup 1 [(2, WVarint 300)]"
  have "length (item_bytes ?i) \<le> 30"
    using length_varint_10 [of 300] length_varint_10 [of 16] length_varint_10 [of 12] by (simp add: tag_bytes_def wire_defs maxVarintBytes_def)
  then have "in_buffer (NewBuffer (item_bytes ?i))" unfolding in_buffer_def NewBuffer_def by simp
  from skip_passes_field [OF this, THEN conjunct2, rule_format, of "[]" ?i "[]"]
  show ?thesis by (simp add: NewBuffer_def del: item_bytes.simps)
qed

end
