(* ===== verification/Proto_Types.thy ===== *)
theory Proto_Types
  imports Proto_Wire Go_Strconv Go_Strings
begin

text \<open>
  What the codec of \<open>lib/proto\<close> knows of a message type, \<open>properties.go\<close>: the table from tag numbers to fields, the properties of a field as they are
  parsed from its struct tag and set from its Go type, and the properties of a struct.

  Struct types are numbers, and a table gives the fields of each, so that message types may refer to each other and to themselves.  Left out are map fields,
  extensions and types with their own \<open>Marshal\<close> or \<open>Unmarshal\<close>.
\<close>

section \<open>Tags to fields\<close>

record tagMap =
  tm_fastTags :: "int list"
  tm_slowTags :: "int \<rightharpoonup> int"

definition tagMapFastLimit :: int where "tagMapFastLimit = 1024"

definition tagMap_empty :: tagMap where
  "tagMap_empty = \<lparr>tm_fastTags = [], tm_slowTags = Map.empty\<rparr>"

text \<open>\<open>get\<close> with \<open>None\<close> for a false second result.\<close>

definition tagMap_get :: "tagMap \<Rightarrow> int \<Rightarrow> int option" where
  "tagMap_get m t =
     (if t > 0 \<and> t < tagMapFastLimit
      then (if t \<ge> int (length (tm_fastTags m)) then None
            else let fi = tm_fastTags m ! nat t in if fi \<ge> 0 then Some fi else None)
      else tm_slowTags m t)"

definition tagMap_put :: "tagMap \<Rightarrow> int \<Rightarrow> int \<Rightarrow> tagMap" where
  "tagMap_put m t fi =
     (if t > 0 \<and> t < tagMapFastLimit
      then (let fast = tm_fastTags m @ replicate (nat t + 1 - length (tm_fastTags m)) (- 1) in m\<lparr>tm_fastTags := fast[nat t := fi]\<rparr>)
      else m\<lparr>tm_slowTags := (tm_slowTags m)(t \<mapsto> fi)\<rparr>)"

text \<open>The contract of a table that is filled and asked.\<close>

locale lookup_table =
  fixes get :: "'m \<Rightarrow> 'k \<Rightarrow> 'v option" and put :: "'m \<Rightarrow> 'k \<Rightarrow> 'v \<Rightarrow> 'm" and none :: 'm and ok :: "'v \<Rightarrow> bool"
  assumes get_empty: "get none k = None"
    and get_put: "ok v \<Longrightarrow> get (put m k v) k' = (if k' = k then Some v else get m k')"
begin

definition fill :: "('k \<times> 'v) list \<Rightarrow> 'm" where
  "fill kvs = foldl (\<lambda>m (k, v). put m k v) none kvs"

lemma fill_snoc: "fill (kvs @ [(k, v)]) = put (fill kvs) k v"
  by (simp add: fill_def)

lemma get_fill:
  assumes "\<forall>(k, v) \<in> set kvs. ok v" "distinct (map fst kvs)"
  shows "get (fill kvs) k = map_of kvs k"
  using assms
proof (induction kvs rule: rev_induct)
  case Nil
  then show ?case by (simp add: fill_def get_empty)
next
  case (snoc kv kvs)
  obtain k1 v1 where kv: "kv = (k1, v1)" by fastforce
  have "map_of kvs k1 = None"
    using snoc.prems(2) by (simp add: kv map_of_eq_None_iff)
  then have "map_of (kvs @ [(k1, v1)]) k = (if k = k1 then Some v1 else map_of kvs k)"
    by (simp add: map_add_def split: option.split)
  then show ?case
    using snoc by (simp add: kv fill_snoc get_put)
qed

end

lemma tagMap_get_put:
  assumes "0 \<le> fi"
  shows "tagMap_get (tagMap_put m t fi) t' = (if t' = t then Some fi else tagMap_get m t')"
proof (cases "t > 0 \<and> t < tagMapFastLimit \<and> t' > 0 \<and> t' < tagMapFastLimit")
  case False
  then show ?thesis by (auto simp: tagMap_get_def tagMap_put_def Let_def)
next
  case True
  define l where "l = tm_fastTags m"
  define ext where "ext = l @ replicate (nat t + 1 - length l) (- 1)"
  have put: "tagMap_put m t fi = m\<lparr>tm_fastTags := ext[nat t := fi]\<rparr>"
    using True by (simp add: tagMap_put_def Let_def ext_def l_def)
  have len: "nat t < length ext" "length l \<le> length ext" by (simp_all add: ext_def)
  have old: "k < length ext \<Longrightarrow> ext ! k = (if k < length l then l ! k else - 1)" for k
    by (auto simp: ext_def nth_append)
  show ?thesis
  proof (cases "t' = t")
    case same: True
    then show ?thesis
      using True assms len(1) by (simp add: tagMap_get_def put Let_def)
  next
    case diff: False
    then have "nat t \<noteq> nat t'" using True by linarith
    then have "tagMap_get (tagMap_put m t fi) t' = (if t' \<ge> int (length ext) then None else if ext ! nat t' \<ge> 0 then Some (ext ! nat t') else None)"
      using True by (simp add: tagMap_get_def put Let_def)
    moreover have c: "t' \<ge> int n \<longleftrightarrow> \<not> nat t' < n" for n using True by linarith
    ultimately have "tagMap_get (tagMap_put m t fi) t' = (if t' \<ge> int (length l) then None else if l ! nat t' \<ge> 0 then Some (l ! nat t') else None)"
      using old [of "nat t'"] len(2) by (cases "nat t' < length l"; cases "nat t' < length ext") (simp_all only: c if_True if_False not_True_eq_False not_False_eq_True, simp_all)
    then show ?thesis
      using True diff by (simp add: tagMap_get_def l_def Let_def)
  qed
qed

interpretation tags: lookup_table tagMap_get tagMap_put tagMap_empty "\<lambda>fi. 0 \<le> fi"
  by unfold_locales (simp_all add: tagMap_get_put, simp add: tagMap_get_def tagMap_empty_def)

section \<open>Properties of a field\<close>

datatype go_kind = KBool | KInt32 | KUint32 | KInt64 | KUint64 | KFloat32 | KFloat64 | KString | KUint8 |
  KPtr go_kind | KSlice go_kind | KStruct nat | KOther

text \<open>The encoder, decoders and sizer of a field: one value for each branch of \<open>setEncAndDec\<close> that sets them.\<close>

datatype coder =
  C3Bool | C3Int32 | C3Uint32 | C3Int64 | C3String |
  CBool | CInt32 | CUint32 | CInt64 | CString | CMessage | CGroup |
  CSliceBool | CPackedBool | CSliceInt32 | CPackedInt32 | CSliceUint32 | CPackedUint32 | CSliceInt64 | CPackedInt64 |
  CBytes | C3Bytes | CSliceString | CSliceMessage | CSliceGroup | CSliceBytes

record Properties =
  p_Name :: bytes
  p_OrigName :: bytes
  p_Wire :: bytes
  p_WireType :: int
  p_Tag :: int
  p_Required :: bool
  p_Optional :: bool
  p_Repeated :: bool
  p_Packed :: bool
  p_Enum :: bytes
  p_proto3 :: bool
  p_Default :: bytes
  p_HasDefault :: bool
  p_val :: "val_coder option"
  p_coder :: "coder option"
  p_field :: nat
  p_tagcode :: bytes
  p_stype :: nat

definition Properties_new :: Properties where
  "Properties_new = \<lparr>p_Name = [], p_OrigName = [], p_Wire = [], p_WireType = 0, p_Tag = 0, p_Required = False, p_Optional = False, p_Repeated = False,
     p_Packed = False, p_Enum = [], p_proto3 = False, p_Default = [], p_HasDefault = False, p_val = None, p_coder = None, p_field = 0, p_tagcode = [], p_stype = 0\<rparr>"

definition Properties_String :: "Properties \<Rightarrow> bytes" where
  "Properties_String p =
     (let s = lit '','';
          s = s @ FormatInt (p_Tag p);
          s = (if p_Required p then s @ lit '',req'' else s);
          s = (if p_Optional p then s @ lit '',opt'' else s);
          s = (if p_Repeated p then s @ lit '',rep'' else s);
          s = (if p_Packed p then s @ lit '',packed'' else s);
          s = (if p_OrigName p \<noteq> p_Name p then s @ lit '',name='' @ p_OrigName p else s);
          s = (if p_proto3 p then s @ lit '',proto3'' else s);
          s = (if length (p_Enum p) > 0 then s @ lit '',enum='' @ p_Enum p else s) in
      if p_HasDefault p then s @ lit '',def='' @ p_Default p else s)"

text \<open>The wire name and what it sets, \<open>None\<close> for an unknown one; the numeric converters stay as they are for \<open>bytes\<close> and \<open>group\<close>.\<close>

definition wire_coder :: "bytes \<Rightarrow> (int \<times> val_coder option) option" where
  "wire_coder w =
     (if w = lit ''varint'' then Some (WireVarint, Some CoVarint)
      else if w = lit ''fixed32'' then Some (WireFixed32, Some CoFixed32)
      else if w = lit ''fixed64'' then Some (WireFixed64, Some CoFixed64)
      else if w = lit ''zigzag32'' then Some (WireVarint, Some CoZigzag32)
      else if w = lit ''zigzag64'' then Some (WireVarint, Some CoZigzag64)
      else if w = lit ''bytes'' \<or> w = lit ''group'' then Some (WireBytes, None)
      else None)"

fun join_comma :: "bytes list \<Rightarrow> bytes" where
  "join_comma [] = []"
| "join_comma [s] = s"
| "join_comma (s # ss) = s @ lit '','' @ join_comma ss"

text \<open>The loop over the flags.  The \<open>break\<close> in the case of \<open>def=\<close> leaves the switch only, and the loop goes on.\<close>

definition Parse_flag :: "bytes \<Rightarrow> bytes list \<Rightarrow> Properties \<Rightarrow> Properties" where
  "Parse_flag f fs p =
     (if f = lit ''req'' then p\<lparr>p_Required := True\<rparr>
      else if f = lit ''opt'' then p\<lparr>p_Optional := True\<rparr>
      else if f = lit ''rep'' then p\<lparr>p_Repeated := True\<rparr>
      else if f = lit ''packed'' then p\<lparr>p_Packed := True\<rparr>
      else if prefix (lit ''name='') f then p\<lparr>p_OrigName := drop 5 f\<rparr>
      else if prefix (lit ''enum='') f then p\<lparr>p_Enum := drop 5 f\<rparr>
      else if f = lit ''proto3'' then p\<lparr>p_proto3 := True\<rparr>
      else if prefix (lit ''def='') f
      then p\<lparr>p_HasDefault := True, p_Default := (if fs \<noteq> [] then drop 4 f @ lit '','' @ join_comma fs else drop 4 f)\<rparr>
      else p)"

fun Parse_flags :: "bytes list \<Rightarrow> Properties \<Rightarrow> Properties" where
  "Parse_flags [] p = p"
| "Parse_flags (f # fs) p = Parse_flags fs (Parse_flag f fs p)"

definition Properties_Parse :: "bytes \<Rightarrow> Properties \<Rightarrow> Properties" where
  "Properties_Parse s p = (case split_on (of_char CHR '','') s of
     wire # tag # flags \<Rightarrow>
       (let p = p\<lparr>p_Wire := wire\<rparr> in
        case wire_coder wire of
          None \<Rightarrow> p
        | Some (wt, vc) \<Rightarrow>
            (let p = p\<lparr>p_WireType := wt, p_val := (case vc of None \<Rightarrow> p_val p | Some v \<Rightarrow> Some v)\<rparr> in
             case Atoi tag of
               (t, Some err) \<Rightarrow> p\<lparr>p_Tag := t\<rparr>
             | (t, None) \<Rightarrow> Parse_flags flags (p\<lparr>p_Tag := t\<rparr>)))
   | _ \<Rightarrow> p)"

definition slice_coder :: "go_kind \<Rightarrow> Properties \<Rightarrow> coder option" where
  "slice_coder t2 p = (case t2 of
     KBool \<Rightarrow> Some (if p_Packed p then CPackedBool else CSliceBool)
   | KInt32 \<Rightarrow> Some (if p_Packed p then CPackedInt32 else CSliceInt32)
   | KUint32 \<Rightarrow> Some (if p_Packed p then CPackedUint32 else CSliceUint32)
   | KInt64 \<Rightarrow> Some (if p_Packed p then CPackedInt64 else CSliceInt64)
   | KUint64 \<Rightarrow> Some (if p_Packed p then CPackedInt64 else CSliceInt64)
   | KUint8 \<Rightarrow> Some (if p_proto3 p then C3Bytes else CBytes)
   | KFloat32 \<Rightarrow> Some (if p_Packed p then CPackedUint32 else CSliceUint32)
   | KFloat64 \<Rightarrow> Some (if p_Packed p then CPackedInt64 else CSliceInt64)
   | KString \<Rightarrow> Some CSliceString
   | KPtr (KStruct t) \<Rightarrow> Some (if p_Wire p = lit ''bytes'' then CSliceMessage else CSliceGroup)
   | KSlice KUint8 \<Rightarrow> Some CSliceBytes
   | _ \<Rightarrow> None)"

definition kind_coder :: "go_kind \<Rightarrow> Properties \<Rightarrow> coder option" where
  "kind_coder t1 p = (case t1 of
     KBool \<Rightarrow> Some C3Bool
   | KInt32 \<Rightarrow> Some C3Int32
   | KUint32 \<Rightarrow> Some C3Uint32
   | KInt64 \<Rightarrow> Some C3Int64
   | KUint64 \<Rightarrow> Some C3Int64
   | KFloat32 \<Rightarrow> Some C3Uint32
   | KFloat64 \<Rightarrow> Some C3Int64
   | KString \<Rightarrow> Some C3String
   | KPtr KBool \<Rightarrow> Some CBool
   | KPtr KInt32 \<Rightarrow> Some CInt32
   | KPtr KUint32 \<Rightarrow> Some CUint32
   | KPtr KInt64 \<Rightarrow> Some CInt64
   | KPtr KUint64 \<Rightarrow> Some CInt64
   | KPtr KFloat32 \<Rightarrow> Some CUint32
   | KPtr KFloat64 \<Rightarrow> Some CInt64
   | KPtr KString \<Rightarrow> Some CString
   | KPtr (KStruct t) \<Rightarrow> Some (if p_Wire p = lit ''bytes'' then CMessage else CGroup)
   | KSlice t2 \<Rightarrow> slice_coder t2 p
   | _ \<Rightarrow> None)"

definition kind_struct :: "go_kind \<Rightarrow> nat" where
  "kind_struct t1 = (case t1 of KPtr (KStruct t) \<Rightarrow> t | KSlice (KPtr (KStruct t)) \<Rightarrow> t | _ \<Rightarrow> 0)"

text \<open>The tag code is computed in 32 bits, with the loop of a varint; eight bytes are room enough.\<close>

function tagcode_loop :: "nat \<Rightarrow> 32 word \<Rightarrow> bytes \<Rightarrow> bytes" where
  "tagcode_loop i x tagbuf =
     (if x > 127 then tagcode_loop (i + 1) (drop_bit 7 x) (tagbuf[i := 0x80 OR ucast (x AND 0x7F)])
      else take (i + 1) (tagbuf[i := ucast x]))"
  by pat_completeness auto
termination
  by (relation "measure (\<lambda>(i, x, tagbuf). unat x)") (auto simp: drop_bit_eq_div unat_div word_less_nat_alt)

declare tagcode_loop.simps [simp del]

definition setEncAndDec :: "go_kind \<Rightarrow> Properties \<Rightarrow> Properties" where
  "setEncAndDec typ p =
     (let wire = (if p_Packed p then WireBytes else p_WireType p);
          x = push_bit 3 (word_of_int (p_Tag p) :: 32 word) OR word_of_int wire in
      p\<lparr>p_coder := kind_coder typ p, p_stype := kind_struct typ, p_tagcode := tagcode_loop 0 x (replicate 8 0)\<rparr>)"

record struct_field =
  sf_Name :: bytes
  sf_Type :: go_kind
  sf_Tag :: bytes

definition Properties_init :: "nat \<Rightarrow> struct_field \<Rightarrow> Properties" where
  "Properties_init i f =
     (let p = Properties_new\<lparr>p_Name := sf_Name f, p_OrigName := sf_Name f, p_field := i\<rparr> in
      if sf_Tag f = [] then p else setEncAndDec (sf_Type f) (Properties_Parse (sf_Tag f) p))"

section \<open>Properties of a struct\<close>

record StructProperties =
  sp_Prop :: "Properties list"
  sp_reqCount :: int
  sp_decoderTags :: tagMap
  sp_order :: "nat list"
  sp_unrecField :: "nat option"

fun last_named :: "bytes \<Rightarrow> nat \<Rightarrow> struct_field list \<Rightarrow> nat option" where
  "last_named name i [] = None"
| "last_named name i (f # fs) = (case last_named name (Suc i) fs of
     Some j \<Rightarrow> Some j
   | None \<Rightarrow> if sf_Name f = name then Some i else None)"

definition internal :: "Properties \<Rightarrow> bool" where
  "internal p \<longleftrightarrow> prefix (lit ''XXX_'') (p_Name p)"

definition getProperties :: "struct_field list \<Rightarrow> StructProperties" where
  "getProperties fs =
     (let props = map (\<lambda>(i, f). Properties_init i f) (enumerate 0 fs);
          shown = filter (\<lambda>(i, p). \<not> internal p) (enumerate 0 props) in
      \<lparr>sp_Prop = props,
       sp_reqCount = int (length (filter (\<lambda>(i, p). p_Required p) shown)),
       sp_decoderTags = foldl (\<lambda>m (i, p). tagMap_put m (p_Tag p) (int i)) tagMap_empty shown,
       sp_order = sort_key (\<lambda>i. p_Tag (props ! i)) [0..<length fs],
       sp_unrecField = last_named (lit ''XXX_unrecognized'') 0 fs\<rparr>)"

section \<open>What the properties are\<close>

text \<open>The tag code is the varint of tag and wire type.\<close>

lemma unat_ucast_32_64: "unat (ucast (x :: 32 word) :: 64 word) = unat x"
  using unat_bound [of x] by (simp add: unsigned_ucast_eq take_bit_nat_eq_self)

lemma tagcode_loop_eq:
  "i + length (varint (ucast x)) \<le> length tagbuf \<Longrightarrow> tagcode_loop i x tagbuf = take i tagbuf @ varint (ucast x)"
proof (induction i x tagbuf rule: tagcode_loop.induct)
  case (1 i x tagbuf)
  have le: "127 < x \<longleftrightarrow> \<not> (ucast x :: 64 word) < 128"
    by (simp add: word_less_nat_alt unat_ucast_32_64) linarith
  show ?case
  proof (cases "127 < x")
    case True
    have v: "varint (ucast x) = ucast (ucast x AND 0x7F OR 0x80 :: 64 word) # varint (ucast (drop_bit 7 x))"
      using True le by (simp add: varint.simps [of "ucast x"] ucast_drop_bit_eq)
    have b: "0x80 OR ucast (x AND 0x7F) = (ucast (ucast x AND 0x7F OR 0x80 :: 64 word) :: byte)"
      by (rule bit_word_eqI) (auto simp: bit_simps)
    show ?thesis
      using 1 True v by (subst tagcode_loop.simps) (simp add: b take_Suc_conv_app_nth)
  next
    case False
    have b: "(ucast (ucast x :: 64 word) :: byte) = ucast x"
      by (rule bit_word_eqI) (auto simp: bit_simps)
    have v: "varint (ucast x) = [ucast x]"
      using False le by (simp add: varint.simps [of "ucast x"] b)
    show ?thesis
      using 1(2) False v by (subst tagcode_loop.simps) (simp add: take_Suc_conv_app_nth)
  qed
qed

lemma tag_or:
  assumes "0 \<le> t" "0 \<le> w" "w < 8"
  shows "push_bit 3 (word_of_int t) OR word_of_int w = (of_nat (8 * nat t + nat w) :: 'a::len word)"
proof -
  have t8: "w = take_bit 3 w" using assms(2,3) by (simp add: take_bit_int_eq_self)
  have "push_bit 3 (word_of_int t) OR word_of_int w = push_bit 3 (word_of_int t) + (word_of_int w :: 'a word)"
    by (rule disjunctive_add [symmetric], subst t8, simp only: bit_push_bit_iff bit_word_of_int_iff bit_take_bit_iff) auto
  also have "\<dots> = word_of_int (8 * t + w)"
    by (simp add: push_bit_eq_mult)
  also have "\<dots> = of_nat (8 * nat t + nat w)"
    using assms by (simp add: word_of_int_nat [symmetric])
  finally show ?thesis .
qed

lemma setEncAndDec_tagcode:
  assumes "0 \<le> p_Tag p" "p_Tag p < 2 ^ 29" "0 \<le> p_WireType p" "p_WireType p < 8"
  shows "p_tagcode (setEncAndDec typ p) = tag_bytes (nat (p_Tag p)) (if p_Packed p then WireBytes else p_WireType p)"
proof -
  define w where "w = (if p_Packed p then WireBytes else p_WireType p)"
  have w: "0 \<le> w" "w < 8" using assms by (simp_all add: w_def wire_defs)
  let ?x = "push_bit 3 (word_of_int (p_Tag p) :: 32 word) OR word_of_int w"
  have x: "?x = of_nat (8 * nat (p_Tag p) + nat w)" by (rule tag_or [OF assms(1) w])
  have "8 * nat (p_Tag p) + nat w < 2 ^ 32" using assms(1,2) w by simp
  then have u: "ucast ?x = (of_nat (8 * nat (p_Tag p) + nat w) :: 64 word)"
    unfolding x by (subst word_unat_eq_iff, simp only: unat_ucast_32_64 unat_of_nat) simp
  have "length (varint (ucast ?x)) \<le> 8"
    by (rule length_varint) (use unat_bound [of ?x] in \<open>simp_all add: unat_ucast_32_64\<close>)
  then show ?thesis
    using tagcode_loop_eq [of 0 ?x "replicate 8 0"] by (simp add: setEncAndDec_def Let_def w_def [symmetric] tag_bytes_def u)
qed

text \<open>\<open>String\<close> drops the wire type it starts with, so that \<open>Parse\<close> refuses every text that \<open>String\<close> gives.\<close>

lemma Properties_String_not_parsed: "Properties_Parse (Properties_String p) q = q\<lparr>p_Wire := []\<rparr>"
proof -
  have if_append: "(if c then a @ x else a) = a @ (if c then x else [])" for c and a x :: bytes by simp
  obtain s where "Properties_String p = lit '','' @ s"
    by (simp only: Properties_String_def Let_def if_append append_assoc)
  then have "split_on (of_char CHR '','') (Properties_String p) = [] # split_on (of_char CHR '','') s" by simp
  moreover obtain t ts where "split_on (of_char CHR '','') s = t # ts" by (meson split_on_not_Nil neq_Nil_conv)
  ultimately show ?thesis
    by (simp add: Properties_Parse_def wire_coder_def)
qed

text \<open>A default value that has a comma is kept whole, and its parts are taken for flags as well.\<close>

lemma Parse_default_sets_flags:
  "p_Default (Properties_Parse (lit ''bytes,1,opt,def=a,req'') Properties_new) = lit ''a,req'' \<and>
   p_Required (Properties_Parse (lit ''bytes,1,opt,def=a,req'') Properties_new)"
  by (simp add: Properties_Parse_def wire_coder_def Parse_flag_def Atoi_def ParseInt_def ParseUint_def is_digit_unat digits_val_def digit_val_def Let_def Properties_new_def)

text \<open>The table of tags has exactly the fields that are not internal, when no two of them have the same tag.\<close>

definition shown_tags :: "struct_field list \<Rightarrow> (int \<times> int) list" where
  "shown_tags fs = map (\<lambda>(i, p). (p_Tag p, int i)) (filter (\<lambda>(i, p). \<not> internal p) (enumerate 0 (sp_Prop (getProperties fs))))"

lemma getProperties_tags:
  assumes "distinct (map fst (shown_tags fs))"
  shows "tagMap_get (sp_decoderTags (getProperties fs)) t = map_of (shown_tags fs) t"
proof -
  have "sp_decoderTags (getProperties fs) = tags.fill (shown_tags fs)"
    by (simp add: getProperties_def shown_tags_def tags.fill_def Let_def foldl_map case_prod_unfold)
  moreover have "\<forall>(t, i) \<in> set (shown_tags fs). 0 \<le> i" by (auto simp: shown_tags_def)
  ultimately show ?thesis using tags.get_fill [OF _ assms] by simp
qed

end
