(* ===== verification/Proto_Encode.thy ===== *)
theory Proto_Encode
  imports Proto_Types
begin

text \<open>
  Messages in the wire format, \<open>lib/proto/encode.go\<close>: one encoder and one sizer for each kind of field, the message around them, and \<open>Marshal\<close> and \<open>Size\<close>.

  A struct is the list of its fields.  Encoders of fields that hold messages take the encoder of messages as an argument, and \<open>enc_struct\<close> ties the knot with fuel that
  bounds the nesting; \<open>Marshal\<close> starts it with the size of the message.  \<open>None\<close> is a panic, the call of a missing encoder of values, or running out of fuel.
\<close>

section \<open>Structs\<close>

text \<open>The value of a field, by the accessor that reaches it (\<open>pointer_unsafe.go\<close>).  A nil element of a \<open>[][]byte\<close> is the empty one.\<close>

datatype pval =
  FBool "bool option" | FBoolVal bool | FBoolSlice "bool list" |
  FWord32 "32 word option" | FWord32Val "32 word" | FWord32Slice "32 word list" |
  FWord64 "64 word option" | FWord64Val "64 word" | FWord64Slice "64 word list" |
  FString "bytes option" | FStringVal bytes | FStringSlice "bytes list" |
  FBytes "bytes option" | FBytesSlice "bytes list" |
  FStructPointer "pval list option" | FStructPointerSlice "pval list option list" | FOther

text \<open>A field has the Go type its accessor is chosen by, so that the last case of each does not occur.\<close>

definition structPointer_Bool :: "pval list \<Rightarrow> nat \<Rightarrow> bool option" where
  "structPointer_Bool base f = (case base ! f of FBool v \<Rightarrow> v | _ \<Rightarrow> None)"

definition structPointer_BoolVal :: "pval list \<Rightarrow> nat \<Rightarrow> bool" where
  "structPointer_BoolVal base f = (case base ! f of FBoolVal v \<Rightarrow> v | _ \<Rightarrow> False)"

definition structPointer_BoolSlice :: "pval list \<Rightarrow> nat \<Rightarrow> bool list" where
  "structPointer_BoolSlice base f = (case base ! f of FBoolSlice v \<Rightarrow> v | _ \<Rightarrow> [])"

definition structPointer_Word32 :: "pval list \<Rightarrow> nat \<Rightarrow> 32 word option" where
  "structPointer_Word32 base f = (case base ! f of FWord32 v \<Rightarrow> v | _ \<Rightarrow> None)"

definition structPointer_Word32Val :: "pval list \<Rightarrow> nat \<Rightarrow> 32 word" where
  "structPointer_Word32Val base f = (case base ! f of FWord32Val v \<Rightarrow> v | _ \<Rightarrow> 0)"

definition structPointer_Word32Slice :: "pval list \<Rightarrow> nat \<Rightarrow> 32 word list" where
  "structPointer_Word32Slice base f = (case base ! f of FWord32Slice v \<Rightarrow> v | _ \<Rightarrow> [])"

definition structPointer_Word64 :: "pval list \<Rightarrow> nat \<Rightarrow> 64 word option" where
  "structPointer_Word64 base f = (case base ! f of FWord64 v \<Rightarrow> v | _ \<Rightarrow> None)"

definition structPointer_Word64Val :: "pval list \<Rightarrow> nat \<Rightarrow> 64 word" where
  "structPointer_Word64Val base f = (case base ! f of FWord64Val v \<Rightarrow> v | _ \<Rightarrow> 0)"

definition structPointer_Word64Slice :: "pval list \<Rightarrow> nat \<Rightarrow> 64 word list" where
  "structPointer_Word64Slice base f = (case base ! f of FWord64Slice v \<Rightarrow> v | _ \<Rightarrow> [])"

definition structPointer_String :: "pval list \<Rightarrow> nat \<Rightarrow> bytes option" where
  "structPointer_String base f = (case base ! f of FString v \<Rightarrow> v | _ \<Rightarrow> None)"

definition structPointer_StringVal :: "pval list \<Rightarrow> nat \<Rightarrow> bytes" where
  "structPointer_StringVal base f = (case base ! f of FStringVal v \<Rightarrow> v | _ \<Rightarrow> [])"

definition structPointer_StringSlice :: "pval list \<Rightarrow> nat \<Rightarrow> bytes list" where
  "structPointer_StringSlice base f = (case base ! f of FStringSlice v \<Rightarrow> v | _ \<Rightarrow> [])"

definition structPointer_Bytes :: "pval list \<Rightarrow> nat \<Rightarrow> bytes option" where
  "structPointer_Bytes base f = (case base ! f of FBytes v \<Rightarrow> v | _ \<Rightarrow> None)"

definition structPointer_BytesSlice :: "pval list \<Rightarrow> nat \<Rightarrow> bytes list" where
  "structPointer_BytesSlice base f = (case base ! f of FBytesSlice v \<Rightarrow> v | _ \<Rightarrow> [])"

definition structPointer_GetStructPointer :: "pval list \<Rightarrow> nat \<Rightarrow> pval list option" where
  "structPointer_GetStructPointer base f = (case base ! f of FStructPointer v \<Rightarrow> v | _ \<Rightarrow> None)"

definition structPointer_StructPointerSlice :: "pval list \<Rightarrow> nat \<Rightarrow> pval list option list" where
  "structPointer_StructPointerSlice base f = (case base ! f of FStructPointerSlice v \<Rightarrow> v | _ \<Rightarrow> [])"

lemmas structPointer_defs = structPointer_Bool_def structPointer_BoolVal_def structPointer_BoolSlice_def structPointer_Word32_def structPointer_Word32Val_def structPointer_Word32Slice_def structPointer_Word64_def structPointer_Word64Val_def structPointer_Word64Slice_def structPointer_String_def structPointer_StringVal_def structPointer_StringSlice_def structPointer_Bytes_def structPointer_BytesSlice_def structPointer_GetStructPointer_def structPointer_StructPointerSlice_def

type_synonym enc_result = "(proto_error option \<times> Buffer) option"

text \<open>\<open>valEnc\<close> and \<open>valSize\<close> of a field, which are nil for wire types without numbers.\<close>

definition p_valEnc :: "Properties \<Rightarrow> 64 word \<Rightarrow> Buffer \<Rightarrow> enc_result" where
  "p_valEnc p x buf = map_option (\<lambda>c. (None, valEnc c x buf)) (p_val p)"

definition p_valSize :: "Properties \<Rightarrow> 64 word \<Rightarrow> nat option" where
  "p_valSize p x = map_option (\<lambda>c. valSize c x) (p_val p)"

definition enc_tag :: "Properties \<Rightarrow> Buffer \<Rightarrow> Buffer" where
  "enc_tag p buf = Buffer_append (p_tagcode p) buf"

definition bool_word :: "bool \<Rightarrow> 64 word" where
  "bool_word v = (if v then 1 else 0)"

section \<open>Single values\<close>

definition enc_bool :: "Properties \<Rightarrow> pval list \<Rightarrow> Buffer \<Rightarrow> enc_result" where
  "enc_bool p base buf = (case structPointer_Bool base (p_field p) of
     None \<Rightarrow> Some (Some ErrNil, buf)
   | Some v \<Rightarrow> p_valEnc p (bool_word v) (enc_tag p buf))"

definition enc_proto3_bool :: "Properties \<Rightarrow> pval list \<Rightarrow> Buffer \<Rightarrow> enc_result" where
  "enc_proto3_bool p base buf =
     (if \<not> structPointer_BoolVal base (p_field p) then Some (Some ErrNil, buf) else p_valEnc p 1 (enc_tag p buf))"

definition size_bool :: "Properties \<Rightarrow> pval list \<Rightarrow> nat option" where
  "size_bool p base = (case structPointer_Bool base (p_field p) of None \<Rightarrow> Some 0 | Some v \<Rightarrow> Some (length (p_tagcode p) + 1))"

definition size_proto3_bool :: "Properties \<Rightarrow> pval list \<Rightarrow> nat option" where
  "size_proto3_bool p base = (if \<not> structPointer_BoolVal base (p_field p) then Some 0 else Some (length (p_tagcode p) + 1))"

definition tag_plus :: "Properties \<Rightarrow> nat option \<Rightarrow> nat option" where
  "tag_plus p n = map_option (\<lambda>k. length (p_tagcode p) + k) n"

definition enc_int32 :: "Properties \<Rightarrow> pval list \<Rightarrow> Buffer \<Rightarrow> enc_result" where
  "enc_int32 p base buf = (case structPointer_Word32 base (p_field p) of
     None \<Rightarrow> Some (Some ErrNil, buf)
   | Some x \<Rightarrow> p_valEnc p (scast x) (enc_tag p buf))"

definition enc_proto3_int32 :: "Properties \<Rightarrow> pval list \<Rightarrow> Buffer \<Rightarrow> enc_result" where
  "enc_proto3_int32 p base buf =
     (let x = structPointer_Word32Val base (p_field p) in
      if x = 0 then Some (Some ErrNil, buf) else p_valEnc p (scast x) (enc_tag p buf))"

definition size_int32 :: "Properties \<Rightarrow> pval list \<Rightarrow> nat option" where
  "size_int32 p base = (case structPointer_Word32 base (p_field p) of None \<Rightarrow> Some 0 | Some x \<Rightarrow> tag_plus p (p_valSize p (scast x)))"

definition size_proto3_int32 :: "Properties \<Rightarrow> pval list \<Rightarrow> nat option" where
  "size_proto3_int32 p base =
     (let x = structPointer_Word32Val base (p_field p) in if x = 0 then Some 0 else tag_plus p (p_valSize p (scast x)))"

definition enc_uint32 :: "Properties \<Rightarrow> pval list \<Rightarrow> Buffer \<Rightarrow> enc_result" where
  "enc_uint32 p base buf = (case structPointer_Word32 base (p_field p) of
     None \<Rightarrow> Some (Some ErrNil, buf)
   | Some x \<Rightarrow> p_valEnc p (ucast x) (enc_tag p buf))"

definition enc_proto3_uint32 :: "Properties \<Rightarrow> pval list \<Rightarrow> Buffer \<Rightarrow> enc_result" where
  "enc_proto3_uint32 p base buf =
     (let x = structPointer_Word32Val base (p_field p) in
      if x = 0 then Some (Some ErrNil, buf) else p_valEnc p (ucast x) (enc_tag p buf))"

definition size_uint32 :: "Properties \<Rightarrow> pval list \<Rightarrow> nat option" where
  "size_uint32 p base = (case structPointer_Word32 base (p_field p) of None \<Rightarrow> Some 0 | Some x \<Rightarrow> tag_plus p (p_valSize p (ucast x)))"

definition size_proto3_uint32 :: "Properties \<Rightarrow> pval list \<Rightarrow> nat option" where
  "size_proto3_uint32 p base =
     (let x = structPointer_Word32Val base (p_field p) in if x = 0 then Some 0 else tag_plus p (p_valSize p (ucast x)))"

definition enc_int64 :: "Properties \<Rightarrow> pval list \<Rightarrow> Buffer \<Rightarrow> enc_result" where
  "enc_int64 p base buf = (case structPointer_Word64 base (p_field p) of
     None \<Rightarrow> Some (Some ErrNil, buf)
   | Some x \<Rightarrow> p_valEnc p x (enc_tag p buf))"

definition enc_proto3_int64 :: "Properties \<Rightarrow> pval list \<Rightarrow> Buffer \<Rightarrow> enc_result" where
  "enc_proto3_int64 p base buf =
     (let x = structPointer_Word64Val base (p_field p) in
      if x = 0 then Some (Some ErrNil, buf) else p_valEnc p x (enc_tag p buf))"

definition size_int64 :: "Properties \<Rightarrow> pval list \<Rightarrow> nat option" where
  "size_int64 p base = (case structPointer_Word64 base (p_field p) of None \<Rightarrow> Some 0 | Some x \<Rightarrow> tag_plus p (p_valSize p x))"

definition size_proto3_int64 :: "Properties \<Rightarrow> pval list \<Rightarrow> nat option" where
  "size_proto3_int64 p base =
     (let x = structPointer_Word64Val base (p_field p) in if x = 0 then Some 0 else tag_plus p (p_valSize p x))"

definition enc_string :: "Properties \<Rightarrow> pval list \<Rightarrow> Buffer \<Rightarrow> enc_result" where
  "enc_string p base buf = (case structPointer_String base (p_field p) of
     None \<Rightarrow> Some (Some ErrNil, buf)
   | Some x \<Rightarrow> Some (None, Buffer_EncodeStringBytes x (enc_tag p buf)))"

definition enc_proto3_string :: "Properties \<Rightarrow> pval list \<Rightarrow> Buffer \<Rightarrow> enc_result" where
  "enc_proto3_string p base buf =
     (let v = structPointer_StringVal base (p_field p) in
      if v = [] then Some (Some ErrNil, buf) else Some (None, Buffer_EncodeStringBytes v (enc_tag p buf)))"

definition size_string :: "Properties \<Rightarrow> pval list \<Rightarrow> nat option" where
  "size_string p base = (case structPointer_String base (p_field p) of None \<Rightarrow> Some 0 | Some x \<Rightarrow> Some (length (p_tagcode p) + sizeStringBytes x))"

definition size_proto3_string :: "Properties \<Rightarrow> pval list \<Rightarrow> nat option" where
  "size_proto3_string p base =
     (let v = structPointer_StringVal base (p_field p) in if v = [] then Some 0 else Some (length (p_tagcode p) + sizeStringBytes v))"

definition enc_slice_byte :: "Properties \<Rightarrow> pval list \<Rightarrow> Buffer \<Rightarrow> enc_result" where
  "enc_slice_byte p base buf = (case structPointer_Bytes base (p_field p) of
     None \<Rightarrow> Some (Some ErrNil, buf)
   | Some s \<Rightarrow> Some (None, Buffer_EncodeRawBytes s (enc_tag p buf)))"

definition enc_proto3_slice_byte :: "Properties \<Rightarrow> pval list \<Rightarrow> Buffer \<Rightarrow> enc_result" where
  "enc_proto3_slice_byte p base buf = (case structPointer_Bytes base (p_field p) of
     None \<Rightarrow> Some (Some ErrNil, buf)
   | Some s \<Rightarrow> if length s = 0 then Some (Some ErrNil, buf) else Some (None, Buffer_EncodeRawBytes s (enc_tag p buf)))"

definition size_slice_byte :: "Properties \<Rightarrow> pval list \<Rightarrow> nat option" where
  "size_slice_byte p base = (case structPointer_Bytes base (p_field p) of None \<Rightarrow> Some 0 | Some s \<Rightarrow> Some (length (p_tagcode p) + sizeRawBytes s))"

definition size_proto3_slice_byte :: "Properties \<Rightarrow> pval list \<Rightarrow> nat option" where
  "size_proto3_slice_byte p base = (case structPointer_Bytes base (p_field p) of
     None \<Rightarrow> Some 0
   | Some s \<Rightarrow> if length s = 0 then Some 0 else Some (length (p_tagcode p) + sizeRawBytes s))"

section \<open>Slices of values\<close>

text \<open>The loops over the elements: values alone, and each behind the tag.\<close>

fun enc_values :: "Properties \<Rightarrow> 64 word list \<Rightarrow> Buffer \<Rightarrow> enc_result" where
  "enc_values p [] buf = Some (None, buf)"
| "enc_values p (x # xs) buf = p_valEnc p x buf \<bind> (\<lambda>(_, buf). enc_values p xs buf)"

fun enc_each :: "Properties \<Rightarrow> 64 word list \<Rightarrow> Buffer \<Rightarrow> enc_result" where
  "enc_each p [] buf = Some (None, buf)"
| "enc_each p (x # xs) buf = p_valEnc p x (enc_tag p buf) \<bind> (\<lambda>(_, buf). enc_each p xs buf)"

fun size_values :: "Properties \<Rightarrow> 64 word list \<Rightarrow> nat option" where
  "size_values p [] = Some 0"
| "size_values p (x # xs) = p_valSize p x \<bind> (\<lambda>n. map_option (\<lambda>m. n + m) (size_values p xs))"

fun size_each :: "Properties \<Rightarrow> 64 word list \<Rightarrow> nat option" where
  "size_each p [] = Some 0"
| "size_each p (x # xs) = tag_plus p (p_valSize p x) \<bind> (\<lambda>n. map_option (\<lambda>m. n + m) (size_each p xs))"

definition enc_slice_bool :: "Properties \<Rightarrow> pval list \<Rightarrow> Buffer \<Rightarrow> enc_result" where
  "enc_slice_bool p base buf =
     (let s = structPointer_BoolSlice base (p_field p) in
      if length s = 0 then Some (Some ErrNil, buf) else enc_each p (map bool_word s) buf)"

definition size_slice_bool :: "Properties \<Rightarrow> pval list \<Rightarrow> nat option" where
  "size_slice_bool p base =
     (let l = length (structPointer_BoolSlice base (p_field p)) in
      if l = 0 then Some 0 else Some (l * (length (p_tagcode p) + 1)))"

definition enc_slice_packed_bool :: "Properties \<Rightarrow> pval list \<Rightarrow> Buffer \<Rightarrow> enc_result" where
  "enc_slice_packed_bool p base buf =
     (let s = structPointer_BoolSlice base (p_field p) in
      if length s = 0 then Some (Some ErrNil, buf)
      else enc_values p (map bool_word s) (Buffer_EncodeVarint (of_nat (length s)) (enc_tag p buf)))"

definition size_slice_packed_bool :: "Properties \<Rightarrow> pval list \<Rightarrow> nat option" where
  "size_slice_packed_bool p base =
     (let l = length (structPointer_BoolSlice base (p_field p)) in
      if l = 0 then Some 0 else Some (length (p_tagcode p) + sizeVarint (of_nat l) + l))"

text \<open>The end of the packed encoders: the values are encoded in a buffer of their own first.\<close>

definition enc_packed :: "Properties \<Rightarrow> 64 word list \<Rightarrow> Buffer \<Rightarrow> enc_result" where
  "enc_packed p xs buf = enc_values p xs (NewBuffer []) \<bind> (\<lambda>(_, b).
     let buf = Buffer_EncodeVarint (of_nat (length (pb_buf b))) (enc_tag p buf) in Some (None, Buffer_append (pb_buf b) buf))"

definition size_packed :: "Properties \<Rightarrow> 64 word list \<Rightarrow> nat option" where
  "size_packed p xs = map_option (\<lambda>bufSize. length (p_tagcode p) + sizeVarint (of_nat bufSize) + bufSize) (size_values p xs)"

definition enc_slice_int32 :: "Properties \<Rightarrow> pval list \<Rightarrow> Buffer \<Rightarrow> enc_result" where
  "enc_slice_int32 p base buf =
     (let s = structPointer_Word32Slice base (p_field p) in
      if length s = 0 then Some (Some ErrNil, buf) else enc_each p (map scast s) buf)"

definition size_slice_int32 :: "Properties \<Rightarrow> pval list \<Rightarrow> nat option" where
  "size_slice_int32 p base =
     (let s = structPointer_Word32Slice base (p_field p) in
      if length s = 0 then Some 0 else size_each p (map scast s))"

definition enc_slice_packed_int32 :: "Properties \<Rightarrow> pval list \<Rightarrow> Buffer \<Rightarrow> enc_result" where
  "enc_slice_packed_int32 p base buf =
     (let s = structPointer_Word32Slice base (p_field p) in
      if length s = 0 then Some (Some ErrNil, buf) else enc_packed p (map scast s) buf)"

definition size_slice_packed_int32 :: "Properties \<Rightarrow> pval list \<Rightarrow> nat option" where
  "size_slice_packed_int32 p base =
     (let s = structPointer_Word32Slice base (p_field p) in
      if length s = 0 then Some 0 else size_packed p (map scast s))"

definition enc_slice_uint32 :: "Properties \<Rightarrow> pval list \<Rightarrow> Buffer \<Rightarrow> enc_result" where
  "enc_slice_uint32 p base buf =
     (let s = structPointer_Word32Slice base (p_field p) in
      if length s = 0 then Some (Some ErrNil, buf) else enc_each p (map ucast s) buf)"

definition size_slice_uint32 :: "Properties \<Rightarrow> pval list \<Rightarrow> nat option" where
  "size_slice_uint32 p base =
     (let s = structPointer_Word32Slice base (p_field p) in
      if length s = 0 then Some 0 else size_each p (map ucast s))"

definition enc_slice_packed_uint32 :: "Properties \<Rightarrow> pval list \<Rightarrow> Buffer \<Rightarrow> enc_result" where
  "enc_slice_packed_uint32 p base buf =
     (let s = structPointer_Word32Slice base (p_field p) in
      if length s = 0 then Some (Some ErrNil, buf) else enc_packed p (map ucast s) buf)"

definition size_slice_packed_uint32 :: "Properties \<Rightarrow> pval list \<Rightarrow> nat option" where
  "size_slice_packed_uint32 p base =
     (let s = structPointer_Word32Slice base (p_field p) in
      if length s = 0 then Some 0 else size_packed p (map ucast s))"

definition enc_slice_int64 :: "Properties \<Rightarrow> pval list \<Rightarrow> Buffer \<Rightarrow> enc_result" where
  "enc_slice_int64 p base buf =
     (let s = structPointer_Word64Slice base (p_field p) in
      if length s = 0 then Some (Some ErrNil, buf) else enc_each p s buf)"

definition size_slice_int64 :: "Properties \<Rightarrow> pval list \<Rightarrow> nat option" where
  "size_slice_int64 p base =
     (let s = structPointer_Word64Slice base (p_field p) in
      if length s = 0 then Some 0 else size_each p s)"

definition enc_slice_packed_int64 :: "Properties \<Rightarrow> pval list \<Rightarrow> Buffer \<Rightarrow> enc_result" where
  "enc_slice_packed_int64 p base buf =
     (let s = structPointer_Word64Slice base (p_field p) in
      if length s = 0 then Some (Some ErrNil, buf) else enc_packed p s buf)"

definition size_slice_packed_int64 :: "Properties \<Rightarrow> pval list \<Rightarrow> nat option" where
  "size_slice_packed_int64 p base =
     (let s = structPointer_Word64Slice base (p_field p) in
      if length s = 0 then Some 0 else size_packed p s)"

definition enc_slice_slice_byte :: "Properties \<Rightarrow> pval list \<Rightarrow> Buffer \<Rightarrow> enc_result" where
  "enc_slice_slice_byte p base buf =
     (let ss = structPointer_BytesSlice base (p_field p) in
      if length ss = 0 then Some (Some ErrNil, buf)
      else Some (None, foldl (\<lambda>buf s. Buffer_EncodeRawBytes s (enc_tag p buf)) buf ss))"

definition size_slice_slice_byte :: "Properties \<Rightarrow> pval list \<Rightarrow> nat option" where
  "size_slice_slice_byte p base =
     (let ss = structPointer_BytesSlice base (p_field p) in
      if length ss = 0 then Some 0 else Some (length ss * length (p_tagcode p) + sum_list (map sizeRawBytes ss)))"

definition enc_slice_string :: "Properties \<Rightarrow> pval list \<Rightarrow> Buffer \<Rightarrow> enc_result" where
  "enc_slice_string p base buf =
     Some (None, foldl (\<lambda>buf s. Buffer_EncodeStringBytes s (enc_tag p buf)) buf (structPointer_StringSlice base (p_field p)))"

definition size_slice_string :: "Properties \<Rightarrow> pval list \<Rightarrow> nat option" where
  "size_slice_string p base =
     (let ss = structPointer_StringSlice base (p_field p) in
      Some (length ss * length (p_tagcode p) + sum_list (map sizeStringBytes ss)))"

section \<open>Messages in messages\<close>

text \<open>\<open>errorState\<close> is the first error that is only remembered.  The result is whether to continue, and the state.\<close>

definition shouldContinue :: "proto_error option \<Rightarrow> proto_error \<Rightarrow> Properties option \<Rightarrow> bool \<times> proto_error option" where
  "shouldContinue s err prop = (case err of
     RequiredNotSetError f \<Rightarrow>
       (True, case s of
          Some e \<Rightarrow> Some e
        | None \<Rightarrow> Some (case prop of None \<Rightarrow> err | Some p \<Rightarrow> RequiredNotSetError (p_Name p @ lit ''.'' @ f)))
   | _ \<Rightarrow> (False, s))"

definition continue_on :: "proto_error option \<Rightarrow> proto_error option \<Rightarrow> bool \<times> proto_error option" where
  "continue_on s err = (case err of None \<Rightarrow> (True, s) | Some e \<Rightarrow> shouldContinue s e None)"

text \<open>
  \<open>enc_len_thing\<close>: four bytes are kept free for the length, the thing is encoded, moved to where it belongs, and the length is written before it.  The last two slice
  expressions shorten the buffer, append the length over what is in the array behind it, and give back the moved bytes; \<open>b\<close> is that array.
  The result is the error, the error state and the buffer.
\<close>

definition enc_len_thing ::
  "(Buffer \<Rightarrow> enc_result) \<Rightarrow> proto_error option \<Rightarrow> Buffer \<Rightarrow> (proto_error option \<times> proto_error option \<times> Buffer) option" where
  "enc_len_thing enc state buf =
     (let iLen = length (pb_buf buf);
          buf = Buffer_append [0, 0, 0, 0] buf;
          iMsg = length (pb_buf buf) in
      enc buf \<bind> (\<lambda>(err, buf).
      let (go, state) = continue_on state err in
      if \<not> go then Some (err, state, buf)
      else
        let lMsg = length (pb_buf buf) - iMsg;
            lLen = sizeVarint (of_nat lMsg);
            msg = take lMsg (drop iMsg (pb_buf buf)) in
        (if lLen > iMsg - iLen then copy_at (pb_buf buf @ replicate (lLen - (iMsg - iLen)) 0) (iMsg + (lLen - (iMsg - iLen))) msg
         else if lLen < iMsg - iLen
         then map_option (take (length (pb_buf buf) - (iMsg - iLen - lLen))) (copy_at (pb_buf buf) (iMsg - (iMsg - iLen - lLen)) msg)
         else Some (pb_buf buf)) \<bind> (\<lambda>b.
        let buf = Buffer_EncodeVarint (of_nat lMsg) (buf\<lparr>pb_buf := take iLen b\<rparr>) in
        Some (state, state, Buffer_append (take lMsg (drop (length (pb_buf buf)) b)) buf))))"

type_synonym struct_enc = "nat \<Rightarrow> pval list \<Rightarrow> Buffer \<Rightarrow> enc_result"

definition enc_len_struct ::
  "struct_enc \<Rightarrow> nat \<Rightarrow> pval list \<Rightarrow> proto_error option \<Rightarrow> Buffer \<Rightarrow> (proto_error option \<times> proto_error option \<times> Buffer) option" where
  "enc_len_struct enc t b state buf = enc_len_thing (enc t b) state buf"

definition enc_struct_message :: "struct_enc \<Rightarrow> Properties \<Rightarrow> pval list \<Rightarrow> Buffer \<Rightarrow> enc_result" where
  "enc_struct_message enc p base buf = (case structPointer_GetStructPointer base (p_field p) of
     None \<Rightarrow> Some (Some ErrNil, buf)
   | Some structp \<Rightarrow> map_option (\<lambda>(err, _, buf). (err, buf)) (enc_len_struct enc (p_stype p) structp None (enc_tag p buf)))"

text \<open>The tags around a group, \<open>uint64((p.Tag << 3) | wire)\<close>.\<close>

definition group_tag :: "Properties \<Rightarrow> int \<Rightarrow> 64 word" where
  "group_tag p wire = push_bit 3 (word_of_int (p_Tag p)) OR word_of_int wire"

definition enc_struct_group :: "struct_enc \<Rightarrow> Properties \<Rightarrow> pval list \<Rightarrow> Buffer \<Rightarrow> enc_result" where
  "enc_struct_group enc p base buf = (case structPointer_GetStructPointer base (p_field p) of
     None \<Rightarrow> Some (Some ErrNil, buf)
   | Some b \<Rightarrow> enc (p_stype p) b (Buffer_EncodeVarint (group_tag p WireStartGroup) buf) \<bind> (\<lambda>(err, buf).
       let (go, state) = continue_on None err in
       if \<not> go then Some (err, buf) else Some (state, Buffer_EncodeVarint (group_tag p WireEndGroup) buf)))"

definition repeated_error :: "proto_error option \<Rightarrow> proto_error option" where
  "repeated_error err = (if err = Some ErrNil then Some ErrRepeatedHasNil else err)"

fun enc_structs_message :: "struct_enc \<Rightarrow> Properties \<Rightarrow> proto_error option \<Rightarrow> pval list option list \<Rightarrow> Buffer \<Rightarrow> enc_result" where
  "enc_structs_message enc p state [] buf = Some (state, buf)"
| "enc_structs_message enc p state (None # s) buf = Some (Some ErrRepeatedHasNil, buf)"
| "enc_structs_message enc p state (Some structp # s) buf =
     enc_len_struct enc (p_stype p) structp state (enc_tag p buf) \<bind> (\<lambda>(err, state, buf).
     let (go, state) = continue_on state err in
     if \<not> go then Some (repeated_error err, buf) else enc_structs_message enc p state s buf)"

definition enc_slice_struct_message :: "struct_enc \<Rightarrow> Properties \<Rightarrow> pval list \<Rightarrow> Buffer \<Rightarrow> enc_result" where
  "enc_slice_struct_message enc p base buf = enc_structs_message enc p None (structPointer_StructPointerSlice base (p_field p)) buf"

fun enc_structs_group :: "struct_enc \<Rightarrow> Properties \<Rightarrow> proto_error option \<Rightarrow> pval list option list \<Rightarrow> Buffer \<Rightarrow> enc_result" where
  "enc_structs_group enc p state [] buf = Some (state, buf)"
| "enc_structs_group enc p state (None # s) buf = Some (Some ErrRepeatedHasNil, buf)"
| "enc_structs_group enc p state (Some b # s) buf =
     enc (p_stype p) b (Buffer_EncodeVarint (group_tag p WireStartGroup) buf) \<bind> (\<lambda>(err, buf).
     let (go, state) = continue_on state err in
     if \<not> go then Some (repeated_error err, buf)
     else enc_structs_group enc p state s (Buffer_EncodeVarint (group_tag p WireEndGroup) buf))"

definition enc_slice_struct_group :: "struct_enc \<Rightarrow> Properties \<Rightarrow> pval list \<Rightarrow> Buffer \<Rightarrow> enc_result" where
  "enc_slice_struct_group enc p base buf = enc_structs_group enc p None (structPointer_StructPointerSlice base (p_field p)) buf"

type_synonym struct_size = "nat \<Rightarrow> pval list \<Rightarrow> nat option"

definition size_struct_message :: "struct_size \<Rightarrow> Properties \<Rightarrow> pval list \<Rightarrow> nat option" where
  "size_struct_message sz p base = (case structPointer_GetStructPointer base (p_field p) of
     None \<Rightarrow> Some 0
   | Some structp \<Rightarrow> map_option (\<lambda>n1. length (p_tagcode p) + n1 + sizeVarint (of_nat n1)) (sz (p_stype p) structp))"

definition size_struct_group :: "struct_size \<Rightarrow> Properties \<Rightarrow> pval list \<Rightarrow> nat option" where
  "size_struct_group sz p base = (case structPointer_GetStructPointer base (p_field p) of
     None \<Rightarrow> Some 0
   | Some b \<Rightarrow> map_option (\<lambda>n. sizeVarint (group_tag p WireStartGroup) + n + sizeVarint (group_tag p WireEndGroup)) (sz (p_stype p) b))"

text \<open>The loops over slices of messages, which end at a nil element.\<close>

fun size_structs :: "(pval list \<Rightarrow> nat option) \<Rightarrow> pval list option list \<Rightarrow> nat option" where
  "size_structs sz [] = Some 0"
| "size_structs sz (None # s) = Some 0"
| "size_structs sz (Some structp # s) = sz structp \<bind> (\<lambda>n. map_option (\<lambda>m. n + m) (size_structs sz s))"

definition size_slice_struct_message :: "struct_size \<Rightarrow> Properties \<Rightarrow> pval list \<Rightarrow> nat option" where
  "size_slice_struct_message sz p base =
     (let s = structPointer_StructPointerSlice base (p_field p) in
      map_option (\<lambda>n. length s * length (p_tagcode p) + n)
        (size_structs (\<lambda>structp. map_option (\<lambda>n0. n0 + sizeVarint (of_nat n0)) (sz (p_stype p) structp)) s))"

definition size_slice_struct_group :: "struct_size \<Rightarrow> Properties \<Rightarrow> pval list \<Rightarrow> nat option" where
  "size_slice_struct_group sz p base =
     (let s = structPointer_StructPointerSlice base (p_field p) in
      map_option (\<lambda>n. length s * sizeVarint (group_tag p WireStartGroup) + length s * sizeVarint (group_tag p WireEndGroup) + n)
        (size_structs (sz (p_stype p)) s))"

section \<open>Messages\<close>

text \<open>The encoder and the sizer that \<open>setEncAndDec\<close> sets.\<close>

fun p_enc :: "struct_enc \<Rightarrow> coder \<Rightarrow> Properties \<Rightarrow> pval list \<Rightarrow> Buffer \<Rightarrow> enc_result" where
  "p_enc enc C3Bool = enc_proto3_bool"
| "p_enc enc C3Int32 = enc_proto3_int32"
| "p_enc enc C3Uint32 = enc_proto3_uint32"
| "p_enc enc C3Int64 = enc_proto3_int64"
| "p_enc enc C3String = enc_proto3_string"
| "p_enc enc CBool = enc_bool"
| "p_enc enc CInt32 = enc_int32"
| "p_enc enc CUint32 = enc_uint32"
| "p_enc enc CInt64 = enc_int64"
| "p_enc enc CString = enc_string"
| "p_enc enc CMessage = enc_struct_message enc"
| "p_enc enc CGroup = enc_struct_group enc"
| "p_enc enc CSliceBool = enc_slice_bool"
| "p_enc enc CPackedBool = enc_slice_packed_bool"
| "p_enc enc CSliceInt32 = enc_slice_int32"
| "p_enc enc CPackedInt32 = enc_slice_packed_int32"
| "p_enc enc CSliceUint32 = enc_slice_uint32"
| "p_enc enc CPackedUint32 = enc_slice_packed_uint32"
| "p_enc enc CSliceInt64 = enc_slice_int64"
| "p_enc enc CPackedInt64 = enc_slice_packed_int64"
| "p_enc enc CBytes = enc_slice_byte"
| "p_enc enc C3Bytes = enc_proto3_slice_byte"
| "p_enc enc CSliceString = enc_slice_string"
| "p_enc enc CSliceMessage = enc_slice_struct_message enc"
| "p_enc enc CSliceGroup = enc_slice_struct_group enc"
| "p_enc enc CSliceBytes = enc_slice_slice_byte"

fun p_size :: "struct_size \<Rightarrow> coder \<Rightarrow> Properties \<Rightarrow> pval list \<Rightarrow> nat option" where
  "p_size sz C3Bool = size_proto3_bool"
| "p_size sz C3Int32 = size_proto3_int32"
| "p_size sz C3Uint32 = size_proto3_uint32"
| "p_size sz C3Int64 = size_proto3_int64"
| "p_size sz C3String = size_proto3_string"
| "p_size sz CBool = size_bool"
| "p_size sz CInt32 = size_int32"
| "p_size sz CUint32 = size_uint32"
| "p_size sz CInt64 = size_int64"
| "p_size sz CString = size_string"
| "p_size sz CMessage = size_struct_message sz"
| "p_size sz CGroup = size_struct_group sz"
| "p_size sz CSliceBool = size_slice_bool"
| "p_size sz CPackedBool = size_slice_packed_bool"
| "p_size sz CSliceInt32 = size_slice_int32"
| "p_size sz CPackedInt32 = size_slice_packed_int32"
| "p_size sz CSliceUint32 = size_slice_uint32"
| "p_size sz CPackedUint32 = size_slice_packed_uint32"
| "p_size sz CSliceInt64 = size_slice_int64"
| "p_size sz CPackedInt64 = size_slice_packed_int64"
| "p_size sz CBytes = size_slice_byte"
| "p_size sz C3Bytes = size_proto3_slice_byte"
| "p_size sz CSliceString = size_slice_string"
| "p_size sz CSliceMessage = size_slice_struct_message sz"
| "p_size sz CSliceGroup = size_slice_struct_group sz"
| "p_size sz CSliceBytes = size_slice_slice_byte"

text \<open>The loop of \<open>enc_struct\<close> over the fields in the order of their tags.  The result is the error it returns with, if any, the error state and the buffer.\<close>

fun enc_fields :: "struct_enc \<Rightarrow> Properties list \<Rightarrow> pval list \<Rightarrow> nat list \<Rightarrow> proto_error option \<Rightarrow> Buffer \<Rightarrow>
  (proto_error option \<times> proto_error option \<times> Buffer) option" where
  "enc_fields enc props base [] state buf = Some (None, state, buf)"
| "enc_fields enc props base (i # is) state buf =
     (let p = props ! i in
      case p_coder p of
        None \<Rightarrow> enc_fields enc props base is state buf
      | Some c \<Rightarrow> (case p_enc enc c p base buf of
          None \<Rightarrow> None
        | Some (None, buf) \<Rightarrow> enc_fields enc props base is state buf
        | Some (Some err, buf) \<Rightarrow>
            if err = ErrNil
            then enc_fields enc props base is (if p_Required p \<and> state = None then Some (RequiredNotSetError (p_Name p)) else state) buf
            else if err = ErrRepeatedHasNil then Some (Some (ErrHasNilElement (p_OrigName p)), state, buf)
            else
              let (go, state) = shouldContinue state err (Some p) in
              if \<not> go then Some (Some err, state, buf) else enc_fields enc props base is state buf))"

type_synonym struct_types = "nat \<Rightarrow> struct_field list"

fun enc_struct :: "nat \<Rightarrow> struct_types \<Rightarrow> struct_enc" where
  "enc_struct 0 tys t base buf = None"
| "enc_struct (Suc n) tys t base buf =
     (let prop = getProperties (tys t) in
      enc_fields (enc_struct n tys) (sp_Prop prop) base (sp_order prop) None buf \<bind> (\<lambda>(err, state, buf).
      if err \<noteq> None then Some (err, buf)
      else Some (state, case sp_unrecField prop of
        None \<Rightarrow> buf
      | Some f \<Rightarrow> (case structPointer_Bytes base f of None \<Rightarrow> buf | Some v \<Rightarrow> if length v > 0 then Buffer_append v buf else buf))))"

fun size_fields :: "struct_size \<Rightarrow> Properties list \<Rightarrow> pval list \<Rightarrow> nat list \<Rightarrow> nat option" where
  "size_fields sz props base [] = Some 0"
| "size_fields sz props base (i # is) =
     (case p_coder (props ! i) of None \<Rightarrow> Some 0 | Some c \<Rightarrow> p_size sz c (props ! i) base) \<bind>
     (\<lambda>n. map_option (\<lambda>m. n + m) (size_fields sz props base is))"

fun size_struct :: "nat \<Rightarrow> struct_types \<Rightarrow> struct_size" where
  "size_struct 0 tys t base = None"
| "size_struct (Suc n) tys t base =
     (let prop = getProperties (tys t) in
      map_option (\<lambda>n. n + (case sp_unrecField prop of None \<Rightarrow> 0 | Some f \<Rightarrow> (case structPointer_Bytes base f of None \<Rightarrow> 0 | Some v \<Rightarrow> length v)))
        (size_fields (size_struct n tys) (sp_Prop prop) base (sp_order prop)))"

text \<open>A message is a pointer to a struct.  The size of the struct is more than its nesting.\<close>

definition msg_fuel :: "pval list \<Rightarrow> nat" where
  "msg_fuel base = Suc (size_list size base)"

definition Buffer_Marshal :: "struct_types \<Rightarrow> nat \<Rightarrow> pval list option \<Rightarrow> Buffer \<Rightarrow> enc_result" where
  "Buffer_Marshal tys t pb buf = (case pb of
     None \<Rightarrow> Some (Some ErrNil, buf)
   | Some base \<Rightarrow> enc_struct (msg_fuel base) tys t base buf)"

definition Marshal :: "struct_types \<Rightarrow> nat \<Rightarrow> pval list option \<Rightarrow> (bytes \<times> proto_error option) option" where
  "Marshal tys t pb = map_option (\<lambda>(err, buf).
     if err \<noteq> None \<and> \<not> fst (continue_on None err) then ([], err) else (pb_buf buf, err)) (Buffer_Marshal tys t pb (NewBuffer []))"

definition Size :: "struct_types \<Rightarrow> nat \<Rightarrow> pval list option \<Rightarrow> nat option" where
  "Size tys t pb = (case pb of
     None \<Rightarrow> Some 0
   | Some base \<Rightarrow> size_struct (msg_fuel base) tys t base)"

end
