(* ===== verification/Proto_Decode.thy ===== *)
theory Proto_Decode
  imports Proto_Encode
begin

text \<open>
  Messages from the wire format, \<open>lib/proto/decode.go\<close>: one decoder for each kind of field, \<open>unmarshalType\<close> with the fields it does not know and the count of required
  fields, and \<open>Unmarshal\<close>.

  A decoder gives the error, the struct, which it may have changed also with an error, and the buffer.  Fuel bounds nesting and fields; \<open>None\<close> is a panic, the call of a
  missing decoder of values, or running out of fuel.
\<close>

type_synonym dec_result = "(proto_error option \<times> pval list \<times> Buffer) option"

section \<open>Single values\<close>

definition p_valDec :: "Properties \<Rightarrow> Buffer \<Rightarrow> ((proto_error + 64 word) \<times> Buffer) option" where
  "p_valDec p buf = map_option (\<lambda>c. valDec c buf) (p_val p)"

text \<open>Read a value, leave with the error, or store it in the field.\<close>

definition dec_value :: "((proto_error + 'a) \<times> Buffer) option \<Rightarrow> Properties \<Rightarrow> pval list \<Rightarrow> ('a \<Rightarrow> pval) \<Rightarrow> dec_result" where
  "dec_value r p base store = (case r of
     None \<Rightarrow> None
   | Some (Inl err, buf) \<Rightarrow> Some (Some err, base, buf)
   | Some (Inr u, buf) \<Rightarrow> Some (None, base[p_field p := store u], buf))"

definition dec_bool :: "Properties \<Rightarrow> pval list \<Rightarrow> Buffer \<Rightarrow> dec_result" where
  "dec_bool p base buf = dec_value (p_valDec p buf) p base (\<lambda>u. FBool (Some (u \<noteq> 0)))"

definition dec_proto3_bool :: "Properties \<Rightarrow> pval list \<Rightarrow> Buffer \<Rightarrow> dec_result" where
  "dec_proto3_bool p base buf = dec_value (p_valDec p buf) p base (\<lambda>u. FBoolVal (u \<noteq> 0))"

definition dec_int32 :: "Properties \<Rightarrow> pval list \<Rightarrow> Buffer \<Rightarrow> dec_result" where
  "dec_int32 p base buf = dec_value (p_valDec p buf) p base (\<lambda>u. FWord32 (Some (ucast u)))"

definition dec_proto3_int32 :: "Properties \<Rightarrow> pval list \<Rightarrow> Buffer \<Rightarrow> dec_result" where
  "dec_proto3_int32 p base buf = dec_value (p_valDec p buf) p base (\<lambda>u. FWord32Val (ucast u))"

definition dec_int64 :: "Properties \<Rightarrow> pval list \<Rightarrow> Buffer \<Rightarrow> dec_result" where
  "dec_int64 p base buf = dec_value (p_valDec p buf) p base (\<lambda>u. FWord64 (Some u))"

definition dec_proto3_int64 :: "Properties \<Rightarrow> pval list \<Rightarrow> Buffer \<Rightarrow> dec_result" where
  "dec_proto3_int64 p base buf = dec_value (p_valDec p buf) p base (\<lambda>u. FWord64Val u)"

definition dec_string :: "Properties \<Rightarrow> pval list \<Rightarrow> Buffer \<Rightarrow> dec_result" where
  "dec_string p base buf = dec_value (Some (Buffer_DecodeStringBytes buf)) p base (\<lambda>s. FString (Some s))"

definition dec_proto3_string :: "Properties \<Rightarrow> pval list \<Rightarrow> Buffer \<Rightarrow> dec_result" where
  "dec_proto3_string p base buf = dec_value (Some (Buffer_DecodeStringBytes buf)) p base (\<lambda>s. FStringVal s)"

definition dec_slice_byte :: "Properties \<Rightarrow> pval list \<Rightarrow> Buffer \<Rightarrow> dec_result" where
  "dec_slice_byte p base buf = dec_value (Some (Buffer_DecodeRawBytes True buf)) p base (\<lambda>b. FBytes (Some b))"

section \<open>Slices of values\<close>

definition dec_slice_bool :: "Properties \<Rightarrow> pval list \<Rightarrow> Buffer \<Rightarrow> dec_result" where
  "dec_slice_bool p base buf = dec_value (p_valDec p buf) p base
     (\<lambda>u. FBoolSlice (structPointer_BoolSlice base (p_field p) @ [u \<noteq> 0]))"

definition dec_slice_int32 :: "Properties \<Rightarrow> pval list \<Rightarrow> Buffer \<Rightarrow> dec_result" where
  "dec_slice_int32 p base buf = dec_value (p_valDec p buf) p base
     (\<lambda>u. FWord32Slice (structPointer_Word32Slice base (p_field p) @ [ucast u]))"

definition dec_slice_int64 :: "Properties \<Rightarrow> pval list \<Rightarrow> Buffer \<Rightarrow> dec_result" where
  "dec_slice_int64 p base buf = dec_value (p_valDec p buf) p base
     (\<lambda>u. FWord64Slice (structPointer_Word64Slice base (p_field p) @ [u]))"

definition dec_slice_string :: "Properties \<Rightarrow> pval list \<Rightarrow> Buffer \<Rightarrow> dec_result" where
  "dec_slice_string p base buf = dec_value (Some (Buffer_DecodeStringBytes buf)) p base
     (\<lambda>s. FStringSlice (structPointer_StringSlice base (p_field p) @ [s]))"

definition dec_slice_slice_byte :: "Properties \<Rightarrow> pval list \<Rightarrow> Buffer \<Rightarrow> dec_result" where
  "dec_slice_slice_byte p base buf = dec_value (Some (Buffer_DecodeRawBytes True buf)) p base
     (\<lambda>b. FBytesSlice (structPointer_BytesSlice base (p_field p) @ [b]))"

text \<open>
  The packed decoders.  The one of bools reads as many values as the length counts bytes, and stores them only when all could be read; the others read until they are at or behind the
  end, and each value is appended when it is read.
\<close>

fun packed_bools :: "Properties \<Rightarrow> nat \<Rightarrow> bool list \<Rightarrow> Buffer \<Rightarrow> ((proto_error + bool list) \<times> Buffer) option" where
  "packed_bools p 0 y buf = Some (Inr y, buf)"
| "packed_bools p (Suc n) y buf = (case p_valDec p buf of
     None \<Rightarrow> None
   | Some (Inl err, buf) \<Rightarrow> Some (Inl err, buf)
   | Some (Inr u, buf) \<Rightarrow> packed_bools p n (y @ [u \<noteq> 0]) buf)"

definition dec_slice_packed_bool :: "Properties \<Rightarrow> pval list \<Rightarrow> Buffer \<Rightarrow> dec_result" where
  "dec_slice_packed_bool p base buf = (case Buffer_DecodeVarint buf of
     (Inl err, buf) \<Rightarrow> Some (Some err, base, buf)
   | (Inr nn, buf) \<Rightarrow>
       dec_value (packed_bools p (nat (sint nn)) (structPointer_BoolSlice base (p_field p)) buf) p base FBoolSlice)"

lemma valDec_forward: "forward 1 p (valDec c p)"
proof (cases c)
  case CoZigzag32
  then show ?thesis
    using Buffer_DecodeVarint_forward [of p] by (auto simp: Buffer_DecodeZigzag32_def forward_def split: prod.splits sum.splits)
next
  case CoZigzag64
  then show ?thesis
    using Buffer_DecodeVarint_forward [of p] by (auto simp: Buffer_DecodeZigzag64_def forward_def split: prod.splits sum.splits)
qed (use Buffer_DecodeVarint_forward [of p] Buffer_DecodeFixed_forward [of p] in simp_all)

text \<open>The values up to \<open>fin\<close>, those read before an error included.\<close>

function packed_values :: "val_coder \<Rightarrow> int \<Rightarrow> 64 word list \<Rightarrow> Buffer \<Rightarrow> proto_error option \<times> 64 word list \<times> Buffer" where
  "packed_values c fin v buf =
     (if int (pb_index buf) < fin
      then (case valDec c buf of
          (Inl err, buf) \<Rightarrow> (Some err, v, buf)
        | (Inr u, buf) \<Rightarrow> packed_values c fin (v @ [u]) buf)
      else (None, v, buf))"
  by pat_completeness auto
termination
proof (relation "measure (\<lambda>(c, fin, v, buf). nat (fin - int (pb_index buf)))")
  fix c fin v buf r buf1 and u :: "64 word"
  assume "int (pb_index buf) < fin" "(r, buf1) = valDec c buf" "r = Inr u"
  moreover from this have "valDec c buf = (Inr u, buf1)" by simp
  ultimately show "((c, fin, v @ [u], buf1), (c, fin, v, buf)) \<in> measure (\<lambda>(c, fin, v, buf). nat (fin - int (pb_index buf)))"
    using valDec_forward [of buf c] by (simp add: forward_def)
qed simp

declare packed_values.simps [simp del]

definition dec_packed :: "Properties \<Rightarrow> pval list \<Rightarrow> Buffer \<Rightarrow> (64 word list \<Rightarrow> pval) \<Rightarrow> dec_result" where
  "dec_packed p base buf store = (case Buffer_DecodeVarint buf of
     (Inl err, buf) \<Rightarrow> Some (Some err, base, buf)
   | (Inr nn, buf) \<Rightarrow>
       (let fin = sint (of_nat (pb_index buf) + nn) in
        if fin < int (pb_index buf) then Some (Some ErrOverflow, base, buf)
        else if int (pb_index buf) < fin
        then map_option (\<lambda>c. let (err, v, buf) = packed_values c fin [] buf in (err, base[p_field p := store v], buf)) (p_val p)
        else Some (None, base, buf)))"

definition dec_slice_packed_int32 :: "Properties \<Rightarrow> pval list \<Rightarrow> Buffer \<Rightarrow> dec_result" where
  "dec_slice_packed_int32 p base buf =
     dec_packed p base buf (\<lambda>v. FWord32Slice (structPointer_Word32Slice base (p_field p) @ map ucast v))"

definition dec_slice_packed_int64 :: "Properties \<Rightarrow> pval list \<Rightarrow> Buffer \<Rightarrow> dec_result" where
  "dec_slice_packed_int64 p base buf =
     dec_packed p base buf (\<lambda>v. FWord64Slice (structPointer_Word64Slice base (p_field p) @ v))"

section \<open>Messages in messages\<close>

text \<open>A new struct has the zero value in every field.\<close>

fun zero_value :: "go_kind \<Rightarrow> pval" where
  "zero_value KBool = FBoolVal False"
| "zero_value KInt32 = FWord32Val 0"
| "zero_value KUint32 = FWord32Val 0"
| "zero_value KFloat32 = FWord32Val 0"
| "zero_value KInt64 = FWord64Val 0"
| "zero_value KUint64 = FWord64Val 0"
| "zero_value KFloat64 = FWord64Val 0"
| "zero_value KString = FStringVal []"
| "zero_value (KPtr k) = (case k of
     KBool \<Rightarrow> FBool None
   | KInt32 \<Rightarrow> FWord32 None | KUint32 \<Rightarrow> FWord32 None | KFloat32 \<Rightarrow> FWord32 None
   | KInt64 \<Rightarrow> FWord64 None | KUint64 \<Rightarrow> FWord64 None | KFloat64 \<Rightarrow> FWord64 None
   | KString \<Rightarrow> FString None
   | KStruct t \<Rightarrow> FStructPointer None
   | _ \<Rightarrow> FOther)"
| "zero_value (KSlice k) = (case k of
     KBool \<Rightarrow> FBoolSlice []
   | KInt32 \<Rightarrow> FWord32Slice [] | KUint32 \<Rightarrow> FWord32Slice [] | KFloat32 \<Rightarrow> FWord32Slice []
   | KInt64 \<Rightarrow> FWord64Slice [] | KUint64 \<Rightarrow> FWord64Slice [] | KFloat64 \<Rightarrow> FWord64Slice []
   | KString \<Rightarrow> FStringSlice []
   | KUint8 \<Rightarrow> FBytes None
   | KSlice KUint8 \<Rightarrow> FBytesSlice []
   | KPtr (KStruct t) \<Rightarrow> FStructPointerSlice []
   | _ \<Rightarrow> FOther)"
| "zero_value _ = FOther"

definition zero_struct :: "struct_field list \<Rightarrow> pval list" where
  "zero_struct fs = map (\<lambda>f. zero_value (sf_Type f)) fs"

text \<open>The decoder of messages: struct type, whether it is a group, the struct, and the buffer.\<close>

type_synonym struct_dec = "nat \<Rightarrow> bool \<Rightarrow> pval list \<Rightarrow> Buffer \<Rightarrow> dec_result"

text \<open>A nested message is decoded in the same buffer, with its bytes and its index set aside.\<close>

definition dec_raw :: "struct_dec \<Rightarrow> nat \<Rightarrow> bytes \<Rightarrow> pval list \<Rightarrow> Buffer \<Rightarrow> dec_result" where
  "dec_raw dec t raw bas buf =
     map_option (\<lambda>(err, bas, b). (err, bas, buf)) (dec t False bas (buf\<lparr>pb_buf := raw, pb_index := 0\<rparr>))"

definition the_struct :: "struct_types \<Rightarrow> Properties \<Rightarrow> pval list \<Rightarrow> pval list" where
  "the_struct tys p base = (case structPointer_GetStructPointer base (p_field p) of None \<Rightarrow> zero_struct (tys (p_stype p)) | Some bas \<Rightarrow> bas)"

definition dec_struct_group :: "struct_types \<Rightarrow> struct_dec \<Rightarrow> Properties \<Rightarrow> pval list \<Rightarrow> Buffer \<Rightarrow> dec_result" where
  "dec_struct_group tys dec p base buf =
     map_option (\<lambda>(err, bas, buf). (err, base[p_field p := FStructPointer (Some bas)], buf)) (dec (p_stype p) True (the_struct tys p base) buf)"

definition dec_struct_message :: "struct_types \<Rightarrow> struct_dec \<Rightarrow> Properties \<Rightarrow> pval list \<Rightarrow> Buffer \<Rightarrow> dec_result" where
  "dec_struct_message tys dec p base buf = (case Buffer_DecodeRawBytes False buf of
     (Inl e, buf) \<Rightarrow> Some (Some e, base, buf)
   | (Inr raw, buf) \<Rightarrow>
       map_option (\<lambda>(err, bas, buf). (err, base[p_field p := FStructPointer (Some bas)], buf)) (dec_raw dec (p_stype p) raw (the_struct tys p base) buf))"

text \<open>The new element is appended before it is decoded, so that it stays there with an error.\<close>

definition dec_slice_struct :: "bool \<Rightarrow> struct_types \<Rightarrow> struct_dec \<Rightarrow> Properties \<Rightarrow> pval list \<Rightarrow> Buffer \<Rightarrow> dec_result" where
  "dec_slice_struct is_group tys dec p base buf =
     (let bas = zero_struct (tys (p_stype p));
          put = (\<lambda>bas. base[p_field p := FStructPointerSlice (structPointer_StructPointerSlice base (p_field p) @ [Some bas])]) in
      if is_group
      then map_option (\<lambda>(err, bas, buf). (err, put bas, buf)) (dec (p_stype p) True bas buf)
      else case Buffer_DecodeRawBytes False buf of
        (Inl err, buf) \<Rightarrow> Some (Some err, put bas, buf)
      | (Inr raw, buf) \<Rightarrow> map_option (\<lambda>(err, bas, buf). (err, put bas, buf)) (dec_raw dec (p_stype p) raw bas buf))"

definition dec_slice_struct_message :: "struct_types \<Rightarrow> struct_dec \<Rightarrow> Properties \<Rightarrow> pval list \<Rightarrow> Buffer \<Rightarrow> dec_result" where
  "dec_slice_struct_message = dec_slice_struct False"

definition dec_slice_struct_group :: "struct_types \<Rightarrow> struct_dec \<Rightarrow> Properties \<Rightarrow> pval list \<Rightarrow> Buffer \<Rightarrow> dec_result" where
  "dec_slice_struct_group = dec_slice_struct True"

section \<open>Messages\<close>

text \<open>The decoders that \<open>setEncAndDec\<close> sets, and the one of the packed form, if any.\<close>

fun p_dec :: "struct_types \<Rightarrow> struct_dec \<Rightarrow> coder \<Rightarrow> Properties \<Rightarrow> pval list \<Rightarrow> Buffer \<Rightarrow> dec_result" where
  "p_dec tys dec C3Bool = dec_proto3_bool"
| "p_dec tys dec C3Int32 = dec_proto3_int32"
| "p_dec tys dec C3Uint32 = dec_proto3_int32"
| "p_dec tys dec C3Int64 = dec_proto3_int64"
| "p_dec tys dec C3String = dec_proto3_string"
| "p_dec tys dec CBool = dec_bool"
| "p_dec tys dec CInt32 = dec_int32"
| "p_dec tys dec CUint32 = dec_int32"
| "p_dec tys dec CInt64 = dec_int64"
| "p_dec tys dec CString = dec_string"
| "p_dec tys dec CMessage = dec_struct_message tys dec"
| "p_dec tys dec CGroup = dec_struct_group tys dec"
| "p_dec tys dec CSliceBool = dec_slice_bool"
| "p_dec tys dec CPackedBool = dec_slice_bool"
| "p_dec tys dec CSliceInt32 = dec_slice_int32"
| "p_dec tys dec CPackedInt32 = dec_slice_int32"
| "p_dec tys dec CSliceUint32 = dec_slice_int32"
| "p_dec tys dec CPackedUint32 = dec_slice_int32"
| "p_dec tys dec CSliceInt64 = dec_slice_int64"
| "p_dec tys dec CPackedInt64 = dec_slice_int64"
| "p_dec tys dec CBytes = dec_slice_byte"
| "p_dec tys dec C3Bytes = dec_slice_byte"
| "p_dec tys dec CSliceString = dec_slice_string"
| "p_dec tys dec CSliceMessage = dec_slice_struct_message tys dec"
| "p_dec tys dec CSliceGroup = dec_slice_struct_group tys dec"
| "p_dec tys dec CSliceBytes = dec_slice_slice_byte"

fun p_packedDec :: "coder \<Rightarrow> (Properties \<Rightarrow> pval list \<Rightarrow> Buffer \<Rightarrow> dec_result) option" where
  "p_packedDec CSliceBool = Some dec_slice_packed_bool"
| "p_packedDec CPackedBool = Some dec_slice_packed_bool"
| "p_packedDec CSliceInt32 = Some dec_slice_packed_int32"
| "p_packedDec CPackedInt32 = Some dec_slice_packed_int32"
| "p_packedDec CSliceUint32 = Some dec_slice_packed_int32"
| "p_packedDec CPackedUint32 = Some dec_slice_packed_int32"
| "p_packedDec CSliceInt64 = Some dec_slice_packed_int64"
| "p_packedDec CPackedInt64 = Some dec_slice_packed_int64"
| "p_packedDec c = None"

text \<open>The bytes of an unknown field are appended to \<open>XXX_unrecognized\<close>, if there is one, behind its tag.\<close>

definition skipAndSave :: "int \<Rightarrow> int \<Rightarrow> pval list \<Rightarrow> nat option \<Rightarrow> Buffer \<Rightarrow> dec_result" where
  "skipAndSave tag wire base unrecField buf =
     (let oi = pb_index buf in
      case skip wire buf of
        None \<Rightarrow> None
      | Some (Some err, buf) \<Rightarrow> Some (Some err, base, buf)
      | Some (None, buf) \<Rightarrow> (case unrecField of
          None \<Rightarrow> Some (None, base, buf)
        | Some f \<Rightarrow>
            (let old = (case structPointer_Bytes base f of None \<Rightarrow> [] | Some b \<Rightarrow> b);
                 u = Buffer_EncodeVarint (push_bit 3 (word_of_int tag) OR word_of_int wire) (buf\<lparr>pb_buf := old\<rparr>);
                 new = pb_buf u @ take (pb_index buf - oi) (drop oi (pb_buf buf)) in
             Some (None, base[f := FBytes (Some new)], buf))))"

text \<open>The decoder for a field with the wire type that was read; \<open>None\<close> for a bad one.  A start of a group is let through for every field.\<close>

definition dec_for :: "struct_types \<Rightarrow> struct_dec \<Rightarrow> coder \<Rightarrow> Properties \<Rightarrow> int \<Rightarrow> (Properties \<Rightarrow> pval list \<Rightarrow> Buffer \<Rightarrow> dec_result) option" where
  "dec_for tys dec c p wire =
     (if wire \<noteq> WireStartGroup \<and> wire \<noteq> p_WireType p
      then if wire = WireBytes then p_packedDec c else None
      else Some (p_dec tys dec c))"

text \<open>The count of required fields: a bitmap for tags up to 64, the bare number of fields above.\<close>

definition count_required :: "int \<Rightarrow> int \<times> 64 word \<Rightarrow> int \<times> 64 word" where
  "count_required tag = (\<lambda>(required, reqFields).
     if tag \<le> 64
     then (let m = push_bit (nat (tag - 1)) 1 in
           if reqFields AND m = 0 then (required - 1, reqFields OR m) else (required, reqFields))
     else (required - 1, reqFields))"

definition unmarshal_end :: "bool \<Rightarrow> proto_error option \<Rightarrow> int \<Rightarrow> proto_error option" where
  "unmarshal_end is_group state required =
     (if is_group then Some ErrUnexpectedEOF
      else if state \<noteq> None then state
      else if required > 0 then Some (RequiredNotSetError (lit ''{Unknown}''))
      else None)"

text \<open>The loop of \<open>unmarshalType\<close>, from its state: the struct, the errors remembered, and the count of required fields.\<close>

fun unmarshal_loop :: "nat \<Rightarrow> struct_types \<Rightarrow> nat \<Rightarrow> bool \<Rightarrow> proto_error option \<Rightarrow> int \<times> 64 word \<Rightarrow> pval list \<Rightarrow> Buffer \<Rightarrow> dec_result" where
  "unmarshal_loop 0 tys t is_group state req base buf = None"
| "unmarshal_loop (Suc n) tys t is_group state req base buf =
     (let prop = getProperties (tys t) in
      if pb_index buf < length (pb_buf buf)
      then (case Buffer_DecodeVarint buf of
          (Inl err, buf) \<Rightarrow> Some (Some err, base, buf)
        | (Inr u, buf) \<Rightarrow>
            (let wire = uint (u AND 0x7) in
             if wire = WireEndGroup then Some (if is_group then None else Some ErrEndGroup, base, buf)
             else
               let tag = sint (drop_bit 3 u) in
               if tag \<le> 0 then Some (Some ErrIllegalTag, base, buf)
               else case tagMap_get (sp_decoderTags prop) tag of
                 None \<Rightarrow> (case skipAndSave tag wire base (sp_unrecField prop) buf of
                     None \<Rightarrow> None
                   | Some (Some err, base, buf) \<Rightarrow> Some (Some err, base, buf)
                   | Some (None, base, buf) \<Rightarrow> unmarshal_loop n tys t is_group state req base buf)
               | Some fieldnum \<Rightarrow>
                   (let p = sp_Prop prop ! nat fieldnum in
                    case p_coder p of
                      None \<Rightarrow> unmarshal_loop n tys t is_group state req base buf
                    | Some c \<Rightarrow>
                        (case dec_for tys (\<lambda>t g b buf. unmarshal_loop n tys t g None (sp_reqCount (getProperties (tys t)), 0) b buf) c p wire of
                          None \<Rightarrow> Some (Some ErrBadWireType, base, buf)
                        | Some dec \<Rightarrow> (case dec p base buf of
                              None \<Rightarrow> None
                            | Some (None, base, buf) \<Rightarrow>
                                unmarshal_loop n tys t is_group state (if p_Required p then count_required tag req else req) base buf
                            | Some (Some decErr, base, buf) \<Rightarrow>
                                (let (go, state) = shouldContinue state decErr (Some p) in
                                 if \<not> go then Some (Some decErr, base, buf)
                                 else unmarshal_loop n tys t is_group state (if p_Required p then count_required tag req else req) base buf))))))
      else Some (unmarshal_end is_group state (fst req), base, buf))"

definition unmarshalType :: "nat \<Rightarrow> struct_types \<Rightarrow> struct_dec" where
  "unmarshalType n tys t is_group base buf = unmarshal_loop n tys t is_group None (sp_reqCount (getProperties (tys t)), 0) base buf"

text \<open>Every turn and every level takes a byte at least.\<close>

definition Buffer_Unmarshal :: "struct_types \<Rightarrow> nat \<Rightarrow> pval list \<Rightarrow> Buffer \<Rightarrow> dec_result" where
  "Buffer_Unmarshal tys t base buf = unmarshalType (length (pb_buf buf) + 1) tys t False base buf"

definition UnmarshalMerge :: "struct_types \<Rightarrow> nat \<Rightarrow> bytes \<Rightarrow> pval list \<Rightarrow> (proto_error option \<times> pval list) option" where
  "UnmarshalMerge tys t b base = map_option (\<lambda>(err, base, _). (err, base)) (Buffer_Unmarshal tys t base (NewBuffer b))"

definition Unmarshal :: "struct_types \<Rightarrow> nat \<Rightarrow> bytes \<Rightarrow> (proto_error option \<times> pval list) option" where
  "Unmarshal tys t b = UnmarshalMerge tys t b (zero_struct (tys t))"

end
