(* ===== verification/Proto_EncodeProofs.thy ===== *)
theory Proto_EncodeProofs
  imports Proto_Decode
begin

text \<open>
  What the encoders of \<open>Proto_Encode\<close> append and what the sizers count: the fields of a message, in the order of their tags, as items of the wire format.
\<close>

section \<open>Kinds of encoders\<close>

fun val_wire :: "val_coder \<Rightarrow> int" where
  "val_wire CoVarint = WireVarint"
| "val_wire CoFixed32 = WireFixed32"
| "val_wire CoFixed64 = WireFixed64"
| "val_wire CoZigzag32 = WireVarint"
| "val_wire CoZigzag64 = WireVarint"

fun num_item :: "val_coder \<Rightarrow> 64 word \<Rightarrow> wire_item" where
  "num_item CoVarint x = WVarint x"
| "num_item CoFixed32 x = WFixed32 x"
| "num_item CoFixed64 x = WFixed64 x"
| "num_item CoZigzag32 x = WVarint (zigzag32 x)"
| "num_item CoZigzag64 x = WVarint (zigzag64 x)"

lemma num_item_simps [simp]: "item_bytes (num_item k x) = val_bytes k x" "item_wire (num_item k x) = val_wire k"
  by (cases k; simp)+

datatype coder_class = Nums | Packed | Raws | Messages | Groups

fun class_of :: "coder \<Rightarrow> coder_class" where
  "class_of CPackedBool = Packed"
| "class_of CPackedInt32 = Packed"
| "class_of CPackedUint32 = Packed"
| "class_of CPackedInt64 = Packed"
| "class_of CString = Raws"
| "class_of C3String = Raws"
| "class_of CBytes = Raws"
| "class_of C3Bytes = Raws"
| "class_of CSliceString = Raws"
| "class_of CSliceBytes = Raws"
| "class_of CMessage = Messages"
| "class_of CSliceMessage = Messages"
| "class_of CGroup = Groups"
| "class_of CSliceGroup = Groups"
| "class_of c = Nums"

text \<open>The encodings of numbers that keep the values of a field.\<close>

fun vals_ok :: "coder \<Rightarrow> val_coder \<Rightarrow> bool" where
  "vals_ok c k \<longleftrightarrow>
     (c \<in> {C3Bool, CBool, CSliceBool, CPackedBool} \<longrightarrow> k = CoVarint) \<and>
     (c \<in> {C3Int64, CInt64, CSliceInt64, CPackedInt64} \<longrightarrow> k \<in> {CoVarint, CoFixed64, CoZigzag64})"

text \<open>
  The properties of a field that the generated code has: a tag that fits into 32 bits with the wire type, an encoding of numbers that fits the type, wire type \<open>bytes\<close> for texts and messages,
  and \<open>packed\<close> for slices of numbers only.
\<close>

definition prop_ok :: "coder \<Rightarrow> Properties \<Rightarrow> bool" where
  "prop_ok c p \<longleftrightarrow> 0 < p_Tag p \<and> p_Tag p < 2 ^ 29 \<and>
     (class_of c = Nums \<or> class_of c = Packed \<longrightarrow> (\<exists>k. p_val p = Some k \<and> vals_ok c k \<and> p_WireType p = val_wire k)) \<and>
     (class_of c = Raws \<or> class_of c = Messages \<longrightarrow> p_WireType p = WireBytes) \<and>
     p_tagcode p = tag_bytes (nat (p_Tag p)) (if class_of c = Packed then WireBytes else p_WireType p)"

text \<open>The numbers, byte strings and messages that a value is encoded as.\<close>

fun opt_list :: "'a option \<Rightarrow> 'a list" where
  "opt_list None = []"
| "opt_list (Some x) = [x]"

fun nonzero :: "'a::zero \<Rightarrow> 'a list" where
  "nonzero x = (if x = 0 then [] else [x])"

definition nonempty :: "'a list \<Rightarrow> 'a list list" where
  "nonempty s = (if s = [] then [] else [s])"

fun nums :: "coder \<Rightarrow> pval \<Rightarrow> 64 word list" where
  "nums c (FBool b) = map bool_word (opt_list b)"
| "nums c (FBoolVal b) = (if b then [1] else [])"
| "nums c (FBoolSlice bs) = map bool_word bs"
| "nums c (FWord32 x) = map (if c = CInt32 then scast else ucast) (opt_list x)"
| "nums c (FWord32Val x) = map (if c = C3Int32 then scast else ucast) (nonzero x)"
| "nums c (FWord32Slice xs) = map (if c = CSliceInt32 \<or> c = CPackedInt32 then scast else ucast) xs"
| "nums c (FWord64 x) = opt_list x"
| "nums c (FWord64Val x) = nonzero x"
| "nums c (FWord64Slice xs) = xs"
| "nums c v = []"

fun raws :: "pval \<Rightarrow> bytes list" where
  "raws (FString s) = opt_list s"
| "raws (FStringVal s) = nonempty s"
| "raws (FStringSlice ss) = ss"
| "raws (FBytes s) = opt_list s"
| "raws (FBytesSlice ss) = ss"
| "raws v = []"

fun msgs :: "pval \<Rightarrow> pval list list" where
  "msgs (FStructPointer b) = opt_list b"
| "msgs (FStructPointerSlice s) = map the s"
| "msgs v = []"

text \<open>Values of the type of a field: no nil element in a slice of messages, and no empty slice of bytes where the encoder drops it.\<close>

fun value_of :: "(pval list \<Rightarrow> bool) \<Rightarrow> coder \<Rightarrow> pval \<Rightarrow> bool" where
  "value_of R c (FBool b) = (c = CBool)"
| "value_of R c (FBoolVal b) = (c = C3Bool)"
| "value_of R c (FBoolSlice bs) = (c = CSliceBool \<or> c = CPackedBool)"
| "value_of R c (FWord32 x) = (c = CInt32 \<or> c = CUint32)"
| "value_of R c (FWord32Val x) = (c = C3Int32 \<or> c = C3Uint32)"
| "value_of R c (FWord32Slice xs) = (c \<in> {CSliceInt32, CPackedInt32, CSliceUint32, CPackedUint32})"
| "value_of R c (FWord64 x) = (c = CInt64)"
| "value_of R c (FWord64Val x) = (c = C3Int64)"
| "value_of R c (FWord64Slice xs) = (c = CSliceInt64 \<or> c = CPackedInt64)"
| "value_of R c (FString s) = (c = CString)"
| "value_of R c (FStringVal s) = (c = C3String)"
| "value_of R c (FStringSlice ss) = (c = CSliceString)"
| "value_of R c (FBytes s) = (c = CBytes \<or> c = C3Bytes \<and> s \<noteq> Some [])"
| "value_of R c (FBytesSlice ss) = (c = CSliceBytes)"
| "value_of R c (FStructPointer b) = ((c = CMessage \<or> c = CGroup) \<and> (case b of None \<Rightarrow> True | Some b \<Rightarrow> R b))"
| "value_of R c (FStructPointerSlice s) = ((c = CSliceMessage \<or> c = CSliceGroup) \<and> (\<forall>b \<in> set s. \<exists>b'. b = Some b' \<and> R b'))"
| "value_of R c FOther = False"

section \<open>Numbers and byte strings\<close>

lemma Buffer_append_append [simp]: "Buffer_append b (Buffer_append a buf) = Buffer_append (a @ b) buf"
  by (simp add: Buffer_append_def)

lemma Buffer_append_Nil [simp]: "Buffer_append [] buf = buf"
  by (simp add: Buffer_append_def)

lemma enc_each_eq:
  "p_val p = Some k \<Longrightarrow> enc_each p xs buf = Some (None, Buffer_append (concat (map (\<lambda>x. p_tagcode p @ val_bytes k x) xs)) buf)"
  by (induction xs arbitrary: buf) (simp_all add: p_valEnc_def valEnc_eq enc_tag_def)

lemma enc_values_eq:
  "p_val p = Some k \<Longrightarrow> enc_values p xs buf = Some (None, Buffer_append (concat (map (val_bytes k) xs)) buf)"
  by (induction xs arbitrary: buf) (simp_all add: p_valEnc_def valEnc_eq)

lemma size_each_eq:
  "p_val p = Some k \<Longrightarrow> size_each p xs = Some (length (concat (map (\<lambda>x. p_tagcode p @ val_bytes k x) xs)))"
  by (induction xs) (simp_all add: p_valSize_def valSize_eq tag_plus_def)

lemma size_values_eq:
  "p_val p = Some k \<Longrightarrow> size_values p xs = Some (length (concat (map (val_bytes k) xs)))"
  by (induction xs) (simp_all add: p_valSize_def valSize_eq)

lemma enc_packed_eq:
  "p_val p = Some k \<Longrightarrow> enc_packed p xs buf = Some (None, Buffer_append (p_tagcode p @ raw_bytes (concat (map (val_bytes k) xs))) buf)"
  by (simp add: enc_packed_def enc_values_eq Let_def enc_tag_def Buffer_EncodeVarint_eq raw_bytes_def) (simp add: Buffer_append_def NewBuffer_def)

lemma size_packed_eq:
  "p_val p = Some k \<Longrightarrow> size_packed p xs = Some (length (p_tagcode p @ raw_bytes (concat (map (val_bytes k) xs))))"
  by (simp add: size_packed_def size_values_eq sizeVarint_eq raw_bytes_def)

text \<open>A bool is one byte.\<close>

lemma varint_bool [simp]: "length (varint (bool_word b)) = 1" "length (varint 1) = 1"
  by (simp_all add: bool_word_def varint.simps [of 0] varint.simps [of 1])

lemma bools_length: "length (concat (map (\<lambda>x. varint (bool_word x)) bs)) = length bs"
  by (induction bs) simp_all

definition absent :: "'a list \<Rightarrow> Buffer \<Rightarrow> enc_result \<Rightarrow> enc_result" where
  "absent xs buf r = (if xs = [] then Some (Some ErrNil, buf) else r)"

lemma enc_nums:
  assumes "value_of R c (base ! p_field p)" "class_of c = Nums" "p_val p = Some k" "vals_ok c k"
  shows "p_enc enc c p base buf = absent (nums c (base ! p_field p)) buf (enc_each p (nums c (base ! p_field p)) buf)"
  using assms
  by (cases c; cases "base ! p_field p")
    (auto simp: absent_def structPointer_defs Let_def p_valEnc_def enc_bool_def enc_proto3_bool_def enc_slice_bool_def enc_int32_def enc_proto3_int32_def enc_slice_int32_def
      enc_uint32_def enc_proto3_uint32_def enc_slice_uint32_def enc_int64_def enc_proto3_int64_def enc_slice_int64_def split: option.splits)

lemma size_nums:
  assumes "value_of R c (base ! p_field p)" "class_of c = Nums" "p_val p = Some k" "vals_ok c k"
  shows "p_size sz c p base = size_each p (nums c (base ! p_field p))"
proof -
  have "k = CoVarint \<Longrightarrow> size_each p (map bool_word bs) = Some (length bs * (length (p_tagcode p) + 1))" for bs
    using assms(3) by (induction bs) (simp_all add: tag_plus_def p_valSize_def sizeVarint_eq)
  then show ?thesis
    using assms
    by (cases c; cases "base ! p_field p")
      (auto simp: structPointer_defs Let_def size_bool_def size_proto3_bool_def size_slice_bool_def size_int32_def size_proto3_int32_def size_slice_int32_def
        size_uint32_def size_proto3_uint32_def size_slice_uint32_def size_int64_def size_proto3_int64_def size_slice_int64_def
        tag_plus_def p_valSize_def sizeVarint_eq split: option.splits)
qed

lemma enc_packs:
  assumes "value_of R c (base ! p_field p)" "class_of c = Packed" "p_val p = Some k" "vals_ok c k"
  shows "p_enc enc c p base buf = absent (nums c (base ! p_field p)) buf (enc_packed p (nums c (base ! p_field p)) buf)"
  using assms
  by (cases c; cases "base ! p_field p")
    (auto simp: absent_def structPointer_defs Let_def enc_slice_packed_bool_def enc_slice_packed_int32_def enc_slice_packed_uint32_def enc_slice_packed_int64_def
      enc_packed_eq enc_values_eq Buffer_EncodeVarint_eq enc_tag_def raw_bytes_def bools_length comp_def)

lemma size_packs:
  assumes "value_of R c (base ! p_field p)" "class_of c = Packed" "p_val p = Some k" "vals_ok c k"
  shows "p_size sz c p base = (if nums c (base ! p_field p) = [] then Some 0 else size_packed p (nums c (base ! p_field p)))"
  using assms
  by (cases c; cases "base ! p_field p")
    (auto simp: structPointer_defs Let_def size_slice_packed_bool_def size_slice_packed_int32_def size_slice_packed_uint32_def size_slice_packed_int64_def
      size_packed_eq sizeVarint_eq raw_bytes_def bools_length comp_def)

lemma enc_raw_fold:
  "foldl (\<lambda>buf s. Buffer_append (p_tagcode p @ raw_bytes s) buf) buf ss = Buffer_append (concat (map (\<lambda>s. p_tagcode p @ raw_bytes s) ss)) buf"
  by (induction ss arbitrary: buf) simp_all

lemma EncodeStringBytes_raw: "Buffer_EncodeStringBytes = Buffer_EncodeRawBytes" "sizeStringBytes = sizeRawBytes"
  by (simp_all add: fun_eq_iff Buffer_EncodeStringBytes_def Buffer_EncodeRawBytes_def sizeStringBytes_def sizeRawBytes_def)

lemma enc_raws:
  assumes "value_of R c (base ! p_field p)" "class_of c = Raws"
  shows "\<exists>e. p_enc enc c p base buf = Some (e, Buffer_append (concat (map (\<lambda>s. p_tagcode p @ raw_bytes s) (raws (base ! p_field p)))) buf) \<and>
    (e = None \<or> e = Some ErrNil \<and> raws (base ! p_field p) = [])"
  using assms
  by (cases c; cases "base ! p_field p")
    (auto simp: structPointer_defs Let_def enc_string_def enc_proto3_string_def enc_slice_byte_def enc_proto3_slice_byte_def enc_slice_string_def enc_slice_slice_byte_def nonempty_def
      EncodeStringBytes_raw Buffer_EncodeRawBytes_eq enc_raw_fold enc_tag_def split: option.splits)

lemma size_raws:
  assumes "value_of R c (base ! p_field p)" "class_of c = Raws"
  shows "p_size sz c p base = Some (length (concat (map (\<lambda>s. p_tagcode p @ raw_bytes s) (raws (base ! p_field p)))))"
proof -
  have "length ss * length (p_tagcode p) + sum_list (map sizeRawBytes ss) = length (concat (map (\<lambda>s. p_tagcode p @ raw_bytes s) ss))" for ss
    by (induction ss) (simp_all add: sizeRawBytes_eq)
  then show ?thesis
    using assms
    by (cases c; cases "base ! p_field p")
      (auto simp: structPointer_defs Let_def size_string_def size_proto3_string_def size_slice_byte_def size_proto3_slice_byte_def size_slice_string_def size_slice_slice_byte_def nonempty_def
        EncodeStringBytes_raw sizeRawBytes_eq split: option.splits)
qed

section \<open>Messages\<close>

lemma enc_len_thing_ok:
  assumes "\<And>buf. enc buf = Some (None, Buffer_append body buf)"
  shows "enc_len_thing enc state buf = Some (state, state, Buffer_append (raw_bytes body) buf)"
proof -
  define B where "B = pb_buf buf"
  define l where "l = length (varint (of_nat (length body)))"
  define full where "full = B @ [0, 0, 0, 0] @ body"
  define b where "b = (if l > 4 then copy_at (full @ replicate (l - 4) 0) (length B + 4 + (l - 4)) body
    else if l < 4 then map_option (take (length full - (4 - l))) (copy_at full (length B + 4 - (4 - l)) body) else Some full)"
  obtain X where X: "b = Some (X @ body)" "length X = length B + l" "take (length B) X = B"
  proof (cases "l > 4")
    case True
    then show ?thesis
      using that [of "take (length B + l) (full @ replicate (l - 4) 0)"] by (simp add: b_def full_def copy_at_def)
  next
    case False
    then show ?thesis
      using that [of "take (length B + l) full"] by (cases "l = 4") (simp_all add: b_def full_def copy_at_def)
  qed
  have "4 < l \<Longrightarrow> Suc (Suc (Suc (Suc (length B + l - 4)))) = length B + l" by simp
  then have "enc_len_thing enc state buf = b \<bind> (\<lambda>b.
      let buf = Buffer_EncodeVarint (of_nat (length body)) (buf\<lparr>pb_buf := take (length B) b\<rparr>) in
      Some (state, state, Buffer_append (take (length body) (drop (length (pb_buf buf)) b)) buf))"
    by (simp add: enc_len_thing_def assms continue_on_def sizeVarint_eq Let_def b_def full_def B_def l_def Buffer_append_def)
  then show ?thesis
    using X by (simp add: Buffer_EncodeVarint_eq Let_def B_def l_def raw_bytes_def Buffer_append_def)
qed

text \<open>An encoder appends the items, and the sizer counts their bytes.\<close>

definition encodes :: "(Buffer \<Rightarrow> enc_result) \<Rightarrow> nat option \<Rightarrow> (nat \<times> wire_item) list \<Rightarrow> bool" where
  "encodes enc n its \<longleftrightarrow> (\<forall>buf. enc buf = Some (None, Buffer_append (fields_bytes its) buf)) \<and> n = Some (length (fields_bytes its))"

lemma fields_bytes_append [simp]: "fields_bytes (xs @ ys) = fields_bytes xs @ fields_bytes ys"
  by (induction xs) auto

lemma fields_bytes_concat: "fields_bytes (concat xss) = concat (map fields_bytes xss)"
  by (induction xss) simp_all

lemma fields_bytes_map: "fields_bytes (map (\<lambda>x. (t, g x)) xs) = concat (map (\<lambda>x. tag_bytes t (item_wire (g x)) @ item_bytes (g x)) xs)"
  by (induction xs) simp_all

lemma group_tag_bytes:
  assumes "0 < p_Tag p" "0 \<le> w" "w < 8"
  shows "varint (group_tag p w) = tag_bytes (nat (p_Tag p)) w"
  unfolding group_tag_def tag_bytes_def by (subst tag_or) (use assms in simp_all)

lemma enc_structs_message_eq:
  assumes "\<forall>b \<in> set s. \<exists>b'. b = Some b' \<and> encodes (enc (p_stype p) b') (sz (p_stype p) b') (f b')"
  shows "enc_structs_message enc p None s buf = Some (None, Buffer_append (concat (map (\<lambda>b. p_tagcode p @ raw_bytes (fields_bytes (f (the b)))) s)) buf)"
  using assms
proof (induction s arbitrary: buf)
  case (Cons a s)
  then obtain b where b: "a = Some b" "encodes (enc (p_stype p) b) (sz (p_stype p) b) (f b)" by auto
  then show ?case
    using Cons by (simp add: enc_len_struct_def enc_len_thing_ok [of "enc (p_stype p) b" "fields_bytes (f b)"] encodes_def continue_on_def enc_tag_def)
qed simp

lemma enc_structs_group_eq:
  assumes "\<forall>b \<in> set s. \<exists>b'. b = Some b' \<and> encodes (enc (p_stype p) b') (sz (p_stype p) b') (f b')" "0 < p_Tag p"
  shows "enc_structs_group enc p None s buf = Some (None, Buffer_append (concat (map (\<lambda>b. tag_bytes (nat (p_Tag p)) WireStartGroup @
    fields_bytes (f (the b)) @ tag_bytes (nat (p_Tag p)) WireEndGroup) s)) buf)"
  using assms(1)
proof (induction s arbitrary: buf)
  case (Cons a s)
  then obtain b where b: "a = Some b" "encodes (enc (p_stype p) b) (sz (p_stype p) b) (f b)" by auto
  then show ?case
    using Cons assms(2) by (simp add: encodes_def continue_on_def Buffer_EncodeVarint_eq group_tag_bytes wire_defs)
qed simp

lemma size_structs_eq:
  assumes "\<forall>b \<in> set s. \<exists>b'. b = Some b' \<and> sz b' = Some (g b')"
  shows "size_structs sz s = Some (sum_list (map (\<lambda>b. g (the b)) s))"
  using assms by (induction s) auto

text \<open>The items of the fields with messages, for the items \<open>f b\<close> of a message.\<close>

definition msg_item :: "coder_class \<Rightarrow> nat \<Rightarrow> (nat \<times> wire_item) list \<Rightarrow> wire_item" where
  "msg_item cl t its = (if cl = Groups then WGroup t its else WBytes (fields_bytes its))"

lemma enc_msgs:
  assumes "value_of R c (base ! p_field p)" "class_of c = Messages \<or> class_of c = Groups" "prop_ok c p"
    "\<forall>b \<in> set (msgs (base ! p_field p)). encodes (enc (p_stype p) b) (sz (p_stype p) b) (f b)"
  shows "\<exists>e. p_enc enc c p base buf =
      Some (e, Buffer_append (fields_bytes (map (\<lambda>b. (nat (p_Tag p), msg_item (class_of c) (nat (p_Tag p)) (f b))) (msgs (base ! p_field p)))) buf) \<and>
    (e = None \<or> e = Some ErrNil \<and> msgs (base ! p_field p) = [])"
proof (cases "base ! p_field p")
  case (FStructPointer b)
  then show ?thesis
    using assms
    by (cases c; cases b)
      (auto simp: enc_struct_message_def enc_struct_group_def structPointer_defs encodes_def enc_len_struct_def enc_len_thing_ok continue_on_def msg_item_def
        prop_ok_def Buffer_EncodeVarint_eq group_tag_bytes enc_tag_def wire_defs)
next
  case (FStructPointerSlice s)
  have all: "\<forall>b \<in> set s. \<exists>b'. b = Some b' \<and> encodes (enc (p_stype p) b') (sz (p_stype p) b') (f b')"
    using assms(1,4) by (fastforce simp: FStructPointerSlice)
  show ?thesis
    using assms enc_structs_message_eq [of s enc p sz f, OF all] enc_structs_group_eq [of s enc p sz f, OF all]
    by (cases c) (auto simp: FStructPointerSlice enc_slice_struct_message_def enc_slice_struct_group_def structPointer_defs msg_item_def prop_ok_def fields_bytes_map comp_def)
qed (use assms in auto)

lemma size_msgs:
  assumes "value_of R c (base ! p_field p)" "class_of c = Messages \<or> class_of c = Groups" "prop_ok c p"
    "\<forall>b \<in> set (msgs (base ! p_field p)). encodes (enc (p_stype p) b) (sz (p_stype p) b) (f b)"
  shows "p_size sz c p base = Some (length (fields_bytes (map (\<lambda>b. (nat (p_Tag p), msg_item (class_of c) (nat (p_Tag p)) (f b))) (msgs (base ! p_field p)))))"
proof (cases "base ! p_field p")
  case (FStructPointer b)
  then show ?thesis
    using assms
    by (cases c; cases b)
      (auto simp: size_struct_message_def size_struct_group_def structPointer_defs encodes_def msg_item_def raw_bytes_def
        prop_ok_def sizeVarint_eq group_tag_bytes wire_defs)
next
  case (FStructPointerSlice s)
  have all: "\<forall>b \<in> set s. \<exists>b'. b = Some b' \<and> encodes (enc (p_stype p) b') (sz (p_stype p) b') (f b')"
    using assms(1,4) by (fastforce simp: FStructPointerSlice)
  let ?raw = "\<lambda>b. length (fields_bytes (f b)) + sizeVarint (of_nat (length (fields_bytes (f b))))"
  have m: "size_structs (\<lambda>structp. map_option (\<lambda>n0. n0 + sizeVarint (of_nat n0)) (sz (p_stype p) structp)) s = Some (sum_list (map (\<lambda>b. ?raw (the b)) s))"
    by (rule size_structs_eq) (use all in \<open>auto simp: encodes_def\<close>)
  have g: "size_structs (sz (p_stype p)) s = Some (sum_list (map (\<lambda>b. length (fields_bytes (f (the b)))) s))"
    by (rule size_structs_eq) (use all in \<open>auto simp: encodes_def\<close>)
  show ?thesis
    using assms m g
    by (cases c) (auto simp: FStructPointerSlice size_slice_struct_message_def size_slice_struct_group_def structPointer_defs Let_def msg_item_def prop_ok_def fields_bytes_map
      comp_def length_concat sum_list_addf sum_list_triv raw_bytes_def sizeVarint_eq group_tag_bytes wire_defs)
qed (use assms in auto)

text \<open>The items of a field, whatever its kind, for the items \<open>f b\<close> of a message in it.\<close>

definition field_items :: "coder \<Rightarrow> Properties \<Rightarrow> (pval list \<Rightarrow> (nat \<times> wire_item) list) \<Rightarrow> pval \<Rightarrow> (nat \<times> wire_item) list" where
  "field_items c p f v = map (\<lambda>it. (nat (p_Tag p), it)) (case class_of c of
     Nums \<Rightarrow> map (num_item (the (p_val p))) (nums c v)
   | Packed \<Rightarrow> (if nums c v = [] then [] else [WBytes (concat (map (val_bytes (the (p_val p))) (nums c v)))])
   | Raws \<Rightarrow> map WBytes (raws v)
   | cl \<Rightarrow> map (\<lambda>b. msg_item cl (nat (p_Tag p)) (f b)) (msgs v))"

lemma enc_field:
  assumes "value_of R c (base ! p_field p)" "prop_ok c p"
    "\<forall>b \<in> set (msgs (base ! p_field p)). encodes (enc (p_stype p) b) (sz (p_stype p) b) (f b)"
  shows "\<exists>e. p_enc enc c p base buf = Some (e, Buffer_append (fields_bytes (field_items c p f (base ! p_field p))) buf) \<and>
    (e = None \<or> e = Some ErrNil \<and> field_items c p f (base ! p_field p) = [])"
proof (cases "class_of c")
  case Nums
  then obtain k where "p_val p = Some k" "vals_ok c k" "p_WireType p = val_wire k" using assms(2) by (auto simp: prop_ok_def)
  then show ?thesis
    using enc_nums [OF assms(1) Nums, of k enc buf] assms(2) Nums
    by (auto simp: absent_def enc_each_eq field_items_def fields_bytes_map prop_ok_def comp_def)
next
  case Packed
  then obtain k where "p_val p = Some k" "vals_ok c k" using assms(2) by (auto simp: prop_ok_def)
  then show ?thesis
    using enc_packs [OF assms(1) Packed, of k enc buf] assms(2) Packed
    by (auto simp: absent_def enc_packed_eq field_items_def prop_ok_def)
next
  case Raws
  then show ?thesis
    using enc_raws [OF assms(1) Raws, of enc buf] assms(2) by (auto simp: field_items_def fields_bytes_map prop_ok_def comp_def)
next
  case Messages
  then show ?thesis
    using enc_msgs [of R c base p enc sz f buf, OF assms(1) _ assms(2,3)] by (simp add: field_items_def comp_def)
next
  case Groups
  then show ?thesis
    using enc_msgs [of R c base p enc sz f buf, OF assms(1) _ assms(2,3)] by (simp add: field_items_def comp_def)
qed

lemma size_field:
  assumes "value_of R c (base ! p_field p)" "prop_ok c p"
    "\<forall>b \<in> set (msgs (base ! p_field p)). encodes (enc (p_stype p) b) (sz (p_stype p) b) (f b)"
  shows "p_size sz c p base = Some (length (fields_bytes (field_items c p f (base ! p_field p))))"
proof (cases "class_of c")
  case Nums
  then obtain k where "p_val p = Some k" "vals_ok c k" "p_WireType p = val_wire k" using assms(2) by (auto simp: prop_ok_def)
  then show ?thesis
    using size_nums [OF assms(1) Nums, of k sz] assms(2) Nums
    by (auto simp: size_each_eq field_items_def fields_bytes_map prop_ok_def comp_def)
next
  case Packed
  then obtain k where "p_val p = Some k" "vals_ok c k" using assms(2) by (auto simp: prop_ok_def)
  then show ?thesis
    using size_packs [OF assms(1) Packed, of k sz] assms(2) Packed
    by (auto simp: size_packed_eq field_items_def prop_ok_def)
next
  case Raws
  then show ?thesis
    using size_raws [OF assms(1) Raws, of sz] assms(2) by (auto simp: field_items_def fields_bytes_map prop_ok_def comp_def)
next
  case Messages
  then show ?thesis
    using size_msgs [of R c base p enc sz f, OF assms(1) _ assms(2,3)] by (simp add: field_items_def comp_def)
next
  case Groups
  then show ?thesis
    using size_msgs [of R c base p enc sz f, OF assms(1) _ assms(2,3)] by (simp add: field_items_def comp_def)
qed

text \<open>The fields of a struct, none of the required ones missing.\<close>

definition field_encoded :: "struct_enc \<Rightarrow> struct_size \<Rightarrow> Properties \<Rightarrow> pval list \<Rightarrow> (nat \<times> wire_item) list \<Rightarrow> bool" where
  "field_encoded enc sz p base its \<longleftrightarrow> (case p_coder p of
     None \<Rightarrow> its = []
   | Some c \<Rightarrow> (\<forall>buf. \<exists>e. p_enc enc c p base buf = Some (e, Buffer_append (fields_bytes its) buf) \<and> (e = None \<or> e = Some ErrNil \<and> \<not> p_Required p)) \<and>
       p_size sz c p base = Some (length (fields_bytes its)))"

lemma enc_fields_eq:
  assumes "\<forall>i \<in> set is. field_encoded enc sz (props ! i) base (g i)"
  shows "enc_fields enc props base is None buf = Some (None, None, Buffer_append (fields_bytes (concat (map g is))) buf)"
  using assms
proof (induction "is" arbitrary: buf)
  case (Cons i "is")
  show ?case
  proof (cases "p_coder (props ! i)")
    case None
    then show ?thesis using Cons by (simp add: field_encoded_def)
  next
    case (Some c)
    then obtain e where "p_enc enc c (props ! i) base buf = Some (e, Buffer_append (fields_bytes (g i)) buf)" "e = None \<or> e = Some ErrNil \<and> \<not> p_Required (props ! i)"
      using Cons.prems by (auto simp: field_encoded_def)
    then show ?thesis using Cons Some by auto
  qed
qed simp

lemma size_fields_eq:
  assumes "\<forall>i \<in> set is. field_encoded enc sz (props ! i) base (g i)"
  shows "size_fields sz props base is = Some (length (fields_bytes (concat (map g is))))"
  using assms by (induction "is") (auto simp: field_encoded_def split: option.splits)

lemma enc_struct_eq:
  assumes "\<forall>i \<in> set (sp_order (getProperties (tys t))). field_encoded (enc_struct n tys) (size_struct n tys) (sp_Prop (getProperties (tys t)) ! i) base (g i)"
    and "case sp_unrecField (getProperties (tys t)) of None \<Rightarrow> us = []
         | Some j \<Rightarrow> fields_bytes us = (case structPointer_Bytes base j of None \<Rightarrow> [] | Some v \<Rightarrow> v)"
  shows "encodes (enc_struct (Suc n) tys t base) (size_struct (Suc n) tys t base) (concat (map g (sp_order (getProperties (tys t)))) @ us)"
  using assms(2) enc_fields_eq [OF assms(1)] size_fields_eq [OF assms(1)]
  by (auto simp: encodes_def Let_def split: option.splits)

end
