(* ===== verification/Proto_Roundtrip.thy ===== *)
theory Proto_Roundtrip
  imports Proto_EncodeProofs
begin

text \<open>
  Decoding what was encoded: \<open>Unmarshal\<close> gives back the message that \<open>Marshal\<close> wrote, and \<open>Size\<close> is the number of bytes it took.
\<close>

section \<open>The types of generated code\<close>

text \<open>
  What a struct tag and the type of its field have to do with each other: the tag number fits into 32 bits with the wire type, numbers have an encoding that keeps them, texts and messages have wire
  type \<open>bytes\<close>, and only slices of numbers are packed.
\<close>

definition generated :: "coder \<Rightarrow> Properties \<Rightarrow> bool" where
  "generated c p \<longleftrightarrow> 0 < p_Tag p \<and> p_Tag p < 2 ^ 29 \<and>
     (class_of c = Nums \<or> class_of c = Packed \<longrightarrow> (\<exists>k. p_val p = Some k \<and> vals_ok c k)) \<and>
     (class_of c = Raws \<or> class_of c = Messages \<longrightarrow> p_Wire p = lit ''bytes'') \<and>
     (p_Packed p \<longrightarrow> class_of c = Packed)"

lemma Parse_flag_keeps:
  "p_val (Parse_flag f fs p) = p_val p" "p_WireType (Parse_flag f fs p) = p_WireType p" "p_Wire (Parse_flag f fs p) = p_Wire p"
  "p_Tag (Parse_flag f fs p) = p_Tag p" "p_field (Parse_flag f fs p) = p_field p" "p_Name (Parse_flag f fs p) = p_Name p"
  by (simp_all add: Parse_flag_def)

lemma Parse_flags_keeps:
  "p_val (Parse_flags fs p) = p_val p" "p_WireType (Parse_flags fs p) = p_WireType p" "p_Wire (Parse_flags fs p) = p_Wire p"
  "p_Tag (Parse_flags fs p) = p_Tag p" "p_field (Parse_flags fs p) = p_field p" "p_Name (Parse_flags fs p) = p_Name p"
  by (induction fs p rule: Parse_flags.induct) (simp_all add: Parse_flag_keeps)

lemma Parse_keeps: "p_field (Properties_Parse s p) = p_field p" "p_Name (Properties_Parse s p) = p_Name p"
  by (simp_all add: Properties_Parse_def Parse_flags_keeps Let_def split: list.split option.split prod.split)

lemma wire_coder_wire:
  assumes "wire_coder w = Some (wt, vc)"
  shows "vc = Some k \<Longrightarrow> wt = val_wire k" "w = lit ''bytes'' \<Longrightarrow> wt = WireBytes" "0 \<le> wt \<and> wt < 8"
  using assms by (auto simp: wire_coder_def wire_defs split: if_splits)

lemma Parse_wire:
  assumes "p_val p = None" "p_WireType p = 0" "p_Tag p = 0"
  shows "p_val (Properties_Parse s p) = Some k \<Longrightarrow> p_WireType (Properties_Parse s p) = val_wire k"
    and "0 < p_Tag (Properties_Parse s p) \<Longrightarrow> p_Wire (Properties_Parse s p) = lit ''bytes'' \<Longrightarrow> p_WireType (Properties_Parse s p) = WireBytes"
    and "0 \<le> p_WireType (Properties_Parse s p) \<and> p_WireType (Properties_Parse s p) < 8"
  using assms wire_coder_wire
  by (auto simp: Properties_Parse_def Parse_flags_keeps Let_def split: list.splits option.splits prod.splits)

lemma setEncAndDec_keeps [simp]:
  "p_val (setEncAndDec k p) = p_val p" "p_WireType (setEncAndDec k p) = p_WireType p" "p_Wire (setEncAndDec k p) = p_Wire p" "p_Tag (setEncAndDec k p) = p_Tag p"
  "p_field (setEncAndDec k p) = p_field p" "p_Name (setEncAndDec k p) = p_Name p" "p_Packed (setEncAndDec k p) = p_Packed p" "p_coder (setEncAndDec k p) = kind_coder k p"
  by (simp_all add: setEncAndDec_def Let_def)

lemma kind_coder_packed: "kind_coder k p = Some c \<Longrightarrow> class_of c = Packed \<Longrightarrow> p_Packed p"
  by (auto simp: kind_coder_def slice_coder_def split: go_kind.splits if_splits)

lemma Properties_init_field [simp]: "p_field (Properties_init i f) = i" "p_Name (Properties_init i f) = sf_Name f"
  by (simp_all add: Properties_init_def Let_def Parse_keeps)

lemma Properties_init_untagged: "sf_Tag f = [] \<Longrightarrow> p_coder (Properties_init i f) = None"
  by (simp add: Properties_init_def Properties_new_def)

lemma generated_prop_ok:
  assumes "p_coder (Properties_init i f) = Some c" "generated c (Properties_init i f)"
  shows "prop_ok c (Properties_init i f)"
proof -
  define q where "q = Properties_new\<lparr>p_Name := sf_Name f, p_OrigName := sf_Name f, p_field := i\<rparr>"
  define r where "r = Properties_Parse (sf_Tag f) q"
  have q: "p_val q = None" "p_WireType q = 0" "p_Tag q = 0" by (simp_all add: q_def Properties_new_def)
  have p: "Properties_init i f = setEncAndDec (sf_Type f) r"
    using assms(1) Properties_init_untagged [of f i] by (auto simp: Properties_init_def q_def r_def Let_def)
  note w = Parse_wire [OF q, of "sf_Tag f", folded r_def]
  note gen = assms(2) [unfolded generated_def p setEncAndDec_keeps]
  have g: "0 < p_Tag r" "p_Tag r < 2 ^ 29" "p_Packed r \<longleftrightarrow> class_of c = Packed"
    using gen kind_coder_packed [of "sf_Type f" r c] assms(1) [unfolded p setEncAndDec_keeps] by blast+
  have "p_tagcode (setEncAndDec (sf_Type f) r) = tag_bytes (nat (p_Tag r)) (if class_of c = Packed then WireBytes else p_WireType r)"
    using setEncAndDec_tagcode [of r "sf_Type f"] g w(3) by simp
  then show ?thesis
    unfolding prop_ok_def p setEncAndDec_keeps using gen w(1,2) g(1) by blast
qed

text \<open>
  The struct types of generated code: every field with a name of its own is generated, no two of them have the same tag, internal fields have no tag, and the field for unknown fields is a slice of bytes.
\<close>

definition field_type_ok :: "nat \<Rightarrow> struct_field \<Rightarrow> bool" where
  "field_type_ok i f \<longleftrightarrow>
     (if prefix (lit ''XXX_'') (sf_Name f) then sf_Tag f = [] \<and> (sf_Name f = lit ''XXX_unrecognized'' \<longrightarrow> sf_Type f = KSlice KUint8)
      else (\<exists>c. p_coder (Properties_init i f) = Some c \<and> generated c (Properties_init i f)))"

definition type_ok :: "struct_field list \<Rightarrow> bool" where
  "type_ok fs \<longleftrightarrow> (\<forall>i < length fs. field_type_ok i (fs ! i)) \<and> distinct (map fst (shown_tags fs))"

section \<open>Decoding an item\<close>

text \<open>The zero value of a field, and the value after one more number, byte string or message.\<close>

fun zero_coder :: "coder \<Rightarrow> pval" where
  "zero_coder C3Bool = FBoolVal False"
| "zero_coder C3Int32 = FWord32Val 0"
| "zero_coder C3Uint32 = FWord32Val 0"
| "zero_coder C3Int64 = FWord64Val 0"
| "zero_coder C3String = FStringVal []"
| "zero_coder CBool = FBool None"
| "zero_coder CInt32 = FWord32 None"
| "zero_coder CUint32 = FWord32 None"
| "zero_coder CInt64 = FWord64 None"
| "zero_coder CString = FString None"
| "zero_coder CMessage = FStructPointer None"
| "zero_coder CGroup = FStructPointer None"
| "zero_coder CBytes = FBytes None"
| "zero_coder C3Bytes = FBytes None"
| "zero_coder CSliceString = FStringSlice []"
| "zero_coder CSliceBytes = FBytesSlice []"
| "zero_coder CSliceMessage = FStructPointerSlice []"
| "zero_coder CSliceGroup = FStructPointerSlice []"
| "zero_coder c =
    (if c = CSliceBool \<or> c = CPackedBool then FBoolSlice [] else if c = CSliceInt64 \<or> c = CPackedInt64 then FWord64Slice [] else FWord32Slice [])"

lemma kind_coder_zero: "kind_coder k p = Some c \<Longrightarrow> zero_value k = zero_coder c"
  by (auto simp: kind_coder_def slice_coder_def split: go_kind.splits if_splits)

fun put_num :: "coder \<Rightarrow> pval \<Rightarrow> 64 word \<Rightarrow> pval" where
  "put_num C3Bool v u = FBoolVal (u \<noteq> 0)"
| "put_num CBool v u = FBool (Some (u \<noteq> 0))"
| "put_num C3Int64 v u = FWord64Val u"
| "put_num CInt64 v u = FWord64 (Some u)"
| "put_num c v u =
    (if c = C3Int32 \<or> c = C3Uint32 then FWord32Val (ucast u)
     else if c = CInt32 \<or> c = CUint32 then FWord32 (Some (ucast u))
     else if c = CSliceBool \<or> c = CPackedBool then FBoolSlice (structPointer_BoolSlice [v] 0 @ [u \<noteq> 0])
     else if c = CSliceInt64 \<or> c = CPackedInt64 then FWord64Slice (structPointer_Word64Slice [v] 0 @ [u])
     else FWord32Slice (structPointer_Word32Slice [v] 0 @ [ucast u]))"

fun put_raw :: "coder \<Rightarrow> pval \<Rightarrow> bytes \<Rightarrow> pval" where
  "put_raw CString v s = FString (Some s)"
| "put_raw C3String v s = FStringVal s"
| "put_raw CSliceString v s = FStringSlice (structPointer_StringSlice [v] 0 @ [s])"
| "put_raw CSliceBytes v s = FBytesSlice (structPointer_BytesSlice [v] 0 @ [s])"
| "put_raw c v s = FBytes (Some s)"

fun put_msg :: "coder \<Rightarrow> pval \<Rightarrow> pval list \<Rightarrow> pval" where
  "put_msg c v b =
    (if c = CMessage \<or> c = CGroup then FStructPointer (Some b) else FStructPointerSlice (structPointer_StructPointerSlice [v] 0 @ [Some b]))"

lemma structPointer_here:
  "structPointer_BoolSlice base i = structPointer_BoolSlice [base ! i] 0" "structPointer_Word32Slice base i = structPointer_Word32Slice [base ! i] 0"
  "structPointer_Word64Slice base i = structPointer_Word64Slice [base ! i] 0" "structPointer_StringSlice base i = structPointer_StringSlice [base ! i] 0"
  "structPointer_BytesSlice base i = structPointer_BytesSlice [base ! i] 0" "structPointer_StructPointerSlice base i = structPointer_StructPointerSlice [base ! i] 0"
  by (simp_all add: structPointer_defs)

lemma dec_nums:
  "class_of c = Nums \<or> class_of c = Packed \<Longrightarrow> p_dec tys dec c p base buf = dec_value (p_valDec p buf) p base (put_num c (base ! p_field p))"
  by (cases c) (simp_all add: dec_bool_def dec_proto3_bool_def dec_int32_def dec_proto3_int32_def dec_int64_def dec_proto3_int64_def
    dec_slice_bool_def dec_slice_int32_def dec_slice_int64_def structPointer_here(1-3) [of base] dec_value_def split: option.split sum.split)

lemma dec_raws:
  "class_of c = Raws \<Longrightarrow> p_dec tys dec c p base buf = dec_value (Some (Buffer_DecodeRawBytes (c \<in> {CBytes, C3Bytes, CSliceBytes}) buf)) p base (put_raw c (base ! p_field p))"
  by (cases c) (simp_all add: dec_string_def dec_proto3_string_def dec_slice_byte_def dec_slice_string_def dec_slice_slice_byte_def Buffer_DecodeStringBytes_def
    structPointer_here(4-5) [of base] dec_value_def split: prod.split sum.split)

text \<open>Putting back what was taken from a value gives the value.\<close>

lemma kept_32: "ucast (val_kept k (ucast (x :: 32 word))) = x" "ucast (val_kept k (scast (x :: 32 word))) = x"
  by (cases k; rule bit_word_eqI; auto simp: bit_simps)+

lemma kept_64: "k \<in> {CoVarint, CoFixed64, CoZigzag64} \<Longrightarrow> val_kept k x = x"
  by auto

lemma kept_bool: "bool_word b \<noteq> 0 \<longleftrightarrow> b"
  by (simp add: bool_word_def)

lemma put_bools: "c = CSliceBool \<or> c = CPackedBool \<Longrightarrow> foldl (put_num c) (FBoolSlice ys) (map bool_word bs) = FBoolSlice (ys @ bs)"
  by (induction bs arbitrary: ys) (auto simp: structPointer_defs kept_bool)

lemma put_64s: "c = CSliceInt64 \<or> c = CPackedInt64 \<Longrightarrow> foldl (put_num c) (FWord64Slice ys) xs = FWord64Slice (ys @ xs)"
  by (induction xs arbitrary: ys) (auto simp: structPointer_defs)

lemma put_32s:
  assumes "c \<in> {CSliceInt32, CPackedInt32, CSliceUint32, CPackedUint32}" "\<And>x. ucast (g x) = x"
  shows "foldl (put_num c) (FWord32Slice ys) (map g xs) = FWord32Slice (ys @ xs)"
  using assms by (induction xs arbitrary: ys) (auto simp: structPointer_defs)

lemma put_nums:
  assumes "value_of R c v" "class_of c = Nums \<or> class_of c = Packed" "vals_ok c k"
  shows "foldl (put_num c) (zero_coder c) (map (val_kept k) (nums c v)) = v"
proof (cases v)
  case (FBoolSlice bs)
  then have "c = CSliceBool \<or> c = CPackedBool" using assms(1) by simp
  moreover from this have "k = CoVarint" "zero_coder c = FBoolSlice []" using assms(3) by auto
  ultimately show ?thesis using put_bools [of c "[]" bs] by (simp add: FBoolSlice comp_def)
next
  case (FWord64Slice xs)
  then have "c = CSliceInt64 \<or> c = CPackedInt64" using assms(1) by simp
  moreover from this have "k \<in> {CoVarint, CoFixed64, CoZigzag64}" "zero_coder c = FWord64Slice []" using assms(3) by auto
  moreover from this have "map (val_kept k) xs = xs" by (auto intro: map_idI)
  ultimately show ?thesis using put_64s [of c "[]" xs] by (simp add: FWord64Slice)
next
  case (FWord32Slice xs)
  then have "c \<in> {CSliceInt32, CPackedInt32, CSliceUint32, CPackedUint32}" using assms(1) by simp
  moreover from this have "zero_coder c = FWord32Slice []" by auto
  ultimately show ?thesis
    using put_32s [of c "\<lambda>x. val_kept k (scast x)" "[]" xs] put_32s [of c "\<lambda>x. val_kept k (ucast x)" "[]" xs] kept_32 [of k] by (simp add: FWord32Slice comp_def)
next
  case (FBool b)
  then have "c = CBool" "k = CoVarint" using assms(1,3) by simp_all
  then show ?thesis by (cases b) (simp_all add: FBool kept_bool)
next
  case (FBoolVal b)
  then have "c = C3Bool" "k = CoVarint" using assms(1,3) by simp_all
  then show ?thesis by (simp add: FBoolVal)
next
  case (FWord32 x)
  then have "c = CInt32 \<or> c = CUint32" using assms(1) by simp
  then show ?thesis by (cases x; elim disjE) (simp_all add: FWord32 kept_32)
next
  case (FWord32Val x)
  then have "c = C3Int32 \<or> c = C3Uint32" using assms(1) by simp
  then show ?thesis by (elim disjE) (simp_all add: FWord32Val kept_32)
next
  case (FWord64 x)
  then have "c = CInt64" "k \<in> {CoVarint, CoFixed64, CoZigzag64}" using assms(1,3) by simp_all
  then show ?thesis using kept_64 [of k] by (cases x) (simp_all add: FWord64)
next
  case (FWord64Val x)
  then have "c = C3Int64" "k \<in> {CoVarint, CoFixed64, CoZigzag64}" using assms(1,3) by simp_all
  then show ?thesis using kept_64 [of k x] by (simp add: FWord64Val)
qed (use assms(1,2) in \<open>auto split: option.splits\<close>)

lemma put_raw_slices:
  "foldl (put_raw CSliceString) (FStringSlice ys) ss = FStringSlice (ys @ ss)"
  "foldl (put_raw CSliceBytes) (FBytesSlice ys) ss = FBytesSlice (ys @ ss)"
  by (induction ss arbitrary: ys) (simp_all add: structPointer_defs)

lemma put_raws:
  assumes "value_of R c v" "class_of c = Raws"
  shows "foldl (put_raw c) (zero_coder c) (raws v) = v"
proof -
  have "foldl f z (opt_list x) = (case x of None \<Rightarrow> z | Some s \<Rightarrow> f z s)" for f and z :: pval and x :: "bytes option"
    by (cases x) simp_all
  then show ?thesis
    using assms by (cases c; cases v) (auto simp: put_raw_slices nonempty_def split: option.split)
qed

lemma put_msg_slices:
  "c = CSliceMessage \<or> c = CSliceGroup \<Longrightarrow> foldl (put_msg c) (FStructPointerSlice ys) bs = FStructPointerSlice (ys @ map Some bs)"
  by (induction bs arbitrary: ys) (auto simp: structPointer_defs)

lemma put_msgs:
  assumes "value_of R c v" "class_of c = Messages \<or> class_of c = Groups"
  shows "foldl (put_msg c) (zero_coder c) (msgs v) = v"
proof (cases v)
  case (FStructPointer b)
  then show ?thesis using assms by (cases c; cases b) auto
next
  case (FStructPointerSlice s)
  then have "c = CSliceMessage \<or> c = CSliceGroup" "map (Some \<circ> the) s = s"
    using assms(1) by (auto intro!: map_idI)
  then show ?thesis using put_msg_slices [of c "[]" "map the s"] by (auto simp: FStructPointerSlice)
qed (use assms in \<open>auto split: option.splits\<close>)

text \<open>
  A field decodes an item: wherever the bytes of the item are in a buffer, the decoder that \<open>unmarshalType\<close> chooses for its wire type reads them all and changes the value of the field.
\<close>

definition at_item :: "bytes \<Rightarrow> bytes \<Rightarrow> bytes \<Rightarrow> nat \<Rightarrow> Buffer \<Rightarrow> bool" where
  "at_item pre b rest n buf \<longleftrightarrow> pb_buf buf = pre @ b @ rest \<and> pb_index buf = length pre \<and> length (pb_buf buf) < 2 ^ 63 \<and> length (b @ rest) < n"

lemma at_itemD:
  assumes "at_item pre b rest n buf"
  shows "pb_buf buf = pre @ b @ rest" "pb_index buf = length pre" "length (pb_buf buf) < 2 ^ 63" "length (b @ rest) < n"
  using assms unfolding at_item_def by blast+

lemma at_item_append: "at_item pre (a @ b) rest n buf \<longleftrightarrow> at_item pre a (b @ rest) n buf"
  unfolding at_item_def append_assoc ..

definition decodes :: "struct_types \<Rightarrow> Properties \<Rightarrow> coder \<Rightarrow> wire_item \<Rightarrow> pval \<Rightarrow> pval \<Rightarrow> bool" where
  "decodes tys p c it v v' \<longleftrightarrow> (\<forall>n base buf pre rest. base ! p_field p = v \<and> at_item pre (item_bytes it) rest n buf \<longrightarrow>
     (\<exists>dec. dec_for tys (unmarshalType n tys) c p (item_wire it) = Some dec \<and>
        dec p base buf = Some (None, base[p_field p := v'], buf\<lparr>pb_index := length pre + length (item_bytes it)\<rparr>)))"

lemma val_wire_simps [simp]: "val_wire k \<noteq> WireBytes" "val_wire k \<noteq> WireStartGroup"
  by (cases k; simp add: wire_defs)+

lemma decodes_num:
  assumes "prop_ok c p" "class_of c = Nums" "p_val p = Some k"
  shows "decodes tys p c (num_item k x) v (put_num c v (val_kept k x))"
proof -
  have w: "p_WireType p = val_wire k" using assms by (auto simp: prop_ok_def)
  show ?thesis
    using valDec_bytes [of _ _ k x] assms(2,3)
    by (auto simp: decodes_def at_item_def dec_for_def w dec_nums p_valDec_def dec_value_def)
qed

lemma decodes_raw:
  assumes "prop_ok c p" "class_of c = Raws"
  shows "decodes tys p c (WBytes s) v (put_raw c v s)"
proof -
  have w: "p_WireType p = WireBytes" using assms by (auto simp: prop_ok_def)
  show ?thesis
    using Buffer_DecodeRawBytes_bytes [of _ _ s] assms(2)
    by (auto simp: decodes_def at_item_def dec_for_def w dec_raws dec_value_def)
qed

lemma packed_values_bytes:
  assumes "pb_buf buf = pre @ concat (map (val_bytes k) xs) @ rest" "pb_index buf = length pre" "fin = int (length pre + length (concat (map (val_bytes k) xs)))"
  shows "packed_values k fin v buf = (None, v @ map (val_kept k) xs, buf\<lparr>pb_index := nat fin\<rparr>)"
  using assms
proof (induction xs arbitrary: v buf pre)
  case Nil
  then show ?case by (subst packed_values.simps) simp
next
  case (Cons x xs)
  let ?buf = "buf\<lparr>pb_index := length (pre @ val_bytes k x)\<rparr>"
  have d: "valDec k buf = (Inr (val_kept k x), ?buf)"
    using valDec_bytes [of buf pre k x "concat (map (val_bytes k) xs) @ rest"] Cons.prems(1,2) by simp
  have "packed_values k fin (v @ [val_kept k x]) ?buf = (None, (v @ [val_kept k x]) @ map (val_kept k) xs, ?buf\<lparr>pb_index := nat fin\<rparr>)"
    by (rule Cons.IH [of ?buf "pre @ val_bytes k x"]) (use Cons.prems in simp_all)
  moreover have "0 < length (val_bytes k x)" by simp
  then have "int (pb_index buf) < fin" using Cons.prems(2,3) by (simp del: length_greater_0_conv)
  ultimately show ?case
    using d by (subst packed_values.simps) simp
qed

lemma packed_bools_bytes:
  assumes "pb_buf buf = pre @ concat (map varint xs) @ rest" "pb_index buf = length pre" "p_val p = Some CoVarint"
  shows "packed_bools p (length xs) v buf = Some (Inr (v @ map (\<lambda>x. x \<noteq> 0) xs), buf\<lparr>pb_index := length pre + length (concat (map varint xs))\<rparr>)"
  using assms(1,2)
proof (induction xs arbitrary: v buf pre)
  case (Cons x xs)
  let ?buf = "buf\<lparr>pb_index := length (pre @ varint x)\<rparr>"
  have d: "Buffer_DecodeVarint buf = (Inr x, ?buf)"
    using Buffer_DecodeVarint_varint [of buf pre x "concat (map varint xs) @ rest"] Cons.prems by simp
  have "packed_bools p (length xs) (v @ [x \<noteq> 0]) ?buf =
    Some (Inr ((v @ [x \<noteq> 0]) @ map (\<lambda>x. x \<noteq> 0) xs), ?buf\<lparr>pb_index := length (pre @ varint x) + length (concat (map varint xs))\<rparr>)"
    by (rule Cons.IH [of ?buf "pre @ varint x"]) (use Cons.prems in simp_all)
  then show ?case
    using d assms(3) by (simp add: p_valDec_def add.assoc)
qed simp

lemma packed_store:
  assumes "us \<noteq> []" "class_of c = Packed"
  shows "foldl (put_num c) v us =
    (if c = CPackedBool then FBoolSlice (structPointer_BoolSlice [v] 0 @ map (\<lambda>u. u \<noteq> 0) us)
     else if c = CPackedInt64 then FWord64Slice (structPointer_Word64Slice [v] 0 @ us)
     else FWord32Slice (structPointer_Word32Slice [v] 0 @ map ucast us))"
  using assms(1)
proof (induction us rule: rev_nonempty_induct)
  case (single u)
  then show ?case using assms(2) by (cases c) simp_all
next
  case (snoc u us)
  then show ?case using assms(2) by (cases c) (simp_all add: structPointer_defs)
qed

lemma decodes_packed:
  assumes "prop_ok c p" "class_of c = Packed" "p_val p = Some k" "vals_ok c k" "xs \<noteq> []" "c = CPackedBool \<Longrightarrow> length (concat (map varint xs)) = length xs"
  shows "decodes tys p c (WBytes (concat (map (val_bytes k) xs))) v (foldl (put_num c) v (map (val_kept k) xs))"
proof -
  let ?b = "concat (map (val_bytes k) xs)"
  have w: "p_WireType p = val_wire k" using assms(1-3) by (auto simp: prop_ok_def)
  have "\<exists>d. p_packedDec c = Some d \<and>
      d p base buf = Some (None, base[p_field p := foldl (put_num c) v (map (val_kept k) xs)], buf\<lparr>pb_index := length pre + length (raw_bytes ?b)\<rparr>)"
    if base: "base ! p_field p = v" and at: "at_item pre (raw_bytes ?b) rest n buf" for base buf pre rest n
  proof -
    let ?i = "length pre + length (varint (of_nat (length ?b)))"
    let ?buf = "buf\<lparr>pb_index := ?i\<rparr>"
    have d: "Buffer_DecodeVarint buf = (Inr (of_nat (length ?b)), ?buf)"
      using Buffer_DecodeVarint_varint [of buf pre "of_nat (length ?b)" "?b @ rest"] at by (simp add: at_item_def raw_bytes_def)
    have at': "pb_buf ?buf = (pre @ varint (of_nat (length ?b))) @ ?b @ rest" "pb_index ?buf = length (pre @ varint (of_nat (length ?b)))"
      using at by (simp_all add: at_item_def raw_bytes_def)
    have "length (pb_buf buf) = ?i + length ?b + length rest" using at by (simp add: at_item_def raw_bytes_def)
    moreover have "length (pb_buf buf) < 2 ^ 63" using at_itemD(3) [OF at] .
    ultimately have len: "?i + length ?b < 2 ^ 63" by linarith
    have fin: "sint (of_nat ?i + of_nat (length ?b) :: 64 word) = int (?i + length ?b)"
      using sint_of_nat_small [of "?i + length ?b"] len by simp
    have nb: "sint (of_nat (length ?b) :: 64 word) = int (length ?b)"
      by (rule sint_of_nat_small) (use len in simp)
    have pos: "0 < length ?b" using assms(5) by (cases xs) simp_all
    show ?thesis
    proof (cases "c = CPackedBool")
      case True
      then have k: "k = CoVarint" "val_bytes k = varint" "val_kept k = (\<lambda>x. x)" using assms(4) by (simp_all add: fun_eq_iff)
      show ?thesis
        using True packed_bools_bytes [OF at' [unfolded k(2)] assms(3) [unfolded k(1)]] d nb assms(5,6) packed_store [of xs c v]
        unfolding k(2,3) by (simp add: dec_slice_packed_bool_def dec_value_def base structPointer_here(1) [of base] raw_bytes_def)
    next
      case False
      show ?thesis
        using False assms(2,3,5) d fin pos packed_values_bytes [OF at', of "int (?i + length ?b)" "[]"] packed_store [of "map (val_kept k) xs" c v]
        by (cases c) (simp_all add: dec_slice_packed_int32_def dec_slice_packed_int64_def dec_packed_def base structPointer_here(2,3) [of base] raw_bytes_def)
    qed
  qed
  moreover have "dec_for tys dc c p WireBytes = p_packedDec c" for dc
    using val_wire_simps(1) [of k] by (simp add: dec_for_def w wire_defs)
  ultimately show ?thesis
    unfolding decodes_def item_bytes.simps item_wire.simps by metis
qed

text \<open>The items of a message, followed by the end of the buffer or by the end of a group, decode a new struct to a message.\<close>

definition parses :: "struct_types \<Rightarrow> nat \<Rightarrow> (nat \<times> wire_item) list \<Rightarrow> pval list \<Rightarrow> bool" where
  "parses tys t its b \<longleftrightarrow> (\<forall>n buf pre g gt rest. at_item pre (fields_bytes its) (if g then tag_bytes gt WireEndGroup @ rest else []) n buf \<longrightarrow>
     unmarshalType n tys t g (zero_struct (tys t)) buf =
       Some (None, b, buf\<lparr>pb_index := length pre + length (fields_bytes its) + (if g then length (tag_bytes gt WireEndGroup) else 0)\<rparr>))"

lemma parses_message:
  assumes "parses tys t its b" "at_item pre (raw_bytes (fields_bytes its)) rest n buf"
  shows "dec_raw (unmarshalType n tys) t (fields_bytes its) (zero_struct (tys t)) buf' = Some (None, b, buf')"
proof -
  have "length (raw_bytes (fields_bytes its) @ rest) < n" "length (pb_buf buf) < 2 ^ 63" "pb_buf buf = pre @ raw_bytes (fields_bytes its) @ rest"
    using at_itemD [OF assms(2)] by blast+
  then have "at_item [] (fields_bytes its) [] n (buf'\<lparr>pb_buf := fields_bytes its, pb_index := 0\<rparr>)"
    by (simp add: at_item_def raw_bytes_def)
  then show ?thesis
    using assms(1) [unfolded parses_def, rule_format, of "[]" False] by (simp add: dec_raw_def)
qed

lemma decodes_message:
  assumes "prop_ok c p" "class_of c = Messages" "parses tys (p_stype p) its b" "c = CMessage \<Longrightarrow> v = FStructPointer None"
  shows "decodes tys p c (WBytes (fields_bytes its)) v (put_msg c v b)"
proof -
  have w: "p_WireType p = WireBytes" using assms(1,2) by (auto simp: prop_ok_def)
  have "p_dec tys (unmarshalType n tys) c p base buf = Some (None, base[p_field p := put_msg c v b], buf\<lparr>pb_index := length pre + length (raw_bytes (fields_bytes its))\<rparr>)"
    if base: "base ! p_field p = v" and at: "at_item pre (raw_bytes (fields_bytes its)) rest n buf" for base buf pre rest n
  proof -
    let ?buf = "buf\<lparr>pb_index := length pre + length (raw_bytes (fields_bytes its))\<rparr>"
    have "Buffer_DecodeRawBytes False buf = (Inr (fields_bytes its), ?buf)"
      by (rule Buffer_DecodeRawBytes_bytes) (use at_itemD [OF at] in blast)+
    then show ?thesis
      using assms(2,4) parses_message [OF assms(3) at, of ?buf] structPointer_here(6) [of base "p_field p"]
      by (cases c) (simp_all add: dec_struct_message_def dec_slice_struct_message_def dec_slice_struct_def the_struct_def structPointer_GetStructPointer_def base Let_def)
  qed
  moreover have "dec_for tys dc c p WireBytes = Some (p_dec tys dc c)" for dc by (simp add: dec_for_def w)
  ultimately show ?thesis
    unfolding decodes_def item_bytes.simps item_wire.simps by metis
qed

lemma decodes_group:
  assumes "class_of c = Groups" "parses tys (p_stype p) its b" "c = CGroup \<Longrightarrow> v = FStructPointer None"
  shows "decodes tys p c (WGroup g its) v (put_msg c v b)"
proof -
  have "p_dec tys (unmarshalType n tys) c p base buf = Some (None, base[p_field p := put_msg c v b], buf\<lparr>pb_index := length pre + length (item_bytes (WGroup g its))\<rparr>)"
    if base: "base ! p_field p = v" and at: "at_item pre (item_bytes (WGroup g its)) rest n buf" for base buf pre rest n
  proof -
    have "at_item pre (fields_bytes its) (tag_bytes g WireEndGroup @ rest) n buf" using at by (simp add: at_item_append)
    then have "unmarshalType n tys (p_stype p) True (zero_struct (tys (p_stype p))) buf = Some (None, b, buf\<lparr>pb_index := length pre + length (item_bytes (WGroup g its))\<rparr>)"
      using assms(2) [unfolded parses_def, rule_format, of pre True g rest n buf] by simp
    then show ?thesis
      using assms(1,3) structPointer_here(6) [of base "p_field p"]
      by (cases c) (simp_all add: dec_struct_group_def dec_slice_struct_group_def dec_slice_struct_def the_struct_def structPointer_GetStructPointer_def base Let_def)
  qed
  moreover have "dec_for tys dc c p WireStartGroup = Some (p_dec tys dc c)" for dc by (simp add: dec_for_def)
  ultimately show ?thesis
    unfolding decodes_def item_wire.simps by metis
qed

fun decodes_all :: "struct_types \<Rightarrow> Properties \<Rightarrow> coder \<Rightarrow> wire_item list \<Rightarrow> pval \<Rightarrow> pval \<Rightarrow> bool" where
  "decodes_all tys p c [] v v' \<longleftrightarrow> v' = v"
| "decodes_all tys p c (it # its) v v' \<longleftrightarrow> (\<exists>w. decodes tys p c it v w \<and> decodes_all tys p c its w v')"

lemma decodes_all_map: "(\<And>x v. x \<in> set xs \<Longrightarrow> decodes tys p c (g x) v (put v x)) \<Longrightarrow> decodes_all tys p c (map g xs) v (foldl put v xs)"
  by (induction xs arbitrary: v) auto

lemma nums_packed_bool: "value_of R CPackedBool v \<Longrightarrow> length (concat (map varint (nums CPackedBool v))) = length (nums CPackedBool v)"
  by (cases v) (simp_all add: bools_length comp_def)

lemma msgs_decode:
  assumes "prop_ok c p" "value_of R c v" "class_of c = Messages \<or> class_of c = Groups" "\<forall>b \<in> set (msgs v). parses tys (p_stype p) (f b) b"
  shows "decodes_all tys p c (map (\<lambda>b. msg_item (class_of c) t (f b)) (msgs v)) (zero_coder c) v"
proof -
  have step: "decodes tys p c (msg_item (class_of c) t (f b)) w (put_msg c w b)" if "b \<in> set (msgs v)" "c = CMessage \<or> c = CGroup \<Longrightarrow> w = FStructPointer None" for b w
    using assms(1,3,4) that decodes_message [of c p tys "f b" b w] decodes_group [of c tys p "f b" b w t] by (auto simp: msg_item_def)
  show ?thesis
  proof (cases "c = CMessage \<or> c = CGroup")
    case True
    then obtain b where v: "v = FStructPointer b" using assms(2) by (cases v) auto
    show ?thesis using step [of _ "FStructPointer None"] True by (cases b) (auto simp: v)
  next
    case False
    then show ?thesis
      using decodes_all_map [of "msgs v" tys p c "\<lambda>b. msg_item (class_of c) t (f b)" "put_msg c" "zero_coder c"] step put_msgs [OF assms(2,3)] by simp
  qed
qed

lemma field_decodes:
  assumes "prop_ok c p" "value_of R c v" "\<forall>b \<in> set (msgs v). parses tys (p_stype p) (f b) b"
  shows "decodes_all tys p c (map snd (field_items c p f v)) (zero_coder c) v"
proof -
  have num: "class_of c = Nums \<or> class_of c = Packed \<Longrightarrow> \<exists>k. p_val p = Some k \<and> vals_ok c k" using assms(1) unfolding prop_ok_def by blast
  show ?thesis
  proof (cases "class_of c")
    case Nums
    then obtain k where k: "p_val p = Some k" "vals_ok c k" using num by blast
    have "decodes_all tys p c (map (num_item k) (nums c v)) (zero_coder c) (foldl (\<lambda>v x. put_num c v (val_kept k x)) (zero_coder c) (nums c v))"
      by (rule decodes_all_map) (rule decodes_num [OF assms(1) Nums k(1)])
    then show ?thesis
      using put_nums [OF assms(2) _ k(2)] Nums k(1) by (simp add: field_items_def comp_def foldl_map del: vals_ok.simps)
  next
    case Packed
    then obtain k where k: "p_val p = Some k" "vals_ok c k" using num by blast
    have len: "c = CPackedBool \<Longrightarrow> length (concat (map varint (nums c v))) = length (nums c v)"
      using nums_packed_bool assms(2) by blast
    show ?thesis
      using decodes_packed [OF assms(1) Packed k, of "nums c v" tys "zero_coder c"] len put_nums [OF assms(2) _ k(2)] Packed k(1)
      by (cases "nums c v = []") (simp_all add: field_items_def del: vals_ok.simps)
  next
    case Raws
    have "decodes_all tys p c (map WBytes (raws v)) (zero_coder c) (foldl (put_raw c) (zero_coder c) (raws v))"
      by (rule decodes_all_map) (rule decodes_raw [OF assms(1) Raws])
    then show ?thesis
      using put_raws [OF assms(2) Raws] Raws by (simp add: field_items_def comp_def)
  next
    case Messages
    then show ?thesis using msgs_decode [OF assms(1,2) _ assms(3)] by (simp add: field_items_def comp_def)
  next
    case Groups
    then show ?thesis using msgs_decode [OF assms(1,2) _ assms(3)] by (simp add: field_items_def comp_def)
  qed
qed

section \<open>Decoding a struct\<close>

lemma tag_number:
  assumes "0 \<le> w" "w < 8" "t < 2 ^ 60"
  shows "sint (drop_bit 3 (of_nat (8 * t + nat w) :: 64 word)) = int t"
proof -
  have "unat (drop_bit 3 (of_nat (8 * t + nat w) :: 64 word)) = (8 * t + nat w) div 8"
    using assms by (simp add: drop_bit_eq_div unat_div unat_of_nat del: of_nat_add of_nat_mult)
  also have "\<dots> = t" using assms by simp
  finally have "unat (drop_bit 3 (of_nat (8 * t + nat w) :: 64 word)) = t" .
  moreover have "of_nat (unat x) = x" for x :: "64 word" by simp
  ultimately have "drop_bit 3 (of_nat (8 * t + nat w) :: 64 word) = of_nat t" by metis
  then show ?thesis using sint_of_nat_small [of t] assms(3) by simp
qed

text \<open>One turn of the loop: a known field decodes the item, an unknown one is saved.\<close>

definition unrec_put :: "nat option \<Rightarrow> bytes \<Rightarrow> pval list \<Rightarrow> pval list" where
  "unrec_put uf b base = (case uf of
     None \<Rightarrow> base
   | Some f \<Rightarrow> base[f := FBytes (Some ((case structPointer_Bytes base f of None \<Rightarrow> [] | Some v \<Rightarrow> v) @ b))])"

definition step :: "struct_types \<Rightarrow> nat \<Rightarrow> pval list \<Rightarrow> nat \<Rightarrow> wire_item \<Rightarrow> pval list \<Rightarrow> bool" where
  "step tys t base tag it base' \<longleftrightarrow> (let prop = getProperties (tys t) in
     case tagMap_get (sp_decoderTags prop) (int tag) of
       None \<Rightarrow> base' = unrec_put (sp_unrecField prop) (tag_bytes tag (item_wire it) @ item_bytes it) base
     | Some j \<Rightarrow> (let p = sp_Prop prop ! nat j in
         \<exists>c v. p_coder p = Some c \<and> p_field p = nat j \<and> decodes tys p c it (base ! nat j) v \<and> base' = base[nat j := v]))"

definition req_step :: "struct_types \<Rightarrow> nat \<Rightarrow> nat \<Rightarrow> int \<times> 64 word \<Rightarrow> int \<times> 64 word" where
  "req_step tys t tag req = (let prop = getProperties (tys t) in
     case tagMap_get (sp_decoderTags prop) (int tag) of
       None \<Rightarrow> req
     | Some j \<Rightarrow> if p_Required (sp_Prop prop ! nat j) then count_required (int tag) req else req)"

lemma unmarshalType_eta: "(\<lambda>t g b buf. unmarshal_loop n tys t g None (sp_reqCount (getProperties (tys t)), 0) b buf) = unmarshalType n tys"
  by (simp add: fun_eq_iff unmarshalType_def)

lemma tag_bytes_not_Nil [simp]: "tag_bytes t w \<noteq> []" "0 < length (tag_bytes t w)"
  by (simp_all add: tag_bytes_def)

lemma skipAndSave_item:
  assumes "at_item pre (item_bytes it) rest n buf" "0 < tag"
  shows "skipAndSave (int tag) (item_wire it) base uf buf =
    Some (None, unrec_put uf (tag_bytes tag (item_wire it) @ item_bytes it) base, buf\<lparr>pb_index := length pre + length (item_bytes it)\<rparr>)"
proof -
  have "in_buffer buf" using at_itemD [OF assms(1)] by (simp add: in_buffer_def)
  then have "skip (item_wire it) buf = Some (None, buf\<lparr>pb_index := length pre + length (item_bytes it)\<rparr>)"
    using skip_item at_itemD(1,2) [OF assms(1)] by blast
  moreover have "push_bit 3 (word_of_int (int tag)) OR word_of_int (item_wire it) = (of_nat (8 * tag + nat (item_wire it)) :: 64 word)"
    using tag_or [of "int tag" "item_wire it"] item_wire_range [of it] by (simp del: of_nat_add of_nat_mult of_int_of_nat_eq)
  ultimately show ?thesis
    using at_itemD(1,2) [OF assms(1)]
    by (simp add: skipAndSave_def unrec_put_def Let_def Buffer_EncodeVarint_eq Buffer_append_def tag_bytes_def del: of_nat_add of_nat_mult of_int_of_nat_eq split: option.split)
qed

lemma loop_step:
  assumes "step tys t base tag it base'" "0 < tag" "tag < 2 ^ 60" "at_item pre (tag_bytes tag (item_wire it) @ item_bytes it) rest (Suc n) buf"
  shows "unmarshal_loop (Suc n) tys t g None req base buf =
    unmarshal_loop n tys t g None (req_step tys t tag req) base' (buf\<lparr>pb_index := length pre + length (tag_bytes tag (item_wire it) @ item_bytes it)\<rparr>)"
proof -
  let ?w = "item_wire it" and ?sp = "getProperties (tys t)"
  let ?tg = "tag_bytes tag ?w"
  define buf1 where "buf1 = buf\<lparr>pb_index := length pre + length ?tg\<rparr>"
  note at = at_itemD [OF assms(4)]
  have i: "pb_index buf < length (pb_buf buf)" using at(1,2) by simp
  have d: "Buffer_DecodeVarint buf = (Inr (of_nat (8 * tag + nat ?w)), buf1)"
    unfolding buf1_def by (rule tag_decode) (use at in simp_all)
  have u: "uint (of_nat (8 * tag + nat ?w) AND 7 :: 64 word) = ?w" "sint (drop_bit 3 (of_nat (8 * tag + nat ?w) :: 64 word)) = int tag"
    using tag_wire tag_number item_wire_range [of it] assms(3) by blast+
  have "length (item_bytes it @ rest) < n" using at(4) tag_bytes_not_Nil(2) [of tag ?w] unfolding length_append by linarith
  then have at1: "at_item (pre @ ?tg) (item_bytes it) rest n buf1" using at by (simp add: at_item_def buf1_def)
  show ?thesis
  proof (cases "tagMap_get (sp_decoderTags ?sp) (int tag)")
    case None
    then show ?thesis
      using assms(1,2) i d u item_wire_range(3) [of it] skipAndSave_item [OF at1 assms(2)]
      by (simp add: step_def req_step_def Let_def buf1_def add.assoc del: of_nat_add of_nat_mult)
  next
    case (Some j)
    let ?p = "sp_Prop ?sp ! nat j"
    obtain c v where c: "p_coder ?p = Some c" "p_field ?p = nat j" "decodes tys ?p c it (base ! nat j) v" "base' = base[nat j := v]"
      using assms(1) Some by (auto simp: step_def Let_def)
    obtain dec where dec: "dec_for tys (unmarshalType n tys) c ?p ?w = Some dec" "dec ?p base buf1 = Some (None, base', buf1\<lparr>pb_index := length (pre @ ?tg) + length (item_bytes it)\<rparr>)"
      using c(3) [unfolded decodes_def, rule_format, of base, OF conjI, OF _ at1] c(2,4) by auto
    then show ?thesis
      using assms(2) Some c(1) i d u item_wire_range(3) [of it]
      by (simp add: req_step_def Let_def unmarshalType_eta buf1_def add.assoc del: of_nat_add of_nat_mult)
  qed
qed

fun run :: "struct_types \<Rightarrow> nat \<Rightarrow> pval list \<Rightarrow> (nat \<times> wire_item) list \<Rightarrow> pval list \<Rightarrow> bool" where
  "run tys t base [] base' \<longleftrightarrow> base' = base"
| "run tys t base ((tag, it) # its) base' \<longleftrightarrow> 0 < tag \<and> tag < 2 ^ 60 \<and> (\<exists>base1. step tys t base tag it base1 \<and> run tys t base1 its base')"

definition req_run :: "struct_types \<Rightarrow> nat \<Rightarrow> (nat \<times> wire_item) list \<Rightarrow> int \<times> 64 word \<Rightarrow> int \<times> 64 word" where
  "req_run tys t its req = foldl (\<lambda>req (tag, it). req_step tys t tag req) req its"

lemma run_append: "run tys t base (xs @ ys) base' \<longleftrightarrow> (\<exists>b. run tys t base xs b \<and> run tys t b ys base')"
proof (induction xs arbitrary: base)
  case (Cons x xs)
  then show ?case by (cases x) auto
qed simp

lemma loop_run:
  assumes "run tys t base its base'" "at_item pre (fields_bytes its) rest n buf"
  shows "\<exists>m > length rest. unmarshal_loop n tys t g None req base buf =
    unmarshal_loop m tys t g None (req_run tys t its req) base' (buf\<lparr>pb_index := length pre + length (fields_bytes its)\<rparr>)"
  using assms
proof (induction its arbitrary: base pre n buf req)
  case Nil
  have "buf\<lparr>pb_index := length pre\<rparr> = buf" using at_itemD(2) [OF Nil(2)] by (metis Buffer.surjective Buffer.update_convs(2))
  then show ?case using Nil at_itemD(4) [OF Nil(2)] by (auto simp: req_run_def)
next
  case (Cons x its)
  obtain tag it where x: "x = (tag, it)" by fastforce
  let ?b = "tag_bytes tag (item_wire it) @ item_bytes it"
  obtain base1 where r: "0 < tag" "tag < 2 ^ 60" "step tys t base tag it base1" "run tys t base1 its base'"
    using Cons.prems(1) by (auto simp: x)
  have at: "at_item pre ?b (fields_bytes its @ rest) n buf" using Cons.prems(2) by (simp add: x at_item_append)
  then obtain m where n: "n = Suc m" using at_itemD(4) [OF at] by (cases n) auto
  define buf1 where "buf1 = buf\<lparr>pb_index := length pre + length ?b\<rparr>"
  have "length (fields_bytes its @ rest) < m"
    using at_itemD(4) [OF at] tag_bytes_not_Nil(2) [of tag "item_wire it"] unfolding length_append n by linarith
  then have "at_item (pre @ ?b) (fields_bytes its) rest m buf1"
    using at_itemD(1-3) [OF at] by (simp add: at_item_def buf1_def)
  from Cons.IH [OF r(4) this, of "req_step tys t tag req"] show ?case
    using loop_step [OF r(3,1,2) at [unfolded n], of g req] unfolding buf1_def [symmetric] n
    by (auto simp: x req_run_def buf1_def add.assoc del: unmarshal_loop.simps)
qed

text \<open>The count of required fields goes below one when each of them has an item.\<close>

definition required_fields :: "struct_field list \<Rightarrow> nat set" where
  "required_fields fs = {i. i < length fs \<and> \<not> internal (sp_Prop (getProperties fs) ! i) \<and> p_Required (sp_Prop (getProperties fs) ! i)}"

lemma sp_Prop_nth: "i < length fs \<Longrightarrow> sp_Prop (getProperties fs) ! i = Properties_init i (fs ! i)"
  by (simp add: getProperties_def Let_def nth_enumerate_eq)

lemma length_sp_Prop [simp]: "length (sp_Prop (getProperties fs)) = length fs"
  by (simp add: getProperties_def Let_def)

lemma enumerate_nth: "enumerate 0 xs = map (\<lambda>i. (i, xs ! i)) [0..<length xs]"
  by (rule nth_equalityI) (simp_all add: nth_enumerate_eq)

lemma sp_reqCount_card: "sp_reqCount (getProperties fs) = int (card (required_fields fs))"
proof -
  let ?P = "sp_Prop (getProperties fs)"
  have "sp_reqCount (getProperties fs) = int (length (filter (\<lambda>(i, p). \<not> internal p \<and> p_Required p) (enumerate 0 ?P)))"
    by (simp add: getProperties_def Let_def filter_filter case_prod_unfold conj_commute)
  also have "\<dots> = int (length (filter (\<lambda>i. \<not> internal (?P ! i) \<and> p_Required (?P ! i)) [0..<length fs]))"
    by (simp add: enumerate_nth filter_map comp_def)
  also have "length (filter (\<lambda>i. \<not> internal (?P ! i) \<and> p_Required (?P ! i)) [0..<length fs]) = card (required_fields fs)"
    by (subst distinct_card [symmetric]) (auto simp: required_fields_def intro!: arg_cong [where f = card])
  finally show ?thesis .
qed

lemma type_tags:
  assumes "type_ok fs" "i < length fs" "\<not> internal (sp_Prop (getProperties fs) ! i)"
  shows "tagMap_get (sp_decoderTags (getProperties fs)) (p_Tag (sp_Prop (getProperties fs) ! i)) = Some (int i)"
proof -
  have "(p_Tag (sp_Prop (getProperties fs) ! i), int i) \<in> set (shown_tags fs)"
    using assms(2,3) by (auto simp: shown_tags_def enumerate_nth image_iff)
  then show ?thesis
    using assms(1) getProperties_tags [of fs] by (simp add: type_ok_def)
qed

lemma tag_known:
  assumes "type_ok fs" "tagMap_get (sp_decoderTags (getProperties fs)) tag = Some j"
  obtains i where "j = int i" "i < length fs" "\<not> internal (sp_Prop (getProperties fs) ! i)" "p_Tag (sp_Prop (getProperties fs) ! i) = tag"
proof -
  have "map_of (shown_tags fs) tag = Some j" using assms getProperties_tags [of fs] by (simp add: type_ok_def)
  then have "(tag, j) \<in> set (shown_tags fs)" by (rule map_of_SomeD)
  then show ?thesis using that by (auto simp: shown_tags_def enumerate_nth)
qed

lemma internal_iff: "i < length fs \<Longrightarrow> internal (sp_Prop (getProperties fs) ! i) \<longleftrightarrow> prefix (lit ''XXX_'') (sf_Name (fs ! i))"
  by (simp add: internal_def sp_Prop_nth)

lemma type_prop_ok:
  assumes "type_ok fs" "i < length fs" "\<not> internal (sp_Prop (getProperties fs) ! i)"
  obtains c where "p_coder (sp_Prop (getProperties fs) ! i) = Some c" "prop_ok c (sp_Prop (getProperties fs) ! i)"
proof -
  have "field_type_ok i (fs ! i)" using assms(1,2) by (simp add: type_ok_def)
  then obtain c where "p_coder (Properties_init i (fs ! i)) = Some c" "generated c (Properties_init i (fs ! i))"
    using assms(2,3) by (auto simp: field_type_ok_def internal_iff)
  then show ?thesis using that generated_prop_ok assms(2) by (auto simp: sp_Prop_nth)
qed

text \<open>Seen fields are no longer counted: the count is at most the number of required fields not seen, and the bitmap has bits of seen fields only.\<close>

definition req_inv :: "struct_field list \<Rightarrow> nat set \<Rightarrow> int \<times> 64 word \<Rightarrow> bool" where
  "req_inv fs seen req \<longleftrightarrow> fst req \<le> int (card (required_fields fs - seen)) \<and>
     (\<forall>i \<in> required_fields fs. p_Tag (sp_Prop (getProperties fs) ! i) \<le> 64 \<longrightarrow> bit (snd req) (nat (p_Tag (sp_Prop (getProperties fs) ! i) - 1)) \<longrightarrow> i \<in> seen)"

lemma finite_required: "finite (required_fields fs)"
  by (simp add: required_fields_def)

lemma card_seen: "finite A \<Longrightarrow> i \<in> A \<Longrightarrow> int (card (A - S)) - 1 \<le> int (card (A - insert i S))"
proof -
  assume "finite A" "i \<in> A"
  then have "card (A - S) \<le> card (insert i (A - insert i S))" by (intro card_mono) auto
  also have "\<dots> \<le> Suc (card (A - insert i S))" by (simp add: card_insert_le_m1 card_insert_if)
  finally show ?thesis by simp
qed

lemma req_inv_step:
  assumes "type_ok (tys t)" "req_inv (tys t) seen req" "0 < tag"
  shows "req_inv (tys t) (seen \<union> {i. tagMap_get (sp_decoderTags (getProperties (tys t))) (int tag) = Some (int i)}) (req_step tys t tag req)"
proof (cases "tagMap_get (sp_decoderTags (getProperties (tys t))) (int tag)")
  case None
  then show ?thesis using assms(2) by (simp add: req_step_def Let_def)
next
  case (Some j)
  let ?P = "sp_Prop (getProperties (tys t))" and ?R = "required_fields (tys t)"
  obtain i where i: "j = int i" "i < length (tys t)" "\<not> internal (?P ! i)" "p_Tag (?P ! i) = int tag" using tag_known [OF assms(1) Some] .
  have S: "seen \<union> {i. tagMap_get (sp_decoderTags (getProperties (tys t))) (int tag) = Some (int i)} = insert i seen" using Some i(1) by auto
  have less: "card (?R - insert i seen) \<le> card (?R - seen)" by (rule card_mono) (use finite_required in auto)
  obtain r f where req: "req = (r, f)" by fastforce
  show ?thesis
  proof (cases "p_Required (?P ! i)")
    case False
    then have "i \<notin> ?R" by (simp add: required_fields_def)
    then have "?R - insert i seen = ?R - seen" by auto
    then show ?thesis using assms(2) Some i(1) False by (auto simp: S req_inv_def req_step_def Let_def)
  next
    case True
    then have R: "i \<in> ?R" using i by (simp add: required_fields_def)
    have uniq: "k = i" if "k \<in> ?R" "p_Tag (?P ! k) = int tag" for k
      using type_tags [OF assms(1), of k] that Some i(1) by (simp add: required_fields_def)
    have c: "int (card (?R - seen)) - 1 \<le> int (card (?R - insert i seen))" using card_seen [OF finite_required R] .
    show ?thesis
    proof (cases "int tag \<le> 64 \<and> bit f (nat (int tag - 1))")
      case seen: True
      then have "i \<in> seen" using assms(2) R i(4) by (auto simp: req_inv_def req)
      then show ?thesis
        using assms(2,3) Some i(1) True seen by (auto simp: S insert_absorb req_step_def Let_def count_required_def req and_exp_eq_0_iff_not_bit)
    next
      case new: False
      then have "req_step tys t tag req = (r - 1, if int tag \<le> 64 then f OR 2 ^ nat (int tag - 1) else f)"
        using Some i(1) True assms(3) by (auto simp: req_step_def Let_def count_required_def req and_exp_eq_0_iff_not_bit)
      moreover have "k \<in> insert i seen"
        if k: "k \<in> ?R" "p_Tag (?P ! k) \<le> 64" "bit (if int tag \<le> 64 then f OR 2 ^ nat (int tag - 1) else f) (nat (p_Tag (?P ! k) - 1))" for k
      proof -
        have k': "k < length (tys t)" "\<not> internal (?P ! k)" using k(1) by (simp_all add: required_fields_def)
        then have "0 < p_Tag (?P ! k)" using type_prop_ok [OF assms(1) k'] by (metis prop_ok_def)
        then have "p_Tag (?P ! k) = int tag \<or> bit f (nat (p_Tag (?P ! k) - 1))"
          using k(3) assms(3) by (auto simp: bit_or_iff bit_exp_iff split: if_splits)
        then show ?thesis using uniq [OF k(1)] assms(2) k(1,2) by (auto simp: req_inv_def req)
      qed
      ultimately show ?thesis using assms(2) c by (auto simp: S req_inv_def req)
    qed
  qed
qed

definition seen_by :: "struct_field list \<Rightarrow> (nat \<times> wire_item) list \<Rightarrow> nat set" where
  "seen_by fs its = {i. \<exists>tag it. (tag, it) \<in> set its \<and> tagMap_get (sp_decoderTags (getProperties fs)) (int tag) = Some (int i)}"

lemma req_inv_run:
  assumes "type_ok (tys t)" "req_inv (tys t) seen req" "\<forall>(tag, it) \<in> set its. 0 < tag"
  shows "req_inv (tys t) (seen \<union> seen_by (tys t) its) (req_run tys t its req)"
  using assms(2,3)
proof (induction its arbitrary: seen req)
  case (Cons x its)
  obtain tag it where x: "x = (tag, it)" by fastforce
  let ?S = "{i. tagMap_get (sp_decoderTags (getProperties (tys t))) (int tag) = Some (int i)}"
  have "req_inv (tys t) (seen \<union> ?S) (req_step tys t tag req)"
    using req_inv_step [of tys t seen req tag, OF assms(1) Cons.prems(1)] Cons.prems(2) by (simp add: x)
  from Cons.IH [OF this] Cons.prems(2)
  have "req_inv (tys t) (seen \<union> ?S \<union> seen_by (tys t) its) (req_run tys t (x # its) req)" by (simp add: x req_run_def)
  moreover have "seen \<union> ?S \<union> seen_by (tys t) its = seen \<union> seen_by (tys t) (x # its)" by (auto simp: seen_by_def x)
  ultimately show ?case by simp
qed (simp add: seen_by_def req_run_def)

lemma required_seen:
  assumes "type_ok (tys t)" "required_fields (tys t) \<subseteq> seen_by (tys t) its" "\<forall>(tag, it) \<in> set its. 0 < tag"
  shows "fst (req_run tys t its (sp_reqCount (getProperties (tys t)), 0)) \<le> 0"
proof -
  have "req_inv (tys t) {} (sp_reqCount (getProperties (tys t)), 0)" by (simp add: req_inv_def sp_reqCount_card)
  from req_inv_run [of tys t "{}", OF assms(1) this assms(3)] assms(2) show ?thesis
    by (simp add: req_inv_def Diff_eq_empty_iff [THEN iffD2])
qed

lemma run_tags: "run tys t base its base' \<Longrightarrow> \<forall>(tag, it) \<in> set its. 0 < tag"
proof (induction its arbitrary: base)
  case (Cons x its)
  then show ?case by (cases x) fastforce
qed simp

lemma parsesI:
  assumes "type_ok (tys t)" "run tys t (zero_struct (tys t)) its b" "required_fields (tys t) \<subseteq> seen_by (tys t) its"
  shows "parses tys t its b"
  unfolding parses_def
proof (intro allI impI)
  fix n buf pre g gt rest
  let ?rest = "if g then tag_bytes gt WireEndGroup @ rest else []"
  assume at: "at_item pre (fields_bytes its) ?rest n buf"
  let ?req = "(sp_reqCount (getProperties (tys t)), 0)"
  define buf1 where "buf1 = buf\<lparr>pb_index := length pre + length (fields_bytes its)\<rparr>"
  obtain m where m: "length ?rest < m" "unmarshalType n tys t g (zero_struct (tys t)) buf = unmarshal_loop m tys t g None (req_run tys t its ?req) b buf1"
    using loop_run [OF assms(2) at, of g ?req] unfolding unmarshalType_def buf1_def by blast
  then obtain k where k: "m = Suc k" by (cases m) auto
  have none: "fst (req_run tys t its ?req) \<le> 0" using required_seen [of tys t its, OF assms(1,3) run_tags [OF assms(2)]] .
  show "unmarshalType n tys t g (zero_struct (tys t)) buf =
      Some (None, b, buf\<lparr>pb_index := length pre + length (fields_bytes its) + (if g then length (tag_bytes gt WireEndGroup) else 0)\<rparr>)"
  proof (cases g)
    case False
    then have "pb_index buf1 = length (pb_buf buf1)" using at_itemD(1) [OF at] by (simp add: buf1_def)
    then show ?thesis using m(2) False none by (simp add: k unmarshal_end_def buf1_def Let_def)
  next
    case True
    let ?pre = "pre @ fields_bytes its"
    have b1: "pb_buf buf1 = ?pre @ tag_bytes gt WireEndGroup @ rest" "pb_index buf1 = length ?pre" using at_itemD(1) [OF at] True by (simp_all add: buf1_def)
    then have "pb_index buf1 < length (pb_buf buf1)" by simp
    moreover have "uint (of_nat (8 * gt + nat WireEndGroup) AND 7 :: 64 word) = WireEndGroup" by (rule tag_wire) (simp_all add: wire_defs)
    ultimately show ?thesis
      using m(2) True tag_decode [OF b1] by (simp add: k buf1_def Let_def add.assoc del: of_nat_add of_nat_mult)
  qed
qed

section \<open>Messages\<close>

lemma run_field:
  assumes "type_ok (tys t)" "i < length (tys t)" "\<not> internal (sp_Prop (getProperties (tys t)) ! i)" "p_coder (sp_Prop (getProperties (tys t)) ! i) = Some c"
    "decodes_all tys (sp_Prop (getProperties (tys t)) ! i) c its (base ! i) v" "length base = length (tys t)"
  shows "run tys t base (map (\<lambda>it. (nat (p_Tag (sp_Prop (getProperties (tys t)) ! i)), it)) its) (base[i := v])"
proof -
  let ?p = "sp_Prop (getProperties (tys t)) ! i"
  have tag: "0 < p_Tag ?p" "p_Tag ?p < 2 ^ 29" using type_prop_ok [OF assms(1-3)] by (metis prop_ok_def)+
  have get: "tagMap_get (sp_decoderTags (getProperties (tys t))) (p_Tag ?p) = Some (int i)" using type_tags [OF assms(1-3)] .
  show ?thesis
    using assms(5,6)
  proof (induction its arbitrary: base)
    case (Cons it its)
    then obtain w where w: "decodes tys ?p c it (base ! i) w" "decodes_all tys ?p c its w v" by auto
    have "step tys t base (nat (p_Tag ?p)) it (base[i := w])"
      using tag(1) get assms(2,4) w(1) by (auto simp: step_def Let_def sp_Prop_nth)
    moreover have "run tys t (base[i := w]) (map (\<lambda>it. (nat (p_Tag ?p), it)) its) ((base[i := w])[i := v])"
      using Cons.IH [of "base[i := w]"] w(2) Cons.prems(2) assms(2) by simp
    ultimately show ?case using tag by auto
  qed simp
qed

text \<open>The items of a field take its value to another one; a field without a decoder has no items and keeps its value.\<close>

definition field_run :: "struct_types \<Rightarrow> nat \<Rightarrow> nat \<Rightarrow> (nat \<times> wire_item) list \<Rightarrow> pval \<Rightarrow> pval \<Rightarrow> bool" where
  "field_run tys t i its v v' \<longleftrightarrow> i < length (tys t) \<and> (let p = sp_Prop (getProperties (tys t)) ! i in
     case p_coder p of
       None \<Rightarrow> its = [] \<and> v' = v
     | Some c \<Rightarrow> \<not> internal p \<and> its = map (\<lambda>it. (nat (p_Tag p), it)) (map snd its) \<and> decodes_all tys p c (map snd its) v v')"

lemma run_fields:
  assumes "type_ok (tys t)" "length base = length (tys t)" "distinct is" "\<forall>i \<in> set is. field_run tys t i (g i) (base ! i) (target ! i)"
  shows "run tys t base (concat (map g is)) (map (\<lambda>i. if i \<in> set is then target ! i else base ! i) [0..<length base])"
  using assms(2-4)
proof (induction "is" arbitrary: base)
  case Nil
  then show ?case using map_nth [of base] by simp
next
  case (Cons i "is")
  let ?p = "sp_Prop (getProperties (tys t)) ! i" and ?base = "base[i := target ! i]"
  have i: "field_run tys t i (g i) (base ! i) (target ! i)" using Cons.prems(3) by simp
  have "run tys t base (g i) ?base"
  proof (cases "p_coder ?p")
    case None
    then show ?thesis using i by (simp add: field_run_def Let_def)
  next
    case (Some c)
    then have f: "i < length (tys t)" "\<not> internal ?p" "g i = map (\<lambda>it. (nat (p_Tag ?p), it)) (map snd (g i))" "decodes_all tys ?p c (map snd (g i)) (base ! i) (target ! i)"
      using i by (simp_all add: field_run_def Let_def)
    then show ?thesis using run_field [of tys t i c "map snd (g i)" base, OF assms(1) f(1,2) Some f(4) Cons.prems(1)] by simp
  qed
  moreover have "?base ! k = base ! k" if "k \<in> set is" for k using Cons.prems(2) that by (metis distinct.simps(2) nth_list_update_neq)
  then have "run tys t ?base (concat (map g is)) (map (\<lambda>k. if k \<in> set is then target ! k else ?base ! k) [0..<length ?base])"
    using Cons.IH [of ?base] Cons.prems by simp
  moreover have "map (\<lambda>k. if k \<in> set is then target ! k else ?base ! k) [0..<length ?base] = map (\<lambda>k. if k \<in> set (i # is) then target ! k else base ! k) [0..<length base]"
    by (rule nth_equalityI) (auto simp: nth_list_update)
  ultimately show ?case by (simp only: list.map concat.simps run_append) blast
qed

lemma run_unknown:
  assumes "sp_unrecField (getProperties (tys t)) = Some j" "j < length base" "us \<noteq> []"
    "\<forall>(tag, it) \<in> set us. 0 < tag \<and> tag < 2 ^ 60 \<and> tagMap_get (sp_decoderTags (getProperties (tys t))) (int tag) = None"
  shows "run tys t base us (base[j := FBytes (Some ((case structPointer_Bytes base j of None \<Rightarrow> [] | Some b \<Rightarrow> b) @ fields_bytes us))])"
  using assms(2-4)
proof (induction us arbitrary: base)
  case (Cons u us)
  obtain tag it where u: "u = (tag, it)" by fastforce
  let ?old = "case structPointer_Bytes base j of None \<Rightarrow> [] | Some b \<Rightarrow> b"
  let ?base = "base[j := FBytes (Some (?old @ tag_bytes tag (item_wire it) @ item_bytes it))]"
  have "step tys t base tag it ?base" using Cons.prems(3) assms(1) by (simp add: u step_def Let_def unrec_put_def)
  moreover have "run tys t ?base us (base[j := FBytes (Some (?old @ fields_bytes (u # us)))])"
  proof (cases "us = []")
    case False
    then show ?thesis using Cons.IH [of ?base] Cons.prems(1,3) by (simp add: u structPointer_Bytes_def)
  qed (simp add: u)
  ultimately show ?case using Cons.prems(3) by (auto simp: u)
qed simp

text \<open>
  Complete messages: every field has a value of its type, required ones are set, fields without a tag are zero, and unknown fields are fields whose tags the type does not know.
  The first argument bounds the nesting.
\<close>

definition unknown_ok :: "struct_field list \<Rightarrow> pval \<Rightarrow> bool" where
  "unknown_ok fs v \<longleftrightarrow> v = FBytes None \<or> (\<exists>us. us \<noteq> [] \<and> v = FBytes (Some (fields_bytes us)) \<and>
     (\<forall>(tag, it) \<in> set us. 0 < tag \<and> tag < 2 ^ 60 \<and> tagMap_get (sp_decoderTags (getProperties fs)) (int tag) = None))"

definition field_ok :: "(nat \<Rightarrow> pval list \<Rightarrow> bool) \<Rightarrow> struct_field list \<Rightarrow> nat \<Rightarrow> pval \<Rightarrow> bool" where
  "field_ok R fs i v \<longleftrightarrow> (let p = sp_Prop (getProperties fs) ! i in
     case p_coder p of
       Some c \<Rightarrow> value_of (R (p_stype p)) c v \<and> (p_Required p \<longrightarrow> v \<noteq> zero_coder c)
     | None \<Rightarrow> if sp_unrecField (getProperties fs) = Some i then unknown_ok fs v else v = zero_value (sf_Type (fs ! i)))"

fun msg_ok :: "nat \<Rightarrow> struct_types \<Rightarrow> nat \<Rightarrow> pval list \<Rightarrow> bool" where
  "msg_ok 0 tys t base \<longleftrightarrow> False"
| "msg_ok (Suc n) tys t base \<longleftrightarrow> type_ok (tys t) \<and> length base = length (tys t) \<and> (\<forall>i < length (tys t). field_ok (msg_ok n tys) (tys t) i (base ! i))"

lemma value_of_msgs: "value_of R c v \<Longrightarrow> b \<in> set (msgs v) \<Longrightarrow> R b"
  by (cases v) (auto split: option.splits elim!: opt_list.elims)

lemma size_msgs_less: "b \<in> set (msgs v) \<Longrightarrow> value_of R c v \<Longrightarrow> size_list size b < size v"
proof (cases v)
  case (FStructPointer x)
  then show "b \<in> set (msgs v) \<Longrightarrow> size_list size b < size v" by (cases x) auto
next
  case (FStructPointerSlice s)
  assume b: "b \<in> set (msgs v)" "value_of R c v"
  then have "Some b \<in> set s" by (force simp: FStructPointerSlice)
  then have "size_option (size_list size) (Some b) \<le> size_list (size_option (size_list size)) s"
    by (rule size_list_estimation') simp
  then show "size_list size b < size v" by (simp add: FStructPointerSlice)
qed simp_all

lemma sp_order_fields: "set (sp_order (getProperties fs)) = {0..<length fs}" "distinct (sp_order (getProperties fs))"
  by (simp_all add: getProperties_def Let_def)

lemma last_named_found: "last_named name k fs = Some j \<Longrightarrow> k \<le> j \<and> j < k + length fs \<and> sf_Name (fs ! (j - k)) = name"
proof (induction name k fs rule: last_named.induct)
  case (2 name i f fs)
  show ?case
  proof (cases "last_named name (Suc i) fs")
    case None
    then show ?thesis using 2(2) by (auto split: if_splits)
  next
    case (Some k)
    then have "k = j" using 2(2) by simp
    then show ?thesis using 2(1) [OF Some [unfolded \<open>k = j\<close>]] by (auto simp: nth_Cons' Suc_diff_Suc)
  qed
qed simp

lemma unrec_field:
  assumes "type_ok fs" "sp_unrecField (getProperties fs) = Some j"
  shows "j < length fs" "p_coder (sp_Prop (getProperties fs) ! j) = None" "zero_struct fs ! j = FBytes None"
proof -
  have j: "j < length fs" "sf_Name (fs ! j) = lit ''XXX_unrecognized''"
    using assms(2) last_named_found [of _ 0 fs j] by (simp_all add: getProperties_def Let_def)
  have "field_type_ok j (fs ! j)" using assms(1) j(1) by (simp add: type_ok_def)
  then have "sf_Tag (fs ! j) = []" "sf_Type (fs ! j) = KSlice KUint8" by (simp_all add: field_type_ok_def j(2))
  then show "j < length fs" "p_coder (sp_Prop (getProperties fs) ! j) = None" "zero_struct fs ! j = FBytes None"
    using j(1) by (simp_all add: sp_Prop_nth Properties_init_untagged zero_struct_def)
qed

lemma coder_field:
  assumes "type_ok fs" "i < length fs" "p_coder (sp_Prop (getProperties fs) ! i) = Some c"
  shows "\<not> internal (sp_Prop (getProperties fs) ! i)" "prop_ok c (sp_Prop (getProperties fs) ! i)" "zero_struct fs ! i = zero_coder c"
proof -
  let ?p = "Properties_init i (fs ! i)"
  have c: "p_coder ?p = Some c" using assms(2,3) by (simp add: sp_Prop_nth)
  have "field_type_ok i (fs ! i)" using assms(1,2) by (simp add: type_ok_def)
  then show n: "\<not> internal (sp_Prop (getProperties fs) ! i)"
    using c Properties_init_untagged [of "fs ! i" i] assms(2) by (auto simp: field_type_ok_def internal_iff split: if_splits)
  show "prop_ok c (sp_Prop (getProperties fs) ! i)" using type_prop_ok [OF assms(1,2) n] assms(3) by (metis option.inject)
  have "\<exists>r. kind_coder (sf_Type (fs ! i)) r = Some c"
    using c Properties_init_untagged [of "fs ! i" i] by (auto simp: Properties_init_def Let_def split: if_splits)
  then show "zero_struct fs ! i = zero_coder c" using kind_coder_zero assms(2) by (auto simp: zero_struct_def)
qed

lemma field_one:
  assumes p_def: "p = sp_Prop (getProperties (tys t)) ! i"
    and "type_ok (tys t)" "i < length (tys t)" "field_ok (msg_ok n tys) (tys t) i (base ! i)"
    "p_coder p \<noteq> None \<Longrightarrow> \<forall>b \<in> set (msgs (base ! i)). encodes (enc (p_stype p) b) (sz (p_stype p) b) (F b) \<and> parses tys (p_stype p) (F b) b"
  shows "\<exists>its. field_encoded enc sz p base its \<and>
    field_run tys t i its (zero_struct (tys t) ! i) (if sp_unrecField (getProperties (tys t)) = Some i then FBytes None else base ! i) \<and> (i \<in> required_fields (tys t) \<longrightarrow> its \<noteq> [])"
proof (cases "p_coder p")
  case None
  have "i \<notin> required_fields (tys t)" using type_prop_ok [OF assms(2,3)] None by (auto simp: required_fields_def p_def)
  then show ?thesis
    using None assms(3,4) unrec_field(3) [OF assms(2), of i] by (auto simp: field_encoded_def field_run_def field_ok_def p_def Let_def zero_struct_def)
next
  case (Some c)
  note cf = coder_field [OF assms(2,3) Some [unfolded p_def], folded p_def]
  let ?v = "base ! i" and ?its = "field_items c p F (base ! i)"
  have pi: "p_field p = i" using assms(3) by (simp add: p_def sp_Prop_nth)
  have v: "value_of (msg_ok n tys (p_stype p)) c ?v" "p_Required p \<longrightarrow> ?v \<noteq> zero_coder c"
    using assms(4) Some by (simp_all add: field_ok_def p_def Let_def)
  have nested: "\<forall>b \<in> set (msgs ?v). encodes (enc (p_stype p) b) (sz (p_stype p) b) (F b)" "\<forall>b \<in> set (msgs ?v). parses tys (p_stype p) (F b) b"
    using assms(5) Some by auto
  have dec: "decodes_all tys p c (map snd ?its) (zero_coder c) ?v" using field_decodes [OF cf(2) v(1) nested(2)] .
  then have ne: "?its \<noteq> []" if "p_Required p" using v(2) that by auto
  have "field_encoded enc sz p base ?its"
    using enc_field [of "msg_ok n tys (p_stype p)" c base p enc sz F] size_field [of "msg_ok n tys (p_stype p)" c base p enc sz F] v(1) cf(2) nested(1) pi Some ne
    unfolding field_encoded_def by (auto split: option.split)
  moreover have "?its = map (\<lambda>it. (nat (p_Tag p), it)) (map snd ?its)" by (simp add: field_items_def comp_def)
  moreover have "sp_unrecField (getProperties (tys t)) \<noteq> Some i" using unrec_field(2) [OF assms(2), of i] Some by (auto simp: p_def)
  ultimately show ?thesis
    using ne dec cf Some assms(3) by (auto simp: field_run_def Let_def p_def [symmetric] required_fields_def)
qed

text \<open>The known fields take the zero struct to the message without its unknown fields, and the bytes of the unknown ones are read back as they are.\<close>

definition known_part :: "struct_field list \<Rightarrow> pval list \<Rightarrow> pval list" where
  "known_part fs base = (case sp_unrecField (getProperties fs) of None \<Rightarrow> base | Some j \<Rightarrow> base[j := FBytes None])"

lemma known_part_nth:
  "i < length base \<Longrightarrow> known_part fs base ! i = (if sp_unrecField (getProperties fs) = Some i then FBytes None else base ! i)" "length (known_part fs base) = length base"
  by (auto simp: known_part_def nth_list_update split: option.split)

lemma known_run:
  assumes "type_ok (tys t)" "length base = length (tys t)"
    "\<forall>i < length (tys t). field_run tys t i (g i) (zero_struct (tys t) ! i) (known_part (tys t) base ! i)"
  shows "run tys t (zero_struct (tys t)) (concat (map g (sp_order (getProperties (tys t))))) (known_part (tys t) base)"
proof -
  let ?zero = "zero_struct (tys t)" and ?is = "sp_order (getProperties (tys t))" and ?known = "known_part (tys t) base"
  have z: "length ?zero = length (tys t)" by (simp add: zero_struct_def)
  have "run tys t ?zero (concat (map g ?is)) (map (\<lambda>i. if i \<in> set ?is then ?known ! i else ?zero ! i) [0..<length ?zero])"
    by (rule run_fields) (use assms(1,3) z in \<open>simp_all add: sp_order_fields\<close>)
  moreover have "map (\<lambda>i. if i \<in> set ?is then ?known ! i else ?zero ! i) [0..<length ?zero] = ?known"
    using assms(2) by (intro nth_equalityI) (simp_all add: z sp_order_fields known_part_nth(2))
  ultimately show ?thesis by simp
qed

lemma unknown_run:
  assumes "type_ok (tys t)" "length base = length (tys t)" "\<forall>i < length (tys t). field_ok R (tys t) i (base ! i)"
  obtains us where "case sp_unrecField (getProperties (tys t)) of None \<Rightarrow> us = [] | Some j \<Rightarrow> fields_bytes us = (case structPointer_Bytes base j of None \<Rightarrow> [] | Some v \<Rightarrow> v)"
    "run tys t (known_part (tys t) base) us base"
proof (cases "sp_unrecField (getProperties (tys t))")
  case None
  then show ?thesis using that [of "[]"] by (simp add: known_part_def)
next
  case (Some j)
  let ?known = "known_part (tys t) base"
  note j = unrec_field [OF assms(1) Some]
  have "unknown_ok (tys t) (base ! j)" using assms(3) j(1,2) Some by (auto simp: field_ok_def Let_def)
  then consider (none) "base ! j = FBytes None" | (some) us where "us \<noteq> []" "base ! j = FBytes (Some (fields_bytes us))"
      "\<forall>(tag, it) \<in> set us. 0 < tag \<and> tag < 2 ^ 60 \<and> tagMap_get (sp_decoderTags (getProperties (tys t))) (int tag) = None"
    unfolding unknown_ok_def by blast
  then show ?thesis
  proof cases
    case none
    then have "?known = base" using Some list_update_id [of base j] by (simp add: known_part_def)
    then show ?thesis using that [of "[]"] Some none by (simp add: structPointer_Bytes_def)
  next
    case (some us)
    have "run tys t ?known us (?known[j := FBytes (Some ((case structPointer_Bytes ?known j of None \<Rightarrow> [] | Some b \<Rightarrow> b) @ fields_bytes us))])"
      by (rule run_unknown) (use Some j(1) some assms(2) in \<open>simp_all add: known_part_nth(2)\<close>)
    moreover have "structPointer_Bytes ?known j = None" "?known[j := base ! j] = base"
      using j(1) assms(2) Some by (simp_all add: known_part_def structPointer_Bytes_def)
    ultimately show ?thesis using that [of us] Some some(2) by (simp add: structPointer_Bytes_def)
  qed
qed

lemma required_in_items:
  assumes "type_ok (tys t)" "\<forall>i < length (tys t). field_run tys t i (g i) (v i) (v' i) \<and> (i \<in> required_fields (tys t) \<longrightarrow> g i \<noteq> [])"
  shows "required_fields (tys t) \<subseteq> seen_by (tys t) (concat (map g (sp_order (getProperties (tys t)))) @ us)"
proof
  fix i
  assume r: "i \<in> required_fields (tys t)"
  let ?p = "sp_Prop (getProperties (tys t)) ! i"
  have i: "i < length (tys t)" "\<not> internal ?p" "g i \<noteq> []" "field_run tys t i (g i) (v i) (v' i)"
    using r assms(2) by (auto simp: required_fields_def)
  obtain c where c: "p_coder ?p = Some c" "prop_ok c ?p" using type_prop_ok [OF assms(1) i(1,2)] .
  obtain it its where it: "map snd (g i) = it # its" using i(3) by (cases "g i") auto
  have "g i = map (\<lambda>it. (nat (p_Tag ?p), it)) (map snd (g i))" using i(4) c(1) unfolding field_run_def Let_def by simp
  then have "g i = (nat (p_Tag ?p), it) # map (\<lambda>it. (nat (p_Tag ?p), it)) its" unfolding it list.map .
  then have "(nat (p_Tag ?p), it) \<in> set (g i)" by simp
  moreover have "int (nat (p_Tag ?p)) = p_Tag ?p" using c(2) by (simp add: prop_ok_def)
  ultimately show "i \<in> seen_by (tys t) (concat (map g (sp_order (getProperties (tys t)))) @ us)"
    using type_tags [OF assms(1) i(1,2)] i(1) by (auto simp: seen_by_def sp_order_fields intro!: exI)
qed

lemma struct_roundtrip:
  assumes "type_ok (tys t)" "length base = length (tys t)" "\<forall>i < length (tys t). field_ok (msg_ok n tys) (tys t) i (base ! i)"
    "\<forall>i < length (tys t). field_encoded (enc_struct k tys) (size_struct k tys) (sp_Prop (getProperties (tys t)) ! i) base (g i) \<and>
      field_run tys t i (g i) (zero_struct (tys t) ! i) (if sp_unrecField (getProperties (tys t)) = Some i then FBytes None else base ! i) \<and> (i \<in> required_fields (tys t) \<longrightarrow> g i \<noteq> [])"
  shows "\<exists>its. encodes (enc_struct (Suc k) tys t base) (size_struct (Suc k) tys t base) its \<and> parses tys t its base"
proof -
  let ?its = "concat (map g (sp_order (getProperties (tys t))))"
  have "\<forall>i < length (tys t). field_run tys t i (g i) (zero_struct (tys t) ! i) (known_part (tys t) base ! i)"
    using assms(2,4) by (simp add: known_part_nth(1))
  then have known: "run tys t (zero_struct (tys t)) ?its (known_part (tys t) base)" by (rule known_run [of tys t base g, OF assms(1,2)])
  obtain us where us: "case sp_unrecField (getProperties (tys t)) of None \<Rightarrow> us = [] | Some j \<Rightarrow> fields_bytes us = (case structPointer_Bytes base j of None \<Rightarrow> [] | Some v \<Rightarrow> v)"
    "run tys t (known_part (tys t) base) us base"
    using unknown_run [of tys t base "msg_ok n tys", OF assms(1-3)] by blast
  have "run tys t (zero_struct (tys t)) (?its @ us) base" using known us(2) run_append by blast
  moreover have "required_fields (tys t) \<subseteq> seen_by (tys t) (?its @ us)"
    by (rule required_in_items [of tys t g "\<lambda>i. zero_struct (tys t) ! i" "\<lambda>i. if sp_unrecField (getProperties (tys t)) = Some i then FBytes None else base ! i", OF assms(1)])
      (use assms(4) in blast)
  ultimately have "parses tys t (?its @ us) base" by (rule parsesI [of tys t, OF assms(1)])
  moreover have "encodes (enc_struct (Suc k) tys t base) (size_struct (Suc k) tys t base) (?its @ us)"
    by (rule enc_struct_eq) (use assms(4) us(1) in \<open>simp_all add: sp_order_fields\<close>)
  ultimately show ?thesis by blast
qed

lemma msg_roundtrip:
  "msg_ok n tys t base \<Longrightarrow> size_list size base < k \<Longrightarrow>
     \<exists>its. encodes (enc_struct k tys t base) (size_struct k tys t base) its \<and> parses tys t its base"
proof (induction n arbitrary: t base k)
  case (Suc n)
  let ?sp = "getProperties (tys t)"
  have ok: "type_ok (tys t)" "length base = length (tys t)" "\<forall>i < length (tys t). field_ok (msg_ok n tys) (tys t) i (base ! i)"
    using Suc.prems(1) by simp_all
  obtain m where k: "k = Suc m" using Suc.prems(2) by (cases k) auto
  have "\<exists>its. field_encoded (enc_struct m tys) (size_struct m tys) (sp_Prop ?sp ! i) base its \<and>
      field_run tys t i its (zero_struct (tys t) ! i) (if sp_unrecField ?sp = Some i then FBytes None else base ! i) \<and> (i \<in> required_fields (tys t) \<longrightarrow> its \<noteq> [])"
    if i: "i < length (tys t)" for i
  proof -
    let ?p = "sp_Prop ?sp ! i"
    have "\<exists>its. encodes (enc_struct m tys (p_stype ?p) b) (size_struct m tys (p_stype ?p) b) its \<and> parses tys (p_stype ?p) its b"
      if c: "p_coder ?p = Some c" and b: "b \<in> set (msgs (base ! i))" for c b
    proof (rule Suc.IH)
      have v: "value_of (msg_ok n tys (p_stype ?p)) c (base ! i)" using ok(3) i c by (auto simp: field_ok_def Let_def)
      then show "msg_ok n tys (p_stype ?p) b" using value_of_msgs b by blast
      have "size (base ! i) \<le> size_list size base" by (rule size_list_estimation') (use i ok(2) in \<open>auto intro: nth_mem\<close>)
      then show "size_list size b < m" using size_msgs_less [OF b v] Suc.prems(2) k by simp
    qed
    then obtain F where "p_coder ?p \<noteq> None \<Longrightarrow> \<forall>b \<in> set (msgs (base ! i)).
        encodes (enc_struct m tys (p_stype ?p) b) (size_struct m tys (p_stype ?p) b) (F b) \<and> parses tys (p_stype ?p) (F b) b"
      by (metis not_None_eq)
    then show ?thesis using field_one [of ?p tys t i n base "enc_struct m tys" "size_struct m tys" F] ok(1,3) i by blast
  qed
  then obtain g where "\<forall>i < length (tys t). field_encoded (enc_struct m tys) (size_struct m tys) (sp_Prop ?sp ! i) base (g i) \<and>
      field_run tys t i (g i) (zero_struct (tys t) ! i) (if sp_unrecField ?sp = Some i then FBytes None else base ! i) \<and> (i \<in> required_fields (tys t) \<longrightarrow> g i \<noteq> [])"
    by metis
  then show ?case using struct_roundtrip [OF ok] unfolding k by blast
qed simp

text \<open>
  C13. A complete message of generated types, nested in any depth and with the unknown fields it carries along, is encoded by \<open>Marshal\<close> without an error into as many bytes as \<open>Size\<close> tells, and
  \<open>Unmarshal\<close> of these bytes reports no error and gives the message back: no required field is missed, and unknown fields are kept byte for byte.
\<close>

theorem Unmarshal_Marshal:
  assumes "msg_ok n tys t base"
  shows "\<exists>b. Marshal tys t (Some base) = Some (b, None) \<and> Size tys t (Some base) = Some (length b) \<and>
    (length b < 2 ^ 63 \<longrightarrow> Unmarshal tys t b = Some (None, base))"
proof -
  obtain its where its: "encodes (enc_struct (msg_fuel base) tys t base) (size_struct (msg_fuel base) tys t base) its" "parses tys t its base"
    using msg_roundtrip [OF assms, of "msg_fuel base"] by (auto simp: msg_fuel_def)
  let ?b = "fields_bytes its"
  have "Marshal tys t (Some base) = Some (?b, None)"
    using its(1) by (simp add: Marshal_def Buffer_Marshal_def encodes_def Buffer_append_def NewBuffer_def)
  moreover have "Size tys t (Some base) = Some (length ?b)"
    using its(1) by (simp add: Size_def encodes_def)
  moreover have "Unmarshal tys t ?b = Some (None, base)" if "length ?b < 2 ^ 63"
  proof -
    have "at_item [] ?b [] (length ?b + 1) (NewBuffer ?b)" unfolding at_item_def using that by (simp add: NewBuffer_def)
    then show ?thesis
      using its(2) [unfolded parses_def, rule_format, of "[]" False] by (simp add: Unmarshal_def UnmarshalMerge_def Buffer_Unmarshal_def NewBuffer_def)
  qed
  ultimately show ?thesis by blast
qed

text \<open>A list of nodes with a number that is required, a packed slice and a next node.\<close>

definition node_types :: struct_types where
  "node_types t =
     [\<lparr>sf_Name = lit ''Id'', sf_Type = KPtr KInt64, sf_Tag = lit ''zigzag64,1,req,name=id''\<rparr>,
      \<lparr>sf_Name = lit ''Next'', sf_Type = KPtr (KStruct 0), sf_Tag = lit ''bytes,3,opt,name=next''\<rparr>,
      \<lparr>sf_Name = lit ''Marks'', sf_Type = KSlice KInt32, sf_Tag = lit ''varint,2,rep,packed''\<rparr>,
      \<lparr>sf_Name = lit ''XXX_unrecognized'', sf_Type = KSlice KUint8, sf_Tag = []\<rparr>]"

definition node :: "pval list" where
  "node = [FWord64 (Some (- 5)), FStructPointer (Some [FWord64 (Some 7), FStructPointer None, FWord32Slice [], FBytes None]), FWord32Slice [1, - 1],
     FBytes (Some (fields_bytes [(9, WVarint 300)]))]"

lemmas parse_defs = Properties_init_def Properties_new_def Properties_Parse_def wire_coder_def Parse_flag_def Atoi_def ParseInt_def ParseUint_def is_digit_unat digits_val_def digit_val_def Let_def
  setEncAndDec_def kind_coder_def slice_coder_def kind_struct_def

lemma node_fields:
  "p_coder (Properties_init 0 (node_types t ! 0)) = Some CInt64 \<and> p_Tag (Properties_init 0 (node_types t ! 0)) = 1 \<and> p_val (Properties_init 0 (node_types t ! 0)) = Some CoZigzag64 \<and>
   \<not> p_Packed (Properties_init 0 (node_types t ! 0)) \<and> p_Required (Properties_init 0 (node_types t ! 0))"
  "p_coder (Properties_init 1 (node_types t ! 1)) = Some CMessage \<and> p_Tag (Properties_init 1 (node_types t ! 1)) = 3 \<and> p_Wire (Properties_init 1 (node_types t ! 1)) = lit ''bytes'' \<and>
   \<not> p_Packed (Properties_init 1 (node_types t ! 1)) \<and> \<not> p_Required (Properties_init 1 (node_types t ! 1)) \<and> p_stype (Properties_init 1 (node_types t ! 1)) = 0"
  "p_coder (Properties_init 2 (node_types t ! 2)) = Some CPackedInt32 \<and> p_Tag (Properties_init 2 (node_types t ! 2)) = 2 \<and> p_val (Properties_init 2 (node_types t ! 2)) = Some CoVarint \<and>
   p_Packed (Properties_init 2 (node_types t ! 2)) \<and> \<not> p_Required (Properties_init 2 (node_types t ! 2))"
  by (simp_all add: parse_defs node_types_def)

lemma node_below: "i < length (node_types t) \<longleftrightarrow> i = 0 \<or> i = 1 \<or> i = 2 \<or> i = 3"
  by (auto simp: node_types_def)

lemma node_names:
  "sf_Name (node_types t ! 0) = lit ''Id''" "sf_Name (node_types t ! Suc 0) = lit ''Next''" "sf_Name (node_types t ! 2) = lit ''Marks''"
  "sf_Name (node_types t ! 3) = lit ''XXX_unrecognized''" "sf_Tag (node_types t ! 3) = []" "sf_Type (node_types t ! 3) = KSlice KUint8"
  by (simp_all add: node_types_def)

lemma node_shown_tags: "shown_tags (node_types t) = [(1, 0), (3, 1), (2, 2)]"
proof -
  have "[0..<length (node_types t)] = [0, 1, 2, 3]" by (simp add: node_types_def upt_rec)
  then show ?thesis
    using node_fields [of t] by (simp add: shown_tags_def enumerate_nth internal_def node_below sp_Prop_nth node_names)
qed

lemma node_type_ok: "type_ok (node_types t)"
proof -
  have "field_type_ok i (node_types t ! i)" if "i = 0 \<or> i = 1 \<or> i = 2 \<or> i = 3" for i
    using that node_fields [of t] by (elim disjE) (simp_all add: field_type_ok_def node_names generated_def)
  then show ?thesis by (simp add: type_ok_def node_below node_shown_tags)
qed

lemma node_unrec: "sp_unrecField (getProperties (node_types t)) = Some 3"
  by (simp add: getProperties_def Let_def node_types_def)

lemma node_unknown: "unknown_ok (node_types t) (FBytes (Some (fields_bytes [(9, WVarint 300)])))"
proof -
  have "tagMap_get (sp_decoderTags (getProperties (node_types t))) 9 = None"
    using getProperties_tags [of "node_types t"] by (simp add: node_shown_tags)
  then show ?thesis by (auto simp: unknown_ok_def intro!: exI [of _ "[(9, WVarint 300)]"] simp del: fields_bytes.simps)
qed

lemma node_field_ok:
  "field_ok R (node_types t) 0 (FWord64 (Some x))" "(case b of None \<Rightarrow> True | Some b' \<Rightarrow> R 0 b') \<Longrightarrow> field_ok R (node_types t) 1 (FStructPointer b)"
  "field_ok R (node_types t) 2 (FWord32Slice xs)" "unknown_ok (node_types t) v \<Longrightarrow> field_ok R (node_types t) 3 v"
proof -
  have "p_coder (Properties_init 3 (node_types t ! 3)) = None" by (rule Properties_init_untagged) (rule node_names)
  then show "field_ok R (node_types t) 0 (FWord64 (Some x))" "(case b of None \<Rightarrow> True | Some b' \<Rightarrow> R 0 b') \<Longrightarrow> field_ok R (node_types t) 1 (FStructPointer b)"
    "field_ok R (node_types t) 2 (FWord32Slice xs)" "unknown_ok (node_types t) v \<Longrightarrow> field_ok R (node_types t) 3 v"
    using node_fields [of t] by (simp_all add: field_ok_def Let_def sp_Prop_nth node_below node_unrec)
qed

lemma node_msg_ok:
  assumes "case b of None \<Rightarrow> True | Some b' \<Rightarrow> msg_ok n node_types 0 b'" "unknown_ok (node_types t) v"
  shows "msg_ok (Suc n) node_types t [FWord64 (Some x), FStructPointer b, FWord32Slice xs, v]"
proof -
  have "length (node_types t) = 4" by (simp add: node_types_def)
  moreover have "field_ok (msg_ok n node_types) (node_types t) i ([FWord64 (Some x), FStructPointer b, FWord32Slice xs, v] ! i)" if "i < length (node_types t)" for i
    using that [unfolded node_below] node_field_ok [where R = "msg_ok n node_types" and t = t] assms by (elim disjE) (simp_all add: numeral_2_eq_2 numeral_3_eq_3)
  ultimately show ?thesis by (simp add: node_type_ok)
qed

lemma node_ok: "msg_ok (Suc (Suc 0)) node_types 0 node"
  unfolding node_def by (intro node_msg_ok node_unknown) (simp add: node_msg_ok unknown_ok_def del: msg_ok.simps)

lemma node_order: "sp_order (getProperties (node_types t)) = [3, 0, 2, 1]"
proof -
  have "[0..<length (node_types t)] = [0, Suc 0, 2, 3]" by (simp add: node_types_def upt_rec)
  moreover have "p_Tag (Properties_init 3 (node_types t ! 3)) = 0" by (simp add: Properties_init_def Properties_new_def node_names Let_def)
  moreover have "sp_order (getProperties (node_types t)) = sort_key (\<lambda>i. p_Tag (sp_Prop (getProperties (node_types t)) ! i)) [0..<length (node_types t)]"
    by (simp add: getProperties_def Let_def)
  ultimately show ?thesis using node_fields [of t] by (simp add: sp_Prop_nth node_below)
qed

lemma node_tagcodes: "i = 0 \<or> i = 1 \<or> i = 2 \<Longrightarrow> length (p_tagcode (Properties_init i (node_types t ! i))) \<le> 10"
proof -
  assume "i = 0 \<or> i = 1 \<or> i = 2"
  then have i: "i < length (node_types t)" and "p_coder (Properties_init i (node_types t ! i)) \<noteq> None"
    using node_fields [of t] by (auto simp: node_below)
  then obtain c where "prop_ok c (Properties_init i (node_types t ! i))"
    using coder_field(2) [OF node_type_ok i] by (auto simp: sp_Prop_nth)
  then show ?thesis using length_varint_10 by (auto simp: prop_ok_def tag_bytes_def maxVarintBytes_def)
qed

lemma node_size:
  assumes "b = None \<and> m = 0 \<or> (\<exists>b'. b = Some b' \<and> size_struct k node_types 0 b' = Some m)"
  shows "\<exists>l \<le> 60 + m + 10 * length xs + (case u of None \<Rightarrow> 0 | Some v \<Rightarrow> length v). size_struct (Suc k) node_types t [FWord64 (Some x), FStructPointer b, FWord32Slice xs, FBytes u] = Some l"
proof -
  have c: "p_coder (Properties_init 3 (node_types t ! 3)) = None" by (rule Properties_init_untagged) (rule node_names)
  have v: "length (varint q) \<le> 10" for q using length_varint_10 [of q] by (simp add: maxVarintBytes_def)
  have vs: "length (concat (map varint qs)) \<le> 10 * length qs" for qs
    using v by (induction qs) (auto intro: order_trans [OF add_mono])
  let ?P = "\<lambda>i. Properties_init i (node_types t ! i)" and ?base = "[FWord64 (Some x), FStructPointer b, FWord32Slice xs, FBytes u]"
  have "size_int64 (?P 0) ?base = Some (length (p_tagcode (?P 0)) + length (varint (zigzag64 x)))"
    using node_fields(1) [of t] by (simp add: size_int64_def structPointer_defs tag_plus_def p_valSize_def sizeZigzag64_def sizeVarint_eq)
  then have 0: "\<exists>l \<le> 20. size_int64 (?P 0) ?base = Some l"
    using node_tagcodes [of 0 t] v [of "zigzag64 x"] by simp
  have 1: "\<exists>l \<le> 20 + m. size_struct_message (size_struct k node_types) (?P 1) ?base = Some l"
    using assms node_fields(2) [of t] node_tagcodes [of 1 t] v [of "of_nat m"] by (auto simp: size_struct_message_def structPointer_defs sizeVarint_eq)
  have "size_slice_packed_int32 (?P 2) ?base = (if xs = [] then Some 0 else
      Some (length (p_tagcode (?P 2)) + length (varint (of_nat (length (concat (map varint (map scast xs)))))) + length (concat (map varint (map scast xs)))))"
    using node_fields(3) [of t] size_values_eq [of "?P 2" CoVarint "map scast xs"]
    by (simp add: size_slice_packed_int32_def size_packed_def structPointer_defs sizeVarint_eq Let_def comp_def)
  then have 2: "\<exists>l \<le> 20 + 10 * length xs. size_slice_packed_int32 (?P 2) ?base = Some l"
    using node_tagcodes [of 2 t] v [of "of_nat (length (concat (map varint (map scast xs))))"] vs [of "map scast xs"] by (simp del: map_map)
  show ?thesis
    using 0 1 2 node_fields [of t] c by (auto simp: node_order node_unrec sp_Prop_nth node_below structPointer_Bytes_def Let_def)
qed

lemma node_Size: "\<exists>l < 2 ^ 63. Size node_types 0 (Some node) = Some l"
proof -
  let ?inner = "[FWord64 (Some 7), FStructPointer None, FWord32Slice [], FBytes None]"
  obtain k where k: "msg_fuel node = Suc (Suc k)" by (simp add: msg_fuel_def node_def)
  obtain m where m: "m \<le> 60" "size_struct (Suc k) node_types 0 ?inner = Some m"
    using node_size [of None 0 k "[]" None 0 7] by auto
  have "length (fields_bytes [(9, WVarint 300)]) \<le> 20"
    using length_varint_10 [of 300] length_varint_10 [of 72] by (simp add: tag_bytes_def wire_defs maxVarintBytes_def)
  then show ?thesis
    using node_size [of "Some ?inner" m "Suc k" "[1, - 1]" "Some (fields_bytes [(9, WVarint 300)])" 0 "- 5", folded node_def] m
    by (auto simp: Size_def k simp del: fields_bytes.simps size_struct.simps)
qed

theorem Unmarshal_Marshal_witness:
  "\<exists>b. Marshal node_types 0 (Some node) = Some (b, None) \<and> Size node_types 0 (Some node) = Some (length b) \<and> Unmarshal node_types 0 b = Some (None, node)"
  using Unmarshal_Marshal [OF node_ok] node_Size by auto

end
