(* ===== verification/Proto_Returns.thy ===== *)
theory Proto_Returns
  imports Proto_Roundtrip
begin

text \<open>
  \<open>Unmarshal\<close> on arbitrary bytes: it returns, with a message or with an error, and its decoders stay within the buffer.
\<close>

definition moved :: "Buffer \<Rightarrow> Buffer \<Rightarrow> bool" where
  "moved buf buf' \<longleftrightarrow> pb_buf buf' = pb_buf buf \<and> pb_index buf \<le> pb_index buf' \<and> pb_index buf' \<le> length (pb_buf buf)"

lemma moved_trans: "moved a b \<Longrightarrow> moved b c \<Longrightarrow> moved a c"
  by (auto simp: moved_def)

lemma moved_in_buffer: "in_buffer a \<Longrightarrow> moved a b \<Longrightarrow> in_buffer b"
  by (simp add: in_buffer_def moved_def)

lemma forward_moved: "forward k buf r \<Longrightarrow> in_buffer buf \<Longrightarrow> moved buf (snd r)"
  by (simp add: forward_def moved_def in_buffer_def)

lemma forward_past: "forward k buf (Inr v, buf') \<Longrightarrow> pb_index buf + k \<le> pb_index buf'"
  by (simp add: forward_def)

definition returns :: "Buffer \<Rightarrow> dec_result \<Rightarrow> bool" where
  "returns buf r \<longleftrightarrow> (\<exists>e b buf'. r = Some (e, b, buf') \<and> moved buf buf')"

lemma returnsI: "moved buf buf' \<Longrightarrow> returns buf (Some (e, b, buf'))"
  by (simp add: returns_def)

lemma returns_moved: "moved buf buf1 \<Longrightarrow> returns buf1 r \<Longrightarrow> returns buf r"
  using moved_trans by (auto simp: returns_def)

lemma returns_map: "returns buf r \<Longrightarrow> returns buf (map_option (\<lambda>(e, b, buf). (e, f b, buf)) r)"
  by (auto simp: returns_def)

section \<open>Decoders of values\<close>

lemma dec_value_returns: "moved buf (snd r) \<Longrightarrow> returns buf (dec_value (Some r) p base store)"
  by (cases r; cases "fst r") (auto simp: dec_value_def returns_def)

lemma raw_moved: "in_buffer buf \<Longrightarrow> moved buf (snd (Buffer_DecodeRawBytes alloc buf))"
  by (rule forward_moved [OF Buffer_DecodeRawBytes_forward]) (simp_all add: in_buffer_def)

lemma packed_bools_returns:
  assumes "p_val p = Some k"
  shows "in_buffer buf \<Longrightarrow> \<exists>r. packed_bools p n y buf = Some r \<and> moved buf (snd r)"
proof (induction n arbitrary: y buf)
  case 0
  then show ?case by (simp add: moved_def in_buffer_def)
next
  case (Suc n)
  obtain r buf1 where d: "valDec k buf = (r, buf1)" by fastforce
  then have m: "moved buf buf1" using forward_moved [OF valDec_forward Suc.prems] by (metis snd_conv)
  show ?case
    using Suc.IH [OF moved_in_buffer [OF Suc.prems m]] m moved_trans [OF m] by (cases r) (fastforce simp: p_valDec_def assms d)+
qed

lemma packed_values_moved: "in_buffer buf \<Longrightarrow> moved buf (snd (snd (packed_values c fin v buf)))"
proof (induction c fin v buf rule: packed_values.induct)
  case (1 c fin v buf)
  obtain r buf1 where d: "valDec c buf = (r, buf1)" by fastforce
  then have m: "moved buf buf1" using forward_moved [OF valDec_forward "1.prems"] by (metis snd_conv)
  have self: "moved buf buf" using "1.prems" by (simp add: moved_def in_buffer_def)
  show ?case
  proof (cases r)
    case (Inl e)
    then show ?thesis using d m self by (subst packed_values.simps) simp
  next
    case (Inr u)
    then show ?thesis
      using "1.IH" [OF _ d [symmetric] Inr] moved_in_buffer [OF "1.prems" m] moved_trans [OF m] d self by (subst packed_values.simps) simp
  qed
qed

lemma dec_packed_returns:
  assumes "p_val p = Some k" "in_buffer buf"
  shows "returns buf (dec_packed p base buf store)"
proof -
  obtain r buf1 where d: "Buffer_DecodeVarint buf = (r, buf1)" by fastforce
  have m: "moved buf buf1" using forward_moved [OF Buffer_DecodeVarint_forward assms(2)] by (simp add: d)
  show ?thesis
    using m moved_trans [OF m packed_values_moved [OF moved_in_buffer [OF assms(2) m]]] assms(1)
    by (cases r) (auto simp: dec_packed_def d Let_def case_prod_unfold intro!: returnsI)
qed

lemma dec_packed_bool_returns:
  assumes "p_val p = Some k" "in_buffer buf"
  shows "returns buf (dec_slice_packed_bool p base buf)"
proof -
  obtain r buf1 where d: "Buffer_DecodeVarint buf = (r, buf1)" by fastforce
  have m: "moved buf buf1" using forward_moved [OF Buffer_DecodeVarint_forward assms(2)] by (simp add: d)
  show ?thesis
  proof (cases r)
    case (Inl e)
    then show ?thesis using m by (simp add: dec_slice_packed_bool_def d returnsI)
  next
    case (Inr nn)
    obtain r' where "packed_bools p (nat (sint nn)) (structPointer_BoolSlice base (p_field p)) buf1 = Some r'" "moved buf1 (snd r')"
      using packed_bools_returns [OF assms(1) moved_in_buffer [OF assms(2) m]] by blast
    then show ?thesis using Inr m by (simp add: dec_slice_packed_bool_def d returns_moved dec_value_returns)
  qed
qed

lemma packedDec_returns:
  assumes "prop_ok c p" "p_packedDec c = Some d" "in_buffer buf"
  shows "returns buf (d p base buf)"
proof -
  have "class_of c = Nums \<or> class_of c = Packed" using assms(2) by (cases c) simp_all
  then obtain k where "p_val p = Some k" using assms(1) unfolding prop_ok_def by blast
  then show ?thesis
    using assms(2) dec_packed_returns [OF _ assms(3)] dec_packed_bool_returns [OF _ assms(3)]
    by (cases c) (auto simp: dec_slice_packed_int32_def dec_slice_packed_int64_def)
qed

section \<open>Messages\<close>

text \<open>A decoder of messages that returns on every buffer with fewer than \<open>n\<close> bytes left.\<close>

definition returning :: "nat \<Rightarrow> struct_dec \<Rightarrow> bool" where
  "returning n dec \<longleftrightarrow> (\<forall>t g base buf. in_buffer buf \<and> length (pb_buf buf) - pb_index buf < n \<longrightarrow> returns buf (dec t g base buf))"

lemma dec_raw_returns:
  assumes "returning n dec" "length raw < n" "length raw < 2 ^ 63" "in_buffer buf"
  shows "returns buf (dec_raw dec t raw bas buf)"
proof -
  have "in_buffer (buf\<lparr>pb_buf := raw, pb_index := 0\<rparr>)" using assms(3) by (simp add: in_buffer_def)
  then have "returns (buf\<lparr>pb_buf := raw, pb_index := 0\<rparr>) (dec t False bas (buf\<lparr>pb_buf := raw, pb_index := 0\<rparr>))"
    using assms(1,2) by (simp add: returning_def)
  then show ?thesis using assms(4) by (auto simp: dec_raw_def returns_def moved_def in_buffer_def)
qed

lemma raw_length:
  assumes "Buffer_DecodeRawBytes alloc buf = (Inr raw, buf1)" "in_buffer buf"
  shows "length raw \<le> length (pb_buf buf) - pb_index buf"
proof -
  obtain n buf2 where d: "Buffer_DecodeVarint buf = (Inr n, buf2)"
    using assms(1) by (auto simp: Buffer_DecodeRawBytes_def split: prod.splits sum.splits)
  have "moved buf buf2" using forward_moved [OF Buffer_DecodeVarint_forward assms(2)] by (simp add: d)
  then show ?thesis
    using assms(1) by (auto simp: Buffer_DecodeRawBytes_def d Let_def moved_def split: if_splits)
qed

lemma p_dec_returns:
  assumes "prop_ok c p" "returning n dec" "in_buffer buf" "length (pb_buf buf) - pb_index buf < n"
  shows "returns buf (p_dec tys dec c p base buf)"
proof (cases "class_of c = Nums \<or> class_of c = Packed")
  case True
  then obtain k where "p_val p = Some k" using assms(1) unfolding prop_ok_def by blast
  then show ?thesis
    using dec_value_returns [OF forward_moved [OF valDec_forward assms(3)]] by (simp add: dec_nums [OF True] p_valDec_def)
next
  case False
  show ?thesis
  proof (cases "class_of c = Raws")
    case True
    then show ?thesis using dec_value_returns [OF raw_moved [OF assms(3)]] by (simp add: dec_raws)
  next
    case notraw: False
    have group: "returns buf (dec t True bas buf)" for t bas using assms(2-4) by (simp add: returning_def)
    obtain r buf1 where d: "Buffer_DecodeRawBytes False buf = (r, buf1)" by fastforce
    have m: "moved buf buf1" using raw_moved [OF assms(3), of False] by (simp add: d)
    have raw: "returns buf (dec_raw dec t raw bas buf1)" if "r = Inr raw" for raw t bas
    proof (rule returns_moved [OF m], rule dec_raw_returns [OF assms(2)])
      have l: "length raw \<le> length (pb_buf buf) - pb_index buf" using raw_length [OF d [unfolded that] assms(3)] .
      then show "length raw < n" using assms(4) by simp
      show "length raw < 2 ^ 63" using l assms(3) unfolding in_buffer_def by linarith
      show "in_buffer buf1" using moved_in_buffer [OF assms(3) m] .
    qed
    show ?thesis
      using False notraw returns_map [OF group] returns_map [OF raw] returnsI [OF m] d
      by (cases c; cases r) (simp_all add: dec_struct_group_def dec_struct_message_def dec_slice_struct_message_def dec_slice_struct_group_def dec_slice_struct_def Let_def)
  qed
qed

lemma skipAndSave_returns:
  assumes "in_buffer buf"
  shows "returns buf (skipAndSave tag wire base uf buf)"
proof -
  obtain e buf1 where s: "skip wire buf = Some (e, buf1)" "skipped buf (e, buf1)" using skip_in_buffer [OF assms] by fastforce
  then have "moved buf buf1" by (simp add: skipped_def moved_def)
  then show ?thesis by (cases e) (auto simp: skipAndSave_def s(1) Let_def returnsI split: option.split)
qed

lemma dec_for_returns:
  assumes "prop_ok c p" "returning n dec" "in_buffer buf" "length (pb_buf buf) - pb_index buf < n" "dec_for tys dec c p wire = Some d"
  shows "returns buf (d p base buf)"
  using assms(5) p_dec_returns [OF assms(1-4)] packedDec_returns [OF assms(1) _ assms(3)] by (auto simp: dec_for_def split: if_splits)

definition loop_returning :: "nat \<Rightarrow> struct_types \<Rightarrow> bool" where
  "loop_returning n tys \<longleftrightarrow> (\<forall>t g st rq b buf. in_buffer buf \<and> length (pb_buf buf) - pb_index buf < n \<longrightarrow> returns buf (unmarshal_loop n tys t g st rq b buf))"

lemma loop_goes_on:
  assumes "loop_returning n tys" "in_buffer buf" "moved buf buf1" "moved buf1 buf2" "length (pb_buf buf1) - pb_index buf1 < n"
  shows "returns buf (unmarshal_loop n tys t g st rq b buf2)"
proof -
  have m: "moved buf buf2" using moved_trans [OF assms(3,4)] .
  have "length (pb_buf buf2) - pb_index buf2 < n" using assms(4,5) by (auto simp: moved_def)
  then show ?thesis using returns_moved [OF m] assms(1) moved_in_buffer [OF assms(2) m] unfolding loop_returning_def by blast
qed

lemma known_field_returns:
  assumes "type_ok (tys t)" "loop_returning n tys" "in_buffer buf1" "length (pb_buf buf1) - pb_index buf1 < n"
    "tagMap_get (sp_decoderTags (getProperties (tys t))) tag = Some j" "p_coder (sp_Prop (getProperties (tys t)) ! nat j) = Some c"
    "dec_for tys (unmarshalType n tys) c (sp_Prop (getProperties (tys t)) ! nat j) wire = Some dc"
  shows "returns buf1 (dc (sp_Prop (getProperties (tys t)) ! nat j) base buf1)"
proof -
  obtain i where "j = int i" "i < length (tys t)" using tag_known [OF assms(1,5)] by blast
  moreover have "returning n (unmarshalType n tys)" using assms(2) by (simp add: returning_def unmarshalType_def loop_returning_def)
  ultimately show ?thesis using dec_for_returns [OF coder_field(2) _ assms(3,4,7)] assms(1,6) by simp
qed

text \<open>One turn of the loop, after the tag was read.\<close>

lemma turn_returns:
  assumes "type_ok (tys t)" "loop_returning n tys" "in_buffer buf" "pb_index buf < length (pb_buf buf)" "Buffer_DecodeVarint buf = (Inr u, buf1)" "length (pb_buf buf1) - pb_index buf1 < n"
  shows "returns buf (unmarshal_loop (Suc n) tys t g state req base buf)"
proof -
  have m: "moved buf buf1" using forward_moved [OF Buffer_DecodeVarint_forward assms(3)] by (simp add: assms(5))
  have in1: "in_buffer buf1" using moved_in_buffer [OF assms(3) m] .
  then have self1: "moved buf1 buf1" by (simp add: moved_def in_buffer_def)
  note go = loop_goes_on [OF assms(2,3) m _ assms(6)]
  note loop = unmarshal_loop.simps(2) [of n tys t g state req base buf] assms(4,5) unmarshalType_eta
  let ?wire = "uint (u AND 7)" and ?tag = "sint (drop_bit 3 u)"
  consider (stop) "?wire = WireEndGroup \<or> ?tag \<le> 0" | (unknown) "?wire \<noteq> WireEndGroup" "0 < ?tag" "tagMap_get (sp_decoderTags (getProperties (tys t))) ?tag = None"
    | (known) j where "?wire \<noteq> WireEndGroup" "0 < ?tag" "tagMap_get (sp_decoderTags (getProperties (tys t))) ?tag = Some j" by fastforce
  then show ?thesis
  proof cases
    case stop
    then show ?thesis using returnsI [OF m] by (auto simp: loop Let_def)
  next
    case unknown
    obtain e1 b1 buf2 where s: "skipAndSave ?tag ?wire base (sp_unrecField (getProperties (tys t))) buf1 = Some (e1, b1, buf2)" "moved buf1 buf2"
      using skipAndSave_returns [OF in1] unfolding returns_def by blast
    then show ?thesis using unknown go [OF s(2)] returnsI [OF moved_trans [OF m s(2)]] by (cases e1) (simp_all add: loop Let_def)
  next
    case (known j)
    let ?p = "sp_Prop (getProperties (tys t)) ! nat j"
    show ?thesis
    proof (cases "\<exists>c dc. p_coder ?p = Some c \<and> dec_for tys (unmarshalType n tys) c ?p ?wire = Some dc")
      case False
      then show ?thesis using known go [OF self1] returnsI [OF m] by (cases "p_coder ?p") (simp_all add: loop Let_def)
    next
      case True
      then obtain c dc where c: "p_coder ?p = Some c" "dec_for tys (unmarshalType n tys) c ?p ?wire = Some dc" by blast
      obtain e2 b2 buf3 where "dc ?p base buf1 = Some (e2, b2, buf3)" "moved buf1 buf3"
        using known_field_returns [of tys t, OF assms(1,2) in1 assms(6) known(3) c] unfolding returns_def by blast
      then show ?thesis
        using known c go [of buf3] returnsI [OF moved_trans [OF m, of buf3]] by (cases e2) (simp_all add: loop Let_def case_prod_unfold)
    qed
  qed
qed

lemma loop_returns:
  assumes "\<forall>t. type_ok (tys t)"
  shows "loop_returning n tys"
proof (induction n)
  case (Suc n)
  have "returns buf (unmarshal_loop (Suc n) tys t g st rq b buf)" if buf: "in_buffer buf" "length (pb_buf buf) - pb_index buf < Suc n" for t g st rq b buf
  proof -
    obtain r buf1 where d: "Buffer_DecodeVarint buf = (r, buf1)" by fastforce
    have m: "moved buf buf1" using forward_moved [OF Buffer_DecodeVarint_forward buf(1)] by (simp add: d)
    have self: "moved buf buf" using buf(1) by (simp add: moved_def in_buffer_def)
    show ?thesis
    proof (cases "pb_index buf < length (pb_buf buf) \<and> (\<exists>u. r = Inr u)")
      case False
      then show ?thesis using d m self by (cases r) (auto simp: Let_def returnsI)
    next
      case True
      then obtain u where u: "pb_index buf < length (pb_buf buf)" "r = Inr u" by blast
      have "pb_index buf < pb_index buf1" using Buffer_DecodeVarint_forward [of buf] by (simp add: forward_def d u(2))
      then have "length (pb_buf buf1) - pb_index buf1 < n" using buf(2) m u(1) by (auto simp: moved_def)
      then show ?thesis using turn_returns [of tys t, OF _ Suc buf(1) u(1) d [unfolded u(2)]] assms by simp
    qed
  qed
  then show ?case by (simp add: loop_returning_def)
qed (simp add: loop_returning_def)

text \<open>
  C24. \<open>Unmarshal\<close> of any bytes into generated types returns: with the message, or with an error and the fields read before it.  The decoder does not read outside the bytes,
  and neither nesting nor unknown or malformed fields make it run for ever.
\<close>

theorem Unmarshal_returns:
  assumes "\<forall>t. type_ok (tys t)" "length b < 2 ^ 63"
  shows "\<exists>err base. Unmarshal tys t b = Some (err, base)"
proof -
  have "in_buffer (NewBuffer b)" using assms(2) by (simp add: in_buffer_def NewBuffer_def)
  then have "returns (NewBuffer b) (unmarshalType (length b + 1) tys t False (zero_struct (tys t)) (NewBuffer b))"
    using loop_returns [OF assms(1), of "length b + 1"] by (simp add: loop_returning_def unmarshalType_def NewBuffer_def del: unmarshal_loop.simps)
  then show ?thesis by (auto simp: Unmarshal_def UnmarshalMerge_def Buffer_Unmarshal_def NewBuffer_def returns_def)
qed

theorem Unmarshal_returns_witness:
  "\<exists>err base. Unmarshal node_types 0 [8, 1, 0xFF] = Some (err, base)"
  by (rule Unmarshal_returns) (simp_all add: node_type_ok)

end
