(* ===== verification/Spec2Isabelle.thy ===== *)
theory Spec2Isabelle
  imports Gonet_ByteBuffer Gonet_Ring Gonet_TcpTask Gonet_TcpLink Gonet_TcpBufTask Gonet_MsgPool Gonet_Udp
    Redis_Crc16 Redis_ReadReply Redis_Packet Redis_ScanProofs Redis_ScanTypes Redis_Timeout Redis_ConnNet Redis_Pool
    Redis_Script Redis_Helper Web_AdminProofs Lib_Utils Lib_Service Log_Output Proto_Returns
begin

text \<open>
  A verification development for the Go sources of the redis proxy's front board, \<open>src/frontboard/src\<close>: the network library
  \<open>lib/gonet\<close>, the redis client \<open>lib/redis\<close>, the management server \<open>gredis_webserver\<close> with \<open>common\<close>, the small
  libraries \<open>lib/utils\<close>, \<open>lib/env\<close> and \<open>lib/service\<close>, the log \<open>lib/glog\<close> and the codec of protocol buffers \<open>lib/proto\<close>.

  \<^bold>\<open>The program.\<close>  The management server hands out redis instances.  Its handlers (\<open>createInstance\<close>, \<open>delInstance\<close>, ...) call
  \<open>AdminRedis\<close> in \<open>db.go\<close>, which keeps free addresses and instances in a redis database.  It reaches the database through \<open>RedisOp\<close>
  (\<open>helper.go\<close>), which turns structs into commands (\<open>scan.go\<close>) and replies into values (\<open>reply.go\<close>) over a connection (\<open>redisConn.go\<close>).
  A connection has a goroutine that writes the commands of all callers in the order of one channel, one that reads the replies and gives each to
  the caller of the oldest waiting command, one that reconnects and one that watches for stalls; commands are taken from a pool
  (\<open>cmdpool.go\<close>).  \<open>gonet\<close> is a library of sessions over TCP and UDP: framed messages (\<open>tcptask.go\<close>, \<open>tcpbuftask.go\<close>) over a byte
  buffer (\<open>bytebuffer.go\<close>), numbered datagrams (\<open>udptask.go\<close>) over a ring (\<open>ring.go\<close>), and a ring of messages (\<open>msgbuff.go\<close>).
  All of them write to the log, which formats a line in a buffer, adds it to the blocks of the files it belongs to, and writes the blocks from a goroutine of its own.

  \<^bold>\<open>How code is modelled.\<close>  A struct is a record with the fields of the source, a method a function that takes and returns the record.
  A panic is \<open>None\<close>, or \<open>Panics\<close> where a goroutine can also block on a channel (\<open>outcome\<close> in \<open>Go_Chan\<close>).  An error result is a value of an error type
  beside the result, as in Go.  Integers have the width of the source where arithmetic is done on them.  A connection is the list of chunks its reads
  give and the list of outcomes its writes have, so that a theorem about all lists is one about all ways the network can cut a stream.
  Goroutines that run at the same time are a step relation whose steps are the accesses to shared state.  The redis server is a
  parameter: a function from its state and the words of a command to a new state and a reply, with what redis documents for the commands used as the
  hypotheses (\<open>script_server\<close>, \<open>hash_server\<close>, \<open>admin_server\<close>), each shown to be satisfied by a concrete server in a witness.  Floating point texts and the printing of other
  types are the parameters \<open>go_fmt\<close>.

  \<^bold>\<open>The Go language and its library.\<close>  \<open>Go_Prelude\<close> has byte strings, slice expressions with their bounds checks, little-endian integers and rings;
  \<open>Go_Fifo\<close> the interface of a bounded queue, a locale that is interpreted on channels and on \<open>Ring\<close>; \<open>Go_Io\<close>, \<open>Go_Bufio\<close>, \<open>Go_Strings\<close>,
  \<open>Go_Strconv\<close>, \<open>Go_Value\<close> (values as reflection sees them), \<open>Go_Chan\<close> and \<open>Go_Sha1\<close> the parts of the library that are called.

  \<^bold>\<open>The network library.\<close>
  \<^item> \<open>Gonet_ByteBuffer\<close> (\<open>bytebuffer.go\<close>): every run of operations within the largest allocation behaves as a byte queue and never panics.
  \<^item> \<open>Gonet_Ring\<close> (\<open>ring.go\<close>): the least power of two slots, first in first out also when the counters wrap.
  \<^item> \<open>Gonet_TcpTask\<close>, \<open>Gonet_TcpLink\<close> (\<open>tcptask.go\<close>): the receive loop computes the frames of the stream for every chunking; under every interleaving of
    senders, send loop and close the receiver gets a prefix of what was queued and a quiet link has written everything; however \<open>Close\<close> and \<open>Stop\<close> run at the same time a session closes once, and a
    \<open>Stop\<close> behind the close panics.  The locale
    \<open>frame_receiver\<close> is what its receive loop and that of \<open>TcpBufTask\<close> share.
  \<^item> \<open>Gonet_TcpBufTask\<close> (\<open>tcpbuftask.go\<close>): sending from a ring of bytes shared with its owner gives the stream without gap or repetition.
  \<^item> \<open>Gonet_MsgPool\<close> (\<open>msgbuff.go\<close>): the ring of messages is a queue of frames; a received message that crosses the end is lost.
  \<^item> \<open>Gonet_Udp\<close> (\<open>udptask.go\<close>, \<open>udpserver.go\<close>): messages that are exchanged one at a time arrive in order until the 16-bit number wraps, and none after that.

  \<^bold>\<open>The redis client.\<close>
  \<^item> \<open>Redis_Crc16\<close> (\<open>crc16.go\<close>): the table computes the division by the polynomial; slots depend on the hash tag alone.
  \<^item> \<open>Redis_Codec\<close>, \<open>Redis_ReadReply\<close> (\<open>redisConn.go\<close> from \<open>writeLen\<close> on): commands and replies round trip, reading ends on every input.
  \<^item> \<open>Redis_Packet\<close> (\<open>bufio.go\<close>): the other codec, with the commands it writes badly; \<open>ReadLine\<close> for every chunking, also when
    the end of the stream comes with the last bytes.
  \<^item> \<open>Redis_Reply\<close> (\<open>reply.go\<close>), \<open>Redis_Scan\<close>, \<open>Redis_ScanProofs\<close>, \<open>Redis_ScanTypes\<close> (\<open>scan.go\<close>): conversions, their round trips (\<open>ScanStruct\<close> reads back
    what \<open>flattenStruct\<close> wrote) and that a scan keeps the types of the fields.
  \<^item> \<open>Redis_CmdPool\<close> (\<open>cmdpool.go\<close>, \<open>resultPool.go\<close>), \<open>Redis_Conn\<close> (the rest of \<open>redisConn.go\<close>), \<open>Redis_ConnFail\<close> (cleaning up and reconnecting),
    \<open>Redis_ConnLink\<close> and \<open>Redis_ConnOrder\<close> (callers, goroutines and server as one system while nothing fails), \<open>Redis_ConnNet\<close> (the same system with failing reads and writes,
    late commands, the watch, reconnections and closing), \<open>Redis_Timeout\<close> (\<open>processTimeOut\<close>): until the first failure each caller gets the
    reply to its own command and commands in flight are not shared, every queued command can be brought to its end, a reconnection answers those that wait, and a stalled connection
    is reset only for short warning periods.
  \<^item> \<open>Redis_Address\<close>, \<open>Redis_Pool\<close> (\<open>pool.go\<close>), \<open>Redis_Script\<close> (\<open>script.go\<close>), \<open>Redis_Helper\<close> (\<open>helper.go\<close>): addresses, the registry of pools, scripts by
    their hash, objects in hashes.

  \<^bold>\<open>The management server and the libraries around it.\<close>
  \<^item> \<open>Web_Admin\<close>, \<open>Web_AdminProofs\<close> (\<open>gredis_webserver\<close>, \<open>common/error.go\<close>): requests in sequence implement an allocator of addresses, and two
    overlapping deletions break it.
  \<^item> \<open>Lib_Utils\<close> (\<open>lib/utils\<close>, \<open>lib/env\<close>): addresses as numbers, texts as numbers, comments of the configuration file.
  \<^item> \<open>Lib_Service\<close> (\<open>lib/service\<close>): start, signals, loop and end of a process.

  \<^bold>\<open>The log\<close> (\<open>lib/glog\<close>).
  \<^item> \<open>Log_Buffer\<close> (\<open>syncBuffer\<close>): the blocks of a file, its writers and flushes as a step relation; a flush brings every accepted line to the files.
  \<^item> \<open>Log_Flushes\<close> (\<open>syncBuffer\<close>, \<open>lockAndFlushAll\<close>): any number of flushes of a file at once, which lose no line and can
    exchange lines.
  \<^item> \<open>Log_Format\<close> (\<open>formatHeader\<close>): the digits written in place are the text of the documented form, with the process number where the comment has the thread number.
  \<^item> \<open>Log_Flags\<close> (flags, \<open>V\<close>, \<open>SetLogFile\<close>, \<open>SetLogLevel\<close>): the cache of verbosity levels is transparent.
  \<^item> \<open>Log_Output\<close> (\<open>output\<close> and the calls of the log): the files of a severity and its blocks hold its lines, whole, and in order unless flushes overlapped.

  \<^bold>\<open>Protocol buffers\<close> (\<open>lib/proto\<close>).
  \<^item> \<open>Proto_Wire\<close> (the fundamental encoders, sizers and decoders, and \<open>skip\<close>): round trips of all values, and that skipping ends right behind a field.
  \<^item> \<open>Proto_Types\<close> (\<open>properties.go\<close>): the tag table, a locale of lookup tables that is interpreted on it, tag codes, and the properties parsed from struct tags.
  \<^item> \<open>Proto_Encode\<close> (\<open>encode.go\<close>), \<open>Proto_Decode\<close> (\<open>decode.go\<close>): an encoder, a sizer and a decoder for each kind of field, messages and groups in them, required and unknown fields.
  \<^item> \<open>Proto_EncodeProofs\<close>, \<open>Proto_Roundtrip\<close>, \<open>Proto_Returns\<close>: the encoders append the items of the wire format and the sizers count their bytes; \<open>Unmarshal\<close> gives back what \<open>Marshal\<close> wrote; it
    returns on every input.  The struct types are those the generated code has, \<open>type_ok\<close>.

  \<^bold>\<open>Bounds and fuel.\<close>  \<open>readReply\<close> recurses on nested replies with fuel; each level and each element takes a byte at least, and \<open>receive\<close> gives it twice the
  length of the input plus one, which is proved to be enough.  \<open>TcpTask_recvloop\<close> takes one unit per message; more units than bytes are proved to be enough.
  The loops over the outcomes of writes end with the list of outcomes, which is a loop that still waits for its write.  \<open>UdpTask_recv_drain\<close> has one unit more than the ring has slots, and every turn frees one.
  \<open>skip\<close> has two units per byte and two more, and is proved to return on every input.  \<open>unmarshalType\<close> has one unit per byte
  and one more, since every turn and every level reads a tag, and is proved to return on every input; \<open>Marshal\<close> and \<open>Size\<close> have the size of the message as their bound on nesting.
  Lengths are below the largest allocation, \<open>maxAlloc\<close>.

  \<^bold>\<open>Not modelled.\<close>  Opening, accepting and dialling sockets (\<open>tcpserver.go\<close>, \<open>tcpclient.go\<close>, binding in \<open>udpserver.go\<close>), which is input and output only; the web framework,
  its routes and the decoding of JSON, so that a handler starts from the decoded request; reading the configuration file; \<open>StrRemoveEmptySlice\<close>, \<open>InterfaceIsNil\<close> and \<open>PathExist\<close>.  Calls of the log
  are left out of the other parts, since none of them reads it, and so are the statistics that only the log shows; of the log itself the texts that \<open>fmt\<close> gives and the stack traces are arguments, and the creation of
  files in the file system is an outcome.  Of \<open>lib/proto\<close> the text format, extensions, message sets, map fields, types that marshal themselves, and comparing and copying are left out.  \<open>lib/protobuf\<close>, \<open>lib/gogoproto\<close> and \<open>lib/yaml\<close> are copies
  of third-party libraries that no part above calls, and \<open>github.com\<close>, \<open>golang.org\<close> and \<open>gopkg.in\<close> are vendored packages.  Times are arguments, and timers may fire at any time.  Accesses to fields that the source does not guard are atomic in the model,
  which Go does not promise.  Memory does not run out below the largest allocation, and stacks have no limit.
\<close>

end
